(* ===== verification/Prelude.thy ===== *)
theory Prelude
  imports Main "HOL-Library.Word" "HOL-Library.Char_ord"
begin

text \<open>
  Shared vocabulary of the development: bytes and byte strings, 64-bit counters, Go's error
  values (sentinels, wrapped and joined errors, \<^verbatim>\<open>errors.Is\<close>), the byte-slice helpers of
  \<^verbatim>\<open>bytes\<close> and \<^verbatim>\<open>strings\<close> that several packages call, and the two locales
  (\<open>invariant_machine\<close>, \<open>absorbing_machine\<close>) that lift one-step facts of a component to
  whole runs.
\<close>

unbundle bit_operations_syntax

named_theorems machine_simps \<open>unfolding rules of the components' step functions\<close>

section \<open>Bytes, counters and errors\<close>

text \<open>
  A Go \<^verbatim>\<open>[]byte\<close> and a Go \<^verbatim>\<open>string\<close> are both lists of bytes; a byte is HOL's 8-bit
  \<open>char\<close>, so that literals stay readable, \<open>of_char\<close> reads its value and
  \<open>char_of\<close> truncates to eight bits as \<^verbatim>\<open>byte\<close> arithmetic does.
\<close>

type_synonym byte = char
type_synonym bytes = "char list"
type_synonym u64 = "64 word"

abbreviation ESC :: char where "ESC \<equiv> CHR 0x1B"
abbreviation BEL :: char where "BEL \<equiv> CHR 0x07"
abbreviation NUL :: char where "NUL \<equiv> CHR 0x00"
abbreviation LF :: char where "LF \<equiv> CHR 0x0A"
abbreviation BSLASH :: char where "BSLASH \<equiv> CHR 0x5C"

definition byte_val :: "byte \<Rightarrow> nat" where
  "byte_val b = of_char b"

definition len :: "'a list \<Rightarrow> int" where
  "len xs = int (length xs)"

text \<open>\<^verbatim>\<open>int(^uint(0)>>1)\<close>: the largest Go \<^verbatim>\<open>int\<close> of a 64-bit build.\<close>

definition max_int :: int where
  "max_int = 2 ^ 63 - 1"

datatype sentinel =
    ErrClosed | ErrSaturated | ErrStale | ErrOutOfState | ErrMalformed | ErrObserveOnly
  | ErrReopenRequired | ErrCanceled | ErrNoProgress | ErrInvariant | ErrResizeFailed
  | ErrDecoderFailed | ErrForeignSession | ErrMissedFirstByte
  | ErrInvalidFrame | ErrShortWrite | ErrEOF | ErrUnexpectedEOF
  | ErrContextCanceled | ErrContextDeadline | ErrRecordingTransients

text \<open>
  An error value: a sentinel, an opaque text (\<^verbatim>\<open>errors.New\<close>, \<^verbatim>\<open>fmt.Errorf\<close> without
  \<^verbatim>\<open>%w\<close>), a text that wraps errors (\<^verbatim>\<open>%w\<close>), a join (\<^verbatim>\<open>errors.Join\<close>), or
  the typed \<^verbatim>\<open>*terminal.ResizeRefusal\<close>.
\<close>

datatype go_error =
    Sent sentinel
  | ErrText string
  | ErrWrap string "go_error list"
  | ErrJoin "go_error list"
  | Refusal go_error

text \<open>\<^verbatim>\<open>errors.Is(err, sentinel)\<close> and \<^verbatim>\<open>errors.As(err, **ResizeRefusal)\<close>.\<close>

fun err_is :: "go_error \<Rightarrow> sentinel \<Rightarrow> bool" where
  "err_is (Sent s) t = (s = t)"
| "err_is (ErrText _) t = False"
| "err_is (ErrWrap _ es) t = (\<exists>e \<in> set es. err_is e t)"
| "err_is (ErrJoin es) t = (\<exists>e \<in> set es. err_is e t)"
| "err_is (Refusal e) t = err_is e t"

text \<open>\<^verbatim>\<open>errors.Join\<close> drops nil errors and is nil when none is left.\<close>

definition errors_join :: "go_error option list \<Rightarrow> go_error option" where
  "errors_join es =
     (let kept = concat (map (\<lambda>e. case e of None \<Rightarrow> [] | Some x \<Rightarrow> [x]) es)
      in if kept = [] then None else Some (ErrJoin kept))"

lemma errors_join_cases:
  "errors_join [] = None"
  "errors_join (None # es) = errors_join es"
  by (simp_all add: errors_join_def)

lemma errors_join_Some_head [simp]:
  "errors_join (Some e # es) \<noteq> None"
  by (simp add: errors_join_def Let_def)

lemma errors_join_is:
  "errors_join es = Some e \<Longrightarrow> err_is e t \<longleftrightarrow> (\<exists>x. Some x \<in> set es \<and> err_is x t)"
  by (fastforce simp: errors_join_def Let_def split: if_splits option.splits)

section \<open>Byte-slice helpers\<close>

text \<open>\<^verbatim>\<open>bytes.HasPrefix\<close>, \<^verbatim>\<open>bytes.IndexByte\<close>, \<^verbatim>\<open>bytes.Index\<close>.\<close>

definition has_prefix :: "'a list \<Rightarrow> 'a list \<Rightarrow> bool" where
  "has_prefix s p \<longleftrightarrow> take (length p) s = p"

fun index_of :: "'a \<Rightarrow> 'a list \<Rightarrow> nat option" where
  "index_of c [] = None"
| "index_of c (x # xs) = (if x = c then Some 0 else map_option Suc (index_of c xs))"

fun index_sub :: "'a list \<Rightarrow> 'a list \<Rightarrow> nat option" where
  "index_sub p [] = (if p = [] then Some 0 else None)"
| "index_sub p (x # xs) =
     (if has_prefix (x # xs) p then Some 0 else map_option Suc (index_sub p xs))"

lemma has_prefix_append [simp]: "has_prefix (p @ s) p"
  by (simp add: has_prefix_def)

lemma has_prefix_iff: "has_prefix s p \<longleftrightarrow> (\<exists>r. s = p @ r)"
  unfolding has_prefix_def by (metis append_eq_conv_conj append_take_drop_id)

lemma has_prefix_Nil [simp]: "has_prefix s []"
  by (simp add: has_prefix_def)

lemma has_prefix_length: "has_prefix s p \<Longrightarrow> length p \<le> length s"
  by (auto simp: has_prefix_iff)

lemma index_of_None_iff: "index_of c xs = None \<longleftrightarrow> c \<notin> set xs"
  by (induction xs) auto

lemma index_of_SomeD:
  "index_of c xs = Some n \<Longrightarrow> n < length xs \<and> xs ! n = c \<and> c \<notin> set (take n xs)"
  by (induction xs arbitrary: n) (auto split: if_splits)

lemma index_of_append_Some:
  "index_of c xs = Some n \<Longrightarrow> index_of c (xs @ ys) = Some n"
  by (induction xs arbitrary: n) (auto split: if_splits)

lemma index_of_append_None:
  "c \<notin> set xs \<Longrightarrow> index_of c (xs @ ys) = map_option (\<lambda>n. length xs + n) (index_of c ys)"
  by (induction xs) (cases "index_of c ys"; auto)+

lemma index_of_split:
  "index_of c xs = Some n \<longleftrightarrow> (\<exists>us vs. xs = us @ c # vs \<and> c \<notin> set us \<and> length us = n)"
proof
  assume "index_of c xs = Some n"
  then have "n < length xs" and "xs ! n = c" and "c \<notin> set (take n xs)"
    by (auto dest: index_of_SomeD)
  then show "\<exists>us vs. xs = us @ c # vs \<and> c \<notin> set us \<and> length us = n"
    by (metis id_take_nth_drop length_take less_imp_le_nat min.absorb2)
next
  assume "\<exists>us vs. xs = us @ c # vs \<and> c \<notin> set us \<and> length us = n"
  then show "index_of c xs = Some n"
    by (auto simp: index_of_append_None)
qed

lemma index_sub_SomeD:
  "index_sub p s = Some n \<Longrightarrow> \<exists>r. s = take n s @ p @ r \<and> n + length p \<le> length s"
proof (induction s arbitrary: n)
  case Nil
  then show ?case by (simp split: if_splits)
next
  case (Cons x xs)
  show ?case
  proof (cases "has_prefix (x # xs) p")
    case True
    with Cons.prems have "n = 0" by simp
    with True show ?thesis
      by (metis add_0 append_Nil has_prefix_iff has_prefix_length take_0)
  next
    case False
    with Cons.prems obtain m where m: "index_sub p xs = Some m" "n = Suc m" by auto
    from Cons.IH [OF m(1)] m(2) show ?thesis by auto
  qed
qed

lemma has_prefix_shorter: "length p \<le> length s \<Longrightarrow> has_prefix (s @ t) p = has_prefix s p"
  by (simp add: has_prefix_def)

lemma index_sub_append_Some:
  "index_sub p s = Some n \<Longrightarrow> index_sub p (s @ t) = Some n"
proof (induction s arbitrary: n)
  case Nil
  then show ?case by (cases t) (auto split: if_splits)
next
  case (Cons x xs)
  from index_sub_SomeD [OF Cons.prems] have "length p \<le> length (x # xs)" by auto
  with has_prefix_shorter [OF this, of t] Cons show ?case by (auto split: if_splits)
qed

lemma index_sub_None_iff: "index_sub p s = None \<longleftrightarrow> (\<forall>u r. s \<noteq> u @ p @ r)"
proof (induction s)
  case Nil
  then show ?case by auto
next
  case (Cons x xs)
  show ?case
  proof (cases "has_prefix (x # xs) p")
    case True
    then show ?thesis by (auto simp: has_prefix_iff) (metis append_Nil)
  next
    case False
    have "(\<exists>u r. x # xs = u @ p @ r) \<longleftrightarrow> (\<exists>u r. xs = u @ p @ r)"
      using False unfolding has_prefix_iff
      by (metis append_Cons append_Nil list.exhaust list.inject)
    with False Cons.IH show ?thesis by auto
  qed
qed

text \<open>
  \<^verbatim>\<open>strconv.ParseUint(s, 10, 64)\<close>: at least one character, decimal digits only, and a
  value below $2^{64}$.
\<close>

definition is_digit :: "byte \<Rightarrow> bool" where
  "is_digit c \<longleftrightarrow> CHR ''0'' \<le> c \<and> c \<le> CHR ''9''"

definition digit_val :: "byte \<Rightarrow> nat" where
  "digit_val c = byte_val c - 48"

definition decimal_val :: "string \<Rightarrow> nat" where
  "decimal_val s = foldl (\<lambda>n c. 10 * n + digit_val c) 0 s"

definition parse_uint64 :: "string \<Rightarrow> u64 option" where
  "parse_uint64 s =
     (if s \<noteq> [] \<and> list_all is_digit s \<and> decimal_val s < 2 ^ 64
      then Some (word_of_nat (decimal_val s)) else None)"

section \<open>Runs of a component\<close>

text \<open>
  Every component is a step function on its state; a run folds it over a list of events.
  The first locale lifts an invariant from one step to a run, the second a state that is
  never left (failed, closed, sealed, terminal).
\<close>

locale invariant_machine =
  fixes step :: "'s \<Rightarrow> 'e \<Rightarrow> 's"
    and inv :: "'s \<Rightarrow> bool"
  assumes step_inv: "inv s \<Longrightarrow> inv (step s e)"
begin

lemma run_inv: "inv s \<Longrightarrow> inv (foldl step s es)"
  by (induction es arbitrary: s) (simp_all add: step_inv)

lemma run_inv_each: "inv s \<Longrightarrow> n \<le> length es \<Longrightarrow> inv (foldl step s (take n es))"
  by (rule run_inv)

end

locale absorbing_machine =
  fixes step :: "'s \<Rightarrow> 'e \<Rightarrow> 's"
    and dead :: "'s \<Rightarrow> bool"
  assumes step_dead: "dead s \<Longrightarrow> dead (step s e)"
begin

lemma run_dead: "dead s \<Longrightarrow> dead (foldl step s es)"
  by (induction es arbitrary: s) (simp_all add: step_dead)

lemma run_dead_later: "dead (foldl step s es) \<Longrightarrow> dead (foldl step s (es @ fs))"
  by (simp add: run_dead)

end

text \<open>A state that, once left behind, is kept in full: the publication points of the code.\<close>

locale frozen_machine = absorbing_machine +
  fixes view :: "'s \<Rightarrow> 'v"
  assumes step_view: "dead s \<Longrightarrow> view (step s e) = view s"
begin

lemma run_view: "dead s \<Longrightarrow> view (foldl step s es) = view s"
  by (induction es arbitrary: s) (simp_all add: step_view step_dead)

end

section \<open>Arithmetic and option helpers\<close>

lemma byte_val_less [simp]: "byte_val c < 256"
  by (simp add: byte_val_def)

lemma byte_val_char_of [simp]: "n < 256 \<Longrightarrow> byte_val (char_of n) = n"
  by (simp add: byte_val_def of_char_of)

lemma char_of_byte_val [simp]: "char_of (byte_val c) = c"
  by (simp add: byte_val_def)

lemma and_not_mask_int: "(x :: int) AND NOT (mask n) = x div 2 ^ n * 2 ^ n"
proof -
  have "push_bit n (drop_bit n x) = x AND NOT (mask n)"
    by (rule bit_eqI) (auto simp: bit_simps)
  then show ?thesis by (simp add: push_bit_eq_mult drop_bit_eq_div)
qed

lemma len_simps [simp]:
  "len [] = 0" "len (x # xs) = 1 + len xs" "len (xs @ ys) = len xs + len ys" "0 \<le> len xs"
  by (simp_all add: len_def)

lemma len_le_0_iff [simp]: "len xs \<le> 0 \<longleftrightarrow> xs = []"
  by (simp add: len_def)

lemma len_0_iff [simp]: "len xs = 0 \<longleftrightarrow> xs = []" "0 < len xs \<longleftrightarrow> xs \<noteq> []"
  by (simp_all add: len_def)

lemma len_take_le: "len (take n xs) \<le> len xs"
  by (simp add: len_def)

lemma len_drop_le: "len (drop n xs) \<le> len xs"
  by (simp add: len_def)

end
