(* ===== verification/Utf8.thy ===== *)
theory Utf8
  imports Prelude
begin

text \<open>
  The part of Go's \<^verbatim>\<open>unicode/utf8\<close>, \<^verbatim>\<open>unicode\<close> and \<^verbatim>\<open>strings\<close> that the sources
  rest on: \<^verbatim>\<open>utf8.DecodeRune\<close> (an invalid byte is the pair of the replacement rune and
  width one), \<^verbatim>\<open>utf8.Valid\<close>, \<^verbatim>\<open>unicode.IsSpace\<close> and \<^verbatim>\<open>strings.FieldsSeq\<close>.
\<close>

section \<open>Decoding one rune\<close>

definition rune_error :: nat where
  "rune_error = 0xFFFD"

definition cont_byte :: "byte \<Rightarrow> bool" where
  "cont_byte b \<longleftrightarrow> 0x80 \<le> byte_val b \<and> byte_val b \<le> 0xBF"

definition cont_bits :: "byte \<Rightarrow> nat" where
  "cont_bits b = byte_val b mod 0x40"

text \<open>The bounds of the second byte after a three- or four-byte lead.\<close>

definition second_ok :: "nat \<Rightarrow> byte \<Rightarrow> bool" where
  "second_ok lead b \<longleftrightarrow>
     (let lo = (if lead = 0xE0 then 0xA0 else if lead = 0xF0 then 0x90 else 0x80);
          hi = (if lead = 0xED then 0x9F else if lead = 0xF4 then 0x8F else 0xBF)
      in lo \<le> byte_val b \<and> byte_val b \<le> hi)"

fun decode_rune :: "bytes \<Rightarrow> nat \<times> nat" where
  "decode_rune [] = (rune_error, 0)"
| "decode_rune (b0 # rest) =
     (let x = byte_val b0 in
      if x < 0x80 then (x, 1)
      else if 0xC2 \<le> x \<and> x \<le> 0xDF then
        (case rest of
           b1 # _ \<Rightarrow> if cont_byte b1 then ((x mod 0x20) * 0x40 + cont_bits b1, 2) else (rune_error, 1)
         | [] \<Rightarrow> (rune_error, 1))
      else if 0xE0 \<le> x \<and> x \<le> 0xEF then
        (case rest of
           b1 # b2 # _ \<Rightarrow>
             if second_ok x b1 \<and> cont_byte b2
             then ((x mod 0x10) * 0x1000 + cont_bits b1 * 0x40 + cont_bits b2, 3)
             else (rune_error, 1)
         | _ \<Rightarrow> (rune_error, 1))
      else if 0xF0 \<le> x \<and> x \<le> 0xF4 then
        (case rest of
           b1 # b2 # b3 # _ \<Rightarrow>
             if second_ok x b1 \<and> cont_byte b2 \<and> cont_byte b3
             then ((x mod 0x08) * 0x40000 + cont_bits b1 * 0x1000 + cont_bits b2 * 0x40 + cont_bits b3, 4)
             else (rune_error, 1)
         | _ \<Rightarrow> (rune_error, 1))
      else (rune_error, 1))"

lemma decode_rune_width:
  "s \<noteq> [] \<Longrightarrow> 1 \<le> snd (decode_rune s) \<and> snd (decode_rune s) \<le> length s"
  by (cases s rule: decode_rune.cases) (auto simp: Let_def split: list.splits)

lemma decode_rune_pos [simp]: "0 < snd (decode_rune (b # s))"
  using decode_rune_width [of "b # s"] by simp

text \<open>A well-formed rune is decoded from its own bytes, whatever follows them.\<close>

lemma decode_rune_append:
  assumes "decode_rune s \<noteq> (rune_error, 1)" and "s \<noteq> []"
  shows "decode_rune (s @ t) = decode_rune s"
  using assms by (cases s rule: decode_rune.cases) (auto simp: Let_def split: list.splits if_splits)

section \<open>Validity\<close>

function utf8_valid :: "bytes \<Rightarrow> bool" where
  "utf8_valid s =
     (if s = [] then True
      else decode_rune s \<noteq> (rune_error, 1) \<and> utf8_valid (drop (snd (decode_rune s)) s))"
  by pat_completeness auto
termination
  by (relation "measure length") (auto dest: decode_rune_width)

declare utf8_valid.simps [simp del]

lemma utf8_valid_Nil [simp]: "utf8_valid []"
  by (simp add: utf8_valid.simps)

lemma utf8_valid_step:
  "s \<noteq> [] \<Longrightarrow>
   utf8_valid s \<longleftrightarrow> decode_rune s \<noteq> (rune_error, 1) \<and> utf8_valid (drop (snd (decode_rune s)) s)"
  by (subst utf8_valid.simps) simp

lemma utf8_valid_append:
  "utf8_valid s \<Longrightarrow> utf8_valid t \<Longrightarrow> utf8_valid (s @ t)"
proof (induction s rule: utf8_valid.induct)
  case (1 s)
  show ?case
  proof (cases "s = []")
    case True
    with "1.prems" show ?thesis by simp
  next
    case False
    then have step: "decode_rune s \<noteq> (rune_error, 1)" "utf8_valid (drop (snd (decode_rune s)) s)"
      using "1.prems"(1) utf8_valid_step by auto
    have "utf8_valid (drop (snd (decode_rune s)) s @ t)"
      using "1.IH" False step "1.prems"(2) by blast
    moreover have "snd (decode_rune s) \<le> length s"
      using decode_rune_width False by blast
    ultimately show ?thesis
      using False step decode_rune_append [of s t] by (subst utf8_valid_step) auto
  qed
qed

definition ascii :: "bytes \<Rightarrow> bool" where
  "ascii s \<longleftrightarrow> list_all (\<lambda>b. byte_val b < 0x80) s"

lemma decode_rune_ascii [simp]:
  "byte_val b < 0x80 \<Longrightarrow> decode_rune (b # s) = (byte_val b, 1)"
  by simp

lemma utf8_valid_ascii: "ascii s \<Longrightarrow> utf8_valid s"
  by (induction s) (auto simp: ascii_def utf8_valid_step rune_error_def)

section \<open>White space and fields\<close>

definition is_space :: "nat \<Rightarrow> bool" where
  "is_space r \<longleftrightarrow>
     r \<in> {0x09, 0x0A, 0x0B, 0x0C, 0x0D, 0x20, 0x85, 0xA0, 0x1680, 0x2028, 0x2029, 0x202F, 0x205F, 0x3000}
     \<or> (0x2000 \<le> r \<and> r \<le> 0x200A)"

text \<open>
  \<^verbatim>\<open>strings.FieldsSeq\<close>: maximal runs of runes that are no space. The accumulator is the
  field being read.
\<close>

function split_from :: "bytes \<Rightarrow> bytes \<Rightarrow> bytes list" where
  "split_from cur s =
     (if s = [] then (if cur = [] then [] else [cur])
      else let w = snd (decode_rune s) in
        if is_space (fst (decode_rune s))
        then (if cur = [] then split_from [] (drop w s) else cur # split_from [] (drop w s))
        else split_from (cur @ take w s) (drop w s))"
  by pat_completeness auto
termination
  by (relation "measure (length \<circ> snd)") (auto dest: decode_rune_width)

declare split_from.simps [simp del]

definition split_fields :: "bytes \<Rightarrow> bytes list" where
  "split_fields s = split_from [] s"

lemma split_from_Nil [simp]: "split_from cur [] = (if cur = [] then [] else [cur])"
  by (subst split_from.simps) simp

lemma split_from_ascii:
  assumes "byte_val b < 0x80"
  shows "split_from cur (b # s) =
     (if is_space (byte_val b)
      then (if cur = [] then split_from [] s else cur # split_from [] s)
      else split_from (cur @ [b]) s)"
  using assms by (subst split_from.simps) (simp add: Let_def)

text \<open>A field that holds only printable ASCII is read whole.\<close>

definition plain_field :: "bytes \<Rightarrow> bool" where
  "plain_field f \<longleftrightarrow> f \<noteq> [] \<and> list_all (\<lambda>b. byte_val b < 0x80 \<and> \<not> is_space (byte_val b)) f"

lemma split_from_plain:
  "list_all (\<lambda>b. byte_val b < 0x80 \<and> \<not> is_space (byte_val b)) f \<Longrightarrow>
   split_from cur (f @ s) = split_from (cur @ f) s"
  by (induction f arbitrary: cur) (simp_all add: split_from_ascii)

lemma split_from_plain_space:
  assumes "plain_field f"
  shows "split_from [] (f @ CHR '' '' # s) = f # split_from [] s"
proof -
  have "byte_val (CHR '' '') = 0x20" by (simp add: byte_val_def)
  then show ?thesis
    using assms by (simp add: plain_field_def split_from_plain split_from_ascii is_space_def)
qed

lemma split_plain_end: "plain_field f \<Longrightarrow> split_from [] f = [f]"
  using split_from_plain [of f "[]" "[]"] by (simp add: plain_field_def)

lemma split_nonempty: "f \<in> set (split_from cur s) \<Longrightarrow> f \<noteq> []"
proof (induction cur s rule: split_from.induct)
  case (1 cur s)
  show ?case
  proof (cases "s = []")
    case True
    with "1.prems" show ?thesis by (auto split: if_splits)
  next
    case False
    with "1.prems" have "f \<in> set (let w = snd (decode_rune s) in
        if is_space (fst (decode_rune s))
        then (if cur = [] then split_from [] (drop w s) else cur # split_from [] (drop w s))
        else split_from (cur @ take w s) (drop w s))"
      by (simp add: split_from.simps [of cur s])
    with "1.IH" False show ?thesis by (auto simp: Let_def split: if_splits)
  qed
qed

end
