(* ===== verification/Control_Decoder.thy ===== *)
theory Control_Decoder
  imports Utf8
begin

text \<open>
  The tmux control-mode decoder: \<^verbatim>\<open>internal/controlmode/decoder.go\<close> and
  \<^verbatim>\<open>internal/controlmode/memory.go\<close>. The state is the retained partial record, the open
  command block, the failure flag and the memory charged for the buffer; a read is one call of
  \<open>decoder_feed\<close>, which owns its decoded events through an \<open>event_batch\<close>. The
  \<^verbatim>\<open>Memory\<close> interface is the record \<open>memory_iface\<close>; its contract is the locale
  \<open>memory_contract\<close>, whose provider is the theory \<open>Transient_Budget\<close>.
\<close>

section \<open>Events and records\<close>

definition max_control_record :: int where
  "max_control_record = 16 * 2 ^ 20"

datatype event_kind =
    EventOutput | EventExtendedOutput | EventPause | EventContinue | EventNotification
  | EventCommandBegin | EventCommandResponse | EventCommandEnd | EventCommandError

record event =
  ev_kind :: event_kind
  ev_pane :: string
  ev_age :: u64
  ev_data :: bytes
  ev_name :: string
  ev_args :: string

definition event_of :: "event_kind \<Rightarrow> event" where
  "event_of k = \<lparr>ev_kind = k, ev_pane = [], ev_age = 0, ev_data = [], ev_name = [], ev_args = []\<rparr>"

record command_witness =
  wit_time :: string
  wit_number :: string
  wit_flags :: string

section \<open>One record\<close>

definition is_octal :: "byte \<Rightarrow> bool" where
  "is_octal d \<longleftrightarrow> CHR ''0'' \<le> d \<and> d \<le> CHR ''7''"

text \<open>\<^verbatim>\<open>value = value*8 + digit - '0'\<close> in \<^verbatim>\<open>byte\<close> arithmetic.\<close>

definition octal_step :: "nat \<Rightarrow> byte \<Rightarrow> nat" where
  "octal_step v d = (v * 8 + (byte_val d - 48)) mod 256"

definition octal_byte :: "byte \<Rightarrow> byte \<Rightarrow> byte \<Rightarrow> byte" where
  "octal_byte d1 d2 d3 = char_of (octal_step (octal_step (octal_step 0 d1) d2) d3)"

fun decode_payload :: "bytes \<Rightarrow> bytes option" where
  "decode_payload [] = Some []"
| "decode_payload (c # s) =
     (if c \<noteq> BSLASH then map_option (\<lambda>t. c # t) (decode_payload s)
      else case s of
        d1 # d2 # d3 # rest \<Rightarrow>
          if is_octal d1 \<and> is_octal d2 \<and> is_octal d3
          then map_option (\<lambda>t. octal_byte d1 d2 d3 # t) (decode_payload rest)
          else None
      | _ \<Rightarrow> None)"

text \<open>A witness line has at most four fields; a longer one yields the nil slice.\<close>

definition command_fields :: "bytes \<Rightarrow> bytes list" where
  "command_fields line = (let fs = split_fields line in if length fs > 4 then [] else fs)"

definition known_notification :: "string \<Rightarrow> bool" where
  "known_notification name \<longleftrightarrow> name \<in> set
     [''client-detached'', ''client-session-changed'', ''config-error'', ''continue'', ''exit'',
      ''layout-change'', ''message'', ''pane-mode-changed'', ''paste-buffer-changed'',
      ''paste-buffer-deleted'', ''pause'', ''session-changed'', ''session-renamed'',
      ''session-window-changed'', ''sessions-changed'', ''subscription-changed'',
      ''unlinked-window-add'', ''unlinked-window-close'', ''unlinked-window-renamed'',
      ''window-add'', ''window-close'', ''window-pane-changed'', ''window-renamed'']"

text \<open>The age field and the colon of an extended record.\<close>

definition decode_extended :: "bytes \<Rightarrow> (u64 \<times> bytes) option" where
  "decode_extended rest =
     (case index_of CHR '' '' rest of
        None \<Rightarrow> None
      | Some age_end \<Rightarrow>
          if age_end = 0 then None
          else case parse_uint64 (take age_end rest) of
            None \<Rightarrow> None
          | Some age \<Rightarrow>
              let rest' = drop (age_end + 1) rest in
              if has_prefix rest' '': '' then Some (age, drop 2 rest')
              else case index_sub '' : '' rest' of
                None \<Rightarrow> None
              | Some colon \<Rightarrow> Some (age, drop (colon + 3) rest'))"

definition decode_output :: "bytes \<Rightarrow> bool \<Rightarrow> event option" where
  "decode_output line extended =
     (let pre = (if extended then ''%extended-output '' else ''%output '');
          kind = (if extended then EventExtendedOutput else EventOutput);
          rest = drop (length pre) line
      in case index_of CHR '' '' rest of
           None \<Rightarrow> None
         | Some first_space \<Rightarrow>
             if first_space = 0 then None
             else let pane = take first_space rest;
                      body = drop (first_space + 1) rest
                  in case (if extended then decode_extended body else Some (0, body)) of
                       None \<Rightarrow> None
                     | Some (age, encoded) \<Rightarrow>
                         map_option
                           (\<lambda>d. (event_of kind)\<lparr>ev_pane := pane, ev_age := age, ev_data := d\<rparr>)
                           (decode_payload encoded))"

text \<open>A notification's name and arguments, split at the first space.\<close>

definition notification_parts :: "bytes \<Rightarrow> string \<times> string" where
  "notification_parts line =
     (case index_of CHR '' '' line of
        None \<Rightarrow> (drop 1 line, [])
      | Some space \<Rightarrow> (drop 1 (take space line), drop (space + 1) line))"

text \<open>
  \<^verbatim>\<open>decodeLine\<close>: the event of one record and the command block left open after it.
\<close>

definition decode_line ::
  "command_witness option \<Rightarrow> bytes \<Rightarrow> (event \<times> command_witness option) option" where
  "decode_line cmd line =
     (case cmd of
        Some w \<Rightarrow>
          if has_prefix line ''%begin '' then None
          else if has_prefix line ''%end '' \<or> has_prefix line ''%error '' then
            (case command_fields line of
               [name, t, n, f] \<Rightarrow>
                 if t \<noteq> wit_time w \<or> n \<noteq> wit_number w \<or> f \<noteq> wit_flags w then None
                 else Some (event_of (if name = ''%error'' then EventCommandError else EventCommandEnd), None)
             | _ \<Rightarrow> None)
          else Some ((event_of EventCommandResponse)\<lparr>ev_data := line @ [LF]\<rparr>, Some w)
      | None \<Rightarrow>
          if has_prefix line ''%begin '' then
            (case command_fields line of
               [_, t, n, f] \<Rightarrow>
                 Some (event_of EventCommandBegin,
                       Some \<lparr>wit_time = t, wit_number = n, wit_flags = f\<rparr>)
             | _ \<Rightarrow> None)
          else if has_prefix line ''%output '' then
            map_option (\<lambda>e. (e, None)) (decode_output line False)
          else if has_prefix line ''%extended-output '' then
            map_option (\<lambda>e. (e, None)) (decode_output line True)
          else if \<not> has_prefix line ''%'' then None
          else (case notification_parts line of (name, args) \<Rightarrow>
            if \<not> known_notification name then None
            else Some ((event_of (if name = ''pause'' then EventPause
                                  else if name = ''continue'' then EventContinue
                                  else EventNotification))
                         \<lparr>ev_name := name, ev_args := args\<rparr>, None)))"

section \<open>The drain loop\<close>

text \<open>
  The loop of \<^verbatim>\<open>feed\<close> over complete records. \<open>Drained\<close> carries the events, the
  retained suffix and the open block; \<open>Drain_failed\<close> the events decoded before the fault.
\<close>

datatype drain_result =
    Drained "event list" bytes "command_witness option"
  | Drain_failed "event list" "command_witness option"

function drain :: "command_witness option \<Rightarrow> bytes \<Rightarrow> event list \<Rightarrow> drain_result" where
  "drain cmd buf acc =
     (case index_of LF buf of
        None \<Rightarrow> if len buf > max_control_record then Drain_failed acc cmd else Drained acc buf cmd
      | Some newline \<Rightarrow>
          if int newline > max_control_record then Drain_failed acc cmd
          else case decode_line cmd (take newline buf) of
            None \<Rightarrow> Drain_failed acc cmd
          | Some (ev, cmd') \<Rightarrow> drain cmd' (drop (newline + 1) buf) (acc @ [ev]))"
  by pat_completeness auto
termination
  by (relation "measure (\<lambda>(cmd, buf, acc). length buf)") (auto dest: index_of_SomeD)

declare drain.simps [simp del]

section \<open>Memory, decoder and batches\<close>

text \<open>
  \<^verbatim>\<open>Memory\<close>: \<open>reserve\<close> refuses with \<open>None\<close> before anything is allocated.
\<close>

record 'm memory_iface =
  mem_reserve :: "int \<Rightarrow> 'm \<Rightarrow> 'm option"
  mem_release :: "int \<Rightarrow> 'm \<Rightarrow> 'm"

text \<open>
  \<open>budgeted\<close> is \<^verbatim>\<open>memory != nil\<close>; \<open>buffer_cap\<close> is \<^verbatim>\<open>cap(buffer)\<close>, which
  re-slicing past a record reduces; \<open>buffer_bytes\<close> is the charge of the current allocation.
\<close>

record decoder =
  buffer :: bytes
  buffer_cap :: int
  failed :: bool
  command :: "command_witness option"
  budgeted :: bool
  buffer_bytes :: int

record event_batch =
  batch_events :: "event list"
  batch_budgeted :: bool
  batch_bytes :: int

definition new_decoder :: decoder where
  "new_decoder = \<lparr>buffer = [], buffer_cap = 0, failed = False, command = None,
                  budgeted = False, buffer_bytes = 0\<rparr>"

definition new_budgeted_decoder :: decoder where
  "new_budgeted_decoder = new_decoder\<lparr>budgeted := True\<rparr>"

definition empty_batch :: event_batch where
  "empty_batch = \<lparr>batch_events = [], batch_budgeted = False, batch_bytes = 0\<rparr>"

text \<open>\<^verbatim>\<open>(n + 8191) &^ 8191\<close>.\<close>

definition rounded_bytes :: "int \<Rightarrow> int" where
  "rounded_bytes n = (if n = 0 then 0 else (n + 8191) AND NOT 8191)"

definition decoder_release :: "'m memory_iface \<Rightarrow> decoder \<Rightarrow> 'm \<Rightarrow> decoder \<times> 'm" where
  "decoder_release M d m =
     (d\<lparr>buffer := [], buffer_cap := 0, buffer_bytes := 0\<rparr>,
      if budgeted d \<and> buffer_bytes d \<noteq> 0 then mem_release M (buffer_bytes d) m else m)"

definition decoder_fail :: "'m memory_iface \<Rightarrow> decoder \<Rightarrow> 'm \<Rightarrow> decoder \<times> 'm" where
  "decoder_fail M d m = decoder_release M (d\<lparr>failed := True\<rparr>) m"

definition batch_release :: "'m memory_iface \<Rightarrow> event_batch \<Rightarrow> 'm \<Rightarrow> event_batch \<times> 'm" where
  "batch_release M b m =
     (\<lparr>batch_events = [], batch_budgeted = False, batch_bytes = 0\<rparr>,
      if batch_budgeted b \<and> batch_bytes b \<noteq> 0 then mem_release M (batch_bytes b) m else m)"

text \<open>\<^verbatim>\<open>Take\<close> moves the batch out: the owned value and the emptied original.\<close>

definition batch_take :: "event_batch \<Rightarrow> event_batch \<times> event_batch" where
  "batch_take b = (b, empty_batch)"

text \<open>
  Growing the buffer for \<open>want\<close> bytes: the new allocation is reserved before the old one
  is released. \<open>None\<close> is the refused reservation.
\<close>

definition grow_capacity :: "decoder \<Rightarrow> int \<Rightarrow> int" where
  "grow_capacity d want =
     (let capacity = rounded_bytes want;
          growth = min (2 * buffer_cap d) (max_control_record + 128 * 1024)
      in if growth > capacity then growth else capacity)"

definition grow_buffer ::
  "'m memory_iface \<Rightarrow> int \<Rightarrow> decoder \<Rightarrow> 'm \<Rightarrow> (decoder \<times> 'm) option" where
  "grow_buffer M want d m =
     (if want \<le> buffer_cap d then Some (d, m)
      else let capacity = grow_capacity d want;
               d' = d\<lparr>buffer_cap := capacity, buffer_bytes := capacity\<rparr>
           in if \<not> budgeted d then Some (d', m)
              else case mem_reserve M capacity m of
                None \<Rightarrow> None
              | Some m' \<Rightarrow> Some (d', mem_release M (buffer_bytes d) m'))"

definition batch_cost :: "bytes \<Rightarrow> int" where
  "batch_cost buf =
     (let count = length (filter (\<lambda>c. c = LF) buf)
      in if count = 0 then 0 else 3 * rounded_bytes (len buf) + 256 * int count)"

text \<open>
  \<^verbatim>\<open>feed\<close>: the result, the decoder, the batch and the memory after it. On a decoding
  fault the batch still owns its charge and the events decoded so far.
\<close>

definition drain_into ::
  "'m memory_iface \<Rightarrow> decoder \<Rightarrow> event_batch \<Rightarrow> 'm
     \<Rightarrow> (go_error + event list) \<times> decoder \<times> event_batch \<times> 'm" where
  "drain_into M d b m =
     (case drain (command d) (buffer d) [] of
        Drain_failed evs cmd \<Rightarrow>
          (let (d', m') = decoder_fail M (d\<lparr>command := cmd\<rparr>) m
           in (Inl (Sent ErrDecoderFailed), d', b\<lparr>batch_events := evs\<rparr>, m'))
      | Drained evs rest cmd \<Rightarrow>
          (let d' = d\<lparr>buffer := rest, buffer_cap := buffer_cap d - (len (buffer d) - len rest),
                      command := cmd\<rparr>;
               (d'', m') = (if rest = [] then decoder_release M d' m else (d', m))
           in (Inr evs, d'', b\<lparr>batch_events := evs\<rparr>, m')))"

definition feed_refused ::
  "'m memory_iface \<Rightarrow> decoder \<Rightarrow> event_batch \<Rightarrow> 'm
     \<Rightarrow> (go_error + event list) \<times> decoder \<times> event_batch \<times> 'm" where
  "feed_refused M d b m =
     (let (d', m') = decoder_fail M d m in (Inl (Sent ErrDecoderFailed), d', b, m'))"

definition feed_appended ::
  "'m memory_iface \<Rightarrow> decoder \<Rightarrow> event_batch \<Rightarrow> 'm
     \<Rightarrow> (go_error + event list) \<times> decoder \<times> event_batch \<times> 'm" where
  "feed_appended M d b m =
     (let cost = batch_cost (buffer d)
      in case (if budgeted d then mem_reserve M cost m else Some m) of
           None \<Rightarrow> feed_refused M d b m
         | Some m' \<Rightarrow> drain_into M d (b\<lparr>batch_budgeted := budgeted d, batch_bytes := cost\<rparr>) m')"

definition decoder_feed ::
  "'m memory_iface \<Rightarrow> bytes \<Rightarrow> decoder \<Rightarrow> event_batch \<Rightarrow> 'm
     \<Rightarrow> (go_error + event list) \<times> decoder \<times> event_batch \<times> 'm" where
  "decoder_feed M input d b m =
     (if failed d then (Inl (Sent ErrDecoderFailed), d, b, m)
      else if len input > max_int - len (buffer d) then feed_refused M d b m
      else case grow_buffer M (len (buffer d) + len input) d m of
        None \<Rightarrow> feed_refused M d b m
      | Some (d', m') \<Rightarrow> feed_appended M (d'\<lparr>buffer := buffer d' @ input\<rparr>) b m')"

text \<open>The two public entries: \<^verbatim>\<open>Decoder.Feed\<close> and \<^verbatim>\<open>EventBatch.Feed\<close>.\<close>

definition feed_unbudgeted :: "bytes \<Rightarrow> decoder \<Rightarrow> (go_error + event list) \<times> decoder" where
  "feed_unbudgeted input d =
     (if budgeted d then (Inl (Sent ErrDecoderFailed), d)
      else let (r, d', _, _) = decoder_feed \<lparr>mem_reserve = (\<lambda>_ m. Some m), mem_release = (\<lambda>_ m. m)\<rparr>
                                 input d empty_batch ()
           in (r, d'))"

definition batch_feed ::
  "'m memory_iface \<Rightarrow> bytes \<Rightarrow> decoder \<Rightarrow> event_batch \<Rightarrow> 'm
     \<Rightarrow> (go_error + event list) \<times> decoder \<times> event_batch \<times> 'm" where
  "batch_feed M input d b m =
     (let (b', m') = batch_release M b m in decoder_feed M input d b' m')"

definition decoder_close :: "'m memory_iface \<Rightarrow> decoder \<Rightarrow> 'm \<Rightarrow> go_error option \<times> decoder \<times> 'm" where
  "decoder_close M d m =
     (if failed d then (Some (Sent ErrDecoderFailed), d, m)
      else if buffer d \<noteq> [] \<or> command d \<noteq> None
      then (let (d', m') = decoder_fail M d m in (Some (Sent ErrDecoderFailed), d', m'))
      else (None, d, m))"

section \<open>Rounding\<close>

lemma rounded_bytes_div: "rounded_bytes n = (if n = 0 then 0 else (n + 8191) div 8192 * 8192)"
proof -
  have m: "mask 13 = (8191 :: int)"
    by (simp add: mask_eq_exp_minus_1)
  have "(n + 8191) AND NOT 8191 = (n + 8191) div 2 ^ 13 * 2 ^ 13"
    by (rule and_not_mask_int [of _ 13, unfolded m])
  moreover have "(2 :: int) ^ 13 = 8192" by simp
  ultimately have "(n + 8191) AND NOT 8191 = (n + 8191) div 8192 * 8192" by metis
  then show ?thesis unfolding rounded_bytes_def by metis
qed

lemma rounded_bytes_bounds:
  "0 \<le> n \<Longrightarrow> n \<le> rounded_bytes n \<and> rounded_bytes n < n + 8192"
proof -
  assume "0 \<le> n"
  have "0 \<le> (n + 8191) mod 8192" "(n + 8191) mod 8192 < 8192"
    by (rule pos_mod_sign pos_mod_bound, simp)+
  moreover have "(n + 8191) div 8192 * 8192 = n + 8191 - (n + 8191) mod 8192"
    by (rule minus_mod_eq_div_mult [symmetric])
  ultimately show ?thesis using \<open>0 \<le> n\<close> unfolding rounded_bytes_div by (smt (verit))
qed

lemma rounded_bytes_nonneg [simp]: "0 \<le> n \<Longrightarrow> 0 \<le> rounded_bytes n"
  using rounded_bytes_bounds [of n] by linarith

section \<open>The escape of payload bytes\<close>

text \<open>
  The inverse of \<open>decode_payload\<close> as a specification: any set of bytes, with the backslash
  always among them, written as three octal digits.
\<close>

definition octal_digits :: "byte \<Rightarrow> bytes" where
  "octal_digits c =
     [char_of (48 + byte_val c div 64), char_of (48 + byte_val c div 8 mod 8), char_of (48 + byte_val c mod 8)]"

fun escape_payload :: "(byte \<Rightarrow> bool) \<Rightarrow> bytes \<Rightarrow> bytes" where
  "escape_payload p [] = []"
| "escape_payload p (c # s) =
     (if p c \<or> c = BSLASH then BSLASH # octal_digits c else [c]) @ escape_payload p s"

lemma is_octal_iff: "is_octal d \<longleftrightarrow> 48 \<le> byte_val d \<and> byte_val d \<le> 55"
  by (simp add: is_octal_def byte_val_def less_eq_char_def)

lemma octal_value: "(n div 64 * 8 + n div 8 mod 8) * 8 + n mod 8 = (n :: nat)"
proof -
  have "n div 64 = n div 8 div 8" by (simp add: div_mult2_eq [symmetric])
  then have "n div 64 * 8 + n div 8 mod 8 = n div 8" by (simp only: div_mult_mod_eq)
  then show ?thesis by (simp only: div_mult_mod_eq)
qed

lemma octal_digits_octal:
  assumes "octal_digits c = [d1, d2, d3]"
  shows "is_octal d1 \<and> is_octal d2 \<and> is_octal d3 \<and> octal_byte d1 d2 d3 = c"
proof -
  define n where "n = byte_val c"
  have n: "n < 256" by (simp add: n_def)
  then have v: "byte_val d1 = 48 + n div 64" "byte_val d2 = 48 + n div 8 mod 8" "byte_val d3 = 48 + n mod 8"
    using assms by (auto simp: octal_digits_def n_def [symmetric] less_mult_imp_div_less)
  have "octal_step 0 d1 = n div 64" using n by (simp add: octal_step_def v)
  moreover have "octal_step (n div 64) d2 = n div 64 * 8 + n div 8 mod 8"
    using n by (simp add: octal_step_def v)
  moreover have "octal_step (n div 64 * 8 + n div 8 mod 8) d3 = ((n div 64 * 8 + n div 8 mod 8) * 8 + n mod 8) mod 256"
    by (simp only: octal_step_def v diff_add_inverse)
  ultimately have "octal_step (octal_step (octal_step 0 d1) d2) d3 = ((n div 64 * 8 + n div 8 mod 8) * 8 + n mod 8) mod 256"
    by (simp only:)
  also have "\<dots> = n" using n by (simp only: octal_value mod_less)
  finally have "octal_byte d1 d2 d3 = c" by (simp only: octal_byte_def n_def char_of_byte_val)
  moreover have "n div 64 \<le> 7" "n div 8 mod 8 \<le> 7" "n mod 8 \<le> 7" using n by linarith+
  ultimately show ?thesis unfolding is_octal_iff v by simp
qed

lemma decode_payload_escape [simp]: "decode_payload (escape_payload p s) = Some s"
proof (induction s)
  case Nil
  then show ?case by simp
next
  case (Cons c s)
  obtain d1 d2 d3 where d: "octal_digits c = [d1, d2, d3]" by (simp add: octal_digits_def)
  with Cons octal_digits_octal [OF d] show ?case by auto
qed

section \<open>The drain loop and its input\<close>

lemma drain_no_newline:
  "index_of LF buf = None \<Longrightarrow>
   drain cmd buf acc = (if len buf > max_control_record then Drain_failed acc cmd else Drained acc buf cmd)"
  by (subst drain.simps) simp

lemma drain_newline:
  "index_of LF buf = Some n \<Longrightarrow>
   drain cmd buf acc =
     (if int n > max_control_record then Drain_failed acc cmd
      else case decode_line cmd (take n buf) of
        None \<Rightarrow> Drain_failed acc cmd
      | Some (ev, cmd') \<Rightarrow> drain cmd' (drop (n + 1) buf) (acc @ [ev]))"
  by (subst drain.simps) simp

fun drain_then :: "drain_result \<Rightarrow> bytes \<Rightarrow> drain_result" where
  "drain_then (Drain_failed evs cmd) b = Drain_failed evs cmd"
| "drain_then (Drained evs rest cmd) b = drain cmd (rest @ b) evs"

lemma drain_append: "drain cmd (a @ b) acc = drain_then (drain cmd a acc) b"
proof (induction cmd a acc rule: drain.induct)
  case (1 cmd buf acc)
  show ?case
  proof (cases "index_of LF buf")
    case None
    show ?thesis
    proof (cases "len buf > max_control_record")
      case True
      have "drain cmd (buf @ b) acc = Drain_failed acc cmd"
      proof (cases "index_of LF (buf @ b)")
        case None
        with True show ?thesis
          by (subst drain_no_newline) (auto simp: len_def)
      next
        case (Some n)
        then have "length buf \<le> n"
          using \<open>index_of LF buf = None\<close> by (auto simp: index_of_None_iff index_of_append_None)
        with True Some show ?thesis
          by (subst drain_newline) (auto simp: len_def)
      qed
      with None True show ?thesis by (simp add: drain_no_newline)
    next
      case False
      with None show ?thesis by (simp add: drain_no_newline)
    qed
  next
    case (Some n)
    then have n: "n < length buf" by (auto dest: index_of_SomeD)
    with "1.IH" Some show ?thesis
      by (subst (1 2) drain_newline) (auto simp: index_of_append_Some split: option.splits)
  qed
qed

lemma drain_acc:
  "drain cmd buf (pre @ acc) =
     (case drain cmd buf acc of
        Drain_failed evs c \<Rightarrow> Drain_failed (pre @ evs) c
      | Drained evs rest c \<Rightarrow> Drained (pre @ evs) rest c)"
proof (induction cmd buf acc rule: drain.induct)
  case (1 cmd buf acc)
  then show ?case
    by (subst (1 2) drain.simps) (auto split: option.splits)
qed

lemma drain_rest: "drain cmd buf acc = Drained evs rest c \<Longrightarrow> LF \<notin> set rest \<and> len rest \<le> max_control_record \<and> length rest \<le> length buf"
proof (induction cmd buf acc rule: drain.induct)
  case (1 cmd buf acc)
  show ?case
  proof (cases "index_of LF buf")
    case None
    with "1.prems" show ?thesis
      by (auto simp: drain_no_newline index_of_None_iff split: if_splits)
  next
    case (Some n)
    with "1.prems" obtain ev cmd' where *: "\<not> int n > max_control_record"
      "decode_line cmd (take n buf) = Some (ev, cmd')"
      "drain cmd' (drop (n + 1) buf) (acc @ [ev]) = Drained evs rest c"
      by (auto simp: drain_newline split: if_splits option.splits)
    from "1.IH" [OF Some *(1,2) refl *(3)] show ?thesis by auto
  qed
qed

lemma decode_payload_length: "decode_payload s = Some t \<Longrightarrow> length t \<le> length s"
proof (induction s arbitrary: t rule: decode_payload.induct)
  case 1
  then show ?case by simp
next
  case (2 c s)
  show ?case
  proof (cases "c = BSLASH")
    case False
    with 2 show ?thesis by auto
  next
    case True
    with "2.prems" obtain d1 d2 d3 rest t' where s: "s = d1 # d2 # d3 # rest"
      "is_octal d1 \<and> is_octal d2 \<and> is_octal d3" "decode_payload rest = Some t'" "t = octal_byte d1 d2 d3 # t'"
      by (auto split: list.splits if_splits)
    have "length t' \<le> length rest" using "2.IH"(2) True s by simp
    with s show ?thesis by simp
  qed
qed

section \<open>Chunks do not matter\<close>

text \<open>A decoder between two reads retains no complete record and no oversized one.\<close>

definition decoder_settled :: "decoder \<Rightarrow> bool" where
  "decoder_settled d \<longleftrightarrow> \<not> failed d \<and> LF \<notin> set (buffer d) \<and> len (buffer d) \<le> max_control_record"

text \<open>
  What the records of a stream mean, read at once: the events, the retained suffix and the open
  block. \<open>feed_view\<close> reads the same three off a call's result.
\<close>

type_synonym stream_view = "go_error + (event list \<times> bytes \<times> command_witness option)"

definition stream_result :: "decoder \<Rightarrow> bytes \<Rightarrow> stream_view" where
  "stream_result d s =
     (case drain (command d) (buffer d @ s) [] of
        Drain_failed _ _ \<Rightarrow> Inl (Sent ErrDecoderFailed)
      | Drained evs rest c \<Rightarrow> Inr (evs, rest, c))"

definition feed_view :: "(go_error + event list) \<times> decoder \<Rightarrow> stream_view" where
  "feed_view r = (case r of (Inl e, _) \<Rightarrow> Inl e | (Inr evs, d) \<Rightarrow> Inr (evs, buffer d, command d))"

lemma new_decoder_settled [simp]: "decoder_settled new_decoder" "\<not> budgeted new_decoder"
  by (simp_all add: decoder_settled_def new_decoder_def max_control_record_def)

lemma feed_unbudgeted_cases:
  assumes "\<not> budgeted d" "\<not> failed d" "len (buffer d) + len input \<le> max_int"
  shows "case drain (command d) (buffer d @ input) [] of
       Drain_failed evs c \<Rightarrow>
         \<exists>d'. feed_unbudgeted input d = (Inl (Sent ErrDecoderFailed), d') \<and> failed d'
     | Drained evs rest c \<Rightarrow>
         \<exists>d'. feed_unbudgeted input d = (Inr evs, d') \<and> \<not> failed d' \<and> \<not> budgeted d'
            \<and> buffer d' = rest \<and> command d' = c"
  using assms
  by (auto simp: feed_unbudgeted_def decoder_feed_def feed_appended_def feed_refused_def grow_buffer_def drain_into_def Let_def
      decoder_fail_def decoder_release_def split: drain_result.splits)

lemma feed_unbudgeted_failed:
  assumes "\<not> budgeted d" "\<not> failed d" "len (buffer d) + len input \<le> max_int"
    "drain (command d) (buffer d @ input) [] = Drain_failed evs c"
  shows "\<exists>d'. feed_unbudgeted input d = (Inl (Sent ErrDecoderFailed), d') \<and> failed d'"
  using feed_unbudgeted_cases [OF assms(1-3)] assms(4) by simp

lemma feed_unbudgeted_drained:
  assumes "\<not> budgeted d" "\<not> failed d" "len (buffer d) + len input \<le> max_int"
    "drain (command d) (buffer d @ input) [] = Drained evs rest c"
  shows "\<exists>d'. feed_unbudgeted input d = (Inr evs, d') \<and> decoder_settled d' \<and> \<not> budgeted d'
            \<and> buffer d' = rest \<and> command d' = c \<and> length rest \<le> length (buffer d @ input)"
  using feed_unbudgeted_cases [OF assms(1-3)] assms(4) drain_rest [OF assms(4)]
  by (auto simp: decoder_settled_def)

text \<open>Reading a stream chunk by chunk, stopping at the first fault as the observer does.\<close>

fun feed_all :: "bytes list \<Rightarrow> decoder \<Rightarrow> (go_error + event list) \<times> decoder" where
  "feed_all [] d = (Inr [], d)"
| "feed_all (c # cs) d =
     (case feed_unbudgeted c d of
        (Inl e, d') \<Rightarrow> (Inl e, d')
      | (Inr evs, d') \<Rightarrow>
          (case feed_all cs d' of
             (Inl e, d'') \<Rightarrow> (Inl e, d'')
           | (Inr evs', d'') \<Rightarrow> (Inr (evs @ evs'), d'')))"

lemma stream_result_settled: "decoder_settled d \<Longrightarrow> stream_result d [] = Inr ([], buffer d, command d)"
  by (auto simp: stream_result_def decoder_settled_def drain_no_newline index_of_None_iff)

lemma feed_all_stream:
  assumes "decoder_settled d" "\<not> budgeted d" "len (buffer d) + len (concat cs) \<le> max_int"
  shows "feed_view (feed_all cs d) = stream_result d (concat cs)"
  using assms
proof (induction cs arbitrary: d)
  case Nil
  then show ?case by (simp add: stream_result_settled feed_view_def)
next
  case (Cons c cs)
  have nf: "\<not> failed d" using Cons.prems(1) by (simp add: decoder_settled_def)
  have sz: "len (buffer d) + len c \<le> max_int"
    using Cons.prems(3) by (simp add: len_def)
  let ?whole = "drain (command d) (buffer d @ c @ concat cs) []"
  have whole: "?whole = drain_then (drain (command d) (buffer d @ c) []) (concat cs)"
    using drain_append [of "command d" "buffer d @ c" "concat cs" "[]"] by simp
  show ?case
  proof (cases "drain (command d) (buffer d @ c) []")
    case (Drain_failed evs w)
    with feed_unbudgeted_failed [OF Cons.prems(2) nf sz] whole
    show ?thesis by (auto simp: stream_result_def feed_view_def)
  next
    case (Drained evs rest w)
    from feed_unbudgeted_drained [OF Cons.prems(2) nf sz Drained] obtain d' where
      d': "feed_unbudgeted c d = (Inr evs, d')" "decoder_settled d'" "\<not> budgeted d'"
        "buffer d' = rest" "command d' = w" "length rest \<le> length (buffer d @ c)"
      by blast
    have "len (buffer d') + len (concat cs) \<le> max_int"
      using d'(4,6) Cons.prems(3) by (auto simp: len_def)
    with Cons.IH d' have tail: "feed_view (feed_all cs d') = stream_result d' (concat cs)" by blast
    have "?whole = drain w (rest @ concat cs) (evs @ [])"
      using whole Drained by simp
    then have "stream_result d (concat (c # cs)) =
        map_sum id (\<lambda>(e, r, w). (evs @ e, r, w)) (stream_result d' (concat cs))"
      unfolding stream_result_def d'(4,5)
      by (subst (asm) drain_acc) (auto split: drain_result.splits)
    with tail [symmetric] d'(1) show ?thesis
      by (cases "feed_all cs d'") (auto simp: feed_view_def split: sum.splits)
  qed
qed

lemma feed_all_new_stream:
  assumes "len (concat cs) \<le> max_int"
  shows "feed_view (feed_all cs new_decoder) = stream_result new_decoder (concat cs)"
  by (rule feed_all_stream [OF new_decoder_settled]) (use assms in \<open>simp add: new_decoder_def\<close>)

lemma feed_all_single: "feed_view (feed_all [c] d) = feed_view (feed_unbudgeted c d)"
  by (auto simp: feed_view_def split: sum.splits prod.splits)

text \<open>
  C35: The decoder does not depend on how the observer's stream is cut into reads: feeding the chunks
  one by one gives the events, the retained suffix, the open command block or the failure that
  feeding their concatenation at once gives.
\<close>

theorem decoder_chunking:
  assumes "len (concat cs) \<le> max_int"
  shows "feed_view (feed_all cs new_decoder) = feed_view (feed_unbudgeted (concat cs) new_decoder)"
  using feed_all_new_stream [OF assms] feed_all_new_stream [of "[concat cs]"] assms
  by (simp add: feed_all_single del: feed_all.simps)

section \<open>Command blocks\<close>

text \<open>
  The shape of a decoded stream: a command block opens with a begin, holds responses only and
  closes with an end or an error; nothing else appears inside one.
\<close>

fun block_step :: "bool \<Rightarrow> event_kind \<Rightarrow> bool option" where
  "block_step True EventCommandResponse = Some True"
| "block_step True EventCommandEnd = Some False"
| "block_step True EventCommandError = Some False"
| "block_step False EventCommandBegin = Some True"
| "block_step False EventOutput = Some False"
| "block_step False EventExtendedOutput = Some False"
| "block_step False EventPause = Some False"
| "block_step False EventContinue = Some False"
| "block_step False EventNotification = Some False"
| "block_step _ _ = None"

fun block_run :: "bool \<Rightarrow> event_kind list \<Rightarrow> bool option" where
  "block_run b [] = Some b"
| "block_run b (k # ks) = (case block_step b k of None \<Rightarrow> None | Some b' \<Rightarrow> block_run b' ks)"

lemma block_run_append:
  "block_run b (ks @ ls) = (case block_run b ks of None \<Rightarrow> None | Some b' \<Rightarrow> block_run b' ls)"
  by (induction ks arbitrary: b) (auto split: option.splits)

lemma decode_output_kind:
  "decode_output line x = Some e \<Longrightarrow> ev_kind e = (if x then EventExtendedOutput else EventOutput)"
  by (auto simp: decode_output_def event_of_def Let_def split: option.splits if_splits)

lemma decode_line_block:
  "decode_line cmd line = Some (e, cmd') \<Longrightarrow> block_step (cmd \<noteq> None) (ev_kind e) = Some (cmd' \<noteq> None)"
  by (auto simp: decode_line_def event_of_def dest: decode_output_kind
      split: option.splits if_splits list.splits prod.splits)

lemma drain_blocks:
  "drain cmd buf acc = Drained evs rest c \<Longrightarrow> block_run b (map ev_kind acc) = Some (cmd \<noteq> None) \<Longrightarrow>
   block_run b (map ev_kind evs) = Some (c \<noteq> None)"
proof (induction cmd buf acc rule: drain.induct)
  case (1 cmd buf acc)
  show ?case
  proof (cases "index_of LF buf")
    case None
    with "1.prems" show ?thesis by (auto simp: drain_no_newline split: if_splits)
  next
    case (Some n)
    with "1.prems" obtain ev cmd' where *: "\<not> int n > max_control_record"
      "decode_line cmd (take n buf) = Some (ev, cmd')"
      "drain cmd' (drop (n + 1) buf) (acc @ [ev]) = Drained evs rest c"
      by (auto simp: drain_newline split: if_splits option.splits)
    have "block_run b (map ev_kind (acc @ [ev])) = Some (cmd' \<noteq> None)"
      using "1.prems"(2) decode_line_block [OF *(2)] by (simp add: block_run_append)
    with "1.IH" [OF Some *(1,2) refl *(3)] show ?thesis by simp
  qed
qed

text \<open>
  Decoded command blocks are well formed: over any reads that did not fail, a block opens with a
  begin, holds responses only, closes with an end or an error, and nothing else appears inside one;
  a block is left open exactly when the decoder remembers its witness.
\<close>

theorem decoder_blocks:
  assumes "feed_all cs new_decoder = (Inr evs, d)" and "len (concat cs) \<le> max_int"
  shows "block_run False (map ev_kind evs) = Some (command d \<noteq> None)"
proof -
  from feed_all_new_stream [OF assms(2)] assms(1)
  have "drain None (concat cs) [] = Drained evs (buffer d) (command d)"
    by (auto simp: stream_result_def feed_view_def new_decoder_def split: drain_result.splits)
  then show ?thesis by (rule drain_blocks) simp
qed

section \<open>What tmux wrote comes back\<close>

text \<open>The record tmux writes for output of a pane, escaping the bytes \<open>p\<close> selects.\<close>

definition output_record :: "(byte \<Rightarrow> bool) \<Rightarrow> string \<times> bytes \<Rightarrow> bytes" where
  "output_record p x = ''%output '' @ fst x @ '' '' @ escape_payload p (snd x)"

definition output_event :: "string \<times> bytes \<Rightarrow> event" where
  "output_event x = (event_of EventOutput)\<lparr>ev_pane := fst x, ev_data := snd x\<rparr>"

definition good_output :: "(byte \<Rightarrow> bool) \<Rightarrow> string \<times> bytes \<Rightarrow> bool" where
  "good_output p x \<longleftrightarrow>
     fst x \<noteq> [] \<and> CHR '' '' \<notin> set (fst x) \<and> LF \<notin> set (fst x) \<and> len (output_record p x) \<le> max_control_record"

definition output_stream :: "(byte \<Rightarrow> bool) \<Rightarrow> (string \<times> bytes) list \<Rightarrow> bytes" where
  "output_stream p outs = concat (map (\<lambda>x. output_record p x @ [LF]) outs)"

lemma octal_digits_no_LF: "LF \<notin> set (octal_digits c)"
proof -
  obtain d1 d2 d3 where d: "octal_digits c = [d1, d2, d3]" by (simp add: octal_digits_def)
  have "\<not> is_octal LF" by (simp add: is_octal_iff byte_val_def)
  with octal_digits_octal [OF d] d show ?thesis by auto
qed

lemma escape_payload_no_LF: "p LF \<Longrightarrow> LF \<notin> set (escape_payload p s)"
  by (induction s) (use octal_digits_no_LF in auto)

lemma decode_output_record:
  assumes "good_output p x"
  shows "decode_line None (output_record p x) = Some (output_event x, None)"
proof -
  have i: "index_of CHR '' '' (fst x @ CHR '' '' # escape_payload p (snd x)) = Some (length (fst x))"
    using assms by (simp add: good_output_def index_of_append_None)
  have pre: "has_prefix (output_record p x) ''%output ''" "\<not> has_prefix (output_record p x) ''%begin ''"
    by (simp_all add: output_record_def has_prefix_def)
  have "decode_output (output_record p x) False = Some (output_event x)"
    using i assms by (simp add: decode_output_def output_record_def output_event_def good_output_def event_of_def)
  with pre show ?thesis by (simp add: decode_line_def)
qed

lemma drain_output_stream:
  assumes "p LF" "list_all (good_output p) outs"
  shows "drain None (output_stream p outs) acc = Drained (acc @ map output_event outs) [] None"
  using assms(2)
proof (induction outs arbitrary: acc)
  case Nil
  then show ?case by (simp add: output_stream_def drain_no_newline max_control_record_def)
next
  case (Cons x outs)
  have no: "LF \<notin> set (output_record p x)"
    using Cons.prems escape_payload_no_LF [of p "snd x", OF assms(1)]
    by (auto simp: output_record_def good_output_def)
  have stream: "output_stream p (x # outs) = output_record p x @ LF # output_stream p outs"
    by (simp add: output_stream_def)
  have i: "index_of LF (output_stream p (x # outs)) = Some (length (output_record p x))"
    using no by (simp add: stream index_of_append_None)
  have l: "int (length (output_record p x)) \<le> max_control_record"
    using Cons.prems by (simp add: good_output_def len_def)
  from Cons.IH [of "acc @ [output_event x]"] Cons.prems l decode_output_record [of p x]
  show ?case unfolding drain_newline [OF i] by (simp add: stream)
qed

text \<open>
  C34: Pane output survives the control stream: for any escaping that covers the newline (the
  backslash always is), whatever bytes panes wrote, and however the stream of their records is cut
  into reads, the decoder returns exactly those writes in order, with nothing retained.
\<close>

theorem decoder_output_roundtrip:
  assumes "p LF" "list_all (good_output p) outs"
    and "concat cs = output_stream p outs" "len (output_stream p outs) \<le> max_int"
  shows "feed_view (feed_all cs new_decoder) = Inr (map output_event outs, [], None)"
  using feed_all_new_stream [of cs] drain_output_stream [OF assms(1,2), of "[]"] assms(3,4)
  by (simp add: stream_result_def new_decoder_def)

definition sample_outputs :: "(string \<times> bytes) list" where
  "sample_outputs = [(''%0'', ''a'' @ [LF, BSLASH]), (''%1'', [])]"

definition sample_control_reads :: "bytes list" where
  "sample_control_reads =
     (let s = output_stream (\<lambda>c. c = LF) sample_outputs in [take 9 s, drop 9 s])"

lemma sample_outputs_good:
  "list_all (good_output (\<lambda>c. c = LF)) sample_outputs"
  "concat sample_control_reads = output_stream (\<lambda>c. c = LF) sample_outputs"
  "len (output_stream (\<lambda>c. c = LF) sample_outputs) \<le> max_int"
  by (simp_all add: sample_outputs_def sample_control_reads_def good_output_def output_record_def
      output_stream_def max_control_record_def max_int_def octal_digits_def Let_def)

theorem decoder_output_roundtrip_witness:
  "feed_view (feed_all sample_control_reads new_decoder) = Inr (map output_event sample_outputs, [], None)"
  by (rule decoder_output_roundtrip [OF refl sample_outputs_good])

theorem decoder_chunking_witness:
  "len (concat sample_control_reads) \<le> max_int
   \<and> feed_view (feed_all sample_control_reads new_decoder)
     = feed_view (feed_unbudgeted (concat sample_control_reads) new_decoder)"
  using decoder_chunking [of sample_control_reads] sample_outputs_good(2,3) by simp

theorem decoder_blocks_witness:
  "\<exists>evs d. feed_all sample_control_reads new_decoder = (Inr evs, d) \<and> block_run False (map ev_kind evs) = Some False"
proof -
  have l: "len (concat sample_control_reads) \<le> max_int" using sample_outputs_good(2,3) by simp
  have "feed_view (feed_all sample_control_reads new_decoder) = Inr (map output_event sample_outputs, [], None)"
    using feed_all_new_stream [OF l] drain_output_stream [OF refl sample_outputs_good(1), of "[]"]
      sample_outputs_good(2)
    by (simp add: stream_result_def new_decoder_def)
  then obtain d where f: "feed_all sample_control_reads new_decoder = (Inr (map output_event sample_outputs), d)"
      "command d = None"
    by (auto simp: feed_view_def simp del: feed_all.simps split: prod.splits sum.splits)
  from decoder_blocks [OF f(1) l] f show ?thesis by auto
qed

section \<open>A batch charge covers what was decoded\<close>

definition event_size :: "event \<Rightarrow> nat" where
  "event_size e = length (ev_pane e) + length (ev_data e) + length (ev_name e) + length (ev_args e)"

lemma event_size_of [simp]: "event_size (event_of k) = 0"
  by (simp add: event_size_def event_of_def)

lemma decode_extended_length:
  "decode_extended rest = Some (age, encoded) \<Longrightarrow> length encoded \<le> length rest"
  by (auto simp: decode_extended_def Let_def split: option.splits if_splits)

lemma decode_output_size:
  assumes "decode_output line x = Some e"
  shows "event_size e \<le> length line"
proof -
  define pre where "pre = (if x then ''%extended-output '' else ''%output '')"
  define rest where "rest = drop (length pre) line"
  from assms obtain sp age encoded d where *:
    "index_of CHR '' '' rest = Some sp"
    "(if x then decode_extended (drop (sp + 1) rest) else Some (0, drop (sp + 1) rest)) = Some (age, encoded)"
    "decode_payload encoded = Some d"
    "e = (event_of (if x then EventExtendedOutput else EventOutput))\<lparr>ev_pane := take sp rest, ev_age := age, ev_data := d\<rparr>"
    unfolding decode_output_def Let_def pre_def [symmetric] rest_def [symmetric]
    by (auto split: option.splits if_splits)
  have "length encoded \<le> length (drop (sp + 1) rest)"
    using *(2) decode_extended_length [of "drop (sp + 1) rest" age encoded] by (auto split: if_splits)
  moreover have "length d \<le> length encoded" using decode_payload_length *(3) .
  moreover have "sp < length rest" using *(1) index_of_SomeD by fast
  moreover have "length rest \<le> length line" by (simp add: rest_def)
  ultimately show ?thesis by (simp add: *(4) event_size_def event_of_def)
qed

lemma decode_line_size:
  assumes "decode_line cmd line = Some (e, cmd')"
  shows "event_size e \<le> length line + 1"
proof (cases cmd)
  case (Some w)
  with assms show ?thesis
    by (auto simp: decode_line_def Let_def event_size_def event_of_def split: if_splits list.splits)
next
  case None
  consider (b) "has_prefix line ''%begin ''"
    | (o) "\<not> has_prefix line ''%begin ''" "has_prefix line ''%output ''"
    | (x) "\<not> has_prefix line ''%begin ''" "\<not> has_prefix line ''%output ''" "has_prefix line ''%extended-output ''"
    | (n) "\<not> has_prefix line ''%begin ''" "\<not> has_prefix line ''%output ''" "\<not> has_prefix line ''%extended-output ''"
    by blast
  then show ?thesis
  proof cases
    case b
    with assms None show ?thesis by (auto simp: decode_line_def split: list.splits)
  next
    case o
    with assms None show ?thesis by (auto simp: decode_line_def dest: decode_output_size)
  next
    case x
    with assms None show ?thesis by (auto simp: decode_line_def dest: decode_output_size)
  next
    case n
    obtain name args where parts: "notification_parts line = (name, args)" by force
    then have "length name + length args \<le> length line"
      by (auto simp: notification_parts_def dest: index_of_SomeD split: option.splits)
    with n assms None parts show ?thesis
      by (auto simp: decode_line_def event_size_def event_of_def split: if_splits)
  qed
qed

lemma drain_size:
  "drain cmd buf acc = Drained evs rest c \<Longrightarrow>
   sum_list (map event_size evs) + length rest \<le> sum_list (map event_size acc) + length buf"
proof (induction cmd buf acc rule: drain.induct)
  case (1 cmd buf acc)
  show ?case
  proof (cases "index_of LF buf")
    case None
    with "1.prems" show ?thesis by (auto simp: drain_no_newline split: if_splits)
  next
    case (Some n)
    with "1.prems" obtain ev cmd' where *: "\<not> int n > max_control_record"
      "decode_line cmd (take n buf) = Some (ev, cmd')"
      "drain cmd' (drop (n + 1) buf) (acc @ [ev]) = Drained evs rest c"
      by (auto simp: drain_newline split: if_splits option.splits)
    have "n < length buf" using Some index_of_SomeD by fast
    with "1.IH" [OF Some *(1,2) refl *(3)] decode_line_size [OF *(2)] show ?thesis by simp
  qed
qed

lemma drain_no_events:
  "LF \<notin> set buf \<Longrightarrow> drain cmd buf [] = Drained evs rest c \<Longrightarrow> evs = []"
  by (auto simp: drain_no_newline index_of_None_iff split: if_splits)

lemma batch_cost_covers:
  assumes "drain cmd buf [] = Drained evs rest c"
  shows "int (sum_list (map event_size evs)) \<le> batch_cost buf"
proof (cases "LF \<in> set buf")
  case True
  then have "filter (\<lambda>x. x = LF) buf \<noteq> []" by (auto simp: filter_empty_conv)
  then have "length (filter (\<lambda>x. x = LF) buf) \<noteq> 0" by simp
  moreover have "int (sum_list (map event_size evs)) \<le> len buf"
    using drain_size [OF assms] by (simp add: len_def)
  moreover have "len buf \<le> rounded_bytes (len buf)" by (simp add: rounded_bytes_bounds)
  ultimately show ?thesis by (simp add: batch_cost_def Let_def)
next
  case False
  from drain_no_events [OF this assms] show ?thesis by (simp add: batch_cost_def Let_def)
qed

lemma drain_into_covers:
  assumes "drain_into M d b m = (Inr evs, d', b', m')" "batch_bytes b = batch_cost (buffer d)"
  shows "batch_events b' = evs \<and> int (sum_list (map event_size evs)) \<le> batch_bytes b'"
  using assms
  by (auto simp: drain_into_def Let_def batch_cost_covers split: drain_result.splits prod.splits if_splits)

lemma feed_appended_covers:
  assumes "feed_appended M d b m = (Inr evs, d', b', m')"
  shows "batch_events b' = evs \<and> int (sum_list (map event_size evs)) \<le> batch_bytes b'"
  using assms
  by (auto simp: feed_appended_def feed_refused_def Let_def dest!: drain_into_covers
      split: option.splits prod.splits)

lemma decoder_feed_covers:
  assumes "decoder_feed M input d b m = (Inr evs, d', b', m')"
  shows "batch_events b' = evs \<and> int (sum_list (map event_size evs)) \<le> batch_bytes b'"
  using assms
  by (auto simp: decoder_feed_def feed_refused_def dest!: feed_appended_covers
      split: if_splits option.splits prod.splits)

section \<open>Memory accounting\<close>

text \<open>
  The contract between the decoder and its memory: a reservation that succeeds adds exactly
  what was asked for, a release of no more than is held subtracts it, and both keep the
  provider's own invariant. A provider's release panics outside that contract.
\<close>

locale memory_contract =
  fixes M :: "'m memory_iface"
    and held :: "'m \<Rightarrow> int"
    and sound :: "'m \<Rightarrow> bool"
  assumes reserve_held:
      "sound m \<Longrightarrow> 0 \<le> n \<Longrightarrow> mem_reserve M n m = Some m' \<Longrightarrow> sound m' \<and> held m' = held m + n"
    and release_held:
      "sound m \<Longrightarrow> 0 \<le> n \<Longrightarrow> n \<le> held m \<Longrightarrow> sound (mem_release M n m) \<and> held (mem_release M n m) = held m - n"

text \<open>What the decoder and a batch owe the memory between calls.\<close>

definition decoder_charge :: "decoder \<Rightarrow> int" where
  "decoder_charge d = (if budgeted d then buffer_bytes d else 0)"

definition batch_charge :: "event_batch \<Rightarrow> int" where
  "batch_charge b = (if batch_budgeted b then batch_bytes b else 0)"

text \<open>The charge covers the allocation, and the allocation covers the retained bytes.\<close>

definition decoder_wf :: "decoder \<Rightarrow> bool" where
  "decoder_wf d \<longleftrightarrow> len (buffer d) \<le> buffer_cap d \<and> buffer_cap d \<le> buffer_bytes d"

definition batch_wf :: "event_batch \<Rightarrow> bool" where
  "batch_wf b \<longleftrightarrow> 0 \<le> batch_bytes b"

lemma decoder_wf_nonneg: "decoder_wf d \<Longrightarrow> 0 \<le> buffer_bytes d"
  unfolding decoder_wf_def using len_simps(4) [of "buffer d"] by linarith

lemma decoder_wf_new [simp]: "decoder_wf new_decoder" "decoder_wf new_budgeted_decoder"
  by (simp_all add: decoder_wf_def new_decoder_def new_budgeted_decoder_def)

lemma batch_cost_nonneg [simp]: "0 \<le> batch_cost buf"
  by (simp add: batch_cost_def Let_def)

lemma grow_capacity_ge: "0 \<le> want \<Longrightarrow> want \<le> grow_capacity d want"
  using rounded_bytes_bounds [of want] by (simp add: grow_capacity_def Let_def)

definition accounted :: "'m memory_iface \<Rightarrow> ('m \<Rightarrow> int) \<Rightarrow> ('m \<Rightarrow> bool) \<Rightarrow> int \<Rightarrow> decoder \<times> event_batch \<times> 'm \<Rightarrow> bool" where
  "accounted M held sound base s =
     (case s of (d, b, m) \<Rightarrow> sound m \<and> decoder_wf d \<and> batch_wf b \<and>
        held m = base + decoder_charge d + batch_charge b)"

context memory_contract
begin

abbreviation balanced :: "int \<Rightarrow> decoder \<Rightarrow> event_batch \<Rightarrow> 'm \<Rightarrow> bool" where
  "balanced base d b m \<equiv> accounted M held sound base (d, b, m)"

lemma decoder_release_balanced:
  assumes "balanced base d b m" "0 \<le> base" "decoder_release M d m = (d', m')"
  shows "balanced base d' b m' \<and> decoder_charge d' = 0"
proof -
  have nn: "0 \<le> buffer_bytes d" "0 \<le> batch_charge b"
    using assms(1) decoder_wf_nonneg by (auto simp: accounted_def batch_wf_def batch_charge_def)
  show ?thesis
    using assms nn release_held [of m "buffer_bytes d"]
    by (auto simp: decoder_release_def accounted_def decoder_wf_def decoder_charge_def split: if_splits)
qed

lemma decoder_fail_balanced:
  assumes "balanced base d b m" "0 \<le> base" "decoder_fail M d m = (d', m')"
  shows "balanced base d' b m' \<and> decoder_charge d' = 0"
proof (rule decoder_release_balanced)
  show "balanced base (d\<lparr>failed := True\<rparr>) b m"
    using assms(1) by (simp add: accounted_def decoder_wf_def decoder_charge_def)
qed (use assms in \<open>simp_all add: decoder_fail_def\<close>)

lemma batch_release_balanced:
  assumes "balanced base d b m" "0 \<le> base" "batch_release M b m = (b', m')"
  shows "balanced base d b' m' \<and> batch_charge b' = 0"
proof -
  have "0 \<le> decoder_charge d"
    using assms(1) decoder_wf_nonneg by (auto simp: accounted_def decoder_charge_def)
  then show ?thesis
    using assms release_held [of m "batch_bytes b"]
    by (auto simp: batch_release_def accounted_def batch_wf_def batch_charge_def split: if_splits)
qed

lemma grow_buffer_balanced:
  assumes "balanced base d b m" "0 \<le> base" "grow_buffer M want d m = Some (d', m')" "len (buffer d) \<le> want"
  shows "balanced base d' b m' \<and> buffer d' = buffer d \<and> want \<le> buffer_cap d' \<and> budgeted d' = budgeted d"
proof (cases "want \<le> buffer_cap d")
  case True
  with assms show ?thesis by (simp add: grow_buffer_def)
next
  case False
  let ?c = "grow_capacity d want"
  have want: "0 \<le> want" using assms(4) len_simps(4) [of "buffer d"] by linarith
  then have c: "want \<le> ?c" by (rule grow_capacity_ge)
  have nn: "0 \<le> buffer_bytes d" "0 \<le> batch_charge b"
    using assms(1) decoder_wf_nonneg by (auto simp: accounted_def batch_wf_def batch_charge_def)
  show ?thesis
  proof (cases "budgeted d")
    case False
    with assms \<open>\<not> want \<le> buffer_cap d\<close> c show ?thesis
      by (auto simp: grow_buffer_def Let_def accounted_def decoder_wf_def decoder_charge_def)
  next
    case True
    with assms(3) \<open>\<not> want \<le> buffer_cap d\<close> obtain m1 where m1: "mem_reserve M ?c m = Some m1"
      "d' = d\<lparr>buffer_cap := ?c, buffer_bytes := ?c\<rparr>" "m' = mem_release M (buffer_bytes d) m1"
      by (auto simp: grow_buffer_def Let_def split: option.splits)
    have r: "sound m1" "held m1 = held m + ?c"
      using reserve_held [OF _ _ m1(1)] assms(1) c want by (auto simp: accounted_def)
    have "held m = base + buffer_bytes d + batch_charge b"
      using assms(1) True by (simp add: accounted_def decoder_charge_def)
    then have "buffer_bytes d \<le> held m1" using r nn c want assms(2) by linarith
    then have "sound m'" "held m' = held m + ?c - buffer_bytes d"
      using release_held [OF r(1) nn(1)] r(2) m1(3) by auto
    then show ?thesis
      using assms(1,4) True c m1(2) by (auto simp: accounted_def decoder_wf_def decoder_charge_def)
  qed
qed

lemma balanced_events: "balanced base d (b\<lparr>batch_events := evs\<rparr>) m = balanced base d b m"
  by (simp add: accounted_def batch_wf_def batch_charge_def)

lemma drain_into_balanced:
  assumes "balanced base d b m" "0 \<le> base" "drain_into M d b m = (r, d', b', m')"
  shows "balanced base d' b' m'"
proof (cases "drain (command d) (buffer d) []")
  case (Drain_failed evs c)
  obtain d1 m1 where f: "decoder_fail M (d\<lparr>command := c\<rparr>) m = (d1, m1)" by force
  have "balanced base (d\<lparr>command := c\<rparr>) b m"
    using assms(1) by (simp add: accounted_def decoder_wf_def decoder_charge_def)
  from decoder_fail_balanced [OF this assms(2) f] Drain_failed f assms(3) show ?thesis
    by (auto simp: drain_into_def accounted_def batch_wf_def batch_charge_def)
next
  case (Drained evs rest c)
  let ?d = "d\<lparr>buffer := rest, buffer_cap := buffer_cap d - (len (buffer d) - len rest), command := c\<rparr>"
  have "length rest \<le> length (buffer d)" using drain_rest [OF Drained] by simp
  then have a: "balanced base ?d b m"
    using assms(1) by (auto simp: accounted_def decoder_wf_def decoder_charge_def len_def)
  obtain d1 m1 where f: "decoder_release M ?d m = (d1, m1)" by force
  show ?thesis
  proof (cases "rest = []")
    case True
    have "balanced base d1 b m1" using decoder_release_balanced [OF a assms(2) f] by blast
    moreover have "d' = d1" "b' = b\<lparr>batch_events := evs\<rparr>" "m' = m1"
      using True Drained f assms(3) by (auto simp: drain_into_def)
    ultimately show ?thesis by (simp add: balanced_events)
  next
    case False
    then have "d' = ?d" "b' = b\<lparr>batch_events := evs\<rparr>" "m' = m"
      using Drained assms(3) by (auto simp: drain_into_def)
    with a show ?thesis by (simp add: balanced_events)
  qed
qed

lemma feed_refused_balanced:
  assumes "balanced base d b m" "0 \<le> base" "feed_refused M d b m = (r, d', b', m')"
  shows "balanced base d' b' m'"
  using decoder_fail_balanced [OF assms(1,2)] assms(3)
  by (auto simp: feed_refused_def split: prod.splits)

lemma feed_appended_balanced:
  assumes "balanced base d b m" "0 \<le> base" "batch_charge b = 0" "feed_appended M d b m = (r, d', b', m')"
  shows "balanced base d' b' m'"
proof (cases "if budgeted d then mem_reserve M (batch_cost (buffer d)) m else Some m")
  case None
  with assms(4) have "feed_refused M d b m = (r, d', b', m')" by (simp add: feed_appended_def)
  with assms(1,2) show ?thesis by (rule feed_refused_balanced)
next
  case (Some m2)
  let ?b = "b\<lparr>batch_budgeted := budgeted d, batch_bytes := batch_cost (buffer d)\<rparr>"
  have "balanced base d ?b m2"
    using assms(1,3) Some reserve_held [of m "batch_cost (buffer d)" m2]
    by (auto simp: accounted_def batch_wf_def batch_charge_def split: if_splits)
  moreover have "drain_into M d ?b m2 = (r, d', b', m')"
    using assms(4) Some by (simp add: feed_appended_def)
  ultimately show ?thesis using drain_into_balanced assms(2) by blast
qed

lemma decoder_feed_balanced:
  assumes "balanced base d b m" "0 \<le> base" "batch_charge b = 0" "decoder_feed M input d b m = (r, d', b', m')"
  shows "balanced base d' b' m'"
proof (cases "failed d \<or> len input > max_int - len (buffer d) \<or> grow_buffer M (len (buffer d) + len input) d m = None")
  case True
  with assms show ?thesis
    using feed_refused_balanced by (auto simp: decoder_feed_def split: if_splits)
next
  case False
  then obtain d1 m1 where g: "grow_buffer M (len (buffer d) + len input) d m = Some (d1, m1)" by auto
  from grow_buffer_balanced [OF assms(1,2) g]
  have "balanced base (d1\<lparr>buffer := buffer d1 @ input\<rparr>) b m1"
    by (auto simp: accounted_def decoder_wf_def decoder_charge_def)
  moreover have "feed_appended M (d1\<lparr>buffer := buffer d1 @ input\<rparr>) b m1 = (r, d', b', m')"
    using assms(4) False g by (simp add: decoder_feed_def)
  ultimately show ?thesis using feed_appended_balanced assms(2,3) by blast
qed

lemma batch_feed_balanced:
  assumes "balanced base d b m" "0 \<le> base" "batch_feed M input d b m = (r, d', b', m')"
  shows "balanced base d' b' m'"
proof -
  obtain b1 m1 where f: "batch_release M b m = (b1, m1)" by force
  from batch_release_balanced [OF assms(1,2) f] f assms(2,3) show ?thesis
    using decoder_feed_balanced by (auto simp: batch_feed_def)
qed

end

end
