(* ===== verification/Control_Router.thy ===== *)
theory Control_Router
  imports Prelude
begin

text \<open>
  The session router of \<^verbatim>\<open>internal/controlmode/router.go\<close>: which observed pane output may
  be delivered. The state holds the admitted panes and the invalidated route keys; every public
  method is one function of it, in the order of the source's checks.
\<close>

section \<open>Witnesses, observations and results\<close>

record session_witness =
  sw_server :: string
  sw_session :: string
  sw_generation :: u64

record pane_witness =
  pw_session :: session_witness
  pw_window :: string
  pw_pane :: string
  pw_incarnation :: string

text \<open>\<open>ObservationUnknown\<close> stands for every value outside the declared kinds.\<close>

datatype observation_kind =
    ObservationOutput | ObservationRename | ObservationReplacement | ObservationDisconnect
  | ObservationPause | ObservationDecoderAmbiguity | ObservationServerRestart
  | ObservationForeignPipe | ObservationOwnerGone | ObservationUnknown

record observation =
  ob_kind :: observation_kind
  ob_witness :: pane_witness
  ob_replacement :: pane_witness
  ob_data :: bytes
  ob_label :: string

datatype route_disposition = RouteDeliver | RouteRetain | RouteIgnore | RouteInvalidate

datatype route_reason =
    RouteExactWitness | RouteIdentityUnchanged | RouteOtherSession | RouteMissedFirstByte
  | RouteAlreadyInvalid | RouteSourceReplacement | RoutePaneIncarnationChanged
  | RouteControlDisconnected | RouteControlPaused | RouteDecoderAmbiguous | RouteServerRestarted
  | RouteForeignObserverCoexists | RouteControlGenerationChanged | RouteOwnerGone

record delivery =
  dl_witness :: pane_witness
  dl_data :: bytes

record route_result =
  rr_disposition :: route_disposition
  rr_reason :: route_reason
  rr_delivery :: "delivery option"

type_synonym route_key = "string \<times> string"

record router =
  rt_session :: session_witness
  rt_panes :: "route_key \<rightharpoonup> pane_witness"
  rt_invalid :: "route_key \<rightharpoonup> route_reason"
  rt_failed :: bool

definition new_session_router :: "session_witness \<Rightarrow> router" where
  "new_session_router s = \<lparr>rt_session = s, rt_panes = Map.empty, rt_invalid = Map.empty, rt_failed = False\<rparr>"

definition route_key :: "pane_witness \<Rightarrow> route_key" where
  "route_key w = (pw_window w, pw_pane w)"

section \<open>Operations\<close>

definition route_result :: "route_disposition \<Rightarrow> route_reason \<Rightarrow> route_result" where
  "route_result d r = \<lparr>rr_disposition = d, rr_reason = r, rr_delivery = None\<rparr>"

definition mark_invalid :: "route_key \<Rightarrow> route_reason \<Rightarrow> router \<Rightarrow> router" where
  "mark_invalid k reason r = r\<lparr>rt_invalid := (rt_invalid r)(k \<mapsto> reason)\<rparr>"

definition drop_pane :: "route_key \<Rightarrow> router \<Rightarrow> router" where
  "drop_pane k r = r\<lparr>rt_panes := (rt_panes r)(k := None)\<rparr>"

definition invalidate_all :: "route_reason \<Rightarrow> router \<Rightarrow> router" where
  "invalidate_all reason r =
     r\<lparr>rt_failed := True,
       rt_invalid := (\<lambda>k. if rt_panes r k \<noteq> None then Some reason else rt_invalid r k),
       rt_panes := Map.empty\<rparr>"

definition router_admit :: "pane_witness \<Rightarrow> router \<Rightarrow> go_error option \<times> router" where
  "router_admit w r =
     (let key = route_key w in
      if pw_session w \<noteq> rt_session r then (Some (Sent ErrForeignSession), r)
      else if rt_invalid r key \<noteq> None \<or> rt_failed r then (Some (Sent ErrMissedFirstByte), r)
      else case rt_panes r key of
        Some existing \<Rightarrow>
          if existing \<noteq> w
          then (Some (Sent ErrMissedFirstByte),
                drop_pane key (mark_invalid key RoutePaneIncarnationChanged r))
          else (None, r\<lparr>rt_panes := (rt_panes r)(key \<mapsto> w)\<rparr>)
      | None \<Rightarrow> (None, r\<lparr>rt_panes := (rt_panes r)(key \<mapsto> w)\<rparr>))"

text \<open>The switch on the kind, once the witness and its incarnation have been checked.\<close>

definition observe_kind ::
  "observation \<Rightarrow> pane_witness option \<Rightarrow> router \<Rightarrow> route_result \<times> router" where
  "observe_kind ob existing r =
     (let key = route_key (ob_witness ob);
          all = (\<lambda>reason. (route_result RouteInvalidate reason, invalidate_all reason r))
      in case ob_kind ob of
        ObservationOutput \<Rightarrow>
          (\<lparr>rr_disposition = RouteDeliver, rr_reason = RouteExactWitness,
            rr_delivery = map_option (\<lambda>e. \<lparr>dl_witness = e, dl_data = ob_data ob\<rparr>) existing\<rparr>, r)
      | ObservationRename \<Rightarrow> (route_result RouteRetain RouteIdentityUnchanged, r)
      | ObservationReplacement \<Rightarrow>
          (let key' = route_key (ob_replacement ob)
           in (route_result RouteInvalidate RouteSourceReplacement,
               drop_pane key' (mark_invalid key' RouteSourceReplacement
                 (drop_pane key (mark_invalid key RouteSourceReplacement r)))))
      | ObservationDisconnect \<Rightarrow> all RouteControlDisconnected
      | ObservationOwnerGone \<Rightarrow> all RouteOwnerGone
      | ObservationPause \<Rightarrow> all RouteControlPaused
      | ObservationDecoderAmbiguity \<Rightarrow> all RouteDecoderAmbiguous
      | ObservationServerRestart \<Rightarrow> all RouteServerRestarted
      | ObservationForeignPipe \<Rightarrow> (route_result RouteRetain RouteForeignObserverCoexists, r)
      | ObservationUnknown \<Rightarrow> all RouteDecoderAmbiguous)"

definition router_observe :: "observation \<Rightarrow> router \<Rightarrow> route_result \<times> router" where
  "router_observe ob r =
     (let w = ob_witness ob; key = route_key w; existing = rt_panes r key in
      if sw_session (pw_session w) \<noteq> sw_session (rt_session r)
      then (route_result RouteIgnore RouteOtherSession, r)
      else if sw_server (pw_session w) \<noteq> sw_server (rt_session r)
      then (route_result RouteInvalidate RouteServerRestarted, invalidate_all RouteServerRestarted r)
      else if sw_generation (pw_session w) \<noteq> sw_generation (rt_session r)
      then (route_result RouteInvalidate RouteControlGenerationChanged,
            invalidate_all RouteControlGenerationChanged r)
      else if rt_invalid r key \<noteq> None \<or> rt_failed r
      then (route_result RouteIgnore RouteAlreadyInvalid, r)
      else if ob_kind ob = ObservationOutput \<and> existing = None
      then (route_result RouteIgnore RouteMissedFirstByte, mark_invalid key RouteMissedFirstByte r)
      else case existing of
        Some e \<Rightarrow>
          if pw_incarnation e \<noteq> pw_incarnation w
          then (route_result RouteInvalidate RoutePaneIncarnationChanged,
                drop_pane key (mark_invalid key RoutePaneIncarnationChanged r))
          else observe_kind ob existing r
      | None \<Rightarrow> observe_kind ob existing r)"

definition unified_eligible :: "pane_witness \<Rightarrow> router \<Rightarrow> bool" where
  "unified_eligible w r \<longleftrightarrow>
     \<not> (rt_failed r \<or> pw_session w \<noteq> rt_session r) \<and> rt_panes r (route_key w) = Some w"

definition can_inject_focus :: "pane_witness \<Rightarrow> router \<Rightarrow> bool" where
  "can_inject_focus w r = unified_eligible w r"

section \<open>Runs\<close>

datatype router_event = Admit pane_witness | Observe observation

fun router_step :: "router \<Rightarrow> router_event \<Rightarrow> router" where
  "router_step r (Admit w) = snd (router_admit w r)"
| "router_step r (Observe ob) = snd (router_observe ob r)"

definition router_inv :: "router \<Rightarrow> bool" where
  "router_inv r \<longleftrightarrow>
     (\<forall>k w. rt_panes r k = Some w \<longrightarrow> route_key w = k \<and> pw_session w = rt_session r \<and> rt_invalid r k = None)
     \<and> (rt_failed r \<longrightarrow> rt_panes r = Map.empty)"

definition route_closed :: "route_key \<Rightarrow> router \<Rightarrow> bool" where
  "route_closed k r \<longleftrightarrow> rt_invalid r k \<noteq> None \<or> rt_failed r"

lemmas router_op_defs =
  router_admit_def router_observe_def observe_kind_def mark_invalid_def drop_pane_def
  invalidate_all_def route_result_def Let_def

lemma router_invD:
  "router_inv r \<Longrightarrow> rt_panes r k = Some w \<Longrightarrow>
   route_key w = k \<and> pw_session w = rt_session r \<and> rt_invalid r k = None \<and> \<not> rt_failed r"
  unfolding router_inv_def by fastforce

lemma router_inv_new [simp]: "router_inv (new_session_router s)"
  by (simp add: router_inv_def new_session_router_def)

lemma router_step_session [simp]: "rt_session (router_step r e) = rt_session r"
  by (cases e) (auto simp: router_op_defs split: option.splits observation_kind.splits)

lemma router_admit_inv: "router_inv r \<Longrightarrow> router_inv (snd (router_admit w r))"
  by (auto simp: router_inv_def router_op_defs split: option.splits if_splits)

lemma invalidate_all_inv: "router_inv r \<Longrightarrow> router_inv (invalidate_all reason r)"
  by (simp add: router_inv_def invalidate_all_def)

lemma close_pane_inv: "router_inv r \<Longrightarrow> router_inv (drop_pane k (mark_invalid k reason r))"
  by (auto simp: router_inv_def drop_pane_def mark_invalid_def)

lemma mark_invalid_inv: "router_inv r \<Longrightarrow> rt_panes r k = None \<Longrightarrow> router_inv (mark_invalid k reason r)"
  by (auto simp: router_inv_def mark_invalid_def)

lemmas router_inv_intros = invalidate_all_inv close_pane_inv mark_invalid_inv

lemma observe_kind_inv: "router_inv r \<Longrightarrow> router_inv (snd (observe_kind ob e r))"
  by (auto simp: observe_kind_def Let_def intro: router_inv_intros split: observation_kind.splits)

lemma router_observe_inv: "router_inv r \<Longrightarrow> router_inv (snd (router_observe ob r))"
  by (auto simp: router_observe_def Let_def intro: router_inv_intros observe_kind_inv split: option.splits)

lemma closed_ops:
  "route_closed k r \<Longrightarrow> route_closed k (invalidate_all reason r)"
  "route_closed k r \<Longrightarrow> route_closed k (mark_invalid k' reason r)"
  "route_closed k r \<Longrightarrow> route_closed k (drop_pane k' r)"
  by (auto simp: route_closed_def invalidate_all_def mark_invalid_def drop_pane_def)

lemma router_step_closed: "route_closed k r \<Longrightarrow> route_closed k (router_step r e)"
proof (cases e)
  case (Admit w)
  assume c: "route_closed k r"
  have "route_closed k (r\<lparr>rt_panes := p\<rparr>)" for p using c by (simp add: route_closed_def)
  with Admit c show ?thesis
    by (auto simp: router_admit_def Let_def intro: closed_ops split: option.splits)
next
  case (Observe ob)
  assume c: "route_closed k r"
  with Observe show ?thesis
    by (auto simp: router_observe_def observe_kind_def Let_def intro!: closed_ops
        split: option.splits observation_kind.splits)
qed

lemma router_step_inv: "router_inv r \<Longrightarrow> router_inv (router_step r e)"
  by (cases e) (simp_all add: router_admit_inv router_observe_inv)

interpretation routing: invariant_machine router_step router_inv
  by standard (rule router_step_inv)

interpretation route_end: absorbing_machine router_step "route_closed k" for k
  by standard (rule router_step_closed)

section \<open>What is delivered\<close>

definition delivers :: "router \<Rightarrow> observation \<Rightarrow> bool" where
  "delivers r ob \<longleftrightarrow> rr_disposition (fst (router_observe ob r)) = RouteDeliver"

lemma observe_kind_deliver:
  "rr_disposition (fst (observe_kind ob e r)) = RouteDeliver \<longleftrightarrow> ob_kind ob = ObservationOutput"
  by (simp add: observe_kind_def Let_def route_result_def split: observation_kind.split)

lemma observe_kind_output:
  "ob_kind ob = ObservationOutput \<Longrightarrow> observe_kind ob e r =
     (\<lparr>rr_disposition = RouteDeliver, rr_reason = RouteExactWitness,
       rr_delivery = map_option (\<lambda>e. \<lparr>dl_witness = e, dl_data = ob_data ob\<rparr>) e\<rparr>, r)"
  by (simp add: observe_kind_def Let_def)

lemma delivers_cases:
  assumes "delivers r ob"
  shows "\<exists>e. rt_panes r (route_key (ob_witness ob)) = Some e
    \<and> ob_kind ob = ObservationOutput \<and> \<not> route_closed (route_key (ob_witness ob)) r
    \<and> pw_session (ob_witness ob) = rt_session r \<and> pw_incarnation e = pw_incarnation (ob_witness ob)
    \<and> router_observe ob r =
        (\<lparr>rr_disposition = RouteDeliver, rr_reason = RouteExactWitness,
          rr_delivery = Some \<lparr>dl_witness = e, dl_data = ob_data ob\<rparr>\<rparr>, r)"
proof -
  let ?e = "rt_panes r (route_key (ob_witness ob))"
  have "ob_kind ob = ObservationOutput" and e: "?e \<noteq> None"
    and c: "\<not> route_closed (route_key (ob_witness ob)) r"
    and w: "pw_session (ob_witness ob) = rt_session r"
    and i: "pw_incarnation (the ?e) = pw_incarnation (ob_witness ob)"
    and o: "router_observe ob r = observe_kind ob ?e r"
    using assms
    by (auto simp: delivers_def router_observe_def Let_def route_closed_def route_result_def
        observe_kind_deliver split: if_splits option.splits)
  then show ?thesis by (auto simp: observe_kind_output)
qed

lemma witness_eqI:
  "pw_session v = pw_session w \<Longrightarrow> route_key v = route_key w \<Longrightarrow> pw_incarnation v = pw_incarnation w \<Longrightarrow>
   v = (w :: pane_witness)"
  by (cases v; cases w) (simp add: route_key_def)


text \<open>
  Invalidation is final. Once a route key is invalidated (a missed first byte, a changed
  incarnation, a replacement) or the whole router has failed, no later observation of that key is
  ever delivered and no witness of it is ever eligible again, whatever is admitted or observed in
  between.
\<close>

theorem router_invalid_is_final:
  assumes "route_closed (route_key (ob_witness ob)) (foldl router_step (new_session_router s) es)"
  shows "\<not> delivers (foldl router_step (new_session_router s) (es @ fs)) ob
    \<and> \<not> unified_eligible (ob_witness ob) (foldl router_step (new_session_router s) (es @ fs))"
proof -
  define r where "r = foldl router_step (new_session_router s) (es @ fs)"
  have c: "route_closed (route_key (ob_witness ob)) r"
    unfolding r_def by (rule route_end.run_dead_later [OF assms])
  have inv: "router_inv r"
    unfolding r_def by (rule routing.run_inv) simp
  have "\<not> unified_eligible (ob_witness ob) r"
    using c router_invD [OF inv, of "route_key (ob_witness ob)" "ob_witness ob"]
    by (auto simp: unified_eligible_def route_closed_def)
  moreover have "\<not> delivers r ob" using c by (blast dest: delivers_cases)
  ultimately show ?thesis by (simp add: r_def)
qed

definition sample_session :: session_witness where
  "sample_session = \<lparr>sw_server = ''s'', sw_session = ''$1'', sw_generation = 1\<rparr>"

definition sample_pane :: pane_witness where
  "sample_pane = \<lparr>pw_session = sample_session, pw_window = ''@1'', pw_pane = ''%1'', pw_incarnation = ''i''\<rparr>"

definition sample_pane_output :: observation where
  "sample_pane_output = \<lparr>ob_kind = ObservationOutput, ob_witness = sample_pane, ob_replacement = sample_pane,
     ob_data = ''x'', ob_label = []\<rparr>"

theorem router_invalid_is_final_witness:
  "\<not> delivers (foldl router_step (new_session_router sample_session) ([Observe sample_pane_output] @ [Admit sample_pane]))
     sample_pane_output"
proof (rule router_invalid_is_final [THEN conjunct1])
  show "route_closed (route_key (ob_witness sample_pane_output))
      (foldl router_step (new_session_router sample_session) [Observe sample_pane_output])"
    by (simp add: sample_pane_output_def sample_pane_def sample_session_def new_session_router_def
        router_op_defs route_closed_def)
qed


end
