(* ===== verification/Transient_Budget.thy ===== *)
theory Transient_Budget
  imports Control_Decoder
begin

text \<open>
  The account behind the observer's decoder: \<^verbatim>\<open>recordingTransientBudget\<close> and
  \<^verbatim>\<open>recordingUnitMemory\<close> of \<^verbatim>\<open>internal/broker/recording_transients.go\<close> with the shared
  copy account of \<^verbatim>\<open>internal/broker/recording_copies.go\<close>. Units are numbered in the order
  they are acquired; a Go panic is the sticky field \<open>panicked\<close>. The theory provides the
  contract \<open>memory_contract\<close> for any live unit and composes it with the decoder.
\<close>

section \<open>State\<close>

definition recording_copy_bytes :: int where
  "recording_copy_bytes = 224 * 2 ^ 20"

definition recording_transient_bytes :: int where
  "recording_transient_bytes = 128 * 2 ^ 20"

definition recording_observer_unit_limit :: int where
  "recording_observer_unit_limit = 18"

definition recording_unit_bytes :: int where
  "recording_unit_bytes = 1536 * 1024"

record copy_budget =
  copy_bytes :: int
  copy_peak :: int
  copy_limit :: int

record unit_memory =
  unit_refs :: int
  unit_held :: int

record transient_budget =
  copies :: "copy_budget option"
  trans_bytes :: int
  trans_peak :: int
  trans_limit :: int
  trans_units :: int
  units :: "unit_memory list"
  panicked :: bool

section \<open>Operations\<close>

definition copies_available :: "copy_budget option \<Rightarrow> int \<Rightarrow> bool" where
  "copies_available c n =
     (case c of None \<Rightarrow> True
      | Some b \<Rightarrow>
          let limit = (if copy_limit b = 0 then recording_copy_bytes else copy_limit b)
          in 0 \<le> n \<and> n \<le> limit - copy_bytes b)"

definition copies_charge :: "copy_budget option \<Rightarrow> int \<Rightarrow> copy_budget option" where
  "copies_charge c n =
     map_option (\<lambda>b. b\<lparr>copy_bytes := copy_bytes b + n,
                       copy_peak := max (copy_peak b) (copy_bytes b + n)\<rparr>) c"

definition copies_panic :: "copy_budget option \<Rightarrow> bool" where
  "copies_panic c \<longleftrightarrow> (case c of None \<Rightarrow> False | Some b \<Rightarrow> copy_bytes b < 0)"

definition transient_capacity :: "transient_budget \<Rightarrow> int" where
  "transient_capacity t = (if trans_limit t > 0 then trans_limit t else recording_transient_bytes)"

definition transient_charge :: "int \<Rightarrow> transient_budget \<Rightarrow> transient_budget" where
  "transient_charge n t =
     (let c = copies_charge (copies t) n
      in t\<lparr>trans_bytes := trans_bytes t + n, trans_peak := max (trans_peak t) (trans_bytes t + n),
           copies := c, panicked := panicked t \<or> copies_panic c\<rparr>)"

text \<open>\<^verbatim>\<open>acquire\<close>: a new unit and its number, or the typed refusal.\<close>

definition unit_acquire :: "transient_budget \<Rightarrow> go_error + nat \<times> transient_budget" where
  "unit_acquire t =
     (if trans_units t \<ge> recording_observer_unit_limit
         \<or> recording_unit_bytes > transient_capacity t - trans_bytes t
         \<or> \<not> copies_available (copies t) recording_unit_bytes
      then Inl (Sent ErrRecordingTransients)
      else let t' = transient_charge recording_unit_bytes t
           in Inr (length (units t),
                   t'\<lparr>trans_units := trans_units t' + 1,
                      units := units t' @ [\<lparr>unit_refs = 1, unit_held = 0\<rparr>]\<rparr>))"

definition unit_set :: "nat \<Rightarrow> unit_memory \<Rightarrow> transient_budget \<Rightarrow> transient_budget" where
  "unit_set u o' t = t\<lparr>units := (units t)[u := o']\<rparr>"

definition unit_hold :: "nat \<Rightarrow> transient_budget \<Rightarrow> transient_budget" where
  "unit_hold u t =
     (let o' = units t ! u
      in if unit_refs o' \<le> 0 then t\<lparr>panicked := True\<rparr>
         else unit_set u (o'\<lparr>unit_refs := unit_refs o' + 1\<rparr>) t)"

definition unit_release_locked :: "nat \<Rightarrow> transient_budget \<Rightarrow> transient_budget" where
  "unit_release_locked u t =
     (let o' = units t ! u
      in if unit_refs o' = 0 \<and> unit_held o' = 0
         then let t' = transient_charge (- recording_unit_bytes) (unit_set u (o'\<lparr>unit_refs := -1\<rparr>) t)
              in t'\<lparr>trans_units := trans_units t' - 1\<rparr>
         else t)"

definition unit_done :: "nat \<Rightarrow> transient_budget \<Rightarrow> transient_budget" where
  "unit_done u t =
     (let o' = units t ! u
      in if unit_refs o' \<le> 0 then t\<lparr>panicked := True\<rparr>
         else unit_release_locked u (unit_set u (o'\<lparr>unit_refs := unit_refs o' - 1\<rparr>) t))"

definition unit_reserve :: "nat \<Rightarrow> int \<Rightarrow> transient_budget \<Rightarrow> transient_budget option" where
  "unit_reserve u n t =
     (let o' = units t ! u
      in if unit_refs o' \<le> 0 \<or> n < 0 \<or> n > transient_capacity t - trans_bytes t
            \<or> \<not> copies_available (copies t) n
         then None
         else Some (transient_charge n (unit_set u (o'\<lparr>unit_held := unit_held o' + n\<rparr>) t)))"

definition unit_release :: "nat \<Rightarrow> int \<Rightarrow> transient_budget \<Rightarrow> transient_budget" where
  "unit_release u n t =
     (let o' = units t ! u
      in if n < 0 \<or> n > unit_held o' then t\<lparr>panicked := True\<rparr>
         else unit_release_locked u
                (transient_charge (- n) (unit_set u (o'\<lparr>unit_held := unit_held o' - n\<rparr>) t)))"

definition unit_iface :: "nat \<Rightarrow> transient_budget memory_iface" where
  "unit_iface u = \<lparr>mem_reserve = unit_reserve u, mem_release = unit_release u\<rparr>"

section \<open>Invariant\<close>

text \<open>
  A settled unit has the reference count $-1$ and holds nothing. The account is the sum over
  the units of what each holds, with a fixed allowance for every unit not settled.
\<close>

definition unit_charge :: "unit_memory \<Rightarrow> int" where
  "unit_charge o' = (if unit_refs o' < 0 then 0 else recording_unit_bytes + unit_held o')"

definition unit_live :: "unit_memory \<Rightarrow> int" where
  "unit_live o' = (if unit_refs o' < 0 then 0 else 1)"

definition unit_ok :: "unit_memory \<Rightarrow> bool" where
  "unit_ok o' \<longleftrightarrow>
     (unit_refs o' = -1 \<and> unit_held o' = 0)
     \<or> (0 \<le> unit_refs o' \<and> 0 \<le> unit_held o' \<and> (0 < unit_refs o' \<or> 0 < unit_held o'))"

definition copies_ok :: "transient_budget \<Rightarrow> bool" where
  "copies_ok t \<longleftrightarrow>
     (case copies t of None \<Rightarrow> True
      | Some b \<Rightarrow> trans_bytes t \<le> copy_bytes b \<and> 0 \<le> copy_limit b
          \<and> copy_bytes b \<le> (if copy_limit b = 0 then recording_copy_bytes else copy_limit b))"

definition transient_inv :: "transient_budget \<Rightarrow> bool" where
  "transient_inv t \<longleftrightarrow>
     \<not> panicked t \<and> list_all unit_ok (units t)
     \<and> trans_bytes t = sum_list (map unit_charge (units t))
     \<and> trans_units t = sum_list (map unit_live (units t))
     \<and> trans_bytes t \<le> transient_capacity t \<and> copies_ok t"

lemma unit_ok_nonneg: "unit_ok o' \<Longrightarrow> 0 \<le> unit_charge o' \<and> 0 \<le> unit_held o' \<and> unit_live o' \<le> unit_charge o'"
  by (auto simp: unit_ok_def unit_charge_def unit_live_def recording_unit_bytes_def)

lemma sum_list_update_int:
  "u < length xs \<Longrightarrow> sum_list (map f (xs[u := y])) = sum_list (map f xs) - f (xs ! u) + (f y :: int)"
  by (induction xs arbitrary: u) (auto split: nat.split)

lemma sum_list_nonneg_int: "\<forall>x \<in> set xs. 0 \<le> f x \<Longrightarrow> 0 \<le> sum_list (map f xs :: int list)"
  by (induction xs) auto

lemma sum_list_member_le:
  "u < length xs \<Longrightarrow> \<forall>x \<in> set xs. 0 \<le> f x \<Longrightarrow> f (xs ! u) \<le> sum_list (map f xs :: int list)"
proof (induction xs arbitrary: u)
  case Nil
  then show ?case by simp
next
  case (Cons x xs)
  then show ?case
    using sum_list_nonneg_int [of xs f] by (cases u) (auto, fastforce)
qed

lemma transient_inv_bytes_nonneg:
  assumes "transient_inv t"
  shows "0 \<le> trans_bytes t"
proof -
  have "\<forall>x \<in> set (units t). 0 \<le> unit_charge x"
    using assms unit_ok_nonneg by (auto simp: transient_inv_def list_all_iff)
  then show ?thesis
    using assms sum_list_nonneg_int [of "units t" unit_charge] by (simp add: transient_inv_def)
qed

lemma transient_inv_charge_le:
  assumes "transient_inv t" "u < length (units t)"
  shows "unit_charge (units t ! u) \<le> trans_bytes t"
proof -
  have "\<forall>x \<in> set (units t). 0 \<le> unit_charge x"
    using assms unit_ok_nonneg by (auto simp: transient_inv_def list_all_iff)
  then show ?thesis
    using assms sum_list_member_le [of u "units t" unit_charge] by (simp add: transient_inv_def)
qed

text \<open>One change of a unit together with the matching charge keeps the account.\<close>

lemma charge_unit_inv:
  assumes "transient_inv t" "u < length (units t)" "unit_ok o'"
    and "n = unit_charge o' - unit_charge (units t ! u)"
    and "0 < n \<Longrightarrow> n \<le> transient_capacity t - trans_bytes t \<and> copies_available (copies t) n"
    and "k = unit_live o' - unit_live (units t ! u)"
  shows "transient_inv ((transient_charge n (unit_set u o' t))\<lparr>trans_units := trans_units t + k\<rparr>)"
proof -
  have ge: "0 \<le> trans_bytes t + n"
    using transient_inv_charge_le [OF assms(1,2)] unit_ok_nonneg [OF assms(3)] assms(4) by linarith
  have cap: "trans_bytes t + n \<le> transient_capacity t"
    using assms(1,5) by (cases "0 < n") (auto simp: transient_inv_def)
  have cok: "case copies t of None \<Rightarrow> True | Some b \<Rightarrow> trans_bytes t + n \<le> copy_bytes b + n
      \<and> copy_bytes b + n \<le> (if copy_limit b = 0 then recording_copy_bytes else copy_limit b)"
    using assms(1,5)
    by (cases "0 < n") (auto simp: transient_inv_def copies_ok_def copies_available_def Let_def split: option.splits)
  have "list_all unit_ok ((units t)[u := o'])"
    using assms(1,3) set_update_subset_insert [of "units t" u o']
    by (auto simp: transient_inv_def list_all_iff)
  then show ?thesis
    using assms(1,2,4,6) cap cok ge
    by (auto simp: transient_inv_def transient_charge_def unit_set_def Let_def transient_capacity_def
        copies_ok_def copies_charge_def copies_panic_def sum_list_update_int split: option.splits)
qed

text \<open>A unit that already holds nothing is settled exactly once.\<close>

lemma unit_refs_live: "0 < unit_refs o' \<Longrightarrow> unit_live o' = 1 \<and> unit_charge o' = recording_unit_bytes + unit_held o'"
  by (simp add: unit_live_def unit_charge_def)

lemma unit_reserve_inv:
  assumes "transient_inv t" "u < length (units t)" "unit_reserve u n t = Some t'"
  shows "transient_inv t' \<and> units t' = (units t)[u := (units t ! u)\<lparr>unit_held := unit_held (units t ! u) + n\<rparr>]"
proof -
  let ?o = "units t ! u" and ?o' = "(units t ! u)\<lparr>unit_held := unit_held (units t ! u) + n\<rparr>"
  have r: "0 < unit_refs ?o" "0 \<le> n" "n \<le> transient_capacity t - trans_bytes t" "copies_available (copies t) n"
    "t' = transient_charge n (unit_set u ?o' t)"
    using assms(3) by (auto simp: unit_reserve_def Let_def split: if_splits)
  have ok: "unit_ok ?o" using assms(1,2) by (simp add: transient_inv_def list_all_length)
  have "transient_inv ((transient_charge n (unit_set u ?o' t))\<lparr>trans_units := trans_units t + 0\<rparr>)"
    by (rule charge_unit_inv [OF assms(1,2)])
      (use ok r in \<open>auto simp: unit_ok_def unit_charge_def unit_live_def\<close>)
  then show ?thesis
    using r(5) by (simp add: transient_charge_def unit_set_def Let_def)
qed

lemma unit_release_inv:
  assumes "transient_inv t" "u < length (units t)" "0 < unit_refs (units t ! u)" "0 \<le> n" "n \<le> unit_held (units t ! u)"
  shows "transient_inv (unit_release u n t) \<and>
    units (unit_release u n t) = (units t)[u := (units t ! u)\<lparr>unit_held := unit_held (units t ! u) - n\<rparr>]"
proof -
  let ?o = "units t ! u" and ?o' = "(units t ! u)\<lparr>unit_held := unit_held (units t ! u) - n\<rparr>"
  let ?t = "transient_charge (- n) (unit_set u ?o' t)"
  have ok: "unit_ok ?o" using assms(1,2) by (simp add: transient_inv_def list_all_length)
  have "transient_inv (?t\<lparr>trans_units := trans_units t + 0\<rparr>)"
    by (rule charge_unit_inv [OF assms(1,2)])
      (use ok assms(3-5) in \<open>auto simp: unit_ok_def unit_charge_def unit_live_def\<close>)
  moreover have "unit_release u n t = ?t"
    using assms(2-5)
    by (simp add: unit_release_def unit_release_locked_def Let_def transient_charge_def unit_set_def)
  ultimately show ?thesis
    by (simp add: transient_charge_def unit_set_def Let_def)
qed

lemma copies_charge_ok:
  assumes "copies_ok t" "copies_available (copies t) n" "0 \<le> trans_bytes t" "0 \<le> n"
    and "copies t' = copies_charge (copies t) n" "trans_bytes t' = trans_bytes t + n"
  shows "copies_ok t' \<and> \<not> copies_panic (copies t')"
proof (cases "copies t")
  case None
  with assms show ?thesis by (simp add: copies_ok_def copies_charge_def copies_panic_def)
next
  case (Some b)
  with assms show ?thesis
    by (auto simp: copies_ok_def copies_charge_def copies_panic_def copies_available_def Let_def split: if_splits)
qed

lemma unit_acquire_inv:
  assumes "transient_inv t" "unit_acquire t = Inr (u, t')"
  shows "transient_inv t' \<and> u = length (units t) \<and> units t' = units t @ [\<lparr>unit_refs = 1, unit_held = 0\<rparr>]"
proof -
  let ?n = recording_unit_bytes
  have n: "0 \<le> ?n" by (simp add: recording_unit_bytes_def)
  have g: "?n \<le> transient_capacity t - trans_bytes t" "copies_available (copies t) ?n"
    and t': "u = length (units t)" "units t' = units t @ [\<lparr>unit_refs = 1, unit_held = 0\<rparr>]"
      "trans_bytes t' = trans_bytes t + ?n" "trans_units t' = trans_units t + 1" "trans_limit t' = trans_limit t"
      "copies t' = copies_charge (copies t) ?n" "panicked t' \<longleftrightarrow> panicked t \<or> copies_panic (copies t')"
    using assms(2) by (auto simp: unit_acquire_def transient_charge_def Let_def split: if_splits)
  have "copies_ok t' \<and> \<not> copies_panic (copies t')"
    by (rule copies_charge_ok [OF _ g(2) transient_inv_bytes_nonneg [OF assms(1)] n t'(6,3)])
      (use assms(1) in \<open>simp add: transient_inv_def\<close>)
  moreover have "transient_capacity t' = transient_capacity t"
    by (simp add: transient_capacity_def t'(5))
  ultimately show ?thesis
    using assms(1) g(1) t' by (simp add: transient_inv_def unit_ok_def unit_charge_def unit_live_def)
qed

lemma unit_hold_inv:
  assumes "transient_inv t" "u < length (units t)" "0 < unit_refs (units t ! u)"
  shows "transient_inv (unit_hold u t)"
proof -
  let ?o = "units t ! u" and ?o' = "(units t ! u)\<lparr>unit_refs := unit_refs (units t ! u) + 1\<rparr>"
  have ok: "unit_ok ?o" using assms(1,2) by (simp add: transient_inv_def list_all_length)
  have "transient_inv ((transient_charge 0 (unit_set u ?o' t))\<lparr>trans_units := trans_units t + 0\<rparr>)"
    by (rule charge_unit_inv [OF assms(1,2)])
      (use ok assms(3) in \<open>auto simp: unit_ok_def unit_charge_def unit_live_def\<close>)
  then show ?thesis
    using assms(1,3)
    by (auto simp: unit_hold_def Let_def transient_inv_def transient_charge_def unit_set_def copies_charge_def
        copies_ok_def transient_capacity_def split: option.splits)
qed

lemma unit_done_inv:
  assumes "transient_inv t" "u < length (units t)" "0 < unit_refs (units t ! u)"
  shows "transient_inv (unit_done u t)"
proof -
  let ?o = "units t ! u" and ?o' = "(units t ! u)\<lparr>unit_refs := unit_refs (units t ! u) - 1\<rparr>"
  have ok: "unit_ok ?o" using assms(1,2) by (simp add: transient_inv_def list_all_length)
  show ?thesis
  proof (cases "unit_refs ?o = 1 \<and> unit_held ?o = 0")
    case True
    have "transient_inv ((transient_charge (- recording_unit_bytes) (unit_set u (?o\<lparr>unit_refs := -1\<rparr>) t))
        \<lparr>trans_units := trans_units t + (- 1)\<rparr>)"
      by (rule charge_unit_inv [OF assms(1,2)])
        (use True in \<open>auto simp: unit_ok_def unit_charge_def unit_live_def recording_unit_bytes_def\<close>)
    then show ?thesis
      using True assms(2)
      by (simp add: unit_done_def unit_release_locked_def Let_def unit_set_def transient_charge_def)
  next
    case False
    have "transient_inv ((transient_charge 0 (unit_set u ?o' t))\<lparr>trans_units := trans_units t + 0\<rparr>)"
      by (rule charge_unit_inv [OF assms(1,2)])
        (use ok assms(3) False in \<open>auto simp: unit_ok_def unit_charge_def unit_live_def\<close>)
    moreover have "unit_done u t = unit_set u ?o' t"
      using False assms(2,3) by (auto simp: unit_done_def unit_release_locked_def Let_def unit_set_def)
    ultimately show ?thesis
      using assms(1)
      by (auto simp: transient_inv_def transient_charge_def unit_set_def Let_def copies_charge_def
          copies_ok_def transient_capacity_def split: option.splits)
  qed
qed

section \<open>The provider of the decoder's memory contract\<close>

definition unit_sound :: "nat \<Rightarrow> transient_budget \<Rightarrow> bool" where
  "unit_sound u t \<longleftrightarrow> transient_inv t \<and> u < length (units t) \<and> 0 < unit_refs (units t ! u)"

definition held_by :: "nat \<Rightarrow> transient_budget \<Rightarrow> int" where
  "held_by u t = unit_held (units t ! u)"

text \<open>
  What one unit's reservations and releases leave alone: the two limits, the other units, and the
  distance between the account and the shared copy account. The recorded peak bounds every value the
  account took on the way.
\<close>

definition same_account :: "nat \<Rightarrow> transient_budget \<Rightarrow> transient_budget \<Rightarrow> bool" where
  "same_account u t t' \<longleftrightarrow>
     trans_limit t' = trans_limit t \<and> trans_units t' = trans_units t
     \<and> units t' = (units t)[u := units t' ! u]
     \<and> map_option (\<lambda>b. (copy_limit b, copy_bytes b - trans_bytes t')) (copies t')
         = map_option (\<lambda>b. (copy_limit b, copy_bytes b - trans_bytes t)) (copies t)
     \<and> trans_peak t' \<le> max (trans_peak t) (transient_capacity t)"

lemma same_account_refl [simp]: "same_account u t t"
  by (simp add: same_account_def)

lemma same_account_capacity: "same_account u t t' \<Longrightarrow> transient_capacity t' = transient_capacity t"
  by (simp add: same_account_def transient_capacity_def)

lemma same_account_trans:
  assumes "same_account u t t'" "same_account u t' t''"
  shows "same_account u t t''"
  using assms same_account_capacity [OF assms(1)]
  by (auto simp: same_account_def) (metis list_update_overwrite)

lemma same_account_charge:
  assumes "trans_bytes t + n \<le> transient_capacity t" "u < length (units t)"
  shows "same_account u t (transient_charge n (unit_set u o' t))"
  using assms
  by (cases "copies t") (auto simp: same_account_def transient_charge_def unit_set_def copies_charge_def Let_def)

lemma same_account_bytes:
  assumes "same_account u t t'" "unit_sound u t" "unit_sound u t'"
  shows "trans_bytes t' - trans_bytes t = held_by u t' - held_by u t"
proof -
  have "u < length (units t)" "units t' = (units t)[u := units t' ! u]"
    using assms(1,2) by (simp_all add: same_account_def unit_sound_def)
  then have "sum_list (map unit_charge (units t'))
      = sum_list (map unit_charge (units t)) - unit_charge (units t ! u) + unit_charge (units t' ! u)"
    by (metis sum_list_update_int)
  with assms(2,3) show ?thesis
    by (simp add: unit_sound_def transient_inv_def held_by_def unit_charge_def)
qed

lemma unit_sound_caps:
  assumes "unit_sound u t"
  shows "trans_bytes t \<le> transient_capacity t" "copies_ok t"
    and "recording_unit_bytes + held_by u t \<le> trans_bytes t"
  using assms transient_inv_charge_le [of t u]
  by (auto simp: unit_sound_def transient_inv_def held_by_def unit_charge_def)

abbreviation account_of :: "nat \<Rightarrow> transient_budget \<Rightarrow> transient_budget \<Rightarrow> bool" where
  "account_of u t0 t \<equiv> unit_sound u t \<and> same_account u t0 t"

interpretation unit_mem: memory_contract "unit_iface u" "held_by u" "account_of u t0" for u t0
proof
  fix m n m'
  assume a: "account_of u t0 m" "0 \<le> n" "mem_reserve (unit_iface u) n m = Some m'"
  then have "unit_sound u m' \<and> held_by u m' = held_by u m + n"
    using unit_reserve_inv [of m u n m'] by (auto simp: unit_sound_def held_by_def unit_iface_def)
  moreover have "same_account u m m'"
    using a same_account_charge [of m n u]
    by (auto simp: unit_sound_def unit_iface_def unit_reserve_def Let_def split: if_splits)
  ultimately show "account_of u t0 m' \<and> held_by u m' = held_by u m + n"
    using a(1) same_account_trans by blast
next
  fix m n
  assume a: "account_of u t0 m" "0 \<le> n" "n \<le> held_by u m"
  then have "unit_sound u (mem_release (unit_iface u) n m)
      \<and> held_by u (mem_release (unit_iface u) n m) = held_by u m - n"
    using unit_release_inv [of m u n] by (auto simp: unit_sound_def held_by_def unit_iface_def)
  moreover have "same_account u m (mem_release (unit_iface u) n m)"
    using a same_account_charge [of m "- n" u] unit_sound_caps(1) [of u m]
    by (auto simp: unit_sound_def held_by_def unit_iface_def unit_release_def unit_release_locked_def
        Let_def transient_charge_def unit_set_def)
  ultimately show "account_of u t0 (mem_release (unit_iface u) n m)
      \<and> held_by u (mem_release (unit_iface u) n m) = held_by u m - n"
    using a(1) same_account_trans by blast
qed

text \<open>The observer's loop: every read goes through \<^verbatim>\<open>EventBatch.Feed\<close>.\<close>

type_synonym reader_state = "decoder \<times> event_batch \<times> transient_budget"

definition reader_step :: "nat \<Rightarrow> reader_state \<Rightarrow> bytes \<Rightarrow> reader_state" where
  "reader_step u s input = (case s of (d, b, t) \<Rightarrow> snd (batch_feed (unit_iface u) input d b t))"

definition reader_inv :: "nat \<Rightarrow> transient_budget \<Rightarrow> reader_state \<Rightarrow> bool" where
  "reader_inv u t0 s \<longleftrightarrow> unit_sound u t0 \<and> 0 \<le> held_by u t0
     \<and> accounted (unit_iface u) (held_by u) (account_of u t0) (held_by u t0) s"

interpretation reader: invariant_machine "reader_step u" "reader_inv u t0" for u t0
proof
  fix s e
  assume inv: "reader_inv u t0 s"
  obtain d b t where s: "s = (d, b, t)" by (cases s)
  obtain r d' b' t' where f: "batch_feed (unit_iface u) e d b t = (r, d', b', t')" by (metis prod_cases4)
  show "reader_inv u t0 (reader_step u s e)"
    using inv unit_mem.batch_feed_balanced [OF _ _ f] by (simp add: reader_inv_def reader_step_def s f)
qed

definition reader_start :: "transient_budget \<Rightarrow> reader_state" where
  "reader_start t = (new_budgeted_decoder, empty_batch, t)"

definition reader_close :: "nat \<Rightarrow> reader_state \<Rightarrow> transient_budget" where
  "reader_close u s =
     (case s of (d, b, t) \<Rightarrow>
        let (b', t1) = batch_release (unit_iface u) b t;
            (d', t2) = decoder_release (unit_iface u) d t1
        in t2)"

lemma reader_start_inv: "unit_sound u t \<Longrightarrow> reader_inv u t (reader_start t)"
  using transient_inv_def
  by (auto simp: reader_inv_def reader_start_def accounted_def batch_wf_def empty_batch_def decoder_charge_def
      batch_charge_def new_budgeted_decoder_def new_decoder_def decoder_wf_def held_by_def unit_sound_def
      list_all_length dest!: unit_ok_nonneg [rotated])

lemma reader_close_settles:
  assumes "reader_inv u t0 s"
  shows "account_of u t0 (reader_close u s) \<and> held_by u (reader_close u s) = held_by u t0"
proof -
  obtain d b t where s: "s = (d, b, t)" by (cases s)
  obtain b' t1 where b: "batch_release (unit_iface u) b t = (b', t1)" by force
  obtain d' t2 where d: "decoder_release (unit_iface u) d t1 = (d', t2)" by force
  have base: "0 \<le> held_by u t0"
    and a: "accounted (unit_iface u) (held_by u) (account_of u t0) (held_by u t0) (d, b, t)"
    using assms by (auto simp: reader_inv_def s)
  from unit_mem.batch_release_balanced [OF a base b]
  have a1: "accounted (unit_iface u) (held_by u) (account_of u t0) (held_by u t0) (d, b', t1)"
    "batch_charge b' = 0" by auto
  from unit_mem.decoder_release_balanced [OF a1(1) base d] a1(2)
  have "account_of u t0 t2 \<and> held_by u t2 = held_by u t0" by (auto simp: accounted_def)
  then show ?thesis by (simp add: reader_close_def s b d)
qed

text \<open>What the invariant says of a state in the middle of a stream.\<close>

lemma reader_inv_caps:
  assumes "reader_inv u t0 (d, b, t)"
  shows "held_by u t = held_by u t0 + decoder_charge d + batch_charge b"
    and "trans_bytes t = trans_bytes t0 + decoder_charge d + batch_charge b"
    and "recording_unit_bytes + held_by u t \<le> trans_bytes t" "trans_bytes t \<le> transient_capacity t0"
    and "copies_ok t" "same_account u t0 t" "\<not> panicked t"
proof -
  have inv: "unit_sound u t0" "unit_sound u t" "same_account u t0 t"
    and held: "held_by u t = held_by u t0 + decoder_charge d + batch_charge b"
    using assms by (auto simp: reader_inv_def accounted_def)
  show "held_by u t = held_by u t0 + decoder_charge d + batch_charge b" by (rule held)
  show "trans_bytes t = trans_bytes t0 + decoder_charge d + batch_charge b"
    using same_account_bytes [OF inv(3,1,2)] held by simp
  show "recording_unit_bytes + held_by u t \<le> trans_bytes t" "copies_ok t"
    using unit_sound_caps [OF inv(2)] by simp_all
  show "trans_bytes t \<le> transient_capacity t0"
    using unit_sound_caps(1) [OF inv(2)] same_account_capacity [OF inv(3)] by simp
  show "same_account u t0 t" by (rule inv)
  show "\<not> panicked t" using inv(2) by (simp add: unit_sound_def transient_inv_def)
qed

text \<open>
  C36: Memory of the observer's reader. Whatever bytes tmux sends and wherever the reads cut them,
  including streams that make the decoder fail and reads the account refuses: no reservation or
  release panics; what the unit holds and what the whole account has grown by are exactly the charges
  of the decoder's buffer and of the current batch; the unit's allowance with what it holds is covered
  by the account, which is within the capacity it started with, as the shared copy account is within
  its limit; no value the account took on the way, which its peak records, exceeded the capacity; the
  limits and the other units are untouched. Releasing both returns unit and account to what
  they were before.
\<close>

theorem reader_budget_settles:
  assumes "unit_sound u t"
  shows "(case foldl (reader_step u) (reader_start t) inputs of (d, b, t') \<Rightarrow>
         \<not> panicked t'
         \<and> held_by u t' = held_by u t + decoder_charge d + batch_charge b
         \<and> trans_bytes t' = trans_bytes t + decoder_charge d + batch_charge b
         \<and> recording_unit_bytes + held_by u t' \<le> trans_bytes t'
         \<and> trans_bytes t' \<le> transient_capacity t \<and> copies_ok t' \<and> same_account u t t')
    \<and> (let t'' = reader_close u (foldl (reader_step u) (reader_start t) inputs)
       in \<not> panicked t'' \<and> held_by u t'' = held_by u t \<and> trans_bytes t'' = trans_bytes t
          \<and> copies_ok t'' \<and> same_account u t t'')"
proof -
  obtain d b t' where s: "foldl (reader_step u) (reader_start t) inputs = (d, b, t')" by (metis prod_cases3)
  have inv: "reader_inv u t (d, b, t')"
    unfolding s [symmetric] by (rule reader.run_inv) (rule reader_start_inv [OF assms])
  note close = reader_close_settles [OF inv]
  have "trans_bytes (reader_close u (d, b, t')) = trans_bytes t"
    using same_account_bytes [of u t "reader_close u (d, b, t')"] close assms by simp
  with close unit_sound_caps(2) [of u "reader_close u (d, b, t')"] reader_inv_caps [OF inv] show ?thesis
    by (simp add: s Let_def unit_sound_def transient_inv_def)
qed

text \<open>
  A run for the instance: an account with room for exactly one buffer of 8192 bytes beside the
  allowance of its one unit. The first read fills it; the second completes a line, and the account
  refuses the batch.
\<close>

definition sample_budget :: transient_budget where
  "sample_budget = \<lparr>copies = None, trans_bytes = recording_unit_bytes, trans_peak = 0, trans_limit = recording_unit_bytes + 8192,
     trans_units = 1, units = [\<lparr>unit_refs = 1, unit_held = 0\<rparr>], panicked = False\<rparr>"

lemma sample_budget_sound: "unit_sound 0 sample_budget"
  by (simp add: unit_sound_def transient_inv_def sample_budget_def unit_ok_def unit_charge_def unit_live_def
      copies_ok_def transient_capacity_def recording_unit_bytes_def recording_transient_bytes_def)

lemma sample_reader_fills:
  "case foldl (reader_step 0) (reader_start sample_budget) [''%exit''] of (d, b, t) \<Rightarrow>
     \<not> failed d \<and> decoder_charge d = 8192 \<and> batch_charge b = 0
     \<and> trans_bytes t = transient_capacity sample_budget"
  by code_simp

lemma sample_reader_refused:
  "case foldl (reader_step 0) (reader_start sample_budget) [''%exit'', [LF]] of (d, b, t) \<Rightarrow>
     failed d \<and> decoder_charge d = 0 \<and> batch_charge b = 0"
  by code_simp

theorem reader_budget_settles_witness:
  "(case foldl (reader_step 0) (reader_start sample_budget) [''%exit''] of (d, b, t) \<Rightarrow>
      held_by 0 t = 8192 \<and> trans_bytes t = transient_capacity sample_budget \<and> same_account 0 sample_budget t)
   \<and> held_by 0 (reader_close 0 (foldl (reader_step 0) (reader_start sample_budget) [''%exit''])) = 0"
  using reader_budget_settles [OF sample_budget_sound, of "[''%exit'']"] sample_reader_fills
  by (auto simp: Let_def held_by_def sample_budget_def)

end
