(* ===== verification/Terminal_Frame.thy ===== *)
theory Terminal_Frame
  imports Utf8
begin

text \<open>
  Attachment frames: the data of \<^verbatim>\<open>internal/terminal/protocol.go\<close>, its size limits (with those
  of \<^verbatim>\<open>history.go\<close>, \<^verbatim>\<open>input.go\<close> and \<^verbatim>\<open>egress.go\<close>), and \<^verbatim>\<open>Frame.Validate\<close>.
\<close>

section \<open>Limits\<close>

definition protocol_version :: int where "protocol_version = 1"
definition default_history_rows :: int where "default_history_rows = 1000"
definition history_row_cap :: int where "history_row_cap = 10000"
definition history_byte_cap :: int where "history_byte_cap = 2 * 1024 * 1024"
definition history_row_byte_cap :: int where "history_row_byte_cap = 8 * 1024"
definition held_byte_cap :: int where "held_byte_cap = 256 * 1024"
definition replay_byte_cap :: int where "replay_byte_cap = 256 * 1024"
definition max_input_frames :: int where "max_input_frames = 64"
definition max_input_bytes :: int where "max_input_bytes = 256 * 1024"
definition max_egress_frames :: int where "max_egress_frames = 64"
definition max_egress_bytes :: int where "max_egress_bytes = 512 * 1024"
definition max_egress_queue_bytes :: int where "max_egress_queue_bytes = 16 * 1024 * 1024"

definition min_fit_rows :: int where "min_fit_rows = 8"
definition max_fit_rows :: int where "max_fit_rows = 120"
definition max_fit_cells :: int where "max_fit_cells = 36000"

lemmas limit_defs =
  protocol_version_def default_history_rows_def history_row_cap_def history_byte_cap_def
  history_row_byte_cap_def held_byte_cap_def replay_byte_cap_def max_input_frames_def
  max_input_bytes_def max_egress_frames_def max_egress_bytes_def max_egress_queue_bytes_def
  min_fit_rows_def max_fit_rows_def max_fit_cells_def

definition valid_history_rows :: "int \<Rightarrow> bool" where
  "valid_history_rows rows \<longleftrightarrow> rows \<in> {0, 500, 1000, 2000, 5000, 7500, 10000}"

definition valid_vertical_fit :: "int \<Rightarrow> int \<Rightarrow> bool" where
  "valid_vertical_fit columns rows \<longleftrightarrow>
     columns \<ge> 1 \<and> columns \<le> 1000 \<and> rows \<ge> min_fit_rows \<and> rows \<le> max_fit_rows
     \<and> columns * rows \<le> max_fit_cells"

section \<open>Frames\<close>

text \<open>
  The string types of the source are closed sets of names; the last constructor stands for any
  other string, \<open>CutNone\<close> and \<open>ModeNone\<close> for the empty one.
\<close>

datatype frame_type =
    FramePrepare | FrameReady | FrameDefer | FrameCommit | FrameLive | FrameModeRequest
  | FrameMode | FrameInput | FrameResize | FrameHistory | FrameEnd | FrameUnknown

datatype mode = ModeNone | ModeObserve | ModeControl | ModeUnknown

datatype cut_kind =
    CutNone | CutInitial | CutReconnect | CutOngoing | CutResize | CutHistory | CutUnknown

record stream_position =
  pos_sequence :: u64
  pos_offset :: u64

definition valid_stream :: "string \<Rightarrow> bool" where
  "valid_stream s \<longleftrightarrow>
     length s = 26 \<and>
     list_all (\<lambda>c. (CHR ''A'' \<le> c \<and> c \<le> CHR ''Z'') \<or> (CHR ''2'' \<le> c \<and> c \<le> CHR ''7'')) s"

record frame =
  f_version :: int
  f_type :: frame_type
  f_source :: string
  f_epoch :: u64
  f_cut :: u64
  f_kind :: cut_kind
  f_mode :: mode
  f_data :: bytes
  f_replay :: bytes
  f_history :: "string list"
  f_columns :: int
  f_rows :: int
  f_request :: u64
  f_history_rows :: int
  f_effective_history_rows :: int
  f_truncated :: bool
  f_reason :: string
  f_stream :: string
  f_resumed :: bool
  f_position :: "stream_position option"
  f_input_id :: u64

text \<open>A frame literal of the source sets a few fields and leaves the rest zero.\<close>

definition base_frame :: "frame_type \<Rightarrow> string \<Rightarrow> u64 \<Rightarrow> frame" where
  "base_frame t source epoch =
     \<lparr>f_version = protocol_version, f_type = t, f_source = source, f_epoch = epoch, f_cut = 0,
      f_kind = CutNone, f_mode = ModeNone, f_data = [], f_replay = [], f_history = [],
      f_columns = 0, f_rows = 0, f_request = 0, f_history_rows = 0, f_effective_history_rows = 0,
      f_truncated = False, f_reason = [], f_stream = [], f_resumed = False, f_position = None,
      f_input_id = 0\<rparr>"

section \<open>Validation\<close>

definition malformed :: "go_error option" where "malformed = Some (Sent ErrMalformed)"
definition saturated :: "go_error option" where "saturated = Some (Sent ErrSaturated)"

definition cut_frame :: "frame_type \<Rightarrow> bool" where
  "cut_frame t \<longleftrightarrow> t \<in> {FramePrepare, FrameReady, FrameDefer, FrameCommit, FrameLive}"

definition known_cut_kind :: "cut_kind \<Rightarrow> bool" where
  "known_cut_kind k \<longleftrightarrow> k \<in> {CutInitial, CutReconnect, CutOngoing, CutResize, CutHistory}"

definition bad_grid :: "frame \<Rightarrow> bool" where
  "bad_grid f \<longleftrightarrow> f_columns f \<le> 0 \<or> f_columns f > 1000 \<or> f_rows f \<le> 0 \<or> f_rows f > 1000"

definition bad_history_row :: "string \<Rightarrow> bool" where
  "bad_history_row row \<longleftrightarrow> len row > history_row_byte_cap \<or> NUL \<in> set row \<or> \<not> utf8_valid row"

definition history_bytes :: "string list \<Rightarrow> int" where
  "history_bytes rows = sum_list (map (\<lambda>row. len row + 1) rows)"

definition validate_prepare :: "frame \<Rightarrow> go_error option" where
  "validate_prepare f =
     (if \<not> known_cut_kind (f_kind f) \<or> bad_grid f then malformed
      else if f_kind f = CutHistory \<and> (f_request f = 0 \<or> \<not> valid_history_rows (f_effective_history_rows f))
      then malformed
      else if f_kind f \<noteq> CutHistory \<and> (f_request f \<noteq> 0 \<or> f_effective_history_rows f \<noteq> 0) then malformed
      else if len (f_history f) > history_row_cap then saturated
      else if list_ex bad_history_row (f_history f) then malformed
      else if history_bytes (f_history f) > history_byte_cap then saturated
      else if len (f_replay f) > replay_byte_cap then saturated
      else None)"

definition stray_choice :: "frame \<Rightarrow> bool" where
  "stray_choice f \<longleftrightarrow> f_mode f \<noteq> ModeNone \<or> f_kind f \<noteq> CutNone \<or> f_cut f \<noteq> 0"

definition validate_type :: "frame \<Rightarrow> go_error option" where
  "validate_type f =
     (case f_type f of
        FramePrepare \<Rightarrow> validate_prepare f
      | FrameModeRequest \<Rightarrow> (if f_mode f \<noteq> ModeObserve \<and> f_mode f \<noteq> ModeControl then malformed else None)
      | FrameMode \<Rightarrow> (if f_mode f \<noteq> ModeObserve \<and> f_mode f \<noteq> ModeControl then malformed else None)
      | FrameInput \<Rightarrow>
          (if f_data f = [] \<or> len (f_data f) > max_input_bytes \<or> stray_choice f then malformed else None)
      | FrameResize \<Rightarrow> (if bad_grid f \<or> stray_choice f then malformed else None)
      | FrameHistory \<Rightarrow>
          (if f_request f = 0 \<or> \<not> valid_history_rows (f_history_rows f) \<or> stray_choice f then malformed else None)
      | FrameLive \<Rightarrow> (if f_data f = [] \<or> len (f_data f) > max_egress_bytes then malformed else None)
      | FrameReady \<Rightarrow> None
      | FrameCommit \<Rightarrow> None
      | FrameDefer \<Rightarrow> (if f_reason f = [] then malformed else None)
      | FrameEnd \<Rightarrow> (if f_reason f = [] then malformed else None)
      | FrameUnknown \<Rightarrow> malformed)"

definition max_int64_word :: u64 where "max_int64_word = 0x7FFFFFFFFFFFFFFF"

text \<open>The field-exclusivity checks that follow the switch, each a return of the source.\<close>

definition stray_field :: "frame \<Rightarrow> bool" where
  "stray_field f \<longleftrightarrow>
     (f_type f \<noteq> FramePrepare \<and> f_kind f \<noteq> CutNone)
     \<or> (f_type f \<noteq> FrameMode \<and> f_type f \<noteq> FrameModeRequest \<and> f_mode f \<noteq> ModeNone)
     \<or> (f_type f \<noteq> FrameInput \<and> f_type f \<noteq> FrameLive \<and> f_data f \<noteq> [])
     \<or> (f_type f \<noteq> FramePrepare \<and> f_replay f \<noteq> [])
     \<or> (f_type f \<noteq> FramePrepare \<and> f_type f \<noteq> FrameResize \<and> (f_columns f \<noteq> 0 \<or> f_rows f \<noteq> 0))
     \<or> (f_type f \<noteq> FrameHistory \<and> f_history_rows f \<noteq> 0)
     \<or> (f_type f \<noteq> FramePrepare \<and> f_effective_history_rows f \<noteq> 0)
     \<or> (f_type f \<noteq> FramePrepare \<and> f_type f \<noteq> FrameHistory \<and> f_request f \<noteq> 0)
     \<or> (f_type f \<noteq> FramePrepare \<and> (f_history f \<noteq> [] \<or> f_truncated f))
     \<or> (f_type f \<noteq> FrameDefer \<and> f_type f \<noteq> FrameEnd \<and> f_type f \<noteq> FrameMode \<and> f_reason f \<noteq> [])"

definition bad_stream :: "frame \<Rightarrow> bool" where
  "bad_stream f \<longleftrightarrow>
     (let admission = (f_type f = FramePrepare \<and> (f_kind f = CutInitial \<or> f_kind f = CutReconnect))
      in (f_stream f \<noteq> [] \<and> (\<not> admission \<or> \<not> valid_stream (f_stream f)))
         \<or> (f_resumed f \<and> f_stream f = []))"

definition bad_position :: "frame \<Rightarrow> bool" where
  "bad_position f \<longleftrightarrow>
     (case f_position f of
        None \<Rightarrow> False
      | Some p \<Rightarrow> (f_type f \<noteq> FramePrepare \<and> f_type f \<noteq> FrameLive)
          \<or> pos_offset p > max_int64_word \<or> pos_sequence p > max_int64_word)"

definition validate :: "frame \<Rightarrow> go_error option" where
  "validate f =
     (if f_version f \<noteq> protocol_version \<or> f_source f = [] \<or> len (f_source f) > 256 \<or> f_epoch f = 0
         \<or> len (f_reason f) > 64 then malformed
      else if cut_frame (f_type f) \<noteq> (f_cut f \<noteq> 0) then malformed
      else case validate_type f of
        Some e \<Rightarrow> Some e
      | None \<Rightarrow>
          if stray_field f then malformed
          else if bad_stream f then malformed
          else if bad_position f then malformed
          else None)"

section \<open>What a valid frame satisfies\<close>

lemma guard_None [simp]: "((if c then Some e else r) = None) \<longleftrightarrow> \<not> c \<and> r = None"
  by simp

lemma guard_malformed [simp]: "((if c then malformed else r) = None) \<longleftrightarrow> \<not> c \<and> r = None"
  by (simp add: malformed_def)

lemma guard_saturated [simp]: "((if c then saturated else r) = None) \<longleftrightarrow> \<not> c \<and> r = None"
  by (simp add: saturated_def)

lemma validate_None_iff:
  "validate f = None \<longleftrightarrow>
     f_version f = protocol_version \<and> f_source f \<noteq> [] \<and> len (f_source f) \<le> 256 \<and> f_epoch f \<noteq> 0
     \<and> len (f_reason f) \<le> 64 \<and> cut_frame (f_type f) = (f_cut f \<noteq> 0) \<and> validate_type f = None
     \<and> \<not> stray_field f \<and> \<not> bad_stream f \<and> \<not> bad_position f"
  by (cases "validate_type f") (simp_all add: validate_def not_less)

lemma valid_frame:
  assumes "validate f = None"
  shows "f_version f = protocol_version" "f_source f \<noteq> []" "f_epoch f \<noteq> 0"
    "cut_frame (f_type f) = (f_cut f \<noteq> 0)" "validate_type f = None" "\<not> stray_field f"
    "\<not> bad_stream f" "\<not> bad_position f" "len (f_source f) \<le> 256" "len (f_reason f) \<le> 64"
  using assms unfolding validate_None_iff by blast+

lemma validateI:
  assumes "f_version f = protocol_version" "f_source f \<noteq> []" "len (f_source f) \<le> 256" "f_epoch f \<noteq> 0"
    "len (f_reason f) \<le> 64" "cut_frame (f_type f) = (f_cut f \<noteq> 0)" "validate_type f = None"
    "\<not> stray_field f" "\<not> bad_stream f" "\<not> bad_position f"
  shows "validate f = None"
  using assms unfolding validate_None_iff by blast

text \<open>Validation refuses with one of two errors.\<close>

definition refusal_shape :: "go_error option \<Rightarrow> bool" where
  "refusal_shape r \<longleftrightarrow> r \<in> {None, malformed, saturated}"

lemma refusal_shape_simps [simp]:
  "refusal_shape None" "refusal_shape malformed" "refusal_shape saturated"
  "refusal_shape (if c then x else y) \<longleftrightarrow> (if c then refusal_shape x else refusal_shape y)"
  by (simp_all add: refusal_shape_def)

lemma validate_prepare_shape: "refusal_shape (validate_prepare f)"
  by (simp add: validate_prepare_def)

lemma validate_type_shape: "refusal_shape (validate_type f)"
  by (cases "f_type f") (simp_all add: validate_type_def validate_prepare_shape)

lemma validate_shape: "refusal_shape (validate f)"
  using validate_type_shape [of f] by (cases "validate_type f") (simp_all add: validate_def)

lemma validate_error: "validate f = Some e \<Longrightarrow> e = Sent ErrMalformed \<or> e = Sent ErrSaturated"
  using validate_shape [of f] by (auto simp: refusal_shape_def malformed_def saturated_def)

lemma valid_mode:
  "validate f = None \<Longrightarrow> f_type f \<in> {FrameMode, FrameModeRequest} \<Longrightarrow> f_mode f \<in> {ModeObserve, ModeControl}"
  using valid_frame(5) [of f] by (cases "f_type f") (simp_all add: validate_type_def)

lemma valid_prepare_kind:
  "validate f = None \<Longrightarrow> f_type f = FramePrepare \<Longrightarrow> known_cut_kind (f_kind f)"
  using valid_frame(5) [of f] by (simp add: validate_type_def validate_prepare_def)

text \<open>The bytes a frame carries, its fixed-size fields apart.\<close>

definition frame_payload :: "frame \<Rightarrow> int" where
  "frame_payload f =
     len (f_source f) + len (f_reason f) + len (f_stream f) + len (f_data f) + len (f_replay f)
     + history_bytes (f_history f)"

lemma valid_stream_length: "valid_stream s \<Longrightarrow> len s = 26"
  by (simp add: valid_stream_def len_def)

lemma bad_stream_length: "\<not> bad_stream f \<Longrightarrow> len (f_stream f) \<le> 26"
  using valid_stream_length by (fastforce simp: bad_stream_def Let_def)

lemma history_bytes_Nil [simp]: "history_bytes [] = 0"
  by (simp add: history_bytes_def)

lemma validate_prepare_caps:
  "validate_prepare f = None \<Longrightarrow> history_bytes (f_history f) \<le> history_byte_cap \<and> len (f_replay f) \<le> replay_byte_cap"
  by (auto simp: validate_prepare_def malformed_def saturated_def split: if_splits)

lemma valid_frame_data_cap: "validate_type f = None \<Longrightarrow> \<not> stray_field f \<Longrightarrow> len (f_data f) \<le> max_egress_bytes"
  by (cases "f_type f")
    (auto simp: validate_type_def stray_field_def malformed_def limit_defs split: if_splits)

text \<open>
  Every frame that passes validation is bounded: its variable-size fields together hold at
  most the history cap, the replay cap and a little over 256 bytes when it is a PREPARE, and at
  most the egress data cap and the same metadata otherwise; in particular any valid frame fits in
  3 MiB.
\<close>

theorem valid_frame_bounded:
  assumes "validate f = None"
  shows "frame_payload f \<le>
      (if f_type f = FramePrepare then history_byte_cap + replay_byte_cap else max_egress_bytes) + 346
    \<and> frame_payload f \<le> 3 * 2 ^ 20"
proof -
  note v = valid_frame [OF assms] and s = bad_stream_length [OF valid_frame(7) [OF assms]]
  show ?thesis
  proof (cases "f_type f = FramePrepare")
    case True
    with v have "validate_prepare f = None" "f_data f = []"
      by (auto simp: validate_type_def stray_field_def)
    with True validate_prepare_caps [OF this(1)] v(9,10) s show ?thesis
      by (simp add: frame_payload_def limit_defs)
  next
    case False
    with v(6) have "f_replay f = []" "f_history f = []" by (auto simp: stray_field_def)
    with False valid_frame_data_cap [OF v(5,6)] v(9,10) s show ?thesis
      by (simp add: frame_payload_def limit_defs)
  qed
qed

definition sample_live :: frame where
  "sample_live = (base_frame FrameLive ''s'' 1)\<lparr>f_cut := 3, f_data := ''hi''\<rparr>"

lemma sample_live_valid: "validate sample_live = None"
  by (simp add: sample_live_def base_frame_def validate_def validate_type_def cut_frame_def stray_field_def
      bad_stream_def bad_position_def limit_defs)

theorem valid_frame_bounded_witness:
  "validate sample_live = None \<and> frame_payload sample_live \<le> 3 * 2 ^ 20"
  using valid_frame_bounded [OF sample_live_valid] sample_live_valid by blast

text \<open>The frames the server itself builds are valid for any bound identity.\<close>

definition valid_identity :: "string \<Rightarrow> u64 \<Rightarrow> bool" where
  "valid_identity source epoch \<longleftrightarrow> source \<noteq> [] \<and> len source \<le> 256 \<and> epoch \<noteq> 0"

lemmas frame_defs =
  base_frame_def validate_type_def cut_frame_def stray_field_def stray_choice_def bad_stream_def
  bad_position_def bad_grid_def

lemma live_valid:
  "valid_identity s e \<Longrightarrow> c \<noteq> 0 \<Longrightarrow> d \<noteq> [] \<Longrightarrow> len d \<le> max_egress_bytes \<Longrightarrow>
   validate ((base_frame FrameLive s e)\<lparr>f_cut := c, f_data := d\<rparr>) = None"
  by (rule validateI) (simp_all add: frame_defs valid_identity_def)

lemma commit_valid:
  "valid_identity s e \<Longrightarrow> c \<noteq> 0 \<Longrightarrow> validate ((base_frame FrameCommit s e)\<lparr>f_cut := c\<rparr>) = None"
  by (rule validateI) (simp_all add: frame_defs valid_identity_def)

lemma mode_valid:
  "valid_identity s e \<Longrightarrow> m \<in> {ModeObserve, ModeControl} \<Longrightarrow> len r \<le> 64 \<Longrightarrow>
   validate ((base_frame FrameMode s e)\<lparr>f_mode := m, f_reason := r\<rparr>) = None"
  by (rule validateI) (auto simp add: frame_defs valid_identity_def)

lemma end_valid:
  "valid_identity s e \<Longrightarrow> r \<noteq> [] \<Longrightarrow> len r \<le> 64 \<Longrightarrow>
   validate ((base_frame FrameEnd s e)\<lparr>f_reason := r\<rparr>) = None"
  by (rule validateI) (simp_all add: frame_defs valid_identity_def)

end
