(* ===== verification/Frame_Json.thy ===== *)
theory Frame_Json
  imports Terminal_Frame
begin

text \<open>
  \<^verbatim>\<open>json.Marshal\<close> of a \<^verbatim>\<open>terminal.Frame\<close>: the struct tags of \<^verbatim>\<open>protocol.go\<close> (field names,
  \<^verbatim>\<open>omitempty\<close>, order), \<^verbatim>\<open>encoding/json\<close>'s string escaping with HTML escaping on, base64 for
  byte slices and decimal numbers. \<^verbatim>\<open>InputID\<close> is tagged out.
\<close>

section \<open>Numbers, strings, bytes\<close>

fun decimal :: "nat \<Rightarrow> string" where
  "decimal n = (if n < 10 then [char_of (48 + n)] else decimal (n div 10) @ [char_of (48 + n mod 10)])"

declare decimal.simps [simp del]

definition decimal_int :: "int \<Rightarrow> string" where
  "decimal_int i = (if i < 0 then CHR ''-'' # decimal (nat (- i)) else decimal (nat i))"

definition hex_digit :: "nat \<Rightarrow> char" where
  "hex_digit n = (if n < 10 then char_of (48 + n) else char_of (87 + n))"

definition unicode_escape :: "nat \<Rightarrow> string" where
  "unicode_escape x = BSLASH # CHR ''u'' # map (\<lambda>k. hex_digit (x div 16 ^ k mod 16)) [3, 2, 1, 0]"

definition DQUOTE :: char where "DQUOTE = CHR 0x22"

definition escape_ascii :: "byte \<Rightarrow> string" where
  "escape_ascii c =
     (if c = DQUOTE \<or> c = BSLASH then [BSLASH, c]
      else if c = CHR 0x08 then BSLASH # ''b''
      else if c = CHR 0x0C then BSLASH # ''f''
      else if c = LF then BSLASH # ''n''
      else if c = CHR 0x0D then BSLASH # ''r''
      else if c = CHR 0x09 then BSLASH # ''t''
      else if byte_val c < 0x20 \<or> c = CHR ''<'' \<or> c = CHR ''>'' \<or> c = CHR ''&''
      then unicode_escape (byte_val c)
      else [c])"

function escape_string :: "bytes \<Rightarrow> string" where
  "escape_string s =
     (case s of
        [] \<Rightarrow> []
      | c # rest \<Rightarrow>
          if byte_val c < 0x80 then escape_ascii c @ escape_string rest
          else if decode_rune s = (rune_error, 1) then unicode_escape rune_error @ escape_string rest
          else if fst (decode_rune s) = 0x2028 \<or> fst (decode_rune s) = 0x2029
          then unicode_escape (fst (decode_rune s)) @ escape_string (drop (snd (decode_rune s)) s)
          else take (snd (decode_rune s)) s @ escape_string (drop (snd (decode_rune s)) s))"
  by pat_completeness auto
termination
  by (relation "measure length") (auto simp del: decode_rune.simps)

declare escape_string.simps [simp del]

definition json_string :: "bytes \<Rightarrow> string" where
  "json_string s = DQUOTE # escape_string s @ [DQUOTE]"

definition base64_char :: "nat \<Rightarrow> char" where
  "base64_char n =
     (if n < 26 then char_of (65 + n)
      else if n < 52 then char_of (71 + n)
      else if n < 62 then char_of (n - 4)
      else if n = 62 then CHR ''+'' else CHR ''/'')"

fun base64 :: "bytes \<Rightarrow> string" where
  "base64 [] = []"
| "base64 [a] =
     [base64_char (byte_val a div 4), base64_char (byte_val a mod 4 * 16), CHR ''='', CHR ''='']"
| "base64 [a, b] =
     [base64_char (byte_val a div 4), base64_char (byte_val a mod 4 * 16 + byte_val b div 16),
      base64_char (byte_val b mod 16 * 4), CHR ''='']"
| "base64 (a # b # c # rest) =
     base64_char (byte_val a div 4) # base64_char (byte_val a mod 4 * 16 + byte_val b div 16)
     # base64_char (byte_val b mod 16 * 4 + byte_val c div 64) # base64_char (byte_val c mod 64)
     # base64 rest"

section \<open>Frames\<close>

fun frame_type_name :: "frame_type \<Rightarrow> string" where
  "frame_type_name FramePrepare = ''PREPARE''"
| "frame_type_name FrameReady = ''READY''"
| "frame_type_name FrameDefer = ''DEFER''"
| "frame_type_name FrameCommit = ''COMMIT''"
| "frame_type_name FrameLive = ''LIVE''"
| "frame_type_name FrameModeRequest = ''MODE_REQUEST''"
| "frame_type_name FrameMode = ''MODE''"
| "frame_type_name FrameInput = ''INPUT''"
| "frame_type_name FrameResize = ''RESIZE_REQUEST''"
| "frame_type_name FrameHistory = ''HISTORY_REQUEST''"
| "frame_type_name FrameEnd = ''END''"
| "frame_type_name FrameUnknown = []"

fun mode_name :: "mode \<Rightarrow> string" where
  "mode_name ModeObserve = ''OBSERVE''"
| "mode_name ModeControl = ''CONTROL''"
| "mode_name _ = []"

fun cut_kind_name :: "cut_kind \<Rightarrow> string" where
  "cut_kind_name CutInitial = ''INITIAL''"
| "cut_kind_name CutReconnect = ''RECONNECT''"
| "cut_kind_name CutOngoing = ''ONGOING''"
| "cut_kind_name CutResize = ''RESIZE''"
| "cut_kind_name CutHistory = ''HISTORY''"
| "cut_kind_name _ = []"

fun comma_list :: "string list \<Rightarrow> string" where
  "comma_list [] = []"
| "comma_list [s] = s"
| "comma_list (s # ss) = s @ '','' @ comma_list ss"

definition json_field :: "string \<Rightarrow> string \<Rightarrow> string" where
  "json_field name v = json_string name @ '':'' @ v"

text \<open>A field tagged \<^verbatim>\<open>omitempty\<close>: absent when its value is the empty one.\<close>

definition opt_field :: "bool \<Rightarrow> string \<Rightarrow> string \<Rightarrow> string list" where
  "opt_field present name v = (if present then [json_field name v] else [])"

definition json_position :: "stream_position \<Rightarrow> string" where
  "json_position p =
     ''{'' @ comma_list
       [json_field ''sequence'' (decimal (unat (pos_sequence p))),
        json_field ''offset'' (decimal (unat (pos_offset p)))] @ ''}''"

definition marshal_fields :: "frame \<Rightarrow> string list" where
  "marshal_fields f =
     [json_field ''version'' (decimal_int (f_version f)),
      json_field ''type'' (json_string (frame_type_name (f_type f))),
      json_field ''source'' (json_string (f_source f)),
      json_field ''epoch'' (decimal (unat (f_epoch f)))]
     @ opt_field (f_cut f \<noteq> 0) ''cut'' (decimal (unat (f_cut f)))
     @ opt_field (f_kind f \<noteq> CutNone) ''kind'' (json_string (cut_kind_name (f_kind f)))
     @ opt_field (f_mode f \<noteq> ModeNone) ''mode'' (json_string (mode_name (f_mode f)))
     @ opt_field (f_data f \<noteq> []) ''data'' (DQUOTE # base64 (f_data f) @ [DQUOTE])
     @ opt_field (f_replay f \<noteq> []) ''replay'' (DQUOTE # base64 (f_replay f) @ [DQUOTE])
     @ opt_field (f_history f \<noteq> []) ''history''
         (''['' @ comma_list (map json_string (f_history f)) @ '']'')
     @ opt_field (f_columns f \<noteq> 0) ''columns'' (decimal_int (f_columns f))
     @ opt_field (f_rows f \<noteq> 0) ''rows'' (decimal_int (f_rows f))
     @ opt_field (f_request f \<noteq> 0) ''request'' (decimal (unat (f_request f)))
     @ opt_field (f_history_rows f \<noteq> 0) ''history_rows'' (decimal_int (f_history_rows f))
     @ opt_field (f_effective_history_rows f \<noteq> 0) ''effective_history_rows''
         (decimal_int (f_effective_history_rows f))
     @ opt_field (f_truncated f) ''truncated'' ''true''
     @ opt_field (f_reason f \<noteq> []) ''reason'' (json_string (f_reason f))
     @ opt_field (f_stream f \<noteq> []) ''stream'' (json_string (f_stream f))
     @ opt_field (f_resumed f) ''resumed'' ''true''
     @ (case f_position f of None \<Rightarrow> [] | Some p \<Rightarrow> [json_field ''position'' (json_position p)])"

definition marshal_frame :: "frame \<Rightarrow> bytes" where
  "marshal_frame f = ''{'' @ comma_list (marshal_fields f) @ ''}''"

section \<open>Sizes\<close>

lemma marshal_ignores_input_id: "marshal_frame (f\<lparr>f_input_id := i\<rparr>) = marshal_frame f"
  by (simp add: marshal_frame_def marshal_fields_def)

lemma marshal_nonempty: "marshal_frame f \<noteq> []"
  by (simp add: marshal_frame_def)

lemma div_3_up: "(5 + n) div 3 = Suc (Suc (Suc n) div 3)" for n :: nat
proof -
  have "5 + n = (2 + n) + 3" by simp
  then show ?thesis by (simp only: div_add_self2)
qed

lemma base64_length: "length (base64 d) = 4 * ((length d + 2) div 3)"
  by (induction d rule: base64.induct) (simp_all add: div_3_up)

end
