(* ===== verification/Terminal_Automaton.thy ===== *)
theory Terminal_Automaton
  imports Frame_Json
begin

text \<open>
  The attachment's protocol reducer: \<^verbatim>\<open>automaton\<close>, \<^verbatim>\<open>newAutomaton\<close>, \<^verbatim>\<open>apply\<close> and
  \<^verbatim>\<open>fault\<close> of \<^verbatim>\<open>internal/terminal/protocol.go\<close>. A refused frame returns its error and
  leaves the automaton untouched, so \<open>automaton_apply\<close> returns the error or the next automaton.
  The theorems speak of sessions: the sequences of frames the automaton accepted, in order.
\<close>

datatype direction = FromServer | FromBrowser

datatype protocol_state = StateAwaitPrepare | StatePrepared | StateReady | StateLive | StateEnded

record automaton =
  a_source :: string
  a_epoch :: u64
  a_state :: protocol_state
  a_cut :: u64
  a_kind :: cut_kind
  a_mode :: mode
  a_prepare :: bytes

definition new_automaton :: "string \<Rightarrow> u64 \<Rightarrow> go_error + automaton" where
  "new_automaton source epoch =
     (if source = [] \<or> epoch = 0 then Inl (Sent ErrMalformed)
      else Inr \<lparr>a_source = source, a_epoch = epoch, a_state = StateAwaitPrepare, a_cut = 0,
                a_kind = CutNone, a_mode = ModeObserve, a_prepare = []\<rparr>)"

definition admission_kind :: "cut_kind \<Rightarrow> bool" where
  "admission_kind k \<longleftrightarrow> k = CutInitial \<or> k = CutReconnect"

definition ongoing_kind :: "cut_kind \<Rightarrow> bool" where
  "ongoing_kind k \<longleftrightarrow> k = CutOngoing \<or> k = CutResize \<or> k = CutHistory"

definition out_of_state :: "go_error + automaton" where
  "out_of_state = Inl (Sent ErrOutOfState)"

definition apply_prepare :: "direction \<Rightarrow> frame \<Rightarrow> automaton \<Rightarrow> go_error + automaton" where
  "apply_prepare d f a =
     (if d = FromServer \<and> a_state a = StatePrepared \<and> f_cut f = a_cut a then
        (if a_prepare a = marshal_frame f then Inr a else out_of_state)
      else if d \<noteq> FromServer \<or> (a_state a \<noteq> StateAwaitPrepare \<and> a_state a \<noteq> StateLive) \<or> f_cut f \<le> a_cut a
      then out_of_state
      else if a_state a = StateAwaitPrepare \<and> ongoing_kind (f_kind f) then out_of_state
      else if a_state a = StateLive \<and> \<not> ongoing_kind (f_kind f) then out_of_state
      else Inr (a\<lparr>a_state := StatePrepared, a_cut := f_cut f, a_kind := f_kind f,
                  a_prepare := marshal_frame f\<rparr>))"

definition apply_defer :: "direction \<Rightarrow> frame \<Rightarrow> automaton \<Rightarrow> go_error + automaton" where
  "apply_defer d f a =
     (if d \<noteq> FromBrowser \<or> a_state a \<noteq> StatePrepared \<or> a_cut a \<noteq> f_cut f then out_of_state
      else Inr (a\<lparr>a_state := (if admission_kind (a_kind a) then StateAwaitPrepare else StateLive),
                  a_prepare := []\<rparr>))"

definition automaton_apply :: "direction \<Rightarrow> frame \<Rightarrow> automaton \<Rightarrow> go_error + automaton" where
  "automaton_apply d f a =
     (case validate f of
        Some e \<Rightarrow> Inl e
      | None \<Rightarrow>
        if f_source f \<noteq> a_source a \<or> f_epoch f \<noteq> a_epoch a then Inl (Sent ErrStale)
        else if a_state a = StateEnded then out_of_state
        else case f_type f of
          FrameEnd \<Rightarrow> (if d \<noteq> FromServer then out_of_state else Inr (a\<lparr>a_state := StateEnded\<rparr>))
        | FramePrepare \<Rightarrow> apply_prepare d f a
        | FrameDefer \<Rightarrow> apply_defer d f a
        | FrameReady \<Rightarrow>
            (if d \<noteq> FromBrowser \<or> a_state a \<noteq> StatePrepared \<or> a_cut a \<noteq> f_cut f then out_of_state
             else Inr (a\<lparr>a_state := StateReady\<rparr>))
        | FrameCommit \<Rightarrow>
            (if d \<noteq> FromServer \<or> a_state a \<noteq> StateReady \<or> a_cut a \<noteq> f_cut f then out_of_state
             else Inr (a\<lparr>a_state := StateLive, a_prepare := []\<rparr>))
        | FrameLive \<Rightarrow>
            (if d \<noteq> FromServer \<or> a_state a \<noteq> StateLive \<or> a_cut a \<noteq> f_cut f then out_of_state else Inr a)
        | FrameModeRequest \<Rightarrow>
            (if d \<noteq> FromBrowser \<or> a_state a \<noteq> StateLive then out_of_state else Inr a)
        | FrameMode \<Rightarrow>
            (if d \<noteq> FromServer \<or> a_state a \<noteq> StateLive then out_of_state
             else Inr (a\<lparr>a_mode := f_mode f\<rparr>))
        | FrameInput \<Rightarrow>
            (if d \<noteq> FromBrowser \<or> a_state a \<noteq> StateLive \<or> a_mode a \<noteq> ModeControl
             then Inl (Sent ErrObserveOnly) else Inr a)
        | FrameResize \<Rightarrow>
            (if d \<noteq> FromBrowser \<or> a_state a \<noteq> StateLive \<or> a_mode a \<noteq> ModeControl
             then Inl (Sent ErrObserveOnly) else Inr a)
        | FrameHistory \<Rightarrow>
            (if d \<noteq> FromBrowser
                \<or> (a_state a \<noteq> StateLive \<and> a_state a \<noteq> StatePrepared \<and> a_state a \<noteq> StateReady)
             then out_of_state else Inr a)
        | FrameUnknown \<Rightarrow> out_of_state)"

definition automaton_fault :: "automaton \<Rightarrow> automaton" where
  "automaton_fault a = a\<lparr>a_mode := ModeObserve, a_state := StateEnded\<rparr>"

section \<open>Accepted frames, one rule per frame type\<close>

lemmas apply_unfold = automaton_apply_def apply_prepare_def apply_defer_def out_of_state_def

lemma out_of_state_not_Inr [simp]: "out_of_state \<noteq> Inr b" "Inr b \<noteq> out_of_state"
  by (simp_all add: out_of_state_def)

lemma guard_Inr [simp]:
  "((if c then out_of_state else r) = Inr b) \<longleftrightarrow> \<not> c \<and> r = Inr b"
  "((if c then Inl e else r) = Inr b) \<longleftrightarrow> \<not> c \<and> r = Inr b"
  by simp_all

lemma accepted_common:
  assumes "automaton_apply d f a = Inr b"
  shows "validate f = None" "f_source f = a_source a" "f_epoch f = a_epoch a" "a_state a \<noteq> StateEnded"
  using assms by (simp_all add: automaton_apply_def split: option.splits)

lemma accepted_prepare:
  assumes "apply_prepare d f a = Inr b"
  shows "d = FromServer \<and>
      (a_state a = StatePrepared \<and> f_cut f = a_cut a \<and> a_prepare a = marshal_frame f \<and> b = a
       \<or> (a_state a = StateAwaitPrepare \<and> \<not> ongoing_kind (f_kind f)
           \<or> a_state a = StateLive \<and> ongoing_kind (f_kind f))
         \<and> a_cut a < f_cut f
         \<and> b = a\<lparr>a_state := StatePrepared, a_cut := f_cut f, a_kind := f_kind f,
                  a_prepare := marshal_frame f\<rparr>)"
  using assms unfolding apply_prepare_def
  by (cases "a_state a") (auto simp: not_le split: if_splits)

text \<open>The accepted transitions as a table: what each frame type requires and what it changes.\<close>

lemma accepted_table:
  assumes "automaton_apply d f a = Inr b"
  shows "case f_type f of
      FramePrepare \<Rightarrow> d = FromServer \<and>
        (a_state a = StatePrepared \<and> f_cut f = a_cut a \<and> a_prepare a = marshal_frame f \<and> b = a
         \<or> (a_state a = StateAwaitPrepare \<and> \<not> ongoing_kind (f_kind f)
             \<or> a_state a = StateLive \<and> ongoing_kind (f_kind f))
           \<and> a_cut a < f_cut f
           \<and> b = a\<lparr>a_state := StatePrepared, a_cut := f_cut f, a_kind := f_kind f,
                    a_prepare := marshal_frame f\<rparr>)
    | FrameDefer \<Rightarrow> d = FromBrowser \<and> a_state a = StatePrepared \<and> f_cut f = a_cut a
        \<and> b = a\<lparr>a_state := (if admission_kind (a_kind a) then StateAwaitPrepare else StateLive),
                 a_prepare := []\<rparr>
    | FrameReady \<Rightarrow> d = FromBrowser \<and> a_state a = StatePrepared \<and> f_cut f = a_cut a
        \<and> b = a\<lparr>a_state := StateReady\<rparr>
    | FrameCommit \<Rightarrow> d = FromServer \<and> a_state a = StateReady \<and> f_cut f = a_cut a
        \<and> b = a\<lparr>a_state := StateLive, a_prepare := []\<rparr>
    | FrameLive \<Rightarrow> d = FromServer \<and> a_state a = StateLive \<and> f_cut f = a_cut a \<and> b = a
    | FrameModeRequest \<Rightarrow> d = FromBrowser \<and> a_state a = StateLive \<and> b = a
    | FrameMode \<Rightarrow> d = FromServer \<and> a_state a = StateLive \<and> b = a\<lparr>a_mode := f_mode f\<rparr>
    | FrameInput \<Rightarrow> d = FromBrowser \<and> a_state a = StateLive \<and> a_mode a = ModeControl \<and> b = a
    | FrameResize \<Rightarrow> d = FromBrowser \<and> a_state a = StateLive \<and> a_mode a = ModeControl \<and> b = a
    | FrameHistory \<Rightarrow> d = FromBrowser \<and> b = a
    | FrameEnd \<Rightarrow> d = FromServer \<and> b = a\<lparr>a_state := StateEnded\<rparr>
    | FrameUnknown \<Rightarrow> False"
  using assms accepted_common [OF assms]
  by (cases "f_type f") (auto simp: automaton_apply_def apply_defer_def dest: accepted_prepare)

section \<open>Sessions\<close>

type_synonym exchange = "(direction \<times> frame) list"

text \<open>The frames an automaton accepted in order, with faults between them.\<close>

inductive session :: "automaton \<Rightarrow> exchange \<Rightarrow> automaton \<Rightarrow> bool" for a0 where
  start: "session a0 [] a0"
| accept: "session a0 tr a \<Longrightarrow> automaton_apply d f a = Inr b \<Longrightarrow> session a0 (tr @ [(d, f)]) b"
| fault: "session a0 tr a \<Longrightarrow> session a0 tr (automaton_fault a)"

text \<open>
  The PREPARE that opened the current cut (a repetition of it opens nothing) with what followed it,
  and the last mode announced.
\<close>

definition note_prepare :: "(frame \<times> exchange) option \<Rightarrow> direction \<times> frame \<Rightarrow> (frame \<times> exchange) option" where
  "note_prepare acc x =
     (case acc of
        None \<Rightarrow> if f_type (snd x) = FramePrepare then Some (snd x, []) else None
      | Some (p, v) \<Rightarrow>
          if f_type (snd x) = FramePrepare \<and> f_cut (snd x) \<noteq> f_cut p then Some (snd x, [])
          else Some (p, v @ [x]))"

definition since_prepare :: "exchange \<Rightarrow> (frame \<times> exchange) option" where
  "since_prepare tr = foldl note_prepare None tr"

definition last_mode :: "exchange \<Rightarrow> mode" where
  "last_mode tr = foldl (\<lambda>m x. if f_type (snd x) = FrameMode then f_mode (snd x) else m) ModeObserve tr"

definition answer :: "direction \<Rightarrow> frame_type \<Rightarrow> frame \<Rightarrow> direction \<times> frame \<Rightarrow> bool" where
  "answer d t p x \<longleftrightarrow> fst x = d \<and> f_type (snd x) = t \<and> f_cut (snd x) = f_cut p"

text \<open>
  What makes a cut current: READY answered by COMMIT, or a DEFER of a cut that was not the
  attachment's admission.
\<close>

definition established :: "frame \<Rightarrow> exchange \<Rightarrow> bool" where
  "established p v \<longleftrightarrow>
     list_ex (answer FromServer FrameCommit p) (dropWhile (Not \<circ> answer FromBrowser FrameReady p) v)
     \<or> list_ex (answer FromBrowser FrameDefer p) v \<and> \<not> admission_kind (f_kind p)"

lemma since_prepare_simps [simp]:
  "since_prepare [] = None"
  "since_prepare (tr @ [(d, f)]) =
     (case since_prepare tr of
        None \<Rightarrow> if f_type f = FramePrepare then Some (f, []) else None
      | Some (p, v) \<Rightarrow>
          if f_type f = FramePrepare \<and> f_cut f \<noteq> f_cut p then Some (f, []) else Some (p, v @ [(d, f)]))"
  by (simp_all add: since_prepare_def note_prepare_def split: option.split)

lemma last_mode_simps [simp]:
  "last_mode [] = ModeObserve"
  "last_mode (tr @ [(d, f)]) = (if f_type f = FrameMode then f_mode f else last_mode tr)"
  by (simp_all add: last_mode_def)

lemma list_ex_dropWhile_append:
  "list_ex P (dropWhile Q v) \<Longrightarrow> list_ex P (dropWhile Q (v @ w))"
  by (induction v) auto

lemma list_ex_dropWhile_snoc:
  "list_ex (\<lambda>x. \<not> Q x) v \<Longrightarrow> P y \<Longrightarrow> list_ex P (dropWhile Q (v @ [y]))"
  by (induction v) auto

lemma established_append: "established p v \<Longrightarrow> established p (v @ w)"
  by (auto simp: established_def intro: list_ex_dropWhile_append)

lemma established_commit:
  "list_ex (answer FromBrowser FrameReady p) v \<Longrightarrow> answer FromServer FrameCommit p x \<Longrightarrow>
   established p (v @ [x])"
  unfolding established_def by (rule disjI1, rule list_ex_dropWhile_snoc) simp_all

lemma established_defer:
  "answer FromBrowser FrameDefer p x \<Longrightarrow> \<not> admission_kind (f_kind p) \<Longrightarrow> established p (v @ [x])"
  by (simp add: established_def)

text \<open>What the automaton's state says of the frames accepted so far.\<close>

definition state_meaning :: "automaton \<Rightarrow> frame \<Rightarrow> exchange \<Rightarrow> bool" where
  "state_meaning a p v \<longleftrightarrow>
     (case a_state a of
        StateAwaitPrepare \<Rightarrow> list_ex (answer FromBrowser FrameDefer p) v
      | StatePrepared \<Rightarrow> a_prepare a = marshal_frame p
      | StateReady \<Rightarrow> list_ex (answer FromBrowser FrameReady p) v
      | StateLive \<Rightarrow> established p v
      | StateEnded \<Rightarrow> True)"

definition exchange_inv :: "exchange \<Rightarrow> automaton \<Rightarrow> bool" where
  "exchange_inv tr a \<longleftrightarrow>
     (case since_prepare tr of
        None \<Rightarrow> a_state a \<in> {StateAwaitPrepare, StateEnded}
      | Some (p, v) \<Rightarrow> a_cut a = f_cut p \<and> a_kind a = f_kind p \<and> state_meaning a p v)"

definition mode_inv :: "exchange \<Rightarrow> automaton \<Rightarrow> bool" where
  "mode_inv tr a \<longleftrightarrow> a_state a = StateEnded \<or> a_mode a = last_mode tr"

definition cut_inv :: "exchange \<Rightarrow> automaton \<Rightarrow> bool" where
  "cut_inv tr a \<longleftrightarrow>
     (\<forall>x \<in> set tr. f_type (snd x) = FramePrepare \<longrightarrow>
        f_cut (snd x) < a_cut a
        \<or> f_cut (snd x) = a_cut a \<and> map_option (marshal_frame \<circ> fst) (since_prepare tr) = Some (marshal_frame (snd x)))"

lemma exchange_inv_accept:
  assumes inv: "exchange_inv tr a" and acc: "automaton_apply d f a = Inr b"
  shows "exchange_inv (tr @ [(d, f)]) b"
proof (cases "since_prepare tr")
  case None
  then show ?thesis using inv accepted_table [OF acc] accepted_common [OF acc]
    by (cases "f_type f") (auto simp: exchange_inv_def state_meaning_def)
next
  case (Some q)
  obtain p v where q: "q = (p, v)" by (cases q)
  show ?thesis using Some q inv accepted_table [OF acc] accepted_common [OF acc]
    by (cases "f_type f"; cases "a_state a")
      (auto simp: exchange_inv_def state_meaning_def answer_def split: if_splits
        intro: established_append established_commit established_defer)
qed

lemma mode_inv_accept:
  "mode_inv tr a \<Longrightarrow> automaton_apply d f a = Inr b \<Longrightarrow> mode_inv (tr @ [(d, f)]) b"
  using accepted_table [of d f a b] accepted_common [of d f a b]
  by (cases "f_type f") (auto simp: mode_inv_def)

lemma cut_inv_accept:
  assumes "cut_inv tr a" "exchange_inv tr a" "automaton_apply d f a = Inr b"
  shows "cut_inv (tr @ [(d, f)]) b"
proof (cases "f_type f = FramePrepare")
  case True
  with accepted_table [OF assms(3)] assms(1,2) show ?thesis
    by (auto simp: cut_inv_def exchange_inv_def state_meaning_def split: option.splits)
next
  case False
  with accepted_table [OF assms(3)] have "a_cut b = a_cut a"
    by (cases "f_type f") auto
  with False assms(1) show ?thesis
    by (auto simp: cut_inv_def option.map_comp comp_def split_beta)
qed

lemma session_inv:
  assumes "session a0 tr a" "new_automaton s e = Inr a0"
  shows "exchange_inv tr a \<and> mode_inv tr a \<and> cut_inv tr a"
  using assms
proof (induction rule: session.induct)
  case start
  then show ?case
    by (auto simp: new_automaton_def exchange_inv_def mode_inv_def cut_inv_def split: if_splits)
next
  case (accept tr a d f b)
  then show ?case using exchange_inv_accept mode_inv_accept cut_inv_accept by blast
next
  case (fault tr a)
  then show ?case
    by (auto simp: automaton_fault_def exchange_inv_def mode_inv_def cut_inv_def state_meaning_def
        split: option.splits)
qed

lemma session_split:
  assumes "session a0 tr a" "tr = pre @ (d, f) # post"
  shows "\<exists>b c. session a0 pre b \<and> automaton_apply d f b = Inr c"
  using assms
proof (induction arbitrary: post rule: session.induct)
  case (accept tr a d' f' b)
  show ?case
  proof (cases post rule: rev_cases)
    case Nil
    with accept show ?thesis by auto
  next
    case (snoc ys y)
    with accept.prems have "tr = pre @ (d, f) # ys" by simp
    with accept.IH show ?thesis by blast
  qed
qed auto

lemma session_step:
  assumes "session a0 (pre @ (d, f) # post) a" "new_automaton s e = Inr a0"
  obtains b c where "automaton_apply d f b = Inr c" "exchange_inv pre b" "mode_inv pre b" "cut_inv pre b"
  using session_split [OF assms(1) refl] session_inv [OF _ assms(2)] by blast

lemma live_established:
  assumes "exchange_inv tr a" "a_state a = StateLive"
  obtains p v where "since_prepare tr = Some (p, v)" "a_cut a = f_cut p" "established p v"
  using assms by (auto simp: exchange_inv_def state_meaning_def split: option.splits)

text \<open>
  C8: Live output is sent only under an established cut: when the automaton accepts a LIVE frame,
  it comes from the server, its cut is that of the last PREPARE accepted before it, and since that
  PREPARE either the browser's READY was answered by the server's COMMIT, both for that cut, or the
  browser deferred the cut, which then was not the attachment's admission.
\<close>

theorem live_only_under_established_cut:
  assumes "new_automaton s e = Inr a0" "session a0 (pre @ (d, f) # post) a" "f_type f = FrameLive"
  shows "d = FromServer \<and>
    (\<exists>p v. since_prepare pre = Some (p, v) \<and> f_cut p = f_cut f \<and> established p v)"
proof -
  obtain b c where b: "automaton_apply d f b = Inr c" "exchange_inv pre b"
    using session_step [OF assms(2,1)] by blast
  with accepted_table [OF b(1)] assms(3) have "d = FromServer" "a_state b = StateLive" "f_cut f = a_cut b"
    by auto
  with live_established [OF b(2)] show ?thesis by metis
qed

text \<open>
  C10: Cuts only grow: of two PREPARE frames accepted in one session, the later has the larger cut,
  unless it repeats the earlier one byte for byte on the wire. So a cut names one snapshot.
\<close>

theorem cuts_strictly_increase:
  assumes "new_automaton s e = Inr a0" "session a0 (pre @ (d, f) # post) a" "f_type f = FramePrepare"
    and "(d', g) \<in> set pre" "f_type g = FramePrepare"
  shows "f_cut g < f_cut f \<or> f_cut g = f_cut f \<and> marshal_frame g = marshal_frame f"
proof -
  obtain b c where b: "automaton_apply d f b = Inr c" "exchange_inv pre b" "cut_inv pre b"
    using session_step [OF assms(2,1)] by blast
  from b(3) assms(4,5) have g: "f_cut g < a_cut b
      \<or> f_cut g = a_cut b \<and> map_option (marshal_frame \<circ> fst) (since_prepare pre) = Some (marshal_frame g)"
    by (force simp: cut_inv_def)
  with accepted_table [OF b(1)] assms(3) b(2) show ?thesis
    by (auto simp: exchange_inv_def state_meaning_def split: option.splits)
qed

text \<open>
  C9: An attachment types into the terminal or resizes it only with the control mode: an accepted
  INPUT or RESIZE frame comes from the browser, the last MODE frame the server sent before it
  granted control, and a cut is established.
\<close>

theorem input_needs_granted_control:
  assumes "new_automaton s e = Inr a0" "session a0 (pre @ (d, f) # post) a"
    and "f_type f = FrameInput \<or> f_type f = FrameResize"
  shows "d = FromBrowser \<and> last_mode pre = ModeControl
    \<and> (\<exists>p v. since_prepare pre = Some (p, v) \<and> established p v)"
proof -
  obtain b c where b: "automaton_apply d f b = Inr c" "exchange_inv pre b" "mode_inv pre b"
    using session_step [OF assms(2,1)] by blast
  with accepted_table [OF b(1)] assms(3)
  have "d = FromBrowser" "a_state b = StateLive" "a_mode b = ModeControl" by auto
  with live_established [OF b(2)] b(3) show ?thesis by (fastforce simp: mode_inv_def)
qed

lemma ended_refuses: "a_state a = StateEnded \<Longrightarrow> automaton_apply d f a \<noteq> Inr b"
  using accepted_common(4) by blast

lemma session_after_end:
  assumes "session a0 tr a" "tr = pre @ (d, f) # post" "f_type f = FrameEnd"
  shows "a_state a = StateEnded \<and> d = FromServer \<and> post = []"
  using assms
proof (induction arbitrary: post rule: session.induct)
  case (accept tr a d' f' b)
  show ?case
  proof (cases post rule: rev_cases)
    case Nil
    with accept.prems accepted_table [OF accept.hyps(2)] show ?thesis by auto
  next
    case (snoc ys y)
    with accept.prems have "tr = pre @ (d, f) # ys" by simp
    with accept.IH accept.prems(2) ended_refuses accept.hyps(2) show ?thesis by blast
  qed
next
  case (fault tr a)
  then show ?case by (simp add: automaton_fault_def)
qed auto

text \<open>
  C11: END closes the attachment's exchange: it comes from the server, it is the last frame of its
  session, and after it, as after an internal fault, every frame is refused.
\<close>

theorem end_is_last:
  assumes "session a0 (pre @ (d, f) # post) a" "f_type f = FrameEnd"
  shows "d = FromServer \<and> post = [] \<and> (\<forall>d' g b. automaton_apply d' g a \<noteq> Inr b)
    \<and> (\<forall>x d' g b. automaton_apply d' g (automaton_fault x) \<noteq> Inr b)"
  using session_after_end [OF assms(1) refl assms(2)] ended_refuses
  by (simp add: automaton_fault_def)

section \<open>A concrete attachment\<close>

definition at_cut :: "frame_type \<Rightarrow> u64 \<Rightarrow> frame" where
  "at_cut t c = (base_frame t ''s'' 1)\<lparr>f_cut := c\<rparr>"

definition sample_prepare :: frame where
  "sample_prepare = (at_cut FramePrepare 1)\<lparr>f_kind := CutInitial, f_columns := 80, f_rows := 24\<rparr>"

definition sample_mode :: frame where
  "sample_mode = (base_frame FrameMode ''s'' 1)\<lparr>f_mode := ModeControl\<rparr>"

definition sample_output :: frame where
  "sample_output = (at_cut FrameLive 1)\<lparr>f_data := ''$ ''\<rparr>"

definition sample_input :: frame where
  "sample_input = (base_frame FrameInput ''s'' 1)\<lparr>f_data := ''ls'', f_input_id := 1\<rparr>"

definition sample_end :: frame where
  "sample_end = (base_frame FrameEnd ''s'' 1)\<lparr>f_reason := ''STOP''\<rparr>"

definition sample_exchange :: exchange where
  "sample_exchange =
     [(FromServer, sample_prepare), (FromBrowser, at_cut FrameReady 1), (FromServer, at_cut FrameCommit 1),
      (FromServer, sample_mode), (FromServer, sample_output), (FromBrowser, sample_input),
      (FromServer, sample_end)]"

fun run_exchange :: "automaton \<Rightarrow> exchange \<Rightarrow> automaton option" where
  "run_exchange a [] = Some a"
| "run_exchange a ((d, f) # tr) =
     (case automaton_apply d f a of Inl _ \<Rightarrow> None | Inr b \<Rightarrow> run_exchange b tr)"

lemma run_exchange_session:
  "session a0 tr a \<Longrightarrow> run_exchange a us = Some b \<Longrightarrow> session a0 (tr @ us) b"
proof (induction us arbitrary: tr a)
  case (Cons x us)
  obtain d f where x: "x = (d, f)" by (cases x)
  with Cons.prems(2) obtain c where c: "automaton_apply d f a = Inr c" "run_exchange c us = Some b"
    by (auto split: sum.splits)
  from Cons.IH [OF session.accept [OF Cons.prems(1) c(1)] c(2)] x show ?case by simp
qed simp

definition sample_automaton :: automaton where
  "sample_automaton = \<lparr>a_source = ''s'', a_epoch = 1, a_state = StateAwaitPrepare, a_cut = 0,
     a_kind = CutNone, a_mode = ModeObserve, a_prepare = []\<rparr>"

lemma sample_new: "new_automaton ''s'' 1 = Inr sample_automaton"
  by (simp add: new_automaton_def sample_automaton_def)

lemmas sample_defs =
  sample_prepare_def at_cut_def sample_mode_def sample_output_def sample_input_def sample_end_def
  base_frame_def sample_automaton_def

lemma sample_run: "run_exchange sample_automaton sample_exchange \<noteq> None"
  by code_simp

lemma run_gives_session: "run_exchange a0 us \<noteq> None \<Longrightarrow> \<exists>a. session a0 us a"
  using run_exchange_session [OF session.start] by (metis append_Nil not_None_eq)

lemma sample_session: "\<exists>a. session sample_automaton sample_exchange a"
  by (rule run_gives_session) (rule sample_run)

theorem live_only_under_established_cut_witness:
  "\<exists>p v. since_prepare (take 4 sample_exchange) = Some (p, v) \<and> f_cut p = 1 \<and> established p v"
proof -
  obtain a where "session sample_automaton sample_exchange a" using sample_session ..
  then have "session sample_automaton (take 4 sample_exchange @ (FromServer, sample_output)
      # drop 5 sample_exchange) a" by (simp add: sample_exchange_def)
  from live_only_under_established_cut [OF sample_new this] show ?thesis by (simp add: sample_defs)
qed

theorem cuts_strictly_increase_witness:
  "\<exists>a. session sample_automaton [(FromServer, sample_prepare), (FromServer, sample_prepare\<lparr>f_input_id := 7\<rparr>)] a
     \<and> marshal_frame sample_prepare = marshal_frame (sample_prepare\<lparr>f_input_id := 7\<rparr>)"
proof -
  have "run_exchange sample_automaton
      [(FromServer, sample_prepare), (FromServer, sample_prepare\<lparr>f_input_id := 7\<rparr>)] \<noteq> None"
    by code_simp
  then obtain a where a: "session sample_automaton
      ([(FromServer, sample_prepare)] @ (FromServer, sample_prepare\<lparr>f_input_id := 7\<rparr>) # []) a"
    using run_gives_session by fastforce
  from cuts_strictly_increase [OF sample_new a, of FromServer sample_prepare] a
  show ?thesis by (auto simp: sample_defs)
qed

theorem input_needs_granted_control_witness:
  "last_mode (take 5 sample_exchange) = ModeControl"
proof -
  obtain a where "session sample_automaton sample_exchange a" using sample_session ..
  then have "session sample_automaton (take 5 sample_exchange @ (FromBrowser, sample_input)
      # drop 6 sample_exchange) a" by (simp add: sample_exchange_def)
  from input_needs_granted_control [OF sample_new this] show ?thesis by (simp add: sample_defs)
qed

theorem end_is_last_witness:
  "\<exists>a. session sample_automaton sample_exchange a \<and> automaton_apply FromServer sample_end a \<noteq> Inr a"
proof -
  obtain a where s: "session sample_automaton sample_exchange a" using sample_session ..
  then have "session sample_automaton (take 6 sample_exchange @ (FromServer, sample_end) # []) a"
    by (simp add: sample_exchange_def)
  from end_is_last [OF this] s show ?thesis by (auto simp: sample_defs)
qed

end
