(* ===== verification/Ingress_Marker.thy ===== *)
theory Ingress_Marker
  imports Prelude
begin

text \<open>
  The epoch's PTY ingress parser, \<^verbatim>\<open>internal/terminal/marker.go\<close>: it passes terminal output
  through, holds back the bounded suffix that may still become a reserved Persea marker, and takes
  complete markers out of the stream. The pane's bytes arrive in chunks of any size; the theorems
  say that the chunking is invisible and that no byte is lost, invented or misclassified.
\<close>

section \<open>The reserved syntax\<close>

definition marker_namespace :: bytes where "marker_namespace = ''persea:v1:''"
definition marker_nonce_size :: nat where "marker_nonce_size = 43"
definition marker_osc :: bytes where "marker_osc = ESC # '']52;;''"
definition marker_wire_prefix :: bytes where "marker_wire_prefix = marker_osc @ marker_namespace"

definition marker_nonce_byte :: "byte \<Rightarrow> bool" where
  "marker_nonce_byte b \<longleftrightarrow>
     (CHR ''A'' \<le> b \<and> b \<le> CHR ''Z'') \<or> (CHR ''a'' \<le> b \<and> b \<le> CHR ''z'') \<or> (CHR ''0'' \<le> b \<and> b \<le> CHR ''9'')
     \<or> b = CHR ''+'' \<or> b = CHR ''/''"

datatype ingress_event = IngressOrdinary bytes | IngressPrivateMarker bytes

definition err_marker_nonce :: go_error where
  "err_marker_nonce = ErrText ''malformed reserved Persea marker nonce''"
definition err_marker_terminator :: go_error where
  "err_marker_terminator = ErrText ''malformed reserved Persea marker terminator''"
definition err_marker_limit :: go_error where
  "err_marker_limit = ErrText ''over-limit or unterminated reserved Persea marker''"
definition err_marker_eof :: go_error where
  "err_marker_eof = ErrText ''unterminated reserved Persea marker at ingress EOF''"

fun append_ordinary :: "ingress_event list \<Rightarrow> bytes \<Rightarrow> ingress_event list" where
  "append_ordinary events data =
     (if data = [] then events
      else case rev events of
        IngressOrdinary p # older \<Rightarrow> rev older @ [IngressOrdinary (p @ data)]
      | _ \<Rightarrow> events @ [IngressOrdinary data])"

text \<open>\<^verbatim>\<open>longestMarkerPrefixSuffix\<close>: the loop counts down from the longest proper prefix.\<close>

fun longest_from :: "nat \<Rightarrow> bytes \<Rightarrow> bytes \<Rightarrow> nat" where
  "longest_from 0 data prefix = 0"
| "longest_from (Suc n) data prefix =
     (if drop (length data - Suc n) data = take (Suc n) prefix then Suc n else longest_from n data prefix)"

definition longest_marker_prefix_suffix :: "bytes \<Rightarrow> bytes \<Rightarrow> nat" where
  "longest_marker_prefix_suffix data prefix =
     longest_from (if length data \<ge> length prefix then length prefix - 1 else length data) data prefix"

text \<open>
  One look at pending bytes that start with the marker prefix: wait for more, refuse, or a complete
  marker with its payload and the bytes it takes.
\<close>

datatype marker_scan = ScanWait | ScanBad go_error | ScanMarker bytes nat

definition marker_payload :: "bytes \<Rightarrow> nat \<Rightarrow> bytes" where
  "marker_payload pending stop =
     (let payload = take (stop - length marker_osc) (drop (length marker_osc) pending)
      in if last payload = BEL then take (length payload - 1) payload
         else take (length payload - 2) payload)"

definition scan_marker :: "bytes \<Rightarrow> marker_scan" where
  "scan_marker pending =
     (let body = drop (length marker_wire_prefix) pending;
          stop = length marker_wire_prefix + marker_nonce_size
      in if \<not> list_all marker_nonce_byte (take marker_nonce_size body) then ScanBad err_marker_nonce
         else if length body < marker_nonce_size then ScanWait
         else case drop stop pending of
           [] \<Rightarrow> ScanWait
         | t # rest \<Rightarrow>
             if t = BEL then ScanMarker (marker_payload pending (stop + 1)) (stop + 1)
             else if t = ESC then
               (case rest of
                  [] \<Rightarrow> ScanWait
                | u # _ \<Rightarrow>
                    if u \<noteq> BSLASH then ScanBad err_marker_terminator
                    else ScanMarker (marker_payload pending (stop + 2)) (stop + 2))
             else ScanBad err_marker_limit)"

lemma marker_lengths [simp]:
  "length marker_wire_prefix = 16" "length marker_osc = 6" "length marker_namespace = 10"
  by (simp_all add: marker_wire_prefix_def marker_osc_def marker_namespace_def)

lemma drop_Cons_length: "drop n xs = y # ys \<Longrightarrow> length xs = n + Suc (length ys)"
  by (drule arg_cong [where f = length]) simp

lemma scan_marker_used:
  assumes "scan_marker p = ScanMarker m n"
  shows "0 < n \<and> n \<le> length p"
proof (cases "drop (length marker_wire_prefix + marker_nonce_size) p")
  case Nil
  with assms show ?thesis by (simp add: scan_marker_def Let_def split: if_splits)
next
  case (Cons t rest)
  note l = drop_Cons_length [OF Cons]
  from assms Cons have "n = length marker_wire_prefix + marker_nonce_size + 1
      \<or> n = length marker_wire_prefix + marker_nonce_size + 2 \<and> rest \<noteq> []"
    by (simp add: scan_marker_def Let_def split: if_splits list.splits)
  with l show ?thesis by (cases rest) auto
qed

text \<open>The drain loop of \<^verbatim>\<open>feed\<close>, with the events so far and the pending bytes.\<close>

function ingress_drain ::
    "ingress_event list \<Rightarrow> bytes \<Rightarrow> ingress_event list \<times> go_error option \<times> bytes" where
  "ingress_drain events pending =
     (if pending = [] then (events, None, [])
      else case index_sub marker_wire_prefix pending of
        None \<Rightarrow>
          let keep = longest_marker_prefix_suffix pending marker_wire_prefix;
              ordinary = length pending - keep
          in (append_ordinary events (take ordinary pending), None, drop ordinary pending)
      | Some start \<Rightarrow>
          let events' = append_ordinary events (take start pending);
              pending' = drop start pending
          in case scan_marker pending' of
               ScanWait \<Rightarrow> (events', None, pending')
             | ScanBad e \<Rightarrow> (events', Some e, pending')
             | ScanMarker payload stop \<Rightarrow>
                 ingress_drain (events' @ [IngressPrivateMarker payload]) (drop stop pending'))"
  by pat_completeness auto

termination
  by (relation "measure (\<lambda>(_, p). length p)") (auto dest!: scan_marker_used)

declare ingress_drain.simps [simp del]
declare append_ordinary.simps [simp del]

record ingress_framer =
  ing_pending :: bytes

definition ingress_feed ::
    "ingress_framer \<Rightarrow> bytes \<Rightarrow> ingress_event list \<times> go_error option \<times> ingress_framer" where
  "ingress_feed f chunk =
     (case ingress_drain [] (ing_pending f @ chunk) of
        (events, err, pending) \<Rightarrow> (events, err, f\<lparr>ing_pending := pending\<rparr>))"

definition ingress_finish :: "ingress_framer \<Rightarrow> (go_error + ingress_event list) \<times> ingress_framer" where
  "ingress_finish f =
     (let pending = ing_pending f; f' = f\<lparr>ing_pending := []\<rparr>
      in if pending = [] then (Inr [], f')
         else if length pending < length marker_wire_prefix
              \<and> pending = take (length pending) marker_wire_prefix
         then (Inr (append_ordinary [] pending), f')
         else (Inl err_marker_eof, f'))"

definition ingress_discard :: "ingress_framer \<Rightarrow> ingress_framer" where
  "ingress_discard f = f\<lparr>ing_pending := []\<rparr>"

section \<open>The drain loop sees a stream, not chunks\<close>

lemma append_ordinary_Nil [simp]: "append_ordinary evs [] = evs"
  by (simp add: append_ordinary.simps)

lemma append_ordinary_snoc:
  "d \<noteq> [] \<Longrightarrow> append_ordinary (ys @ [IngressOrdinary x]) d = ys @ [IngressOrdinary (x @ d)]"
  "d \<noteq> [] \<Longrightarrow> append_ordinary (ys @ [IngressPrivateMarker x]) d = ys @ [IngressPrivateMarker x, IngressOrdinary d]"
  by (simp_all add: append_ordinary.simps)

lemma append_ordinary_split:
  "append_ordinary (append_ordinary evs x) y = append_ordinary evs (x @ y)"
  by (cases evs rule: rev_cases)
    (auto simp: append_ordinary.simps split: list.splits ingress_event.splits)

text \<open>Two byte strings agree as far as the shorter goes.\<close>

definition compat :: "bytes \<Rightarrow> bytes \<Rightarrow> bool" where
  "compat s p \<longleftrightarrow> take (length p) s = take (length s) p"

lemma compat_append: "\<not> compat s p \<Longrightarrow> \<not> compat (s @ t) p"
proof (rule contrapos_nn)
  assume "compat (s @ t) p"
  then have "take (length s) (take (length p) (s @ t)) = take (length s) (take (length (s @ t)) p)"
    by (simp add: compat_def)
  then show "compat s p" by (simp add: compat_def min_def split: if_splits)
qed

lemma compat_prefix: "has_prefix s p \<Longrightarrow> compat s p"
  by (auto simp: has_prefix_iff compat_def)

lemma compat_cases:
  "compat s p \<Longrightarrow> has_prefix s p \<or> length s < length p \<and> s = take (length s) p"
  by (auto simp: compat_def has_prefix_def min_def not_less)

text \<open>The bytes of \<open>x\<close> cannot start a marker, whatever the \<open>y\<close> behind them continues with.\<close>

definition clean :: "bytes \<Rightarrow> bytes \<Rightarrow> bool" where
  "clean x y \<longleftrightarrow> (\<forall>i < length x. \<not> compat (drop i x @ y) marker_wire_prefix)"

lemma clean_append: "clean x y \<Longrightarrow> clean x (y @ z)"
  unfolding clean_def using compat_append by (metis append_assoc)

lemma clean_Cons: "clean (a # x) y \<longleftrightarrow> \<not> compat (a # x @ y) marker_wire_prefix \<and> clean x y"
  by (auto simp: clean_def less_Suc_eq_0_disj)

lemma clean_Nil [simp]: "clean [] y" by (simp add: clean_def)

lemma index_sub_clean:
  "clean x y \<Longrightarrow> index_sub marker_wire_prefix (x @ y) =
     (if y = [] then None else map_option (\<lambda>n. length x + n) (index_sub marker_wire_prefix y))"
proof (induction x)
  case Nil
  have "marker_wire_prefix \<noteq> []" using marker_lengths(1) by fastforce
  then show ?case by (cases "index_sub marker_wire_prefix y") auto
next
  case (Cons a x)
  have "\<not> has_prefix (a # x @ y) marker_wire_prefix"
    using Cons.prems compat_prefix by (simp add: clean_Cons) blast
  with Cons show ?case
    by (cases "index_sub marker_wire_prefix y") (auto simp: clean_Cons)
qed

lemma longest_from_le: "longest_from n d p \<le> n"
  by (induction n d p rule: longest_from.induct) auto

lemma longest_from_max:
  "longest_from n d p < m \<Longrightarrow> m \<le> n \<Longrightarrow> drop (length d - m) d \<noteq> take m p"
  by (induction n d p rule: longest_from.induct) (auto split: if_splits simp: le_Suc_eq)

lemma longest_from_match:
  "n \<le> length d \<Longrightarrow> drop (length d - longest_from n d p) d = take (longest_from n d p) p"
  by (induction n d p rule: longest_from.induct) auto

lemma longest_from_suffix: "n \<le> length y \<Longrightarrow> longest_from n (x @ y) p = longest_from n y p"
  by (induction n) simp_all

lemma longest_from_skip:
  "n \<le> n' \<Longrightarrow> (\<And>m. n < m \<Longrightarrow> m \<le> n' \<Longrightarrow> drop (length d - m) d \<noteq> take m p) \<Longrightarrow>
   longest_from n' d p = longest_from n d p"
  by (induction n') (auto simp: le_Suc_eq)

lemma clean_mismatch:
  assumes "clean x y" "length y < m" "m \<le> length (x @ y)" "m \<le> 16"
  shows "drop (length (x @ y) - m) (x @ y) \<noteq> take m marker_wire_prefix"
proof
  assume e: "drop (length (x @ y) - m) (x @ y) = take m marker_wire_prefix"
  let ?i = "length x + length y - m"
  have i: "?i < length x" using assms(2,3) by simp
  have "drop ?i (x @ y) = drop ?i x @ y" using i by simp
  with e have s: "drop ?i x @ y = take m marker_wire_prefix" by simp
  have "length (drop ?i x @ y) = m" using i assms(3) by simp
  with s assms(4) have "compat (drop ?i x @ y) marker_wire_prefix"
    by (simp only: compat_def marker_lengths) simp
  with assms(1) i show False by (auto simp: clean_def)
qed

lemma longest_clean:
  assumes "clean x y"
  shows "longest_marker_prefix_suffix (x @ y) marker_wire_prefix =
         longest_marker_prefix_suffix y marker_wire_prefix"
proof (cases "16 \<le> length y")
  case True
  then show ?thesis
    by (simp add: longest_marker_prefix_suffix_def longest_from_suffix)
next
  case False
  define l where "l = (if length (x @ y) \<ge> 16 then 15 else length (x @ y))"
  have "longest_from l (x @ y) marker_wire_prefix = longest_from (length y) (x @ y) marker_wire_prefix"
    using False by (intro longest_from_skip clean_mismatch [OF assms]) (auto simp: l_def split: if_splits)
  with False show ?thesis
    by (auto simp: longest_marker_prefix_suffix_def longest_from_suffix l_def split: if_splits)
qed

lemma longest_le: "longest_marker_prefix_suffix p marker_wire_prefix \<le> length p"
  using longest_from_le [of "length p" p marker_wire_prefix] longest_from_le [of 15 p marker_wire_prefix]
  by (simp add: longest_marker_prefix_suffix_def del: One_nat_def)

lemma ingress_drain_Nil [simp]: "ingress_drain evs [] = (evs, None, [])"
  by (simp add: ingress_drain.simps [of evs])

lemma drain_clean:
  assumes "clean x y"
  shows "ingress_drain evs (x @ y) = ingress_drain (append_ordinary evs x) y"
proof (cases "y \<noteq> [] \<and> index_sub marker_wire_prefix y \<noteq> None")
  case True
  then obtain n where n: "index_sub marker_wire_prefix y = Some n" "y \<noteq> []" by auto
  then have "index_sub marker_wire_prefix (x @ y) = Some (length x + n)"
    using index_sub_clean [OF assms] by simp
  with n show ?thesis
    unfolding ingress_drain.simps [of evs "x @ y"] ingress_drain.simps [of _ y]
    by (simp add: append_ordinary_split Let_def)
next
  case False
  let ?k = "longest_marker_prefix_suffix y marker_wire_prefix"
  have "index_sub marker_wire_prefix (x @ y) = None"
    using False index_sub_clean [OF assms] by auto
  moreover have "take (length x + length y - ?k) (x @ y) = x @ take (length y - ?k) y"
    "drop (length x + length y - ?k) (x @ y) = drop (length y - ?k) y"
    using longest_le [of y] by simp_all
  ultimately show ?thesis using False longest_clean [OF assms]
    by (cases "y = []")
      (simp_all add: ingress_drain.simps [of evs "x @ y"] ingress_drain.simps [of evs x]
        ingress_drain.simps [of _ y] append_ordinary_split Let_def
        longest_marker_prefix_suffix_def)
qed

lemma held_back_clean:
  assumes "index_sub marker_wire_prefix p = None"
  defines "n \<equiv> length p - longest_marker_prefix_suffix p marker_wire_prefix"
  shows "clean (take n p) (drop n p)"
  unfolding clean_def
proof (intro allI impI notI)
  fix i assume "i < length (take n p)"
  then have i: "i < n" "i < length p" by simp_all
  then have d: "drop i (take n p) @ drop n p = drop i p"
    by (metis append_take_drop_id drop_append diff_is_0_eq drop_0 length_take less_imp_le min.absorb2
        n_def diff_le_self)
  assume "compat (drop i (take n p) @ drop n p) marker_wire_prefix"
  then have "compat (drop i p) marker_wire_prefix" by (simp only: d)
  from compat_cases [OF this] show False
  proof
    assume "has_prefix (drop i p) marker_wire_prefix"
    then obtain r where "p = take i p @ marker_wire_prefix @ r"
      by (metis append_take_drop_id has_prefix_iff)
    with assms(1) show False by (metis index_sub_None_iff)
  next
    let ?m = "length p - i"
    assume "length (drop i p) < length marker_wire_prefix
      \<and> drop i p = take (length (drop i p)) marker_wire_prefix"
    then have m: "?m < 16" "drop (length p - ?m) p = take ?m marker_wire_prefix" using i by simp_all
    have "longest_marker_prefix_suffix p marker_wire_prefix < ?m" using i unfolding n_def by simp
    with m show False
      using longest_from_max [of 15 p marker_wire_prefix ?m]
        longest_from_max [of "length p" p marker_wire_prefix ?m]
      by (auto simp: longest_marker_prefix_suffix_def split: if_splits)
  qed
qed

lemma scan_marker_append:
  assumes "has_prefix p marker_wire_prefix" "scan_marker p \<noteq> ScanWait"
  shows "scan_marker (p @ b) = scan_marker p"
proof -
  obtain body where p: "p = marker_wire_prefix @ body" using assms(1) by (auto simp: has_prefix_iff)
  show ?thesis
  proof (cases "list_all marker_nonce_byte (take marker_nonce_size body)")
    case False
    then have "\<not> list_all marker_nonce_byte (take marker_nonce_size (body @ b))" by auto
    with False show ?thesis by (simp add: p scan_marker_def Let_def)
  next
    case True
    with assms(2) obtain t rest where d: "drop marker_nonce_size body = t # rest"
      by (cases "drop marker_nonce_size body") (auto simp: p scan_marker_def Let_def split: if_splits)
    have l: "length body = marker_nonce_size + Suc (length rest)" using drop_Cons_length [OF d] .
    then have body: "body = take marker_nonce_size body @ t # rest"
      using append_take_drop_id [of marker_nonce_size body] by (simp only: d)
    then obtain nonce where n: "body = nonce @ t # rest" "length nonce = marker_nonce_size"
      using l by (metis add_diff_cancel_right' length_take min.absorb2 le_add1)
    show ?thesis
    proof (cases "t = ESC \<and> rest = []")
      case True
      with assms(2) \<open>list_all _ _\<close> show ?thesis
        by (simp add: p n scan_marker_def Let_def)
    next
      case False
      then show ?thesis
        by (cases rest) (auto simp: p n scan_marker_def Let_def marker_payload_def)
    qed
  qed
qed


lemma index_sub_start:
  assumes "index_sub marker_wire_prefix p = Some n"
  shows "p \<noteq> []" "n + 16 \<le> length p" "has_prefix (drop n p) marker_wire_prefix"
    "index_sub marker_wire_prefix (drop n p) = Some 0"
proof -
  obtain r where r: "p = take n p @ marker_wire_prefix @ r" "n + length marker_wire_prefix \<le> length p"
    using index_sub_SomeD [OF assms] by blast
  show "n + 16 \<le> length p" "p \<noteq> []" using r(2) by auto
  have d: "drop n p = marker_wire_prefix @ r" using r by (metis append_eq_conv_conj append_take_drop_id same_append_eq)
  then show h: "has_prefix (drop n p) marker_wire_prefix" by simp
  have "drop n p \<noteq> []" using r(2) by simp
  with h show "index_sub marker_wire_prefix (drop n p) = Some 0" by (cases "drop n p") simp_all
qed

lemma drain_at:
  assumes "index_sub marker_wire_prefix p = Some n"
  shows "ingress_drain evs p = ingress_drain (append_ordinary evs (take n p)) (drop n p)"
  using index_sub_start [OF assms] assms
  by (simp add: ingress_drain.simps [of _ p] ingress_drain.simps [of _ "drop n p"] Let_def)

lemma drain_step_append:
  assumes "ingress_drain evs p = (evs', None, q)"
  shows "ingress_drain evs (p @ b) = ingress_drain evs' (q @ b)"
  using assms
proof (induction evs p rule: ingress_drain.induct)
  case (1 evs p)
  note prem = "1.prems" [unfolded ingress_drain.simps [of evs p]]
  show ?case
  proof (cases "p = []")
    case False
    show ?thesis
    proof (cases "index_sub marker_wire_prefix p")
      case None
      let ?n = "length p - longest_marker_prefix_suffix p marker_wire_prefix"
      have "ingress_drain evs (take ?n p @ (drop ?n p @ b)) =
          ingress_drain (append_ordinary evs (take ?n p)) (drop ?n p @ b)"
        by (rule drain_clean [OF clean_append [OF held_back_clean [OF None]]])
      moreover have "take ?n p @ (drop ?n p @ b) = p @ b" by (simp flip: append_assoc)
      ultimately show ?thesis using None False prem by (auto simp: Let_def)
    next
      case (Some n)
      note start = index_sub_start [OF Some]
      have sp: "index_sub marker_wire_prefix (p @ b) = Some n"
        by (rule index_sub_append_Some [OF Some])
      show ?thesis
      proof (cases "scan_marker (drop n p)")
        case ScanWait
        with prem False Some start drain_at [OF sp, of evs] show ?thesis by (auto simp: Let_def)
      next
        case (ScanBad e)
        with prem False Some show ?thesis by (simp add: Let_def)
      next
        case (ScanMarker payload stop)
        have "ingress_drain (append_ordinary evs (take n p) @ [IngressPrivateMarker payload])
            (drop stop (drop n p) @ b) = ingress_drain evs' (q @ b)"
          using "1.IH" [OF False Some refl refl ScanMarker] prem False Some ScanMarker
          by (simp add: Let_def)
        moreover have "stop \<le> length (drop n p)" using scan_marker_used [OF ScanMarker] by simp
        ultimately show ?thesis
          using False sp ScanMarker scan_marker_append [OF start(3), of b] start(2)
          by (simp add: ingress_drain.simps [of evs "p @ b"] Let_def)
      qed
    qed
  qed (use prem in simp)
qed

lemma drain_error_append:
  assumes "ingress_drain evs p = (evs', Some e, q)"
  shows "ingress_drain evs (p @ b) = (evs', Some e, q @ b)"
  using assms
proof (induction evs p rule: ingress_drain.induct)
  case (1 evs p)
  note prem = "1.prems" [unfolded ingress_drain.simps [of evs p]]
  obtain n where n: "p \<noteq> []" "index_sub marker_wire_prefix p = Some n"
    using prem by (cases "index_sub marker_wire_prefix p") (auto simp: Let_def split: if_splits)
  note start = index_sub_start [OF n(2)]
  have sp: "index_sub marker_wire_prefix (p @ b) = Some n"
    by (rule index_sub_append_Some [OF n(2)])
  show ?case
  proof (cases "scan_marker (drop n p)")
    case ScanWait
    with prem n show ?thesis by (simp add: Let_def)
  next
    case (ScanBad e')
    with prem n sp start(2) scan_marker_append [OF start(3), of b] show ?thesis
      by (simp add: ingress_drain.simps [of evs "p @ b"] Let_def)
  next
    case (ScanMarker payload stop)
    have "ingress_drain (append_ordinary evs (take n p) @ [IngressPrivateMarker payload])
        (drop stop (drop n p) @ b) = (evs', Some e, q @ b)"
      using "1.IH" [OF n refl refl ScanMarker] prem n ScanMarker
      by (simp add: Let_def)
    moreover have "stop \<le> length (drop n p)" using scan_marker_used [OF ScanMarker] by simp
    ultimately show ?thesis
      using n sp ScanMarker scan_marker_append [OF start(3), of b] start(2)
      by (simp add: ingress_drain.simps [of evs "p @ b"] Let_def)
  qed
qed

text \<open>
  The stream of events a reader of several feeds sees: pieces of ordinary output that only the
  chunking separated are joined.
\<close>

fun join_event :: "ingress_event list \<Rightarrow> ingress_event \<Rightarrow> ingress_event list" where
  "join_event evs (IngressOrdinary d) = append_ordinary evs d"
| "join_event evs (IngressPrivateMarker p) = evs @ [IngressPrivateMarker p]"

definition join_events :: "ingress_event list \<Rightarrow> ingress_event list \<Rightarrow> ingress_event list" where
  "join_events evs es = foldl join_event evs es"

lemma join_events_simps [simp]:
  "join_events evs [] = evs"
  "join_events evs (es @ [e]) = join_event (join_events evs es) e"
  by (simp_all add: join_events_def)

lemma join_append_ordinary:
  "join_events evs (append_ordinary es d) = append_ordinary (join_events evs es) d"
proof (cases es rule: rev_cases)
  case Nil
  then show ?thesis by (simp add: append_ordinary.simps join_events_def)
next
  case (snoc ys y)
  have "join_events evs (ys @ [y, x]) = join_event (join_events evs (ys @ [y])) x" for x
    using join_events_simps(2) [of evs "ys @ [y]" x] by simp
  with snoc show ?thesis
    by (cases y; cases "d = []")
      (simp_all add: append_ordinary_snoc append_ordinary_split)
qed

lemma drain_join:
  "ingress_drain (join_events evs es) p =
     (case ingress_drain es p of (out, r, q) \<Rightarrow> (join_events evs out, r, q))"
proof (induction es p rule: ingress_drain.induct)
  case (1 es p)
  have IH: "ingress_drain (append_ordinary (join_events evs es) (take n p) @ [IngressPrivateMarker m])
        (drop k (drop n p)) =
      (case ingress_drain (append_ordinary es (take n p) @ [IngressPrivateMarker m]) (drop k (drop n p))
       of (out, r, q) \<Rightarrow> (join_events evs out, r, q))"
    if "p \<noteq> []" "index_sub marker_wire_prefix p = Some n" "scan_marker (drop n p) = ScanMarker m k" for n m k
    using "1.IH" [OF that(1,2) refl refl that(3)] by (simp add: join_append_ordinary)
  show ?case
    unfolding ingress_drain.simps [of "join_events evs es"] ingress_drain.simps [of es]
    using IH by (auto simp: join_append_ordinary Let_def split: option.split marker_scan.split)
qed

lemma drain_from: "ingress_drain evs p = (case ingress_drain [] p of (out, r, q) \<Rightarrow> (join_events evs out, r, q))"
  using drain_join [of evs "[]"] by simp

text \<open>A reader that feeds chunk after chunk and stops at the first error, as the epoch does.\<close>

fun ingress_run ::
    "ingress_event list \<Rightarrow> ingress_framer \<Rightarrow> bytes list \<Rightarrow> ingress_event list \<times> go_error option \<times> ingress_framer"
where
  "ingress_run evs f [] = (evs, None, f)"
| "ingress_run evs f (c # cs) =
     (case ingress_feed f c of
        (es, None, f') \<Rightarrow> ingress_run (join_events evs es) f' cs
      | (es, Some e, f') \<Rightarrow> (join_events evs es, Some e, f'))"

definition new_ingress_framer :: ingress_framer where
  "new_ingress_framer = \<lparr>ing_pending = []\<rparr>"

lemma ingress_run_drain:
  assumes "ingress_drain [] p = (evs, None, ing_pending f)" "ingress_run evs f cs = (evs', err, f')"
  shows "\<exists>q. ingress_drain [] (p @ concat cs) = (evs', err, q) \<and> (err = None \<longrightarrow> q = ing_pending f')"
  using assms
proof (induction cs arbitrary: p evs f)
  case (Cons c cs)
  obtain es r g where d: "ingress_drain [] (ing_pending f @ c) = (es, r, g)" by (cases "ingress_drain [] (ing_pending f @ c)")
  have now: "ingress_drain [] (p @ c) = (join_events evs es, r, g)"
    using drain_step_append [OF Cons.prems(1), of c] drain_from [of evs "ing_pending f @ c"] d by simp
  show ?case
  proof (cases r)
    case None
    have "ingress_drain [] (p @ c) = (join_events evs es, None, ing_pending (f\<lparr>ing_pending := g\<rparr>))"
      using now None by simp
    from Cons.IH [OF this] show ?thesis
      using Cons.prems(2) d None by (simp add: ingress_feed_def)
  next
    case (Some e)
    with drain_error_append [of "[]" "p @ c" "join_events evs es" e g "concat cs"] now
    show ?thesis using Cons.prems(2) d by (auto simp: ingress_feed_def)
  qed
qed simp

text \<open>
  The ingress parser does not depend on how the pane's output is cut into reads: feeding the
  chunks one by one gives the same events, joined, the same refusal if any, and without a refusal
  the same retained suffix as feeding their concatenation at once.
\<close>

theorem ingress_chunking:
  "case (ingress_run [] new_ingress_framer cs, ingress_feed new_ingress_framer (concat cs)) of
     ((evs, err, f), (evs', err', f')) \<Rightarrow> evs = evs' \<and> err = err' \<and> (if err = None then f = f' else True)"
proof -
  obtain evs err f where r: "ingress_run [] new_ingress_framer cs = (evs, err, f)"
    by (cases "ingress_run [] new_ingress_framer cs")
  have start: "ingress_drain [] [] = ([], None, ing_pending new_ingress_framer)"
    by (simp add: new_ingress_framer_def)
  from ingress_run_drain [OF start r] obtain q
    where "ingress_drain [] (concat cs) = (evs, err, q)" "err = None \<longrightarrow> q = ing_pending f"
    by auto
  with r show ?thesis by (simp add: ingress_feed_def new_ingress_framer_def)
qed

section \<open>What the events are\<close>

fun is_ordinary :: "ingress_event \<Rightarrow> bool" where
  "is_ordinary (IngressOrdinary _) = True"
| "is_ordinary (IngressPrivateMarker _) = False"

text \<open>An event with the terminator its marker had, back on the wire.\<close>

fun event_wire :: "bytes \<Rightarrow> ingress_event \<Rightarrow> bytes" where
  "event_wire end (IngressOrdinary d) = d"
| "event_wire end (IngressPrivateMarker p) = marker_osc @ p @ end"

fun event_exact :: "ingress_event \<Rightarrow> bool" where
  "event_exact (IngressOrdinary d) \<longleftrightarrow> d \<noteq> [] \<and> index_sub marker_wire_prefix d = None"
| "event_exact (IngressPrivateMarker p) \<longleftrightarrow>
     has_prefix p marker_namespace \<and> length p = length marker_namespace + marker_nonce_size
     \<and> list_all marker_nonce_byte (drop (length marker_namespace) p)"

definition terminators :: "bytes set" where
  "terminators = {[BEL], [ESC, BSLASH]}"

definition events_exact :: "bytes \<Rightarrow> ingress_event list \<Rightarrow> bytes \<Rightarrow> bool" where
  "events_exact input evs rest \<longleftrightarrow>
     list_all event_exact evs
     \<and> successively (\<lambda>x y. \<not> (is_ordinary x \<and> is_ordinary y)) evs
     \<and> (\<exists>ends. length ends = length evs \<and> set ends \<subseteq> terminators
          \<and> input = concat (map2 event_wire ends evs) @ rest)"

lemma events_exact_Nil: "events_exact p [] p"
  by (simp add: events_exact_def)

lemma events_exact_snoc:
  assumes "events_exact s evs (event_wire e x @ rest)" "event_exact x" "e \<in> terminators"
    "evs = [] \<or> \<not> (is_ordinary (last evs) \<and> is_ordinary x)"
  shows "events_exact s (evs @ [x]) rest"
proof -
  obtain ends where ends: "length ends = length evs" "set ends \<subseteq> terminators"
    "s = concat (map2 event_wire ends evs) @ event_wire e x @ rest"
    using assms(1) by (auto simp: events_exact_def)
  have "length (ends @ [e]) = length (evs @ [x])" "set (ends @ [e]) \<subseteq> terminators"
    "s = concat (map2 event_wire (ends @ [e]) (evs @ [x])) @ rest"
    using ends assms(3) by simp_all
  then have "\<exists>ends. length ends = length (evs @ [x]) \<and> set ends \<subseteq> terminators
      \<and> s = concat (map2 event_wire ends (evs @ [x])) @ rest" by blast
  moreover have "list_all event_exact (evs @ [x])"
    "successively (\<lambda>x y. \<not> (is_ordinary x \<and> is_ordinary y)) (evs @ [x])"
    using assms(1,2,4) by (auto simp: events_exact_def successively_append_iff)
  ultimately show ?thesis unfolding events_exact_def by blast
qed

lemma take_before_index:
  assumes "index_sub marker_wire_prefix p = Some n"
  shows "index_sub marker_wire_prefix (take n p) = None"
proof (rule ccontr)
  assume "index_sub marker_wire_prefix (take n p) \<noteq> None"
  then obtain k where k: "index_sub marker_wire_prefix (take n p) = Some k" by auto
  from index_sub_append_Some [OF k, of "drop n p"] assms have "k = n" by simp
  with index_sub_start(2) [OF k] show False by simp
qed

lemma take_without_index:
  assumes "index_sub marker_wire_prefix p = None"
  shows "index_sub marker_wire_prefix (take n p) = None"
  using assms index_sub_append_Some [of marker_wire_prefix "take n p" _ "drop n p"]
  by (cases "index_sub marker_wire_prefix (take n p)") auto

lemma scan_marker_exact:
  assumes "has_prefix p marker_wire_prefix" "scan_marker p = ScanMarker m stop"
  shows "event_exact (IngressPrivateMarker m)"
    and "\<exists>e \<in> terminators. p = event_wire e (IngressPrivateMarker m) @ drop stop p"
proof -
  obtain body where p: "p = marker_wire_prefix @ body" using assms(1) by (auto simp: has_prefix_iff)
  obtain t rest where d: "drop marker_nonce_size body = t # rest"
    using assms(2) by (cases "drop marker_nonce_size body") (auto simp: p scan_marker_def Let_def split: if_splits)
  have l: "length body = marker_nonce_size + Suc (length rest)" using drop_Cons_length [OF d] .
  then obtain nonce where n: "body = nonce @ t # rest" "length nonce = marker_nonce_size"
    using append_take_drop_id [of marker_nonce_size body] d
    by (metis add_diff_cancel_right' length_take min.absorb2 le_add1)
  have nb: "list_all marker_nonce_byte nonce"
    using assms(2) by (simp add: p n scan_marker_def Let_def split: if_splits)
  have "m = marker_namespace @ nonce \<and>
      ((t = BEL \<and> stop = 16 + marker_nonce_size + 1)
       \<or> (t = ESC \<and> (\<exists>r. rest = BSLASH # r) \<and> stop = 16 + marker_nonce_size + 2))"
    using assms(2) n nb
    by (cases rest) (auto simp: p scan_marker_def Let_def marker_payload_def marker_wire_prefix_def
        split: if_splits)
  with nb n p show "event_exact (IngressPrivateMarker m)"
    "\<exists>e \<in> terminators. p = event_wire e (IngressPrivateMarker m) @ drop stop p"
    by (auto simp: terminators_def marker_wire_prefix_def)
qed

lemma scan_marker_wait:
  assumes "scan_marker p = ScanWait"
  shows "length p \<le> 60"
proof (cases "drop (16 + marker_nonce_size) p")
  case Nil
  then show ?thesis by (simp add: marker_nonce_size_def)
next
  case (Cons t rest)
  with assms have "rest = []"
    by (auto simp: scan_marker_def Let_def split: if_splits list.splits)
  with drop_Cons_length [OF Cons] show ?thesis by (simp add: marker_nonce_size_def)
qed

lemma longest_le_15: "longest_marker_prefix_suffix p marker_wire_prefix \<le> 15"
  using longest_from_le [of "length p" p marker_wire_prefix] longest_from_le [of 15 p marker_wire_prefix]
  by (simp add: longest_marker_prefix_suffix_def del: One_nat_def)

lemma append_ordinary_exact:
  assumes "events_exact s evs (d @ rest)" "evs = [] \<or> \<not> is_ordinary (last evs)"
    "index_sub marker_wire_prefix d = None"
  shows "events_exact s (append_ordinary evs d) rest"
proof (cases "d = []")
  case False
  have "append_ordinary evs d = evs @ [IngressOrdinary d]"
    using False assms(2) by (cases evs rule: rev_cases; cases "last evs")
      (auto simp: append_ordinary.simps split: ingress_event.splits)
  with events_exact_snoc [of s evs "[BEL]" "IngressOrdinary d" rest] assms False show ?thesis
    by (simp add: terminators_def)
qed (use assms in simp)

lemma drain_exact:
  assumes "events_exact s evs p" "evs = [] \<or> \<not> is_ordinary (last evs)"
    "ingress_drain evs p = (evs', r, q)"
  shows "events_exact s evs' q \<and> (r = None \<longrightarrow> length q \<le> 60)"
  using assms
proof (induction evs p rule: ingress_drain.induct)
  case (1 evs p)
  note prem = "1.prems"(3) [unfolded ingress_drain.simps [of evs p]]
  consider "p = []" | "p \<noteq> []" "index_sub marker_wire_prefix p = None"
    | n where "p \<noteq> []" "index_sub marker_wire_prefix p = Some n" by blast
  then show ?case
  proof cases
    case 1
    with prem "1.prems"(1) show ?thesis by simp
  next
    case 2
    let ?n = "length p - longest_marker_prefix_suffix p marker_wire_prefix"
    have "events_exact s (append_ordinary evs (take ?n p)) (drop ?n p)"
      using "1.prems" take_without_index [OF 2(2)] by (intro append_ordinary_exact) simp_all
    with 2 prem longest_le_15 [of p] show ?thesis by (auto simp: Let_def)
  next
    case 3
    note start = index_sub_start [OF 3(2)]
    have e: "events_exact s (append_ordinary evs (take n p)) (drop n p)"
      using "1.prems" take_before_index [OF 3(2)] by (intro append_ordinary_exact) simp_all
    show ?thesis
    proof (cases "scan_marker (drop n p)")
      case ScanWait
      with prem 3 e scan_marker_wait [OF ScanWait] show ?thesis by (auto simp: Let_def)
    next
      case (ScanBad err)
      with prem 3 e show ?thesis by (auto simp: Let_def)
    next
      case (ScanMarker m stop)
      note x = scan_marker_exact [OF start(3) ScanMarker]
      obtain t where t: "t \<in> terminators"
        "drop n p = event_wire t (IngressPrivateMarker m) @ drop stop (drop n p)" using x(2) by blast
      have "events_exact s (append_ordinary evs (take n p) @ [IngressPrivateMarker m]) (drop stop (drop n p))"
      proof (rule events_exact_snoc [OF _ x(1) t(1)])
        show "events_exact s (append_ordinary evs (take n p))
            (event_wire t (IngressPrivateMarker m) @ drop stop (drop n p))"
          using e t(2) by argo
      qed simp
      with "1.IH" [OF 3 refl refl ScanMarker] prem 3 ScanMarker show ?thesis by (simp add: Let_def)
    qed
  qed
qed

text \<open>
  C25: Nothing is lost, invented or misread: when the parser has taken the whole input without a
  refusal, the input is exactly its events put back on the wire (each marker with one of the two
  terminators) followed by the retained suffix; ordinary events are non-empty, never adjacent, and
  contain no marker start; every marker payload is the namespace and 43 nonce characters; and at
  most 60 bytes are retained.
\<close>

theorem ingress_exact:
  assumes "ingress_run [] new_ingress_framer cs = (evs, None, f)"
  shows "events_exact (concat cs) evs (ing_pending f) \<and> length (ing_pending f) \<le> 60"
proof -
  have "ingress_drain [] [] = ([], None, ing_pending new_ingress_framer)"
    by (simp add: new_ingress_framer_def)
  from ingress_run_drain [OF this assms] have "ingress_drain [] (concat cs) = (evs, None, ing_pending f)"
    by simp
  from drain_exact [OF events_exact_Nil _ this] show ?thesis by simp
qed

definition sample_marker :: bytes where
  "sample_marker = marker_namespace @ replicate 43 CHR ''a''"

definition sample_reads :: "bytes list" where
  "sample_reads =
     (let s = ''ab'' @ marker_osc @ sample_marker @ [BEL] @ ''cd'' @ [ESC] in [take 5 s, drop 5 s])"

theorem ingress_exact_witness:
  "ingress_run [] new_ingress_framer sample_reads =
     ([IngressOrdinary ''ab'', IngressPrivateMarker sample_marker, IngressOrdinary ''cd''], None,
      \<lparr>ing_pending = [ESC]\<rparr>)
   \<and> events_exact (concat sample_reads)
       [IngressOrdinary ''ab'', IngressPrivateMarker sample_marker, IngressOrdinary ''cd''] [ESC]"
proof -
  have r: "ingress_run [] new_ingress_framer sample_reads =
     ([IngressOrdinary ''ab'', IngressPrivateMarker sample_marker, IngressOrdinary ''cd''], None,
      \<lparr>ing_pending = [ESC]\<rparr>)"
    by code_simp
  with ingress_exact [OF r] show ?thesis by simp
qed

end
