(* ===== verification/History_Cut.thy ===== *)
theory History_Cut
  imports Terminal_Frame Ingress_Marker
begin

text \<open>
  Scrollback capture and cuts, \<^verbatim>\<open>internal/terminal/history.go\<close>: the bounded newest suffix of a
  captured scrollback, and the \<^verbatim>\<open>cut\<close> that splits the pane's output at its marker into the bytes
  before it and the bytes held behind it.
\<close>

section \<open>Lines of valid UTF-8 are valid UTF-8\<close>

lemma LF_not_cont: "\<not> cont_byte LF" "\<not> second_ok n LF"
  by (simp_all add: cont_byte_def second_ok_def byte_val_def Let_def)

lemma decode_rune_before_LF:
  assumes "decode_rune (s @ LF # t) \<noteq> (rune_error, 1)" "s \<noteq> []"
  shows "decode_rune s = decode_rune (s @ LF # t)"
proof -
  obtain a s1 where s: "s = a # s1" using assms(2) by (cases s) auto
  show ?thesis
  proof (cases s1)
    case Nil with s assms LF_not_cont show ?thesis by (auto simp: Let_def split: if_splits list.splits)
  next
    case (Cons b s2)
    note s1 = Cons
    show ?thesis
    proof (cases s2)
      case Nil with s s1 assms LF_not_cont show ?thesis by (auto simp: Let_def split: if_splits list.splits)
    next
      case (Cons c s3)
      with s s1 assms LF_not_cont show ?thesis by (cases s3) (auto simp: Let_def split: if_splits)
    qed
  qed
qed

lemma utf8_valid_before_LF: "utf8_valid (s @ LF # t) \<Longrightarrow> utf8_valid s \<and> utf8_valid t"
proof (induction s rule: utf8_valid.induct)
  case (1 s)
  show ?case
  proof (cases "s = []")
    case True
    with "1.prems" show ?thesis by (subst (asm) utf8_valid_step) (simp_all add: byte_val_def)
  next
    case False
    have v: "decode_rune (s @ LF # t) \<noteq> (rune_error, 1)"
      "utf8_valid (drop (snd (decode_rune (s @ LF # t))) (s @ LF # t))"
      using "1.prems" utf8_valid_step by simp_all
    note d = decode_rune_before_LF [OF v(1) False]
    have "snd (decode_rune s) \<le> length s" using decode_rune_width False by blast
    with v d have "utf8_valid (drop (snd (decode_rune s)) s @ LF # t)" by simp
    with "1.IH" False v d have "utf8_valid (drop (snd (decode_rune s)) s) \<and> utf8_valid t" by simp
    with False v d show ?thesis by (subst utf8_valid_step) simp_all
  qed
qed
section \<open>Bounded scrollback\<close>

fun split_on :: "byte \<Rightarrow> bytes \<Rightarrow> bytes list" where
  "split_on c [] = [[]]"
| "split_on c (x # xs) =
     (if x = c then [] # split_on c xs
      else case split_on c xs of r # rs \<Rightarrow> (x # r) # rs | [] \<Rightarrow> [[x]])"

definition physical_rows :: "bytes \<Rightarrow> bytes list" where
  "physical_rows captured =
     (let physical = split_on LF captured
      in if physical \<noteq> [] \<and> last physical = [] then butlast physical else physical)"

text \<open>The loop from the newest row back: rows kept (newest first) and whether it stopped early.\<close>

fun keep_newest :: "int \<Rightarrow> bytes list \<Rightarrow> bytes list \<times> bool" where
  "keep_newest used [] = ([], False)"
| "keep_newest used (row # older) =
     (if used + len row + 1 > history_byte_cap then ([], True)
      else case keep_newest (used + len row + 1) older of (ks, t) \<Rightarrow> (row # ks, t))"

definition bounded_offscreen_rows :: "bytes \<Rightarrow> int \<Rightarrow> go_error + (string list \<times> bool)" where
  "bounded_offscreen_rows captured line_cap =
     (if \<not> valid_history_rows line_cap then Inl (ErrText ''invalid history row limit'')
      else if NUL \<in> set captured then Inl (ErrText ''capture-pane returned a NUL row'')
      else if \<not> utf8_valid captured then Inl (ErrText ''capture-pane returned invalid UTF-8'')
      else
        let physical = physical_rows captured
        in if list_ex (\<lambda>row. len row > history_row_byte_cap) physical
           then Inl (ErrText ''captured physical row exceeds cap'')
           else
             let over = len physical > line_cap;
                 recent = (if over then drop (length physical - nat line_cap) physical else physical)
             in case keep_newest 0 (rev recent) of
                  (ks, stopped) \<Rightarrow> Inr (rev ks, over \<or> stopped))"

lemma split_on_not_Nil [simp]: "split_on c xs \<noteq> []"
  by (cases xs) (auto split: list.splits)

lemma split_on_subset: "row \<in> set (split_on c xs) \<Longrightarrow> set row \<subseteq> set xs"
proof (induction xs arbitrary: row)
  case (Cons x xs)
  obtain r rs where r: "split_on c xs = r # rs" by (cases "split_on c xs") auto
  have "row = [] \<or> row \<in> set (split_on c xs) \<or> row = x # r"
    using Cons.prems r by (auto split: if_splits)
  moreover have "set r \<subseteq> set xs" using Cons.IH [of r] r by simp
  ultimately show ?case using Cons.IH by auto
qed simp

lemma split_on_append:
  "c \<notin> set us \<Longrightarrow> split_on c (us @ c # vs) = us # split_on c vs"
  by (induction us) auto

lemma split_on_none: "c \<notin> set us \<Longrightarrow> split_on c us = [us]"
  by (induction us) auto

lemma split_on_valid: "utf8_valid s \<Longrightarrow> row \<in> set (split_on LF s) \<Longrightarrow> utf8_valid row"
proof (induction "length s" arbitrary: s rule: less_induct)
  case less
  show ?case
  proof (cases "LF \<in> set s")
    case True
    then obtain us vs where s: "s = us @ LF # vs" "LF \<notin> set us" by (meson split_list_first)
    have both: "utf8_valid us \<and> utf8_valid vs"
      by (rule utf8_valid_before_LF) (use less.prems(1) s(1) in simp)
    moreover have "row = us \<or> row \<in> set (split_on LF vs)"
      using less.prems(2) split_on_append [OF s(2)] by (simp add: s(1))
    moreover have "length vs < length s" using s(1) by simp
    ultimately show ?thesis using both less.hyps [of vs] by blast
  next
    case False
    with less.prems show ?thesis by (simp add: split_on_none)
  qed
qed

lemma physical_rows_good:
  assumes "row \<in> set (physical_rows s)" "utf8_valid s" "NUL \<notin> set s"
  shows "utf8_valid row" "NUL \<notin> set row"
proof -
  have "row \<in> set (split_on LF s)"
    using assms(1) by (auto simp: physical_rows_def Let_def split: if_splits dest: in_set_butlastD)
  with assms(2,3) split_on_valid split_on_subset show "utf8_valid row" "NUL \<notin> set row" by blast+
qed

lemma keep_newest_spec:
  "keep_newest used rows = (ks, t) \<Longrightarrow>
     \<exists>older. rows = ks @ older \<and> t = (older \<noteq> [])
       \<and> (used \<le> history_byte_cap \<longrightarrow> used + history_bytes ks \<le> history_byte_cap)
       \<and> (older \<noteq> [] \<longrightarrow> used + history_bytes ks + (len (hd older) + 1) > history_byte_cap)"
proof (induction rows arbitrary: used ks t)
  case (Cons row rows)
  show ?case
  proof (cases "used + len row + 1 > history_byte_cap")
    case True
    with Cons.prems show ?thesis by auto
  next
    case False
    with Cons.prems obtain ks' where k: "keep_newest (used + len row + 1) rows = (ks', t)" "ks = row # ks'"
      by (auto split: prod.splits)
    from Cons.IH [OF k(1)] k(2) False show ?thesis by (auto simp: history_bytes_def)
  qed
qed (simp add: history_bytes_def)

lemma history_bytes_Cons: "history_bytes (row # rows) = len row + 1 + history_bytes rows"
  by (simp add: history_bytes_def)

lemma history_bytes_rev [simp]: "history_bytes (rev rows) = history_bytes rows"
  by (simp add: history_bytes_def rev_map [symmetric] sum_list_rev)

text \<open>
  C29: A captured scrollback is cut to its newest rows: what is returned is a suffix of the
  captured lines, marked truncated exactly when something older was left out, within the row count
  asked for and the byte cap, each row fit for a PREPARE frame; and it is the longest such suffix.
\<close>

theorem bounded_offscreen_rows_newest:
  assumes "bounded_offscreen_rows captured cap = Inr (rows, truncated)"
  shows "\<exists>older. physical_rows captured = older @ rows \<and> truncated = (older \<noteq> [])
    \<and> len rows \<le> cap \<and> len rows \<le> history_row_cap
    \<and> history_bytes rows \<le> history_byte_cap \<and> \<not> list_ex bad_history_row rows
    \<and> (older = [] \<or> len rows = cap \<or> history_bytes (last older # rows) > history_byte_cap)"
proof -
  define physical where "physical = physical_rows captured"
  define recent where
    "recent = (if len physical > cap then drop (length physical - nat cap) physical else physical)"
  from assms have ok: "valid_history_rows cap" "NUL \<notin> set captured" "utf8_valid captured"
    "\<not> list_ex (\<lambda>row. len row > history_row_byte_cap) physical"
    by (auto simp: bounded_offscreen_rows_def Let_def physical_def split: if_splits)
  obtain ks t where k: "keep_newest 0 (rev recent) = (ks, t)" by (cases "keep_newest 0 (rev recent)")
  have res: "rows = rev ks" "truncated = (len physical > cap \<or> t)"
    using assms ok k
    by (auto simp: bounded_offscreen_rows_def Let_def physical_def recent_def split: if_splits)
  from keep_newest_spec [OF k] obtain old where
    old: "rev recent = ks @ old" "t = (old \<noteq> [])" "history_bytes ks \<le> history_byte_cap"
    "old \<noteq> [] \<longrightarrow> history_bytes ks + (len (hd old) + 1) > history_byte_cap"
    by (auto simp: limit_defs)
  have rec: "recent = rev old @ rows" using old(1) res(1) by (metis rev_append rev_rev_ident)
  define dropped where "dropped = (if len physical > cap then take (length physical - nat cap) physical else [])"
  have phys: "physical = dropped @ recent" by (simp add: dropped_def recent_def)
  have cap: "0 \<le> cap" "cap \<le> history_row_cap"
    using ok(1) by (auto simp: valid_history_rows_def limit_defs)
  have lrec: "len recent \<le> cap" "dropped \<noteq> [] \<Longrightarrow> len recent = cap"
    using cap by (auto simp: recent_def dropped_def len_def)
  have dr: "len physical > cap \<longleftrightarrow> dropped \<noteq> []"
    using cap by (auto simp: dropped_def len_def)
  have "\<not> list_ex bad_history_row physical"
    using ok physical_rows_good [of _ captured]
    by (auto simp: list_ex_iff bad_history_row_def physical_def)
  then have "\<not> list_ex bad_history_row rows" using phys rec by (simp add: list_ex_append)
  moreover have "len rows \<le> cap" using lrec(1) unfolding rec by (simp add: len_def)
  moreover have "dropped @ rev old = [] \<or> len rows = cap
      \<or> history_bytes (last (dropped @ rev old) # rows) > history_byte_cap"
    using lrec(2) rec old(4) res(1) by (cases old) (auto simp: history_bytes_Cons)
  moreover have "physical_rows captured = (dropped @ rev old) @ rows"
    using phys rec physical_def by simp
  moreover have "truncated = (dropped @ rev old \<noteq> [])" using res(2) dr old(2) by simp
  moreover have "history_bytes rows \<le> history_byte_cap" using old(3) res(1) by simp
  ultimately show ?thesis using cap by (intro exI [of _ "dropped @ rev old"]) simp
qed

theorem bounded_offscreen_rows_newest_witness:
  "bounded_offscreen_rows (''a'' @ [LF] @ ''b'' @ [LF]) 500 = Inr ([''a'', ''b''], False)
   \<and> (\<exists>older. physical_rows (''a'' @ [LF] @ ''b'' @ [LF]) = older @ [''a'', ''b''] \<and> older = [])"
proof -
  have r: "bounded_offscreen_rows (''a'' @ [LF] @ ''b'' @ [LF]) 500 = Inr ([''a'', ''b''], False)"
    by (simp add: bounded_offscreen_rows_def valid_history_rows_def physical_rows_def limit_defs
      utf8_valid.simps byte_val_def rune_error_def)
  with bounded_offscreen_rows_newest [OF r] show ?thesis by auto
qed

section \<open>Cuts\<close>

record cut =
  cut_id :: u64
  cut_kind_of :: cut_kind
  cut_marker_payload :: bytes
  cut_marker_seen :: bool
  cut_pre :: bytes
  cut_held :: bytes

record cut_route =
  route_live :: bytes
  route_activity :: bool

datatype replay_adoption_kind = ReplayAdoptionInvalid | ReplayAdopted | ReplayAdoptionFailed

record replay_adoption =
  ra_kind :: replay_adoption_kind
  ra_cause :: "go_error option"

definition replay_adoption_valid :: "replay_adoption \<Rightarrow> bool" where
  "replay_adoption_valid o1 \<longleftrightarrow>
     (case ra_kind o1 of
        ReplayAdopted \<Rightarrow> ra_cause o1 = None
      | ReplayAdoptionFailed \<Rightarrow> ra_cause o1 \<noteq> None
      | ReplayAdoptionInvalid \<Rightarrow> False)"

definition new_cut :: "u64 \<Rightarrow> cut_kind \<Rightarrow> bytes \<Rightarrow> go_error + cut" where
  "new_cut i kind payload =
     (if i = 0 \<or> \<not> known_cut_kind kind \<or> payload = [] then Inl (Sent ErrMalformed)
      else Inr \<lparr>cut_id = i, cut_kind_of = kind, cut_marker_payload = payload, cut_marker_seen = False,
                cut_pre = [], cut_held = []\<rparr>)"

text \<open>
  The replay is passed by pointer (\<open>None\<close> when the pointer is nil) and emptied when adopted.
\<close>

definition adopt_pre_marker :: "cut \<Rightarrow> bytes option \<Rightarrow> replay_adoption \<times> cut \<times> bytes option" where
  "adopt_pre_marker c replay =
     (case replay of
        None \<Rightarrow> (\<lparr>ra_kind = ReplayAdoptionFailed, ra_cause = Some (Sent ErrInvariant)\<rparr>, c, replay)
      | Some r \<Rightarrow>
          if cut_kind_of c = CutOngoing \<or> cut_kind_of c = CutHistory \<or> cut_marker_seen c
             \<or> cut_pre c \<noteq> [] \<or> len r > replay_byte_cap
          then (\<lparr>ra_kind = ReplayAdoptionFailed, ra_cause = Some (Sent ErrInvariant)\<rparr>, c, replay)
          else (\<lparr>ra_kind = ReplayAdopted, ra_cause = None\<rparr>, c\<lparr>cut_pre := r\<rparr>, Some []))"

definition feed_ordinary :: "cut \<Rightarrow> bytes \<Rightarrow> go_error + (cut_route \<times> cut)" where
  "feed_ordinary c chunk =
     (if \<not> cut_marker_seen c then
        if cut_kind_of c = CutOngoing \<or> cut_kind_of c = CutHistory
        then Inr (\<lparr>route_live = chunk, route_activity = False\<rparr>, c)
        else if len chunk > replay_byte_cap - len (cut_pre c) then Inl (Sent ErrSaturated)
        else Inr (\<lparr>route_live = [], route_activity = False\<rparr>, c\<lparr>cut_pre := cut_pre c @ chunk\<rparr>)
      else if len chunk > held_byte_cap - len (cut_held c) then Inl (Sent ErrSaturated)
      else Inr (\<lparr>route_live = [], route_activity = len chunk > 0\<rparr>, c\<lparr>cut_held := cut_held c @ chunk\<rparr>))"

definition accept_marker :: "cut \<Rightarrow> bytes \<Rightarrow> go_error + cut" where
  "accept_marker c payload =
     (if cut_marker_seen c then Inl (ErrText ''duplicate reserved Persea marker'')
      else if payload \<noteq> cut_marker_payload c
      then Inl (ErrText ''stale or wrong-nonce reserved Persea marker'')
      else Inr (c\<lparr>cut_marker_seen := True\<rparr>))"

definition marker_found :: "cut \<Rightarrow> bool" where "marker_found c = cut_marker_seen c"
definition pre_marker :: "cut \<Rightarrow> bytes" where "pre_marker c = cut_pre c"
definition held_bytes :: "cut \<Rightarrow> bytes" where "held_bytes c = cut_held c"
definition discard_held :: "cut \<Rightarrow> cut" where "discard_held c = c\<lparr>cut_held := []\<rparr>"
definition discard_all :: "cut \<Rightarrow> cut" where "discard_all c = discard_held (c\<lparr>cut_pre := []\<rparr>)"

text \<open>
  The events of the ingress parser routed through one active cut, as the epoch's ingress does:
  the live bytes that keep their place in the output, and the cut.
\<close>

definition cut_event :: "bytes \<times> cut \<Rightarrow> ingress_event \<Rightarrow> go_error + (bytes \<times> cut)" where
  "cut_event s e =
     (case e of
        IngressOrdinary d \<Rightarrow>
          (case feed_ordinary (snd s) d of
             Inl err \<Rightarrow> Inl err
           | Inr (route, c) \<Rightarrow> Inr (fst s @ route_live route, c))
      | IngressPrivateMarker p \<Rightarrow>
          (case accept_marker (snd s) p of Inl err \<Rightarrow> Inl err | Inr c \<Rightarrow> Inr (fst s, c)))"

fun cut_events :: "bytes \<times> cut \<Rightarrow> ingress_event list \<Rightarrow> go_error + (bytes \<times> cut)" where
  "cut_events s [] = Inr s"
| "cut_events s (e # es) = (case cut_event s e of Inl err \<Rightarrow> Inl err | Inr s' \<Rightarrow> cut_events s' es)"

fun ordinary_bytes :: "ingress_event list \<Rightarrow> bytes" where
  "ordinary_bytes [] = []"
| "ordinary_bytes (IngressOrdinary d # es) = d @ ordinary_bytes es"
| "ordinary_bytes (IngressPrivateMarker _ # es) = ordinary_bytes es"

definition live_before_marker :: "cut \<Rightarrow> bool" where
  "live_before_marker c \<longleftrightarrow> cut_kind_of c = CutOngoing \<or> cut_kind_of c = CutHistory"

definition cut_bounded :: "cut \<Rightarrow> bool" where
  "cut_bounded c \<longleftrightarrow> len (cut_pre c) \<le> replay_byte_cap \<and> len (cut_held c) \<le> held_byte_cap"

text \<open>After the marker everything ordinary is held and a second marker is refused.\<close>

lemma cut_events_after:
  assumes "cut_marker_seen c" "cut_bounded c" "cut_events (live, c) es = Inr (live', c')"
  shows "list_all is_ordinary es \<and> live' = live \<and> c' = c\<lparr>cut_held := cut_held c @ ordinary_bytes es\<rparr>
    \<and> cut_bounded c'"
  using assms
proof (induction es arbitrary: c)
  case (Cons e es)
  show ?case
  proof (cases e)
    case (IngressOrdinary d)
    with Cons.prems have
      d: "len d \<le> held_byte_cap - len (cut_held c)"
         "cut_events (live, c\<lparr>cut_held := cut_held c @ d\<rparr>) es = Inr (live', c')"
      by (auto simp: cut_event_def feed_ordinary_def split: if_splits)
    from Cons.IH [OF _ _ d(2)] d(1) Cons.prems(1,2) IngressOrdinary show ?thesis
      by (auto simp: cut_bounded_def)
  next
    case (IngressPrivateMarker p)
    with Cons.prems show ?thesis by (simp add: cut_event_def accept_marker_def)
  qed
qed simp

lemma cut_events_before:
  assumes "\<not> cut_marker_seen c" "cut_bounded c" "cut_events (live, c) es = Inr (live', c')"
    and "list_all is_ordinary es"
  shows "if live_before_marker c then live' = live @ ordinary_bytes es \<and> c' = c
    else live' = live \<and> c' = c\<lparr>cut_pre := cut_pre c @ ordinary_bytes es\<rparr> \<and> cut_bounded c'"
  using assms
proof (induction es arbitrary: live c)
  case (Cons e es)
  then obtain d where e: "e = IngressOrdinary d" by (cases e) auto
  show ?case
  proof (cases "live_before_marker c")
    case True
    with Cons.prems e have "cut_events (live @ d, c) es = Inr (live', c')"
      by (simp add: cut_event_def feed_ordinary_def live_before_marker_def)
    from Cons.IH [OF _ _ this] Cons.prems(1,2,4) True e show ?thesis by simp
  next
    case False
    with Cons.prems e have
      d: "len d \<le> replay_byte_cap - len (cut_pre c)"
         "cut_events (live, c\<lparr>cut_pre := cut_pre c @ d\<rparr>) es = Inr (live', c')"
      by (auto simp: cut_event_def feed_ordinary_def live_before_marker_def split: if_splits)
    from Cons.IH [OF _ _ d(2)] d(1) Cons.prems(1,2,4) False e show ?thesis
      by (auto simp: cut_bounded_def live_before_marker_def)
  qed
qed simp

lemma cut_events_append:
  "cut_events s (us @ vs) = (case cut_events s us of Inl err \<Rightarrow> Inl err | Inr s' \<Rightarrow> cut_events s' vs)"
  by (induction us arbitrary: s) (auto split: sum.splits)

lemma cut_events_kind:
  "cut_events s es = Inr s' \<Longrightarrow>
   cut_kind_of (snd s') = cut_kind_of (snd s) \<and> cut_marker_payload (snd s') = cut_marker_payload (snd s)"
proof (induction es arbitrary: s)
  case (Cons e es)
  then obtain s1 where s1: "cut_event s e = Inr s1" "cut_events s1 es = Inr s'"
    by (auto split: sum.splits)
  then have "cut_kind_of (snd s1) = cut_kind_of (snd s) \<and> cut_marker_payload (snd s1) = cut_marker_payload (snd s)"
    by (auto simp: cut_event_def feed_ordinary_def accept_marker_def
        split: ingress_event.splits sum.splits if_splits)
  with Cons.IH [OF s1(2)] show ?case by simp
qed simp

lemma first_marker:
  "list_all is_ordinary es \<or> (\<exists>us p vs. es = us @ IngressPrivateMarker p # vs \<and> list_all is_ordinary us)"
proof (induction es)
  case (Cons e es)
  show ?case
  proof (cases e)
    case (IngressPrivateMarker p)
    then have "e # es = [] @ IngressPrivateMarker p # es \<and> list_all is_ordinary []" by simp
    then show ?thesis by blast
  next
    case (IngressOrdinary d)
    from Cons.IH show ?thesis
    proof
      assume "\<exists>us p vs. es = us @ IngressPrivateMarker p # vs \<and> list_all is_ordinary us"
      then obtain us p vs where "e # es = (e # us) @ IngressPrivateMarker p # vs" "list_all is_ordinary (e # us)"
        using IngressOrdinary by auto
      then show ?thesis by blast
    qed (simp add: IngressOrdinary)
  qed
qed simp

text \<open>
  C28: A cut splits the output exactly at its marker. Once a fresh cut has taken a sequence of
  events, the marker it carries was met at most once and no other marker was; the ordinary bytes
  before it went live in order for an ongoing or history cut and were collected as the replay
  otherwise, those after it are held in order, and replay and held bytes respect their caps.
\<close>

theorem cut_splits_at_marker:
  assumes "new_cut i kind payload = Inr c" "cut_events ([], c) es = Inr (live, c')"
  shows "\<exists>us vs. (if cut_marker_seen c' then es = us @ [IngressPrivateMarker payload] @ vs
                   else es = us \<and> vs = [])
    \<and> list_all is_ordinary us \<and> list_all is_ordinary vs
    \<and> (if kind = CutOngoing \<or> kind = CutHistory
       then live = ordinary_bytes us \<and> pre_marker c' = []
       else live = [] \<and> pre_marker c' = ordinary_bytes us)
    \<and> held_bytes c' = ordinary_bytes vs
    \<and> len (pre_marker c') \<le> replay_byte_cap \<and> len (held_bytes c') \<le> held_byte_cap"
proof -
  have c: "c = \<lparr>cut_id = i, cut_kind_of = kind, cut_marker_payload = payload, cut_marker_seen = False,
      cut_pre = [], cut_held = []\<rparr>"
    using assms(1) by (auto simp: new_cut_def split: if_splits)
  then have fresh: "\<not> cut_marker_seen c" "cut_bounded c" "cut_pre c = []" "cut_held c = []"
    "live_before_marker c \<longleftrightarrow> kind = CutOngoing \<or> kind = CutHistory"
    by (simp_all add: cut_bounded_def limit_defs live_before_marker_def)
  consider "list_all is_ordinary es"
    | us p vs where "es = us @ IngressPrivateMarker p # vs" "list_all is_ordinary us"
    using first_marker by blast
  then show ?thesis
  proof cases
    case 1
    from cut_events_before [OF fresh(1,2) assms(2) 1] fresh 1 show ?thesis
      by (intro exI [of _ es] exI [of _ "[]"])
        (auto simp: cut_bounded_def pre_marker_def held_bytes_def limit_defs split: if_splits)
  next
    case 2
    obtain live1 c1 where 1: "cut_events ([], c) us = Inr (live1, c1)"
      using assms(2) 2(1) by (cases "cut_events ([], c) us") (auto simp: cut_events_append)
    note before = cut_events_before [OF fresh(1,2) 1 2(2)]
    have c1: "\<not> cut_marker_seen c1" "cut_bounded c1" "cut_held c1 = []"
      using before fresh by (auto split: if_splits)
    have m: "cut_events (live1, c1) (IngressPrivateMarker p # vs) = Inr (live, c')"
      using assms(2) 1 2(1) by (simp add: cut_events_append)
    then have p: "p = payload" "cut_events (live1, c1\<lparr>cut_marker_seen := True\<rparr>) vs = Inr (live, c')"
      using cut_events_kind [OF 1] c1(1)
      by (auto simp: cut_event_def accept_marker_def c split: if_splits)
    have "cut_bounded (c1\<lparr>cut_marker_seen := True\<rparr>)" using c1(2) by (simp add: cut_bounded_def)
    from cut_events_after [OF _ this p(2)] have after: "list_all is_ordinary vs" "live = live1"
      "c' = c1\<lparr>cut_marker_seen := True, cut_held := ordinary_bytes vs\<rparr>" "cut_bounded c'"
      using c1(3) by auto
    with before fresh 2 p(1) show ?thesis
      by (intro exI [of _ us] exI [of _ vs])
        (auto simp: cut_bounded_def pre_marker_def held_bytes_def split: if_splits)
  qed
qed

theorem cut_splits_at_marker_witness:
  "\<exists>c live c'. new_cut 1 CutInitial ''m'' = Inr c
     \<and> cut_events ([], c) [IngressOrdinary ''ab'', IngressPrivateMarker ''m'', IngressOrdinary ''c''] = Inr (live, c')
     \<and> live = [] \<and> len (held_bytes c') \<le> held_byte_cap"
proof -
  define c where "c = \<lparr>cut_id = 1, cut_kind_of = CutInitial, cut_marker_payload = ''m'',
    cut_marker_seen = False, cut_pre = [], cut_held = []\<rparr>"
  define c' where "c' = c\<lparr>cut_pre := ''ab'', cut_marker_seen := True, cut_held := ''c''\<rparr>"
  have n: "new_cut 1 CutInitial ''m'' = Inr c" by (simp add: new_cut_def c_def known_cut_kind_def)
  have e: "cut_events ([], c) [IngressOrdinary ''ab'', IngressPrivateMarker ''m'', IngressOrdinary ''c'']
      = Inr ([], c')"
    by (simp add: cut_event_def feed_ordinary_def accept_marker_def c_def c'_def limit_defs)
  from cut_splits_at_marker [OF n e] n e show ?thesis by blast
qed

end
