(* ===== verification/Work_Gate.thy ===== *)
theory Work_Gate
  imports Prelude
begin

text \<open>
  The epoch's work gate, \<^verbatim>\<open>internal/terminal/work_gate.go\<close>: claims are granted until the gate is
  sealed, each is released once, and the quiescence channel closes when a sealed gate has no claim
  left. A claim pointer is a number handed out in order; a Go panic is an error result; closing a
  channel is counted, so that a double close would show.
\<close>

record work_claim =
  wc_phase :: string
  wc_released :: bool

record work_gate =
  wg_sealed :: bool
  wg_active :: "nat list"
  wg_claims :: "nat \<Rightarrow> work_claim option"
  wg_next :: nat
  wg_closes :: nat
  wg_closed :: bool

definition new_work_gate :: work_gate where
  "new_work_gate =
     \<lparr>wg_sealed = False, wg_active = [], wg_claims = (\<lambda>_. None), wg_next = 0, wg_closes = 0,
      wg_closed = False\<rparr>"

definition close_if_ready :: "work_gate \<Rightarrow> work_gate" where
  "close_if_ready g =
     (if wg_sealed g \<and> wg_active g = [] \<and> \<not> wg_closed g
      then g\<lparr>wg_closes := Suc (wg_closes g), wg_closed := True\<rparr> else g)"

definition gate_claim :: "string \<Rightarrow> work_gate \<Rightarrow> (go_error + nat) \<times> work_gate" where
  "gate_claim phase g =
     (if wg_sealed g then (Inl (ErrWrap ''work gate sealed'' [Sent ErrClosed]), g)
      else (Inr (wg_next g),
        g\<lparr>wg_claims := (wg_claims g)(wg_next g \<mapsto> \<lparr>wc_phase = phase, wc_released = False\<rparr>),
          wg_active := wg_next g # wg_active g, wg_next := Suc (wg_next g)\<rparr>))"

datatype gate_panic = PanicNoOwner | PanicReleasedTwice string | PanicNotActive string

definition gate_release :: "nat \<Rightarrow> work_gate \<Rightarrow> gate_panic option \<times> work_gate" where
  "gate_release i g =
     (case wg_claims g i of
        None \<Rightarrow> (Some PanicNoOwner, g)
      | Some c \<Rightarrow>
          if wc_released c then (Some (PanicReleasedTwice (wc_phase c)), g)
          else if i \<notin> set (wg_active g) then (Some (PanicNotActive (wc_phase c)), g)
          else (None, close_if_ready
            (g\<lparr>wg_active := removeAll i (wg_active g),
               wg_claims := (wg_claims g)(i \<mapsto> c\<lparr>wc_released := True\<rparr>)\<rparr>)))"

definition gate_seal :: "work_gate \<Rightarrow> work_gate" where
  "gate_seal g = close_if_ready (g\<lparr>wg_sealed := True\<rparr>)"

datatype gate_event = GateClaim string | GateRelease nat | GateSeal

fun gate_step :: "work_gate \<Rightarrow> gate_event \<Rightarrow> work_gate" where
  "gate_step g (GateClaim phase) = snd (gate_claim phase g)"
| "gate_step g (GateRelease i) = snd (gate_release i g)"
| "gate_step g GateSeal = gate_seal g"

section \<open>Invariant\<close>

text \<open>The active claims are the granted ones not yet released, numbered below \<open>wg_next\<close>.\<close>

definition claims_ok :: "work_gate \<Rightarrow> bool" where
  "claims_ok g \<longleftrightarrow>
     distinct (wg_active g)
     \<and> (\<forall>i. i \<in> set (wg_active g) \<longleftrightarrow> (\<exists>c. wg_claims g i = Some c \<and> \<not> wc_released c))
     \<and> (\<forall>i. wg_claims g i \<noteq> None \<longleftrightarrow> i < wg_next g)"

definition gate_inv :: "work_gate \<Rightarrow> bool" where
  "gate_inv g \<longleftrightarrow>
     claims_ok g
     \<and> wg_closes g = (if wg_sealed g \<and> wg_active g = [] then 1 else 0)
     \<and> wg_closed g = (wg_sealed g \<and> wg_active g = [])"

lemma claims_ok_cong:
  "wg_active g = wg_active h \<Longrightarrow> wg_claims g = wg_claims h \<Longrightarrow> wg_next g = wg_next h \<Longrightarrow>
   claims_ok g = claims_ok h"
  by (simp add: claims_ok_def)

text \<open>The invariant holds again after the closing check, before which the channel may lag.\<close>

lemma claims_okD:
  assumes "claims_ok g"
  shows "distinct (wg_active g)"
    "i \<in> set (wg_active g) \<longleftrightarrow> (\<exists>c. wg_claims g i = Some c \<and> \<not> wc_released c)"
    "wg_claims g i \<noteq> None \<longleftrightarrow> i < wg_next g"
  using assms unfolding claims_ok_def by blast+

lemma close_if_ready_inv:
  assumes "claims_ok g" "wg_closes g = (if wg_closed g then 1 else 0)"
    "wg_closed g \<longrightarrow> wg_sealed g \<and> wg_active g = []"
  shows "gate_inv (close_if_ready g)"
proof -
  have "claims_ok (close_if_ready g)"
    using assms(1) by (subst claims_ok_cong [of _ g]) (simp_all add: close_if_ready_def)
  with assms(2,3) show ?thesis unfolding gate_inv_def
    by (cases "wg_closed g") (auto simp: close_if_ready_def)
qed

lemma claims_ok_grant:
  assumes "claims_ok g"
  shows "claims_ok (g\<lparr>wg_claims := (wg_claims g)(wg_next g \<mapsto> \<lparr>wc_phase = p, wc_released = False\<rparr>),
    wg_active := wg_next g # wg_active g, wg_next := Suc (wg_next g)\<rparr>)"
proof -
  have none: "wg_claims g (wg_next g) = None" using claims_okD(3) [OF assms, of "wg_next g"] by simp
  then have fresh: "wg_next g \<notin> set (wg_active g)" using claims_okD(2) [OF assms] by simp
  have "k < Suc (wg_next g) \<longleftrightarrow> k = wg_next g \<or> wg_claims g k \<noteq> None" for k
    using claims_okD(3) [OF assms, of k] by (simp add: less_Suc_eq disj_commute)
  with fresh none claims_okD(1,2) [OF assms] show ?thesis unfolding claims_ok_def by simp
qed

lemma claims_ok_release:
  assumes "claims_ok g" "wg_claims g i \<noteq> None" "wc_released d"
  shows "claims_ok (g\<lparr>wg_active := removeAll i (wg_active g), wg_claims := (wg_claims g)(i \<mapsto> d)\<rparr>)"
proof -
  have "i < wg_next g" using assms claims_okD(3) by blast
  then show ?thesis
    using claims_okD [OF assms(1)] assms(3) unfolding claims_ok_def by (simp add: distinct_removeAll)
qed

lemma gate_claim_inv:
  assumes "gate_inv g"
  shows "gate_inv (snd (gate_claim phase g))"
  using assms claims_ok_grant [of g phase] by (simp add: gate_claim_def gate_inv_def)

lemma gate_release_inv:
  assumes "gate_inv g"
  shows "gate_inv (snd (gate_release i g))"
proof (cases "\<exists>c. wg_claims g i = Some c \<and> \<not> wc_released c \<and> i \<in> set (wg_active g)")
  case True
  then obtain c where c: "wg_claims g i = Some c" "\<not> wc_released c" "i \<in> set (wg_active g)" by blast
  let ?h = "g\<lparr>wg_active := removeAll i (wg_active g), wg_claims := (wg_claims g)(i \<mapsto> c\<lparr>wc_released := True\<rparr>)\<rparr>"
  have ok: "claims_ok g" using assms by (simp add: gate_inv_def)
  with c have "claims_ok ?h" by (intro claims_ok_release) simp_all
  moreover have "\<not> wg_closed g" "wg_closes g = 0" using assms c(3) by (auto simp: gate_inv_def)
  ultimately have "gate_inv (close_if_ready ?h)" by (intro close_if_ready_inv) simp_all
  with c show ?thesis by (simp add: gate_release_def)
next
  case False
  with assms show ?thesis by (auto simp: gate_release_def split: option.splits)
qed

lemma gate_seal_inv: "gate_inv g \<Longrightarrow> gate_inv (gate_seal g)"
  unfolding gate_seal_def
  by (rule close_if_ready_inv) (simp_all add: gate_inv_def claims_ok_def split: if_splits)

interpretation gate: invariant_machine gate_step gate_inv
proof
  fix g e assume "gate_inv g"
  then show "gate_inv (gate_step g e)"
    by (cases e) (simp_all add: gate_claim_inv gate_release_inv gate_seal_inv)
qed

lemma new_work_gate_inv: "gate_inv new_work_gate"
  by (simp add: gate_inv_def claims_ok_def new_work_gate_def)

text \<open>A quiescent gate: sealed and without claims; it never changes again.\<close>

definition quiescent :: "work_gate \<Rightarrow> bool" where
  "quiescent g \<longleftrightarrow> gate_inv g \<and> wg_sealed g \<and> wg_active g = []"

lemma quiescent_released:
  assumes "quiescent g" "wg_claims g i = Some c"
  shows "wc_released c"
  using assms claims_okD(2) [of g i] by (auto simp: quiescent_def gate_inv_def)

lemma quiescent_step:
  assumes "quiescent g"
  shows "gate_step g e = g"
proof -
  have "wg_sealed g" "wg_closed g" using assms by (simp_all add: quiescent_def gate_inv_def)
  then show ?thesis using quiescent_released [OF assms]
    by (cases e) (simp_all add: gate_claim_def gate_release_def gate_seal_def close_if_ready_def
        split: option.splits)
qed

interpretation gate_end: frozen_machine gate_step quiescent id
  by unfold_locales (simp_all add: quiescent_step)

definition released_in :: "work_gate \<Rightarrow> nat \<Rightarrow> bool" where
  "released_in g i \<longleftrightarrow> (case wg_claims g i of Some c \<Rightarrow> wc_released c | None \<Rightarrow> False)"

text \<open>
  C39: Whatever claims, releases and seals are made, in any order, the quiescence channel has been
  closed exactly once if the gate is sealed and every claim it ever granted has been released, and
  not at all otherwise; and from that moment on no operation changes the gate.
\<close>

theorem gate_quiescence:
  "wg_closes (foldl gate_step new_work_gate es) =
     (if wg_sealed (foldl gate_step new_work_gate es)
         \<and> list_all (released_in (foldl gate_step new_work_gate es)) [0 ..< wg_next (foldl gate_step new_work_gate es)]
      then 1 else 0)
   \<and> (if wg_closes (foldl gate_step new_work_gate es) = 1
      then foldl gate_step new_work_gate (es @ fs) = foldl gate_step new_work_gate es else True)"
proof -
  define g where "g = foldl gate_step new_work_gate es"
  have inv: "gate_inv g" unfolding g_def by (rule gate.run_inv [OF new_work_gate_inv])
  then have ok: "claims_ok g" by (simp add: gate_inv_def)
  have rel: "released_in g i \<longleftrightarrow> i \<notin> set (wg_active g)" if "i < wg_next g" for i
    using that claims_okD(2,3) [OF ok, of i] by (auto simp: released_in_def)
  have "i < wg_next g" if "i \<in> set (wg_active g)" for i
    using that claims_okD(2,3) [OF ok, of i] by auto
  with rel have "wg_active g = [] \<longleftrightarrow> (\<forall>i < wg_next g. released_in g i)"
    by (metis list.set_intros(1) neq_Nil_conv empty_iff empty_set)
  then have "list_all (released_in g) [0 ..< wg_next g] \<longleftrightarrow> wg_active g = []"
    by (auto simp: list_all_iff)
  moreover have "wg_closes g = 1 \<Longrightarrow> foldl gate_step g fs = g"
    using gate_end.run_view [of g fs] inv by (auto simp: quiescent_def gate_inv_def split: if_splits)
  ultimately show ?thesis
    using inv unfolding g_def [symmetric] by (simp add: gate_inv_def flip: g_def)
qed

text \<open>
  A claim the gate granted can be released without a panic exactly until it has been released,
  whatever happened in between; a second release panics, and a sealed gate grants nothing.
\<close>

theorem gate_release_once:
  "case wg_claims (foldl gate_step new_work_gate es) i of
     None \<Rightarrow> fst (gate_release i (foldl gate_step new_work_gate es)) = Some PanicNoOwner
   | Some c \<Rightarrow> fst (gate_release i (foldl gate_step new_work_gate es))
       = (if wc_released c then Some (PanicReleasedTwice (wc_phase c)) else None)"
proof -
  define g where "g = foldl gate_step new_work_gate es"
  have "gate_inv g" unfolding g_def by (rule gate.run_inv [OF new_work_gate_inv])
  then have "claims_ok g" by (simp add: gate_inv_def)
  note claims_okD(2) [OF this, of i]
  then show ?thesis unfolding g_def [symmetric]
    by (auto simp: gate_release_def split: option.splits)
qed

end
