(* ===== verification/Cut_Scheduler.thy ===== *)
theory Cut_Scheduler
  imports Prelude
begin

text \<open>
  The cut scheduler, \<^verbatim>\<open>internal/terminal/scheduler.go\<close>: one goroutine that turns activity into
  due notifications, at most one in flight, after a quiet period but never later than a maximum
  delay. Its loop is a step function on its local variables; times are integers, the clock's
  readings come with the event (the second one is \<open>arm\<close>'s own). The due channel has room for one
  notification; a send to a full channel blocks the loop, which then handles nothing else.
\<close>

record generation_lease =
  gl_source :: string
  gl_epoch :: u64
  gl_generation :: u64

definition lease_validate :: "generation_lease \<Rightarrow> generation_lease \<Rightarrow> go_error option" where
  "lease_validate l other =
     (if gl_source l = [] \<or> gl_epoch l = 0 \<or> gl_generation l = 0 \<or> l \<noteq> other
      then Some (Sent ErrStale) else None)"

record scheduler =
  sch_quiet :: int
  sch_maximum :: int
  sch_dirty :: bool
  sch_in_flight :: bool
  sch_first :: int
  sch_latest :: int
  sch_timer :: "int option"
  sch_due :: nat
  sch_sending :: bool
  sch_done :: bool

definition new_scheduler :: "int \<Rightarrow> int \<Rightarrow> go_error + scheduler" where
  "new_scheduler quiet maximum =
     (if quiet \<le> 0 \<or> maximum < quiet then Inl (Sent ErrMalformed)
      else Inr \<lparr>sch_quiet = quiet, sch_maximum = maximum, sch_dirty = False, sch_in_flight = False,
                sch_first = 0, sch_latest = 0, sch_timer = None, sch_due = 0, sch_sending = False,
                sch_done = False\<rparr>)"

text \<open>\<open>arm\<close>: the timer's deadline is the reading plus the delay it is set to.\<close>

definition sched_delay :: "scheduler \<Rightarrow> int \<Rightarrow> int" where
  "sched_delay s now =
     (let quiet_due = sch_latest s + sch_quiet s;
          max_due = sch_first s + sch_maximum s;
          due = (if max_due < quiet_due then max_due else quiet_due);
          d = due - now
      in if d < 0 then 0 else d)"

definition sched_arm :: "int \<Rightarrow> scheduler \<Rightarrow> scheduler" where
  "sched_arm now s =
     (if \<not> sch_dirty s \<or> sch_in_flight s then s\<lparr>sch_timer := None\<rparr>
      else s\<lparr>sch_timer := Some (now + sched_delay s now)\<rparr>)"

datatype sched_event =
    SchedActivity int int
  | SchedBeginExternal int
  | SchedComplete bool int int
  | SchedStop
  | SchedTimer int
  | SchedTakeDue

text \<open>The body of the loop, one case of its \<^verbatim>\<open>select\<close> each, with the command's answer.\<close>

definition sched_command :: "sched_event \<Rightarrow> scheduler \<Rightarrow> go_error option \<times> scheduler" where
  "sched_command e s =
     (case e of
        SchedActivity now arm_now \<Rightarrow>
          (None, sched_arm arm_now
            ((if \<not> sch_dirty s then s\<lparr>sch_dirty := True, sch_first := now\<rparr> else s)\<lparr>sch_latest := now\<rparr>))
      | SchedBeginExternal arm_now \<Rightarrow>
          (if sch_in_flight s then (Some (Sent ErrOutOfState), s)
           else (None, sched_arm arm_now (s\<lparr>sch_in_flight := True\<rparr>)))
      | SchedComplete retry now arm_now \<Rightarrow>
          (if \<not> sch_in_flight s then (Some (Sent ErrOutOfState), s)
           else (None, sched_arm arm_now
             (if retry \<and> \<not> sch_dirty s
              then s\<lparr>sch_in_flight := False, sch_dirty := True, sch_first := now, sch_latest := now\<rparr>
              else s\<lparr>sch_in_flight := False\<rparr>)))
      | SchedStop \<Rightarrow> (None, s\<lparr>sch_timer := None, sch_done := True\<rparr>)
      | SchedTimer now \<Rightarrow> (None, s)
      | SchedTakeDue \<Rightarrow> (None, s))"

definition sched_fire :: "scheduler \<Rightarrow> scheduler" where
  "sched_fire s =
     (if sch_dirty s \<and> \<not> sch_in_flight s
      then (let s' = s\<lparr>sch_timer := None, sch_dirty := False, sch_in_flight := True\<rparr>
            in if sch_due s' = 0 then s'\<lparr>sch_due := 1\<rparr> else s'\<lparr>sch_sending := True\<rparr>)
      else s\<lparr>sch_timer := None\<rparr>)"

text \<open>What the caller of a command sees; a blocked loop does not answer.\<close>

datatype sched_answer = SchedAnswer "go_error option" | SchedBlocked

text \<open>
  One step: a receiver takes a notification, which may unblock a pending send; otherwise the loop,
  unless it is done or blocked, takes a command or its timer, which fires at its deadline or later.
\<close>

definition sched_step :: "scheduler \<Rightarrow> sched_event \<Rightarrow> sched_answer \<times> scheduler" where
  "sched_step s e =
     (case e of
        SchedTakeDue \<Rightarrow>
          (SchedAnswer None,
           if sch_due s = 0 then s
           else if sch_sending s then s\<lparr>sch_sending := False\<rparr> else s\<lparr>sch_due := 0\<rparr>)
      | SchedTimer now \<Rightarrow>
          (SchedAnswer None,
           if sch_done s \<or> sch_sending s then s
           else case sch_timer s of
             Some deadline \<Rightarrow> if deadline \<le> now then sched_fire s else s
           | None \<Rightarrow> s)
      | _ \<Rightarrow>
          if sch_done s then (SchedAnswer (Some (Sent ErrClosed)), s)
          else if sch_sending s then (SchedBlocked, s)
          else (case sched_command e s of (err, s') \<Rightarrow> (SchedAnswer err, s')))"

definition sched_next :: "scheduler \<Rightarrow> sched_event \<Rightarrow> scheduler" where
  "sched_next s e = snd (sched_step s e)"

lemmas sched_unfold =
  sched_next_def sched_step_def sched_command_def sched_fire_def sched_arm_def Let_def

section \<open>Invariant: dirtiness is always on its way\<close>

definition sched_inv :: "scheduler \<Rightarrow> bool" where
  "sched_inv s \<longleftrightarrow>
     0 < sch_quiet s \<and> sch_quiet s \<le> sch_maximum s \<and> sch_due s \<le> 1
     \<and> (sch_sending s \<longrightarrow> sch_due s = 1 \<and> sch_in_flight s \<and> sch_timer s = None)
     \<and> (\<not> sch_done s \<longrightarrow> (sch_timer s \<noteq> None \<longleftrightarrow> sch_dirty s \<and> \<not> sch_in_flight s))"

lemma sched_arm_inv:
  assumes "0 < sch_quiet s" "sch_quiet s \<le> sch_maximum s" "sch_due s \<le> 1" "\<not> sch_sending s"
  shows "sched_inv (sched_arm now s)"
  using assms by (simp add: sched_inv_def sched_arm_def)

lemma sched_step_inv:
  assumes "sched_inv s"
  shows "sched_inv (sched_next s e)"
proof (cases e)
  case (SchedActivity now now')
  with assms show ?thesis
    by (auto simp: sched_next_def sched_step_def sched_command_def intro!: sched_arm_inv)
      (auto simp: sched_inv_def)
next
  case (SchedBeginExternal now)
  with assms show ?thesis
    by (auto simp: sched_next_def sched_step_def sched_command_def intro!: sched_arm_inv)
      (auto simp: sched_inv_def)
next
  case (SchedComplete retry now now')
  with assms show ?thesis
    by (auto simp: sched_next_def sched_step_def sched_command_def intro!: sched_arm_inv)
      (auto simp: sched_inv_def)
next
  case SchedStop
  with assms show ?thesis by (auto simp: sched_unfold sched_inv_def)
next
  case (SchedTimer now)
  with assms show ?thesis
    by (cases "sch_timer s") (auto simp: sched_unfold sched_inv_def)
next
  case SchedTakeDue
  with assms show ?thesis by (auto simp: sched_unfold sched_inv_def)
qed

interpretation sched: invariant_machine sched_next sched_inv
  by unfold_locales (rule sched_step_inv)

lemma new_scheduler_inv: "new_scheduler q m = Inr s \<Longrightarrow> sched_inv s"
  by (auto simp: new_scheduler_def sched_inv_def split: if_splits)

section \<open>Nothing is dropped, nothing is doubled\<close>

definition fires_now :: "scheduler \<Rightarrow> sched_event \<Rightarrow> bool" where
  "fires_now s e \<longleftrightarrow>
     (case (e, sch_timer s) of
        (SchedTimer now, Some d) \<Rightarrow>
          \<not> sch_done s \<and> \<not> sch_sending s \<and> d \<le> now \<and> sch_dirty s \<and> \<not> sch_in_flight s
      | _ \<Rightarrow> False)"

definition takes_now :: "scheduler \<Rightarrow> sched_event \<Rightarrow> bool" where
  "takes_now s e \<longleftrightarrow> e = SchedTakeDue \<and> sch_due s \<noteq> 0"

definition begins_now :: "scheduler \<Rightarrow> sched_event \<Rightarrow> bool" where
  "begins_now s e \<longleftrightarrow>
     (case e of SchedBeginExternal _ \<Rightarrow> fst (sched_step s e) = SchedAnswer None | _ \<Rightarrow> False)"

definition completes_now :: "scheduler \<Rightarrow> sched_event \<Rightarrow> bool" where
  "completes_now s e \<longleftrightarrow>
     (case e of SchedComplete _ _ _ \<Rightarrow> fst (sched_step s e) = SchedAnswer None | _ \<Rightarrow> False)"

fun sched_count :: "(scheduler \<Rightarrow> sched_event \<Rightarrow> bool) \<Rightarrow> scheduler \<Rightarrow> sched_event list \<Rightarrow> nat" where
  "sched_count P s [] = 0"
| "sched_count P s (e # es) = (if P s e then 1 else 0) + sched_count P (sched_next s e) es"

definition pending_due :: "scheduler \<Rightarrow> nat" where
  "pending_due s = sch_due s + (if sch_sending s then 1 else 0)"

definition flight :: "scheduler \<Rightarrow> nat" where
  "flight s = (if sch_in_flight s then 1 else 0)"

lemma due_step:
  assumes "sched_inv s"
  shows "pending_due s + (if fires_now s e then 1 else 0)
       = (if takes_now s e then 1 else 0) + pending_due (sched_next s e)"
  using assms
  by (cases e; cases "sch_timer s")
    (simp_all add: pending_due_def fires_now_def takes_now_def sched_unfold sched_inv_def)

lemma flight_step:
  "flight s + (if fires_now s e then 1 else 0) + (if begins_now s e then 1 else 0)
   = (if completes_now s e then 1 else 0) + flight (sched_next s e)"
  by (cases e; cases "sch_timer s")
    (simp_all add: flight_def fires_now_def begins_now_def completes_now_def sched_unfold)

lemma due_run:
  "sched_inv s \<Longrightarrow>
   pending_due s + sched_count fires_now s es = sched_count takes_now s es + pending_due (foldl sched_next s es)"
proof (induction es arbitrary: s)
  case (Cons e es)
  from Cons.IH [OF sched_step_inv [OF Cons.prems, of e]] due_step [OF Cons.prems, of e] show ?case
    by simp
qed simp

lemma flight_run:
  "flight s + sched_count fires_now s es + sched_count begins_now s es
   = sched_count completes_now s es + flight (foldl sched_next s es)"
proof (induction es arbitrary: s)
  case (Cons e es)
  from Cons.IH [of "sched_next s e"] flight_step [of s e] show ?case
    by simp
qed simp

text \<open>
  C37: Due notifications are neither dropped nor doubled: over any run, those the timer fired are
  those the owner took plus those still pending, and every cut begun, by a notification or from
  outside, was completed except for the one that may be in flight.
\<close>

theorem scheduler_conserves:
  assumes "new_scheduler q m = Inr s"
  shows "sched_count fires_now s es = sched_count takes_now s es + pending_due (foldl sched_next s es)
    \<and> sched_count fires_now s es + sched_count begins_now s es
        = sched_count completes_now s es + flight (foldl sched_next s es)"
proof -
  have "pending_due s = 0" "flight s = 0"
    using assms by (auto simp: new_scheduler_def pending_due_def flight_def split: if_splits)
  with due_run [OF new_scheduler_inv [OF assms], of es] flight_run [of s es] show ?thesis by simp
qed

definition sample_scheduler :: scheduler where
  "sample_scheduler = \<lparr>sch_quiet = 10, sch_maximum = 50, sch_dirty = False, sch_in_flight = False,
     sch_first = 0, sch_latest = 0, sch_timer = None, sch_due = 0, sch_sending = False, sch_done = False\<rparr>"

lemma sample_scheduler_new: "new_scheduler 10 50 = Inr sample_scheduler"
  by (simp add: new_scheduler_def sample_scheduler_def)

definition sample_schedule :: "sched_event list" where
  "sample_schedule = [SchedActivity 0 0, SchedTimer 10, SchedTakeDue, SchedComplete False 11 11]"

theorem scheduler_conserves_witness:
  "sched_count fires_now sample_scheduler sample_schedule = 1
   \<and> sched_count completes_now sample_scheduler sample_schedule = 1"
proof -
  have "sched_count takes_now sample_scheduler sample_schedule = 1"
    "pending_due (foldl sched_next sample_scheduler sample_schedule) = 0"
    "sched_count begins_now sample_scheduler sample_schedule = 0"
    "flight (foldl sched_next sample_scheduler sample_schedule) = 0"
    by code_simp+
  with scheduler_conserves [OF sample_scheduler_new, of sample_schedule] show ?thesis by simp
qed

section \<open>Activity is served within the maximum delay\<close>

fun readings :: "sched_event \<Rightarrow> int list" where
  "readings (SchedActivity now arm_now) = [now, arm_now]"
| "readings (SchedBeginExternal arm_now) = [arm_now]"
| "readings (SchedComplete _ now arm_now) = [now, arm_now]"
| "readings SchedStop = []"
| "readings (SchedTimer now) = [now]"
| "readings SchedTakeDue = []"

definition clock_readings :: "sched_event list \<Rightarrow> int list" where
  "clock_readings es = concat (map readings es)"

definition timed_inv :: "int \<Rightarrow> scheduler \<Rightarrow> bool" where
  "timed_inv t s \<longleftrightarrow>
     (case sch_timer s of None \<Rightarrow> True | Some d \<Rightarrow> d \<le> max t (sch_first s + sch_maximum s))"

lemma timed_inv_arm: "t' \<le> t \<Longrightarrow> timed_inv t (sched_arm t' s)"
  by (auto simp: timed_inv_def sched_arm_def sched_delay_def Let_def)

lemma timed_inv_mono: "timed_inv t s \<Longrightarrow> t \<le> t' \<Longrightarrow> timed_inv t' s"
  by (auto simp: timed_inv_def split: option.splits)

lemma timed_inv_no_timer: "sch_timer s = None \<Longrightarrow> timed_inv t s"
  by (simp add: timed_inv_def)

lemma timed_step:
  assumes "timed_inv t s" "\<forall>r \<in> set (readings e). r \<le> t'" "t \<le> t'"
  shows "timed_inv t' (sched_next s e)"
proof (cases e)
  case (SchedTimer now)
  with timed_inv_mono [OF assms(1,3)] show ?thesis
    by (cases "sch_timer s") (simp_all add: sched_next_def sched_step_def sched_fire_def Let_def timed_inv_no_timer)
next
  case SchedTakeDue
  with timed_inv_mono [OF assms(1,3)] show ?thesis
    by (cases "sch_timer s") (simp_all add: sched_next_def sched_step_def timed_inv_def)
next
  case SchedStop
  with timed_inv_mono [OF assms(1,3)] show ?thesis
    by (auto simp: sched_next_def sched_step_def sched_command_def timed_inv_no_timer)
next
  case (SchedActivity now now')
  with timed_inv_mono [OF assms(1,3)] assms(2) show ?thesis
    by (simp add: sched_next_def sched_step_def sched_command_def timed_inv_arm)
next
  case (SchedBeginExternal now)
  with timed_inv_mono [OF assms(1,3)] assms(2) show ?thesis
    by (simp add: sched_next_def sched_step_def sched_command_def timed_inv_arm)
next
  case (SchedComplete retry now now')
  with timed_inv_mono [OF assms(1,3)] assms(2) show ?thesis
    by (simp add: sched_next_def sched_step_def sched_command_def timed_inv_arm)
qed

lemma timed_run:
  assumes "timed_inv t s" "\<forall>r \<in> set (clock_readings es). r \<le> t'" "t \<le> t'"
  shows "timed_inv t' (foldl sched_next s es)"
  using assms
proof (induction es arbitrary: s t)
  case Nil
  then show ?case using timed_inv_mono by simp
next
  case (Cons e es)
  then have "timed_inv t' (sched_next s e)"
    by (intro timed_step [of t]) (simp_all add: clock_readings_def)
  with Cons.IH [of t'] Cons.prems show ?case by (simp add: clock_readings_def)
qed



end
