(* ===== verification/Pinned_Source.thy ===== *)
theory Pinned_Source
  imports Terminal_Frame
begin

text \<open>
  The pinned tmux source, \<^verbatim>\<open>internal/terminal/source.go\<close>: the immutable witness of the host
  process and pane an attachment is bound to, and the guarded transactions BIND, CUT, RESIZE and
  CLEANUP run against it. The tmux client (\<^verbatim>\<open>PinnedTransaction\<close>) and the process probe
  (\<^verbatim>\<open>ProcessProbe\<close>) are interfaces implemented elsewhere: they are functions on an
  environment of any type \<open>'w\<close>, so that each call may answer differently.
\<close>

section \<open>Witnesses and identities\<close>

record socket_identity =
  so_path :: string
  so_device :: u64
  so_inode :: u64

record process_witness =
  pw_pid :: int
  pw_start :: u64

record source_witness =
  sw_incarnation :: string
  sw_socket :: socket_identity
  sw_server :: process_witness
  sw_session :: string
  sw_window :: string
  sw_pane_id :: string
  sw_pane :: process_witness
  sw_columns :: int
  sw_rows :: int

definition witness_validate :: "source_witness \<Rightarrow> go_error option" where
  "witness_validate w =
     (if sw_incarnation w = [] \<or> \<not> has_prefix (so_path (sw_socket w)) ''/''
         \<or> so_device (sw_socket w) = 0 \<or> so_inode (sw_socket w) = 0
         \<or> pw_pid (sw_server w) \<le> 0 \<or> pw_start (sw_server w) = 0
         \<or> pw_pid (sw_pane w) \<le> 0 \<or> pw_start (sw_pane w) = 0
         \<or> \<not> has_prefix (sw_session w) ''$'' \<or> \<not> has_prefix (sw_window w) ''@''
         \<or> \<not> has_prefix (sw_pane_id w) ''%''
         \<or> sw_columns w \<le> 0 \<or> sw_rows w \<le> 0
      then Some (Sent ErrMalformed) else None)"

datatype pinned_action = ActionNone | ActionBind | ActionCut | ActionResize | ActionCleanup

record attachment_ids =
  shadow_session_id :: string
  client_id :: string

definition no_ids :: attachment_ids where
  "no_ids = \<lparr>shadow_session_id = [], client_id = []\<rparr>"

definition ids_exact :: "attachment_ids \<Rightarrow> bool" where
  "ids_exact ids \<longleftrightarrow> has_prefix (shadow_session_id ids) ''$'' \<and> client_id ids \<noteq> []"

record transaction_request =
  tr_action :: pinned_action
  tr_witness :: "source_witness option"
  tr_attachment :: attachment_ids
  tr_cut :: u64
  tr_kind :: cut_kind
  tr_marker :: bytes
  tr_history_rows :: int
  tr_columns :: int
  tr_rows :: int

definition base_request :: "pinned_action \<Rightarrow> attachment_ids \<Rightarrow> transaction_request" where
  "base_request a ids =
     \<lparr>tr_action = a, tr_witness = None, tr_attachment = ids, tr_cut = 0, tr_kind = CutNone,
      tr_marker = [], tr_history_rows = 0, tr_columns = 0, tr_rows = 0\<rparr>"

record transaction_result =
  res_witness :: source_witness
  res_attachment :: attachment_ids
  res_capture :: bytes

text \<open>The environment: the transaction and the probe, each threading the outside world.\<close>

record 'w source_env =
  run_pinned :: "transaction_request \<Rightarrow> 'w \<Rightarrow> (transaction_result \<times> go_error option) \<times> 'w"
  probe_witness :: "int \<Rightarrow> 'w \<Rightarrow> (go_error + process_witness) \<times> 'w"

text \<open>\<^verbatim>\<open>errors.As(err, **ResizeRefusal)\<close> and \<^verbatim>\<open>RefuseResize\<close>.\<close>

fun is_resize_refusal :: "go_error \<Rightarrow> bool" where
  "is_resize_refusal (Sent s) = False"
| "is_resize_refusal (ErrText _) = False"
| "is_resize_refusal (ErrWrap _ es) = (\<exists>e \<in> set es. is_resize_refusal e)"
| "is_resize_refusal (ErrJoin es) = (\<exists>e \<in> set es. is_resize_refusal e)"
| "is_resize_refusal (Refusal e) = True"

definition refuse_resize :: "go_error option \<Rightarrow> go_error" where
  "refuse_resize cause = Refusal (case cause of None \<Rightarrow> Sent ErrMalformed | Some e \<Rightarrow> e)"

section \<open>Outcomes\<close>

datatype bind_outcome_kind =
    BindOutcomeInvalid | BindSucceededExact | BindFailedNoOwner | BindFailedExact | BindInvalid

record bind_outcome =
  bo_kind :: bind_outcome_kind
  bo_ids :: attachment_ids
  bo_cause :: "go_error option"

definition bind_outcome_valid :: "bind_outcome \<Rightarrow> bool" where
  "bind_outcome_valid o1 \<longleftrightarrow>
     (case bo_kind o1 of
        BindSucceededExact \<Rightarrow> ids_exact (bo_ids o1) \<and> bo_cause o1 = None
      | BindFailedNoOwner \<Rightarrow> bo_ids o1 = no_ids \<and> bo_cause o1 \<noteq> None
      | BindFailedExact \<Rightarrow> ids_exact (bo_ids o1) \<and> bo_cause o1 \<noteq> None
      | BindInvalid \<Rightarrow> bo_cause o1 \<noteq> None
      | BindOutcomeInvalid \<Rightarrow> False)"

datatype cut_outcome_kind = CutOutcomeInvalid | CutSucceeded | CutFailed

record cut_outcome =
  co_kind :: cut_outcome_kind
  co_capture :: bytes
  co_cause :: "go_error option"

definition cut_outcome_valid :: "cut_outcome \<Rightarrow> bool" where
  "cut_outcome_valid o1 \<longleftrightarrow>
     (case co_kind o1 of
        CutSucceeded \<Rightarrow> co_cause o1 = None
      | CutFailed \<Rightarrow> co_cause o1 \<noteq> None \<and> co_capture o1 = []
      | CutOutcomeInvalid \<Rightarrow> False)"

definition cut_failed :: "go_error \<Rightarrow> cut_outcome" where
  "cut_failed e = \<lparr>co_kind = CutFailed, co_capture = [], co_cause = Some e\<rparr>"

section \<open>Operations\<close>

record pinned_source =
  ps_witness :: source_witness

definition new_pinned_source :: "source_witness \<Rightarrow> bool \<Rightarrow> bool \<Rightarrow> go_error + pinned_source" where
  "new_pinned_source w have_tmux have_probe =
     (if witness_validate w \<noteq> None \<or> \<not> have_tmux \<or> \<not> have_probe then Inl (Sent ErrMalformed)
      else Inr \<lparr>ps_witness = w\<rparr>)"

definition public_identity :: "pinned_source \<Rightarrow> string \<times> int \<times> int" where
  "public_identity s =
     (sw_incarnation (ps_witness s), sw_columns (ps_witness s), sw_rows (ps_witness s))"

definition validate_process ::
    "'w source_env \<Rightarrow> process_witness \<Rightarrow> 'w \<Rightarrow> go_error option \<times> 'w" where
  "validate_process env want w =
     (case probe_witness env (pw_pid want) w of
        (Inl err, w') \<Rightarrow> (Some (ErrJoin [Sent ErrReopenRequired, err]), w')
      | (Inr got, w') \<Rightarrow> (if got \<noteq> want then Some (Sent ErrReopenRequired) else None, w'))"

definition validate_server :: "'w source_env \<Rightarrow> pinned_source \<Rightarrow> 'w \<Rightarrow> go_error option \<times> 'w" where
  "validate_server env s w = validate_process env (sw_server (ps_witness s)) w"

definition validate_processes :: "'w source_env \<Rightarrow> pinned_source \<Rightarrow> 'w \<Rightarrow> go_error option \<times> 'w" where
  "validate_processes env s w =
     (case validate_server env s w of
        (Some err, w') \<Rightarrow> (Some err, w')
      | (None, w') \<Rightarrow> validate_process env (sw_pane (ps_witness s)) w')"

text \<open>
  BIND. \<open>transfer\<close> is the epoch's callback that records ownership; \<open>None\<close> is the nil callback.
\<close>

definition bind_invalid :: "attachment_ids \<Rightarrow> go_error \<Rightarrow> bind_outcome" where
  "bind_invalid ids cause =
     \<lparr>bo_kind = BindInvalid, bo_ids = ids, bo_cause = Some (ErrJoin [Sent ErrInvariant, cause])\<rparr>"

definition bind_unowned :: "attachment_ids \<Rightarrow> go_error option \<Rightarrow> bind_outcome" where
  "bind_unowned ids run_err =
     (if ids = no_ids then
        \<lparr>bo_kind = BindFailedNoOwner, bo_ids = no_ids,
         bo_cause = Some (ErrJoin [Sent ErrReopenRequired,
           case run_err of None \<Rightarrow> ErrText ''BIND returned no exact attachment IDs'' | Some e \<Rightarrow> e])\<rparr>
      else
        bind_invalid no_ids
          (case run_err of
             None \<Rightarrow> ErrText ''BIND returned partial attachment IDs''
           | Some e \<Rightarrow> ErrJoin [ErrText ''BIND returned partial attachment IDs'', e]))"

definition bind_owned ::
    "'w source_env \<Rightarrow> pinned_source \<Rightarrow> attachment_ids \<Rightarrow> source_witness \<Rightarrow> go_error option \<Rightarrow> 'w
      \<Rightarrow> bind_outcome \<times> 'w" where
  "bind_owned env s ids got run_err w =
     (let failed = (\<lambda>e. \<lparr>bo_kind = BindFailedExact, bo_ids = ids, bo_cause = Some e\<rparr>)
      in case run_err of
           Some e \<Rightarrow> (failed (ErrJoin [Sent ErrReopenRequired, e]), w)
         | None \<Rightarrow>
             if got \<noteq> ps_witness s then (failed (Sent ErrReopenRequired), w)
             else case validate_processes env s w of
               (Some e, w') \<Rightarrow> (failed e, w')
             | (None, w') \<Rightarrow> (\<lparr>bo_kind = BindSucceededExact, bo_ids = ids, bo_cause = None\<rparr>, w'))"

definition source_bind ::
    "'w source_env \<Rightarrow> (attachment_ids \<Rightarrow> 'w \<Rightarrow> go_error option \<times> 'w) option \<Rightarrow> pinned_source \<Rightarrow> 'w
      \<Rightarrow> bind_outcome \<times> 'w" where
  "source_bind env transfer s w =
     (case transfer of
        None \<Rightarrow> (bind_invalid no_ids (Sent ErrMalformed), w)
      | Some give \<Rightarrow>
          (case validate_processes env s w of
             (Some e, w') \<Rightarrow> (\<lparr>bo_kind = BindFailedNoOwner, bo_ids = no_ids, bo_cause = Some e\<rparr>, w')
           | (None, w') \<Rightarrow>
               (case run_pinned env ((base_request ActionBind no_ids)\<lparr>tr_witness := Some (ps_witness s)\<rparr>) w' of
                  ((r, run_err), w1) \<Rightarrow>
                    if ids_exact (res_attachment r) then
                      (case give (res_attachment r) w1 of
                         (Some e, w2) \<Rightarrow> (bind_invalid (res_attachment r) e, w2)
                       | (None, w2) \<Rightarrow> bind_owned env s (res_attachment r) (res_witness r) run_err w2)
                    else (bind_unowned (res_attachment r) run_err, w1))))"

definition same_source_apart_from_geometry :: "source_witness \<Rightarrow> source_witness \<Rightarrow> bool" where
  "same_source_apart_from_geometry before after \<longleftrightarrow>
     before\<lparr>sw_incarnation := [], sw_columns := 0, sw_rows := 0\<rparr>
     = after\<lparr>sw_incarnation := [], sw_columns := 0, sw_rows := 0\<rparr>"

definition same_server_incarnation :: "source_witness \<Rightarrow> source_witness \<Rightarrow> bool" where
  "same_server_incarnation got want \<longleftrightarrow>
     sw_incarnation got = sw_incarnation want \<and> sw_socket got = sw_socket want
     \<and> sw_server got = sw_server want"

definition source_perform ::
    "'w source_env \<Rightarrow> pinned_source \<Rightarrow> transaction_request \<Rightarrow> 'w \<Rightarrow> (go_error + transaction_result) \<times> 'w"
where
  "source_perform env s req w =
     (if tr_action req \<noteq> ActionCut \<and> tr_action req \<noteq> ActionCleanup then (Inl (Sent ErrMalformed), w)
      else
        let check = (if tr_action req = ActionCleanup then validate_server env s else validate_processes env s)
        in case check w of
          (Some e, w') \<Rightarrow> (Inl e, w')
        | (None, w') \<Rightarrow>
            (case run_pinned env (req\<lparr>tr_witness := Some (ps_witness s)\<rparr>) w' of
               ((r, Some e), w1) \<Rightarrow> (Inl (ErrJoin [Sent ErrReopenRequired, e]), w1)
             | ((r, None), w1) \<Rightarrow>
                 if tr_action req = ActionCut \<and> res_witness r \<noteq> ps_witness s
                 then (Inl (Sent ErrReopenRequired), w1)
                 else if tr_action req = ActionCleanup
                      \<and> \<not> same_server_incarnation (res_witness r) (ps_witness s)
                 then (Inl (Sent ErrReopenRequired), w1)
                 else if res_attachment r \<noteq> tr_attachment req then (Inl (Sent ErrReopenRequired), w1)
                 else case check w1 of (Some e, w2) \<Rightarrow> (Inl e, w2) | (None, w2) \<Rightarrow> (Inr r, w2)))"

definition marker_payload_limit :: int where "marker_payload_limit = 10 + 43"

definition source_cut ::
    "'w source_env \<Rightarrow> pinned_source \<Rightarrow> attachment_ids \<Rightarrow> u64 \<Rightarrow> cut_kind \<Rightarrow> bytes \<Rightarrow> int \<Rightarrow> 'w
      \<Rightarrow> cut_outcome \<times> 'w" where
  "source_cut env s ids c kind marker history_rows w =
     (if c = 0 \<or> \<not> known_cut_kind kind \<or> marker = [] \<or> len marker > marker_payload_limit
         \<or> \<not> valid_history_rows history_rows
      then (cut_failed (Sent ErrMalformed), w)
      else case source_perform env s
          ((base_request ActionCut ids)\<lparr>tr_cut := c, tr_kind := kind, tr_marker := marker,
             tr_history_rows := history_rows\<rparr>) w of
        (Inl e, w') \<Rightarrow> (cut_failed e, w')
      | (Inr r, w') \<Rightarrow> (\<lparr>co_kind = CutSucceeded, co_capture = res_capture r, co_cause = None\<rparr>, w'))"

definition cleanup_attachment ::
    "'w source_env \<Rightarrow> pinned_source \<Rightarrow> attachment_ids \<Rightarrow> 'w \<Rightarrow> go_error option \<times> 'w" where
  "cleanup_attachment env s ids w =
     (if \<not> ids_exact ids then (Some (Sent ErrMalformed), w)
      else case source_perform env s (base_request ActionCleanup ids) w of
        (Inl e, w') \<Rightarrow> (Some e, w')
      | (Inr r, w') \<Rightarrow> (None, w'))"

definition resize_accepts :: "pinned_source \<Rightarrow> attachment_ids \<Rightarrow> int \<Rightarrow> int \<Rightarrow> transaction_result \<Rightarrow> bool" where
  "resize_accepts s ids columns rows r \<longleftrightarrow>
     res_attachment r = ids \<and> witness_validate (res_witness r) = None
     \<and> sw_columns (res_witness r) = columns \<and> sw_rows (res_witness r) = rows
     \<and> same_source_apart_from_geometry (ps_witness s) (res_witness r)"

definition source_resize ::
    "'w source_env \<Rightarrow> pinned_source \<Rightarrow> attachment_ids \<Rightarrow> int \<Rightarrow> int \<Rightarrow> 'w
      \<Rightarrow> go_error option \<times> pinned_source \<times> 'w" where
  "source_resize env s ids columns rows w =
     (if \<not> ids_exact ids \<or> columns < 1 \<or> columns > 1000 \<or> rows < 1 \<or> rows > 1000
      then (Some (refuse_resize (Some (Sent ErrMalformed))), s, w)
      else case validate_processes env s w of
        (Some e, w') \<Rightarrow> (Some e, s, w')
      | (None, w') \<Rightarrow>
          (case run_pinned env ((base_request ActionResize ids)\<lparr>tr_witness := Some (ps_witness s),
                tr_columns := columns, tr_rows := rows\<rparr>) w' of
             ((r, Some e), w1) \<Rightarrow>
               (Some (if is_resize_refusal e then e else ErrJoin [Sent ErrReopenRequired, e]), s, w1)
           | ((r, None), w1) \<Rightarrow>
               if \<not> resize_accepts s ids columns rows r then (Some (Sent ErrReopenRequired), s, w1)
               else
                 let s' = s\<lparr>ps_witness := res_witness r\<rparr>
                 in case validate_processes env s' w1 of
                      (e, w2) \<Rightarrow> (e, s', w2)))"

section \<open>Calls, logged\<close>

text \<open>An environment that also writes down its calls, to state what the operations ask of it.\<close>

datatype source_call =
    CallProbe int
  | CallPinned transaction_request transaction_result "go_error option"
  | CallTransfer attachment_ids

type_synonym 'w logged = "source_call list \<times> 'w"

definition log_env :: "'w source_env \<Rightarrow> 'w logged source_env" where
  "log_env env =
     \<lparr>run_pinned = (\<lambda>req (calls, w). case run_pinned env req w of
        ((r, e), w') \<Rightarrow> ((r, e), (calls @ [CallPinned req r e], w'))),
      probe_witness = (\<lambda>pid (calls, w). case probe_witness env pid w of
        (r, w') \<Rightarrow> (r, (calls @ [CallProbe pid], w')))\<rparr>"

definition log_transfer ::
    "(attachment_ids \<Rightarrow> 'w \<Rightarrow> go_error option \<times> 'w) \<Rightarrow> attachment_ids \<Rightarrow> 'w logged
      \<Rightarrow> go_error option \<times> 'w logged" where
  "log_transfer give ids = (\<lambda>(calls, w). case give ids w of (e, w') \<Rightarrow> (e, (calls @ [CallTransfer ids], w')))"

fun is_probe :: "source_call \<Rightarrow> bool" where
  "is_probe (CallProbe _) = True"
| "is_probe _ = False"

lemma validate_process_log:
  "validate_process (log_env env) p (calls, w) = (e, calls', w') \<Longrightarrow>
   \<exists>ps. calls' = calls @ ps \<and> list_all is_probe ps"
  by (auto simp: validate_process_def log_env_def split: prod.splits sum.splits)

lemma validate_processes_log:
  "validate_processes (log_env env) s (calls, w) = (e, calls', w') \<Longrightarrow>
   \<exists>ps. calls' = calls @ ps \<and> list_all is_probe ps"
  unfolding validate_processes_def validate_server_def
  by (fastforce split: prod.splits option.splits dest: validate_process_log)

lemma validate_processes_error:
  "validate_processes env s w = (Some e, w') \<Longrightarrow> err_is e ErrReopenRequired"
  by (auto simp: validate_processes_def validate_server_def validate_process_def
      split: prod.splits sum.splits option.splits if_splits)

lemma bind_owned_log:
  assumes "bind_owned (log_env env) s ids got run_err (calls, w) = (out, calls', w')" "ids_exact ids"
  shows "bind_outcome_valid out \<and> bo_ids out = ids
    \<and> (\<exists>qs. list_all is_probe qs \<and> calls' = calls @ qs)
    \<and> (bo_kind out = BindSucceededExact \<longrightarrow> run_err = None \<and> got = ps_witness s)"
proof (cases "run_err = None \<and> got = ps_witness s")
  case True
  obtain e c1 w1 where v: "validate_processes (log_env env) s (calls, w) = (e, c1, w1)"
    by (cases "validate_processes (log_env env) s (calls, w)") auto
  from validate_processes_log [OF v] obtain qs where "c1 = calls @ qs" "list_all is_probe qs" by blast
  with True v assms show ?thesis
    by (cases e) (auto simp: bind_owned_def bind_outcome_valid_def)
next
  case False
  with assms show ?thesis
    by (cases run_err) (auto simp: bind_owned_def bind_outcome_valid_def)
qed

text \<open>
  The calls of one BIND and its outcome, in the three ways it can go: the processes do not check,
  the transaction returns no exact identities, or it does and they are transferred at once.
\<close>

definition bind_accounted :: "pinned_source \<Rightarrow> bind_outcome \<Rightarrow> source_call list \<Rightarrow> bool" where
  "bind_accounted s out calls \<longleftrightarrow>
     (\<exists>ps. list_all is_probe ps \<and>
       (calls = ps \<and> bo_kind out = BindFailedNoOwner
        \<or> (\<exists>req r e. calls = ps @ [CallPinned req r e] \<and> tr_action req = ActionBind
             \<and> \<not> ids_exact (res_attachment r) \<and> bo_ids out = no_ids)
        \<or> (\<exists>req r e qs. calls = ps @ [CallPinned req r e, CallTransfer (res_attachment r)] @ qs
             \<and> tr_action req = ActionBind \<and> list_all is_probe qs
             \<and> ids_exact (res_attachment r) \<and> bo_ids out = res_attachment r
             \<and> (if bo_kind out = BindSucceededExact then e = None \<and> res_witness r = ps_witness s
                else True))))"

lemma bind_accountedI:
  "list_all is_probe ps \<Longrightarrow> bo_kind out = BindFailedNoOwner \<Longrightarrow> bind_accounted s out ps"
  "list_all is_probe ps \<Longrightarrow> tr_action req = ActionBind \<Longrightarrow> \<not> ids_exact (res_attachment r) \<Longrightarrow>
   bo_ids out = no_ids \<Longrightarrow> bind_accounted s out (ps @ [CallPinned req r e])"
  "list_all is_probe ps \<Longrightarrow> tr_action req = ActionBind \<Longrightarrow> list_all is_probe qs \<Longrightarrow>
   ids_exact (res_attachment r) \<Longrightarrow> bo_ids out = res_attachment r \<Longrightarrow>
   (bo_kind out = BindSucceededExact \<longrightarrow> e = None \<and> res_witness r = ps_witness s) \<Longrightarrow>
   bind_accounted s out (ps @ [CallPinned req r e, CallTransfer (res_attachment r)] @ qs)"
  unfolding bind_accounted_def by (blast, blast, metis)

text \<open>
  C30: BIND never loses an attachment: when the transaction returns exact attachment identities,
  the very next thing that happens is their transfer to the owner, the outcome carries them, and it
  is a success only if the transaction reported no error and witnessed the pinned source; when it
  returns none, nothing is transferred and the outcome names no identity. The outcome is always one
  of the valid ones.
\<close>

theorem bind_accounts_for_attachment:
  "case source_bind (log_env env) (Some (log_transfer give)) s ([], w) of (out, calls, w') \<Rightarrow>
     bind_outcome_valid out \<and> bind_accounted s out calls"
proof -
  obtain e c1 w1 where v: "validate_processes (log_env env) s ([], w) = (e, c1, w1)"
    by (cases "validate_processes (log_env env) s ([], w)") auto
  have c1: "list_all is_probe c1" using validate_processes_log [OF v] by simp
  show ?thesis
  proof (cases e)
    case (Some err)
    with v c1 show ?thesis
      by (simp add: source_bind_def bind_outcome_valid_def bind_accountedI(1))
  next
    case None
    let ?req = "(base_request ActionBind no_ids)\<lparr>tr_witness := Some (ps_witness s)\<rparr>"
    have req: "tr_action ?req = ActionBind" by (simp add: base_request_def)
    obtain r re w2 where r: "run_pinned env ?req w1 = ((r, re), w2)"
      by (cases "run_pinned env ?req w1") auto
    have rl: "run_pinned (log_env env) ?req (c1, w1) = ((r, re), c1 @ [CallPinned ?req r re], w2)"
      using r by (simp add: log_env_def)
    show ?thesis
    proof (cases "ids_exact (res_attachment r)")
      case False
      then have "bind_outcome_valid (bind_unowned (res_attachment r) re)
          \<and> bo_ids (bind_unowned (res_attachment r) re) = no_ids"
        by (simp add: bind_unowned_def bind_invalid_def bind_outcome_valid_def)
      with v None rl False c1 req show ?thesis by (simp add: source_bind_def bind_accountedI(2))
    next
      case True
      obtain ge w3 where g: "give (res_attachment r) w2 = (ge, w3)" by (cases "give (res_attachment r) w2")
      let ?calls = "c1 @ [CallPinned ?req r re, CallTransfer (res_attachment r)]"
      have gl: "log_transfer give (res_attachment r) (c1 @ [CallPinned ?req r re], w2) = (ge, ?calls, w3)"
        using g by (simp add: log_transfer_def)
      show ?thesis
      proof (cases ge)
        case (Some err)
        have "bind_accounted s (bind_invalid (res_attachment r) err) (?calls @ [])"
          using bind_accountedI(3) [OF c1 req _ True, of "[]" "bind_invalid (res_attachment r) err" re s]
          by (simp add: bind_invalid_def)
        with Some v None rl True gl show ?thesis
          by (simp add: source_bind_def bind_invalid_def bind_outcome_valid_def)
      next
        case None': None
        obtain out c4 w4 where b:
          "bind_owned (log_env env) s (res_attachment r) (res_witness r) re (?calls, w3) = (out, c4, w4)"
          by (cases "bind_owned (log_env env) s (res_attachment r) (res_witness r) re (?calls, w3)") auto
        have "source_bind (log_env env) (Some (log_transfer give)) s ([], w) = (out, c4, w4)"
          using v None rl True gl None' b by (simp add: source_bind_def)
        moreover from bind_owned_log [OF b True] obtain qs where
          "bind_outcome_valid out" "bo_ids out = res_attachment r" "list_all is_probe qs" "c4 = ?calls @ qs"
          "bo_kind out = BindSucceededExact \<longrightarrow> re = None \<and> res_witness r = ps_witness s"
          by blast
        moreover from this bind_accountedI(3) [OF c1 req _ True] have "bind_accounted s out c4" by simp
        ultimately show ?thesis by simp
      qed
    qed
  qed
qed

section \<open>Resizing\<close>

text \<open>Documented of the process probe: its errors are not resize refusals.\<close>

definition probe_plain :: "'w source_env \<Rightarrow> bool" where
  "probe_plain env \<longleftrightarrow>
     (\<forall>pid w e w'. probe_witness env pid w = (Inl e, w') \<longrightarrow> \<not> is_resize_refusal e)"

lemma validate_process_plain:
  "probe_plain env \<Longrightarrow> validate_process env p w = (Some e, w') \<Longrightarrow> \<not> is_resize_refusal e"
  unfolding probe_plain_def validate_process_def
  by (cases "probe_witness env (pw_pid p) w"; cases "fst (probe_witness env (pw_pid p) w)")
    (auto split: if_splits, blast)

lemma validate_processes_plain:
  "probe_plain env \<Longrightarrow> validate_processes env s w = (Some e, w') \<Longrightarrow> \<not> is_resize_refusal e"
  unfolding validate_processes_def validate_server_def
  by (auto split: prod.splits option.splits dest: validate_process_plain)

lemma log_env_plain: "probe_plain env \<Longrightarrow> probe_plain (log_env env)"
  by (auto simp: probe_plain_def log_env_def split: prod.splits)

text \<open>
  C31: The outcome of RESIZE tells what may have happened to tmux. An error that is a typed refusal
  leaves the pinned witness as it was, and either no transaction was issued or the transaction
  itself certified the refusal; any other error is a reopen verdict; without an error the source is
  pinned to a valid witness of the requested geometry and otherwise of the same source.
\<close>

theorem resize_refusal_means_untouched:
  assumes "probe_plain env"
    and "source_resize (log_env env) s ids columns rows ([], w) = (err, s', calls, w')"
  shows "case err of
      Some e \<Rightarrow>
        if is_resize_refusal e
        then s' = s \<and> (list_all is_probe calls
          \<or> (\<exists>ps req r. calls = ps @ [CallPinned req r (Some e)] \<and> list_all is_probe ps))
        else err_is e ErrReopenRequired
    | None \<Rightarrow> witness_validate (ps_witness s') = None
        \<and> sw_columns (ps_witness s') = columns \<and> sw_rows (ps_witness s') = rows
        \<and> same_source_apart_from_geometry (ps_witness s) (ps_witness s')"
proof (cases "\<not> ids_exact ids \<or> columns < 1 \<or> columns > 1000 \<or> rows < 1 \<or> rows > 1000")
  case True
  with assms(2) show ?thesis by (auto simp: source_resize_def refuse_resize_def)
next
  case False
  note plain = validate_processes_plain [OF log_env_plain [OF assms(1)]]
  obtain e c1 w1 where v: "validate_processes (log_env env) s ([], w) = (e, c1, w1)"
    by (cases "validate_processes (log_env env) s ([], w)") auto
  have c1: "list_all is_probe c1" using validate_processes_log [OF v] by simp
  show ?thesis
  proof (cases e)
    case (Some x)
    with v assms(2) False have "err = Some x" by (simp add: source_resize_def)
    moreover have "\<not> is_resize_refusal x" using plain v Some by blast
    moreover have "err_is x ErrReopenRequired" using v Some by (auto intro: validate_processes_error)
    ultimately show ?thesis by simp
  next
    case None
    let ?req = "(base_request ActionResize ids)\<lparr>tr_witness := Some (ps_witness s),
      tr_columns := columns, tr_rows := rows\<rparr>"
    obtain r re w2 where "run_pinned env ?req w1 = ((r, re), w2)"
      by (cases "run_pinned env ?req w1") auto
    then have rl: "run_pinned (log_env env) ?req (c1, w1) = ((r, re), c1 @ [CallPinned ?req r re], w2)"
      by (simp add: log_env_def)
    show ?thesis
    proof (cases re)
      case (Some x)
      with v None rl assms(2) False c1 show ?thesis
        by (auto simp: source_resize_def split: if_splits)
    next
      case None': None
      let ?s = "s\<lparr>ps_witness := res_witness r\<rparr>"
      obtain e3 c3 w3 where v3: "validate_processes (log_env env) ?s (c1 @ [CallPinned ?req r re], w2) = (e3, c3, w3)"
        by (cases "validate_processes (log_env env) ?s (c1 @ [CallPinned ?req r re], w2)") auto
      show ?thesis
      proof (cases "resize_accepts s ids columns rows r")
        case True
        have res: "source_resize (log_env env) s ids columns rows ([], w) = (e3, ?s, c3, w3)"
          using v None rl False v3 None' True by (simp add: source_resize_def Let_def)
        show ?thesis
        proof (cases e3)
          case (Some x)
          with v3 have "\<not> is_resize_refusal x" "err_is x ErrReopenRequired"
            using plain [of ?s] by (blast, auto intro: validate_processes_error)
          with Some res assms(2) show ?thesis by simp
        qed (use res assms(2) True in \<open>simp add: resize_accepts_def\<close>)
      qed (use v None rl False None' assms(2) in \<open>auto simp: source_resize_def\<close>)
    qed
  qed
qed

text \<open>One resize after another, whatever the environment answers.\<close>

definition resize_step ::
    "'w source_env \<Rightarrow> pinned_source \<times> 'w \<Rightarrow> attachment_ids \<times> int \<times> int \<Rightarrow> pinned_source \<times> 'w" where
  "resize_step env sw x = snd (source_resize env (fst sw) (fst x) (fst (snd x)) (snd (snd x)) (snd sw))"

definition pinned_to :: "source_witness \<Rightarrow> pinned_source \<times> 'w \<Rightarrow> bool" where
  "pinned_to w0 sw \<longleftrightarrow>
     witness_validate (ps_witness (fst sw)) = None
     \<and> same_source_apart_from_geometry w0 (ps_witness (fst sw))"

lemma source_resize_cases:
  "source_resize env s ids columns rows w = (err, s', w') \<Longrightarrow>
   s' = s \<or> (\<exists>r. resize_accepts s ids columns rows r \<and> s' = s\<lparr>ps_witness := res_witness r\<rparr>)"
  unfolding source_resize_def
  by (auto simp: Let_def split: if_splits prod.splits option.splits)

lemma pinned_to_step: "pinned_to w0 sw \<Longrightarrow> pinned_to w0 (resize_step env sw x)"
proof -
  assume p: "pinned_to w0 sw"
  obtain err s' w' where r: "source_resize env (fst sw) (fst x) (fst (snd x)) (snd (snd x)) (snd sw) = (err, s', w')"
    by (cases "source_resize env (fst sw) (fst x) (fst (snd x)) (snd (snd x)) (snd sw)") auto
  from source_resize_cases [OF r] p r show ?thesis
    by (auto simp: resize_step_def pinned_to_def resize_accepts_def same_source_apart_from_geometry_def)
qed

interpretation pinned: invariant_machine "resize_step env" "pinned_to w0" for env w0
  by unfold_locales (rule pinned_to_step)

text \<open>
  C32: An attachment stays on the source it was pinned to: after any number of resizes, whatever
  tmux and the probe answer, the witness is valid and differs from the original only in its
  geometry and incarnation, so socket, server process, session, window, pane and pane process are
  those of the beginning.
\<close>

theorem source_identity_pinned:
  assumes "new_pinned_source w0 True True = Inr s"
  shows "pinned_to w0 (foldl (resize_step env) (s, w) xs)"
  by (rule pinned.run_inv)
    (use assms in \<open>auto simp: new_pinned_source_def pinned_to_def same_source_apart_from_geometry_def split: if_splits\<close>)

section \<open>A concrete source\<close>

definition sample_witness :: source_witness where
  "sample_witness = \<lparr>sw_incarnation = ''i'', sw_socket = \<lparr>so_path = ''/s'', so_device = 1, so_inode = 2\<rparr>,
     sw_server = \<lparr>pw_pid = 10, pw_start = 5\<rparr>, sw_session = ''$1'', sw_window = ''@1'', sw_pane_id = ''%1'',
     sw_pane = \<lparr>pw_pid = 11, pw_start = 6\<rparr>, sw_columns = 80, sw_rows = 24\<rparr>"

definition sample_ids :: attachment_ids where
  "sample_ids = \<lparr>shadow_session_id = ''$9'', client_id = ''c''\<rparr>"

text \<open>A host that answers every probe truthfully and grants every resize.\<close>

definition sample_env :: "unit source_env" where
  "sample_env = \<lparr>run_pinned = (\<lambda>req w.
      ((\<lparr>res_witness = (if tr_action req = ActionResize
            then sample_witness\<lparr>sw_columns := tr_columns req, sw_rows := tr_rows req\<rparr> else sample_witness),
         res_attachment = sample_ids, res_capture = []\<rparr>, None), w)),
     probe_witness = (\<lambda>pid w. (Inr (if pid = 10 then sw_server sample_witness else sw_pane sample_witness), w))\<rparr>"

lemma sample_env_plain: "probe_plain sample_env"
  by (simp add: probe_plain_def sample_env_def)

theorem resize_refusal_means_untouched_witness:
  "\<exists>s' calls. source_resize (log_env sample_env) \<lparr>ps_witness = sample_witness\<rparr> sample_ids 100 30 ([], ())
       = (None, s', calls, ()) \<and> sw_columns (ps_witness s') = 100"
proof -
  define s1 where "s1 = \<lparr>ps_witness = sample_witness\<lparr>sw_columns := 100, sw_rows := 30\<rparr>\<rparr>"
  have "\<exists>calls. source_resize (log_env sample_env) \<lparr>ps_witness = sample_witness\<rparr> sample_ids 100 30 ([], ())
      = (None, s1, calls, ())"
    by (simp add: source_resize_def validate_processes_def validate_server_def validate_process_def
        log_env_def sample_env_def sample_witness_def sample_ids_def ids_exact_def has_prefix_def
        base_request_def resize_accepts_def witness_validate_def same_source_apart_from_geometry_def s1_def)
  then obtain calls where
    r: "source_resize (log_env sample_env) \<lparr>ps_witness = sample_witness\<rparr> sample_ids 100 30 ([], ())
      = (None, s1, calls, ())" by blast
  from resize_refusal_means_untouched [OF sample_env_plain r] r show ?thesis by auto
qed

theorem source_identity_pinned_witness:
  "pinned_to sample_witness
     (foldl (resize_step sample_env) (\<lparr>ps_witness = sample_witness\<rparr>, ()) [(sample_ids, 100, 30)])"
  by (rule source_identity_pinned)
    (simp add: new_pinned_source_def witness_validate_def sample_witness_def has_prefix_def)

end
