(* ===== verification/Input_Pump.thy ===== *)
theory Input_Pump
  imports Terminal_Frame "HOL-Library.Multiset" "HOL-Library.Sublist"
begin

text \<open>
  The input pump, \<^verbatim>\<open>internal/terminal/input.go\<close>: the queue of admitted INPUT frames, its byte
  account, the mode that admits them, and the goroutine that writes them to the PTY. Every locked
  section and every step of the goroutine between two of them is one step of the model; what the PTY
  writer returns comes with the step. The log of \<^verbatim>\<open>settled\<close> calls keeps, beside the identifier
  and outcome the callback receives, the item and the number of bytes the PTY took of it, and
  \<open>ip_pty\<close> is the sequence of bytes the PTY reported as taken.
\<close>

datatype input_outcome = InputWritten | InputDropped | InputPartial

record input_item =
  ii_data :: bytes
  ii_id :: u64
  ii_generation :: u64

text \<open>The item being written: the locals of \<open>run\<close> between dequeue and completion.\<close>

record input_write =
  iw_item :: input_item
  iw_generation :: u64
  iw_revoking :: bool
  iw_cancelled :: bool
  iw_calling :: bool
  iw_written :: nat
  iw_invalid :: bool
  iw_err :: "go_error option"

record input_settle =
  is_item :: input_item
  is_written :: nat
  is_outcome :: input_outcome

record input_pump =
  ip_source :: string
  ip_epoch :: u64
  ip_queue :: "input_item list"
  ip_closed :: bool
  ip_mode :: mode
  ip_generation :: u64
  ip_bytes :: int
  ip_current :: "input_write option"
  ip_run_err :: "go_error option"
  ip_fail :: "go_error option"
  ip_stop :: bool
  ip_wake :: bool
  ip_awake :: bool
  ip_done :: bool
  ip_panicked :: bool
  ip_settled :: "input_settle list"
  ip_pty :: bytes

definition new_input_pump :: "string \<Rightarrow> u64 \<Rightarrow> go_error + input_pump" where
  "new_input_pump source epoch =
     (if source = [] \<or> epoch = 0 then Inl (Sent ErrMalformed)
      else Inr \<lparr>ip_source = source, ip_epoch = epoch, ip_queue = [], ip_closed = False,
                ip_mode = ModeObserve, ip_generation = 1, ip_bytes = 0, ip_current = None,
                ip_run_err = None, ip_fail = None, ip_stop = False, ip_wake = False, ip_awake = False,
                ip_done = False, ip_panicked = False, ip_settled = [], ip_pty = []\<rparr>)"

definition pump_signal :: "input_pump \<Rightarrow> input_pump" where
  "pump_signal p = p\<lparr>ip_wake := True\<rparr>"

section \<open>Locked sections\<close>

definition item_bytes :: "input_item list \<Rightarrow> int" where
  "item_bytes items = sum_list (map (len \<circ> ii_data) items)"

definition discard_queued :: "input_pump \<Rightarrow> input_pump" where
  "discard_queued p =
     p\<lparr>ip_bytes := ip_bytes p - item_bytes (ip_queue p),
       ip_settled := ip_settled p
         @ map (\<lambda>i. \<lparr>is_item = i, is_written = 0, is_outcome = InputDropped\<rparr>) (ip_queue p),
       ip_queue := []\<rparr>"

text \<open>
  The section that revokes takes the current cancel function; it is called after the unlock, so
  cancellation itself is a later step.
\<close>

definition cancel_current :: "input_pump \<Rightarrow> input_pump" where
  "cancel_current p = p\<lparr>ip_current := map_option (\<lambda>w. w\<lparr>iw_revoking := True\<rparr>) (ip_current p)\<rparr>"

definition pump_set_mode :: "mode \<Rightarrow> input_pump \<Rightarrow> go_error option \<times> input_pump" where
  "pump_set_mode m p =
     (if m \<noteq> ModeObserve \<and> m \<noteq> ModeControl then (Some (Sent ErrMalformed), p)
      else if ip_closed p then (Some (Sent ErrClosed), p)
      else
        let p1 = p\<lparr>ip_mode := m\<rparr>
        in (None, pump_signal
             (if m = ModeObserve
              then cancel_current (discard_queued (p1\<lparr>ip_generation := ip_generation p1 + 1\<rparr>))
              else p1)))"

fun batch_size :: "int \<Rightarrow> input_item list \<Rightarrow> go_error + int" where
  "batch_size n [] = Inr n"
| "batch_size n (i # is) =
     (if ii_data i = [] then Inl (Sent ErrMalformed)
      else if len (ii_data i) > max_input_bytes - n then Inl (Sent ErrSaturated)
      else batch_size (n + len (ii_data i)) is)"

definition check_batch :: "string \<Rightarrow> u64 \<Rightarrow> input_item list \<Rightarrow> input_pump \<Rightarrow> go_error option" where
  "check_batch source epoch batch p =
     (if ip_closed p then Some (Sent ErrClosed)
      else if source \<noteq> ip_source p \<or> epoch \<noteq> ip_epoch p then Some (Sent ErrStale)
      else if ip_mode p \<noteq> ModeControl then Some (Sent ErrObserveOnly)
      else case batch_size 0 batch of
        Inl e \<Rightarrow> Some e
      | Inr n \<Rightarrow>
          if len batch > max_input_frames - len (ip_queue p) \<or> n > max_input_bytes - ip_bytes p
          then Some (Sent ErrSaturated) else None)"

definition can_enqueue_batch :: "string \<Rightarrow> u64 \<Rightarrow> input_item list \<Rightarrow> input_pump \<Rightarrow> go_error option" where
  "can_enqueue_batch source epoch batch p = check_batch source epoch batch p"

definition pump_enqueue_batch ::
    "string \<Rightarrow> u64 \<Rightarrow> input_item list \<Rightarrow> input_pump \<Rightarrow> go_error option \<times> input_pump" where
  "pump_enqueue_batch source epoch batch p =
     (case check_batch source epoch batch p of
        Some e \<Rightarrow> (Some e, p)
      | None \<Rightarrow>
          (None, pump_signal (p\<lparr>
             ip_queue := ip_queue p @ map (\<lambda>i. i\<lparr>ii_generation := ip_generation p\<rparr>) batch,
             ip_bytes := ip_bytes p + item_bytes batch\<rparr>)))"

definition pump_enqueue :: "string \<Rightarrow> u64 \<Rightarrow> input_item \<Rightarrow> input_pump \<Rightarrow> go_error option \<times> input_pump" where
  "pump_enqueue source epoch item p = pump_enqueue_batch source epoch [item] p"

text \<open>\<open>seal\<close> takes effect once (\<^verbatim>\<open>sync.Once\<close>): the stop channel tells whether it has.\<close>

definition pump_seal :: "input_pump \<Rightarrow> input_pump" where
  "pump_seal p =
     (if ip_stop p then p
      else pump_signal (cancel_current
        ((discard_queued (p\<lparr>ip_closed := True, ip_mode := ModeObserve,
            ip_generation := ip_generation p + 1\<rparr>))\<lparr>ip_stop := True\<rparr>)))"

definition fail_locked :: "go_error \<Rightarrow> input_pump \<Rightarrow> input_pump" where
  "fail_locked e p =
     (let p1 = discard_queued (p\<lparr>ip_run_err := (case ip_run_err p of None \<Rightarrow> Some e | r \<Rightarrow> r),
                 ip_closed := True, ip_mode := ModeObserve, ip_generation := ip_generation p + 1\<rparr>)
      in p1\<lparr>ip_fail := (case ip_fail p1 of None \<Rightarrow> Some e | r \<Rightarrow> r)\<rparr>)"

definition finish_item :: "input_item \<Rightarrow> nat \<Rightarrow> input_outcome \<Rightarrow> input_pump \<Rightarrow> input_pump" where
  "finish_item item written outcome p =
     (let p1 = p\<lparr>ip_bytes := ip_bytes p - len (ii_data item)\<rparr>
      in if ip_bytes p1 < 0 then p1\<lparr>ip_panicked := True\<rparr>
         else p1\<lparr>ip_current := None,
                ip_settled := ip_settled p1 @ [\<lparr>is_item = item, is_written = written, is_outcome = outcome\<rparr>]\<rparr>)"

definition write_outcome :: "nat \<Rightarrow> nat \<Rightarrow> bool \<Rightarrow> input_outcome" where
  "write_outcome written wanted invalid =
     (if invalid then InputPartial
      else if written = wanted then InputWritten
      else if written = 0 then InputDropped
      else InputPartial)"

section \<open>The goroutine\<close>

text \<open>One pass of the inner loop up to its unlock: stop waiting, drop, or take the head.\<close>

definition pump_take :: "input_pump \<Rightarrow> input_pump" where
  "pump_take p =
     (if ip_closed p \<or> ip_queue p = [] then p\<lparr>ip_awake := False\<rparr>
      else
        let item = hd (ip_queue p); p1 = p\<lparr>ip_queue := tl (ip_queue p)\<rparr>
        in if ip_mode p1 \<noteq> ModeControl \<or> ii_generation item \<noteq> ip_generation p1
           then finish_item item 0 InputDropped p1
           else p1\<lparr>ip_current := Some \<lparr>iw_item = item, iw_generation = ip_generation p1,
                     iw_revoking = False, iw_cancelled = False, iw_calling = False, iw_written = 0, iw_invalid = False,
                     iw_err = None\<rparr>\<rparr>)"

text \<open>The head of the write loop: its context check, then the call.\<close>

definition write_check :: "input_write \<Rightarrow> input_write" where
  "write_check w =
     (if iw_cancelled w then w\<lparr>iw_err := Some (Sent ErrContextCanceled)\<rparr> else w\<lparr>iw_calling := True\<rparr>)"

text \<open>The return of \<^verbatim>\<open>WriteContext\<close> with \<open>n\<close> bytes and an error.\<close>

definition write_return :: "int \<Rightarrow> go_error option \<Rightarrow> input_write \<Rightarrow> input_write" where
  "write_return n err w =
     (let rest = len (ii_data (iw_item w)) - int (iw_written w);
          bad = (n < 0 \<or> n > rest);
          n1 = (if bad then 0 else nat n);
          err1 = (if bad then Some (Sent ErrMalformed) else err);
          err2 = (if err1 = None \<and> n1 = 0 then Some (Sent ErrNoProgress) else err1)
      in w\<lparr>iw_calling := False, iw_invalid := iw_invalid w \<or> bad, iw_written := iw_written w + n1,
           iw_err := err2\<rparr>)"

definition write_over :: "input_write \<Rightarrow> bool" where
  "write_over w \<longleftrightarrow> iw_err w \<noteq> None \<or> iw_written w \<ge> length (ii_data (iw_item w))"

definition pump_complete :: "input_write \<Rightarrow> input_pump \<Rightarrow> input_pump" where
  "pump_complete w p =
     (let revoked = (iw_cancelled w \<or> ip_closed p \<or> ip_mode p \<noteq> ModeControl \<or> ip_generation p \<noteq> iw_generation w);
          p1 = finish_item (iw_item w) (iw_written w)
                 (write_outcome (iw_written w) (length (ii_data (iw_item w))) (iw_invalid w)) p
      in case iw_err w of
           Some e \<Rightarrow> if \<not> revoked then (fail_locked e p1)\<lparr>ip_done := True\<rparr> else p1
         | None \<Rightarrow> p1)"

datatype pump_event =
    PumpSetMode mode
  | PumpEnqueue string u64 "input_item list"
  | PumpSeal
  | PumpCancel
  | PumpWake
  | PumpExit
  | PumpTake
  | PumpCheck
  | PumpReturn int "go_error option"
  | PumpComplete

text \<open>A step of the goroutine happens only where the goroutine is; elsewhere it changes nothing.\<close>

definition pump_step :: "input_pump \<Rightarrow> pump_event \<Rightarrow> input_pump" where
  "pump_step p e =
     (case e of
        PumpSetMode m \<Rightarrow> snd (pump_set_mode m p)
      | PumpEnqueue source epoch batch \<Rightarrow> snd (pump_enqueue_batch source epoch batch p)
      | PumpSeal \<Rightarrow> pump_seal p
      | PumpCancel \<Rightarrow>
          (case ip_current p of
             Some w \<Rightarrow> if iw_revoking w then p\<lparr>ip_current := Some (w\<lparr>iw_cancelled := True\<rparr>)\<rparr> else p
           | None \<Rightarrow> p)
      | PumpWake \<Rightarrow>
          if ip_wake p \<and> \<not> ip_awake p \<and> \<not> ip_done p then p\<lparr>ip_wake := False, ip_awake := True\<rparr> else p
      | PumpExit \<Rightarrow> if ip_stop p \<and> \<not> ip_awake p then p\<lparr>ip_done := True\<rparr> else p
      | PumpTake \<Rightarrow>
          if ip_awake p \<and> \<not> ip_done p \<and> ip_current p = None then pump_take p else p
      | PumpCheck \<Rightarrow>
          (case ip_current p of
             Some w \<Rightarrow> if \<not> iw_calling w \<and> \<not> write_over w then p\<lparr>ip_current := Some (write_check w)\<rparr> else p
           | None \<Rightarrow> p)
      | PumpReturn n err \<Rightarrow>
          (case ip_current p of
             Some w \<Rightarrow>
               if iw_calling w
               then p\<lparr>ip_current := Some (write_return n err w),
                      ip_pty := ip_pty p @ drop (iw_written w)
                        (take (iw_written (write_return n err w)) (ii_data (iw_item w)))\<rparr>
               else p
           | None \<Rightarrow> p)
      | PumpComplete \<Rightarrow>
          (case ip_current p of
             Some w \<Rightarrow> if \<not> iw_calling w \<and> write_over w then pump_complete w p else p
           | None \<Rightarrow> p))"

text \<open>\<open>sealAndStop\<close> seals, waits for the goroutine, closes the writer and joins the two errors.\<close>

definition seal_and_stop_result :: "go_error option \<Rightarrow> input_pump \<Rightarrow> go_error option" where
  "seal_and_stop_result close_err p = errors_join [ip_run_err p, close_err]"

section \<open>The account and the log\<close>

definition pending_items :: "input_pump \<Rightarrow> input_item list" where
  "pending_items p = (case ip_current p of None \<Rightarrow> [] | Some w \<Rightarrow> [iw_item w]) @ ip_queue p"

definition delivered :: "input_settle \<Rightarrow> bytes" where
  "delivered x = take (is_written x) (ii_data (is_item x))"

definition in_flight_bytes :: "input_pump \<Rightarrow> bytes" where
  "in_flight_bytes p =
     (case ip_current p of None \<Rightarrow> [] | Some w \<Rightarrow> take (iw_written w) (ii_data (iw_item w)))"

definition settle_honest :: "input_settle \<Rightarrow> bool" where
  "settle_honest x \<longleftrightarrow>
     (case is_outcome x of
        InputWritten \<Rightarrow> delivered x = ii_data (is_item x)
      | InputDropped \<Rightarrow> delivered x = []
      | InputPartial \<Rightarrow> True)"

definition account_ok :: "input_pump \<Rightarrow> bool" where
  "account_ok p \<longleftrightarrow>
     \<not> ip_panicked p \<and> ip_bytes p = item_bytes (pending_items p) \<and> ip_bytes p \<le> max_input_bytes
     \<and> length (ip_queue p) \<le> 64"

definition queue_ok :: "input_pump \<Rightarrow> bool" where
  "queue_ok p \<longleftrightarrow>
     (ip_closed p \<or> ip_mode p \<noteq> ModeControl \<longrightarrow> ip_queue p = [])
     \<and> list_all (\<lambda>i. ii_generation i = ip_generation p \<and> ii_data i \<noteq> []) (ip_queue p)
     \<and> (ip_queue p \<noteq> [] \<longrightarrow> ip_wake p \<or> ip_awake p)
     \<and> (ip_stop p \<or> ip_done p \<longrightarrow> ip_closed p)"

definition write_ok :: "input_pump \<Rightarrow> bool" where
  "write_ok p \<longleftrightarrow>
     (case ip_current p of
        None \<Rightarrow> True
      | Some w \<Rightarrow> ii_data (iw_item w) \<noteq> [] \<and> iw_written w \<le> length (ii_data (iw_item w)))
     \<and> list_all settle_honest (ip_settled p)
     \<and> ip_pty p = concat (map delivered (ip_settled p)) @ in_flight_bytes p"

definition pump_inv :: "input_pump \<Rightarrow> bool" where
  "pump_inv p \<longleftrightarrow> account_ok p \<and> queue_ok p \<and> write_ok p"

lemma item_bytes_simps [simp]:
  "item_bytes [] = 0" "item_bytes (i # is) = len (ii_data i) + item_bytes is"
  "item_bytes (is @ js) = item_bytes is + item_bytes js"
  "item_bytes (map (\<lambda>i. i\<lparr>ii_generation := g\<rparr>) is) = item_bytes is"
  by (simp_all add: item_bytes_def comp_def)

lemma item_bytes_nonneg: "0 \<le> item_bytes is"
  by (induction "is") simp_all

lemma discarded_honest:
  "list_all settle_honest (map (\<lambda>i. \<lparr>is_item = i, is_written = 0, is_outcome = InputDropped\<rparr>) is)"
  "concat (map delivered (map (\<lambda>i. \<lparr>is_item = i, is_written = 0, is_outcome = InputDropped\<rparr>) is)) = []"
  by (induction "is") (simp_all add: settle_honest_def delivered_def)

lemma discard_queued_inv:
  assumes "account_ok p" "write_ok p" "ip_stop p \<or> ip_done p \<longrightarrow> ip_closed p"
  shows "pump_inv (discard_queued p)"
  using assms discarded_honest [of "ip_queue p"] item_bytes_nonneg [of "ip_queue p"]
  by (simp add: pump_inv_def account_ok_def queue_ok_def write_ok_def discard_queued_def pending_items_def
      in_flight_bytes_def limit_defs)

lemma batch_size_ok:
  "batch_size n is = Inr m \<Longrightarrow> m = n + item_bytes is \<and> list_all (\<lambda>i. ii_data i \<noteq> []) is"
  by (induction n "is" rule: batch_size.induct) (auto split: if_splits)

lemma check_batch_ok:
  assumes "check_batch source epoch batch p = None"
  shows "\<not> ip_closed p" "ip_mode p = ModeControl" "list_all (\<lambda>i. ii_data i \<noteq> []) batch"
    "len batch + len (ip_queue p) \<le> 64" "ip_bytes p + item_bytes batch \<le> max_input_bytes"
  using assms batch_size_ok [of 0 batch]
  by (auto simp: check_batch_def limit_defs split: if_splits sum.splits)

lemma account_ok_cong:
  "ip_panicked p = ip_panicked q \<Longrightarrow> ip_bytes p = ip_bytes q \<Longrightarrow> ip_queue p = ip_queue q \<Longrightarrow>
   pending_items p = pending_items q \<Longrightarrow> account_ok p = account_ok q"
  by (simp add: account_ok_def)

lemma write_ok_cong:
  "ip_current p = ip_current q \<Longrightarrow> ip_settled p = ip_settled q \<Longrightarrow> ip_pty p = ip_pty q \<Longrightarrow> write_ok p = write_ok q"
  by (simp add: write_ok_def in_flight_bytes_def)

text \<open>Updates that leave the account, the queue or the log alone.\<close>

lemma pump_signal_inv [simp]: "pump_inv p \<Longrightarrow> pump_inv (pump_signal p)"
  by (auto simp: pump_inv_def account_ok_def queue_ok_def write_ok_def pump_signal_def pending_items_def
      in_flight_bytes_def)

lemma cancel_current_inv [simp]: "pump_inv p \<Longrightarrow> pump_inv (cancel_current p)"
  by (cases "ip_current p")
    (simp_all add: pump_inv_def account_ok_def queue_ok_def write_ok_def cancel_current_def pending_items_def
      in_flight_bytes_def)

lemma retire_inv:
  assumes "pump_inv p" "ip_closed p \<longrightarrow> c"
  shows "pump_inv (discard_queued (p\<lparr>ip_closed := c, ip_mode := m, ip_generation := g\<rparr>))"
  by (rule discard_queued_inv)
    (use assms in \<open>auto simp: pump_inv_def account_ok_def queue_ok_def write_ok_def pending_items_def
      in_flight_bytes_def\<close>)

lemma stop_inv: "pump_inv p \<Longrightarrow> ip_closed p \<Longrightarrow> pump_inv (p\<lparr>ip_stop := True\<rparr>)"
  by (auto simp: pump_inv_def account_ok_def queue_ok_def write_ok_def pending_items_def in_flight_bytes_def)

lemma set_mode_inv: "pump_inv p \<Longrightarrow> pump_inv (snd (pump_set_mode m p))"
proof -
  assume p: "pump_inv p"
  have "pump_inv (p\<lparr>ip_mode := ModeControl\<rparr>)" if "ip_mode p \<noteq> ModeControl \<longrightarrow> ip_queue p = []"
    using p by (auto simp: pump_inv_def account_ok_def queue_ok_def write_ok_def pending_items_def
        in_flight_bytes_def)
  moreover have "ip_mode p \<noteq> ModeControl \<longrightarrow> ip_queue p = []" using p by (simp add: pump_inv_def queue_ok_def)
  moreover have "pump_inv (discard_queued (p\<lparr>ip_mode := ModeObserve, ip_generation := g\<rparr>))" for g
    using retire_inv [OF p, where c = "ip_closed p" and m = ModeObserve and g = g] by simp
  ultimately show ?thesis using p by (simp add: pump_set_mode_def Let_def)
qed

lemma enqueue_inv:
  assumes "pump_inv p"
  shows "pump_inv (snd (pump_enqueue_batch source epoch batch p))"
proof (cases "check_batch source epoch batch p")
  case None
  note c = check_batch_ok [OF None]
  have l: "length (ip_queue p) + length batch \<le> 64" using c(4) by (simp add: len_def)
  have "list_all (\<lambda>i. ii_generation i = ip_generation p \<and> ii_data i \<noteq> [])
      (map (\<lambda>i. i\<lparr>ii_generation := ip_generation p\<rparr>) batch)"
    using c(3) by (simp add: list_all_iff)
  with c(1,2,5) l None assms show ?thesis
    by (simp add: pump_enqueue_batch_def pump_signal_def pump_inv_def account_ok_def queue_ok_def write_ok_def
        pending_items_def in_flight_bytes_def)
qed (use assms in \<open>simp add: pump_enqueue_batch_def\<close>)

lemma seal_inv: "pump_inv p \<Longrightarrow> pump_inv (pump_seal p)"
proof (cases "ip_stop p")
  case False
  assume p: "pump_inv p"
  let ?q = "discard_queued (p\<lparr>ip_closed := True, ip_mode := ModeObserve, ip_generation := ip_generation p + 1\<rparr>)"
  have "pump_inv ?q" by (rule retire_inv [OF p]) simp
  moreover have "ip_closed ?q" by (simp add: discard_queued_def)
  ultimately have "pump_inv (?q\<lparr>ip_stop := True\<rparr>)" by (rule stop_inv)
  then show ?thesis using False by (simp add: pump_seal_def)
qed (simp add: pump_seal_def)

lemma finish_item_inv:
  assumes "pump_inv p" "ip_current p = Some w" "write_over w"
  shows "pump_inv (finish_item (iw_item w) (iw_written w)
    (write_outcome (iw_written w) (length (ii_data (iw_item w))) (iw_invalid w)) p)"
proof -
  have "settle_honest \<lparr>is_item = iw_item w, is_written = iw_written w,
      is_outcome = write_outcome (iw_written w) (length (ii_data (iw_item w))) (iw_invalid w)\<rparr>"
    by (simp add: settle_honest_def write_outcome_def delivered_def)
  moreover have "item_bytes (ip_queue p) \<le> max_input_bytes"
    using assms(1,2) by (simp add: pump_inv_def account_ok_def pending_items_def len_def)
  ultimately show ?thesis using assms item_bytes_nonneg [of "ip_queue p"]
    by (auto simp add: finish_item_def Let_def pump_inv_def account_ok_def queue_ok_def write_ok_def
        pending_items_def in_flight_bytes_def delivered_def limit_defs)
qed

lemma fail_locked_inv:
  assumes "pump_inv p"
  shows "pump_inv (fail_locked e p)"
proof -
  have "pump_inv (p\<lparr>ip_run_err := r\<rparr>)" for r
    using assms by (simp add: pump_inv_def account_ok_def queue_ok_def write_ok_def pending_items_def
        in_flight_bytes_def)
  then have "pump_inv (discard_queued (p\<lparr>ip_run_err := r, ip_closed := True, ip_mode := ModeObserve,
      ip_generation := g\<rparr>))" for r g
    using retire_inv [of "p\<lparr>ip_run_err := r\<rparr>" True] by simp
  moreover have "pump_inv q \<Longrightarrow> pump_inv (q\<lparr>ip_fail := f\<rparr>)" for q f
    by (simp add: pump_inv_def account_ok_def queue_ok_def write_ok_def pending_items_def in_flight_bytes_def)
  ultimately show ?thesis by (simp add: fail_locked_def Let_def)
qed

lemma complete_inv:
  assumes "pump_inv p" "ip_current p = Some w" "write_over w"
  shows "pump_inv (pump_complete w p)"
proof -
  note f = finish_item_inv [OF assms]
  have "pump_inv ((fail_locked e q)\<lparr>ip_done := True\<rparr>)" if "pump_inv q" for e q
  proof -
    have "pump_inv (fail_locked e q)" by (rule fail_locked_inv [OF that])
    moreover have "ip_closed (fail_locked e q)" by (simp add: fail_locked_def Let_def discard_queued_def)
    ultimately show ?thesis
      by (auto simp: pump_inv_def account_ok_def queue_ok_def write_ok_def pending_items_def in_flight_bytes_def)
  qed
  with f show ?thesis by (simp add: pump_complete_def Let_def split: option.split)
qed

text \<open>The generation check at the head of the queue never drops anything.\<close>

lemma take_inv:
  assumes "pump_inv p" "ip_current p = None"
  shows "pump_inv (pump_take p)"
proof (cases "ip_closed p \<or> ip_queue p = []")
  case True
  then have "ip_queue p = []" using assms by (auto simp: pump_inv_def queue_ok_def)
  with True assms show ?thesis
    by (auto simp: pump_take_def pump_inv_def account_ok_def queue_ok_def write_ok_def pending_items_def
        in_flight_bytes_def)
next
  case False
  then obtain i rest where q: "ip_queue p = i # rest" by (cases "ip_queue p") auto
  have "ip_mode p = ModeControl" "ii_generation i = ip_generation p" "ii_data i \<noteq> []" "ip_wake p \<or> ip_awake p"
    using assms q by (auto simp: pump_inv_def queue_ok_def)
  with False assms q show ?thesis
    by (simp add: pump_take_def Let_def pump_inv_def account_ok_def queue_ok_def write_ok_def pending_items_def
        in_flight_bytes_def)
qed

lemma current_inv:
  assumes "pump_inv p" "ip_current p = Some w" "iw_item w' = iw_item w" "iw_written w' = iw_written w"
  shows "pump_inv (p\<lparr>ip_current := Some w'\<rparr>)"
  using assms
  by (simp add: pump_inv_def account_ok_def queue_ok_def write_ok_def pending_items_def in_flight_bytes_def)

lemma write_return_bounds:
  assumes "iw_written w \<le> length (ii_data (iw_item w))"
  shows "iw_item (write_return n err w) = iw_item w"
    "iw_written w \<le> iw_written (write_return n err w)"
    "iw_written (write_return n err w) \<le> length (ii_data (iw_item w))"
  using assms by (auto simp: write_return_def Let_def len_def)

lemma take_drop_grow:
  "m \<le> n \<Longrightarrow> take m xs @ drop m (take n xs) = take n xs"
  by (metis append_take_drop_id take_take min.absorb1)

lemma return_inv:
  assumes "pump_inv p" "ip_current p = Some w"
  shows "pump_inv (p\<lparr>ip_current := Some (write_return n err w),
    ip_pty := ip_pty p @ drop (iw_written w) (take (iw_written (write_return n err w)) (ii_data (iw_item w)))\<rparr>)"
proof -
  have "iw_written w \<le> length (ii_data (iw_item w))"
    using assms by (simp add: pump_inv_def write_ok_def)
  note b = write_return_bounds [OF this, of n err]
  from assms b take_drop_grow [OF b(2), of "ii_data (iw_item w)"] show ?thesis
    by (simp add: pump_inv_def account_ok_def queue_ok_def write_ok_def pending_items_def in_flight_bytes_def)
qed

lemma wake_inv:
  "pump_inv p \<Longrightarrow> pump_inv (p\<lparr>ip_wake := False, ip_awake := True\<rparr>)"
  "pump_inv p \<Longrightarrow> ip_stop p \<Longrightarrow> pump_inv (p\<lparr>ip_done := True\<rparr>)"
  by (auto simp: pump_inv_def account_ok_def queue_ok_def write_ok_def pending_items_def in_flight_bytes_def)

lemma pump_step_inv:
  assumes "pump_inv p"
  shows "pump_inv (pump_step p e)"
proof (cases e)
  case (PumpReturn n err)
  with assms return_inv show ?thesis by (simp add: pump_step_def split: option.split)
next
  case PumpCancel
  with assms current_inv [OF assms] show ?thesis by (simp add: pump_step_def split: option.split)
next
  case PumpCheck
  with assms current_inv [OF assms] show ?thesis
    by (simp add: pump_step_def write_check_def split: option.split)
qed (use assms set_mode_inv enqueue_inv seal_inv take_inv complete_inv wake_inv in
  \<open>simp_all add: pump_step_def split: option.split\<close>)

lemma new_pump_inv: "new_input_pump s e = Inr p \<Longrightarrow> pump_inv p"
  by (auto simp: new_input_pump_def pump_inv_def account_ok_def queue_ok_def write_ok_def pending_items_def
      in_flight_bytes_def limit_defs split: if_splits)

section \<open>Every admitted item is settled once, in order\<close>

definition pump_admits :: "input_pump \<Rightarrow> pump_event \<Rightarrow> input_item list" where
  "pump_admits p e =
     (case e of
        PumpEnqueue source epoch batch \<Rightarrow>
          (if check_batch source epoch batch p = None
           then map (\<lambda>i. i\<lparr>ii_generation := ip_generation p\<rparr>) batch else [])
      | _ \<Rightarrow> [])"

fun pump_admitted :: "input_pump \<Rightarrow> pump_event list \<Rightarrow> input_item list" where
  "pump_admitted p [] = []"
| "pump_admitted p (e # es) = pump_admits p e @ pump_admitted (pump_step p e) es"

definition took :: "input_settle \<Rightarrow> bool" where
  "took x \<longleftrightarrow> delivered x \<noteq> []"

text \<open>
  From \<open>p\<close> to \<open>q\<close>, with \<open>new\<close> admitted on the way: the new settlements and what is still pending
  are exactly what was pending or new, and those the PTY took bytes of keep their order.
\<close>

definition progress :: "input_pump \<Rightarrow> input_pump \<Rightarrow> input_item list \<Rightarrow> bool" where
  "progress p q new \<longleftrightarrow>
     (\<exists>xs. ip_settled q = ip_settled p @ xs
       \<and> mset (map is_item xs) + mset (pending_items q) = mset (pending_items p @ new)
       \<and> subseq (map is_item (filter took xs) @ pending_items q) (pending_items p @ new))"

lemma pending_updates [simp]:
  "pending_items (p\<lparr>ip_mode := m\<rparr>) = pending_items p"
  "pending_items (p\<lparr>ip_generation := g\<rparr>) = pending_items p"
  "pending_items (p\<lparr>ip_closed := c\<rparr>) = pending_items p"
  "pending_items (p\<lparr>ip_run_err := r\<rparr>) = pending_items p"
  "pending_items (p\<lparr>ip_fail := r\<rparr>) = pending_items p"
  "pending_items (p\<lparr>ip_stop := c\<rparr>) = pending_items p"
  "pending_items (p\<lparr>ip_done := c\<rparr>) = pending_items p"
  "pending_items (p\<lparr>ip_wake := c\<rparr>) = pending_items p"
  "pending_items (p\<lparr>ip_awake := c\<rparr>) = pending_items p"
  by (simp_all add: pending_items_def)

lemma progress_keep:
  "ip_settled q = ip_settled p \<Longrightarrow> pending_items q = pending_items p @ new \<Longrightarrow> progress p q new"
  by (simp add: progress_def)

lemma progress_trans:
  assumes "progress p q n1" "progress q r n2"
  shows "progress p r (n1 @ n2)"
proof -
  obtain xs where xs: "ip_settled q = ip_settled p @ xs"
    "mset (map is_item xs) + mset (pending_items q) = mset (pending_items p @ n1)"
    "subseq (map is_item (filter took xs) @ pending_items q) (pending_items p @ n1)"
    using assms(1) by (auto simp: progress_def)
  obtain ys where ys: "ip_settled r = ip_settled q @ ys"
    "mset (map is_item ys) + mset (pending_items r) = mset (pending_items q @ n2)"
    "subseq (map is_item (filter took ys) @ pending_items r) (pending_items q @ n2)"
    using assms(2) by (auto simp: progress_def)
  have "subseq (map is_item (filter took xs) @ map is_item (filter took ys) @ pending_items r)
      (map is_item (filter took xs) @ pending_items q @ n2)"
    by (rule list_emb_append_mono [OF _ ys(3)]) simp
  moreover have "subseq ((map is_item (filter took xs) @ pending_items q) @ n2) ((pending_items p @ n1) @ n2)"
    by (rule list_emb_append_mono [OF xs(3)]) simp
  ultimately have "subseq (map is_item (filter took (xs @ ys)) @ pending_items r) (pending_items p @ n1 @ n2)"
    using subseq_order.trans by (simp only: filter_append map_append append_assoc)
  moreover have "mset (map is_item (xs @ ys)) + mset (pending_items r) = mset (pending_items p @ n1 @ n2)"
    using xs(2) ys(2) by (simp add: ac_simps) (metis add.assoc add.commute)
  ultimately show ?thesis using xs(1) ys(1) unfolding progress_def by (intro exI [of _ "xs @ ys"]) simp
qed

lemma discarded_not_taken:
  "filter took (map (\<lambda>i. \<lparr>is_item = i, is_written = 0, is_outcome = InputDropped\<rparr>) is) = []"
  by (induction "is") (simp_all add: took_def delivered_def)

lemma progress_discard: "progress p (discard_queued p) []"
  unfolding progress_def
  by (rule exI [of _ "map (\<lambda>i. \<lparr>is_item = i, is_written = 0, is_outcome = InputDropped\<rparr>) (ip_queue p)"])
    (simp add: discard_queued_def pending_items_def discarded_not_taken comp_def prefix_imp_subseq)

text \<open>Fields other than the queue, the write in progress and the log do not matter.\<close>

lemma progress_cong:
  assumes "progress p q new"
    and "ip_settled p' = ip_settled p" "pending_items p' = pending_items p"
    and "ip_settled q' = ip_settled q" "pending_items q' = pending_items q"
  shows "progress p' q' new"
  using assms by (simp add: progress_def)

lemma pending_cancel [simp]: "pending_items (cancel_current p) = pending_items p"
  by (cases "ip_current p") (simp_all add: pending_items_def cancel_current_def)

lemma settled_simps [simp]:
  "ip_settled (cancel_current p) = ip_settled p" "ip_settled (pump_signal p) = ip_settled p"
  "pending_items (pump_signal p) = pending_items p"
  by (simp_all add: cancel_current_def pump_signal_def pending_items_def)

lemma progress_retire:
  "ip_settled r = ip_settled p \<Longrightarrow> pending_items r = pending_items p \<Longrightarrow> progress p (discard_queued r) []"
  by (rule progress_cong [OF progress_discard [of r]]) simp_all

lemma progress_set_mode: "progress p (snd (pump_set_mode m p)) []"
proof -
  have keep: "progress p (pump_signal (p\<lparr>ip_mode := m\<rparr>)) []"
    by (rule progress_keep) simp_all
  have "progress p (discard_queued (p\<lparr>ip_mode := m, ip_generation := g\<rparr>)) []" for g
    by (rule progress_retire) simp_all
  then have "progress p (pump_signal (cancel_current (discard_queued (p\<lparr>ip_mode := m, ip_generation := g\<rparr>)))) []" for g
    by (rule progress_cong) simp_all
  with keep progress_keep [of p p "[]"] show ?thesis
    by (cases m) (simp_all add: pump_set_mode_def Let_def)
qed

lemma progress_seal: "progress p (pump_seal p) []"
proof -
  let ?r = "p\<lparr>ip_closed := True, ip_mode := ModeObserve, ip_generation := ip_generation p + 1\<rparr>"
  have "progress p (discard_queued ?r) []" by (rule progress_retire) simp_all
  then have "progress p (pump_signal (cancel_current ((discard_queued ?r)\<lparr>ip_stop := True\<rparr>))) []"
    by (rule progress_cong) simp_all
  then show ?thesis using progress_keep [of p p "[]"] by (simp add: pump_seal_def)
qed

lemma progress_enqueue:
  "progress p (snd (pump_enqueue_batch source epoch batch p)) (pump_admits p (PumpEnqueue source epoch batch))"
  by (cases "check_batch source epoch batch p")
    (auto simp: pump_enqueue_batch_def pump_admits_def pending_items_def pump_signal_def intro!: progress_keep)

lemma progress_take:
  assumes "pump_inv p" "ip_current p = None"
  shows "progress p (pump_take p) []"
proof (cases "ip_closed p \<or> ip_queue p = []")
  case True
  then show ?thesis by (intro progress_keep) (simp_all add: pump_take_def pending_items_def)
next
  case False
  then obtain i rest where q: "ip_queue p = i # rest" by (cases "ip_queue p") auto
  have "ip_mode p = ModeControl" "ii_generation i = ip_generation p"
    using assms q by (auto simp: pump_inv_def queue_ok_def)
  with False assms q show ?thesis
    by (intro progress_keep) (simp_all add: pump_take_def Let_def pending_items_def)
qed

lemma progress_finish:
  assumes "pump_inv p" "ip_current p = Some w"
  shows "progress p (finish_item (iw_item w) n out p) []"
proof -
  let ?x = "\<lparr>is_item = iw_item w, is_written = n, is_outcome = out\<rparr>"
  have "\<not> ip_bytes p - len (ii_data (iw_item w)) < 0"
    using assms item_bytes_nonneg [of "ip_queue p"]
    by (simp add: pump_inv_def account_ok_def pending_items_def)
  with assms(2) show ?thesis unfolding progress_def
    by (intro exI [of _ "[?x]"]) (simp add: finish_item_def Let_def pending_items_def list_emb_Cons)
qed

lemma progress_complete:
  assumes "pump_inv p" "ip_current p = Some w"
  shows "progress p (pump_complete w p) []"
proof -
  let ?q = "finish_item (iw_item w) (iw_written w)
    (write_outcome (iw_written w) (length (ii_data (iw_item w))) (iw_invalid w)) p"
  have "progress ?q ((fail_locked e ?q)\<lparr>ip_done := True\<rparr>) []" for e
  proof -
    have "progress ?q (discard_queued (?q\<lparr>ip_run_err := r, ip_closed := True, ip_mode := ModeObserve,
        ip_generation := g\<rparr>)) []" for r g
      by (rule progress_retire) simp_all
    then show ?thesis
      unfolding fail_locked_def Let_def by (rule progress_cong) simp_all
  qed
  with progress_finish [OF assms] progress_trans [of p ?q "[]" _ "[]"] show ?thesis
    by (simp add: pump_complete_def Let_def split: option.split)
qed

lemma progress_step:
  assumes "pump_inv p"
  shows "progress p (pump_step p e) (pump_admits p e)"
proof (cases e)
  case PumpTake
  then show ?thesis using progress_take [OF assms] progress_keep [of p p "[]"]
    by (simp add: pump_step_def pump_admits_def)
next
  case PumpComplete
  then show ?thesis using progress_complete [OF assms] progress_keep [of p p "[]"]
    by (simp add: pump_step_def pump_admits_def split: option.split)
next
  case (PumpReturn n err)
  have "progress p (p\<lparr>ip_current := Some (write_return n err w), ip_pty := b\<rparr>) []"
    if "ip_current p = Some w" for w b
    using that by (intro progress_keep) (simp_all add: pending_items_def write_return_def Let_def)
  with PumpReturn show ?thesis using progress_keep [of p p "[]"]
    by (simp add: pump_step_def pump_admits_def split: option.split)
next
  case PumpCheck
  have "progress p (p\<lparr>ip_current := Some (write_check w)\<rparr>) []" if "ip_current p = Some w" for w
    using that by (intro progress_keep) (simp_all add: pending_items_def write_check_def)
  with PumpCheck show ?thesis using progress_keep [of p p "[]"]
    by (simp add: pump_step_def pump_admits_def split: option.split)
next
  case PumpCancel
  have "progress p (p\<lparr>ip_current := Some (w\<lparr>iw_cancelled := True\<rparr>)\<rparr>) []" if "ip_current p = Some w" for w
    using that by (intro progress_keep) (simp_all add: pending_items_def)
  with PumpCancel show ?thesis using progress_keep [of p p "[]"]
    by (simp add: pump_step_def pump_admits_def split: option.split)
next
  case (PumpEnqueue source epoch batch)
  then show ?thesis using progress_enqueue [of p source epoch batch] by (simp add: pump_step_def)
next
  case (PumpSetMode m)
  then show ?thesis using progress_set_mode [of p m] by (simp add: pump_step_def pump_admits_def)
next
  case PumpSeal
  then show ?thesis using progress_seal [of p] by (simp add: pump_step_def pump_admits_def)
qed (auto simp: pump_step_def pump_admits_def pending_items_def intro!: progress_keep)

interpretation pump: invariant_machine pump_step pump_inv
  by unfold_locales (rule pump_step_inv)

lemma progress_run:
  "pump_inv p \<Longrightarrow> progress p (foldl pump_step p es) (pump_admitted p es)"
proof (induction es arbitrary: p)
  case Nil
  then show ?case by (simp add: progress_keep)
next
  case (Cons e es)
  from progress_trans [OF progress_step [OF Cons.prems] Cons.IH [OF pump_step_inv [OF Cons.prems]]]
  show ?case by simp
qed

text \<open>
  C12: Every admitted INPUT item is settled exactly once: after any run of the pump, the settled
  items and those still pending are exactly the admitted ones; an item reported written reached the
  PTY in full and one reported dropped not at all; the byte account equals the bytes of the pending
  items, never exceeds its cap, and never goes negative.
\<close>

theorem input_settled_exactly_once:
  assumes "new_input_pump s0 e0 = Inr p0" "p = foldl pump_step p0 es"
  shows "mset (map is_item (ip_settled p)) + mset (pending_items p) = mset (pump_admitted p0 es)
    \<and> list_all settle_honest (ip_settled p)
    \<and> ip_bytes p = item_bytes (pending_items p) \<and> ip_bytes p \<le> max_input_bytes \<and> \<not> ip_panicked p"
proof -
  have new: "ip_settled p0 = []" "pending_items p0 = []" "pump_inv p0"
    using assms(1) new_pump_inv [OF assms(1)]
    by (auto simp: new_input_pump_def pending_items_def split: if_splits)
  from progress_run [OF new(3), of es] new(1,2)
  have "mset (map is_item (ip_settled p)) + mset (pending_items p) = mset (pump_admitted p0 es)"
    by (auto simp: progress_def assms(2))
  moreover have "pump_inv p" unfolding assms(2) by (rule pump.run_inv [OF new(3)])
  ultimately show ?thesis by (simp add: pump_inv_def account_ok_def write_ok_def)
qed

text \<open>
  C13: The PTY receives input in order and nothing else: its bytes are those delivered of the
  settled items, one after the other, then those written so far of the item in progress; and the
  items it took bytes of, followed by the pending ones, are in the order of admission.
\<close>

theorem input_delivered_in_order:
  assumes "new_input_pump s0 e0 = Inr p0" "p = foldl pump_step p0 es"
  shows "ip_pty p = concat (map delivered (filter took (ip_settled p))) @ in_flight_bytes p
    \<and> subseq (map is_item (filter took (ip_settled p)) @ pending_items p) (pump_admitted p0 es)"
proof -
  have new: "ip_settled p0 = []" "pending_items p0 = []" "pump_inv p0"
    using assms(1) new_pump_inv [OF assms(1)]
    by (auto simp: new_input_pump_def pending_items_def split: if_splits)
  have "pump_inv p" unfolding assms(2) by (rule pump.run_inv [OF new(3)])
  moreover have "concat (map delivered xs) = concat (map delivered (filter took xs))" for xs
    by (induction xs) (simp_all add: took_def)
  ultimately show ?thesis using progress_run [OF new(3), of es] new(1,2)
    by (auto simp: progress_def assms(2) pump_inv_def write_ok_def)
qed

section \<open>Revocation\<close>

text \<open>No input admitted and no write call outstanding or about to be made.\<close>

definition pump_quiet :: "input_pump \<Rightarrow> bool" where
  "pump_quiet p \<longleftrightarrow>
     ip_mode p \<noteq> ModeControl \<and> ip_queue p = []
     \<and> (case ip_current p of None \<Rightarrow> True | Some w \<Rightarrow> iw_cancelled w \<and> \<not> iw_calling w)"

definition revoked_step :: "input_pump \<Rightarrow> pump_event \<Rightarrow> input_pump" where
  "revoked_step p e = (if e = PumpSetMode ModeControl then p else pump_step p e)"

lemma quiet_current:
  "pump_quiet p \<Longrightarrow> ip_current p = Some w \<Longrightarrow> iw_cancelled w \<and> \<not> iw_calling w"
  by (simp add: pump_quiet_def)

lemma quiet_fail: "ip_queue q = [] \<Longrightarrow> ip_current q = None \<Longrightarrow>
  pump_quiet ((fail_locked e q)\<lparr>ip_done := True\<rparr>) \<and> ip_pty ((fail_locked e q)\<lparr>ip_done := True\<rparr>) = ip_pty q"
  by (simp add: fail_locked_def discard_queued_def pump_quiet_def Let_def)

lemma quiet_complete:
  assumes "pump_quiet p" "ip_current p = Some w"
  shows "pump_quiet (pump_complete w p) \<and> ip_pty (pump_complete w p) = ip_pty p"
  using assms quiet_current [OF assms]
  by (simp add: pump_complete_def Let_def finish_item_def pump_quiet_def split: option.split)

lemma quiet_set_mode:
  assumes "pump_quiet p" "m \<noteq> ModeControl"
  shows "pump_quiet (snd (pump_set_mode m p)) \<and> ip_pty (snd (pump_set_mode m p)) = ip_pty p"
  using assms
  by (cases "ip_current p")
    (simp_all add: pump_set_mode_def Let_def pump_signal_def cancel_current_def discard_queued_def pump_quiet_def)

lemma quiet_seal: "pump_quiet p \<Longrightarrow> pump_quiet (pump_seal p) \<and> ip_pty (pump_seal p) = ip_pty p"
  by (cases "ip_current p")
    (simp_all add: pump_seal_def pump_signal_def cancel_current_def discard_queued_def pump_quiet_def)

lemma quiet_step:
  assumes "pump_quiet p"
  shows "pump_quiet (revoked_step p e) \<and> ip_pty (revoked_step p e) = ip_pty p"
proof (cases e)
  case (PumpSetMode m)
  with assms quiet_set_mode show ?thesis by (simp add: revoked_step_def pump_step_def)
next
  case (PumpEnqueue source epoch batch)
  have "check_batch source epoch batch p \<noteq> None"
    using assms check_batch_ok(2) [of source epoch batch p] by (auto simp: pump_quiet_def)
  with PumpEnqueue assms show ?thesis
    by (auto simp: revoked_step_def pump_step_def pump_enqueue_batch_def)
next
  case PumpTake
  with assms show ?thesis by (simp add: revoked_step_def pump_step_def pump_take_def pump_quiet_def)
next
  case PumpComplete
  with assms quiet_complete show ?thesis by (simp add: revoked_step_def pump_step_def split: option.split)
next
  case (PumpReturn n err)
  with assms quiet_current [OF assms] show ?thesis
    by (simp add: revoked_step_def pump_step_def split: option.split)
next
  case PumpCheck
  with assms show ?thesis
    by (cases "ip_current p") (simp_all add: revoked_step_def pump_step_def write_check_def pump_quiet_def)
next
  case PumpCancel
  with assms show ?thesis
    by (cases "ip_current p") (simp_all add: revoked_step_def pump_step_def pump_quiet_def)
next
  case PumpSeal
  with assms quiet_seal show ?thesis by (simp add: revoked_step_def pump_step_def)
qed (use assms in \<open>simp_all add: revoked_step_def pump_step_def pump_quiet_def\<close>)

interpretation revoked: frozen_machine revoked_step pump_quiet ip_pty
  by unfold_locales (use quiet_step in blast)+

lemma revoked_run:
  "PumpSetMode ModeControl \<notin> set es \<Longrightarrow> foldl revoked_step p es = foldl pump_step p es"
  by (induction es arbitrary: p) (auto simp: revoked_step_def)

lemma revoke_quiet:
  assumes "\<not> ip_closed p" "\<not> ip_stop p" "case ip_current p of None \<Rightarrow> True | Some w \<Rightarrow> \<not> iw_calling w"
    and "r = PumpSetMode ModeObserve \<or> r = PumpSeal"
  shows "pump_quiet (pump_step (pump_step p r) PumpCancel)
    \<and> ip_pty (pump_step (pump_step p r) PumpCancel) = ip_pty p"
  using assms
  by (cases "ip_current p")
    (auto simp: pump_step_def pump_set_mode_def pump_seal_def Let_def pump_signal_def cancel_current_def
      discard_queued_def pump_quiet_def)

text \<open>
  C14: Revocation takes effect: once a running pump was switched to observe or sealed, its cancel
  function called, and no write call was outstanding, not one more byte reaches the PTY until
  control is granted again, whatever is enqueued, woken, completed or returned meanwhile.
\<close>

theorem revoked_input_never_written:
  assumes "\<not> ip_closed p" "\<not> ip_stop p" "case ip_current p of None \<Rightarrow> True | Some w \<Rightarrow> \<not> iw_calling w"
    and "r = PumpSetMode ModeObserve \<or> r = PumpSeal" "PumpSetMode ModeControl \<notin> set es"
  shows "ip_pty (foldl pump_step p (r # PumpCancel # es)) = ip_pty p"
  using revoke_quiet [OF assms(1-4)] revoked.run_view [of "pump_step (pump_step p r) PumpCancel" es]
    revoked_run [OF assms(5)] by simp

section \<open>A concrete pump\<close>

definition sample_item :: "u64 \<Rightarrow> bytes \<Rightarrow> input_item" where
  "sample_item i d = \<lparr>ii_data = d, ii_id = i, ii_generation = 0\<rparr>"

definition sample_typing :: "pump_event list" where
  "sample_typing =
     [PumpSetMode ModeControl, PumpEnqueue ''s'' 1 [sample_item 1 ''ls'', sample_item 2 ''x''],
      PumpWake, PumpTake, PumpCheck, PumpReturn 1 None, PumpCheck]"

definition sample_pump :: input_pump where
  "sample_pump = \<lparr>ip_source = ''s'', ip_epoch = 1, ip_queue = [], ip_closed = False,
     ip_mode = ModeObserve, ip_generation = 1, ip_bytes = 0, ip_current = None,
     ip_run_err = None, ip_fail = None, ip_stop = False, ip_wake = False, ip_awake = False,
     ip_done = False, ip_panicked = False, ip_settled = [], ip_pty = []\<rparr>"

lemma sample_pump_new: "new_input_pump ''s'' 1 = Inr sample_pump"
  by (simp add: new_input_pump_def sample_pump_def)

theorem input_settled_exactly_once_witness:
  "ip_bytes (foldl pump_step sample_pump sample_typing) = 3
   \<and> length (pump_admitted sample_pump sample_typing) = 2"
proof -
  have "length (pump_admitted sample_pump sample_typing) = 2"
    "item_bytes (pending_items (foldl pump_step sample_pump sample_typing)) = 3"
    by code_simp+
  with input_settled_exactly_once [OF sample_pump_new refl, of sample_typing] show ?thesis by simp
qed

theorem input_delivered_in_order_witness:
  "ip_pty (foldl pump_step sample_pump sample_typing) = ''l''"
proof -
  have "in_flight_bytes (foldl pump_step sample_pump sample_typing) = ''l''"
    "ip_settled (foldl pump_step sample_pump sample_typing) = []"
    by code_simp+
  with input_delivered_in_order [OF sample_pump_new refl, of sample_typing] show ?thesis by simp
qed

theorem revoked_input_never_written_witness:
  "ip_pty (foldl pump_step sample_pump
     (PumpSetMode ModeObserve # PumpCancel # [PumpEnqueue ''s'' 1 [sample_item 1 ''ls'']])) = []"
proof -
  have s: "\<not> ip_closed sample_pump" "\<not> ip_stop sample_pump" "ip_current sample_pump = None" "ip_pty sample_pump = []"
    by (simp_all add: sample_pump_def new_input_pump_def)
  then have "case ip_current sample_pump of None \<Rightarrow> True | Some w \<Rightarrow> \<not> iw_calling w" by simp
  from revoked_input_never_written [OF s(1,2) this, of "PumpSetMode ModeObserve"
      "[PumpEnqueue ''s'' 1 [sample_item 1 ''ls'']]"] s(4)
  show ?thesis by simp
qed

end
