(* ===== verification/Egress_Queue.thy ===== *)
theory Egress_Queue
  imports Frame_Json
begin

text \<open>
  The attachment's sender, \<^verbatim>\<open>internal/terminal/egress.go\<close>: a bounded FIFO of encoded frames
  and the goroutine that writes them. Each locked section and each step of the goroutine between two
  of them is a step of the model; the frame writer's answers come with the step, and \<open>eg_sent\<close> is
  the list of payloads it accepted.
\<close>

record egress =
  eg_owns_output :: bool
  eg_queue :: "bytes list"
  eg_queued_bytes :: int
  eg_writing :: "bytes option"
  eg_closed :: bool
  eg_closing :: bool
  eg_write_err :: "go_error option"
  eg_drain_err :: "go_error option"
  eg_final :: "go_error option option"
  eg_fail :: "go_error option"
  eg_wake :: bool
  eg_awake :: bool
  eg_stopped :: bool
  eg_write_cancelled :: bool
  eg_sent :: "bytes list"

definition new_egress :: "bool \<Rightarrow> int \<Rightarrow> go_error + egress" where
  "new_egress owns_output drain_bound =
     (if drain_bound \<le> 0 then Inl (Sent ErrMalformed)
      else Inr \<lparr>eg_owns_output = owns_output, eg_queue = [], eg_queued_bytes = 0, eg_writing = None,
                eg_closed = False, eg_closing = False, eg_write_err = None, eg_drain_err = None,
                eg_final = None, eg_fail = None, eg_wake = False, eg_awake = False, eg_stopped = False,
                eg_write_cancelled = False, eg_sent = []\<rparr>)"

definition egress_signal :: "egress \<Rightarrow> egress" where
  "egress_signal e = e\<lparr>eg_wake := True\<rparr>"

text \<open>The first loop of \<open>enqueueBatch\<close>: validate each frame, skip what the writer supplies itself.\<close>

fun encode_batch :: "bool \<Rightarrow> frame list \<Rightarrow> go_error + bytes list" where
  "encode_batch owns [] = Inr []"
| "encode_batch owns (f # fs) =
     (case validate f of
        Some e \<Rightarrow> Inl e
      | None \<Rightarrow>
          (case encode_batch owns fs of
             Inl e \<Rightarrow> Inl e
           | Inr ps \<Rightarrow> Inr (if owns \<and> f_type f = FrameLive then ps else marshal_frame f # ps)))"

definition payload_bytes :: "bytes list \<Rightarrow> int" where
  "payload_bytes ps = sum_list (map len ps)"

definition frames_owned :: "egress \<Rightarrow> int" where
  "frames_owned e = len (eg_queue e) + (if eg_writing e \<noteq> None then 1 else 0)"

definition egress_enqueue_batch :: "frame list \<Rightarrow> egress \<Rightarrow> go_error option \<times> egress" where
  "egress_enqueue_batch frames e =
     (if frames = [] \<or> len frames > max_egress_frames then (Some (Sent ErrMalformed), e)
      else case encode_batch (eg_owns_output e) frames of
        Inl err \<Rightarrow> (Some err, e)
      | Inr ps \<Rightarrow>
          if eg_closed e then (Some (Sent ErrClosed), e)
          else if ps = [] then (None, e)
          else if payload_bytes ps > max_egress_queue_bytes - eg_queued_bytes e
                  \<or> frames_owned e + len ps > max_egress_frames
          then (Some (Sent ErrSaturated), e)
          else (None, egress_signal (e\<lparr>eg_queue := eg_queue e @ ps,
                  eg_queued_bytes := eg_queued_bytes e + payload_bytes ps\<rparr>)))"

definition egress_enqueue :: "frame \<Rightarrow> egress \<Rightarrow> go_error option \<times> egress" where
  "egress_enqueue f e = egress_enqueue_batch [f] e"

text \<open>
  \<open>finishAndWait\<close> in its parts: it closes the queue and wakes the sender, may reach its drain
  deadline, and after the sender stopped closes the writer and joins the errors.
\<close>

definition egress_finish :: "egress \<Rightarrow> egress" where
  "egress_finish e = egress_signal (e\<lparr>eg_closed := True, eg_closing := True\<rparr>)"

definition egress_drain_deadline :: "egress \<Rightarrow> egress" where
  "egress_drain_deadline e =
     (if eg_stopped e then e
      else e\<lparr>eg_drain_err := Some (ErrText ''egress drain deadline exceeded''), eg_write_cancelled := True\<rparr>)"

definition egress_final :: "go_error option \<Rightarrow> egress \<Rightarrow> egress" where
  "egress_final close_err e =
     (if eg_stopped e \<and> eg_final e = None
      then e\<lparr>eg_write_cancelled := True,
             eg_final := Some (errors_join [eg_write_err e, eg_drain_err e, close_err])\<rparr>
      else e)"

definition egress_take :: "egress \<Rightarrow> egress" where
  "egress_take e =
     (case eg_queue e of
        [] \<Rightarrow> if eg_closing e then e\<lparr>eg_stopped := True\<rparr> else e\<lparr>eg_awake := False\<rparr>
      | p # rest \<Rightarrow> e\<lparr>eg_queue := rest, eg_writing := Some p\<rparr>)"

text \<open>The locked section after \<^verbatim>\<open>WriteFrame\<close>, and the failure channel after it.\<close>

definition egress_written :: "go_error option \<Rightarrow> bytes \<Rightarrow> egress \<Rightarrow> egress" where
  "egress_written err p e =
     (let e1 = e\<lparr>eg_queued_bytes := eg_queued_bytes e - len p, eg_writing := None\<rparr>
      in case err of
           None \<Rightarrow> e1\<lparr>eg_sent := eg_sent e1 @ [p]\<rparr>
         | Some x \<Rightarrow>
             e1\<lparr>eg_write_err := Some x, eg_closed := True, eg_closing := True,
                eg_queued_bytes := eg_queued_bytes e1 - payload_bytes (eg_queue e1), eg_queue := [],
                eg_fail := (case eg_fail e1 of None \<Rightarrow> Some x | r \<Rightarrow> r), eg_stopped := True\<rparr>)"

datatype egress_event =
    EgressEnqueue "frame list"
  | EgressFinish
  | EgressDeadline
  | EgressWake
  | EgressTake
  | EgressWritten "go_error option"
  | EgressClose "go_error option"

definition egress_step :: "egress \<Rightarrow> egress_event \<Rightarrow> egress" where
  "egress_step e ev =
     (case ev of
        EgressEnqueue fs \<Rightarrow> snd (egress_enqueue_batch fs e)
      | EgressFinish \<Rightarrow> egress_finish e
      | EgressDeadline \<Rightarrow> egress_drain_deadline e
      | EgressWake \<Rightarrow>
          if eg_wake e \<and> \<not> eg_awake e \<and> \<not> eg_stopped e then e\<lparr>eg_wake := False, eg_awake := True\<rparr> else e
      | EgressTake \<Rightarrow>
          if eg_awake e \<and> eg_writing e = None \<and> \<not> eg_stopped e then egress_take e else e
      | EgressWritten err \<Rightarrow>
          (case eg_writing e of Some p \<Rightarrow> egress_written err p e | None \<Rightarrow> e)
      | EgressClose err \<Rightarrow> egress_final err e)"

section \<open>Invariant\<close>

definition egress_held :: "egress \<Rightarrow> bytes list" where
  "egress_held e = (case eg_writing e of None \<Rightarrow> [] | Some p \<Rightarrow> [p]) @ eg_queue e"

definition egress_inv :: "egress \<Rightarrow> bool" where
  "egress_inv e \<longleftrightarrow>
     eg_queued_bytes e = payload_bytes (egress_held e) \<and> eg_queued_bytes e \<le> max_egress_queue_bytes
     \<and> len (egress_held e) \<le> max_egress_frames
     \<and> (eg_queue e \<noteq> [] \<or> eg_closing e \<longrightarrow> eg_wake e \<or> eg_awake e \<or> eg_stopped e)
     \<and> (eg_stopped e \<longrightarrow> egress_held e = [] \<and> eg_closed e)
     \<and> (eg_writing e \<noteq> None \<longrightarrow> eg_awake e)
     \<and> (eg_write_err e \<noteq> None \<longrightarrow> eg_stopped e)
     \<and> eg_closing e = eg_closed e"

lemma payload_bytes_simps [simp]:
  "payload_bytes [] = 0" "payload_bytes (p # ps) = len p + payload_bytes ps"
  "payload_bytes (ps @ qs) = payload_bytes ps + payload_bytes qs"
  by (simp_all add: payload_bytes_def)

lemma payload_bytes_nonneg: "0 \<le> payload_bytes ps"
  by (induction ps) simp_all

lemma egress_enqueue_inv:
  assumes "egress_inv e"
  shows "egress_inv (snd (egress_enqueue_batch fs e))"
proof (cases "fs = [] \<or> len fs > max_egress_frames")
  case False
  show ?thesis
  proof (cases "encode_batch (eg_owns_output e) fs")
    case (Inr ps)
    with False assms show ?thesis
      by (cases "eg_writing e")
        (auto simp: egress_enqueue_batch_def egress_inv_def egress_signal_def egress_held_def frames_owned_def)
  qed (use False assms in \<open>simp add: egress_enqueue_batch_def\<close>)
qed (use assms in \<open>auto simp: egress_enqueue_batch_def\<close>)

lemma egress_take_inv:
  assumes "egress_inv e" "eg_awake e" "eg_writing e = None" "\<not> eg_stopped e"
  shows "egress_inv (egress_take e)"
  using assms by (cases "eg_queue e") (auto simp: egress_take_def egress_inv_def egress_held_def)

lemma egress_written_inv:
  assumes "egress_inv e" "eg_writing e = Some p"
  shows "egress_inv (egress_written err p e)"
proof -
  have "payload_bytes (eg_queue e) \<le> max_egress_queue_bytes" "len (eg_queue e) \<le> max_egress_frames"
    using assms by (simp_all add: egress_inv_def egress_held_def len_def)
  with assms show ?thesis
    by (cases err) (auto simp: egress_written_def egress_inv_def egress_held_def Let_def limit_defs)
qed

lemma egress_step_inv: "egress_inv e \<Longrightarrow> egress_inv (egress_step e ev)"
proof (cases ev)
  case (EgressEnqueue fs)
  then show "egress_inv e \<Longrightarrow> ?thesis" using egress_enqueue_inv by (simp add: egress_step_def)
next
  case EgressTake
  then show "egress_inv e \<Longrightarrow> ?thesis" using egress_take_inv by (simp add: egress_step_def)
next
  case (EgressWritten err)
  then show "egress_inv e \<Longrightarrow> ?thesis" using egress_written_inv
    by (simp add: egress_step_def split: option.split)
qed (auto simp: egress_step_def egress_finish_def egress_drain_deadline_def egress_final_def egress_signal_def
    egress_inv_def egress_held_def)

interpretation egress: invariant_machine egress_step egress_inv
  by unfold_locales (rule egress_step_inv)

lemma new_egress_inv: "new_egress owns d = Inr e \<Longrightarrow> egress_inv e"
  by (auto simp: new_egress_def egress_inv_def egress_held_def limit_defs split: if_splits)

section \<open>What was admitted is sent, in order\<close>

definition egress_admits :: "egress \<Rightarrow> egress_event \<Rightarrow> bytes list" where
  "egress_admits e ev =
     (case ev of
        EgressEnqueue fs \<Rightarrow>
          (case (egress_enqueue_batch fs e, encode_batch (eg_owns_output e) fs) of
             ((None, _), Inr ps) \<Rightarrow> ps
           | _ \<Rightarrow> [])
      | _ \<Rightarrow> [])"

fun egress_admitted :: "egress \<Rightarrow> egress_event list \<Rightarrow> bytes list" where
  "egress_admitted e [] = []"
| "egress_admitted e (ev # evs) = egress_admits e ev @ egress_admitted (egress_step e ev) evs"

text \<open>
  From \<open>e\<close> to \<open>e'\<close> with \<open>new\<close> admitted: without a write error everything is sent or held,
  in order; after one, what was sent is an initial part of what was admitted.
\<close>

definition egress_flow :: "egress \<Rightarrow> bytes list \<Rightarrow> egress \<Rightarrow> bool" where
  "egress_flow e new e' \<longleftrightarrow>
     (if eg_write_err e' = None
      then eg_write_err e = None \<and> eg_sent e' @ egress_held e' = eg_sent e @ egress_held e @ new
      else if eg_write_err e = None then new = [] \<and> (\<exists>lost. eg_sent e' @ lost = eg_sent e @ egress_held e)
      else new = [] \<and> eg_sent e' = eg_sent e)"

lemma egress_flow_same:
  "eg_write_err e' = eg_write_err e \<Longrightarrow> eg_sent e' = eg_sent e \<Longrightarrow> egress_held e' = egress_held e \<Longrightarrow>
   egress_flow e [] e'"
  by (auto simp: egress_flow_def)

lemma enqueue_closed: "eg_closed e \<Longrightarrow> fst (egress_enqueue_batch fs e) \<noteq> None"
  by (auto simp: egress_enqueue_batch_def split: sum.splits)

lemma enqueue_flow:
  assumes "egress_inv e"
  shows "egress_flow e (egress_admits e (EgressEnqueue fs)) (snd (egress_enqueue_batch fs e))"
proof (cases "fst (egress_enqueue_batch fs e)")
  case (Some x)
  then have "egress_admits e (EgressEnqueue fs) = []"
    by (cases "egress_enqueue_batch fs e") (simp add: egress_admits_def)
  moreover have "snd (egress_enqueue_batch fs e) = e" using Some
    by (cases "encode_batch (eg_owns_output e) fs") (auto simp: egress_enqueue_batch_def split: if_splits)
  ultimately show ?thesis by (simp add: egress_flow_same)
next
  case None
  then have open': "\<not> eg_closed e" using enqueue_closed by blast
  then have noerr: "eg_write_err e = None" using assms by (auto simp: egress_inv_def)
  obtain ps where ps: "encode_batch (eg_owns_output e) fs = Inr ps"
    using None by (auto simp: egress_enqueue_batch_def split: if_splits sum.splits)
  have "snd (egress_enqueue_batch fs e) = e \<and> ps = []
      \<or> eg_sent (snd (egress_enqueue_batch fs e)) = eg_sent e
        \<and> eg_write_err (snd (egress_enqueue_batch fs e)) = None
        \<and> egress_held (snd (egress_enqueue_batch fs e)) = egress_held e @ ps"
    using None ps open' noerr
    by (auto simp: egress_enqueue_batch_def egress_held_def egress_signal_def split: if_splits)
  moreover have "egress_admits e (EgressEnqueue fs) = ps"
    using None ps by (auto simp: egress_admits_def split: prod.split)
  ultimately show ?thesis using noerr by (auto simp: egress_flow_def)
qed

lemma written_flow:
  assumes "egress_inv e" "eg_writing e = Some p"
  shows "egress_flow e [] (egress_written err p e)"
proof -
  have "eg_write_err e = None" using assms by (auto simp: egress_inv_def egress_held_def)
  with assms(2) show ?thesis
    by (cases err) (auto simp: egress_flow_def egress_written_def egress_held_def Let_def)
qed

lemma egress_flow_step:
  assumes "egress_inv e"
  shows "egress_flow e (egress_admits e ev) (egress_step e ev)"
proof (cases ev)
  case (EgressEnqueue fs)
  with enqueue_flow [OF assms] show ?thesis by (simp add: egress_step_def)
next
  case (EgressWritten err)
  with written_flow [OF assms] show ?thesis
    by (simp add: egress_step_def egress_admits_def egress_flow_same split: option.split)
next
  case EgressTake
  then show ?thesis
    by (cases "eg_queue e")
      (auto simp: egress_step_def egress_admits_def egress_take_def egress_held_def intro!: egress_flow_same)
qed (auto simp: egress_step_def egress_admits_def egress_finish_def egress_drain_deadline_def egress_final_def
    egress_signal_def egress_held_def intro!: egress_flow_same)

lemma egress_admits_write_err:
  assumes "egress_inv e" "eg_write_err e \<noteq> None"
  shows "egress_admits e ev = []"
  using egress_flow_step [OF assms(1), of ev] assms(2)
  by (auto simp: egress_flow_def split: if_splits)

lemma egress_flow_trans:
  assumes "egress_flow e n1 e1" "egress_flow e1 n2 e2"
  shows "if eg_write_err e2 = None then egress_flow e (n1 @ n2) e2
    else eg_write_err e = None \<longrightarrow> (\<exists>lost. eg_sent e2 @ lost = eg_sent e @ egress_held e @ n1 @ n2)"
  using assms by (fastforce simp: egress_flow_def split: if_splits)

lemma egress_flow_run:
  assumes "egress_inv e" "eg_write_err e = None"
  shows "\<exists>lost. eg_sent (foldl egress_step e evs) @ egress_held (foldl egress_step e evs) @ lost
        = eg_sent e @ egress_held e @ egress_admitted e evs
      \<and> (eg_write_err (foldl egress_step e evs) = None \<longrightarrow> lost = [])"
  using assms
proof (induction evs arbitrary: e)
  case (Cons ev evs)
  note step = egress_flow_step [OF Cons.prems(1), of ev] and inv = egress_step_inv [OF Cons.prems(1), of ev]
  show ?case
  proof (cases "eg_write_err (egress_step e ev) = None")
    case True
    obtain lost where lost: "eg_sent (foldl egress_step (egress_step e ev) evs)
          @ egress_held (foldl egress_step (egress_step e ev) evs) @ lost
        = (eg_sent (egress_step e ev) @ egress_held (egress_step e ev)) @ egress_admitted (egress_step e ev) evs"
      "eg_write_err (foldl egress_step (egress_step e ev) evs) = None \<longrightarrow> lost = []"
      using Cons.IH [OF inv True] by auto
    have "eg_sent (egress_step e ev) @ egress_held (egress_step e ev)
        = eg_sent e @ egress_held e @ egress_admits e ev"
      using step True by (simp add: egress_flow_def)
    with lost show ?thesis by (intro exI [of _ lost]) simp
  next
    case False
    have rest: "eg_sent (foldl egress_step x es) = eg_sent x \<and> egress_admitted x es = []
        \<and> eg_write_err (foldl egress_step x es) \<noteq> None \<and> egress_inv (foldl egress_step x es)"
      if "egress_inv x" "eg_write_err x \<noteq> None" for x es
      using that
    proof (induction es arbitrary: x)
      case (Cons y es)
      have "eg_write_err (egress_step x y) \<noteq> None \<and> eg_sent (egress_step x y) = eg_sent x"
        using egress_flow_step [OF Cons.prems(1), of y] Cons.prems(2)
        by (auto simp: egress_flow_def split: if_splits)
      with Cons.IH [OF egress_step_inv [OF Cons.prems(1)]] egress_admits_write_err [OF Cons.prems] show ?case
        by simp
    qed simp
    note r = rest [OF inv False, of evs]
    then have "egress_held (foldl egress_step (egress_step e ev) evs) = []"
      by (auto simp: egress_inv_def)
    with r step False Cons.prems(2) show ?thesis by (auto simp: egress_flow_def)
  qed
qed simp

text \<open>
  C26: Frames leave in the order they were admitted and none is lost: over any run, the payloads the
  writer accepted, followed by those still held, are exactly the admitted ones, unless a write
  failed; then they are an initial part of them. The byte account is that of the held payloads and
  stays within its cap.
\<close>

theorem egress_sends_in_order:
  assumes "new_egress owns bound = Inr e0" "e = foldl egress_step e0 evs"
  shows "(\<exists>lost. egress_admitted e0 evs = eg_sent e @ egress_held e @ lost
           \<and> (if eg_write_err e = None then lost = [] else True))
    \<and> eg_queued_bytes e = payload_bytes (egress_held e) \<and> eg_queued_bytes e \<le> max_egress_queue_bytes"
proof -
  have new: "egress_inv e0" "eg_write_err e0 = None" "eg_sent e0 = []" "egress_held e0 = []"
    using assms(1) new_egress_inv [OF assms(1)] by (auto simp: new_egress_def egress_held_def split: if_splits)
  have "egress_inv e" unfolding assms(2) by (rule egress.run_inv [OF new(1)])
  then have "eg_queued_bytes e = payload_bytes (egress_held e)" "eg_queued_bytes e \<le> max_egress_queue_bytes"
    by (simp_all add: egress_inv_def)
  moreover obtain lost where "eg_sent e @ egress_held e @ lost = egress_admitted e0 evs"
    "eg_write_err e = None \<longrightarrow> lost = []"
    using egress_flow_run [OF new(1,2), of evs] new(3,4) unfolding assms(2) by auto
  ultimately show ?thesis by (intro conjI exI [of _ lost]) simp_all
qed

section \<open>Closing drains\<close>

text \<open>One turn of the sender against a writer that accepts what it is given.\<close>

definition egress_turn :: "egress \<Rightarrow> egress" where
  "egress_turn e = foldl egress_step e [EgressWake, EgressTake, EgressWritten None]"

lemma egress_turn_writing:
  "egress_inv e \<Longrightarrow> eg_writing e = Some p \<Longrightarrow> egress_turn e = egress_written None p e"
  by (auto simp: egress_turn_def egress_step_def egress_inv_def)

definition awake :: "egress \<Rightarrow> egress" where
  "awake e = (if eg_awake e then e else e\<lparr>eg_wake := False, eg_awake := True\<rparr>)"

lemma egress_turn_idle:
  assumes "egress_inv e" "eg_closing e" "\<not> eg_stopped e" "eg_writing e = None"
  shows "egress_turn e =
    (case eg_queue e of
       [] \<Rightarrow> (awake e)\<lparr>eg_stopped := True\<rparr>
     | p # rest \<Rightarrow> egress_written None p ((awake e)\<lparr>eg_queue := rest, eg_writing := Some p\<rparr>))"
proof -
  have "eg_wake e \<or> eg_awake e" using assms by (auto simp: egress_inv_def)
  then have w: "egress_step e EgressWake = awake e"
    using assms(3) by (auto simp: egress_step_def awake_def)
  have a: "eg_awake (awake e)" "eg_writing (awake e) = None" "\<not> eg_stopped (awake e)"
    "eg_queue (awake e) = eg_queue e" "eg_closing (awake e)"
    using assms by (simp_all add: awake_def)
  show ?thesis
    by (cases "eg_queue e") (simp_all add: egress_turn_def w, simp_all add: egress_step_def egress_take_def a)
qed

lemma egress_turn_measure:
  assumes "egress_inv e" "eg_closing e" "\<not> eg_stopped e"
  shows "if egress_held e = [] then eg_stopped (egress_turn e)
    else length (egress_held (egress_turn e)) < length (egress_held e)
      \<and> eg_closing (egress_turn e) \<and> \<not> eg_stopped (egress_turn e)"
proof (cases "eg_writing e")
  case None
  with assms show ?thesis
    by (cases "eg_queue e")
      (simp_all add: egress_turn_idle egress_held_def egress_written_def awake_def Let_def)
next
  case (Some p)
  with assms show ?thesis
    by (simp add: egress_turn_writing egress_held_def egress_written_def Let_def)
qed

lemma egress_turn_inv: "egress_inv e \<Longrightarrow> egress_inv (egress_turn e)"
  unfolding egress_turn_def by (rule egress.run_inv)

lemma egress_turn_stopped: "egress_inv e \<Longrightarrow> eg_stopped e \<Longrightarrow> eg_stopped (egress_turn e)"
  by (auto simp: egress_turn_def egress_step_def egress_inv_def egress_held_def split: option.splits)

lemma egress_turns_stop:
  assumes "egress_inv e" "eg_closing e" "length (egress_held e) < n"
  shows "eg_stopped ((egress_turn ^^ n) e)"
  using assms
proof (induction n arbitrary: e)
  case (Suc n)
  show ?case
  proof (cases "eg_stopped e \<or> eg_stopped (egress_turn e)")
    case True
    then have stop: "eg_stopped (egress_turn e)" using egress_turn_stopped [OF Suc.prems(1)] by blast
    have "egress_inv x \<Longrightarrow> eg_stopped x \<Longrightarrow> eg_stopped ((egress_turn ^^ k) x)" for k x
      by (induction k arbitrary: x) (simp_all add: funpow_swap1 egress_turn_stopped egress_turn_inv)
    with stop egress_turn_inv [OF Suc.prems(1)] show ?thesis by (simp add: funpow_swap1)
  next
    case False
    with egress_turn_measure [OF Suc.prems(1,2)] Suc.prems(3)
    have "length (egress_held (egress_turn e)) < n" "eg_closing (egress_turn e)"
      by (auto split: if_splits)
    from Suc.IH [OF egress_turn_inv [OF Suc.prems(1)] this(2,1)] show ?thesis by (simp add: funpow_swap1)
  qed
qed simp

lemma egress_turns_run: "(egress_turn ^^ n) e = foldl egress_step e (concat (replicate n [EgressWake, EgressTake, EgressWritten None]))"
proof (induction n arbitrary: e)
  case (Suc n)
  have "(egress_turn ^^ Suc n) e = (egress_turn ^^ n) (egress_turn e)" by (simp add: funpow_swap1)
  also have "\<dots> = foldl egress_step (egress_turn e)
      (concat (replicate n [EgressWake, EgressTake, EgressWritten None]))" by (rule Suc.IH)
  finally show ?case unfolding egress_turn_def [of e] by simp
qed simp

lemma egress_turns_admit: "egress_admitted e (concat (replicate n [EgressWake, EgressTake, EgressWritten None])) = []"
  by (induction n arbitrary: e) (simp_all add: egress_admits_def)

lemma egress_turn_no_error:
  "egress_inv e \<Longrightarrow> eg_write_err e = None \<Longrightarrow> eg_write_err (egress_turn e) = None"
  by (auto simp: egress_turn_def egress_step_def egress_take_def egress_written_def Let_def
      split: option.splits list.splits)

text \<open>
  C27: Closing drains: an egress that reached any state without a write error and is then finished
  stops after one turn more than it holds payloads, if the writer keeps accepting them, and every
  payload ever admitted has then been sent.
\<close>

theorem egress_closing_drains:
  assumes "new_egress owns bound = Inr e0" "e = foldl egress_step e0 evs" "eg_write_err e = None"
  shows "eg_stopped ((egress_turn ^^ Suc (length (egress_held e))) (egress_finish e))
    \<and> eg_sent ((egress_turn ^^ Suc (length (egress_held e))) (egress_finish e)) = egress_admitted e0 evs"
proof -
  define n where "n = Suc (length (egress_held e))"
  define turns where "turns = concat (replicate n [EgressWake, EgressTake, EgressWritten None])"
  define f where "f = (egress_turn ^^ n) (egress_finish e)"
  have new: "egress_inv e0" "eg_write_err e0 = None" "eg_sent e0 = []" "egress_held e0 = []"
    using assms(1) new_egress_inv [OF assms(1)] by (auto simp: new_egress_def egress_held_def split: if_splits)
  have inv: "egress_inv e" unfolding assms(2) by (rule egress.run_inv [OF new(1)])
  have fin: "egress_inv (egress_finish e)" "eg_closing (egress_finish e)"
    "egress_held (egress_finish e) = egress_held e" "eg_write_err (egress_finish e) = None"
    "eg_sent (egress_finish e) = eg_sent e"
    using egress_step_inv [OF inv, of EgressFinish] assms(3)
    by (simp_all add: egress_step_def egress_finish_def egress_signal_def egress_held_def)
  have stop: "eg_stopped f" unfolding f_def by (rule egress_turns_stop [OF fin(1,2)]) (simp add: fin(3) n_def)
  have err: "egress_inv ((egress_turn ^^ k) (egress_finish e)) \<and> eg_write_err ((egress_turn ^^ k) (egress_finish e)) = None" for k
    by (induction k) (simp_all add: fin(1,4) egress_turn_inv egress_turn_no_error)
  have run: "f = foldl egress_step (egress_finish e) turns" by (simp add: f_def turns_def egress_turns_run)
  have "eg_sent f @ egress_held f = eg_sent e @ egress_held e"
    using egress_flow_run [OF fin(1,4), of turns] err [of n]
    by (auto simp: fin turns_def egress_turns_admit f_def egress_turns_run)
  moreover have "egress_held f = []" using err [of n] stop by (simp add: egress_inv_def f_def)
  moreover have "egress_admitted e0 evs = eg_sent e @ egress_held e"
    using egress_flow_run [OF new(1,2), of evs] new(3,4) assms(3) unfolding assms(2) by auto
  ultimately show ?thesis using stop by (simp add: f_def n_def)
qed

section \<open>A concrete sender\<close>

definition sample_egress :: egress where
  "sample_egress = \<lparr>eg_owns_output = False, eg_queue = [], eg_queued_bytes = 0, eg_writing = None,
     eg_closed = False, eg_closing = False, eg_write_err = None, eg_drain_err = None,
     eg_final = None, eg_fail = None, eg_wake = False, eg_awake = False, eg_stopped = False,
     eg_write_cancelled = False, eg_sent = []\<rparr>"

lemma sample_egress_new: "new_egress False 1 = Inr sample_egress"
  by (simp add: new_egress_def sample_egress_def)

definition sample_sends :: "egress_event list" where
  "sample_sends = [EgressEnqueue [sample_live], EgressEnqueue [sample_live], EgressWake, EgressTake,
     EgressWritten None]"

theorem egress_sends_in_order_witness:
  "\<exists>lost. egress_admitted sample_egress sample_sends
     = eg_sent (foldl egress_step sample_egress sample_sends)
       @ egress_held (foldl egress_step sample_egress sample_sends) @ lost"
  using egress_sends_in_order [OF sample_egress_new refl, of sample_sends] by blast

theorem egress_closing_drains_witness:
  "eg_stopped ((egress_turn ^^ 2) (egress_finish (foldl egress_step sample_egress sample_sends)))"
proof -
  have "eg_write_err (foldl egress_step sample_egress sample_sends) = None"
    "length (egress_held (foldl egress_step sample_egress sample_sends)) = 1"
    by code_simp+
  with egress_closing_drains [OF sample_egress_new refl this(1)] show ?thesis
    by (simp add: numeral_2_eq_2)
qed

end
