(* ===== verification/Start_Attempt.thy ===== *)
theory Start_Attempt
  imports Terminal_Frame Pinned_Source
begin

text \<open>
  The values an attachment's lifecycle is made of, \<^verbatim>\<open>internal/terminal/attempt.go\<close>: terminal
  causes and results, attachment ownership, the start attempt, and the predicates that say when each
  is well formed. Pointers that may be nil are options; a channel or a cancel function is the boolean
  that tells whether it was closed or called.
\<close>

datatype lifecycle_result_kind =
    LifecycleResultInvalid | LifecycleNotAdmitted | LifecyclePrepared | LifecycleTerminal
  | LifecycleAlreadyTerminal

datatype admission_reason =
    AdmissionInvalid | AdmissionMalformedRequest | AdmissionCallerPreCanceled | AdmissionConflictingAttempt

text \<open>The source compares reasons by their position in the \<^verbatim>\<open>iota\<close> block.\<close>

primrec reason_code :: "admission_reason \<Rightarrow> nat" where
  "reason_code AdmissionInvalid = 0"
| "reason_code AdmissionMalformedRequest = 1"
| "reason_code AdmissionCallerPreCanceled = 2"
| "reason_code AdmissionConflictingAttempt = 3"

lemma reason_code_inject [simp]: "reason_code a = reason_code b \<longleftrightarrow> a = b"
  by (cases a; cases b) simp_all

instantiation admission_reason :: linorder
begin

definition less_eq_admission_reason :: "admission_reason \<Rightarrow> admission_reason \<Rightarrow> bool" where
  "less_eq_admission_reason a b \<longleftrightarrow> reason_code a \<le> reason_code b"

definition less_admission_reason :: "admission_reason \<Rightarrow> admission_reason \<Rightarrow> bool" where
  "less_admission_reason a b \<longleftrightarrow> reason_code a < reason_code b"

instance
  by standard (auto simp: less_eq_admission_reason_def less_admission_reason_def)

end

datatype terminal_cause_class =
    TerminalCauseInvalid | TerminalCauseOrderly | TerminalCauseCanceled | TerminalCauseFault
  | TerminalCauseInvariant

datatype ownership_kind = OwnershipInvalid | OwnershipPending | OwnershipNone | OwnershipExact

datatype start_phase =
    StartPhaseInvalid | StartPhaseBinding | StartPhaseCutting | StartPhaseAwaitingPrepare
  | StartPhasePrepared | StartPhaseTerminal

datatype prepare_outcome_kind =
    PrepareOutcomeInvalid | PrepareWaiting | PreparePublished | PrepareFailed | PrepareAlreadyTerminal

datatype terminal_request_kind =
    TerminalRequestInvalid | TerminalRequestDeferred | TerminalRequestResolved

section \<open>Causes\<close>

record terminal_cause =
  tc_class :: terminal_cause_class
  tc_diagnostic :: "go_error option"

definition no_cause :: terminal_cause where
  "no_cause = \<lparr>tc_class = TerminalCauseInvalid, tc_diagnostic = None\<rparr>"

definition orderly_cause :: terminal_cause where
  "orderly_cause = \<lparr>tc_class = TerminalCauseOrderly, tc_diagnostic = None\<rparr>"

definition canceled_cause :: "go_error option \<Rightarrow> terminal_cause" where
  "canceled_cause err =
     \<lparr>tc_class = TerminalCauseCanceled,
      tc_diagnostic = Some (case err of None \<Rightarrow> Sent ErrContextCanceled | Some e \<Rightarrow> e)\<rparr>"

definition fault_cause :: "go_error option \<Rightarrow> terminal_cause" where
  "fault_cause err =
     \<lparr>tc_class = TerminalCauseFault,
      tc_diagnostic = Some (case err of None \<Rightarrow> Sent ErrReopenRequired | Some e \<Rightarrow> e)\<rparr>"

definition invariant_cause :: "go_error option \<Rightarrow> terminal_cause" where
  "invariant_cause err =
     \<lparr>tc_class = TerminalCauseInvariant,
      tc_diagnostic =
        (case err of None \<Rightarrow> Some (Sent ErrInvariant) | Some e \<Rightarrow> errors_join [Some (Sent ErrInvariant), Some e])\<rparr>"

definition cause_valid :: "terminal_cause \<Rightarrow> bool" where
  "cause_valid c \<longleftrightarrow>
     (case tc_class c of
        TerminalCauseOrderly \<Rightarrow> tc_diagnostic c = None
      | TerminalCauseCanceled \<Rightarrow> tc_diagnostic c \<noteq> None
      | TerminalCauseFault \<Rightarrow> tc_diagnostic c \<noteq> None
      | TerminalCauseInvariant \<Rightarrow> tc_diagnostic c \<noteq> None
      | TerminalCauseInvalid \<Rightarrow> False)"

definition end_reason :: "terminal_cause \<Rightarrow> string" where
  "end_reason c =
     (case tc_class c of
        TerminalCauseOrderly \<Rightarrow> ''closed''
      | TerminalCauseCanceled \<Rightarrow> ''canceled''
      | _ \<Rightarrow> ''fault'')"

section \<open>Ownership and results\<close>

record attachment_ownership =
  ao_kind :: ownership_kind
  ao_ids :: attachment_ids

definition pending_ownership :: attachment_ownership where
  "pending_ownership = \<lparr>ao_kind = OwnershipPending, ao_ids = no_ids\<rparr>"
definition no_ownership :: attachment_ownership where
  "no_ownership = \<lparr>ao_kind = OwnershipNone, ao_ids = no_ids\<rparr>"
definition exact_ownership :: "attachment_ids \<Rightarrow> attachment_ownership" where
  "exact_ownership ids = \<lparr>ao_kind = OwnershipExact, ao_ids = ids\<rparr>"

definition ownership_valid :: "attachment_ownership \<Rightarrow> bool" where
  "ownership_valid o1 \<longleftrightarrow>
     (case ao_kind o1 of
        OwnershipPending \<Rightarrow> ao_ids o1 = no_ids
      | OwnershipNone \<Rightarrow> ao_ids o1 = no_ids
      | OwnershipExact \<Rightarrow> ids_exact (ao_ids o1)
      | OwnershipInvalid \<Rightarrow> False)"

record terminal_result =
  te_cause :: terminal_cause
  te_public_err :: "go_error option"
  te_end_reason :: string
  te_ownership :: attachment_ownership
  te_end_err :: "go_error option"

definition terminal_valid :: "terminal_result option \<Rightarrow> bool" where
  "terminal_valid r \<longleftrightarrow>
     (case r of
        None \<Rightarrow> False
      | Some t \<Rightarrow> cause_valid (te_cause t) \<and> te_public_err t \<noteq> None
          \<and> te_end_reason t = end_reason (te_cause t) \<and> ownership_valid (te_ownership t)
          \<and> ao_kind (te_ownership t) \<noteq> OwnershipPending)"

record lifecycle_result =
  lr_kind :: lifecycle_result_kind
  lr_reason :: admission_reason
  lr_err :: "go_error option"
  lr_terminal :: "terminal_result option"

definition no_result :: lifecycle_result where
  "no_result =
     \<lparr>lr_kind = LifecycleResultInvalid, lr_reason = AdmissionInvalid, lr_err = None, lr_terminal = None\<rparr>"

definition not_admitted :: "admission_reason \<Rightarrow> go_error option \<Rightarrow> lifecycle_result" where
  "not_admitted reason err =
     \<lparr>lr_kind = LifecycleNotAdmitted, lr_reason = reason, lr_err = err, lr_terminal = None\<rparr>"

definition prepared_result :: lifecycle_result where
  "prepared_result = no_result\<lparr>lr_kind := LifecyclePrepared\<rparr>"

definition terminal_lifecycle :: "terminal_result option \<Rightarrow> lifecycle_result" where
  "terminal_lifecycle t = no_result\<lparr>lr_kind := LifecycleTerminal, lr_terminal := t\<rparr>"

definition already_terminal :: "terminal_result option \<Rightarrow> lifecycle_result" where
  "already_terminal t = no_result\<lparr>lr_kind := LifecycleAlreadyTerminal, lr_terminal := t\<rparr>"

definition lifecycle_valid :: "lifecycle_result \<Rightarrow> bool" where
  "lifecycle_valid r \<longleftrightarrow>
     (case lr_kind r of
        LifecycleNotAdmitted \<Rightarrow>
          lr_reason r \<ge> AdmissionMalformedRequest \<and> lr_reason r \<le> AdmissionConflictingAttempt
          \<and> lr_err r \<noteq> None \<and> lr_terminal r = None
      | LifecyclePrepared \<Rightarrow> lr_reason r = AdmissionInvalid \<and> lr_err r = None \<and> lr_terminal r = None
      | LifecycleTerminal \<Rightarrow>
          lr_reason r = AdmissionInvalid \<and> lr_err r = None \<and> terminal_valid (lr_terminal r)
      | LifecycleAlreadyTerminal \<Rightarrow>
          lr_reason r = AdmissionInvalid \<and> lr_err r = None \<and> terminal_valid (lr_terminal r)
      | LifecycleResultInvalid \<Rightarrow> False)"

definition public_error :: "lifecycle_result \<Rightarrow> go_error option" where
  "public_error r =
     (if \<not> lifecycle_valid r then Some (Sent ErrInvariant)
      else case lr_kind r of
        LifecycleNotAdmitted \<Rightarrow> lr_err r
      | LifecyclePrepared \<Rightarrow> None
      | LifecycleResultInvalid \<Rightarrow> Some (Sent ErrInvariant)
      | _ \<Rightarrow> (case lr_terminal r of None \<Rightarrow> None | Some t \<Rightarrow> te_public_err t))"

section \<open>The start attempt\<close>

record start_attempt =
  sa_kind :: cut_kind
  sa_phase :: start_phase
  sa_done :: bool
  sa_result :: lifecycle_result
  sa_replay :: bytes
  sa_ownership :: attachment_ownership
  sa_pending_cause :: "terminal_cause option"
  sa_operation_stopped :: bool

text \<open>The attempt's channel and cancel function always exist here.\<close>

definition attempt_valid :: "start_attempt option \<Rightarrow> bool" where
  "attempt_valid a \<longleftrightarrow>
     (case a of
        None \<Rightarrow> False
      | Some s \<Rightarrow>
          (sa_kind s = CutInitial \<or> sa_kind s = CutReconnect) \<and> ownership_valid (sa_ownership s)
          \<and> (case sa_phase s of
               StartPhaseBinding \<Rightarrow> lr_kind (sa_result s) = LifecycleResultInvalid
             | StartPhaseCutting \<Rightarrow> ao_kind (sa_ownership s) = OwnershipExact
                 \<and> sa_pending_cause s = None \<and> lr_kind (sa_result s) = LifecycleResultInvalid
             | StartPhaseAwaitingPrepare \<Rightarrow> ao_kind (sa_ownership s) = OwnershipExact
                 \<and> sa_pending_cause s = None \<and> lr_kind (sa_result s) = LifecycleResultInvalid
             | StartPhasePrepared \<Rightarrow> ao_kind (sa_ownership s) = OwnershipExact
                 \<and> sa_pending_cause s = None
                 \<and> lr_kind (sa_result s) = LifecyclePrepared \<and> lifecycle_valid (sa_result s)
             | StartPhaseTerminal \<Rightarrow> ao_kind (sa_ownership s) \<noteq> OwnershipPending
                 \<and> lr_kind (sa_result s) = LifecycleTerminal \<and> lifecycle_valid (sa_result s)
             | StartPhaseInvalid \<Rightarrow> False))"

record cleanup_state =
  cl_teardown_err :: "go_error option"
  cl_err :: "go_error option"
  cl_reported :: bool
  cl_complete :: bool

record prepare_outcome =
  po_kind :: prepare_outcome_kind
  po_cause :: terminal_cause
  po_result :: lifecycle_result

definition prepare_outcome_valid :: "prepare_outcome \<Rightarrow> bool" where
  "prepare_outcome_valid o1 \<longleftrightarrow>
     (case po_kind o1 of
        PrepareWaiting \<Rightarrow> tc_class (po_cause o1) = TerminalCauseInvalid
          \<and> lr_kind (po_result o1) = LifecycleResultInvalid
      | PreparePublished \<Rightarrow> tc_class (po_cause o1) = TerminalCauseInvalid
          \<and> lr_kind (po_result o1) = LifecycleResultInvalid
      | PrepareFailed \<Rightarrow> cause_valid (po_cause o1) \<and> lr_kind (po_result o1) = LifecycleResultInvalid
      | PrepareAlreadyTerminal \<Rightarrow> tc_class (po_cause o1) = TerminalCauseInvalid
          \<and> lr_kind (po_result o1) = LifecycleAlreadyTerminal \<and> lifecycle_valid (po_result o1)
      | PrepareOutcomeInvalid \<Rightarrow> False)"

text \<open>The attempt a deferred request waits for is the epoch's only one, so a boolean names it.\<close>

record terminal_request =
  rq_kind :: terminal_request_kind
  rq_wait :: bool
  rq_result :: lifecycle_result

definition terminal_request_valid :: "terminal_request \<Rightarrow> bool" where
  "terminal_request_valid r \<longleftrightarrow>
     (case rq_kind r of
        TerminalRequestDeferred \<Rightarrow> rq_wait r \<and> lr_kind (rq_result r) = LifecycleResultInvalid
      | TerminalRequestResolved \<Rightarrow> \<not> rq_wait r
          \<and> (lr_kind (rq_result r) = LifecycleTerminal \<or> lr_kind (rq_result r) = LifecycleAlreadyTerminal)
          \<and> lifecycle_valid (rq_result r)
      | TerminalRequestInvalid \<Rightarrow> False)"

section \<open>What the constructors build is well formed\<close>

lemma cause_constructors_valid [simp]:
  "cause_valid orderly_cause" "cause_valid (canceled_cause e)" "cause_valid (fault_cause e)"
  "cause_valid (invariant_cause e)" "\<not> cause_valid no_cause"
  by (simp_all add: cause_valid_def orderly_cause_def canceled_cause_def fault_cause_def invariant_cause_def
      no_cause_def errors_join_def Let_def split: option.split)

lemma cause_constructors_class [simp]:
  "tc_class (fault_cause e) = TerminalCauseFault" "tc_class (invariant_cause e) = TerminalCauseInvariant"
  "tc_class (canceled_cause e) = TerminalCauseCanceled" "tc_class orderly_cause = TerminalCauseOrderly"
  "tc_class no_cause = TerminalCauseInvalid"
  by (simp_all add: fault_cause_def invariant_cause_def canceled_cause_def orderly_cause_def no_cause_def)

lemma end_reason_short [simp]: "end_reason c \<noteq> []" "len (end_reason c) \<le> 64"
  by (simp_all add: end_reason_def split: terminal_cause_class.split)

lemma ownership_constructors_valid [simp]:
  "ownership_valid pending_ownership" "ownership_valid no_ownership"
  "ownership_valid (exact_ownership ids) = ids_exact ids"
  by (simp_all add: ownership_valid_def pending_ownership_def no_ownership_def exact_ownership_def)

lemma ownership_constructors_kind [simp]:
  "ao_kind pending_ownership = OwnershipPending" "ao_kind no_ownership = OwnershipNone"
  "ao_kind (exact_ownership ids) = OwnershipExact" "ao_ids (exact_ownership ids) = ids"
  by (simp_all add: pending_ownership_def no_ownership_def exact_ownership_def)

lemma result_kinds [simp]:
  "lr_kind no_result = LifecycleResultInvalid" "lr_kind (not_admitted r e) = LifecycleNotAdmitted"
  "lr_kind prepared_result = LifecyclePrepared" "lr_kind (terminal_lifecycle t) = LifecycleTerminal"
  "lr_kind (already_terminal t) = LifecycleAlreadyTerminal"
  by (simp_all add: no_result_def not_admitted_def prepared_result_def terminal_lifecycle_def already_terminal_def)

lemma reason_between:
  "r \<ge> AdmissionMalformedRequest \<and> r \<le> AdmissionConflictingAttempt \<longleftrightarrow> r \<noteq> AdmissionInvalid"
  by (cases r) (simp_all add: less_eq_admission_reason_def)

lemma results_valid [simp]:
  "lifecycle_valid (not_admitted r (Some e)) \<longleftrightarrow> r \<noteq> AdmissionInvalid"
  "lifecycle_valid prepared_result" "\<not> lifecycle_valid no_result"
  "lifecycle_valid (terminal_lifecycle t) \<longleftrightarrow> terminal_valid t"
  "lifecycle_valid (already_terminal t) \<longleftrightarrow> terminal_valid t"
  using reason_between
  by (simp_all add: lifecycle_valid_def not_admitted_def prepared_result_def no_result_def
      terminal_lifecycle_def already_terminal_def)

text \<open>The public error is nil exactly for a valid prepared result.\<close>

lemma public_error_None_iff:
  "public_error r = None \<longleftrightarrow> lifecycle_valid r \<and> lr_kind r = LifecyclePrepared"
  by (cases "lr_kind r")
    (auto simp: public_error_def lifecycle_valid_def terminal_valid_def split: option.splits)

lemma public_error_terminal [simp]:
  "terminal_valid t \<Longrightarrow> public_error (terminal_lifecycle t) = te_public_err (the t)"
  "terminal_valid t \<Longrightarrow> public_error (already_terminal t) = te_public_err (the t)"
  by (auto simp: public_error_def terminal_lifecycle_def already_terminal_def lifecycle_valid_def
      terminal_valid_def no_result_def split: option.splits)

end
