(* ===== verification/Sha256.thy ===== *)
theory Sha256
  imports Prelude
begin

text \<open>
  SHA-256 of the Go standard library (\<^verbatim>\<open>crypto/sha256\<close>) on 32-bit words, as the marker
  digests of \<^verbatim>\<open>internal/terminal\<close> and the record hashes of
  \<^verbatim>\<open>internal/unifiedjournal\<close> use it. What is proved of it is the length of a digest.
\<close>

section \<open>The compression function\<close>

type_synonym u32 = "32 word"

text \<open>
  The round constants are the first 32 bits of the fractional parts of the cube roots of the first 64
  primes, the initial state those of the square roots of the first eight (311 is
  the 64th prime, 19 the eighth); \<open>root_bits k b n 0\<close>
  finds the integer \<open>k\<close>-th root of \<open>n\<close> below \<open>2 ^ b\<close>, highest bit first.
\<close>

primrec root_bits :: "nat \<Rightarrow> nat \<Rightarrow> int \<Rightarrow> int \<Rightarrow> int" where
  "root_bits k 0 n r = r"
| "root_bits k (Suc b) n r = root_bits k b n (if (r + 2 ^ b) ^ k \<le> n then r + 2 ^ b else r)"

definition primes_to :: "int \<Rightarrow> int list" where
  "primes_to n = filter (\<lambda>p. list_all (\<lambda>d. p mod d \<noteq> 0) [2..p - 1]) [2..n]"

definition sha_constants :: "u32 list" where
  "sha_constants = map (\<lambda>p. word_of_int (root_bits 3 36 (p * 2 ^ 96) 0)) (primes_to 311)"

definition sha_initial :: "u32 list" where
  "sha_initial = map (\<lambda>p. word_of_int (root_bits 2 36 (p * 2 ^ 64) 0)) (primes_to 19)"

definition rotr :: "nat \<Rightarrow> u32 \<Rightarrow> u32" where
  "rotr n x = (drop_bit n x) OR (push_bit (32 - n) x)"

definition big_endian :: "bytes \<Rightarrow> u32" where
  "big_endian bs = foldl (\<lambda>w b. push_bit 8 w OR word_of_nat (byte_val b)) 0 bs"

definition be_bytes :: "u32 \<Rightarrow> bytes" where
  "be_bytes w = map (\<lambda>k. char_of (unat (drop_bit (8 * k) w AND 0xFF))) [3, 2, 1, 0]"

definition sha_length_bytes :: "nat \<Rightarrow> bytes" where
  "sha_length_bytes n =
     (let bits = push_bit 3 (word_of_nat n) :: u64
      in map (\<lambda>k. char_of (unat (drop_bit (8 * k) bits AND 0xFF))) [7, 6, 5, 4, 3, 2, 1, 0])"

text \<open>One bit, zeros up to eight bytes short of a block, and the length in bits.\<close>

definition sha_pad :: "bytes \<Rightarrow> bytes" where
  "sha_pad m =
     m @ [CHR 0x80] @ replicate ((119 - length m mod 64) mod 64) NUL @ sha_length_bytes (length m)"

fun sha_schedule :: "nat \<Rightarrow> u32 list \<Rightarrow> u32 list" where
  "sha_schedule 0 w = w"
| "sha_schedule (Suc n) w =
     (let i = length w;
          a = w ! (i - 15); b = w ! (i - 2);
          s0 = rotr 7 a XOR rotr 18 a XOR drop_bit 3 a;
          s1 = rotr 17 b XOR rotr 19 b XOR drop_bit 10 b
      in sha_schedule n (w @ [w ! (i - 16) + s0 + w ! (i - 7) + s1]))"

fun sha_round :: "u32 list \<Rightarrow> u32 \<times> u32 \<Rightarrow> u32 list" where
  "sha_round [a, b, c, d, e, f, g, h] (k, w) =
     (let s1 = rotr 6 e XOR rotr 11 e XOR rotr 25 e;
          ch = (e AND f) XOR (NOT e AND g);
          t1 = h + s1 + ch + k + w;
          s0 = rotr 2 a XOR rotr 13 a XOR rotr 22 a;
          maj = (a AND b) XOR (a AND c) XOR (b AND c)
      in [t1 + s0 + maj, a, b, c, d + t1, e, f, g])"
| "sha_round s _ = s"

fun sha_words :: "bytes \<Rightarrow> u32 list" where
  "sha_words (a # b # c # d # rest) = big_endian [a, b, c, d] # sha_words rest"
| "sha_words _ = []"

definition sha_block :: "u32 list \<Rightarrow> bytes \<Rightarrow> u32 list" where
  "sha_block st block =
     map2 (+) st (foldl sha_round st (zip sha_constants (sha_schedule 48 (sha_words block))))"

fun sha_blocks :: "u32 list \<Rightarrow> bytes \<Rightarrow> u32 list" where
  "sha_blocks st m = (if length m < 64 then st else sha_blocks (sha_block st (take 64 m)) (drop 64 m))"

declare sha_blocks.simps [simp del]

definition sha256 :: "bytes \<Rightarrow> bytes" where
  "sha256 m = concat (map be_bytes (sha_blocks sha_initial (sha_pad m)))"

lemma sha_round_length: "length s = 8 \<Longrightarrow> length (sha_round s x) = 8"
  by (induction s x rule: sha_round.induct) (simp_all add: Let_def)

lemma sha_rounds_length: "length s = 8 \<Longrightarrow> length (foldl sha_round s xs) = 8"
  by (induction xs arbitrary: s) (simp_all add: sha_round_length)

lemma sha_block_length: "length s = 8 \<Longrightarrow> length (sha_block s b) = 8"
  by (simp add: sha_block_def sha_rounds_length)

lemma sha_blocks_length: "length s = 8 \<Longrightarrow> length (sha_blocks s m) = 8"
proof (induction s m rule: sha_blocks.induct)
  case (1 s m)
  then show ?case by (subst sha_blocks.simps) (simp add: sha_block_length)
qed

lemma sha_initial_length: "length sha_initial = 8"
proof -
  have "length (primes_to 19) = 8" by code_simp
  then show ?thesis by (simp add: sha_initial_def)
qed

lemma sha256_length: "length (sha256 m) = 32"
proof -
  have "length (concat (map be_bytes ws)) = 4 * length ws" for ws
    by (induction ws) (simp_all add: be_bytes_def)
  then show ?thesis by (simp add: sha256_def sha_blocks_length sha_initial_length)
qed

end
