(* ===== verification/Marker_Digest.thy ===== *)
theory Marker_Digest
  imports Frame_Json Ingress_Marker Sha256
begin

text \<open>
  The digest that names a cut in the PTY stream: the parts of the Go standard library that
  \<^verbatim>\<open>markerPayload\<close> of \<^verbatim>\<open>internal/terminal/epoch.go\<close> uses, which are SHA-256
  and unpadded standard base64, and the shape every digest has. That shape is what the ingress
  parser recognises.
\<close>

section \<open>The digest\<close>

text \<open>\<^verbatim>\<open>base64.RawStdEncoding\<close>: as the padded encoding without its padding.\<close>

fun base64_raw :: "bytes \<Rightarrow> string" where
  "base64_raw [] = []"
| "base64_raw [a] = [base64_char (byte_val a div 4), base64_char (byte_val a mod 4 * 16)]"
| "base64_raw [a, b] =
     [base64_char (byte_val a div 4), base64_char (byte_val a mod 4 * 16 + byte_val b div 16),
      base64_char (byte_val b mod 16 * 4)]"
| "base64_raw (a # b # c # rest) =
     base64_char (byte_val a div 4) # base64_char (byte_val a mod 4 * 16 + byte_val b div 16)
     # base64_char (byte_val b mod 16 * 4 + byte_val c div 64) # base64_char (byte_val c mod 64)
     # base64_raw rest"

section \<open>Every digest has the marker's shape\<close>

lemma base64_raw_length: "length (base64_raw bs) = (4 * length bs + 2) div 3"
  by (induction bs rule: base64_raw.induct) simp_all

lemma base64_char_nonce: "n < 64 \<Longrightarrow> marker_nonce_byte (base64_char n)"
  by (cases "n < 26"; cases "n < 52"; cases "n < 62"; cases "n = 62")
    (simp_all add: marker_nonce_byte_def base64_char_def less_eq_char_def, arith)

lemma sextet_bounds:
  "byte_val a div 4 < 64" "byte_val a mod 4 * 16 < 64" "byte_val a mod 4 * 16 + byte_val b div 16 < 64"
  "byte_val b mod 16 * 4 < 64" "byte_val b mod 16 * 4 + byte_val c div 64 < 64" "byte_val c mod 64 < 64"
proof -
  have "byte_val a < 256" "byte_val b < 256" "byte_val c < 256" by simp_all
  then show "byte_val a div 4 < 64" "byte_val a mod 4 * 16 < 64"
    "byte_val a mod 4 * 16 + byte_val b div 16 < 64"
    "byte_val b mod 16 * 4 < 64" "byte_val b mod 16 * 4 + byte_val c div 64 < 64" "byte_val c mod 64 < 64"
    by linarith+
qed

lemma base64_raw_nonce: "list_all marker_nonce_byte (base64_raw bs)"
  by (induction bs rule: base64_raw.induct) (simp_all add: base64_char_nonce sextet_bounds)

definition digest_nonce :: "bytes \<Rightarrow> bytes" where
  "digest_nonce m = base64_raw (sha256 m)"

lemma digest_nonce_shape:
  "length (digest_nonce m) = marker_nonce_size" "list_all marker_nonce_byte (digest_nonce m)"
  by (simp_all add: digest_nonce_def base64_raw_nonce base64_raw_length sha256_length marker_nonce_size_def)

end
