(* ===== verification/Epoch_State.thy ===== *)
theory Epoch_State
  imports Terminal_Automaton History_Cut Work_Gate Cut_Scheduler Input_Pump Egress_Queue Start_Attempt
    Marker_Digest
begin

text \<open>
  The attachment epoch, \<^verbatim>\<open>internal/terminal/epoch.go\<close>, first part: its configuration and state,
  its construction, the name of a cut in the PTY stream, and its one way to end
  (\<^verbatim>\<open>requestTerminalLocked\<close> and \<^verbatim>\<open>publishTerminalLocked\<close>). The epoch owns one of each
  component modelled in the imported theories. An active cut is identified by its number, which no
  epoch uses twice. Six fields are logs of the model: the frames its automaton took in order, the PTY
  bytes it took in, the ingress events it began to route, the INPUT it accepted, the transitional input
  it settled as dropped, and the identities it asked the source to clean up.
\<close>

section \<open>Configuration\<close>

record config =
  cfg_quiet :: int
  cfg_maximum :: int
  cfg_cut_timeout :: int
  cfg_clock :: bool
  cfg_history_rows :: int
  cfg_history_rows_set :: bool

definition config_validate :: "config \<Rightarrow> go_error option" where
  "config_validate c =
     (if \<not> cfg_clock c \<or> cfg_quiet c \<le> 0 \<or> cfg_maximum c < cfg_quiet c
         \<or> cfg_cut_timeout c \<le> cfg_maximum c then Some (Sent ErrMalformed)
      else if cfg_history_rows_set c \<and> \<not> valid_history_rows (cfg_history_rows c)
      then Some (Sent ErrMalformed) else None)"

definition effective_rows :: "config \<Rightarrow> int" where
  "effective_rows c = (if cfg_history_rows_set c then cfg_history_rows c else default_history_rows)"

section \<open>State\<close>

datatype history_phase =
    HistoryQueued | HistoryIssued | HistoryDeferred | HistoryCommitted | HistorySuperseded

record history_request =
  hr_request :: u64
  hr_rows :: int
  hr_phase :: history_phase

definition supersede_before_issue ::
    "history_request option \<Rightarrow> go_error option \<times> history_request option" where
  "supersede_before_issue r =
     (case r of
        None \<Rightarrow> (Some (Sent ErrInvariant), r)
      | Some h \<Rightarrow>
          if hr_phase h \<noteq> HistoryQueued then (Some (Sent ErrInvariant), r)
          else (None, Some (h\<lparr>hr_phase := HistorySuperseded\<rparr>)))"

record active_cut =
  ac_cut :: cut
  ac_history_rows :: int
  ac_request :: "history_request option"
  ac_cut_issued :: bool
  ac_capture_ready :: bool
  ac_history :: "string list"
  ac_truncated :: bool
  ac_prepared :: bool

datatype teardown_phase =
    TeardownNone | TeardownStarted | TeardownScheduler | TeardownInput | TeardownOwner | TeardownGate
  | TeardownEgress | TeardownDone

definition max_transitional_modes :: int where "max_transitional_modes = 4"

record epoch =
  ep_source :: pinned_source
  ep_source_id :: string
  ep_epoch :: u64
  ep_protocol :: automaton
  ep_scheduler :: scheduler
  ep_egress :: egress
  ep_input :: input_pump
  ep_ingress :: ingress_framer
  ep_gate :: work_gate
  ep_lease :: generation_lease
  ep_cut_timeout :: int
  ep_history_rows :: int
  ep_ctx_err :: "go_error option"
  ep_active :: "active_cut option"
  ep_next_cut :: u64
  ep_start :: "start_attempt option"
  ep_terminal :: "terminal_result option"
  ep_held_input :: "input_item list"
  ep_held_input_bytes :: int
  ep_held_modes :: "mode list"
  ep_pending_history :: "history_request option"
  ep_last_history :: u64
  ep_closes :: nat
  ep_teardown :: teardown_phase
  ep_joined :: "go_error option list"
  ep_cleanup :: cleanup_state
  ep_cleaned :: "attachment_ids list"
  ep_log :: exchange
  ep_fed :: bytes
  ep_events :: "ingress_event list"
  ep_accepted :: "input_item list"
  ep_dropped :: "input_item list"

text \<open>
  \<open>newEpoch\<close>. The constructor's collaborators are given by whether they exist; \<open>bind\<close> is the
  answer of \<^verbatim>\<open>BindAttachment\<close> (\<open>None\<close> without effects) and \<open>undo\<close> the errors of the
  three cleanups that follow its failure.
\<close>

definition new_epoch ::
    "bool \<Rightarrow> pinned_source option \<Rightarrow> u64 \<Rightarrow> bool \<Rightarrow> bool \<Rightarrow> bool \<Rightarrow> config
      \<Rightarrow> go_error option option \<Rightarrow> go_error option list \<Rightarrow> go_error + epoch" where
  "new_epoch have_ctx source epoch have_writer owns have_pty cfg bind undo =
     (case source of
        None \<Rightarrow> Inl (Sent ErrMalformed)
      | Some src \<Rightarrow>
          if \<not> have_ctx \<or> epoch = 0 \<or> \<not> have_writer \<or> \<not> have_pty then Inl (Sent ErrMalformed)
          else case config_validate cfg of
            Some err \<Rightarrow> Inl err
          | None \<Rightarrow>
              let sid = fst (public_identity src) in
              (case new_automaton sid epoch of
                 Inl err \<Rightarrow> Inl err
               | Inr protocol \<Rightarrow>
              (case new_egress owns (cfg_cut_timeout cfg) of
                 Inl err \<Rightarrow> Inl err
               | Inr egress \<Rightarrow>
              (case new_input_pump sid epoch of
                 Inl err \<Rightarrow> Inl err
               | Inr input \<Rightarrow>
              (case new_scheduler (cfg_quiet cfg) (cfg_maximum cfg) of
                 Inl err \<Rightarrow> Inl err
               | Inr sched \<Rightarrow>
                   (case bind of
                      Some (Some err) \<Rightarrow>
                        Inl (case errors_join (Some err # undo) of None \<Rightarrow> err | Some x \<Rightarrow> x)
                    | _ \<Rightarrow>
                        Inr \<lparr>ep_source = src, ep_source_id = sid, ep_epoch = epoch, ep_protocol = protocol,
                          ep_scheduler = sched, ep_egress = egress, ep_input = input,
                          ep_ingress = new_ingress_framer, ep_gate = new_work_gate,
                          ep_lease = \<lparr>gl_source = sid, gl_epoch = epoch, gl_generation = 1\<rparr>,
                          ep_cut_timeout = cfg_cut_timeout cfg, ep_history_rows = effective_rows cfg,
                          ep_ctx_err = None, ep_active = None, ep_next_cut = 0, ep_start = None,
                          ep_terminal = None, ep_held_input = [], ep_held_input_bytes = 0,
                          ep_held_modes = [], ep_pending_history = None, ep_last_history = 0,
                          ep_closes = 0, ep_teardown = TeardownNone, ep_joined = [],
                          ep_cleanup = \<lparr>cl_teardown_err = None, cl_err = None, cl_reported = False,
                            cl_complete = False\<rparr>,
                          ep_cleaned = [], ep_log = [], ep_fed = [], ep_events = [], ep_accepted = [],
                          ep_dropped = []\<rparr>))))))"

definition epoch_err :: "epoch \<Rightarrow> go_error option" where
  "epoch_err e = (case ep_terminal e of None \<Rightarrow> None | Some t \<Rightarrow> te_public_err t)"

section \<open>Frames to the browser and marker names\<close>

definition live_frame :: "epoch \<Rightarrow> u64 \<Rightarrow> bytes \<Rightarrow> frame" where
  "live_frame e c data =
     (base_frame FrameLive (ep_source_id e) (ep_epoch e))\<lparr>f_cut := c, f_data := data\<rparr>"

text \<open>
  Every single frame of the epoch is sent the same way: the automaton's successor is computed, the
  frame enqueued, and only then does the successor replace the automaton.
\<close>

definition publish_frame :: "frame \<Rightarrow> epoch \<Rightarrow> go_error option \<times> epoch" where
  "publish_frame f e =
     (case automaton_apply FromServer f (ep_protocol e) of
        Inl err \<Rightarrow> (Some err, e)
      | Inr next \<Rightarrow>
          (case egress_enqueue f (ep_egress e) of
             (Some err, _) \<Rightarrow> (Some err, e)
           | (None, g) \<Rightarrow>
               (None, e\<lparr>ep_egress := g, ep_protocol := next, ep_log := ep_log e @ [(FromServer, f)]\<rparr>)))"

text \<open>Output bytes, if any, leave as one LIVE frame under the cut in force.\<close>

definition publish_live :: "bytes \<Rightarrow> epoch \<Rightarrow> go_error option \<times> epoch" where
  "publish_live data e =
     (if data = [] then (None, e) else publish_frame (live_frame e (a_cut (ep_protocol e)) data) e)"

text \<open>
  The digest is of \<^verbatim>\<open>source\x00epoch\x00cut\x00shadow\x00client\<close>, numbers in decimal.
\<close>

definition cut_marker :: "epoch \<Rightarrow> u64 \<Rightarrow> attachment_ids \<Rightarrow> bytes" where
  "cut_marker e c ids =
     marker_namespace @ digest_nonce
       (ep_source_id e @ [NUL] @ decimal (unat (ep_epoch e)) @ [NUL] @ decimal (unat c) @ [NUL]
        @ shadow_session_id ids @ [NUL] @ client_id ids)"

section \<open>The terminal publication\<close>

definition finish_active :: "epoch \<Rightarrow> epoch" where
  "finish_active e = e\<lparr>ep_active := None\<rparr>"

definition clear_transitional :: "epoch \<Rightarrow> epoch" where
  "clear_transitional e = e\<lparr>ep_held_input := [], ep_held_input_bytes := 0, ep_held_modes := []\<rparr>"

definition drop_transitional :: "epoch \<Rightarrow> epoch" where
  "drop_transitional e = clear_transitional (e\<lparr>ep_dropped := ep_dropped e @ ep_held_input e\<rparr>)"

definition active_is :: "u64 \<Rightarrow> epoch \<Rightarrow> bool" where
  "active_is c e \<longleftrightarrow> (case ep_active e of None \<Rightarrow> False | Some a \<Rightarrow> cut_id (ac_cut a) = c)"

definition start_owner :: "epoch \<Rightarrow> attachment_ownership" where
  "start_owner e = (case ep_start e of None \<Rightarrow> no_ownership | Some a \<Rightarrow> sa_ownership a)"

text \<open>The parts of the publication: what it lets go of, the END frame, and the attempt it settles.\<close>

definition release_output :: "epoch \<Rightarrow> epoch" where
  "release_output e =
     (let e1 = drop_transitional (e\<lparr>ep_ingress := ingress_discard (ep_ingress e)\<rparr>);
          e2 = e1\<lparr>ep_start := map_option (\<lambda>a. a\<lparr>sa_replay := []\<rparr>) (ep_start e1),
                  ep_lease := (ep_lease e1)\<lparr>gl_generation := gl_generation (ep_lease e1) + 1\<rparr>\<rparr>
      in finish_active e2)"

definition end_frame :: "epoch \<Rightarrow> terminal_cause \<Rightarrow> frame" where
  "end_frame e c = (base_frame FrameEnd (ep_source_id e) (ep_epoch e))\<lparr>f_reason := end_reason c\<rparr>"

definition make_terminal ::
    "terminal_cause \<Rightarrow> attachment_ownership \<Rightarrow> go_error option \<Rightarrow> terminal_result" where
  "make_terminal c own end_err =
     (let build = (\<lambda>c. \<lparr>te_cause = c,
            te_public_err = errors_join [Some (Sent ErrClosed), tc_diagnostic c],
            te_end_reason = end_reason c, te_ownership = own, te_end_err = end_err\<rparr>);
          r = build c
      in if terminal_valid (Some r) then r
         else build (invariant_cause (Some (ErrText ''constructed invalid terminal result''))))"

definition settle_attempt :: "terminal_result \<Rightarrow> start_attempt \<Rightarrow> start_attempt" where
  "settle_attempt t a =
     (if lr_kind (sa_result a) = LifecycleResultInvalid
      then a\<lparr>sa_result := terminal_lifecycle (Some t), sa_phase := StartPhaseTerminal, sa_done := True\<rparr>
      else a)"

definition publish_terminal :: "terminal_cause \<Rightarrow> epoch \<Rightarrow> lifecycle_result \<times> epoch" where
  "publish_terminal cause e =
     (if ep_terminal e \<noteq> None then (already_terminal (ep_terminal e), e)
      else if ao_kind (start_owner e) = OwnershipPending then (no_result, e)
      else
        let own = (if ownership_valid (start_owner e) then start_owner e else no_ownership);
            c1 = (if ownership_valid (start_owner e) then cause
                  else invariant_cause (Some (ErrText ''invalid terminal ownership'')));
            c2 = (if cause_valid c1 then c1
                  else invariant_cause (Some (ErrText ''invalid terminal cause'')));
            (end_err, e1) = publish_frame (end_frame e c2) (release_output e);
            t = make_terminal c2 own end_err
        in (terminal_lifecycle (Some t),
            e1\<lparr>ep_terminal := Some t, ep_input := pump_seal (ep_input e1),
               ep_start := map_option (settle_attempt t) (ep_start e1),
               ep_closes := Suc (ep_closes e1),
               ep_ctx_err := (case ep_ctx_err e1 of None \<Rightarrow> Some (Sent ErrContextCanceled) | x \<Rightarrow> x),
               ep_teardown := (if ep_teardown e1 = TeardownNone then TeardownStarted else ep_teardown e1)\<rparr>))"

text \<open>
  While BIND runs and nobody knows yet whether it created an attachment, a terminal request is only
  recorded, once; BIND's return will publish it.
\<close>

definition bind_undecided :: "epoch \<Rightarrow> bool" where
  "bind_undecided e \<longleftrightarrow>
     (case ep_start e of
        None \<Rightarrow> False
      | Some a \<Rightarrow> sa_phase a = StartPhaseBinding \<and> ao_kind (sa_ownership a) = OwnershipPending)"

definition attempt_cause :: "epoch \<Rightarrow> terminal_cause option" where
  "attempt_cause e = (case ep_start e of None \<Rightarrow> None | Some a \<Rightarrow> sa_pending_cause a)"

definition defer_terminal :: "terminal_cause \<Rightarrow> epoch \<Rightarrow> epoch" where
  "defer_terminal cause e =
     (if attempt_cause e = None
      then e\<lparr>ep_ingress := ingress_discard (ep_ingress e),
             ep_start := map_option (\<lambda>a. a\<lparr>sa_pending_cause := Some cause, sa_replay := [],
               sa_operation_stopped := True\<rparr>) (ep_start e)\<rparr>
      else e)"

definition request_terminal :: "terminal_cause \<Rightarrow> epoch \<Rightarrow> terminal_request \<times> epoch" where
  "request_terminal cause e =
     (if ep_terminal e \<noteq> None
      then (\<lparr>rq_kind = TerminalRequestResolved, rq_wait = False,
             rq_result = already_terminal (ep_terminal e)\<rparr>, e)
      else
        let c1 = (if cause_valid cause then cause
                  else invariant_cause (Some (ErrText ''invalid terminal cause'')))
        in if bind_undecided e
           then (\<lparr>rq_kind = TerminalRequestDeferred, rq_wait = True, rq_result = no_result\<rparr>,
                 defer_terminal c1 e)
           else case publish_terminal (case attempt_cause e of None \<Rightarrow> c1 | Some c \<Rightarrow> c) e of
             (result, e') \<Rightarrow>
               (\<lparr>rq_kind = TerminalRequestResolved, rq_wait = False, rq_result = result\<rparr>, e'))"

definition terminate :: "terminal_cause \<Rightarrow> epoch \<Rightarrow> epoch" where
  "terminate cause e = snd (request_terminal cause e)"

definition epoch_fault :: "go_error option \<Rightarrow> epoch \<Rightarrow> epoch" where
  "epoch_fault cause e = terminate (fault_cause cause) e"

text \<open>A section that ends with a terminal request and reports the request's public error.\<close>

definition fail_request :: "terminal_cause \<Rightarrow> epoch \<Rightarrow> go_error option \<times> epoch" where
  "fail_request cause e =
     (case request_terminal cause e of (r, e') \<Rightarrow> (public_error (rq_result r), e'))"

end
