(* ===== verification/Epoch_Cuts.thy ===== *)
theory Epoch_Cuts
  imports Epoch_State
begin

text \<open>
  The attachment epoch, second part: starting (\<^verbatim>\<open>Start\<close> and what follows BIND), opening cuts,
  their issue and completion, and the publication of PREPARE. Each locked section of
  \<^verbatim>\<open>internal/terminal/epoch.go\<close> is a function from the state to its result and the new state;
  the answers of the pinned source come as arguments.
\<close>

section \<open>Scheduler calls\<close>

text \<open>
  A command waits while the scheduler's loop is blocked on its due channel; the step relation takes no
  step that would have to wait, so the unchanged state returned for that case is never used.
\<close>

definition sched_call :: "sched_event \<Rightarrow> epoch \<Rightarrow> go_error option \<times> epoch" where
  "sched_call ev e =
     (case sched_step (ep_scheduler e) ev of
        (SchedAnswer err, s) \<Rightarrow> (err, e\<lparr>ep_scheduler := s\<rparr>)
      | (SchedBlocked, s) \<Rightarrow> (None, e))"

definition begin_external :: "int \<Rightarrow> epoch \<Rightarrow> go_error option \<times> epoch" where
  "begin_external now e = sched_call (SchedBeginExternal now) e"

section \<open>Start\<close>

datatype start_admission = StartReturns "go_error option" | StartWaits | StartRuns nat

text \<open>The result of an attempt: its own when valid, otherwise the epoch's.\<close>

definition lifecycle_result_of :: "epoch \<Rightarrow> lifecycle_result" where
  "lifecycle_result_of e =
     (case ep_start e of
        Some a \<Rightarrow>
          if lifecycle_valid (sa_result a) then sa_result a
          else if ep_terminal e \<noteq> None then already_terminal (ep_terminal e) else no_result
      | None \<Rightarrow> if ep_terminal e \<noteq> None then already_terminal (ep_terminal e) else no_result)"

definition new_attempt :: "cut_kind \<Rightarrow> start_attempt" where
  "new_attempt kind =
     \<lparr>sa_kind = kind, sa_phase = StartPhaseBinding, sa_done = False, sa_result = no_result,
      sa_replay = [], sa_ownership = pending_ownership, sa_pending_cause = None,
      sa_operation_stopped = False\<rparr>"

definition start_admit :: "bool \<Rightarrow> cut_kind \<Rightarrow> go_error option \<Rightarrow> epoch \<Rightarrow> start_admission \<times> epoch" where
  "start_admit have_ctx kind ctx_err e =
     (let refuse = (\<lambda>reason err. StartReturns (public_error (not_admitted reason err)));
          fail = (\<lambda>c e. case fail_request c e of (err, e') \<Rightarrow> (StartReturns err, e'))
      in if \<not> have_ctx \<or> (kind \<noteq> CutInitial \<and> kind \<noteq> CutReconnect)
         then (refuse AdmissionMalformedRequest (Some (Sent ErrMalformed)), e)
         else if ep_terminal e \<noteq> None
         then (StartReturns (public_error (already_terminal (ep_terminal e))), e)
         else case ep_start e of
           Some a \<Rightarrow>
             (if sa_kind a \<noteq> kind
              then (refuse AdmissionConflictingAttempt (Some (Sent ErrOutOfState)), e)
              else if sa_phase a = StartPhasePrepared then (StartReturns (public_error (sa_result a)), e)
              else (StartWaits, e))
         | None \<Rightarrow>
             (if ctx_err \<noteq> None then (refuse AdmissionCallerPreCanceled ctx_err, e)
              else if ep_ctx_err e \<noteq> None then fail (canceled_cause (ep_ctx_err e)) e
              else case gate_claim ''start-attempt'' (ep_gate e) of
                (Inl err, _) \<Rightarrow> fail (invariant_cause (Some err)) e
              | (Inr claim, g) \<Rightarrow>
                  (StartRuns claim, e\<lparr>ep_gate := g, ep_start := Some (new_attempt kind)\<rparr>)))"

text \<open>\<open>waitStart\<close>: \<open>None\<close> when the attempt is done, otherwise the caller's own cancellation.\<close>

definition wait_start :: "go_error option \<Rightarrow> epoch \<Rightarrow> lifecycle_result" where
  "wait_start ctx_err e =
     (case ctx_err of
        None \<Rightarrow> lifecycle_result_of e
      | Some err \<Rightarrow>
          if lifecycle_valid (lifecycle_result_of e) then lifecycle_result_of e
          else not_admitted AdmissionCallerPreCanceled (Some err))"

definition start_owner_gone :: "go_error option \<Rightarrow> epoch \<Rightarrow> epoch" where
  "start_owner_gone err e =
     (case ep_start e of
        None \<Rightarrow> e
      | Some a \<Rightarrow>
          if ep_terminal e = None \<and> sa_phase a \<noteq> StartPhasePrepared \<and> sa_phase a \<noteq> StartPhaseTerminal
          then terminate (canceled_cause err) e else e)"

section \<open>What BIND leaves behind\<close>

definition set_attempt :: "(start_attempt \<Rightarrow> start_attempt) \<Rightarrow> epoch \<Rightarrow> epoch" where
  "set_attempt f e = e\<lparr>ep_start := map_option f (ep_start e)\<rparr>"

definition transfer_ownership :: "attachment_ids \<Rightarrow> epoch \<Rightarrow> go_error option \<times> epoch" where
  "transfer_ownership ids e =
     (case ep_start e of
        None \<Rightarrow> (Some (Sent ErrInvariant), e)
      | Some a \<Rightarrow>
          if sa_phase a \<noteq> StartPhaseBinding \<or> ao_kind (sa_ownership a) \<noteq> OwnershipPending
             \<or> \<not> ids_exact ids
          then (Some (Sent ErrInvariant), e)
          else (None, set_attempt (\<lambda>a. a\<lparr>sa_ownership := exact_ownership ids\<rparr>) e))"

text \<open>If nobody transferred ownership, adopt what the outcome names, or nothing.\<close>

definition adopt_exact :: "attachment_ids \<Rightarrow> start_attempt \<Rightarrow> start_attempt" where
  "adopt_exact ids a =
     (if ids_exact ids \<and> ao_kind (sa_ownership a) = OwnershipPending
      then a\<lparr>sa_ownership := exact_ownership ids\<rparr> else a)"

definition adopt_none :: "start_attempt \<Rightarrow> start_attempt" where
  "adopt_none a =
     (if ao_kind (sa_ownership a) = OwnershipPending then a\<lparr>sa_ownership := no_ownership\<rparr> else a)"

definition text_invariant :: "string \<Rightarrow> terminal_cause" where
  "text_invariant t = invariant_cause (Some (ErrText t))"

definition reconcile_attempt :: "bind_outcome \<Rightarrow> start_attempt \<Rightarrow> bool \<times> terminal_cause \<times> start_attempt" where
  "reconcile_attempt o1 a =
     (if sa_phase a \<noteq> StartPhaseBinding
      then (False, text_invariant ''BIND returned for a non-binding attempt'', a)
      else if \<not> bind_outcome_valid o1
      then (False, text_invariant ''invalid BIND outcome'', adopt_none a)
      else case bo_kind o1 of
        BindFailedNoOwner \<Rightarrow>
          (if ao_kind (sa_ownership a) \<noteq> OwnershipPending
           then (False, text_invariant ''BIND no-owner outcome followed an exact transfer'', a)
           else (False, fault_cause (bo_cause o1), a\<lparr>sa_ownership := no_ownership\<rparr>))
      | BindInvalid \<Rightarrow> (False, invariant_cause (bo_cause o1), adopt_none (adopt_exact (bo_ids o1) a))
      | BindOutcomeInvalid \<Rightarrow> (False, text_invariant ''unknown BIND outcome'', adopt_none a)
      | _ \<Rightarrow>
          (if ao_kind (sa_ownership a) \<noteq> OwnershipExact \<or> ao_ids (sa_ownership a) \<noteq> bo_ids o1
           then (False, text_invariant ''BIND exact ownership transfer contradicted its outcome'',
                 adopt_exact (bo_ids o1) a)
           else if bo_kind o1 = BindSucceededExact then (True, no_cause, a)
           else (False, fault_cause (bo_cause o1), a)))"

definition reconcile_bind :: "bind_outcome \<Rightarrow> epoch \<Rightarrow> (bool \<times> terminal_cause) \<times> epoch" where
  "reconcile_bind o1 e =
     (case ep_start e of
        None \<Rightarrow> ((False, text_invariant ''BIND returned for a non-binding attempt''), e)
      | Some a \<Rightarrow>
          (case reconcile_attempt o1 a of (ok, c, a') \<Rightarrow> ((ok, c), e\<lparr>ep_start := Some a'\<rparr>)))"

section \<open>Opening a cut\<close>

definition fresh_cut :: "cut \<Rightarrow> int \<Rightarrow> history_request option \<Rightarrow> active_cut" where
  "fresh_cut c rows req =
     \<lparr>ac_cut = c, ac_history_rows = rows, ac_request = req, ac_cut_issued = False,
      ac_capture_ready = False, ac_history = [], ac_truncated = False, ac_prepared = False\<rparr>"

text \<open>The next cut number, its marker and the cut: common to the four places that open one.\<close>

definition next_cut :: "cut_kind \<Rightarrow> epoch \<Rightarrow> (go_error + cut) \<times> epoch" where
  "next_cut kind e =
     (let e1 = e\<lparr>ep_next_cut := ep_next_cut e + 1\<rparr>
      in (new_cut (ep_next_cut e1) kind (cut_marker e1 (ep_next_cut e1) (ao_ids (start_owner e1))), e1))"

definition open_cut ::
    "cut_kind \<Rightarrow> int \<Rightarrow> history_request option \<Rightarrow> epoch \<Rightarrow> go_error option \<times> epoch" where
  "open_cut kind rows req e =
     (case next_cut kind e of
        (Inl err, e1) \<Rightarrow> (Some err, e1)
      | (Inr c, e1) \<Rightarrow> (None, e1\<lparr>ep_active := Some (fresh_cut c rows req)\<rparr>))"

text \<open>The first cut adopts what the PTY wrote since the attempt began as its replay.\<close>

definition prepare_start_cut :: "int \<Rightarrow> epoch \<Rightarrow> terminal_cause \<times> epoch" where
  "prepare_start_cut now e =
     (case ep_start e of
        None \<Rightarrow> (text_invariant ''illegal INITIAL/RECONNECT CUT transition'', e)
      | Some a \<Rightarrow>
          if sa_phase a \<noteq> StartPhaseBinding \<or> sa_pending_cause a \<noteq> None
             \<or> ao_kind (sa_ownership a) \<noteq> OwnershipExact \<or> ep_active e \<noteq> None
             \<or> a_state (ep_protocol e) \<noteq> StateAwaitPrepare
          then (text_invariant ''illegal INITIAL/RECONNECT CUT transition'', e)
          else case begin_external now e of
            (Some err, e1) \<Rightarrow> (fault_cause (Some err), e1)
          | (None, e1) \<Rightarrow>
              (case next_cut (sa_kind a) e1 of
                 (Inl err, e2) \<Rightarrow> (invariant_cause (Some err), e2)
               | (Inr c, e2) \<Rightarrow>
                   (case adopt_pre_marker c (Some (sa_replay a)) of
                      (ad, c', replay) \<Rightarrow>
                        if \<not> replay_adoption_valid ad \<or> ra_kind ad \<noteq> ReplayAdopted
                        then (invariant_cause (ra_cause ad), e2)
                        else (no_cause,
                          set_attempt (\<lambda>a. a\<lparr>sa_replay := (case replay of None \<Rightarrow> [] | Some r \<Rightarrow> r),
                              sa_phase := StartPhaseCutting\<rparr>)
                            (e2\<lparr>ep_active := Some (fresh_cut c' (ep_history_rows e2) None)\<rparr>)))))"

text \<open>
  The section after BIND: \<open>True\<close> when the attempt goes on to issue its cut. A terminal request
  recorded while BIND ran wins over BIND's own outcome.
\<close>

definition start_bound :: "bind_outcome \<Rightarrow> int \<Rightarrow> epoch \<Rightarrow> bool \<times> epoch" where
  "start_bound o1 now e =
     (if ep_terminal e \<noteq> None then (False, e)
      else case reconcile_bind o1 e of
        ((proceed, failure), e1) \<Rightarrow>
          (case attempt_cause e1 of
             Some c \<Rightarrow> (False, terminate c e1)
           | None \<Rightarrow>
               if \<not> proceed then (False, terminate failure e1)
               else case prepare_start_cut now e1 of
                 (cause, e2) \<Rightarrow>
                   if cause_valid cause then (False, terminate cause e2) else (True, e2)))"

section \<open>PREPARE\<close>

definition po_wait :: prepare_outcome where
  "po_wait = \<lparr>po_kind = PrepareWaiting, po_cause = no_cause, po_result = no_result\<rparr>"
definition po_done :: prepare_outcome where "po_done = po_wait\<lparr>po_kind := PreparePublished\<rparr>"
definition po_failed :: "terminal_cause \<Rightarrow> prepare_outcome" where
  "po_failed c = po_wait\<lparr>po_kind := PrepareFailed, po_cause := c\<rparr>"
definition po_already :: "epoch \<Rightarrow> prepare_outcome" where
  "po_already e = po_wait\<lparr>po_kind := PrepareAlreadyTerminal, po_result := already_terminal (ep_terminal e)\<rparr>"

definition attempt_ready :: "start_attempt option \<Rightarrow> bool" where
  "attempt_ready a \<longleftrightarrow>
     (case a of
        None \<Rightarrow> False
      | Some a \<Rightarrow> sa_phase a = StartPhaseAwaitingPrepare \<and> sa_pending_cause a = None
          \<and> ao_kind (sa_ownership a) = OwnershipExact)"

definition request_issued :: "active_cut \<Rightarrow> bool" where
  "request_issued a \<longleftrightarrow>
     (case ac_request a of None \<Rightarrow> False | Some r \<Rightarrow> hr_phase r = HistoryIssued)"

definition prepare_frame :: "epoch \<Rightarrow> active_cut \<Rightarrow> frame" where
  "prepare_frame e a =
     (case public_identity (ep_source e) of
        (_, columns, rows) \<Rightarrow>
          let f = (base_frame FramePrepare (ep_source_id e) (ep_epoch e))
                    \<lparr>f_cut := cut_id (ac_cut a), f_kind := cut_kind_of (ac_cut a),
                     f_columns := columns, f_rows := rows\<rparr>;
              g = (if \<not> eg_owns_output (ep_egress e)
                   then f\<lparr>f_history := ac_history a, f_replay := pre_marker (ac_cut a),
                          f_truncated := ac_truncated a\<rparr> else f)
          in if cut_kind_of (ac_cut a) = CutHistory
             then g\<lparr>f_request := (case ac_request a of None \<Rightarrow> 0 | Some r \<Rightarrow> hr_request r),
                    f_effective_history_rows := ac_history_rows a\<rparr>
             else g)"

definition maybe_publish_prepare :: "epoch \<Rightarrow> prepare_outcome \<times> epoch" where
  "maybe_publish_prepare e =
     (if ep_terminal e \<noteq> None then (po_already e, e)
      else case ep_active e of
        None \<Rightarrow> (po_failed (text_invariant ''PREPARE has no active cut''), e)
      | Some a \<Rightarrow>
          if ac_prepared a \<or> \<not> ac_capture_ready a \<or> \<not> marker_found (ac_cut a) then (po_wait, e)
          else if admission_kind (cut_kind_of (ac_cut a)) \<and> \<not> attempt_ready (ep_start e)
          then (po_failed (text_invariant ''PREPARE contradicted its start attempt''), e)
          else if cut_kind_of (ac_cut a) = CutHistory \<and> \<not> request_issued a
          then (po_failed (text_invariant ''HISTORY PREPARE has no issued request''), e)
          else case publish_frame (prepare_frame e a) e of
            (Some err, e1) \<Rightarrow> (po_failed (fault_cause (Some err)), e1)
          | (None, e1) \<Rightarrow>
              let e2 = e1\<lparr>ep_active := Some (a\<lparr>ac_prepared := True\<rparr>)\<rparr>
              in (po_done,
                  if admission_kind (cut_kind_of (ac_cut a))
                  then set_attempt (\<lambda>s. s\<lparr>sa_result := prepared_result, sa_phase := StartPhasePrepared,
                         sa_done := True\<rparr>) e2
                  else e2))"

section \<open>Issuing and completing a cut\<close>

text \<open>
  \<open>runCut\<close> before and after the source's CUT transaction; \<open>attempt\<close> tells whether the caller
  is the start attempt. \<open>None\<close> means that the transaction is run next.
\<close>

definition cut_ids :: "bool \<Rightarrow> epoch \<Rightarrow> attachment_ids" where
  "cut_ids attempt e =
     (if attempt \<or> ao_kind (start_owner e) = OwnershipExact then ao_ids (start_owner e) else no_ids)"

definition cut_issue :: "u64 \<Rightarrow> epoch \<Rightarrow> prepare_outcome option \<times> epoch" where
  "cut_issue c e =
     (case ep_active e of
        None \<Rightarrow> (Some (po_failed (text_invariant ''CUT issuance contradicted its active owner'')), e)
      | Some a \<Rightarrow>
          if cut_id (ac_cut a) \<noteq> c \<or> ac_cut_issued a
          then (Some (po_failed (text_invariant ''CUT issuance contradicted its active owner'')), e)
          else case ac_request a of
            None \<Rightarrow> (None, e\<lparr>ep_active := Some (a\<lparr>ac_cut_issued := True\<rparr>)\<rparr>)
          | Some r \<Rightarrow>
              if hr_phase r \<noteq> HistoryQueued
              then (Some (po_failed (text_invariant ''history CUT issuance crossed a non-queued request'')),
                    e\<lparr>ep_active := Some (a\<lparr>ac_cut_issued := True\<rparr>)\<rparr>)
              else (None, e\<lparr>ep_active := Some (a\<lparr>ac_cut_issued := True,
                      ac_request := Some (r\<lparr>hr_phase := HistoryIssued\<rparr>)\<rparr>)\<rparr>))"

text \<open>The capture of the pointed-to cut is stored; only the epoch's own active cut is observable.\<close>

definition cut_captured ::
    "bool \<Rightarrow> generation_lease \<Rightarrow> u64 \<Rightarrow> string list \<Rightarrow> bool \<Rightarrow> epoch \<Rightarrow> prepare_outcome \<times> epoch" where
  "cut_captured attempt lease c rows truncated e =
     (if ep_terminal e \<noteq> None then (po_already e, e)
      else case ep_active e of
        None \<Rightarrow> (po_failed (text_invariant ''CUT completion lost its active owner''), e)
      | Some a \<Rightarrow>
          if lease_validate lease (ep_lease e) \<noteq> None \<or> cut_id (ac_cut a) \<noteq> c
          then (po_failed (text_invariant ''CUT completion lost its active owner''), e)
          else
            let e1 = e\<lparr>ep_active := Some (a\<lparr>ac_capture_ready := True, ac_history := rows,
                       ac_truncated := truncated\<rparr>)\<rparr>
            in if \<not> attempt then maybe_publish_prepare e1
               else case ep_start e1 of
                 None \<Rightarrow> (po_failed (text_invariant ''CUT completion contradicted its start attempt''), e1)
               | Some s \<Rightarrow>
                   if sa_phase s \<noteq> StartPhaseCutting
                   then (po_failed (text_invariant ''CUT completion contradicted its start attempt''), e1)
                   else maybe_publish_prepare
                     (set_attempt (\<lambda>s. s\<lparr>sa_phase := StartPhaseAwaitingPrepare\<rparr>) e1))"

definition cut_complete ::
    "bool \<Rightarrow> generation_lease \<Rightarrow> u64 \<Rightarrow> int \<Rightarrow> cut_outcome \<Rightarrow> epoch \<Rightarrow> prepare_outcome \<times> epoch" where
  "cut_complete attempt lease c history_rows o1 e =
     (if \<not> cut_outcome_valid o1 then (po_failed (text_invariant ''invalid CUT outcome''), e)
      else if co_kind o1 = CutFailed then (po_failed (fault_cause (co_cause o1)), e)
      else case bounded_offscreen_rows (co_capture o1) history_rows of
        Inl err \<Rightarrow> (po_failed (fault_cause (Some err)), e)
      | Inr (rows, truncated) \<Rightarrow> cut_captured attempt lease c rows truncated e)"

text \<open>The deadline of a cut that is still the active one is fatal.\<close>

definition cut_deadline :: "generation_lease \<Rightarrow> u64 \<Rightarrow> epoch \<Rightarrow> epoch" where
  "cut_deadline lease c e =
     (if ep_terminal e = None \<and> lease_validate lease (ep_lease e) = None \<and> active_is c e
      then terminate (fault_cause (Some (ErrWrap (''cut '' @ decimal (unat c) @ '' deadline exhausted'')
             [Sent ErrReopenRequired]))) e
      else e)"

definition attempt_exact :: "epoch \<Rightarrow> bool" where
  "attempt_exact e \<longleftrightarrow> ep_start e \<noteq> None \<and> ao_kind (start_owner e) = OwnershipExact"

text \<open>
  \<open>beginOngoingCut\<close> up to the CUT transaction: \<open>Inr\<close> the cut's number and lease, or the error
  the owner loop faults with.
\<close>

definition begin_ongoing_cut :: "epoch \<Rightarrow> (go_error option + (u64 \<times> generation_lease)) \<times> epoch" where
  "begin_ongoing_cut e =
     (case gate_claim ''ongoing-cut'' (ep_gate e) of
        (Inl err, _) \<Rightarrow> (Inl (case epoch_err e of None \<Rightarrow> Some err | x \<Rightarrow> x), e)
      | (Inr claim, g) \<Rightarrow>
          let e1 = e\<lparr>ep_gate := g\<rparr>; fail = (\<lambda>c x. case fail_request c x of (err, x') \<Rightarrow> (Inl err, x'))
          in if ep_terminal e1 \<noteq> None then (Inl (epoch_err e1), e1)
             else if ep_active e1 \<noteq> None \<or> a_state (ep_protocol e1) \<noteq> StateLive \<or> \<not> attempt_exact e1
             then fail (text_invariant ''illegal ONGOING CUT transition'') e1
             else case open_cut CutOngoing (ep_history_rows e1) None e1 of
               (Some err, e2) \<Rightarrow> fail (invariant_cause (Some err)) e2
             | (None, e2) \<Rightarrow> (Inr (ep_next_cut e2, ep_lease e2), e2))"

text \<open>\<open>beginPendingHistory\<close> likewise; it reports to nobody.\<close>

definition begin_pending_history :: "int \<Rightarrow> epoch \<Rightarrow> (u64 \<times> generation_lease) option \<times> epoch" where
  "begin_pending_history now e =
     (case gate_claim ''history-cut'' (ep_gate e) of
        (Inl err, _) \<Rightarrow> (None, if epoch_err e = None then terminate (fault_cause (Some err)) e else e)
      | (Inr claim, g) \<Rightarrow>
          let e1 = e\<lparr>ep_gate := g\<rparr>
          in if ep_terminal e1 \<noteq> None then (None, e1)
             else case ep_pending_history e1 of
               None \<Rightarrow> (None, e1)
             | Some req \<Rightarrow>
                 if ep_active e1 \<noteq> None \<or> a_state (ep_protocol e1) \<noteq> StateLive \<or> \<not> attempt_exact e1
                 then (None, e1)
                 else if hr_phase req \<noteq> HistoryQueued
                 then (None, terminate (text_invariant
                        ''pending history request crossed its pre-CUT boundary'') e1)
                 else case begin_external now e1 of
                   (Some err, e2) \<Rightarrow> (None, terminate (fault_cause (Some err)) e2)
                 | (None, e2) \<Rightarrow>
                     (case open_cut CutHistory (hr_rows req) (Some req) (e2\<lparr>ep_pending_history := None\<rparr>) of
                        (Some err, e3) \<Rightarrow> (None, terminate (invariant_cause (Some err)) e3)
                      | (None, e3) \<Rightarrow> (Some (ep_next_cut e3, ep_lease e3), e3)))"

end
