(* ===== verification/Epoch_Frames.thy ===== *)
theory Epoch_Frames
  imports Epoch_Cuts
begin

text \<open>
  The attachment epoch, third part: what arrives. PTY output (\<^verbatim>\<open>PTYBytes\<close>), the browser's
  frames (\<^verbatim>\<open>HandleFrame\<close>), resize and history requests, and finalization. A section that ends in
  \<^verbatim>\<open>e.terminate\<close> or a public error does so here as in the source.
\<close>

section \<open>PTY output\<close>

definition binding_ingress :: "epoch \<Rightarrow> bool" where
  "binding_ingress e \<longleftrightarrow>
     (case ep_start e of
        None \<Rightarrow> False
      | Some a \<Rightarrow> sa_phase a = StartPhaseBinding \<and> lr_kind (sa_result a) = LifecycleResultInvalid)"

text \<open>A failed PREPARE is requested as terminal on the spot; the caller reports the resolved error.\<close>

definition settle_prepare :: "prepare_outcome \<Rightarrow> epoch \<Rightarrow> go_error option \<times> epoch" where
  "settle_prepare po e =
     (case po_kind po of
        PrepareFailed \<Rightarrow>
          (case request_terminal (po_cause po) e of
             (r, e') \<Rightarrow>
               (if rq_kind r = TerminalRequestResolved then public_error (rq_result r)
                else tc_diagnostic (po_cause po), e'))
      | PrepareAlreadyTerminal \<Rightarrow> (public_error (po_result po), e)
      | _ \<Rightarrow> (None, e))"

definition route_active :: "active_cut \<Rightarrow> bytes \<Rightarrow> epoch \<Rightarrow> (bool \<times> go_error option) \<times> epoch" where
  "route_active a data e =
     (case feed_ordinary (ac_cut a) data of
        Inl err \<Rightarrow> ((False, Some err), e)
      | Inr (route, c) \<Rightarrow>
          (case publish_live (route_live route) (e\<lparr>ep_active := Some (a\<lparr>ac_cut := c\<rparr>)\<rparr>) of
             (Some err, e2) \<Rightarrow> ((False, Some err), e2)
           | (None, e2) \<Rightarrow>
               (case maybe_publish_prepare e2 of
                  (po, e3) \<Rightarrow>
                    (case settle_prepare po e3 of
                       (Some err, e4) \<Rightarrow> ((False, Some err), e4)
                     | (None, e4) \<Rightarrow> ((route_activity route, None), e4)))))"

definition route_ordinary :: "bytes \<Rightarrow> epoch \<Rightarrow> (bool \<times> go_error option) \<times> epoch" where
  "route_ordinary data e =
     (case ep_active e of
        Some a \<Rightarrow> route_active a data e
      | None \<Rightarrow>
          if binding_ingress e then
            (case ep_start e of
               None \<Rightarrow> ((False, None), e)
             | Some s \<Rightarrow>
                 (case sa_pending_cause s of
                    Some c \<Rightarrow> ((False, tc_diagnostic c), e)
                  | None \<Rightarrow>
                      if len data > replay_byte_cap - len (sa_replay s) then ((False, Some (Sent ErrSaturated)), e)
                      else ((False, None), e\<lparr>ep_start := Some (s\<lparr>sa_replay := sa_replay s @ data\<rparr>)\<rparr>)))
          else if a_state (ep_protocol e) \<noteq> StateLive \<or> a_cut (ep_protocol e) = 0
          then ((False, Some (Sent ErrOutOfState)), e)
          else case publish_frame (live_frame e (a_cut (ep_protocol e)) data) e of
            (Some err, e1) \<Rightarrow> ((False, Some err), e1)
          | (None, e1) \<Rightarrow> ((True, None), e1))"

definition route_marker :: "bytes \<Rightarrow> epoch \<Rightarrow> (bool \<times> go_error option) \<times> epoch" where
  "route_marker payload e =
     (case ep_active e of
        None \<Rightarrow> ((False, Some (ErrText ''reserved Persea marker outside active cut'')), e)
      | Some a \<Rightarrow>
          (case accept_marker (ac_cut a) payload of
             Inl err \<Rightarrow> ((False, Some err), e)
           | Inr c \<Rightarrow>
               (case maybe_publish_prepare (e\<lparr>ep_active := Some (a\<lparr>ac_cut := c\<rparr>)\<rparr>) of
                  (po, e1) \<Rightarrow> (case settle_prepare po e1 of (err, e2) \<Rightarrow> ((False, err), e2)))))"

text \<open>One ingress event, which is logged first.\<close>

definition route_event :: "ingress_event \<Rightarrow> epoch \<Rightarrow> (bool \<times> go_error option) \<times> epoch" where
  "route_event ev e =
     (let e1 = e\<lparr>ep_events := ep_events e @ [ev]\<rparr>
      in case ev of IngressPrivateMarker p \<Rightarrow> route_marker p e1 | IngressOrdinary d \<Rightarrow> route_ordinary d e1)"

fun route_events :: "ingress_event list \<Rightarrow> bool \<Rightarrow> epoch \<Rightarrow> (bool \<times> go_error option) \<times> epoch" where
  "route_events [] activity e = ((activity, None), e)"
| "route_events (ev # evs) activity e =
     (case route_event ev e of
        ((act, Some err), e1) \<Rightarrow> ((activity, Some err), e1)
      | ((act, None), e1) \<Rightarrow> route_events evs (activity \<or> act) e1)"

text \<open>A terminal request was recorded while BIND still runs.\<close>

definition binding_ended :: "epoch \<Rightarrow> bool" where
  "binding_ended e \<longleftrightarrow>
     (case ep_start e of
        None \<Rightarrow> False
      | Some a \<Rightarrow> sa_phase a = StartPhaseBinding \<and> sa_pending_cause a \<noteq> None)"

text \<open>The locked section of \<open>PTYBytes\<close>: the error returned, or whether there was activity.\<close>

definition pty_bytes_locked :: "bytes \<Rightarrow> epoch \<Rightarrow> (go_error option \<times> bool) \<times> epoch" where
  "pty_bytes_locked data e =
     (if data = [] \<or> len data > max_egress_bytes then ((Some (Sent ErrMalformed), False), e)
      else if ep_terminal e \<noteq> None then ((epoch_err e, False), e)
      else if ep_active e = None \<and> \<not> binding_ingress e
              \<and> (a_state (ep_protocol e) \<noteq> StateLive \<or> a_cut (ep_protocol e) = 0)
      then ((Some (Sent ErrOutOfState), False), e)
      else if binding_ended e then ((Option.bind (attempt_cause e) tc_diagnostic, False), e)
      else case ingress_feed (ep_ingress e) data of
        (events, ingress_err, f) \<Rightarrow>
          (case route_events events False (e\<lparr>ep_ingress := f, ep_fed := ep_fed e @ data\<rparr>) of
             ((activity, err), e1) \<Rightarrow>
               (case (if err = None then ingress_err else err) of
                  None \<Rightarrow> ((None, activity), e1)
                | Some x \<Rightarrow>
                    (case request_terminal (fault_cause (Some x)) e1 of
                       (r, e2) \<Rightarrow>
                         ((if rq_kind r = TerminalRequestResolved then public_error (rq_result r)
                           else Some x, False), e2)))))"

text \<open>A scheduler command after the unlock; its refusal ends the epoch.\<close>

definition sched_or_fault :: "sched_event \<Rightarrow> epoch \<Rightarrow> go_error option \<times> epoch" where
  "sched_or_fault ev e =
     (case sched_call ev e of
        (None, e1) \<Rightarrow> (None, e1)
      | (Some err, e1) \<Rightarrow> let e2 = terminate (fault_cause (Some err)) e1 in (epoch_err e2, e2))"

definition pty_bytes :: "int \<times> int \<Rightarrow> bytes \<Rightarrow> epoch \<Rightarrow> go_error option \<times> epoch" where
  "pty_bytes clock data e =
     (case pty_bytes_locked data e of
        ((Some err, _), e1) \<Rightarrow> (Some err, e1)
      | ((None, activity), e1) \<Rightarrow>
          if activity \<and> \<not> eg_owns_output (ep_egress e1)
          then sched_or_fault (SchedActivity (fst clock) (snd clock)) e1 else (None, e1))"

section \<open>The browser's frames\<close>

text \<open>
  How the switch of \<open>HandleFrame\<close> leaves: with an error that concerns only the request, with an
  internal error, or done; then whether the active cut is complete and whether it is to be retried.
\<close>

datatype handled = Refused go_error | Failed go_error | Handled bool bool

definition transitional_ongoing :: "epoch \<Rightarrow> bool" where
  "transitional_ongoing e \<longleftrightarrow>
     (case ep_active e of
        None \<Rightarrow> False
      | Some a \<Rightarrow> ac_prepared a
          \<and> (cut_kind_of (ac_cut a) = CutOngoing \<or> cut_kind_of (ac_cut a) = CutHistory)
          \<and> (a_state (ep_protocol e) = StatePrepared \<or> a_state (ep_protocol e) = StateReady))"

text \<open>
  \<open>releaseTransitionalLocked\<close> works on the automaton's successor and the frames to send. The model
  keeps, in place of the latter, the whole exchange of the transition, whose frames from the server are
  those frames; the pump's mode changes stay even when a later step fails.
\<close>

record release =
  rl_next :: automaton
  rl_input :: input_pump
  rl_trail :: exchange

definition server_frames :: "exchange \<Rightarrow> frame list" where
  "server_frames tr = map snd (filter (\<lambda>x. fst x = FromServer) tr)"

definition mode_frame :: "string \<Rightarrow> u64 \<Rightarrow> mode \<Rightarrow> frame" where
  "mode_frame source epoch m = (base_frame FrameMode source epoch)\<lparr>f_mode := m\<rparr>"

definition mode_request_frame :: "string \<Rightarrow> u64 \<Rightarrow> mode \<Rightarrow> frame" where
  "mode_request_frame source epoch m = (base_frame FrameModeRequest source epoch)\<lparr>f_mode := m\<rparr>"

definition release_mode :: "string \<Rightarrow> u64 \<Rightarrow> bool \<Rightarrow> mode \<Rightarrow> release \<Rightarrow> go_error option \<times> release" where
  "release_mode source epoch have_input m r =
     (if m = ModeObserve \<and> have_input
      then (None, r\<lparr>rl_trail := rl_trail r
              @ [(FromServer, (mode_frame source epoch (a_mode (rl_next r)))
                                \<lparr>f_reason := ''retry_after_cut''\<rparr>)]\<rparr>)
      else case automaton_apply FromBrowser (mode_request_frame source epoch m) (rl_next r) of
        Inl err \<Rightarrow> (Some err, r)
      | Inr n1 \<Rightarrow>
          (case automaton_apply FromServer (mode_frame source epoch m) n1 of
             Inl err \<Rightarrow> (Some err, r\<lparr>rl_next := n1\<rparr>)
           | Inr n2 \<Rightarrow>
               (case pump_set_mode m (rl_input r) of
                  (Some err, p) \<Rightarrow> (Some err, r\<lparr>rl_next := n2, rl_input := p\<rparr>)
                | (None, p) \<Rightarrow>
                    (None, \<lparr>rl_next = n2, rl_input = p,
                       rl_trail = rl_trail r @ [(FromBrowser, mode_request_frame source epoch m),
                                                (FromServer, mode_frame source epoch m)]\<rparr>))))"

fun release_modes ::
    "string \<Rightarrow> u64 \<Rightarrow> bool \<Rightarrow> mode list \<Rightarrow> release \<Rightarrow> go_error option \<times> release" where
  "release_modes source epoch have_input [] r = (None, r)"
| "release_modes source epoch have_input (m # ms) r =
     (case release_mode source epoch have_input m r of
        (Some err, r') \<Rightarrow> (Some err, r')
      | (None, r') \<Rightarrow> release_modes source epoch have_input ms r')"

definition release_transitional :: "epoch \<Rightarrow> automaton \<Rightarrow> exchange \<Rightarrow> go_error option \<times> release" where
  "release_transitional e next trail =
     (let r = \<lparr>rl_next = next, rl_input = ep_input e, rl_trail = trail\<rparr>
      in if a_state next \<noteq> StateLive then (Some (Sent ErrInvariant), r)
         else case (if ep_held_input e = [] then None
                    else can_enqueue_batch (ep_source_id e) (ep_epoch e) (ep_held_input e) (ep_input e)) of
           Some err \<Rightarrow> (Some err, r)
         | None \<Rightarrow> release_modes (ep_source_id e) (ep_epoch e) (ep_held_input e \<noteq> []) (ep_held_modes e) r)"

text \<open>
  The common end of READY and DEFER, once the automaton is LIVE again: the held output and the mode
  answers are sent, the held input goes to the pump, the cut is finished.
\<close>

definition live_if_any :: "epoch \<Rightarrow> u64 \<Rightarrow> bytes \<Rightarrow> exchange" where
  "live_if_any e c held = (if held = [] then [] else [(FromServer, live_frame e c held)])"

definition send_frames :: "frame list \<Rightarrow> egress \<Rightarrow> go_error option \<times> egress" where
  "send_frames fs g = (if fs = [] then (None, g) else egress_enqueue_batch fs g)"

definition deliver_transition :: "automaton \<Rightarrow> exchange \<Rightarrow> epoch \<Rightarrow> go_error option \<times> epoch" where
  "deliver_transition next trail e =
     (case release_transitional e next trail of
        (err, r) \<Rightarrow>
          let e1 = e\<lparr>ep_input := rl_input r\<rparr> in
          (case err of
             Some x \<Rightarrow> (Some x, e1)
           | None \<Rightarrow>
               (case send_frames (server_frames (rl_trail r)) (ep_egress e1) of
                  (Some x, _) \<Rightarrow> (Some x, e1)
                | (None, g) \<Rightarrow>
                    let e2 = e1\<lparr>ep_egress := g, ep_protocol := rl_next r, ep_log := ep_log e @ rl_trail r\<rparr> in
                    if ep_held_input e2 = [] then (None, clear_transitional e2)
                    else case pump_enqueue_batch (ep_source_id e2) (ep_epoch e2) (ep_held_input e2)
                                (ep_input e2) of
                      (Some x, p) \<Rightarrow> (Some x, e2\<lparr>ep_input := p\<rparr>)
                    | (None, p) \<Rightarrow> (None, clear_transitional (e2\<lparr>ep_input := p\<rparr>)))))"

definition set_request_phase :: "history_phase \<Rightarrow> active_cut \<Rightarrow> active_cut" where
  "set_request_phase ph a = a\<lparr>ac_request := map_option (\<lambda>r. r\<lparr>hr_phase := ph\<rparr>) (ac_request a)\<rparr>"

definition handle_ready :: "frame \<Rightarrow> epoch \<Rightarrow> handled \<times> epoch" where
  "handle_ready f e =
     (case ep_active e of
        None \<Rightarrow> (Refused (Sent ErrStale), e)
      | Some a \<Rightarrow>
          if \<not> ac_prepared a \<or> cut_id (ac_cut a) \<noteq> f_cut f then (Refused (Sent ErrStale), e)
          else case automaton_apply FromBrowser f (ep_protocol e) of
            Inl err \<Rightarrow> (Refused err, e)
          | Inr n1 \<Rightarrow>
              let commit = (base_frame FrameCommit (ep_source_id e) (ep_epoch e))\<lparr>f_cut := f_cut f\<rparr> in
              (case automaton_apply FromServer commit n1 of
                 Inl err \<Rightarrow> (Failed err, e)
               | Inr n2 \<Rightarrow>
                   (case deliver_transition n2
                      ([(FromBrowser, f), (FromServer, commit)]
                       @ live_if_any e (f_cut f) (held_bytes (ac_cut a))) e of
                      (Some err, e1) \<Rightarrow> (Failed err, e1)
                    | (None, e1) \<Rightarrow>
                        if cut_kind_of (ac_cut a) = CutHistory \<and> \<not> request_issued a
                        then (Failed (Sent ErrInvariant), e1)
                        else (Handled True False,
                          finish_active
                            (if cut_kind_of (ac_cut a) = CutHistory
                             then e1\<lparr>ep_history_rows := ac_history_rows a\<rparr> else e1)))))"

definition handle_defer :: "frame \<Rightarrow> epoch \<Rightarrow> handled \<times> epoch" where
  "handle_defer f e =
     (case ep_active e of
        None \<Rightarrow> (Refused (Sent ErrStale), e)
      | Some a \<Rightarrow>
          if \<not> ac_prepared a \<or> cut_id (ac_cut a) \<noteq> f_cut f then (Refused (Sent ErrStale), e)
          else if cut_kind_of (ac_cut a) \<noteq> CutOngoing \<and> cut_kind_of (ac_cut a) \<noteq> CutHistory
          then (Failed (Sent ErrReopenRequired), e)
          else case automaton_apply FromBrowser f (ep_protocol e) of
            Inl err \<Rightarrow> (Refused err, e)
          | Inr n1 \<Rightarrow>
              (case deliver_transition n1
                 ([(FromBrowser, f)] @ live_if_any e (f_cut f) (held_bytes (ac_cut a))) e of
                 (Some err, e1) \<Rightarrow> (Failed err, e1)
               | (None, e1) \<Rightarrow>
                   if cut_kind_of (ac_cut a) = CutHistory \<and> \<not> request_issued a
                   then (Failed (Sent ErrInvariant), e1)
                   else (Handled True (cut_kind_of (ac_cut a) = CutOngoing), finish_active e1)))"

definition handle_mode_request :: "frame \<Rightarrow> epoch \<Rightarrow> handled \<times> epoch" where
  "handle_mode_request f e =
     (if transitional_ongoing e then
        (if len (ep_held_modes e) \<ge> max_transitional_modes then (Failed (Sent ErrSaturated), e)
         else (Handled False False, e\<lparr>ep_held_modes := ep_held_modes e @ [f_mode f]\<rparr>))
      else case automaton_apply FromBrowser f (ep_protocol e) of
        Inl err \<Rightarrow> (Refused err, e)
      | Inr n1 \<Rightarrow>
          let reply = mode_frame (ep_source_id e) (ep_epoch e) (f_mode f) in
          (case automaton_apply FromServer reply n1 of
             Inl err \<Rightarrow> (Failed err, e)
           | Inr n2 \<Rightarrow>
               (case pump_set_mode (f_mode f) (ep_input e) of
                  (Some err, p) \<Rightarrow> (Failed err, e\<lparr>ep_input := p\<rparr>)
                | (None, p) \<Rightarrow>
                    (case egress_enqueue reply (ep_egress e) of
                       (Some err, _) \<Rightarrow> (Failed err, e\<lparr>ep_input := snd (pump_set_mode ModeObserve p)\<rparr>)
                     | (None, g) \<Rightarrow>
                         (Handled False False,
                          e\<lparr>ep_input := p, ep_egress := g, ep_protocol := n2,
                            ep_log := ep_log e @ [(FromBrowser, f), (FromServer, reply)]\<rparr>)))))"

definition input_of :: "frame \<Rightarrow> input_item" where
  "input_of f = \<lparr>ii_data = f_data f, ii_id = f_input_id f, ii_generation = 0\<rparr>"

definition handle_input :: "frame \<Rightarrow> epoch \<Rightarrow> handled \<times> epoch" where
  "handle_input f e =
     (if transitional_ongoing e then
        (if a_mode (ep_protocol e) \<noteq> ModeControl then (Refused (Sent ErrObserveOnly), e)
         else if len (ep_held_input e) \<ge> max_input_frames
                 \<or> len (f_data f) > max_input_bytes - ep_held_input_bytes e
         then (Failed (Sent ErrSaturated), e)
         else (Handled False False,
               e\<lparr>ep_held_input := ep_held_input e @ [input_of f],
                 ep_held_input_bytes := ep_held_input_bytes e + len (f_data f),
                 ep_accepted := ep_accepted e @ [input_of f]\<rparr>))
      else case automaton_apply FromBrowser f (ep_protocol e) of
        Inl err \<Rightarrow> (Refused err, e)
      | Inr n1 \<Rightarrow>
          (case pump_enqueue (f_source f) (f_epoch f) (input_of f) (ep_input e) of
             (Some err, p) \<Rightarrow> (Failed err, e\<lparr>ep_input := p\<rparr>)
           | (None, p) \<Rightarrow>
               (Handled False False,
                e\<lparr>ep_input := p, ep_log := ep_log e @ [(FromBrowser, f)],
                  ep_accepted := ep_accepted e @ [input_of f]\<rparr>)))"

definition handle_switch :: "frame \<Rightarrow> epoch \<Rightarrow> handled \<times> epoch" where
  "handle_switch f e =
     (case f_type f of
        FrameReady \<Rightarrow> handle_ready f e
      | FrameDefer \<Rightarrow> handle_defer f e
      | FrameModeRequest \<Rightarrow> handle_mode_request f e
      | FrameInput \<Rightarrow> handle_input f e
      | _ \<Rightarrow> (Refused (Sent ErrOutOfState), e))"

text \<open>The locked section: the error returned, and whether a cut completed and is to be retried.\<close>

definition handle_frame_locked :: "frame \<Rightarrow> epoch \<Rightarrow> (go_error option \<times> bool \<times> bool) \<times> epoch" where
  "handle_frame_locked f e =
     (case validate f of
        Some err \<Rightarrow> ((Some err, False, False), e)
      | None \<Rightarrow>
          if ep_terminal e \<noteq> None then ((epoch_err e, False, False), e)
          else if f_source f \<noteq> ep_source_id e \<or> f_epoch f \<noteq> ep_epoch e
          then ((Some (Sent ErrStale), False, False), e)
          else case handle_switch f e of
            (Refused err, e1) \<Rightarrow> ((Some err, False, False), e1)
          | (Handled complete retry, e1) \<Rightarrow> ((None, complete, retry), e1)
          | (Failed err, e1) \<Rightarrow>
              (case request_terminal (fault_cause (Some err)) e1 of
                 (r, e2) \<Rightarrow>
                   ((if rq_kind r = TerminalRequestResolved then public_error (rq_result r) else Some err,
                     False, False), e2)))"

definition handle_frame :: "int \<times> int \<Rightarrow> frame \<Rightarrow> epoch \<Rightarrow> go_error option \<times> epoch" where
  "handle_frame clock f e =
     (case handle_frame_locked f e of
        ((Some err, _), e1) \<Rightarrow> (Some err, e1)
      | ((None, complete, retry), e1) \<Rightarrow>
          if complete
          then sched_or_fault (SchedComplete (retry \<and> \<not> eg_owns_output (ep_egress e1)) (fst clock) (snd clock)) e1
          else (None, e1))"

section \<open>Resize and history requests\<close>

definition resize_begin :: "bool \<Rightarrow> frame \<Rightarrow> int \<Rightarrow> epoch \<Rightarrow> (go_error option + (u64 \<times> generation_lease)) \<times> epoch" where
  "resize_begin have_ctx f now e =
     (if \<not> have_ctx \<or> f_type f \<noteq> FrameResize then (Inl (Some (Sent ErrMalformed)), e)
      else case validate f of
        Some err \<Rightarrow> (Inl (Some err), e)
      | None \<Rightarrow>
          (case gate_claim ''resize'' (ep_gate e) of
             (Inl err, _) \<Rightarrow> (Inl (case epoch_err e of None \<Rightarrow> Some err | x \<Rightarrow> x), e)
           | (Inr claim, g) \<Rightarrow>
               let e1 = e\<lparr>ep_gate := g\<rparr>; fail = (\<lambda>c x. case fail_request c x of (err, x') \<Rightarrow> (Inl err, x'))
               in if ep_terminal e1 \<noteq> None then (Inl (epoch_err e1), e1)
                  else if f_source f \<noteq> ep_source_id e1 \<or> f_epoch f \<noteq> ep_epoch e1 \<or> ep_active e1 \<noteq> None
                       \<or> a_state (ep_protocol e1) \<noteq> StateLive \<or> a_mode (ep_protocol e1) \<noteq> ModeControl
                       \<or> \<not> attempt_exact e1
                  then (Inl (Some (Sent ErrOutOfState)), e1)
                  else case automaton_apply FromBrowser f (ep_protocol e1) of
                    Inl err \<Rightarrow> (Inl (Some err), e1)
                  | Inr next \<Rightarrow>
                      (case begin_external now e1 of
                         (Some err, e2) \<Rightarrow> fail (fault_cause (Some err)) e2
                       | (None, e2) \<Rightarrow>
                           (case open_cut CutResize (ep_history_rows e2) None e2 of
                              (Some err, e3) \<Rightarrow> fail (invariant_cause (Some err)) e3
                            | (None, e3) \<Rightarrow>
                                (Inr (ep_next_cut e3, ep_lease e3),
                                 e3\<lparr>ep_protocol := next, ep_log := ep_log e3 @ [(FromBrowser, f)]\<rparr>)))))"

text \<open>
  \<open>abandonResize\<close> up to its unlock: \<open>Inr\<close> whether bytes were released, or the public error.
\<close>

definition abandon_resize :: "u64 \<Rightarrow> generation_lease \<Rightarrow> epoch \<Rightarrow> (go_error option + bool) \<times> epoch" where
  "abandon_resize c lease e =
     (let fail = (\<lambda>k x. case fail_request k x of (err, x') \<Rightarrow> (Inl err, x'))
      in if ep_terminal e \<noteq> None then (Inl (epoch_err e), e)
         else case ep_active e of
           None \<Rightarrow> fail (text_invariant ''RESIZE abandonment contradicted its active cut'') e
         | Some a \<Rightarrow>
             if lease_validate lease (ep_lease e) \<noteq> None \<or> cut_id (ac_cut a) \<noteq> c \<or> ac_cut_issued a
             then fail (text_invariant ''RESIZE abandonment contradicted its active cut'') e
             else
               (case publish_live (pre_marker (ac_cut a)) e of
                  (Some x, e1) \<Rightarrow> fail (fault_cause (Some x)) e1
                | (None, e1) \<Rightarrow> (Inr (pre_marker (ac_cut a) \<noteq> []), finish_active e1)))"

text \<open>
  What follows the source's RESIZE transaction, with its error and the source it leaves behind:
  \<open>Inr True\<close> goes on to issue the cut, \<open>Inr False\<close> is an abandoned request whose scheduler hold
  is still to be completed with the given retry.
\<close>

datatype resize_next = ResizeReturns "go_error option" | ResizeAbandoned bool go_error | ResizeCuts

definition resize_answered ::
    "u64 \<Rightarrow> generation_lease \<Rightarrow> go_error option \<Rightarrow> pinned_source \<Rightarrow> epoch \<Rightarrow> resize_next \<times> epoch" where
  "resize_answered c lease err s e =
     (let e0 = e\<lparr>ep_source := s\<rparr>
      in case err of
           None \<Rightarrow> (ResizeCuts, e0)
         | Some x \<Rightarrow>
             if is_resize_refusal x then
               (case abandon_resize c lease e0 of
                  (Inl p, e1) \<Rightarrow> (ResizeReturns p, e1)
                | (Inr released, e1) \<Rightarrow>
                    (ResizeAbandoned (released \<and> \<not> eg_owns_output (ep_egress e1))
                       (ErrWrap [] [Sent ErrResizeFailed, x]), e1))
             else (case fail_request (fault_cause (Some x)) e0 of (p, e1) \<Rightarrow> (ResizeReturns p, e1)))"

definition request_matches :: "frame \<Rightarrow> history_request option \<Rightarrow> bool" where
  "request_matches f r \<longleftrightarrow>
     (case r of None \<Rightarrow> False | Some h \<Rightarrow> hr_request h = f_request f \<and> hr_rows h = f_history_rows f)"

definition request_history :: "frame \<Rightarrow> epoch \<Rightarrow> go_error option \<times> epoch" where
  "request_history f e =
     (if f_type f \<noteq> FrameHistory then (Some (Sent ErrMalformed), e)
      else case validate f of
        Some err \<Rightarrow> (Some err, e)
      | None \<Rightarrow>
          if ep_terminal e \<noteq> None then (epoch_err e, e)
          else if f_source f \<noteq> ep_source_id e \<or> f_epoch f \<noteq> ep_epoch e then (Some (Sent ErrStale), e)
          else case automaton_apply FromBrowser f (ep_protocol e) of
            Inl err \<Rightarrow> (Some err, e)
          | Inr next \<Rightarrow>
              if f_request f \<le> ep_last_history e
              then (if (case ep_active e of None \<Rightarrow> False | Some a \<Rightarrow> request_matches f (ac_request a))
                       \<or> request_matches f (ep_pending_history e)
                    then None else Some (Sent ErrStale), e)
              else
                let set = (\<lambda>x. x\<lparr>ep_pending_history := Some \<lparr>hr_request = f_request f, hr_rows = f_history_rows f,
                                   hr_phase = HistoryQueued\<rparr>,
                                 ep_last_history := f_request f,
                                 ep_log := ep_log x @ [(FromBrowser, f)]\<rparr>)
                in case ep_pending_history e of
                     None \<Rightarrow> (None, set e)
                   | Some h \<Rightarrow>
                       (case supersede_before_issue (Some h) of
                          (Some err, _) \<Rightarrow> fail_request (invariant_cause (Some err)) e
                        | (None, _) \<Rightarrow> (None, set e)))"

section \<open>Finalization and cleanup\<close>

fun finish_events :: "ingress_event list \<Rightarrow> epoch \<Rightarrow> go_error option \<times> epoch" where
  "finish_events [] e = (None, e)"
| "finish_events (ev # evs) e =
     (case ev of
        IngressPrivateMarker p \<Rightarrow> (Some (ErrText ''private marker completed at ingress EOF''), e)
      | IngressOrdinary d \<Rightarrow>
          (case route_event ev e of
             ((_, Some err), e1) \<Rightarrow> (Some err, e1)
           | ((_, None), e1) \<Rightarrow> finish_events evs e1))"

definition finish_ingress :: "epoch \<Rightarrow> go_error option \<times> epoch" where
  "finish_ingress e =
     (case ingress_finish (ep_ingress e) of
        (Inl err, f) \<Rightarrow> (Some err, e\<lparr>ep_ingress := f\<rparr>)
      | (Inr evs, f) \<Rightarrow> finish_events evs (e\<lparr>ep_ingress := f\<rparr>))"

definition finalize_begin :: "epoch \<Rightarrow> terminal_request \<times> epoch" where
  "finalize_begin e =
     (case ep_ctx_err e of
        Some err \<Rightarrow> request_terminal (canceled_cause (Some err)) e
      | None \<Rightarrow>
          (case finish_ingress e of
             (Some err, e1) \<Rightarrow> request_terminal (fault_cause (Some err)) e1
           | (None, e1) \<Rightarrow> request_terminal orderly_cause e1))"

text \<open>
  The cleanup obligation, with the answer of the source's CLEANUP transaction, which is asked only for
  an exact attachment; the identities it is asked for are logged.
\<close>

definition execute_cleanup :: "go_error option \<Rightarrow> attachment_ownership \<Rightarrow> epoch \<Rightarrow> epoch" where
  "execute_cleanup result own e =
     (let c = ep_cleanup e
      in if cl_complete c then e
         else case ao_kind own of
           OwnershipNone \<Rightarrow> e\<lparr>ep_cleanup := c\<lparr>cl_err := None, cl_complete := True\<rparr>\<rparr>
         | OwnershipExact \<Rightarrow>
             e\<lparr>ep_cleanup := c\<lparr>cl_err := result, cl_complete := (result = None)\<rparr>,
               ep_cleaned := ep_cleaned e @ [ao_ids own]\<rparr>
         | _ \<Rightarrow> e\<lparr>ep_cleanup := c\<lparr>cl_err := Some (Sent ErrInvariant)\<rparr>\<rparr>)"

text \<open>The end of \<open>Finalize\<close>, after the teardown: report once, then retry the cleanup.\<close>

definition finalize_report :: "go_error option \<Rightarrow> epoch \<Rightarrow> go_error option \<times> epoch" where
  "finalize_report result e =
     (let c = ep_cleanup e
      in if \<not> cl_complete c \<and> cl_err c \<noteq> None \<and> \<not> cl_reported c
         then (errors_join [cl_teardown_err c, cl_err c], e\<lparr>ep_cleanup := c\<lparr>cl_reported := True\<rparr>\<rparr>)
         else
           let e1 = (if cl_complete c then e
                     else case ep_terminal e of None \<Rightarrow> e | Some t \<Rightarrow> execute_cleanup result (te_ownership t) e);
               c1 = ep_cleanup e1
           in (if cl_complete c1 then cl_teardown_err c1 else errors_join [cl_teardown_err c1, cl_err c1], e1))"

end
