(* ===== verification/Epoch.thy ===== *)
theory Epoch
  imports Epoch_Frames
begin

text \<open>
  The attachment epoch, last part: its teardown goroutine and the step relation. A step is one
  locked section of \<^verbatim>\<open>internal/terminal/epoch.go\<close>, or one step of the component goroutines it
  owns; what the environment answers (contexts, clock readings, the tmux transactions, the PTY and
  frame writers) comes with the event. Sections run in any order here, a superset of the orders the
  goroutines allow, except that a cut completes only once it was issued; a section that finds itself out
  of place refuses as the code does.
\<close>

section \<open>Teardown\<close>

text \<open>
  The teardown goroutine in program order; each event is what it waits for next. The last one carries
  the answers of CLEANUP and, when there are lifecycle effects, of \<^verbatim>\<open>ReleaseAttachment\<close>.
\<close>

datatype teardown_event =
    TdScheduler
  | TdInput "go_error option"
  | TdOwner
  | TdGate
  | TdEgress
  | TdCleanup "go_error option" "go_error option option"

definition teardown_cleanup :: "go_error option \<Rightarrow> go_error option option \<Rightarrow> terminal_result \<Rightarrow> epoch \<Rightarrow> epoch" where
  "teardown_cleanup result release t e =
     (let err1 = errors_join ([te_end_err t] @ ep_joined e);
          e1 = execute_cleanup result (te_ownership t) e;
          err2 = (case release of None \<Rightarrow> err1 | Some r \<Rightarrow> errors_join [err1, r])
      in e1\<lparr>ep_cleanup := (ep_cleanup e1)\<lparr>cl_teardown_err := err2\<rparr>, ep_teardown := TeardownDone\<rparr>)"

definition sched_free :: "epoch \<Rightarrow> bool" where
  "sched_free e \<longleftrightarrow> sch_done (ep_scheduler e) \<or> \<not> sch_sending (ep_scheduler e)"

definition teardown_step :: "teardown_event \<Rightarrow> epoch \<Rightarrow> epoch" where
  "teardown_step ev e =
     (case ev of
        TdScheduler \<Rightarrow>
          if ep_teardown e = TeardownStarted \<and> sched_free e
          then e\<lparr>ep_scheduler := sched_next (ep_scheduler e) SchedStop, ep_teardown := TeardownScheduler\<rparr> else e
      | TdInput close_err \<Rightarrow>
          if ep_teardown e = TeardownScheduler \<and> ip_done (ep_input e)
          then e\<lparr>ep_input := pump_seal (ep_input e),
                 ep_joined := ep_joined e @ [seal_and_stop_result close_err (ep_input e)],
                 ep_teardown := TeardownInput\<rparr> else e
      | TdOwner \<Rightarrow> if ep_teardown e = TeardownInput then e\<lparr>ep_teardown := TeardownOwner\<rparr> else e
      | TdGate \<Rightarrow>
          if ep_teardown e = TeardownOwner
          then e\<lparr>ep_gate := gate_seal (ep_gate e), ep_teardown := TeardownGate\<rparr> else e
      | TdEgress \<Rightarrow>
          if ep_teardown e = TeardownGate \<and> wg_closed (ep_gate e)
          then e\<lparr>ep_egress := egress_finish (ep_egress e), ep_teardown := TeardownEgress\<rparr> else e
      | TdCleanup result release \<Rightarrow>
          (case (ep_teardown e, eg_final (ep_egress e), ep_terminal e) of
             (TeardownEgress, Some egress_err, Some t) \<Rightarrow>
               teardown_cleanup result release t (e\<lparr>ep_joined := ep_joined e @ [egress_err]\<rparr>)
           | _ \<Rightarrow> e))"

section \<open>Steps\<close>

datatype epoch_event =
    EvStart bool cut_kind "go_error option"
  | EvStartOwnerGone "go_error option"
  | EvTransfer attachment_ids
  | EvBound bind_outcome int
  | EvCutIssue u64
  | EvCutComplete bool generation_lease u64 int cut_outcome
  | EvCutDeadline generation_lease u64
  | EvPtyBytes bytes
  | EvActivity int int
  | EvFrame frame
  | EvComplete bool int int
  | EvResize bool frame int
  | EvResizeAnswered u64 generation_lease "go_error option" pinned_source
  | EvRequestHistory frame
  | EvPendingHistory int
  | EvOngoingCut
  | EvTerminate terminal_cause
  | EvFinalize
  | EvFinalizeReport "go_error option"
  | EvCancel go_error
  | EvRelease nat
  | EvSchedTimer int
  | EvSchedTakeDue
  | EvInput pump_event
  | EvEgress egress_event
  | EvTeardown teardown_event

text \<open>The events of the pump's and the sender's own goroutines; the others are the epoch's to cause.\<close>

definition pump_own :: "pump_event \<Rightarrow> bool" where
  "pump_own ev \<longleftrightarrow>
     (case ev of PumpSetMode _ \<Rightarrow> False | PumpEnqueue _ _ _ \<Rightarrow> False | PumpSeal \<Rightarrow> False | _ \<Rightarrow> True)"

definition egress_own :: "egress_event \<Rightarrow> bool" where
  "egress_own ev \<longleftrightarrow> (case ev of EgressEnqueue _ \<Rightarrow> False | EgressFinish \<Rightarrow> False | _ \<Rightarrow> True)"

text \<open>A cut completes only after it was issued: both are parts of one call of \<open>runCut\<close>.\<close>

definition cut_unissued :: "u64 \<Rightarrow> epoch \<Rightarrow> bool" where
  "cut_unissued c e \<longleftrightarrow>
     (case ep_active e of None \<Rightarrow> False | Some a \<Rightarrow> cut_id (ac_cut a) = c \<and> \<not> ac_cut_issued a)"

definition epoch_step :: "epoch \<Rightarrow> epoch_event \<Rightarrow> epoch" where
  "epoch_step e ev =
     (case ev of
        EvStart have_ctx kind err \<Rightarrow> snd (start_admit have_ctx kind err e)
      | EvStartOwnerGone err \<Rightarrow> start_owner_gone err e
      | EvTransfer ids \<Rightarrow> snd (transfer_ownership ids e)
      | EvBound o1 now \<Rightarrow> if sched_free e then snd (start_bound o1 now e) else e
      | EvCutIssue c \<Rightarrow> snd (cut_issue c e)
      | EvCutComplete attempt lease c rows o1 \<Rightarrow>
          if cut_unissued c e then e else snd (cut_complete attempt lease c rows o1 e)
      | EvCutDeadline lease c \<Rightarrow> cut_deadline lease c e
      | EvPtyBytes data \<Rightarrow> snd (pty_bytes_locked data e)
      | EvActivity now now' \<Rightarrow> if sched_free e then snd (sched_or_fault (SchedActivity now now') e) else e
      | EvFrame f \<Rightarrow> snd (handle_frame_locked f e)
      | EvComplete retry now now' \<Rightarrow>
          if sched_free e then snd (sched_or_fault (SchedComplete retry now now') e) else e
      | EvResize have_ctx f now \<Rightarrow> if sched_free e then snd (resize_begin have_ctx f now e) else e
      | EvResizeAnswered c lease err s \<Rightarrow> snd (resize_answered c lease err s e)
      | EvRequestHistory f \<Rightarrow> snd (request_history f e)
      | EvPendingHistory now \<Rightarrow> if sched_free e then snd (begin_pending_history now e) else e
      | EvOngoingCut \<Rightarrow> snd (begin_ongoing_cut e)
      | EvTerminate cause \<Rightarrow> terminate cause e
      | EvFinalize \<Rightarrow> snd (finalize_begin e)
      | EvFinalizeReport result \<Rightarrow>
          if ep_teardown e = TeardownDone then snd (finalize_report result e) else e
      | EvCancel err \<Rightarrow>
          e\<lparr>ep_ctx_err := (case ep_ctx_err e of None \<Rightarrow> Some err | x \<Rightarrow> x)\<rparr>
      | EvRelease i \<Rightarrow> e\<lparr>ep_gate := snd (gate_release i (ep_gate e))\<rparr>
      | EvSchedTimer now \<Rightarrow> e\<lparr>ep_scheduler := sched_next (ep_scheduler e) (SchedTimer now)\<rparr>
      | EvSchedTakeDue \<Rightarrow> e\<lparr>ep_scheduler := sched_next (ep_scheduler e) SchedTakeDue\<rparr>
      | EvInput ev \<Rightarrow> if pump_own ev then e\<lparr>ep_input := pump_step (ep_input e) ev\<rparr> else e
      | EvEgress ev \<Rightarrow> if egress_own ev then e\<lparr>ep_egress := egress_step (ep_egress e) ev\<rparr> else e
      | EvTeardown ev \<Rightarrow> teardown_step ev e)"

lemmas epoch_step_cases = epoch_step_def epoch_event.case

end
