(* ===== verification/Epoch_Invariants.thy ===== *)
theory Epoch_Invariants
  imports Epoch
begin

text \<open>
  The epoch's sections change the automaton, the sender and the input pump in few ways. The locales
  state an invariant's obligations for those ways only and prove that every step then keeps it;
  each invariant about one component of the composition is an interpretation. The first locale
  covers what any section may do, which includes ending the epoch; the second adds the browser's
  frames and the component goroutines, in the context of a property \<open>L\<close> every step keeps.
\<close>

lemma frame_types [simp]:
  "f_type (base_frame t s x) = t" "f_type (live_frame e c d) = FrameLive" "f_type (end_frame e k) = FrameEnd"
  "f_type (prepare_frame e a) = FramePrepare" "f_type (mode_frame s x m) = FrameMode"
  "f_type (mode_request_frame s x m) = FrameModeRequest"
  by (simp_all add: base_frame_def live_frame_def end_frame_def prepare_frame_def mode_frame_def
      mode_request_frame_def Let_def split: prod.split)

locale epoch_sections =
  fixes I :: "epoch \<Rightarrow> bool"
  assumes other_fields [simp]:
    "I (e\<lparr>ep_source := x1\<rparr>) = I e" "I (e\<lparr>ep_scheduler := x2\<rparr>) = I e" "I (e\<lparr>ep_ingress := x3\<rparr>) = I e"
    "I (e\<lparr>ep_gate := x4\<rparr>) = I e" "I (e\<lparr>ep_lease := x5\<rparr>) = I e" "I (e\<lparr>ep_history_rows := x6\<rparr>) = I e"
    "I (e\<lparr>ep_ctx_err := x7\<rparr>) = I e" "I (e\<lparr>ep_active := x8\<rparr>) = I e" "I (e\<lparr>ep_next_cut := x9\<rparr>) = I e"
    "I (e\<lparr>ep_start := x10\<rparr>) = I e" "I (e\<lparr>ep_terminal := x11\<rparr>) = I e"
    "I (e\<lparr>ep_pending_history := x12\<rparr>) = I e" "I (e\<lparr>ep_last_history := x13\<rparr>) = I e"
    "I (e\<lparr>ep_closes := x14\<rparr>) = I e" "I (e\<lparr>ep_teardown := x15\<rparr>) = I e" "I (e\<lparr>ep_joined := x16\<rparr>) = I e"
    "I (e\<lparr>ep_cleanup := x17\<rparr>) = I e" "I (e\<lparr>ep_cleaned := x18\<rparr>) = I e" "I (e\<lparr>ep_events := x19\<rparr>) = I e"
    "I (e\<lparr>ep_fed := x20\<rparr>) = I e"
  and publish [simp]: "I e \<Longrightarrow> f_type f \<noteq> FrameMode \<Longrightarrow> I (snd (publish_frame f e))"
  and drop [simp]: "I e \<Longrightarrow> I (drop_transitional e)"
  and seal: "I e \<Longrightarrow> I (e\<lparr>ep_input := pump_seal (ep_input e)\<rparr>)"
begin

lemma publish_live_keeps [simp]: "I e \<Longrightarrow> I (snd (publish_live d e))"
  by (simp add: publish_live_def)

lemma finish_active_keeps [simp]: "I (finish_active e) = I e"
  by (simp add: finish_active_def)

lemma set_attempt_keeps [simp]: "I (set_attempt f e) = I e"
  by (simp add: set_attempt_def)

lemma release_output_keeps [simp]: "I e \<Longrightarrow> I (release_output e)"
  by (simp add: release_output_def Let_def)

lemma seal_keeps [simp]: "I e \<Longrightarrow> p = pump_seal (ep_input e) \<Longrightarrow> I (e\<lparr>ep_input := p\<rparr>)"
  using seal by simp

lemma publish_terminal_keeps [simp]: "I e \<Longrightarrow> I (snd (publish_terminal c e))"
  by (simp add: publish_terminal_def Let_def split_beta)

lemma defer_terminal_keeps [simp]: "I (defer_terminal c e) = I e"
  by (simp add: defer_terminal_def)

lemma request_terminal_keeps [simp]: "I e \<Longrightarrow> I (snd (request_terminal c e))"
  by (simp add: request_terminal_def Let_def split_beta)

lemma terminate_keeps [simp]: "I e \<Longrightarrow> I (terminate c e)"
  by (simp add: terminate_def)

lemma fail_request_keeps [simp]: "I e \<Longrightarrow> I (snd (fail_request c e))"
  by (simp add: fail_request_def split_beta)

lemma sched_call_keeps [simp]: "I (snd (sched_call ev e)) = I e"
  by (simp add: sched_call_def split_beta split: sched_answer.split)

lemma begin_external_keeps [simp]: "I (snd (begin_external now e)) = I e"
  by (simp add: begin_external_def)

lemma start_admit_keeps [simp]: "I e \<Longrightarrow> I (snd (start_admit h k x e))"
  by (simp add: start_admit_def Let_def split_beta split: option.split sum.split)

lemma start_owner_gone_keeps [simp]: "I e \<Longrightarrow> I (start_owner_gone x e)"
  by (simp add: start_owner_gone_def split: option.split)

lemma transfer_keeps [simp]: "I e \<Longrightarrow> I (snd (transfer_ownership ids e))"
  by (simp add: transfer_ownership_def split: option.split)

lemma reconcile_keeps [simp]: "I (snd (reconcile_bind o1 e)) = I e"
  by (simp add: reconcile_bind_def split_beta split: option.split)

lemma next_cut_keeps [simp]: "I (snd (next_cut k e)) = I e"
  by (simp add: next_cut_def Let_def)

lemma open_cut_keeps [simp]: "I (snd (open_cut k r q e)) = I e"
  using next_cut_keeps [of k e] by (simp add: open_cut_def split_beta split: sum.split)

lemma prepare_start_keeps [simp]: "I (snd (prepare_start_cut now e)) = I e"
  by (simp add: prepare_start_cut_def split_beta split: option.split sum.split)

lemma start_bound_keeps [simp]: "I e \<Longrightarrow> I (snd (start_bound o1 now e))"
  by (simp add: start_bound_def split_beta split: option.split)

lemma prepare_keeps [simp]: "I e \<Longrightarrow> I (snd (maybe_publish_prepare e))"
  by (simp add: maybe_publish_prepare_def split_beta Let_def split: option.split)

lemma cut_issue_keeps [simp]: "I (snd (cut_issue c e)) = I e"
  by (simp add: cut_issue_def split: option.split)

lemma cut_captured_keeps [simp]: "I e \<Longrightarrow> I (snd (cut_captured at l c rows t e))"
  by (simp add: cut_captured_def Let_def split: option.split)

lemma cut_complete_keeps [simp]: "I e \<Longrightarrow> I (snd (cut_complete at l c rows o1 e))"
  by (simp add: cut_complete_def split_beta split: sum.split)

lemma cut_deadline_keeps [simp]: "I e \<Longrightarrow> I (cut_deadline l c e)"
  by (simp add: cut_deadline_def)

lemma ongoing_keeps [simp]: "I e \<Longrightarrow> I (snd (begin_ongoing_cut e))"
  by (simp add: begin_ongoing_cut_def Let_def split_beta split: option.split sum.split)

lemma pending_history_keeps [simp]: "I e \<Longrightarrow> I (snd (begin_pending_history now e))"
  by (simp add: begin_pending_history_def Let_def split_beta split: option.split sum.split)

lemma settle_prepare_keeps [simp]: "I e \<Longrightarrow> I (snd (settle_prepare po e))"
  by (simp add: settle_prepare_def split_beta split: prepare_outcome_kind.split)

lemma route_active_keeps [simp]: "I e \<Longrightarrow> I (snd (route_active a d e))"
  by (simp add: route_active_def Let_def split_beta split: option.split sum.split)

lemma route_ordinary_keeps [simp]: "I e \<Longrightarrow> I (snd (route_ordinary d e))"
  by (simp add: route_ordinary_def split_beta split: option.split)

lemma route_marker_keeps [simp]: "I e \<Longrightarrow> I (snd (route_marker p e))"
  by (simp add: route_marker_def split_beta split: option.split sum.split)

lemma route_event_keeps [simp]: "I e \<Longrightarrow> I (snd (route_event ev e))"
  by (cases ev) (simp_all add: route_event_def Let_def)

lemma route_events_keeps [simp]: "I e \<Longrightarrow> I (snd (route_events evs act e))"
  by (induction evs act e rule: route_events.induct)
    (simp_all add: split_beta split: option.split, metis prod.collapse route_event_keeps)

lemma pty_bytes_keeps [simp]: "I e \<Longrightarrow> I (snd (pty_bytes_locked d e))"
  by (simp add: pty_bytes_locked_def split_beta split: option.split)

lemma sched_or_fault_keeps [simp]: "I e \<Longrightarrow> I (snd (sched_or_fault ev e))"
  by (simp add: sched_or_fault_def split_beta Let_def split: option.split)

lemma handled_keeps:
  "I e \<Longrightarrow> I (snd (handle_switch f e)) \<Longrightarrow> I (snd (handle_frame_locked f e))"
  by (simp add: handle_frame_locked_def split_beta split: option.split handled.split)

lemma abandon_keeps [simp]: "I e \<Longrightarrow> I (snd (abandon_resize c l e))"
  by (simp add: abandon_resize_def Let_def split_beta split: option.split)

lemma resize_answered_keeps [simp]: "I e \<Longrightarrow> I (snd (resize_answered c l x s e))"
  by (simp add: resize_answered_def Let_def split_beta split: option.split sum.split)

lemma finish_events_keeps [simp]: "I e \<Longrightarrow> I (snd (finish_events evs e))"
proof (induction evs e rule: finish_events.induct)
  case (2 ev evs e)
  then show ?case
    by (cases ev; cases "route_event ev e"; cases "snd (fst (route_event ev e))")
      (auto dest: route_event_keeps [of e ev])
qed simp

lemma finalize_keeps [simp]: "I e \<Longrightarrow> I (snd (finalize_begin e))"
  by (simp add: finalize_begin_def finish_ingress_def split_beta split: option.split sum.split)

lemma cleanup_keeps [simp]: "I (execute_cleanup x own e) = I e"
  by (simp add: execute_cleanup_def Let_def split: ownership_kind.split)

lemma report_keeps [simp]: "I (snd (finalize_report x e)) = I e"
  by (simp add: finalize_report_def Let_def split: option.split)

end

lemma begin_external_protocol [simp]:
  "ep_protocol (snd (begin_external now e)) = ep_protocol e" "ep_log (snd (begin_external now e)) = ep_log e"
  by (simp_all add: begin_external_def sched_call_def split_beta split: sched_answer.split)

lemma open_cut_protocol [simp]:
  "ep_protocol (snd (open_cut k r q e)) = ep_protocol e" "ep_log (snd (open_cut k r q e)) = ep_log e"
  by (simp_all add: open_cut_def next_cut_def split_beta Let_def split: sum.split)

locale epoch_keeps = epoch_sections +
  fixes L :: "epoch \<Rightarrow> bool"
  assumes context_step: "L e \<Longrightarrow> L (epoch_step e ev)"
  and browser: "I e \<Longrightarrow> automaton_apply FromBrowser f (ep_protocol e) = Inr n \<Longrightarrow>
      f_type f = FrameResize \<or> f_type f = FrameHistory \<Longrightarrow>
      I (e\<lparr>ep_protocol := n, ep_log := ep_log e @ [(FromBrowser, f)]\<rparr>)"
  and frames [simp]: "L e \<Longrightarrow> I e \<Longrightarrow> I (snd (handle_frame_locked f e))"
  and pump [simp]: "I e \<Longrightarrow> pump_own pe \<Longrightarrow> I (e\<lparr>ep_input := pump_step (ep_input e) pe\<rparr>)"
  and sender [simp]: "I e \<Longrightarrow> egress_own ee \<Longrightarrow> I (e\<lparr>ep_egress := egress_step (ep_egress e) ee\<rparr>)"
  and finish [simp]: "I e \<Longrightarrow> I (e\<lparr>ep_egress := egress_finish (ep_egress e)\<rparr>)"
begin

lemma browser_keeps [simp]:
  "I e \<Longrightarrow> automaton_apply FromBrowser f (ep_protocol e) = Inr n \<Longrightarrow> l = ep_log e @ [(FromBrowser, f)] \<Longrightarrow>
   f_type f = FrameResize \<Longrightarrow> I (e\<lparr>ep_protocol := n, ep_log := l\<rparr>)"
  using browser by simp

lemma resize_begin_keeps [simp]: "I e \<Longrightarrow> I (snd (resize_begin h f now e))"
  by (simp add: resize_begin_def Let_def split_beta split: option.split sum.split)

lemma history_log_keeps [simp]:
  assumes "I x" "automaton_apply FromBrowser f (ep_protocol x) = Inr (ep_protocol x)"
    "l = ep_log x @ [(FromBrowser, f)]" "f_type f = FrameHistory"
  shows "I (x\<lparr>ep_log := l\<rparr>)"
  using browser [OF assms(1,2)] assms(3,4) by simp

lemma history_keeps [simp]: "I e \<Longrightarrow> I (snd (request_history f e))"
proof (cases "automaton_apply FromBrowser f (ep_protocol e)")
  case (Inr n)
  moreover have "n = ep_protocol e" if "f_type f = FrameHistory" using accepted_table [OF Inr] that by simp
  moreover assume "I e"
  ultimately show ?thesis
    by (cases "f_type f = FrameHistory")
      (simp_all add: request_history_def Let_def split_beta split: option.split)
qed (simp add: request_history_def split: option.split)

lemma teardown_keeps [simp]: "I e \<Longrightarrow> I (teardown_step ev e)"
  by (cases ev)
    (simp_all add: teardown_step_def teardown_cleanup_def Let_def split: option.split teardown_phase.split)

lemma step_keeps: "L e \<Longrightarrow> I e \<Longrightarrow> I (epoch_step e ev)"
  by (cases ev) (simp_all add: epoch_step_def)

end

sublocale epoch_keeps \<subseteq> invariant_machine epoch_step "\<lambda>e. L e \<and> I e"
  by unfold_locales (simp add: step_keeps context_step)

end
