(* ===== verification/Epoch_Wire.thy ===== *)
theory Epoch_Wire
  imports Epoch_Invariants
begin

text \<open>
  What the epoch sends refines the protocol automaton: the frames it logs form a session of the
  automaton, and the payloads its sender writes are those of the session's frames from the server, in
  order. The frames it sends without consulting the automaton (held output behind a COMMIT or DEFER,
  mode answers put off to after the cut) are shown to be ones the automaton accepts unchanged.
\<close>

section \<open>Payloads\<close>

definition payloads :: "bool \<Rightarrow> frame list \<Rightarrow> bytes list" where
  "payloads owns fs = map marshal_frame (filter (\<lambda>f. \<not> (owns \<and> f_type f = FrameLive)) fs)"

lemma payloads_simps [simp]: "payloads owns [] = []" "payloads owns (fs @ gs) = payloads owns fs @ payloads owns gs"
  by (simp_all add: payloads_def)

lemma encode_batch_payloads:
  "encode_batch owns fs = Inr ps \<Longrightarrow> ps = payloads owns fs \<and> list_all (\<lambda>f. validate f = None) fs"
  by (induction fs arbitrary: ps) (auto simp: payloads_def split: option.splits sum.splits if_splits)

lemma server_frames_simps [simp]:
  "server_frames [] = []" "server_frames (tr @ tr') = server_frames tr @ server_frames tr'"
  "server_frames ((d, f) # tr) = (if d = FromServer then f # server_frames tr else server_frames tr)"
  by (simp_all add: server_frames_def)

text \<open>What the sender wrote and holds is what it was given; after a write error, an initial part.\<close>

definition sent_ok :: "egress \<Rightarrow> bytes list \<Rightarrow> bool" where
  "sent_ok g ps \<longleftrightarrow>
     (if eg_write_err g = None then eg_sent g @ egress_held g = ps else \<exists>lost. eg_sent g @ lost = ps)"

lemma sent_ok_flow: "egress_flow g new g' \<Longrightarrow> sent_ok g ps \<Longrightarrow> sent_ok g' (ps @ new)"
  by (fastforce simp: egress_flow_def sent_ok_def split: if_splits)

lemma sent_ok_split:
  assumes "sent_ok g ps" "egress_inv g"
  shows "\<exists>lost. ps = eg_sent g @ egress_held g @ lost \<and> (if eg_write_err g = None then lost = [] else True)"
proof (cases "eg_write_err g = None")
  case True
  with assms show ?thesis by (auto simp: sent_ok_def)
next
  case False
  then have "egress_held g = []" using assms(2) by (auto simp: egress_inv_def)
  with False assms show ?thesis by (auto simp: sent_ok_def)
qed

lemma egress_owns [simp]:
  "eg_owns_output (egress_step g ev) = eg_owns_output g" "eg_owns_output (egress_finish g) = eg_owns_output g"
  "eg_owns_output (snd (egress_enqueue_batch fs g)) = eg_owns_output g"
proof -
  show b: "eg_owns_output (snd (egress_enqueue_batch fs g)) = eg_owns_output g" for fs
    by (simp add: egress_enqueue_batch_def egress_signal_def split: sum.split)
  show f: "eg_owns_output (egress_finish g) = eg_owns_output g"
    by (simp add: egress_finish_def egress_signal_def)
  show "eg_owns_output (egress_step g ev) = eg_owns_output g"
    by (cases ev) (simp_all add: egress_step_def b f egress_take_def egress_written_def egress_drain_deadline_def
        egress_final_def Let_def split: option.split list.split)
qed

lemma enqueue_sent_ok:
  assumes "egress_inv g" "sent_ok g ps" "egress_enqueue_batch fs g = (None, g')"
  shows "egress_inv g'" "sent_ok g' (ps @ payloads (eg_owns_output g) fs)"
    "list_all (\<lambda>f. validate f = None) fs" "eg_owns_output g' = eg_owns_output g"
proof -
  obtain qs where qs: "encode_batch (eg_owns_output g) fs = Inr qs"
    using assms(3) by (auto simp: egress_enqueue_batch_def split: if_splits sum.splits)
  note p = encode_batch_payloads [OF qs]
  show "egress_inv g'" using egress_enqueue_inv [OF assms(1), of fs] assms(3) by simp
  have "egress_admits g (EgressEnqueue fs) = payloads (eg_owns_output g) fs"
    using assms(3) qs p by (simp add: egress_admits_def)
  then show "sent_ok g' (ps @ payloads (eg_owns_output g) fs)"
    using sent_ok_flow [OF enqueue_flow [OF assms(1), of fs] assms(2)] assms(3) by simp
  show "list_all (\<lambda>f. validate f = None) fs" using p by simp
  show "eg_owns_output g' = eg_owns_output g" using egress_owns(3) [of fs g] assms(3) by simp
qed

lemma own_sent_ok:
  assumes "egress_inv g" "sent_ok g ps" "egress_own ev"
  shows "sent_ok (egress_step g ev) ps"
proof -
  have "egress_admits g ev = []" using assms(3) by (cases ev) (simp_all add: egress_own_def egress_admits_def)
  then show ?thesis using sent_ok_flow [OF egress_flow_step [OF assms(1), of ev] assms(2)] by simp
qed

lemma finish_sent_ok:
  assumes "egress_inv g" "sent_ok g ps"
  shows "sent_ok (egress_finish g) ps"
  using sent_ok_flow [OF egress_flow_step [OF assms(1), of EgressFinish] assms(2)]
  by (simp_all add: egress_step_def egress_admits_def)

lemma egress_finish_inv: "egress_inv g \<Longrightarrow> egress_inv (egress_finish g)"
  using egress_step_inv [of g EgressFinish] by (simp add: egress_step_def)

section \<open>Exchanges the epoch composes itself\<close>

lemma run_exchange_append:
  "run_exchange a (tr @ tr') = Option.bind (run_exchange a tr) (\<lambda>b. run_exchange b tr')"
  by (induction a tr rule: run_exchange.induct) (auto split: sum.splits)

lemma apply_identity:
  assumes "automaton_apply d f a = Inr b"
  shows "a_source b = a_source a" "a_epoch b = a_epoch a"
  using accepted_table [OF assms] by (cases "f_type f"; auto)+

text \<open>Frames that a LIVE automaton accepts without changing.\<close>

lemma live_neutral:
  assumes "validate f = None" "f_type f = FrameLive" "f_source f = a_source a" "f_epoch f = a_epoch a"
    "a_state a = StateLive" "f_cut f = a_cut a"
  shows "automaton_apply FromServer f a = Inr a"
  using assms by (simp add: automaton_apply_def)

lemma mode_neutral:
  assumes "validate f = None" "f_type f = FrameMode" "f_source f = a_source a" "f_epoch f = a_epoch a"
    "a_state a = StateLive" "f_mode f = a_mode a"
  shows "automaton_apply FromServer f a = Inr a"
  using assms by (simp add: automaton_apply_def)

lemma frame_fields [simp]:
  "f_source (base_frame t s x) = s" "f_epoch (base_frame t s x) = x"
  "f_source (mode_frame s x m) = s" "f_epoch (mode_frame s x m) = x" "f_mode (mode_frame s x m) = m"
  "f_source (mode_request_frame s x m) = s" "f_epoch (mode_request_frame s x m) = x"
  "f_source (live_frame e c d) = ep_source_id e" "f_epoch (live_frame e c d) = ep_epoch e"
  "f_cut (live_frame e c d) = c" "f_data (live_frame e c d) = d"
  by (simp_all add: base_frame_def mode_frame_def mode_request_frame_def live_frame_def)

definition named :: "string \<Rightarrow> u64 \<Rightarrow> automaton \<Rightarrow> bool" where
  "named s x a \<longleftrightarrow> a_source a = s \<and> a_epoch a = x"

lemma named_apply: "named s x a \<Longrightarrow> automaton_apply d f a = Inr b \<Longrightarrow> named s x b"
  by (simp add: named_def apply_identity)

lemma release_mode_run:
  assumes "release_mode s x hi m r = (None, r')" "a_state (rl_next r) = StateLive" "named s x (rl_next r)"
    "list_all (\<lambda>f. validate f = None) (server_frames (rl_trail r'))"
  shows "\<exists>tr. rl_trail r' = rl_trail r @ tr \<and> run_exchange (rl_next r) tr = Some (rl_next r')
    \<and> a_state (rl_next r') = StateLive \<and> named s x (rl_next r')"
proof (cases "m = ModeObserve \<and> hi")
  case True
  let ?f = "(mode_frame s x (a_mode (rl_next r)))\<lparr>f_reason := ''retry_after_cut''\<rparr>"
  have r': "r' = r\<lparr>rl_trail := rl_trail r @ [(FromServer, ?f)]\<rparr>"
    using assms(1) True by (simp add: release_mode_def)
  with assms(4) have "validate ?f = None" by simp
  then have "automaton_apply FromServer ?f (rl_next r) = Inr (rl_next r)"
    using assms(2,3) by (intro mode_neutral) (simp_all add: named_def)
  with r' assms(2,3) show ?thesis by simp
next
  case False
  with assms(1) obtain n1 n2 p where n: "automaton_apply FromBrowser (mode_request_frame s x m) (rl_next r) = Inr n1"
    "automaton_apply FromServer (mode_frame s x m) n1 = Inr n2" "pump_set_mode m (rl_input r) = (None, p)"
    and r': "r' = \<lparr>rl_next = n2, rl_input = p, rl_trail = rl_trail r
      @ [(FromBrowser, mode_request_frame s x m), (FromServer, mode_frame s x m)]\<rparr>"
    by (auto simp: release_mode_def split: sum.splits prod.splits option.splits)
  have "a_state n2 = StateLive"
    using accepted_table [OF n(1)] accepted_table [OF n(2)] by simp
  moreover have "named s x n2" using named_apply [OF named_apply [OF assms(3) n(1)] n(2)] .
  ultimately show ?thesis using n(1,2) r' by simp
qed

lemma release_modes_run:
  assumes "release_modes s x hi ms r = (None, r')" "a_state (rl_next r) = StateLive" "named s x (rl_next r)"
    "list_all (\<lambda>f. validate f = None) (server_frames (rl_trail r'))"
  shows "\<exists>tr. rl_trail r' = rl_trail r @ tr \<and> run_exchange (rl_next r) tr = Some (rl_next r')
    \<and> a_state (rl_next r') = StateLive \<and> named s x (rl_next r')"
  using assms
proof (induction s x hi ms r rule: release_modes.induct)
  case (2 s x hi m ms r)
  from 2(2) obtain r1 where r1: "release_mode s x hi m r = (None, r1)" "release_modes s x hi ms r1 = (None, r')"
    by (auto split: prod.splits option.splits)
  have grow: "\<exists>tr. rl_trail b = rl_trail a @ tr" if "release_modes s x hi ms a = (None, b)" for a b
    using that
  proof (induction ms arbitrary: a)
    case (Cons m' ms)
    then obtain c where c: "release_mode s x hi m' a = (None, c)" "release_modes s x hi ms c = (None, b)"
      by (auto split: prod.splits option.splits)
    have "\<exists>tr. rl_trail c = rl_trail a @ tr"
      using c(1) by (auto simp: release_mode_def split: if_splits sum.splits prod.splits option.splits)
    with Cons.IH [OF c(2)] show ?case by fastforce
  qed simp
  have "list_all (\<lambda>f. validate f = None) (server_frames (rl_trail r1))"
    using grow [OF r1(2)] 2(5) by auto
  from release_mode_run [OF r1(1) 2(3,4) this] obtain t1 where
    t1: "rl_trail r1 = rl_trail r @ t1" "run_exchange (rl_next r) t1 = Some (rl_next r1)"
    "a_state (rl_next r1) = StateLive" "named s x (rl_next r1)" by blast
  from 2(1) [OF r1(1) [symmetric] refl r1(2) t1(3,4) 2(5)] obtain t2 where
    "rl_trail r' = rl_trail r1 @ t2" "run_exchange (rl_next r1) t2 = Some (rl_next r')"
    "a_state (rl_next r') = StateLive" "named s x (rl_next r')" by blast
  with t1 show ?case by (intro exI [of _ "t1 @ t2"]) (simp add: run_exchange_append)
qed simp

section \<open>The invariant\<close>

definition wire_inv :: "string \<Rightarrow> u64 \<Rightarrow> automaton \<Rightarrow> epoch \<Rightarrow> bool" where
  "wire_inv s x a0 e \<longleftrightarrow>
     ep_source_id e = s \<and> ep_epoch e = x \<and> named s x (ep_protocol e)
     \<and> session a0 (ep_log e) (ep_protocol e) \<and> egress_inv (ep_egress e)
     \<and> sent_ok (ep_egress e) (payloads (eg_owns_output (ep_egress e)) (server_frames (ep_log e)))"

lemma wire_inv_I:
  assumes "wire_inv s x a0 e" "egress_enqueue_batch (server_frames tr) (ep_egress e) = (None, g)"
    "run_exchange (ep_protocol e) tr = Some n" "named s x n"
  shows "wire_inv s x a0 (e\<lparr>ep_egress := g, ep_protocol := n, ep_log := ep_log e @ tr\<rparr>)"
proof -
  have g: "egress_inv (ep_egress e)"
    "sent_ok (ep_egress e) (payloads (eg_owns_output (ep_egress e)) (server_frames (ep_log e)))"
    using assms(1) by (simp_all add: wire_inv_def)
  note q = enqueue_sent_ok [OF g assms(2)]
  have "session a0 (ep_log e @ tr) n"
    using run_exchange_session [OF _ assms(3)] assms(1) by (simp add: wire_inv_def)
  with q assms(1,4) show ?thesis by (simp add: wire_inv_def)
qed

lemma wire_inv_log:
  assumes "wire_inv s x a0 e" "server_frames tr = []" "run_exchange (ep_protocol e) tr = Some n" "named s x n"
  shows "wire_inv s x a0 (e\<lparr>ep_protocol := n, ep_log := ep_log e @ tr\<rparr>)"
proof -
  have "session a0 (ep_log e @ tr) n"
    using run_exchange_session [OF _ assms(3)] assms(1) by (simp add: wire_inv_def)
  with assms show ?thesis by (simp add: wire_inv_def)
qed

lemma publish_frame_cases:
  obtains err where "publish_frame f e = (Some err, e)"
  | n g where "automaton_apply FromServer f (ep_protocol e) = Inr n" "egress_enqueue_batch [f] (ep_egress e) = (None, g)"
      "publish_frame f e = (None, e\<lparr>ep_egress := g, ep_protocol := n, ep_log := ep_log e @ [(FromServer, f)]\<rparr>)"
proof (cases "automaton_apply FromServer f (ep_protocol e)")
  case (Inl err)
  then show ?thesis using that(1) by (simp add: publish_frame_def)
next
  case (Inr n)
  obtain r g where g: "egress_enqueue_batch [f] (ep_egress e) = (r, g)"
    by (cases "egress_enqueue_batch [f] (ep_egress e)")
  with Inr that show ?thesis by (cases r) (simp_all add: publish_frame_def egress_enqueue_def)
qed

lemma wire_publish: "wire_inv s x a0 e \<Longrightarrow> wire_inv s x a0 (snd (publish_frame f e))"
proof (cases f e rule: publish_frame_cases)
  case (2 n g)
  assume w: "wire_inv s x a0 e"
  have "named s x n" using w named_apply [OF _ 2(1)] by (simp add: wire_inv_def)
  with wire_inv_I [OF w, of "[(FromServer, f)]" g n] 2 show ?thesis by simp
qed simp

lemma wire_other:
  "wire_inv s x a0 (e\<lparr>ep_input := i\<rparr>) = wire_inv s x a0 e"
  "wire_inv s x a0 (e\<lparr>ep_accepted := l\<rparr>) = wire_inv s x a0 e"
  "wire_inv s x a0 (e\<lparr>ep_history_rows := r\<rparr>) = wire_inv s x a0 e"
  "wire_inv s x a0 (e\<lparr>ep_held_input := h\<rparr>) = wire_inv s x a0 e"
  "wire_inv s x a0 (e\<lparr>ep_held_modes := m\<rparr>) = wire_inv s x a0 e"
  "wire_inv s x a0 (e\<lparr>ep_held_input_bytes := b\<rparr>) = wire_inv s x a0 e"
  "wire_inv s x a0 (clear_transitional e) = wire_inv s x a0 e"
  "wire_inv s x a0 (finish_active e) = wire_inv s x a0 e"
  by (simp_all add: wire_inv_def clear_transitional_def finish_active_def)

lemma apply_run: "automaton_apply d f a = Inr b \<Longrightarrow> run_exchange a [(d, f)] = Some b"
  by simp

text \<open>READY and DEFER: what precedes the held output has led to a LIVE automaton with the frame's cut.\<close>

lemma wire_deliver:
  assumes "wire_inv s x a0 e" "run_exchange (ep_protocol e) tr = Some n" "a_cut n = c"
    "trail = tr @ live_if_any e c held"
  shows "wire_inv s x a0 (snd (deliver_transition n trail e))"
proof -
  obtain err r where r: "release_transitional e n trail = (err, r)" by (cases "release_transitional e n trail")
  have names: "ep_source_id e = s" "ep_epoch e = x" using assms(1) by (simp_all add: wire_inv_def)
  have run_named: "named s x b" if "named s x a" "run_exchange a t = Some b" for a b t
    using that
  proof (induction a t rule: run_exchange.induct)
    case (2 a d f t)
    then show ?case by (auto split: sum.splits intro: named_apply)
  qed simp
  have n: "named s x n" by (rule run_named [OF _ assms(2)]) (use assms(1) in \<open>simp add: wire_inv_def\<close>)
  have main: "wire_inv s x a0 (e\<lparr>ep_input := i, ep_egress := g, ep_protocol := rl_next r,
      ep_log := ep_log e @ rl_trail r\<rparr>)"
    if ok: "err = None" and g: "send_frames (server_frames (rl_trail r)) (ep_egress e) = (None, g)" for i g
  proof -
    have live: "a_state n = StateLive" using r ok by (auto simp: release_transitional_def Let_def split: if_splits)
    have rel: "release_modes s x (ep_held_input e \<noteq> []) (ep_held_modes e)
        \<lparr>rl_next = n, rl_input = ep_input e, rl_trail = trail\<rparr> = (None, r)"
      using r ok live names by (auto simp: release_transitional_def Let_def split: if_splits option.splits)
    have v: "list_all (\<lambda>f. validate f = None) (server_frames (rl_trail r))"
    proof (cases "server_frames (rl_trail r) = []")
      case False
      with g have "egress_enqueue_batch (server_frames (rl_trail r)) (ep_egress e) = (None, g)"
        by (simp add: send_frames_def)
      from enqueue_sent_ok(3) [OF _ _ this] assms(1) show ?thesis by (auto simp: wire_inv_def)
    qed simp
    from release_modes_run [OF rel _ _ v] live n obtain t where
      t: "rl_trail r = trail @ t" "run_exchange n t = Some (rl_next r)" "named s x (rl_next r)" by auto
    have "run_exchange n (live_if_any e c held) = Some n"
    proof (cases "held = []")
      case False
      with v t(1) assms(4) have "validate (live_frame e c held) = None" by (simp add: live_if_any_def)
      then have "automaton_apply FromServer (live_frame e c held) n = Inr n"
        using live assms(3) n names by (intro live_neutral) (simp_all add: named_def)
      then show ?thesis by (simp add: live_if_any_def)
    qed (simp add: live_if_any_def)
    with assms(2,4) t have run: "run_exchange (ep_protocol e) (rl_trail r) = Some (rl_next r)"
      by (simp add: run_exchange_append)
    show ?thesis
    proof (cases "server_frames (rl_trail r) = []")
      case True
      with g have g': "g = ep_egress e" by (simp add: send_frames_def)
      then have "e\<lparr>ep_egress := g\<rparr> = e" by simp
      then have "e\<lparr>ep_input := i, ep_egress := g, ep_protocol := rl_next r, ep_log := ep_log e @ rl_trail r\<rparr>
          = (e\<lparr>ep_protocol := rl_next r, ep_log := ep_log e @ rl_trail r\<rparr>)\<lparr>ep_input := i\<rparr>"
        using g' by simp
      with wire_inv_log [OF assms(1) True run t(3)] show ?thesis by (simp only: wire_other)
    next
      case False
      with wire_inv_I [OF assms(1) _ run t(3)] g show ?thesis
        by (simp add: wire_inv_def send_frames_def)
    qed
  qed
  show ?thesis
  proof (cases err)
    case (Some y)
    with assms(1) r show ?thesis by (simp add: deliver_transition_def wire_other)
  next
    case None
    obtain eo g where g: "send_frames (server_frames (rl_trail r)) (ep_egress e) = (eo, g)" by fastforce
    show ?thesis
    proof (cases eo)
      case (Some y)
      with assms(1) r None g show ?thesis by (simp add: deliver_transition_def Let_def wire_other)
    next
      case eo: None
      note m = main [OF None g [unfolded eo]]
      obtain q p where "pump_enqueue_batch (ep_source_id e) (ep_epoch e) (ep_held_input e) (rl_input r) = (q, p)"
        by fastforce
      with m r None g eo show ?thesis
        by (cases q) (auto simp: deliver_transition_def Let_def wire_inv_def clear_transitional_def)
    qed
  qed
qed

lemma wire_ready: "wire_inv s x a0 e \<Longrightarrow> wire_inv s x a0 (snd (handle_ready f e))"
proof -
  assume w: "wire_inv s x a0 e"
  let ?commit = "(base_frame FrameCommit (ep_source_id e) (ep_epoch e))\<lparr>f_cut := f_cut f\<rparr>"
  have d: "wire_inv s x a0 (snd (deliver_transition n2
      ([(FromBrowser, f), (FromServer, ?commit)] @ live_if_any e (f_cut f) held) e))"
    if "automaton_apply FromBrowser f (ep_protocol e) = Inr n1" "automaton_apply FromServer ?commit n1 = Inr n2"
    for n1 n2 held
  proof (rule wire_deliver [OF w _ _ refl])
    show "run_exchange (ep_protocol e) [(FromBrowser, f), (FromServer, ?commit)] = Some n2"
      using that by simp
    show "a_cut n2 = f_cut f" using accepted_table [OF that(2)] by simp
  qed
  show ?thesis
  proof (cases "automaton_apply FromBrowser f (ep_protocol e)")
    case (Inr n1)
    show ?thesis
    proof (cases "automaton_apply FromServer ?commit n1")
      case (Inr n2)
      note d1 = d [OF \<open>automaton_apply FromBrowser f (ep_protocol e) = Inr n1\<close> Inr]
      show ?thesis
        using w d1 \<open>automaton_apply FromBrowser f (ep_protocol e) = Inr n1\<close> Inr
        by (simp add: handle_ready_def Let_def split_beta wire_other split: option.split)
    qed (use w \<open>automaton_apply FromBrowser f (ep_protocol e) = Inr n1\<close> in
      \<open>simp add: handle_ready_def Let_def split: option.split\<close>)
  qed (use w in \<open>simp add: handle_ready_def split: option.split\<close>)
qed

lemma wire_defer: "wire_inv s x a0 e \<Longrightarrow> f_type f = FrameDefer \<Longrightarrow> wire_inv s x a0 (snd (handle_defer f e))"
proof -
  assume w: "wire_inv s x a0 e" and t: "f_type f = FrameDefer"
  show ?thesis
  proof (cases "automaton_apply FromBrowser f (ep_protocol e)")
    case (Inr n)
    have d: "wire_inv s x a0 (snd (deliver_transition n ([(FromBrowser, f)] @ live_if_any e (f_cut f) held) e))"
      for held
    proof (rule wire_deliver [OF w _ _ refl])
      show "run_exchange (ep_protocol e) [(FromBrowser, f)] = Some n" using Inr by simp
      show "a_cut n = f_cut f" using accepted_table [OF Inr] t by simp
    qed
    with w Inr show ?thesis
      by (simp add: handle_defer_def split_beta wire_other split: option.split)
  qed (use w in \<open>simp add: handle_defer_def split: option.split\<close>)
qed

lemma wire_mode_request:
  assumes w: "wire_inv s x a0 e"
  shows "wire_inv s x a0 (snd (handle_mode_request f e))"
proof -
  let ?reply = "mode_frame (ep_source_id e) (ep_epoch e) (f_mode f)"
  have main: "wire_inv s x a0 (e\<lparr>ep_input := i, ep_egress := g, ep_protocol := n2,
      ep_log := ep_log e @ [(FromBrowser, f), (FromServer, ?reply)]\<rparr>)"
    if "automaton_apply FromBrowser f (ep_protocol e) = Inr n1" "automaton_apply FromServer ?reply n1 = Inr n2"
      "egress_enqueue ?reply (ep_egress e) = (None, g)" for i g n1 n2
  proof -
    have "named s x n2" using named_apply [OF named_apply [OF _ that(1)] that(2)] w by (simp add: wire_inv_def)
    with wire_inv_I [OF w, of "[(FromBrowser, f), (FromServer, ?reply)]" g n2] that show ?thesis
      by (auto simp: egress_enqueue_def wire_inv_def)
  qed
  show ?thesis using w main
    by (auto simp: handle_mode_request_def Let_def wire_other split: sum.split option.split prod.split)
qed

lemma wire_input:
  assumes w: "wire_inv s x a0 e" and t: "f_type f = FrameInput"
  shows "wire_inv s x a0 (snd (handle_input f e))"
proof (cases "automaton_apply FromBrowser f (ep_protocol e)")
  case (Inr n)
  have "n = ep_protocol e" using accepted_table [OF Inr] t by simp
  then have "wire_inv s x a0 (e\<lparr>ep_log := ep_log e @ [(FromBrowser, f)]\<rparr>)"
    using wire_inv_log [OF w, of "[(FromBrowser, f)]" n] Inr w by (simp add: wire_inv_def)
  then have "wire_inv s x a0 (e\<lparr>ep_input := i, ep_log := ep_log e @ [(FromBrowser, f)], ep_accepted := l\<rparr>)" for i l
    by (simp add: wire_inv_def)
  with w Inr show ?thesis
    by (simp add: handle_input_def wire_other split: option.split prod.split)
qed (use w in \<open>simp add: handle_input_def wire_other\<close>)

lemma wire_switch: "wire_inv s x a0 e \<Longrightarrow> wire_inv s x a0 (snd (handle_switch f e))"
  by (cases "f_type f")
    (simp_all add: handle_switch_def wire_ready wire_defer wire_mode_request wire_input)

interpretation wire_sections: epoch_sections "wire_inv s x a0"
proof unfold_locales
  show "wire_inv s x a0 e \<Longrightarrow> f_type f \<noteq> FrameMode \<Longrightarrow> wire_inv s x a0 (snd (publish_frame f e))" for e f
    using wire_publish .
qed (simp_all add: wire_inv_def drop_transitional_def clear_transitional_def)

interpretation wire: epoch_keeps "wire_inv s x a0" "\<lambda>e. True"
proof unfold_locales
  fix e f n
  assume w: "wire_inv s x a0 e" and a: "automaton_apply FromBrowser f (ep_protocol e) = Inr n"
  have "named s x n" using w named_apply [OF _ a] by (simp add: wire_inv_def)
  with wire_inv_log [OF w, of "[(FromBrowser, f)]" n] a
  show "wire_inv s x a0 (e\<lparr>ep_protocol := n, ep_log := ep_log e @ [(FromBrowser, f)]\<rparr>)" by simp
next
  fix e f
  assume w: "wire_inv s x a0 e"
  show "wire_inv s x a0 (snd (handle_frame_locked f e))"
    by (rule wire_sections.handled_keeps [OF w wire_switch [OF w]])
qed (simp_all add: wire_inv_def own_sent_ok finish_sent_ok egress_finish_inv egress_step_inv)

text \<open>A fresh epoch.\<close>

lemma new_epoch_fields:
  assumes "new_epoch have_ctx src x have_writer owns have_pty cfg bind undo = Inr e"
  obtains source a0 where "src = Some source" "new_automaton (fst (public_identity source)) x = Inr a0"
    "ep_source_id e = fst (public_identity source)" "ep_epoch e = x" "ep_protocol e = a0"
    "ep_log e = []" "ep_active e = None" "ep_start e = None" "ep_terminal e = None"
    "new_egress owns (cfg_cut_timeout cfg) = Inr (ep_egress e)" "eg_owns_output (ep_egress e) = owns"
    "new_input_pump (ep_source_id e) x = Inr (ep_input e)"
    "new_scheduler (cfg_quiet cfg) (cfg_maximum cfg) = Inr (ep_scheduler e)"
    "ep_ingress e = new_ingress_framer" "ep_held_input e = []" "ep_held_modes e = []"
    "ep_events e = []" "ep_accepted e = []" "ep_dropped e = []" "ep_closes e = 0" "ep_cleaned e = []"
    "ep_teardown e = TeardownNone" "ep_pending_history e = None" "ep_next_cut e = 0" "ep_gate e = new_work_gate"
    "ep_joined e = []" "ep_cleanup e = \<lparr>cl_teardown_err = None, cl_err = None, cl_reported = False,
        cl_complete = False\<rparr>" "ep_fed e = []"
proof -
  have owns: "eg_owns_output g = owns" if "new_egress owns d = Inr g" for g d
    using that by (auto simp: new_egress_def split: if_splits)
  show ?thesis
    using assms that owns
    by (auto simp: new_epoch_def Let_def split: option.splits if_splits sum.splits)
qed

lemma new_egress_sent: "new_egress owns d = Inr g \<Longrightarrow> sent_ok g []"
  by (auto simp: new_egress_def sent_ok_def egress_held_def split: if_splits)

lemma new_epoch_wire:
  assumes "new_epoch have_ctx src x have_writer owns have_pty cfg bind undo = Inr e"
  shows "\<exists>s a0. new_automaton s x = Inr a0 \<and> wire_inv s x a0 e"
proof -
  from new_epoch_fields [OF assms] obtain source a0 where
    f: "new_automaton (fst (public_identity source)) x = Inr a0" "ep_source_id e = fst (public_identity source)"
      "ep_epoch e = x" "ep_protocol e = a0" "ep_log e = []" "new_egress owns (cfg_cut_timeout cfg) = Inr (ep_egress e)"
    by metis
  have "named (ep_source_id e) x a0" using f(1,2) by (auto simp: named_def new_automaton_def split: if_splits)
  moreover have "sent_ok (ep_egress e) []" using new_egress_sent [OF f(6)] .
  ultimately show ?thesis using f new_egress_inv [OF f(6)]
    by (intro exI [of _ "ep_source_id e"] exI [of _ a0]) (simp add: wire_inv_def session.start)
qed


definition sample_config :: config where
  "sample_config = \<lparr>cfg_quiet = 1, cfg_maximum = 2, cfg_cut_timeout = 3, cfg_clock = True,
     cfg_history_rows = 0, cfg_history_rows_set = False\<rparr>"

definition sample_new_epoch :: "go_error + epoch" where
  "sample_new_epoch =
     new_epoch True (Some \<lparr>ps_witness = sample_witness\<rparr>) 1 True False True sample_config None []"

definition sample_fresh :: epoch where
  "sample_fresh = projr sample_new_epoch"

lemma sample_fresh_new: "new_epoch True (Some \<lparr>ps_witness = sample_witness\<rparr>) 1 True False True sample_config
    None [] = Inr sample_fresh"
proof -
  have "\<not> isl sample_new_epoch" by code_simp
  then show ?thesis by (cases sample_new_epoch) (simp_all add: sample_fresh_def sample_new_epoch_def)
qed

text \<open>An attempt whose BIND fails without an attachment, while PTY output arrives.\<close>

definition sample_failed_bind :: "epoch_event list" where
  "sample_failed_bind =
     [EvStart True CutInitial None, EvPtyBytes ''ab'',
      EvBound \<lparr>bo_kind = BindFailedNoOwner, bo_ids = no_ids, bo_cause = Some (Sent ErrReopenRequired)\<rparr> 0,
      EvEgress EgressWake, EvEgress EgressTake, EvEgress (EgressWritten None)]"


end
