(* ===== verification/Epoch_Lifecycle.thy ===== *)
theory Epoch_Lifecycle
  imports Epoch_Wire
begin

text \<open>
  How an epoch lives and ends. While it lives, its cut, its start attempt and its automaton agree;
  when it ends, one terminal result is published, valid and complete, END is the last frame sent, and
  nothing about it changes afterwards. The cleanup transaction is asked only for the identities BIND
  handed over.
\<close>

section \<open>What agrees while the epoch lives\<close>

definition begun :: "start_attempt option \<Rightarrow> bool" where
  "begun s \<longleftrightarrow> (case s of None \<Rightarrow> False | Some a \<Rightarrow> sa_phase a \<noteq> StartPhaseBinding)"

definition between_cuts :: "automaton \<Rightarrow> bool" where
  "between_cuts a \<longleftrightarrow> a_state a = StateAwaitPrepare \<or> a_state a = StateLive"

definition agrees :: "automaton \<Rightarrow> active_cut option \<Rightarrow> start_attempt option \<Rightarrow> bool" where
  "agrees a c s \<longleftrightarrow>
     (case c of
        None \<Rightarrow> between_cuts a
      | Some k \<Rightarrow>
          (if ac_prepared k then a_state a = StatePrepared \<and> a_cut a = cut_id (ac_cut k) else between_cuts a)
          \<and> (ac_prepared k \<or> ac_capture_ready k \<longrightarrow> ac_cut_issued k))
     \<and> (\<not> begun s \<longrightarrow> c = None \<and> a_state a = StateAwaitPrepare)"

definition attempt_ok :: "start_attempt option \<Rightarrow> bool" where
  "attempt_ok s \<longleftrightarrow> s = None \<or> attempt_valid s"

definition alive :: "epoch \<Rightarrow> bool" where
  "alive e \<longleftrightarrow>
     ep_terminal e = None \<and> ep_closes e = 0 \<and> ep_teardown e = TeardownNone \<and> attempt_ok (ep_start e)
     \<and> ep_cleaned e = [] \<and> \<not> cl_complete (ep_cleanup e)"

definition running :: "epoch \<Rightarrow> bool" where
  "running e \<longleftrightarrow> alive e \<and> agrees (ep_protocol e) (ep_active e) (ep_start e)"

definition end_sent :: "terminal_result \<Rightarrow> exchange \<Rightarrow> bool" where
  "end_sent t tr \<longleftrightarrow>
     (te_end_err t = None \<longrightarrow> (\<exists>pre f. tr = pre @ [(FromServer, f)] \<and> f_type f = FrameEnd
        \<and> f_reason f = te_end_reason t))"

text \<open>
  Every cleanup asked for was for the identities the epoch owned when it ended, and a complete cleanup
  of an exact attachment has been asked for.
\<close>

definition cleaned_ok :: "terminal_result \<Rightarrow> epoch \<Rightarrow> bool" where
  "cleaned_ok t e \<longleftrightarrow>
     (\<forall>ids \<in> set (ep_cleaned e). te_ownership t = exact_ownership ids)
     \<and> (cl_complete (ep_cleanup e) \<longrightarrow> ao_kind (te_ownership t) = OwnershipNone \<or> ep_cleaned e \<noteq> [])"

definition ended :: "terminal_result \<Rightarrow> epoch \<Rightarrow> bool" where
  "ended t e \<longleftrightarrow>
     terminal_valid (Some t) \<and> ep_closes e = 1 \<and> ep_ctx_err e \<noteq> None \<and> ep_teardown e \<noteq> TeardownNone
     \<and> ep_active e = None \<and> ep_held_input e = [] \<and> ip_stop (ep_input e) \<and> attempt_ok (ep_start e)
     \<and> te_ownership t = start_owner e \<and> end_sent t (ep_log e) \<and> cleaned_ok t e"

definition lifecycle_inv :: "epoch \<Rightarrow> bool" where
  "lifecycle_inv e \<longleftrightarrow> (case ep_terminal e of None \<Rightarrow> running e | Some t \<Rightarrow> ended t e)"

lemma lifecycle_running: "running e \<Longrightarrow> lifecycle_inv e"
  by (simp add: lifecycle_inv_def running_def alive_def)

lemma lifecycle_aliveD: "lifecycle_inv e \<Longrightarrow> ep_terminal e = None \<Longrightarrow> running e"
  by (simp add: lifecycle_inv_def)

lemma runningD:
  assumes "running e"
  shows "alive e" "agrees (ep_protocol e) (ep_active e) (ep_start e)" "ep_terminal e = None"
    "attempt_ok (ep_start e)"
  using assms by (simp_all add: running_def alive_def)

lemma running_cong:
  assumes "running e" "ep_terminal e' = ep_terminal e" "ep_closes e' = ep_closes e"
    "ep_teardown e' = ep_teardown e" "ep_start e' = ep_start e" "ep_active e' = ep_active e"
    "ep_protocol e' = ep_protocol e" "ep_cleaned e' = ep_cleaned e" "ep_cleanup e' = ep_cleanup e"
  shows "running e'"
  using assms by (simp add: running_def alive_def)

section \<open>Publication\<close>

lemma attempt_valid_owner: "attempt_ok (ep_start e) \<Longrightarrow> ownership_valid (start_owner e)"
  by (auto simp: attempt_ok_def attempt_valid_def start_owner_def split: option.splits)

lemma undecided_iff:
  "attempt_ok (ep_start e) \<Longrightarrow> bind_undecided e \<longleftrightarrow> ao_kind (start_owner e) = OwnershipPending"
  by (auto simp: attempt_ok_def attempt_valid_def bind_undecided_def start_owner_def
      split: option.splits start_phase.splits)

lemma make_terminal_valid:
  "cause_valid c \<Longrightarrow> ownership_valid own \<Longrightarrow> ao_kind own \<noteq> OwnershipPending \<Longrightarrow>
   terminal_valid (Some (make_terminal c own x)) \<and> te_ownership (make_terminal c own x) = own
   \<and> te_end_err (make_terminal c own x) = x \<and> te_end_reason (make_terminal c own x) = end_reason c"
  by (simp add: make_terminal_def Let_def terminal_valid_def)

lemma settle_attempt_ok:
  assumes "attempt_valid (Some a)" "terminal_valid (Some t)" "ao_kind (sa_ownership a) \<noteq> OwnershipPending"
  shows "attempt_valid (Some (settle_attempt t a))"
  using assms by (auto simp: attempt_valid_def settle_attempt_def split: start_phase.splits)

lemma settle_attempt_owner [simp]: "sa_ownership (settle_attempt t a) = sa_ownership a"
  by (simp add: settle_attempt_def)

lemma attempt_replay_ok [simp]:
  "attempt_valid (Some (a\<lparr>sa_replay := r\<rparr>)) = attempt_valid (Some a)"
  by (simp add: attempt_valid_def split: start_phase.split)

lemma release_output_fields [simp]:
  "ep_active (release_output e) = None" "ep_held_input (release_output e) = []"
  "ep_start (release_output e) = map_option (\<lambda>a. a\<lparr>sa_replay := []\<rparr>) (ep_start e)"
  "ep_terminal (release_output e) = ep_terminal e" "ep_closes (release_output e) = ep_closes e"
  "ep_teardown (release_output e) = ep_teardown e" "ep_log (release_output e) = ep_log e"
  "ep_protocol (release_output e) = ep_protocol e" "ep_egress (release_output e) = ep_egress e"
  "ep_events (release_output e) = ep_events e" "ep_input (release_output e) = ep_input e"
  "ep_ctx_err (release_output e) = ep_ctx_err e" "ep_accepted (release_output e) = ep_accepted e"
  "ep_dropped (release_output e) = ep_dropped e @ ep_held_input e"
  "ep_cleaned (release_output e) = ep_cleaned e" "ep_cleanup (release_output e) = ep_cleanup e"
  by (simp_all add: release_output_def drop_transitional_def clear_transitional_def finish_active_def Let_def)

lemma publish_frame_fields [simp]:
  "ep_active (snd (publish_frame f e)) = ep_active e" "ep_start (snd (publish_frame f e)) = ep_start e"
  "ep_terminal (snd (publish_frame f e)) = ep_terminal e" "ep_closes (snd (publish_frame f e)) = ep_closes e"
  "ep_teardown (snd (publish_frame f e)) = ep_teardown e" "ep_held_input (snd (publish_frame f e)) = ep_held_input e"
  "ep_events (snd (publish_frame f e)) = ep_events e" "ep_input (snd (publish_frame f e)) = ep_input e"
  "ep_ctx_err (snd (publish_frame f e)) = ep_ctx_err e" "ep_accepted (snd (publish_frame f e)) = ep_accepted e"
  "ep_dropped (snd (publish_frame f e)) = ep_dropped e" "ep_cleaned (snd (publish_frame f e)) = ep_cleaned e"
  "ep_cleanup (snd (publish_frame f e)) = ep_cleanup e"
  by (cases f e rule: publish_frame_cases; simp)+

lemma end_frame_reason [simp]: "f_reason (end_frame e c) = end_reason c"
  by (simp add: end_frame_def)

lemma publish_end:
  "fst (publish_frame (end_frame e c) e1) = None \<Longrightarrow>
   ep_log (snd (publish_frame (end_frame e c) e1)) = ep_log e1 @ [(FromServer, end_frame e c)]"
  by (cases "end_frame e c" e1 rule: publish_frame_cases) auto

lemma pump_seal_stops [simp]: "ip_stop (pump_seal p)"
  by (simp add: pump_seal_def discard_queued_def cancel_current_def pump_signal_def)

lemma publish_terminal_ends:
  assumes "alive e" "\<not> bind_undecided e"
  shows "lifecycle_inv (snd (publish_terminal c e))"
proof -
  have own: "ownership_valid (start_owner e)" "ao_kind (start_owner e) \<noteq> OwnershipPending"
    using assms attempt_valid_owner undecided_iff by (auto simp: alive_def)
  define c2 where "c2 = (if cause_valid c then c else invariant_cause (Some (ErrText ''invalid terminal cause'')))"
  define r where "r = publish_frame (end_frame e c2) (release_output e)"
  define t where "t = make_terminal c2 (start_owner e) (fst r)"
  have "cause_valid c2" by (simp add: c2_def)
  note t = make_terminal_valid [OF this own, of "fst r", folded t_def]
  have start: "attempt_ok (map_option (settle_attempt t) (map_option (\<lambda>a. a\<lparr>sa_replay := []\<rparr>) (ep_start e)))"
    using assms(1) own t settle_attempt_ok
    by (cases "ep_start e") (auto simp: alive_def attempt_ok_def start_owner_def)
  have p: "publish_terminal c e = (terminal_lifecycle (Some t),
      (snd r)\<lparr>ep_terminal := Some t, ep_input := pump_seal (ep_input (snd r)),
        ep_start := map_option (settle_attempt t) (ep_start (snd r)), ep_closes := Suc (ep_closes (snd r)),
        ep_ctx_err := (case ep_ctx_err (snd r) of None \<Rightarrow> Some (Sent ErrContextCanceled) | x \<Rightarrow> x),
        ep_teardown := (if ep_teardown (snd r) = TeardownNone then TeardownStarted else ep_teardown (snd r))\<rparr>)"
    using assms(1) own
    by (simp add: publish_terminal_def Let_def split_beta alive_def t_def r_def c2_def)
  have "end_sent t (ep_log (snd r))"
    using publish_end [of e c2 "release_output e", folded r_def] t by (auto simp: end_sent_def)
  with p t start assms(1) show ?thesis
    by (cases "ep_start e")
      (simp_all add: lifecycle_inv_def ended_def alive_def r_def start_owner_def cleaned_ok_def split: option.split)
qed

lemma defer_terminal_runs:
  assumes "running e" "bind_undecided e" "cause_valid c"
  shows "running (defer_terminal c e)"
proof -
  obtain a where a: "ep_start e = Some a" "sa_phase a = StartPhaseBinding"
    using assms(2) by (auto simp: bind_undecided_def split: option.splits)
  with assms(1) show ?thesis
    by (auto simp: running_def alive_def agrees_def begun_def defer_terminal_def attempt_ok_def attempt_valid_def
        split: option.splits)
qed

text \<open>A terminal request may come from a section that failed halfway, but then BIND is decided.\<close>

lemma request_terminal_lifecycle:
  assumes "alive e" "bind_undecided e \<Longrightarrow> running e"
  shows "lifecycle_inv (snd (request_terminal c e))"
proof (cases "bind_undecided e")
  case True
  with assms defer_terminal_runs show ?thesis
    by (simp add: request_terminal_def Let_def alive_def lifecycle_running)
next
  case False
  with assms(1) publish_terminal_ends [OF assms(1) False] show ?thesis
    by (simp add: request_terminal_def Let_def split_beta alive_def)
qed

lemma terminate_lifecycle [simp]: "running e \<Longrightarrow> lifecycle_inv (terminate c e)"
  by (simp add: terminate_def request_terminal_lifecycle running_def)

lemma fail_request_lifecycle [simp]: "running e \<Longrightarrow> lifecycle_inv (snd (fail_request c e))"
  by (simp add: fail_request_def split_beta request_terminal_lifecycle running_def)

lemma request_lifecycle [simp]: "running e \<Longrightarrow> lifecycle_inv (snd (request_terminal c e))"
  by (simp add: request_terminal_lifecycle running_def)

section \<open>Starting\<close>

lemma new_attempt_ok: "k = CutInitial \<or> k = CutReconnect \<Longrightarrow> attempt_valid (Some (new_attempt k))"
  by (simp add: attempt_valid_def new_attempt_def)

lemma running_gate [simp]: "running (e\<lparr>ep_gate := g\<rparr>) = running e"
  by (simp add: running_def alive_def)

lemma running_other [simp]:
  "running (e\<lparr>ep_source := s\<rparr>) = running e" "running (e\<lparr>ep_scheduler := sch\<rparr>) = running e"
  "running (e\<lparr>ep_ingress := f\<rparr>) = running e" "running (e\<lparr>ep_history_rows := r\<rparr>) = running e"
  "running (e\<lparr>ep_next_cut := n\<rparr>) = running e" "running (e\<lparr>ep_pending_history := h\<rparr>) = running e"
  "running (e\<lparr>ep_last_history := l\<rparr>) = running e" "running (e\<lparr>ep_events := evs\<rparr>) = running e"
  "running (e\<lparr>ep_log := tr\<rparr>) = running e" "running (e\<lparr>ep_accepted := ac\<rparr>) = running e"
  "running (e\<lparr>ep_held_input := hi\<rparr>) = running e" "running (e\<lparr>ep_held_input_bytes := b\<rparr>) = running e"
  "running (e\<lparr>ep_held_modes := m\<rparr>) = running e" "running (e\<lparr>ep_input := p\<rparr>) = running e"
  "running (e\<lparr>ep_fed := fd\<rparr>) = running e" "running (e\<lparr>ep_egress := q\<rparr>) = running e" "running (e\<lparr>ep_ctx_err := x\<rparr>) = running e"
  by (simp_all add: running_def alive_def)

lemma start_admit_lifecycle: "running e \<Longrightarrow> lifecycle_inv (snd (start_admit h k x e))"
proof -
  assume r: "running e"
  have new: "running (e\<lparr>ep_gate := g, ep_start := Some (new_attempt k)\<rparr>)"
    if "ep_start e = None" "k = CutInitial \<or> k = CutReconnect" for g
    using r that new_attempt_ok [OF that(2)]
    by (auto simp: running_def alive_def agrees_def begun_def attempt_ok_def new_attempt_def)
  show ?thesis using r new
    by (cases "ep_start e")
      (auto simp: start_admit_def Let_def split_beta lifecycle_running split: sum.split)
qed

lemma start_owner_gone_lifecycle: "running e \<Longrightarrow> lifecycle_inv (start_owner_gone x e)"
  by (simp add: start_owner_gone_def lifecycle_running split: option.split)

text \<open>A change to the attempt that stays valid and keeps its place before or behind BIND.\<close>

lemma running_attempt:
  assumes "running e" "ep_start e = Some a" "attempt_valid (Some b)"
    "sa_phase b = StartPhaseBinding \<longleftrightarrow> sa_phase a = StartPhaseBinding"
  shows "running (e\<lparr>ep_start := Some b\<rparr>)"
  using assms by (auto simp: running_def alive_def agrees_def begun_def attempt_ok_def)

lemma set_attempt_Some: "ep_start e = Some a \<Longrightarrow> set_attempt f e = e\<lparr>ep_start := Some (f a)\<rparr>"
  by (simp add: set_attempt_def)

lemma running_attempt_valid: "running e \<Longrightarrow> ep_start e = Some a \<Longrightarrow> attempt_valid (Some a)"
  by (simp add: running_def alive_def attempt_ok_def)

lemma transfer_running: "running e \<Longrightarrow> running (snd (transfer_ownership ids e))"
proof (cases "ep_start e")
  case (Some a)
  assume r: "running e"
  have "running (set_attempt (\<lambda>a. a\<lparr>sa_ownership := exact_ownership ids\<rparr>) e)"
    if "sa_phase a = StartPhaseBinding" "ids_exact ids"
    unfolding set_attempt_Some [OF Some]
    by (rule running_attempt [OF r Some])
      (use running_attempt_valid [OF r Some] that in \<open>auto simp: attempt_valid_def\<close>)
  with r Some show ?thesis by (simp add: transfer_ownership_def)
qed (simp add: transfer_ownership_def)

lemma adopt_ok:
  assumes "attempt_valid (Some a)" "sa_phase a = StartPhaseBinding"
  shows "attempt_valid (Some (adopt_exact ids a))" "attempt_valid (Some (adopt_none a))"
    "attempt_valid (Some (a\<lparr>sa_ownership := no_ownership\<rparr>))"
    "sa_phase (adopt_exact ids a) = StartPhaseBinding" "sa_phase (adopt_none a) = StartPhaseBinding"
  using assms by (auto simp: attempt_valid_def adopt_exact_def adopt_none_def)

lemma reconcile_attempt_ok:
  assumes "attempt_valid (Some a)" "reconcile_attempt o1 a = (ok, c, b)"
  shows "attempt_valid (Some b) \<and> (sa_phase b = StartPhaseBinding \<longleftrightarrow> sa_phase a = StartPhaseBinding)"
proof (cases "sa_phase a = StartPhaseBinding")
  case True
  note ok = adopt_ok [OF assms(1) True] adopt_ok [OF adopt_ok(1,4) [OF assms(1) True]]
  from assms True ok show ?thesis
    by (cases "bo_kind o1") (auto simp: reconcile_attempt_def split: if_splits)
qed (use assms in \<open>auto simp: reconcile_attempt_def\<close>)

lemma reconcile_running: "running e \<Longrightarrow> running (snd (reconcile_bind o1 e))"
proof (cases "ep_start e")
  case (Some a)
  assume r: "running e"
  obtain ok c b where b: "reconcile_attempt o1 a = (ok, c, b)" by (cases "reconcile_attempt o1 a")
  from reconcile_attempt_ok [OF running_attempt_valid [OF r Some] b] running_attempt [OF r Some] Some b
  show ?thesis by (simp add: reconcile_bind_def)
qed (simp add: reconcile_bind_def)

lemma sched_call_running [simp]: "running (snd (sched_call ev e)) = running e"
  by (simp add: sched_call_def split_beta split: sched_answer.split)

lemma begin_external_running [simp]: "running (snd (begin_external now e)) = running e"
  by (simp add: begin_external_def)

lemma begin_external_fields [simp]:
  "ep_start (snd (begin_external now e)) = ep_start e" "ep_active (snd (begin_external now e)) = ep_active e"
  "ep_terminal (snd (begin_external now e)) = ep_terminal e"
  "ep_pending_history (snd (begin_external now e)) = ep_pending_history e"
  "ep_events (snd (begin_external now e)) = ep_events e" "ep_egress (snd (begin_external now e)) = ep_egress e"
  "ep_source_id (snd (begin_external now e)) = ep_source_id e" "ep_epoch (snd (begin_external now e)) = ep_epoch e"
  by (simp_all add: begin_external_def sched_call_def split_beta split: sched_answer.split)

lemma next_cut_fields [simp]:
  "snd (next_cut k e) = e\<lparr>ep_next_cut := ep_next_cut e + 1\<rparr>"
  by (simp add: next_cut_def Let_def)

lemma running_new_active:
  assumes "running e" "begun (ep_start e)" "between_cuts (ep_protocol e)"
    "\<not> ac_prepared c \<and> \<not> ac_capture_ready c"
  shows "running (e\<lparr>ep_active := Some c\<rparr>)"
  using assms by (simp add: running_def alive_def agrees_def)

lemma fresh_cut_prepared [simp]: "\<not> ac_prepared (fresh_cut c rows req)"
  "\<not> ac_capture_ready (fresh_cut c rows req)" "ac_cut (fresh_cut c rows req) = c"
  by (simp_all add: fresh_cut_def)

lemma open_cut_running:
  "running e \<Longrightarrow> begun (ep_start e) \<Longrightarrow> between_cuts (ep_protocol e) \<Longrightarrow> running (snd (open_cut k rows req e))"
  using running_new_active [of "e\<lparr>ep_next_cut := ep_next_cut e + 1\<rparr>"]
  by (cases "fst (next_cut k e)") (simp_all add: open_cut_def split_beta)

lemma live_begun: "running e \<Longrightarrow> a_state (ep_protocol e) = StateLive \<Longrightarrow> begun (ep_start e)"
  by (auto simp: running_def agrees_def)

lemma prepare_start_running: "running e \<Longrightarrow> running (snd (prepare_start_cut now e))"
proof (cases "ep_start e")
  case (Some a)
  assume r: "running e"
  let ?e = "(snd (begin_external now e))\<lparr>ep_next_cut := ep_next_cut (snd (begin_external now e)) + 1\<rparr>"
  have "running (?e\<lparr>ep_active := Some (fresh_cut c rows None), ep_start := Some (a\<lparr>sa_replay := x,
      sa_phase := StartPhaseCutting\<rparr>)\<rparr>)"
    if "sa_phase a = StartPhaseBinding" "sa_pending_cause a = None" "ao_kind (sa_ownership a) = OwnershipExact"
      "a_state (ep_protocol e) = StateAwaitPrepare" for c rows x
    using r that running_attempt_valid [OF r Some]
    by (auto simp: running_def alive_def agrees_def begun_def attempt_ok_def attempt_valid_def between_cuts_def
        begin_external_def sched_call_def split_beta split: sched_answer.split)
  with r Some show ?thesis
    by (simp add: prepare_start_cut_def split_beta set_attempt_def split: option.split sum.split)
qed (simp add: prepare_start_cut_def)

lemma start_bound_lifecycle: "running e \<Longrightarrow> lifecycle_inv (snd (start_bound o1 now e))"
  using reconcile_running [of e o1] prepare_start_running [OF reconcile_running [of e o1], of now]
  by (simp add: start_bound_def split_beta lifecycle_running split: option.split)

section \<open>Cuts and output\<close>

lemma prepare_frame_cut [simp]: "f_cut (prepare_frame e a) = cut_id (ac_cut a)"
  "f_kind (prepare_frame e a) = cut_kind_of (ac_cut a)"
  by (simp_all add: prepare_frame_def Let_def split: prod.split)

lemma attempt_prepared_ok:
  assumes "attempt_valid (Some s)" "attempt_ready (Some s)"
  shows "attempt_valid (Some (s\<lparr>sa_result := prepared_result, sa_phase := StartPhasePrepared, sa_done := d\<rparr>))"
  using assms by (auto simp: attempt_valid_def attempt_ready_def)

lemma maybe_prepare_running: "running e \<Longrightarrow> running (snd (maybe_publish_prepare e))"
proof (cases "ep_active e")
  case (Some a)
  assume r: "running e"
  show ?thesis
  proof (cases "prepare_frame e a" e rule: publish_frame_cases)
    case (1 err)
    with r Some show ?thesis by (simp add: maybe_publish_prepare_def)
  next
    case (2 n g)
    define e1 where "e1 = snd (publish_frame (prepare_frame e a) e)"
    have e1: "ep_start e1 = ep_start e" "ep_protocol e1 = n" "alive e1"
      using 2 r by (simp_all add: e1_def running_def alive_def)
    have step: "running (e1\<lparr>ep_active := Some (a\<lparr>ac_prepared := True\<rparr>), ep_start := s\<rparr>)"
      if "\<not> ac_prepared a" "ac_capture_ready a" "attempt_ok s" "begun s" for s
    proof -
      have "a_state (ep_protocol e) \<noteq> StatePrepared"
        using r Some that(1) by (auto simp: running_def agrees_def between_cuts_def)
      moreover have "ac_cut_issued a" using r Some that(2) by (auto simp: running_def agrees_def)
      ultimately show ?thesis using accepted_table [OF 2(1)] e1 that
        by (auto simp: running_def alive_def agrees_def)
    qed
    have start: "attempt_ok (ep_start e)" "begun (ep_start e)"
      using r Some by (auto simp: running_def alive_def agrees_def)
    have plain: "running (e1\<lparr>ep_active := Some (a\<lparr>ac_prepared := True\<rparr>)\<rparr>)" if "\<not> ac_prepared a" "ac_capture_ready a"
      by (rule running_cong [OF step [OF that start]]) (simp_all add: e1(1))
    have settled: "running (set_attempt (\<lambda>s. s\<lparr>sa_result := prepared_result, sa_phase := StartPhasePrepared,
        sa_done := True\<rparr>) (e1\<lparr>ep_active := Some (a\<lparr>ac_prepared := True\<rparr>)\<rparr>))"
      if "\<not> ac_prepared a" "ac_capture_ready a" "attempt_ready (ep_start e)"
    proof (cases "ep_start e")
      case (Some s)
      with step [OF that(1,2), of "Some (s\<lparr>sa_result := prepared_result, sa_phase := StartPhasePrepared,
          sa_done := True\<rparr>)"] that(3) attempt_prepared_ok start(1) e1(1)
      show ?thesis by (simp add: set_attempt_def attempt_ok_def begun_def)
    qed (use that in \<open>simp add: attempt_ready_def\<close>)
    from 2(3) have "publish_frame (prepare_frame e a) e = (None, e1)" by (simp add: e1_def)
    with r Some plain settled show ?thesis by (simp add: maybe_publish_prepare_def Let_def)
  qed
qed (simp add: maybe_publish_prepare_def)

lemma running_active_update:
  assumes "running e" "ep_active e = Some a" "ac_prepared b = ac_prepared a" "cut_id (ac_cut b) = cut_id (ac_cut a)"
    "ac_prepared b \<or> ac_capture_ready b \<longrightarrow> ac_cut_issued b"
  shows "running (e\<lparr>ep_active := Some b\<rparr>)"
  using assms by (simp add: running_def alive_def agrees_def)

lemma cut_issue_running: "running e \<Longrightarrow> running (snd (cut_issue c e))"
  by (cases "ep_active e")
    (auto simp: cut_issue_def split: option.split intro: running_active_update)

lemma running_issued: "running e \<Longrightarrow> ep_active e = Some a \<Longrightarrow> ac_prepared a \<or> ac_capture_ready a \<longrightarrow> ac_cut_issued a"
  by (auto simp: running_def agrees_def)

lemma cut_captured_running: "running e \<Longrightarrow> \<not> cut_unissued c e \<Longrightarrow> running (snd (cut_captured at l c rows t e))"
proof (cases "ep_active e")
  case (Some a)
  assume r: "running e" and u: "\<not> cut_unissued c e"
  show ?thesis
  proof (cases "cut_id (ac_cut a) = c")
  case True
  let ?e = "e\<lparr>ep_active := Some (a\<lparr>ac_capture_ready := True, ac_history := rows, ac_truncated := t\<rparr>)\<rparr>"
  have r1: "running ?e"
    by (rule running_active_update [OF r Some]) (use u True Some in \<open>simp_all add: cut_unissued_def\<close>)
  have r2: "running (?e\<lparr>ep_start := Some (s\<lparr>sa_phase := StartPhaseAwaitingPrepare\<rparr>)\<rparr>)"
    if "ep_start e = Some s" "sa_phase s = StartPhaseCutting" for s
    by (rule running_attempt [OF r1])
      (use that running_attempt_valid [OF r that(1)] in \<open>auto simp: attempt_valid_def\<close>)
  show ?thesis using r r1 r2 Some
    by (auto simp: cut_captured_def Let_def set_attempt_def intro: maybe_prepare_running split: option.split)
  qed (use r Some in \<open>simp add: cut_captured_def\<close>)
qed (simp add: cut_captured_def)

lemma cut_complete_running: "running e \<Longrightarrow> \<not> cut_unissued c e \<Longrightarrow> running (snd (cut_complete at l c rows o1 e))"
  by (simp add: cut_complete_def split_beta cut_captured_running split: sum.split)

lemma cut_deadline_lifecycle: "running e \<Longrightarrow> lifecycle_inv (cut_deadline l c e)"
  by (simp add: cut_deadline_def lifecycle_running)

lemma between_state: "between_cuts a \<longleftrightarrow> a_state a = StateAwaitPrepare \<or> a_state a = StateLive"
  by (simp add: between_cuts_def)

lemma publish_live_frame_running: "running e \<Longrightarrow> running (snd (publish_frame (live_frame e' c d) e))"
proof (cases "live_frame e' c d" e rule: publish_frame_cases)
  case (2 n g)
  assume r: "running e"
  have "n = ep_protocol e" using accepted_table [OF 2(1)] by simp
  with r 2(3) show ?thesis by (simp add: running_def alive_def)
qed simp

lemma publish_live_running [simp]: "running e \<Longrightarrow> running (snd (publish_live d e))"
  by (simp add: publish_live_def publish_live_frame_running)

lemma feed_ordinary_id: "feed_ordinary c d = Inr (route, c') \<Longrightarrow>
    cut_id c' = cut_id c \<and> cut_kind_of c' = cut_kind_of c \<and> cut_marker_seen c' = cut_marker_seen c"
  by (auto simp: feed_ordinary_def split: if_splits)

lemma accept_marker_id: "accept_marker c p = Inr c' \<Longrightarrow> cut_id c' = cut_id c \<and> cut_kind_of c' = cut_kind_of c"
  by (auto simp: accept_marker_def split: if_splits)

text \<open>Sections that may publish the end and then return an error: without one the epoch still runs.\<close>

definition goes_on :: "go_error option \<Rightarrow> epoch \<Rightarrow> bool" where
  "goes_on err e \<longleftrightarrow> lifecycle_inv e \<and> (err = None \<longrightarrow> running e)"

lemma goes_on_running [simp]: "running e \<Longrightarrow> goes_on err e"
  by (simp add: goes_on_def lifecycle_running)

lemma terminal_public_error:
  assumes "running e" "rq_kind (fst (request_terminal c e)) = TerminalRequestResolved"
  shows "public_error (rq_result (fst (request_terminal c e))) \<noteq> None"
proof -
  have nb: "\<not> bind_undecided e"
    using assms by (auto simp: request_terminal_def Let_def running_def alive_def)
  obtain c' where "fst (request_terminal c e) = \<lparr>rq_kind = TerminalRequestResolved, rq_wait = False,
      rq_result = fst (publish_terminal c' e)\<rparr>"
    using assms(1) nb by (auto simp: request_terminal_def Let_def split_beta running_def alive_def)
  moreover have "lr_kind (fst (publish_terminal c' e)) \<noteq> LifecyclePrepared"
    by (simp add: publish_terminal_def Let_def split_beta)
  ultimately show ?thesis by (simp add: public_error_None_iff)
qed

lemma request_goes_on:
  assumes "running e"
  shows "goes_on (if rq_kind (fst (request_terminal c e)) = TerminalRequestResolved
      then public_error (rq_result (fst (request_terminal c e))) else err) (snd (request_terminal c e))"
proof (cases "rq_kind (fst (request_terminal c e)) = TerminalRequestResolved")
  case True
  with terminal_public_error [OF assms True] assms show ?thesis by (auto simp: goes_on_def)
next
  case False
  have "running (snd (request_terminal c e))"
    using False assms defer_terminal_runs
    by (auto simp: request_terminal_def Let_def split_beta running_def alive_def split: if_splits)
  then show ?thesis by simp
qed

lemma settle_prepare_goes_on:
  assumes "running e" "po_kind po \<noteq> PrepareAlreadyTerminal"
  shows "goes_on (fst (settle_prepare po e)) (snd (settle_prepare po e))"
  using assms request_goes_on [OF assms(1), of "po_cause po" "tc_diagnostic (po_cause po)"]
  by (simp add: settle_prepare_def split_beta split: prepare_outcome_kind.split)

lemma maybe_prepare_kind: "running e \<Longrightarrow> po_kind (fst (maybe_publish_prepare e)) \<noteq> PrepareAlreadyTerminal"
  by (auto simp: maybe_publish_prepare_def running_def alive_def split_beta Let_def po_failed_def po_wait_def
      po_done_def split: option.split)

lemma prepare_settled:
  assumes "running e"
  shows "goes_on (fst (settle_prepare (fst (maybe_publish_prepare e)) (snd (maybe_publish_prepare e))))
    (snd (settle_prepare (fst (maybe_publish_prepare e)) (snd (maybe_publish_prepare e))))"
  by (rule settle_prepare_goes_on [OF maybe_prepare_running [OF assms] maybe_prepare_kind [OF assms]])

lemma route_active_goes_on:
  assumes "running e" "ep_active e = Some a"
  shows "goes_on (snd (fst (route_active a d e))) (snd (route_active a d e))"
proof (cases "feed_ordinary (ac_cut a) d")
  case (Inl err)
  with assms show ?thesis by (simp add: route_active_def)
next
  case (Inr rc)
  obtain route c where rc: "rc = (route, c)" by (cases rc)
  let ?e1 = "e\<lparr>ep_active := Some (a\<lparr>ac_cut := c\<rparr>)\<rparr>"
  have r1: "running ?e1"
    by (rule running_active_update [OF assms])
      (use feed_ordinary_id [OF Inr [unfolded rc]] running_issued [OF assms] in simp_all)
  obtain err e2 where p: "publish_live (route_live route) ?e1 = (err, e2)" by fastforce
  then have r2: "running e2" using publish_live_running [OF r1, of "route_live route"] by simp
  from prepare_settled [OF r2] r2 p Inr rc show ?thesis
    by (cases err) (auto simp: route_active_def split_beta goes_on_def lifecycle_running split: option.splits)
qed

lemma route_ordinary_goes_on:
  assumes "running e"
  shows "goes_on (snd (fst (route_ordinary d e))) (snd (route_ordinary d e))"
proof (cases "ep_active e")
  case (Some a)
  with route_active_goes_on [OF assms Some] show ?thesis by (simp add: route_ordinary_def)
next
  case None
  have "running (e\<lparr>ep_start := Some (s\<lparr>sa_replay := x\<rparr>)\<rparr>)" if "ep_start e = Some s" for s x
    by (rule running_attempt [OF assms that]) (use running_attempt_valid [OF assms that] in simp_all)
  with None assms publish_live_frame_running [OF assms] show ?thesis
    by (auto simp: route_ordinary_def split_beta goes_on_def lifecycle_running split: option.split)
qed

lemma route_marker_goes_on:
  assumes "running e"
  shows "goes_on (snd (fst (route_marker p e))) (snd (route_marker p e))"
proof (cases "ep_active e")
  case (Some a)
  show ?thesis
  proof (cases "accept_marker (ac_cut a) p")
    case (Inr c)
    have r1: "running (e\<lparr>ep_active := Some (a\<lparr>ac_cut := c\<rparr>)\<rparr>)"
      by (rule running_active_update [OF assms Some])
        (use accept_marker_id [OF Inr] running_issued [OF assms Some] in simp_all)
    with prepare_settled [OF r1] Some Inr show ?thesis by (simp add: route_marker_def split_beta)
  qed (use Some assms in \<open>simp add: route_marker_def\<close>)
qed (use assms in \<open>simp add: route_marker_def\<close>)

lemma route_event_goes_on:
  assumes "running e"
  shows "goes_on (snd (fst (route_event ev e))) (snd (route_event ev e))"
  using route_ordinary_goes_on [of "e\<lparr>ep_events := ep_events e @ [ev]\<rparr>"]
    route_marker_goes_on [of "e\<lparr>ep_events := ep_events e @ [ev]\<rparr>"] assms
  by (cases ev) (simp_all add: route_event_def Let_def)

lemma route_events_goes_on:
  assumes "running e"
  shows "goes_on (snd (fst (route_events evs act e))) (snd (route_events evs act e))"
  using assms
proof (induction evs act e rule: route_events.induct)
  case (2 ev evs act e)
  obtain a1 err e1 where r: "route_event ev e = ((a1, err), e1)" by (metis prod.collapse)
  with route_event_goes_on [OF 2(2), of ev] 2(1) show ?case
    by (cases err) (auto simp: goes_on_def)
qed simp

end
