(* ===== verification/Epoch_Ending.thy ===== *)
theory Epoch_Ending
  imports Epoch_Lifecycle
begin

text \<open>
  The lifecycle, second part: the sections that take the browser's frames, resize and history
  requests, and finalization keep the lifecycle invariant, and after the terminal publication every
  section leaves the published state alone.
\<close>

section \<open>PTY output\<close>

lemma request_any [simp]: "lifecycle_inv e \<Longrightarrow> lifecycle_inv (snd (request_terminal c e))"
  using request_terminal_lifecycle [of e c]
  by (cases "ep_terminal e") (auto simp: lifecycle_inv_def running_def request_terminal_def)

lemma terminate_any [simp]: "lifecycle_inv e \<Longrightarrow> lifecycle_inv (terminate c e)"
  by (simp add: terminate_def)

lemma fail_any [simp]: "lifecycle_inv e \<Longrightarrow> lifecycle_inv (snd (fail_request c e))"
  by (simp add: fail_request_def split_beta)

lemma pty_bytes_lifecycle: "running e \<Longrightarrow> lifecycle_inv (snd (pty_bytes_locked d e))"
proof -
  assume r: "running e"
  obtain evs x f where f: "ingress_feed (ep_ingress e) d = (evs, x, f)" by (cases "ingress_feed (ep_ingress e) d")
  have "goes_on (snd (fst (route_events evs False (e\<lparr>ep_ingress := f, ep_fed := ep_fed e @ d\<rparr>))))
      (snd (route_events evs False (e\<lparr>ep_ingress := f, ep_fed := ep_fed e @ d\<rparr>)))"
    by (rule route_events_goes_on) (simp add: r)
  with r f show ?thesis
    by (simp add: pty_bytes_locked_def split_beta goes_on_def lifecycle_running split: option.split)
qed

lemma lifecycle_sched: "lifecycle_inv (e\<lparr>ep_scheduler := s\<rparr>) = lifecycle_inv e"
  by (simp add: lifecycle_inv_def ended_def start_owner_def cleaned_ok_def split: option.split)

lemma sched_call_lifecycle [simp]: "lifecycle_inv (snd (sched_call ev e)) = lifecycle_inv e"
  by (simp add: sched_call_def split_beta lifecycle_sched split: sched_answer.split)

lemma sched_or_fault_lifecycle: "lifecycle_inv e \<Longrightarrow> lifecycle_inv (snd (sched_or_fault ev e))"
  by (simp add: sched_or_fault_def split_beta Let_def split: option.split)

section \<open>The browser's frames\<close>

text \<open>READY and DEFER deliver only on a LIVE automaton, which the mode answers keep LIVE.\<close>

lemma release_mode_live:
  "release_mode s x hi m r = (None, r') \<Longrightarrow> a_state (rl_next r) = StateLive \<Longrightarrow> a_state (rl_next r') = StateLive"
  by (auto simp: release_mode_def split: if_splits sum.splits prod.splits option.splits dest: accepted_table)

lemma release_modes_live:
  "release_modes s x hi ms r = (None, r') \<Longrightarrow> a_state (rl_next r) = StateLive \<Longrightarrow> a_state (rl_next r') = StateLive"
  by (induction s x hi ms r rule: release_modes.induct)
    (auto split: prod.splits option.splits dest: release_mode_live)

lemma release_live:
  "release_transitional e n tr = (None, r) \<Longrightarrow> a_state (rl_next r) = StateLive"
  by (auto simp: release_transitional_def Let_def split: if_splits option.splits dest: release_modes_live)

lemma deliver_fields [simp]:
  "ep_start (snd (deliver_transition n tr e)) = ep_start e" "ep_active (snd (deliver_transition n tr e)) = ep_active e"
  "ep_terminal (snd (deliver_transition n tr e)) = ep_terminal e"
  "ep_closes (snd (deliver_transition n tr e)) = ep_closes e"
  "ep_teardown (snd (deliver_transition n tr e)) = ep_teardown e"
  "ep_cleaned (snd (deliver_transition n tr e)) = ep_cleaned e"
  "ep_cleanup (snd (deliver_transition n tr e)) = ep_cleanup e"
  by (simp_all add: deliver_transition_def split_beta Let_def clear_transitional_def split: option.split)

lemma deliver_live:
  "fst (deliver_transition n tr e) = None \<Longrightarrow> a_state (ep_protocol (snd (deliver_transition n tr e))) = StateLive"
  using release_live [of e n tr]
  by (cases "release_transitional e n tr")
    (auto simp: deliver_transition_def split_beta Let_def clear_transitional_def split: option.splits if_splits)

lemma deliver_alive: "alive e \<Longrightarrow> alive (snd (deliver_transition n tr e))"
  by (simp add: alive_def)

text \<open>A section that fails halfway leaves an epoch that still lives, with BIND decided.\<close>

definition halfway :: "epoch \<Rightarrow> bool" where
  "halfway e \<longleftrightarrow> alive e \<and> (bind_undecided e \<longrightarrow> running e)"

lemma halfway_running: "running e \<Longrightarrow> halfway e"
  by (simp add: halfway_def running_def)

lemma halfway_request: "halfway e \<Longrightarrow> lifecycle_inv (snd (request_terminal c e))"
  by (simp add: halfway_def request_terminal_lifecycle)

lemma halfway_begun: "alive e \<Longrightarrow> begun (ep_start e) \<Longrightarrow> halfway e"
  by (auto simp: halfway_def bind_undecided_def begun_def split: option.splits)

lemma active_begun: "running e \<Longrightarrow> ep_active e \<noteq> None \<Longrightarrow> begun (ep_start e)"
  by (auto simp: running_def agrees_def)

definition switched :: "handled \<Rightarrow> epoch \<Rightarrow> bool" where
  "switched h e \<longleftrightarrow> halfway e \<and> (case h of Failed _ \<Rightarrow> True | _ \<Rightarrow> running e)"

lemma switched_running [simp]: "running e \<Longrightarrow> switched h e"
  by (simp add: switched_def halfway_running split: handled.split)

lemma delivered:
  assumes "running e" "ep_active e \<noteq> None"
    and d_def: "d = deliver_transition n tr e"
  shows "halfway (snd d)" "fst d = None \<Longrightarrow> running (finish_active (snd d))"
    "fst d = None \<Longrightarrow> running (finish_active ((snd d)\<lparr>ep_history_rows := rows\<rparr>))"
proof -
  have start: "begun (ep_start (snd d))" using active_begun [OF assms(1,2)] by (simp add: d_def)
  have al: "alive (snd d)" using assms(1) deliver_alive by (simp add: d_def running_def)
  from halfway_begun [OF al start] show "halfway (snd d)" .
  show "running (finish_active (snd d))" if "fst d = None"
    using al start deliver_live [of n tr e] that
    by (simp add: running_def alive_def agrees_def between_cuts_def finish_active_def d_def)
  then show "running (finish_active ((snd d)\<lparr>ep_history_rows := rows\<rparr>))" if "fst d = None"
    using that by (simp add: finish_active_def running_def alive_def)
qed

lemma ready_switched: "running e \<Longrightarrow> switched (fst (handle_ready f e)) (snd (handle_ready f e))"
  using delivered [of e, OF _ _ refl]
  by (auto simp: handle_ready_def split_beta Let_def switched_def halfway_running
      split: option.split sum.split handled.split)

lemma defer_switched: "running e \<Longrightarrow> switched (fst (handle_defer f e)) (snd (handle_defer f e))"
  using delivered [of e, OF _ _ refl]
  by (auto simp: handle_defer_def split_beta Let_def switched_def halfway_running
      split: option.split sum.split handled.split)

text \<open>A LIVE automaton stays LIVE under MODE_REQUEST and MODE.\<close>

lemma running_live_protocol:
  assumes "running e" "a_state (ep_protocol e) = StateLive" "a_state n = StateLive" "a_cut n = a_cut (ep_protocol e)"
  shows "running (e\<lparr>ep_protocol := n\<rparr>)"
  using assms by (auto simp: running_def alive_def agrees_def between_cuts_def split: option.splits if_splits)

lemma mode_request_switched:
  assumes "running e" "f_type f = FrameModeRequest"
  shows "switched (fst (handle_mode_request f e)) (snd (handle_mode_request f e))"
proof (cases "automaton_apply FromBrowser f (ep_protocol e)")
  case (Inr n1)
  have live: "a_state (ep_protocol e) = StateLive" "n1 = ep_protocol e"
    using accepted_table [OF Inr] assms(2) by simp_all
  have "running (e\<lparr>ep_protocol := n2\<rparr>)"
    if "automaton_apply FromServer (mode_frame s x m) n1 = Inr n2" for n2 s x m
    using running_live_protocol [OF assms(1) live(1), of n2] accepted_table [OF that] live by simp
  then have "running (e\<lparr>ep_input := p, ep_egress := g, ep_protocol := n2, ep_log := l\<rparr>)"
    if "automaton_apply FromServer (mode_frame s x m) n1 = Inr n2" for n2 s x m p g l
    using that by (simp add: running_def alive_def)
  with assms(1) Inr show ?thesis
    by (auto simp: handle_mode_request_def split_beta Let_def split: option.split sum.split)
qed (use assms(1) in \<open>simp add: handle_mode_request_def\<close>)

lemma input_switched: "running e \<Longrightarrow> switched (fst (handle_input f e)) (snd (handle_input f e))"
  by (simp add: handle_input_def split_beta split: option.split sum.split)

lemma handle_frame_lifecycle:
  assumes r: "running e"
  shows "lifecycle_inv (snd (handle_frame_locked f e))"
proof -
  have "switched (fst (handle_switch f e)) (snd (handle_switch f e))"
    using r ready_switched defer_switched mode_request_switched input_switched
    by (cases "f_type f") (simp_all add: handle_switch_def)
  with r show ?thesis
    by (auto simp: handle_frame_locked_def split_beta switched_def lifecycle_running halfway_request
        split: option.split handled.split)
qed

section \<open>Resize, history and finalization\<close>

lemma resize_begin_lifecycle:
  assumes r: "running e"
  shows "lifecycle_inv (snd (resize_begin h f now e))"
proof -
  have same: "n = ep_protocol e" if "automaton_apply FromBrowser f (ep_protocol e) = Inr n" "f_type f = FrameResize" for n
    using accepted_table [OF that(1)] that(2) by simp
  let ?e = "\<lambda>g. snd (begin_external now (e\<lparr>ep_gate := g\<rparr>))"
  have opened: "running (snd (open_cut k rows None (?e g)))" if "a_state (ep_protocol e) = StateLive" for g k rows
    by (rule open_cut_running) (use r that live_begun [OF r] in \<open>simp_all add: between_cuts_def\<close>)
  have logged: "running ((snd (open_cut k rows None (?e g)))\<lparr>ep_protocol := ep_protocol e, ep_log := l\<rparr>)"
    if "a_state (ep_protocol e) = StateLive" for g k rows l
    by (rule running_cong [OF opened [OF that, of k rows g]]) simp_all
  show ?thesis using r same opened logged
    by (auto simp: resize_begin_def Let_def split_beta lifecycle_running split: option.split sum.split)
qed

lemma running_finish:
  assumes "running e" "between_cuts (ep_protocol e)"
  shows "running (finish_active e)"
  using assms by (auto simp: running_def alive_def agrees_def finish_active_def split: option.splits if_splits)

lemma publish_live_active [simp]: "ep_active (snd (publish_live d e)) = ep_active e"
  by (simp add: publish_live_def)

lemma abandon_lifecycle:
  assumes r: "running e"
  shows "lifecycle_inv (snd (abandon_resize c l e))"
proof (cases "ep_active e")
  case (Some a)
  obtain err e1 where p: "publish_live (pre_marker (ac_cut a)) e = (err, e1)" by fastforce
  have r1: "running e1" using p publish_live_running [OF r, of "pre_marker (ac_cut a)"] by simp
  have "between_cuts (ep_protocol e1)" if "\<not> ac_cut_issued a"
  proof -
    have "ep_active e1 = Some a" using p Some publish_live_active [of "pre_marker (ac_cut a)" e] by simp
    with r1 that show ?thesis by (auto simp: running_def agrees_def)
  qed
  with p r Some r1 running_finish [OF r1] show ?thesis
    by (auto simp: abandon_resize_def Let_def split_beta lifecycle_running split: option.split)
qed (use r in \<open>simp add: abandon_resize_def Let_def split_beta lifecycle_running\<close>)

lemma resize_answered_lifecycle: "running e \<Longrightarrow> lifecycle_inv (snd (resize_answered c l x s e))"
  using abandon_lifecycle [of "e\<lparr>ep_source := s\<rparr>" c l]
  by (auto simp: resize_answered_def Let_def split_beta lifecycle_running split: option.split sum.split)

lemma request_history_lifecycle: "running e \<Longrightarrow> lifecycle_inv (snd (request_history f e))"
  by (simp add: request_history_def Let_def split_beta lifecycle_running split: option.split sum.split)

lemma pending_history_lifecycle:
  assumes r: "running e"
  shows "lifecycle_inv (snd (begin_pending_history now e))"
proof -
  have "running (snd (open_cut k rows req ((snd (begin_external now (e\<lparr>ep_gate := g\<rparr>)))\<lparr>ep_pending_history := h\<rparr>)))"
    if "a_state (ep_protocol e) = StateLive" for k rows req g h
    by (rule open_cut_running) (use r that live_begun [OF r] in \<open>simp_all add: between_cuts_def\<close>)
  with r show ?thesis
    by (auto simp: begin_pending_history_def Let_def split_beta lifecycle_running split: option.split sum.split)
qed

lemma ongoing_lifecycle:
  assumes r: "running e"
  shows "lifecycle_inv (snd (begin_ongoing_cut e))"
proof -
  have "running (snd (open_cut k rows req (e\<lparr>ep_gate := g\<rparr>)))"
    if "a_state (ep_protocol e) = StateLive" for k rows req g
    by (rule open_cut_running) (use r that live_begun [OF r] in \<open>simp_all add: between_cuts_def\<close>)
  with r show ?thesis
    by (auto simp: begin_ongoing_cut_def Let_def split_beta lifecycle_running split: option.split sum.split)
qed

lemma finish_events_lifecycle:
  "running e \<Longrightarrow> goes_on (fst (finish_events evs e)) (snd (finish_events evs e))"
proof (induction evs e rule: finish_events.induct)
  case (2 ev evs e)
  obtain a1 err e1 where r: "route_event ev e = ((a1, err), e1)" by (metis prod.collapse)
  with route_event_goes_on [OF 2(2), of ev] 2 show ?case
    by (cases ev; cases err) (auto simp: goes_on_def lifecycle_running)
qed simp

lemma finalize_lifecycle:
  assumes r: "running e"
  shows "lifecycle_inv (snd (finalize_begin e))"
proof -
  have "goes_on (fst (finish_ingress e)) (snd (finish_ingress e))"
    using r finish_events_lifecycle [of "e\<lparr>ep_ingress := snd (ingress_finish (ep_ingress e))\<rparr>"]
    by (auto simp: finish_ingress_def split_beta split: sum.split)
  with r show ?thesis by (simp add: finalize_begin_def split_beta goes_on_def split: option.split)
qed

lemma running_step:
  assumes r: "running e"
  shows "lifecycle_inv (epoch_step e ev)"
proof -
  have td: "teardown_step tev e = e" for tev
    using r by (cases tev) (simp_all add: teardown_step_def running_def alive_def)
  have rep: "ep_teardown e \<noteq> TeardownDone" using r by (simp add: running_def alive_def)
  show ?thesis
    by (cases ev)
      (use r in \<open>simp_all add: epoch_step_def td rep lifecycle_running start_admit_lifecycle
        start_owner_gone_lifecycle transfer_running start_bound_lifecycle cut_issue_running cut_complete_running
        cut_deadline_lifecycle pty_bytes_lifecycle sched_or_fault_lifecycle handle_frame_lifecycle
        resize_begin_lifecycle resize_answered_lifecycle request_history_lifecycle pending_history_lifecycle
        ongoing_lifecycle finalize_lifecycle\<close>)
qed

section \<open>After the end\<close>

lemma cleaned_other [simp]:
  "cleaned_ok t (e\<lparr>ep_source := x1\<rparr>) = cleaned_ok t e" "cleaned_ok t (e\<lparr>ep_scheduler := x2\<rparr>) = cleaned_ok t e"
  "cleaned_ok t (e\<lparr>ep_gate := x3\<rparr>) = cleaned_ok t e" "cleaned_ok t (e\<lparr>ep_input := x4\<rparr>) = cleaned_ok t e"
  "cleaned_ok t (e\<lparr>ep_egress := x5\<rparr>) = cleaned_ok t e" "cleaned_ok t (e\<lparr>ep_teardown := x6\<rparr>) = cleaned_ok t e"
  "cleaned_ok t (e\<lparr>ep_joined := x7\<rparr>) = cleaned_ok t e" "cleaned_ok t (e\<lparr>ep_ctx_err := x8\<rparr>) = cleaned_ok t e"
  by (simp_all add: cleaned_ok_def)

lemma cleaned_reported [simp]:
  "cleaned_ok t (e\<lparr>ep_cleanup := (ep_cleanup e)\<lparr>cl_reported := True\<rparr>\<rparr>) = cleaned_ok t e"
  "x = ep_cleanup e \<Longrightarrow> cleaned_ok t (e\<lparr>ep_cleanup := x\<lparr>cl_teardown_err := y\<rparr>\<rparr>) = cleaned_ok t e"
  by (simp_all add: cleaned_ok_def)

lemma cleaned_execute [simp]: "cleaned_ok t e \<Longrightarrow> cleaned_ok t (execute_cleanup r (te_ownership t) e)"
  by (cases "te_ownership t")
    (auto simp: cleaned_ok_def execute_cleanup_def exact_ownership_def Let_def split: ownership_kind.split)


definition dead :: "epoch \<Rightarrow> bool" where
  "dead e \<longleftrightarrow> (case ep_terminal e of None \<Rightarrow> False | Some t \<Rightarrow> ended t e)"

text \<open>What the publication settles for good.\<close>

definition settled_view :: "epoch \<Rightarrow> (terminal_result option \<times> nat \<times> exchange \<times> automaton) \<times>
    (bytes \<times> ingress_event list \<times> start_attempt option \<times> active_cut option) \<times>
    (input_item list \<times> input_item list \<times> input_item list)" where
  "settled_view e =
     ((ep_terminal e, ep_closes e, ep_log e, ep_protocol e), (ep_fed e, ep_events e, ep_start e, ep_active e),
      (ep_accepted e, ep_held_input e, ep_dropped e))"

lemma deadD:
  assumes "dead e"
  shows "ep_terminal e \<noteq> None" "ep_ctx_err e \<noteq> None" "ep_active e = None"
    "ao_kind (start_owner e) \<noteq> OwnershipPending" "ep_teardown e \<noteq> TeardownNone"
  using assms by (auto simp: dead_def ended_def terminal_valid_def split: option.splits)

lemma dead_request [simp]:
  "ep_terminal e \<noteq> None \<Longrightarrow> snd (request_terminal c e) = e"
  "ep_terminal e \<noteq> None \<Longrightarrow> terminate c e = e"
  "ep_terminal e \<noteq> None \<Longrightarrow> snd (fail_request c e) = e"
  by (simp_all add: request_terminal_def terminate_def fail_request_def split_beta)

lemma sched_call_view [simp]: "settled_view (snd (sched_call ev e)) = settled_view e"
  "ep_terminal (snd (sched_call ev e)) = ep_terminal e" "ep_ctx_err (snd (sched_call ev e)) = ep_ctx_err e"
  "ep_input (snd (sched_call ev e)) = ep_input e"
  "ep_teardown (snd (sched_call ev e)) = ep_teardown e"
  by (simp_all add: sched_call_def split_beta settled_view_def split: sched_answer.split)

text \<open>The other fields a section may still change, once the epoch is dead.\<close>

definition only_rest :: "epoch \<Rightarrow> epoch \<Rightarrow> bool" where
  "only_rest e e' \<longleftrightarrow> settled_view e' = settled_view e
     \<and> (ep_ctx_err e \<noteq> None \<longrightarrow> ep_ctx_err e' \<noteq> None)
     \<and> (ep_teardown e \<noteq> TeardownNone \<longrightarrow> ep_teardown e' \<noteq> TeardownNone)
     \<and> (ip_stop (ep_input e) \<longrightarrow> ip_stop (ep_input e'))
     \<and> (\<forall>t. ep_terminal e = Some t \<longrightarrow> cleaned_ok t e \<longrightarrow> cleaned_ok t e')"

lemma only_rest_refl [simp]: "only_rest e e"
  by (simp add: only_rest_def)

lemma only_rest_dead:
  assumes "dead e" "only_rest e e'"
  shows "dead e'"
proof -
  have "start_owner e' = start_owner e" using assms(2) by (simp add: only_rest_def settled_view_def start_owner_def)
  with assms show ?thesis
    by (auto simp: dead_def ended_def only_rest_def settled_view_def split: option.splits)
qed

lemma rest_updates [simp]:
  "only_rest e (e\<lparr>ep_source := x1\<rparr>)" "only_rest e (e\<lparr>ep_scheduler := x2\<rparr>)" "only_rest e (e\<lparr>ep_gate := x3\<rparr>)"
  "(ip_stop (ep_input e) \<longrightarrow> ip_stop x4) \<Longrightarrow> only_rest e (e\<lparr>ep_input := x4\<rparr>)" "only_rest e (e\<lparr>ep_egress := x5\<rparr>)"
  "only_rest e (snd (sched_call ev e))"
  "only_rest e (snd (sched_or_fault ev e))" if "ep_terminal e \<noteq> None"
  using that
  by (simp_all add: only_rest_def settled_view_def sched_or_fault_def sched_call_def split_beta Let_def
      split: sched_answer.split option.split)

lemma execute_fields [simp]:
  "settled_view (execute_cleanup r own e) = settled_view e" "ep_ctx_err (execute_cleanup r own e) = ep_ctx_err e"
  "ep_input (execute_cleanup r own e) = ep_input e" "ep_teardown (execute_cleanup r own e) = ep_teardown e" "ep_terminal (execute_cleanup r own e) = ep_terminal e"
  by (simp_all add: execute_cleanup_def settled_view_def Let_def split: ownership_kind.split)

lemma dead_start: "ep_terminal e \<noteq> None \<Longrightarrow> snd (start_admit h k x e) = e"
  by (simp add: start_admit_def)

lemma dead_transfer: "ao_kind (start_owner e) \<noteq> OwnershipPending \<Longrightarrow> snd (transfer_ownership ids e) = e"
  by (simp add: transfer_ownership_def start_owner_def split: option.splits)

lemma dead_cut:
  assumes "ep_terminal e \<noteq> None"
  shows "snd (cut_complete at l c rows o1 e) = e" "cut_deadline l c e = e" "start_owner_gone x e = e"
    "snd (start_bound o2 now e) = e" "snd (pty_bytes_locked d e) = e" "snd (handle_frame_locked f e) = e"
    "snd (request_history f e) = e" "ep_active e = None \<Longrightarrow> snd (cut_issue c e) = e"
    "ep_ctx_err e \<noteq> None \<Longrightarrow> snd (finalize_begin e) = e" "snd (abandon_resize c l e) = e"
  using assms
  by (auto simp: cut_complete_def cut_captured_def cut_deadline_def start_owner_gone_def start_bound_def
      pty_bytes_locked_def handle_frame_locked_def request_history_def cut_issue_def finalize_begin_def
      abandon_resize_def split_beta split: option.split sum.split)

lemma settled_view_rest:
  "settled_view (e\<lparr>ep_scheduler := x1\<rparr>) = settled_view e" "settled_view (e\<lparr>ep_teardown := x2\<rparr>) = settled_view e"
  "settled_view (e\<lparr>ep_input := x3\<rparr>) = settled_view e" "settled_view (e\<lparr>ep_joined := x4\<rparr>) = settled_view e"
  "settled_view (e\<lparr>ep_gate := x5\<rparr>) = settled_view e" "settled_view (e\<lparr>ep_egress := x6\<rparr>) = settled_view e"
  "settled_view (e\<lparr>ep_cleanup := x7\<rparr>) = settled_view e"
  by (simp_all add: settled_view_def)

lemma dead_rest:
  assumes "ep_terminal e \<noteq> None"
  shows "only_rest e (snd (resize_begin h f now e))" "only_rest e (snd (begin_pending_history now e))"
    "only_rest e (snd (begin_ongoing_cut e))" "only_rest e (snd (resize_answered c l x s e))"
    "only_rest e (snd (finalize_report r e))" "only_rest e (teardown_step td e)"
proof -
  show "only_rest e (snd (resize_begin h f now e))" using assms
    by (simp add: resize_begin_def Let_def split_beta split: option.split sum.split)
  show "only_rest e (snd (begin_pending_history now e))" using assms
    by (simp add: begin_pending_history_def Let_def split_beta epoch_err_def split: option.split sum.split)
  show "only_rest e (snd (begin_ongoing_cut e))" using assms
    by (simp add: begin_ongoing_cut_def Let_def split_beta split: option.split sum.split)
  show "only_rest e (snd (resize_answered c l x s e))"
    using assms dead_cut(10) [of "e\<lparr>ep_source := s\<rparr>" c l]
    by (simp add: resize_answered_def Let_def split_beta split: option.split sum.split)
  show "only_rest e (snd (finalize_report r e))" using assms
    by (auto simp: finalize_report_def Let_def only_rest_def settled_view_rest split: option.split)
  show "only_rest e (teardown_step td e)" using assms
    by (cases td) (auto simp: teardown_step_def teardown_cleanup_def Let_def only_rest_def settled_view_rest
        split: option.split teardown_phase.split)
qed

lemma pump_step_stop: "ip_stop p \<Longrightarrow> ip_stop (pump_step p ev)"
  by (cases ev)
    (auto simp: pump_step_def pump_set_mode_def pump_enqueue_batch_def pump_take_def finish_item_def
      discard_queued_def cancel_current_def pump_signal_def pump_complete_def fail_locked_def Let_def
      split: option.split)

lemma dead_step: "dead e \<Longrightarrow> only_rest e (epoch_step e ev)"
  using deadD [of e]
  by (cases ev)
    (simp_all add: epoch_step_def dead_start dead_transfer dead_cut dead_rest pump_step_stop,
      simp_all add: only_rest_def settled_view_def split: option.split)

lemma lifecycle_split: "lifecycle_inv e \<longleftrightarrow> running e \<or> dead e"
  by (auto simp: lifecycle_inv_def dead_def runningD(3) split: option.splits)

interpretation ending: frozen_machine epoch_step dead settled_view
proof
  fix e ev assume d: "dead e"
  show "dead (epoch_step e ev)" by (rule only_rest_dead [OF d dead_step [OF d]])
  show "settled_view (epoch_step e ev) = settled_view e" using dead_step [OF d, of ev] by (simp add: only_rest_def)
qed

interpretation lifecycle: invariant_machine epoch_step lifecycle_inv
proof
  show "lifecycle_inv (epoch_step e ev)" if "lifecycle_inv e" for e ev
    using that running_step [of e ev] ending.step_dead [of e ev] by (auto simp: lifecycle_split)
qed

lemma new_epoch_running:
  assumes "new_epoch have_ctx src x have_writer owns have_pty cfg bind undo = Inr e"
  shows "running e"
proof -
  obtain source a0 where f: "new_automaton (fst (public_identity source)) x = Inr a0" "ep_protocol e = a0"
    "ep_active e = None" "ep_start e = None" "ep_terminal e = None" "ep_closes e = 0" "ep_teardown e = TeardownNone"
    "ep_cleaned e = []" "ep_cleanup e = \<lparr>cl_teardown_err = None, cl_err = None, cl_reported = False,
        cl_complete = False\<rparr>"
    using new_epoch_fields [OF assms] by metis
  have "a_state a0 = StateAwaitPrepare" using f(1) by (auto simp: new_automaton_def split: if_splits)
  with f show ?thesis by (simp add: running_def alive_def agrees_def between_cuts_def attempt_ok_def)
qed

lemma reached_lifecycle:
  assumes "new_epoch have_ctx src x have_writer owns have_pty cfg bind undo = Inr e0"
  shows "lifecycle_inv (foldl epoch_step e0 evs)"
  by (rule lifecycle.run_inv [OF lifecycle_running [OF new_epoch_running [OF assms]]])

section \<open>The lifecycle theorems\<close>

text \<open>
  C4: An epoch ends once and for good. When a reached epoch has a terminal result, that result is
  valid, its done channel was closed exactly once, its context is cancelled, no cut and no held input
  remain; the result names the ownership the attempt has; unless the END frame could not be sent, it
  is the last frame of the exchange and gives the result's reason. No later event changes the result,
  the exchange, the automaton, the routed events, the attempt, or the input's accounts.
\<close>

theorem epoch_ends_once:
  assumes "new_epoch have_ctx src x have_writer owns have_pty cfg bind undo = Inr e0"
    and "e = foldl epoch_step e0 evs" and "ep_terminal e = Some t"
  shows "terminal_valid (Some t) \<and> ep_closes e = 1 \<and> ep_ctx_err e \<noteq> None \<and> ep_active e = None
    \<and> ep_held_input e = [] \<and> te_ownership t = start_owner e
    \<and> (te_end_err t = None \<longrightarrow> (\<exists>pre f. ep_log e = pre @ [(FromServer, f)] \<and> f_type f = FrameEnd
          \<and> f_reason f = te_end_reason t))
    \<and> settled_view (foldl epoch_step e later) = settled_view e"
proof -
  have "lifecycle_inv e" unfolding assms(2) by (rule reached_lifecycle [OF assms(1)])
  with assms(3) have "ended t e" "dead e" by (simp_all add: lifecycle_inv_def dead_def)
  with ending.run_view show ?thesis by (simp add: ended_def end_sent_def)
qed

theorem epoch_ends_once_witness:
  "\<exists>t. ep_terminal (foldl epoch_step sample_fresh sample_failed_bind) = Some t \<and> te_end_reason t = ''fault''
   \<and> (\<forall>later. settled_view (foldl epoch_step (foldl epoch_step sample_fresh sample_failed_bind) later)
         = settled_view (foldl epoch_step sample_fresh sample_failed_bind))"
proof -
  have "map_option te_end_reason (ep_terminal (foldl epoch_step sample_fresh sample_failed_bind)) = Some ''fault''"
    by code_simp
  then obtain t where t: "ep_terminal (foldl epoch_step sample_fresh sample_failed_bind) = Some t"
    "te_end_reason t = ''fault''" by (auto simp: map_option_eq_Some)
  from epoch_ends_once [OF sample_fresh_new refl t(1)] t show ?thesis by blast
qed

text \<open>
  C7: The start attempt of a reached epoch always satisfies the code's own validity predicate, and as
  long as the epoch has not ended its parts agree: no cut is active before BIND succeeded; an active
  cut was issued before it was captured or prepared; the automaton waits for READY or DEFER exactly
  when a prepared cut, with that number, is active; and between cuts it awaits PREPARE or is LIVE.
\<close>

theorem epoch_parts_agree:
  assumes "new_epoch have_ctx src x have_writer owns have_pty cfg bind undo = Inr e0"
    and "e = foldl epoch_step e0 evs"
  shows "(ep_start e = None \<or> attempt_valid (ep_start e))
    \<and> (if ep_terminal e = None then agrees (ep_protocol e) (ep_active e) (ep_start e) else True)"
proof -
  have "lifecycle_inv e" unfolding assms(2) by (rule reached_lifecycle [OF assms(1)])
  then show ?thesis
    by (auto simp: lifecycle_inv_def running_def alive_def ended_def attempt_ok_def split: option.splits)
qed

theorem epoch_parts_agree_witness:
  "ep_start (foldl epoch_step sample_fresh (take 2 sample_failed_bind)) \<noteq> None
   \<and> agrees (ep_protocol (foldl epoch_step sample_fresh (take 2 sample_failed_bind)))
       (ep_active (foldl epoch_step sample_fresh (take 2 sample_failed_bind)))
       (ep_start (foldl epoch_step sample_fresh (take 2 sample_failed_bind)))"
proof -
  have "ep_start (foldl epoch_step sample_fresh (take 2 sample_failed_bind)) \<noteq> None"
    "ep_terminal (foldl epoch_step sample_fresh (take 2 sample_failed_bind)) = None" by code_simp+
  with epoch_parts_agree [OF sample_fresh_new refl, of "take 2 sample_failed_bind"] show ?thesis by simp
qed

end
