(* ===== verification/Epoch_Cleanup.thy ===== *)
theory Epoch_Cleanup
  imports Epoch_Ending
begin

text \<open>
  Whose attachment an epoch cleans up: only the one whose identities BIND handed over; and when a
  cleanup counts as complete: when the source answered a request for it without an error.
\<close>

section \<open>Where identities come from\<close>

definition bind_names :: "epoch_event \<Rightarrow> attachment_ids set" where
  "bind_names ev = (case ev of EvTransfer ids \<Rightarrow> {ids} | EvBound o1 now \<Rightarrow> {bo_ids o1} | _ \<Rightarrow> {})"

definition owned_in :: "attachment_ids set \<Rightarrow> epoch \<Rightarrow> bool" where
  "owned_in S e \<longleftrightarrow> (ao_kind (start_owner e) = OwnershipExact \<longrightarrow> ao_ids (start_owner e) \<in> S)"

lemma owned_mono: "owned_in S e \<Longrightarrow> S \<subseteq> T \<Longrightarrow> owned_in T e"
  by (auto simp: owned_in_def)

text \<open>
  A view of the epoch that depends only on whom its attempt owns and on its cleanup: every section but
  admission, transfer, reconciliation and the two that clean up leaves it alone.
\<close>

locale owner_view =
  fixes V :: "epoch \<Rightarrow> 'v"
  assumes other [simp]:
    "V (e\<lparr>ep_source := x1\<rparr>) = V e" "V (e\<lparr>ep_scheduler := x2\<rparr>) = V e"
    "V (e\<lparr>ep_ingress := x3\<rparr>) = V e" "V (e\<lparr>ep_gate := x4\<rparr>) = V e"
    "V (e\<lparr>ep_lease := x5\<rparr>) = V e" "V (e\<lparr>ep_history_rows := x6\<rparr>) = V e"
    "V (e\<lparr>ep_ctx_err := x7\<rparr>) = V e" "V (e\<lparr>ep_active := x8\<rparr>) = V e"
    "V (e\<lparr>ep_next_cut := x9\<rparr>) = V e" "V (e\<lparr>ep_terminal := x10\<rparr>) = V e"
    "V (e\<lparr>ep_pending_history := x11\<rparr>) = V e" "V (e\<lparr>ep_last_history := x12\<rparr>) = V e"
    "V (e\<lparr>ep_closes := x13\<rparr>) = V e" "V (e\<lparr>ep_teardown := x14\<rparr>) = V e"
    "V (e\<lparr>ep_joined := x15\<rparr>) = V e" "V (e\<lparr>ep_events := x16\<rparr>) = V e"
    "V (e\<lparr>ep_protocol := x17\<rparr>) = V e" "V (e\<lparr>ep_egress := x18\<rparr>) = V e"
    "V (e\<lparr>ep_input := x19\<rparr>) = V e" "V (e\<lparr>ep_log := x20\<rparr>) = V e"
    "V (e\<lparr>ep_held_input := x21\<rparr>) = V e" "V (e\<lparr>ep_held_modes := x22\<rparr>) = V e"
    "V (e\<lparr>ep_held_input_bytes := x23\<rparr>) = V e" "V (e\<lparr>ep_accepted := x24\<rparr>) = V e"
    "V (e\<lparr>ep_dropped := x25\<rparr>) = V e" "V (e\<lparr>ep_fed := x26\<rparr>) = V e"
  and attempt [simp]: "ep_start e = Some s \<Longrightarrow> sa_ownership t = sa_ownership s \<Longrightarrow> V (e\<lparr>ep_start := Some t\<rparr>) = V e"
begin

lemma view_map [simp]:
  "s = ep_start e \<Longrightarrow> (\<And>a. sa_ownership (f a) = sa_ownership a) \<Longrightarrow> V (e\<lparr>ep_start := map_option f s\<rparr>) = V e"
proof (cases "ep_start e")
  case None
  then have same: "e\<lparr>ep_start := None\<rparr> = e" by (cases e) simp
  have "V (e\<lparr>ep_start := None\<rparr>) = V e" by (simp only: same)
  moreover assume "s = ep_start e"
  ultimately show ?thesis using None by simp
qed simp

lemma view_set [simp]: "(\<And>a. sa_ownership (f a) = sa_ownership a) \<Longrightarrow> V (set_attempt f e) = V e"
  by (simp add: set_attempt_def)

lemma view_publish [simp]: "V (snd (publish_frame f e)) = V e" "V (snd (publish_live d e)) = V e"
proof -
  show p: "V (snd (publish_frame f e)) = V e" for f
    by (simp add: publish_frame_def split_beta split: sum.split option.split)
  show "V (snd (publish_live d e)) = V e" by (simp add: publish_live_def p)
qed

lemma view_terminal [simp]: "V (snd (publish_terminal c e)) = V e"
proof -
  have "V (release_output e) = V e"
    by (simp add: release_output_def drop_transitional_def clear_transitional_def finish_active_def Let_def)
  then show ?thesis by (simp add: publish_terminal_def split_beta Let_def)
qed

lemma view_request [simp]: "V (snd (request_terminal c e)) = V e"
  "V (terminate c e) = V e" "V (snd (fail_request c e)) = V e"
  by (simp_all add: request_terminal_def defer_terminal_def terminate_def fail_request_def split_beta Let_def)

lemma view_sched [simp]: "V (snd (sched_call ev e)) = V e"
  "V (snd (begin_external now e)) = V e" "V (snd (sched_or_fault ev e)) = V e"
proof -
  show s: "V (snd (sched_call ev e)) = V e" for ev
    by (simp add: sched_call_def split_beta split: sched_answer.split)
  show "V (snd (begin_external now e)) = V e" by (simp add: begin_external_def s)
  show "V (snd (sched_or_fault ev e)) = V e"
    by (simp add: sched_or_fault_def split_beta Let_def s split: option.split)
qed

lemma view_open [simp]: "V (snd (open_cut k r q e)) = V e"
  by (simp add: open_cut_def split_beta split: sum.split)

lemma view_prepare [simp]: "V (snd (maybe_publish_prepare e)) = V e"
  "V (snd (settle_prepare po e)) = V e"
  by (simp_all add: maybe_publish_prepare_def settle_prepare_def split_beta Let_def
      split: option.split prepare_outcome_kind.split)

lemma view_cuts [simp]: "V (snd (cut_issue c e)) = V e"
  "V (snd (cut_complete at l c rows o1 e)) = V e" "V (cut_deadline l c e) = V e"
  "V (snd (begin_ongoing_cut e)) = V e" "V (snd (begin_pending_history now e)) = V e"
  by (simp_all add: cut_issue_def cut_complete_def cut_captured_def cut_deadline_def begin_ongoing_cut_def
      begin_pending_history_def split_beta Let_def split: option.split sum.split)

lemma view_route [simp]: "V (snd (route_event ev e)) = V e"
  "V (snd (route_events evs act e)) = V e"
proof -
  show one: "V (snd (route_event ev e)) = V e" for ev e
    by (simp add: route_event_def Let_def route_ordinary_def route_active_def route_marker_def split_beta
        split: option.split sum.split ingress_event.split)
  show "V (snd (route_events evs act e)) = V e"
  proof (induction evs act e rule: route_events.induct)
    case (2 ev evs act e)
    obtain a1 err e1 where r: "route_event ev e = ((a1, err), e1)" by (metis prod.collapse)
    with 2 one [of ev e] show ?case by (cases err) simp_all
  qed simp
qed

lemma view_deliver [simp]: "V (snd (deliver_transition n tr e)) = V e"
  by (simp add: deliver_transition_def split_beta Let_def clear_transitional_def split: option.split)

lemma view_frames [simp]: "V (snd (pty_bytes_locked d e)) = V e"
  "V (snd (handle_frame_locked f e)) = V e"
proof -
  show "V (snd (pty_bytes_locked d e)) = V e"
    by (simp add: pty_bytes_locked_def split_beta split: option.split)
  have "V (snd (handle_switch f e)) = V e"
    by (cases "f_type f")
      (simp_all add: handle_switch_def handle_ready_def handle_defer_def handle_mode_request_def handle_input_def
        finish_active_def split_beta Let_def split: option.split sum.split)
  then show "V (snd (handle_frame_locked f e)) = V e"
    by (simp add: handle_frame_locked_def split_beta split: option.split handled.split)
qed

lemma view_requests [simp]: "V (snd (resize_begin h f now e)) = V e"
  "V (snd (resize_answered c l x s e)) = V e" "V (snd (request_history f e)) = V e"
proof -
  show "V (snd (resize_begin h f now e)) = V e"
    by (simp add: resize_begin_def split_beta Let_def split: option.split sum.split)
  have "V (snd (abandon_resize c l e)) = V e" for e
    by (simp add: abandon_resize_def finish_active_def split_beta Let_def split: option.split)
  then show "V (snd (resize_answered c l x s e)) = V e"
    by (simp add: resize_answered_def split_beta Let_def split: option.split sum.split)
  show "V (snd (request_history f e)) = V e"
    by (simp add: request_history_def split_beta Let_def split: option.split sum.split)
qed

lemma view_finish [simp]: "V (snd (finalize_begin e)) = V e"
proof -
  have "V (snd (finish_events evs e)) = V e" for evs e
  proof (induction evs e rule: finish_events.induct)
    case (2 ev evs e)
    obtain a1 err e1 where r: "route_event ev e = ((a1, err), e1)" by (metis prod.collapse)
    with 2 view_route(1) [of ev e] show ?case by (cases ev; cases err) simp_all
  qed simp
  then show ?thesis by (simp add: finalize_begin_def finish_ingress_def split_beta split: option.split sum.split)
qed

lemma view_prepare_start [simp]: "V (snd (prepare_start_cut now e)) = V e"
  by (simp add: prepare_start_cut_def split_beta split: option.split sum.split)

end

interpretation owner: owner_view start_owner
  by unfold_locales (simp_all add: start_owner_def)

lemma start_owner_rest:
  "start_owner (e\<lparr>ep_cleanup := x\<rparr>) = start_owner e" "start_owner (e\<lparr>ep_cleaned := y\<rparr>) = start_owner e"
  by (simp_all add: start_owner_def)

lemma owner_teardown [simp]: "start_owner (teardown_step td e) = start_owner e"
  "start_owner (snd (finalize_report r e)) = start_owner e"
proof -
  have c: "start_owner (execute_cleanup r own e) = start_owner e" for r own e
    by (simp add: execute_cleanup_def start_owner_def Let_def split: ownership_kind.split)
  show "start_owner (teardown_step td e) = start_owner e"
    by (cases td) (simp_all add: teardown_step_def teardown_cleanup_def c Let_def start_owner_rest
        split: option.split teardown_phase.split)
  show "start_owner (snd (finalize_report r e)) = start_owner e"
    by (simp add: finalize_report_def c start_owner_rest Let_def split: option.split)
qed

lemma reconcile_owner:
  "reconcile_attempt o1 a = (ok, c, b) \<Longrightarrow>
   sa_ownership b = sa_ownership a \<or> ao_kind (sa_ownership b) \<noteq> OwnershipExact
   \<or> sa_ownership b = exact_ownership (bo_ids o1)"
  by (auto simp: reconcile_attempt_def adopt_exact_def adopt_none_def split: if_splits bind_outcome_kind.splits)

lemma owned_bound:
  assumes "owned_in S e"
  shows "owned_in (S \<union> {bo_ids o1}) (snd (start_bound o1 now e))"
proof -
  have r: "owned_in (S \<union> {bo_ids o1}) (snd (reconcile_bind o1 e))"
  proof (cases "ep_start e")
    case (Some a)
    obtain ok c b where b: "reconcile_attempt o1 a = (ok, c, b)" by (cases "reconcile_attempt o1 a")
    from reconcile_owner [OF b] Some assms b show ?thesis
      by (auto simp: reconcile_bind_def owned_in_def start_owner_def)
  qed (use assms in \<open>auto simp: reconcile_bind_def owned_in_def\<close>)
  have p: "start_owner (snd (prepare_start_cut now e)) = start_owner e" for e
    by (simp add: prepare_start_cut_def split_beta split: option.split sum.split)
  from r assms p show ?thesis
    by (auto simp: start_bound_def owned_in_def split_beta split: option.split)
qed

lemma owned_step: "owned_in S e \<Longrightarrow> owned_in (S \<union> bind_names ev) (epoch_step e ev)"
proof (cases ev)
  case (EvBound o1 now)
  assume "owned_in S e"
  with owned_bound [of S e o1 now] show ?thesis
    by (simp add: EvBound epoch_step_def bind_names_def) (auto simp: owned_in_def)
next
  case (EvTransfer ids)
  assume "owned_in S e"
  then show ?thesis
    by (auto simp: EvTransfer epoch_step_def bind_names_def owned_in_def transfer_ownership_def start_owner_def
        set_attempt_def split: option.splits)
next
  case (EvStart h k x)
  have "ao_kind (start_owner (e\<lparr>ep_gate := g, ep_start := Some (new_attempt k)\<rparr>)) \<noteq> OwnershipExact" for g
    by (simp add: start_owner_def new_attempt_def)
  moreover assume "owned_in S e"
  ultimately show ?thesis
    by (simp add: EvStart epoch_step_def bind_names_def owned_in_def start_admit_def split_beta Let_def
        split: option.split sum.split)
qed (simp_all add: epoch_step_def bind_names_def owned_in_def start_owner_gone_def split: option.split)

lemma owned_run: "owned_in S e \<Longrightarrow> owned_in (S \<union> \<Union> (bind_names ` set evs)) (foldl epoch_step e evs)"
proof (induction evs arbitrary: S e)
  case (Cons ev evs)
  from Cons.IH [OF owned_step [OF Cons.prems, of ev]] show ?case by (simp add: Un_assoc)
qed simp

section \<open>When a cleanup is complete\<close>

definition clean_view :: "epoch \<Rightarrow> attachment_ids list \<times> cleanup_state" where
  "clean_view e = (ep_cleaned e, ep_cleanup e)"

interpretation cleaning: owner_view clean_view
  by unfold_locales (simp_all add: clean_view_def)

lemma clean_view_start [simp]: "clean_view (e\<lparr>ep_start := s\<rparr>) = clean_view e"
  by (simp add: clean_view_def)

lemma clean_view_admission [simp]:
  "clean_view (snd (start_admit h k x e)) = clean_view e"
  "clean_view (snd (transfer_ownership ids e)) = clean_view e" "clean_view (start_owner_gone x e) = clean_view e"
  by (simp_all add: start_admit_def transfer_ownership_def start_owner_gone_def set_attempt_def split_beta Let_def
      split: option.split sum.split)

lemma clean_view_bound [simp]: "clean_view (snd (start_bound o1 now e)) = clean_view e"
proof -
  have "clean_view (snd (reconcile_bind o1 e)) = clean_view e"
    by (simp add: reconcile_bind_def split_beta split: option.split)
  then show ?thesis by (simp add: start_bound_def split_beta split: option.split)
qed

text \<open>The events that carry the source's answer to a CLEANUP transaction.\<close>

definition cleanup_answer :: "epoch_event \<Rightarrow> go_error option option" where
  "cleanup_answer ev =
     (case ev of
        EvTeardown td \<Rightarrow> (case td of TdCleanup result release \<Rightarrow> Some result | _ \<Rightarrow> None)
      | EvFinalizeReport result \<Rightarrow> Some result
      | _ \<Rightarrow> None)"

lemma unasked_step: "cleanup_answer ev = None \<Longrightarrow> clean_view (epoch_step e ev) = clean_view e"
proof (cases ev)
  case (EvTeardown td)
  assume "cleanup_answer ev = None"
  with EvTeardown show ?thesis
    by (cases td) (simp_all add: epoch_step_def teardown_step_def cleanup_answer_def)
qed (simp_all add: epoch_step_def cleanup_answer_def)

text \<open>
  A step that asks: only while the cleanup is incomplete, for the owned identities, and it completes the
  cleanup exactly when the answer is no error. Any other step asks nothing, and completes the cleanup
  only when there is no attachment to clean up.
\<close>

definition cleanup_step :: "epoch_event \<Rightarrow> epoch \<Rightarrow> epoch \<Rightarrow> bool" where
  "cleanup_step ev e e' \<longleftrightarrow>
     (if ep_cleaned e' = ep_cleaned e
      then cl_complete (ep_cleanup e') = cl_complete (ep_cleanup e)
           \<or> map_option (ao_kind \<circ> te_ownership) (ep_terminal e) = Some OwnershipNone
      else \<not> cl_complete (ep_cleanup e)
           \<and> (case (ep_terminal e, cleanup_answer ev) of
                (Some t, Some result) \<Rightarrow>
                  ao_kind (te_ownership t) = OwnershipExact
                  \<and> ep_cleaned e' = ep_cleaned e @ [ao_ids (te_ownership t)]
                  \<and> cl_err (ep_cleanup e') = result \<and> (cl_complete (ep_cleanup e') \<longleftrightarrow> result = None)
              | _ \<Rightarrow> False))"

lemma cleanup_step_same: "clean_view e' = clean_view e \<Longrightarrow> cleanup_step ev e e'"
  by (simp add: cleanup_step_def clean_view_def)

lemma execute_moves:
  "ep_terminal e = Some t \<Longrightarrow> cleanup_answer ev = Some r \<Longrightarrow>
   cleanup_step ev e (execute_cleanup r (te_ownership t) e)"
  by (simp add: cleanup_step_def execute_cleanup_def Let_def split: ownership_kind.split)

lemma cleanup_step_cong:
  "cleanup_step ev e x \<Longrightarrow> ep_cleaned x = ep_cleaned y \<Longrightarrow> cl_complete (ep_cleanup x) = cl_complete (ep_cleanup y) \<Longrightarrow>
   cl_err (ep_cleanup x) = cl_err (ep_cleanup y) \<Longrightarrow> cleanup_step ev e y"
  by (simp only: cleanup_step_def)

lemma cleanup_step_joined: "cleanup_step ev (e\<lparr>ep_joined := j\<rparr>) e' = cleanup_step ev e e'"
proof -
  have "ep_cleaned (e\<lparr>ep_joined := j\<rparr>) = ep_cleaned e" "ep_cleanup (e\<lparr>ep_joined := j\<rparr>) = ep_cleanup e"
    "ep_terminal (e\<lparr>ep_joined := j\<rparr>) = ep_terminal e" by simp_all
  then show ?thesis by (simp only: cleanup_step_def)
qed

lemma cleanup_moves: "cleanup_step ev e (epoch_step e ev)"
proof (cases "cleanup_answer ev")
  case None
  then show ?thesis by (simp add: cleanup_step_same unasked_step)
next
  case (Some r)
  then consider (final) "ev = EvFinalizeReport r" | (teardown) rel where "ev = EvTeardown (TdCleanup r rel)"
    by (auto simp: cleanup_answer_def split: epoch_event.splits teardown_event.splits)
  then show ?thesis
  proof cases
    case final
    have "cleanup_step ev e (snd (finalize_report r e))"
    proof (cases "ep_terminal e")
      case None
      then show ?thesis by (simp add: finalize_report_def Let_def cleanup_step_def)
    next
      case t: (Some t)
      note m = execute_moves [OF t Some]
      show ?thesis
        using m t by (simp add: finalize_report_def Let_def) (simp add: cleanup_step_def)
    qed
    then show ?thesis by (simp add: final epoch_step_def cleanup_step_same split: if_split)
  next
    case teardown
    show ?thesis
    proof (cases "ep_terminal e")
      case None
      then show ?thesis
        by (simp add: teardown epoch_step_def teardown_step_def cleanup_step_def
            split: teardown_phase.split option.split)
    next
      case t: (Some t)
      have "cleanup_step ev e (teardown_cleanup r rel t (e\<lparr>ep_joined := j\<rparr>))" for j
      proof -
        have "cleanup_step ev (e\<lparr>ep_joined := j\<rparr>) (execute_cleanup r (te_ownership t) (e\<lparr>ep_joined := j\<rparr>))"
          by (rule execute_moves) (simp_all add: t Some)
        then have "cleanup_step ev e (execute_cleanup r (te_ownership t) (e\<lparr>ep_joined := j\<rparr>))"
          by (simp only: cleanup_step_joined)
        then show ?thesis
          by (rule cleanup_step_cong) (simp_all add: teardown_cleanup_def Let_def)
      qed
      then show ?thesis using t
        by (simp add: teardown epoch_step_def teardown_step_def cleanup_step_same
            split: teardown_phase.split option.split)
    qed
  qed
qed

text \<open>So a complete cleanup of an attachment was answered without an error, and keeps no error.\<close>

definition answered_in :: "epoch_event set \<Rightarrow> epoch \<Rightarrow> bool" where
  "answered_in S e \<longleftrightarrow>
     (case ep_terminal e of
        None \<Rightarrow> \<not> cl_complete (ep_cleanup e)
      | Some t \<Rightarrow> cl_complete (ep_cleanup e) \<longrightarrow>
          ao_kind (te_ownership t) = OwnershipNone \<or> (\<exists>ev \<in> S. cleanup_answer ev = Some None))"

lemma answered_step:
  assumes "lifecycle_inv e" "answered_in S e"
  shows "answered_in (insert ev S) (epoch_step e ev)"
proof (cases "ep_terminal e")
  case None
  have "cl_complete (ep_cleanup (epoch_step e ev)) = cl_complete (ep_cleanup e)"
    using cleanup_moves [of ev e] None by (auto simp: cleanup_step_def split: if_splits)
  then show ?thesis using assms(2) None by (auto simp: answered_in_def split: option.split)
next
  case (Some t)
  then have "dead e" using assms(1) by (auto simp: lifecycle_inv_def dead_def)
  from ending.step_view [OF this, of ev] have "ep_terminal (epoch_step e ev) = Some t"
    using Some by (simp add: settled_view_def)
  then show ?thesis
    using assms(2) Some cleanup_moves [of ev e]
    by (auto simp: answered_in_def cleanup_step_def split: if_splits option.splits)
qed

lemma answered_run:
  "lifecycle_inv e \<Longrightarrow> answered_in S e \<Longrightarrow> answered_in (set evs \<union> S) (foldl epoch_step e evs)"
proof (induction evs arbitrary: S e)
  case (Cons ev evs)
  from Cons.IH [OF lifecycle.step_inv [OF Cons.prems(1)] answered_step [OF Cons.prems], of ev]
  show ?case by simp
qed simp

section \<open>What is cleaned up\<close>

text \<open>
  C5: The source is asked to clean up only after the epoch ended, only the identities the ended epoch
  owned, and these were handed over by BIND, through its callback or in its outcome. The cleanup of an
  attachment is complete only when the source was asked for it and answered without an error: step by
  step, it is asked for only while it is incomplete, and the request completes it exactly when the
  answer is clean, so a failed one leaves it to be asked for again and a clean one is never repeated.
\<close>

theorem epoch_cleans_what_bind_gave:
  assumes "new_epoch have_ctx src x have_writer owns have_pty cfg bind undo = Inr e0"
    and "e = foldl epoch_step e0 evs"
  shows "(\<forall>ids \<in> set (ep_cleaned e). \<exists>t ev. ep_terminal e = Some t \<and> te_ownership t = exact_ownership ids
        \<and> ids_exact ids \<and> ev \<in> set evs \<and> ids \<in> bind_names ev)
    \<and> (case ep_terminal e of
         None \<Rightarrow> ep_cleaned e = [] \<and> \<not> cl_complete (ep_cleanup e)
       | Some t \<Rightarrow> if cl_complete (ep_cleanup e) \<and> ao_kind (te_ownership t) = OwnershipExact
                   then ep_cleaned e \<noteq> [] \<and> (\<exists>ev \<in> set evs. cleanup_answer ev = Some None) else True)
    \<and> (\<forall>n < length evs. cleanup_step (evs ! n) (foldl epoch_step e0 (take n evs))
          (foldl epoch_step e0 (take (Suc n) evs)))"
proof -
  have l0: "lifecycle_inv e0" using reached_lifecycle [OF assms(1), of "[]"] by simp
  have l: "lifecycle_inv e" unfolding assms(2) by (rule reached_lifecycle [OF assms(1)])
  have "start_owner e0 = no_ownership" using new_epoch_fields [OF assms(1)] by (metis start_owner_def option.case(1))
  then have "owned_in {} e0" by (simp add: owned_in_def)
  from owned_run [OF this, of evs] have o: "owned_in (\<Union> (bind_names ` set evs)) e" by (simp add: assms(2))
  have "ep_terminal e0 = None \<and> \<not> cl_complete (ep_cleanup e0)" by (rule new_epoch_fields [OF assms(1)]) simp
  then have "answered_in {} e0" by (simp add: answered_in_def)
  from answered_run [OF l0 this, of evs] have a: "answered_in (set evs) e" by (simp add: assms(2))
  have steps: "\<forall>n < length evs. cleanup_step (evs ! n) (foldl epoch_step e0 (take n evs))
      (foldl epoch_step e0 (take (Suc n) evs))"
    by (simp add: take_Suc_conv_app_nth cleanup_moves)
  show ?thesis
  proof (cases "ep_terminal e")
    case None
    with l steps show ?thesis by (simp add: lifecycle_inv_def running_def alive_def)
  next
    case (Some t)
    with l have t: "ended t e" by (simp add: lifecycle_inv_def)
    have "(\<exists>ev \<in> set evs. ids \<in> bind_names ev) \<and> ids_exact ids" if "te_ownership t = exact_ownership ids" for ids
    proof -
      have "start_owner e = exact_ownership ids" using t that by (simp add: ended_def)
      with o have "\<exists>ev \<in> set evs. ids \<in> bind_names ev" by (simp add: owned_in_def)
      with t that show ?thesis by (auto simp: ended_def terminal_valid_def)
    qed
    with t a Some steps show ?thesis
      by (auto simp: ended_def cleaned_ok_def answered_in_def Bex_def)
  qed
qed

text \<open>
  BIND creates the attachment and then fails; the epoch ends, is torn down, and its cleanup fails once
  before the second \<open>Finalize\<close> repeats it.
\<close>

definition sample_cleanup :: "epoch_event list" where
  "sample_cleanup =
     [EvStart True CutInitial None, EvTransfer sample_ids,
      EvBound \<lparr>bo_kind = BindFailedExact, bo_ids = sample_ids, bo_cause = Some (Sent ErrReopenRequired)\<rparr> 0,
      EvRelease 0, EvTeardown TdScheduler, EvInput PumpExit, EvTeardown (TdInput None), EvTeardown TdOwner,
      EvTeardown TdGate, EvTeardown TdEgress, EvEgress EgressWake, EvEgress EgressTake,
      EvEgress (EgressWritten None), EvEgress EgressTake, EvEgress (EgressClose None),
      EvTeardown (TdCleanup (Some (Sent ErrReopenRequired)) None), EvFinalizeReport None,
      EvFinalizeReport None]"

theorem epoch_cleans_what_bind_gave_witness:
  "ep_cleaned (foldl epoch_step sample_fresh sample_cleanup) = [sample_ids, sample_ids]
   \<and> cl_complete (ep_cleanup (foldl epoch_step sample_fresh sample_cleanup))
   \<and> (\<exists>ev \<in> set sample_cleanup. sample_ids \<in> bind_names ev)
   \<and> (\<exists>ev \<in> set sample_cleanup. cleanup_answer ev = Some None)
   \<and> cleanup_step (EvTeardown (TdCleanup (Some (Sent ErrReopenRequired)) None))
       (foldl epoch_step sample_fresh (take 15 sample_cleanup)) (foldl epoch_step sample_fresh (take 16 sample_cleanup))
   \<and> \<not> cl_complete (ep_cleanup (foldl epoch_step sample_fresh (take 16 sample_cleanup)))"
proof -
  let ?e = "\<lambda>n. foldl epoch_step sample_fresh (take n sample_cleanup)"
  note claim = epoch_cleans_what_bind_gave [OF sample_fresh_new refl, of sample_cleanup]
  have c: "ep_cleaned (foldl epoch_step sample_fresh sample_cleanup) = [sample_ids, sample_ids]" by code_simp
  have d: "cl_complete (ep_cleanup (foldl epoch_step sample_fresh sample_cleanup))" by code_simp
  have x: "map_option (ao_kind \<circ> te_ownership) (ep_terminal (foldl epoch_step sample_fresh sample_cleanup))
      = Some OwnershipExact" by code_simp
  have "\<not> cl_complete (ep_cleanup (?e 16))" by code_simp
  moreover have "length sample_cleanup = 18"
    "sample_cleanup ! 15 = EvTeardown (TdCleanup (Some (Sent ErrReopenRequired)) None)"
    by (simp_all add: sample_cleanup_def)
  then have "cleanup_step (EvTeardown (TdCleanup (Some (Sent ErrReopenRequired)) None)) (?e 15) (?e 16)"
    using claim [THEN conjunct2, THEN conjunct2, rule_format, of 15] by simp
  moreover have "\<exists>ev \<in> set sample_cleanup. sample_ids \<in> bind_names ev" using claim c by auto
  moreover have "\<exists>ev \<in> set sample_cleanup. cleanup_answer ev = Some None"
    using claim d x by (auto split: option.splits)
  ultimately show ?thesis using c d by blast
qed

end
