(* ===== verification/Epoch_Output.thy ===== *)
theory Epoch_Output
  imports Epoch_Ending
begin

text \<open>
  What the browser is shown. Every byte the PTY wrote, less the markers, reaches the browser once and in
  order, as the replay of a PREPARE or as LIVE output; what has not reached it yet is the attempt's
  replay, or what the active cut keeps before and behind its marker. This is about epochs whose
  frame writer does not own the output.
\<close>

section \<open>The output of an exchange\<close>

definition frame_output :: "frame \<Rightarrow> bytes" where
  "frame_output f =
     (case f_type f of FrameLive \<Rightarrow> f_data f | FramePrepare \<Rightarrow> f_replay f | _ \<Rightarrow> [])"

definition shown :: "exchange \<Rightarrow> bytes" where
  "shown tr = concat (map frame_output (server_frames tr))"

definition kept_of_cut :: "active_cut \<Rightarrow> bytes" where
  "kept_of_cut a = (if ac_prepared a then [] else cut_pre (ac_cut a)) @ cut_held (ac_cut a)"

definition kept_of_attempt :: "start_attempt option \<Rightarrow> bytes" where
  "kept_of_attempt s = (case s of None \<Rightarrow> [] | Some a \<Rightarrow> sa_replay a)"

definition kept :: "epoch \<Rightarrow> bytes" where
  "kept e = kept_of_attempt (ep_start e) @ (case ep_active e of None \<Rightarrow> [] | Some a \<Rightarrow> kept_of_cut a)"

text \<open>The bytes taken in are the routed events on the wire, and what the marker parser retains.\<close>

definition on_wire :: "ingress_event list \<Rightarrow> bytes \<Rightarrow> bool" where
  "on_wire evs w \<longleftrightarrow>
     list_all event_exact evs
     \<and> (\<exists>ends. length ends = length evs \<and> set ends \<subseteq> terminators \<and> w = concat (map2 event_wire ends evs))"

definition tidy_cut :: "active_cut \<Rightarrow> bool" where
  "tidy_cut a \<longleftrightarrow>
     (\<not> cut_marker_seen (ac_cut a) \<longrightarrow> cut_held (ac_cut a) = [] \<and> \<not> ac_prepared a)
     \<and> (live_before_marker (ac_cut a) \<longrightarrow> cut_pre (ac_cut a) = [])"

definition tidy :: "epoch \<Rightarrow> bool" where
  "tidy e \<longleftrightarrow>
     \<not> eg_owns_output (ep_egress e)
     \<and> (begun (ep_start e) \<longrightarrow> kept_of_attempt (ep_start e) = [])
     \<and> (case ep_active e of None \<Rightarrow> True | Some a \<Rightarrow> tidy_cut a)"

lemma shown_simps [simp]:
  "shown [] = []" "shown (tr @ tr') = shown tr @ shown tr'"
  "shown ((FromBrowser, f) # tr) = shown tr" "shown ((FromServer, f) # tr) = frame_output f @ shown tr"
  by (simp_all add: shown_def)

lemma ordinary_bytes_append [simp]: "ordinary_bytes (xs @ ys) = ordinary_bytes xs @ ordinary_bytes ys"
  by (induction xs rule: ordinary_bytes.induct) simp_all

lemma frame_output_simps [simp]:
  "frame_output (live_frame e c d) = d" "frame_output (end_frame e k) = []"
  "frame_output (mode_frame s x m) = []" "f_type f = FrameCommit \<Longrightarrow> frame_output f = []"
  "f_type f = FrameMode \<Longrightarrow> frame_output f = []"
  by (simp_all add: frame_output_def)

lemma prepare_output [simp]:
  "\<not> eg_owns_output (ep_egress e) \<Longrightarrow> frame_output (prepare_frame e a) = cut_pre (ac_cut a)"
  by (simp add: frame_output_def)
    (simp add: prepare_frame_def Let_def pre_marker_def split: prod.split)

lemma on_wire_Nil [simp]: "on_wire [] w \<longleftrightarrow> w = []"
  by (simp add: on_wire_def)

lemma on_wire_append: "on_wire xs v \<Longrightarrow> on_wire ys w \<Longrightarrow> on_wire (xs @ ys) (v @ w)"
proof -
  assume "on_wire xs v" "on_wire ys w"
  then obtain s t where "list_all event_exact (xs @ ys)" "length s = length xs" "set s \<subseteq> terminators"
    "v = concat (map2 event_wire s xs)" "length t = length ys" "set t \<subseteq> terminators"
    "w = concat (map2 event_wire t ys)" by (auto simp: on_wire_def)
  then show ?thesis unfolding on_wire_def by (intro conjI exI [of _ "s @ t"]) simp_all
qed

lemma on_wire_prefix:
  assumes "on_wire (xs @ ys) v"
  shows "\<exists>u. on_wire xs u \<and> prefix u v"
proof -
  obtain ends where e: "list_all event_exact (xs @ ys)" "length ends = length (xs @ ys)" "set ends \<subseteq> terminators"
    "v = concat (map2 event_wire ends (xs @ ys))" using assms by (auto simp: on_wire_def)
  let ?s = "take (length xs) ends"
  have z: "zip ends (xs @ ys) = zip ?s xs @ zip (drop (length xs) ends) ys" by (simp add: zip_append2)
  have "set ?s \<subseteq> terminators" using e(3) set_take_subset [of "length xs" ends] by blast
  then have "on_wire xs (concat (map2 event_wire ?s xs))"
    using e(1,2) unfolding on_wire_def by (intro conjI exI [of _ ?s]) simp_all
  moreover have "prefix (concat (map2 event_wire ?s xs)) v" using e(4) z by simp
  ultimately show ?thesis by blast
qed

lemma feed_on_wire:
  assumes "ingress_feed f d = (evs, r, g)"
  shows "\<exists>w. on_wire evs w \<and> ing_pending f @ d = w @ ing_pending g"
proof -
  from assms have "ingress_drain [] (ing_pending f @ d) = (evs, r, ing_pending g)"
    by (auto simp: ingress_feed_def split: prod.splits)
  from drain_exact [OF events_exact_Nil _ this] show ?thesis
    by (auto simp: events_exact_def on_wire_def)
qed

section \<open>Sections\<close>

text \<open>
  \<open>good\<close> is the state between sections, with the events, the parser and the bytes taken in fixed;
  \<open>behind\<close> is what stays true of an epoch that ends.
\<close>

definition good :: "ingress_event list \<Rightarrow> ingress_framer \<Rightarrow> bytes \<Rightarrow> epoch \<Rightarrow> bool" where
  "good evs f fed e \<longleftrightarrow>
     shown (ep_log e) @ kept e = ordinary_bytes evs \<and> tidy e \<and> attempt_cause e = None
     \<and> ep_events e = evs \<and> ep_ingress e = f \<and> ep_fed e = fed"

definition behind :: "ingress_event list \<Rightarrow> bytes \<Rightarrow> epoch \<Rightarrow> bool" where
  "behind evs fed e \<longleftrightarrow>
     prefix (shown (ep_log e)) (ordinary_bytes evs) \<and> ep_events e = evs \<and> ep_fed e = fed"

text \<open>An epoch that is closing shows nothing more.\<close>

definition closing :: "epoch \<Rightarrow> bool" where
  "closing e \<longleftrightarrow>
     ep_terminal e \<noteq> None
     \<or> attempt_cause e \<noteq> None \<and> \<not> begun (ep_start e) \<and> ing_pending (ep_ingress e) = []"

definition closes :: "ingress_event list \<Rightarrow> bytes \<Rightarrow> epoch \<Rightarrow> bool" where
  "closes evs fed e \<longleftrightarrow> behind evs fed e \<and> closing e"

definition stays :: "ingress_event list \<Rightarrow> ingress_framer \<Rightarrow> bytes \<Rightarrow> epoch \<Rightarrow> bool" where
  "stays evs f fed e \<longleftrightarrow> good evs f fed e \<or> closes evs fed e"

text \<open>A route that fails may have begun to close the epoch or not.\<close>

definition onward :: "ingress_event list \<Rightarrow> ingress_framer \<Rightarrow> bytes \<Rightarrow> go_error option \<Rightarrow> epoch \<Rightarrow> bool" where
  "onward evs f fed err e \<longleftrightarrow>
     behind evs fed e \<and> (attempt_cause e = None \<or> closing e) \<and> (err = None \<longrightarrow> good evs f fed e)"

lemma good_behind: "good evs f fed e \<Longrightarrow> behind evs fed e"
  unfolding good_def behind_def by (metis prefixI)

lemma good_rest: "good evs f fed e \<Longrightarrow> behind evs fed e \<and> attempt_cause e = None"
  by (simp add: good_behind) (simp add: good_def)

lemma onward_good [simp]: "good evs f fed e \<Longrightarrow> onward evs f fed err e"
  by (simp add: onward_def good_behind) (simp add: good_def)

lemma stays_good [simp]: "good evs f fed e \<Longrightarrow> stays evs f fed e"
  by (simp add: stays_def)

lemma good_cong:
  assumes "ep_log e' = ep_log e" "ep_active e' = ep_active e" "ep_start e' = ep_start e"
    "ep_events e' = ep_events e" "eg_owns_output (ep_egress e') = eg_owns_output (ep_egress e)"
    "ep_ingress e' = ep_ingress e" "ep_fed e' = ep_fed e"
  shows "good evs f fed e' = good evs f fed e"
  using assms by (simp add: good_def kept_def tidy_def attempt_cause_def)

lemma good_other [simp]:
  "good evs f fed (e\<lparr>ep_source := x1\<rparr>) = good evs f fed e"
  "good evs f fed (e\<lparr>ep_scheduler := x2\<rparr>) = good evs f fed e"
  "good evs f fed (e\<lparr>ep_gate := x4\<rparr>) = good evs f fed e"
  "good evs f fed (e\<lparr>ep_history_rows := x5\<rparr>) = good evs f fed e"
  "good evs f fed (e\<lparr>ep_next_cut := x6\<rparr>) = good evs f fed e"
  "good evs f fed (e\<lparr>ep_pending_history := x7\<rparr>) = good evs f fed e"
  "good evs f fed (e\<lparr>ep_last_history := x8\<rparr>) = good evs f fed e"
  "good evs f fed (e\<lparr>ep_protocol := x10\<rparr>) = good evs f fed e"
  "good evs f fed (e\<lparr>ep_input := x11\<rparr>) = good evs f fed e"
  "good evs f fed (e\<lparr>ep_accepted := x12\<rparr>) = good evs f fed e"
  "good evs f fed (e\<lparr>ep_held_input := x13\<rparr>) = good evs f fed e"
  "good evs f fed (e\<lparr>ep_held_input_bytes := x14\<rparr>) = good evs f fed e"
  "good evs f fed (e\<lparr>ep_held_modes := x15\<rparr>) = good evs f fed e"
  "good evs f fed (e\<lparr>ep_ctx_err := x16\<rparr>) = good evs f fed e"
  by (rule good_cong; simp)+

lemma behind_other [simp]:
  "behind evs fed (e\<lparr>ep_source := x1\<rparr>) = behind evs fed e" "behind evs fed (e\<lparr>ep_scheduler := x2\<rparr>) = behind evs fed e"
  "behind evs fed (e\<lparr>ep_ingress := x3\<rparr>) = behind evs fed e" "behind evs fed (e\<lparr>ep_gate := x4\<rparr>) = behind evs fed e"
  "behind evs fed (e\<lparr>ep_active := x5\<rparr>) = behind evs fed e" "behind evs fed (e\<lparr>ep_start := x6\<rparr>) = behind evs fed e"
  "behind evs fed (e\<lparr>ep_input := x8\<rparr>) = behind evs fed e" "behind evs fed (e\<lparr>ep_history_rows := x7\<rparr>) = behind evs fed e"
  "behind evs fed (e\<lparr>ep_next_cut := x9\<rparr>) = behind evs fed e" "behind evs fed (e\<lparr>ep_pending_history := x10\<rparr>) = behind evs fed e"
  "behind evs fed (finish_active e) = behind evs fed e" "behind evs fed (set_attempt h e) = behind evs fed e"
  by (simp_all add: behind_def finish_active_def set_attempt_def)

text \<open>Publishing a frame shows its output.\<close>

lemma publish_input [simp]:
  "ep_fed (snd (publish_frame f e)) = ep_fed e" "ep_ingress (snd (publish_frame f e)) = ep_ingress e"
  "eg_owns_output (ep_egress (snd (publish_frame f e))) = eg_owns_output (ep_egress e)"
  by (cases f e rule: publish_frame_cases; auto dest: arg_cong [of _ _ "\<lambda>x. eg_owns_output (snd x)"])+

lemma publish_shown:
  "fst (publish_frame f e) = None \<Longrightarrow> shown (ep_log (snd (publish_frame f e))) = shown (ep_log e) @ frame_output f"
  "fst (publish_frame f e) \<noteq> None \<Longrightarrow> snd (publish_frame f e) = e"
  by (cases f e rule: publish_frame_cases; simp)+

text \<open>A LIVE frame may go out when nothing older is kept, or when it is what was kept.\<close>

lemma publish_live_shown:
  assumes "prefix (shown (ep_log e) @ d) (ordinary_bytes evs)" "ep_events e = evs" "ep_fed e = fed"
  shows "behind evs fed (snd (publish_live d e))"
    "fst (publish_live d e) = None \<Longrightarrow> shown (ep_log (snd (publish_live d e))) = shown (ep_log e) @ d"
proof -
  let ?p = "publish_frame (live_frame e (a_cut (ep_protocol e)) d) e"
  have "prefix (shown (ep_log e)) (ordinary_bytes evs)" using assms(1) append_prefixD by blast
  with assms publish_shown [of "live_frame e (a_cut (ep_protocol e)) d" e]
  show "behind evs fed (snd (publish_live d e))"
    by (cases "fst ?p") (auto simp: publish_live_def behind_def)
  show "shown (ep_log (snd (publish_live d e))) = shown (ep_log e) @ d" if "fst (publish_live d e) = None"
    using that publish_shown(1) [of "live_frame e (a_cut (ep_protocol e)) d" e]
    by (auto simp: publish_live_def split: if_splits)
qed

lemma publish_terminal_closes:
  assumes "alive e" "\<not> bind_undecided e" "behind evs fed e"
  shows "closes evs fed (snd (publish_terminal c e))"
proof -
  have own: "ownership_valid (start_owner e)" "ao_kind (start_owner e) \<noteq> OwnershipPending"
    using assms(1,2) attempt_valid_owner undecided_iff by (auto simp: alive_def)
  have rel: "ep_fed (release_output e) = ep_fed e"
    by (simp add: release_output_def drop_transitional_def clear_transitional_def finish_active_def Let_def)
  have "shown (ep_log (snd (publish_frame (end_frame e k) (release_output e)))) = shown (ep_log e)" for k
    using publish_shown [of "end_frame e k" "release_output e"]
    by (cases "fst (publish_frame (end_frame e k) (release_output e))") auto
  with assms own rel show ?thesis
    by (simp add: publish_terminal_def Let_def split_beta alive_def closes_def behind_def closing_def)
qed

lemma request_closes:
  assumes "alive e" "behind evs fed e" "attempt_cause e = None \<or> closing e"
  shows "closes evs fed (snd (request_terminal c e))"
proof (cases "bind_undecided e")
  case True
  then obtain a where "ep_start e = Some a" "sa_phase a = StartPhaseBinding"
    by (auto simp: bind_undecided_def split: option.splits)
  with True assms show ?thesis
    by (auto simp: request_terminal_def Let_def defer_terminal_def closes_def behind_def closing_def alive_def
        attempt_cause_def begun_def ingress_discard_def)
next
  case False
  with assms(1) publish_terminal_closes [OF assms(1) False assms(2)] show ?thesis
    by (simp add: request_terminal_def Let_def split_beta alive_def)
qed

lemma request_any_closes:
  assumes "lifecycle_inv e" "behind evs fed e" "attempt_cause e = None \<or> closing e"
  shows "closes evs fed (snd (request_terminal c e))"
proof (cases "ep_terminal e")
  case None
  from lifecycle_aliveD [OF assms(1) None] request_closes assms(2,3) show ?thesis by (simp add: running_def)
qed (use assms in \<open>simp add: request_terminal_def closes_def closing_def\<close>)

lemma request_good [simp]:
  assumes "running e" "good evs f fed e"
  shows "stays evs f fed (snd (request_terminal c e))" "stays evs f fed (terminate c e)"
    "stays evs f fed (snd (fail_request c e))"
proof -
  show r: "stays evs f fed (snd (request_terminal c e))" for c
    using request_closes [of e evs fed c] assms good_behind [OF assms(2)]
    by (simp add: running_def good_def stays_def)
  show "stays evs f fed (terminate c e)" "stays evs f fed (snd (fail_request c e))"
    by (simp_all add: terminate_def fail_request_def split_beta r)
qed

section \<open>Starting\<close>

lemma good_attempt:
  assumes "good evs f fed e" "ep_start e = Some a" "sa_replay b = sa_replay a"
    "sa_pending_cause b = sa_pending_cause a" "sa_phase b = StartPhaseBinding \<longleftrightarrow> sa_phase a = StartPhaseBinding"
  shows "good evs f fed (e\<lparr>ep_start := Some b\<rparr>)"
  using assms by (auto simp: good_def kept_def kept_of_attempt_def tidy_def attempt_cause_def begun_def)

lemma start_admit_stays:
  assumes "running e" "good evs f fed e"
  shows "stays evs f fed (snd (start_admit h k x e))"
proof -
  have "good evs f fed (e\<lparr>ep_gate := g, ep_start := Some (new_attempt k)\<rparr>)" if "ep_start e = None" for g
    using assms(2) that
    by (simp add: good_def kept_def kept_of_attempt_def tidy_def attempt_cause_def new_attempt_def)
  with assms show ?thesis
    by (simp add: start_admit_def Let_def split_beta split: option.split sum.split)
qed

lemma transfer_good: "good evs f fed e \<Longrightarrow> good evs f fed (snd (transfer_ownership ids e))"
  by (cases "ep_start e") (auto simp: transfer_ownership_def set_attempt_def intro: good_attempt)

lemma reconcile_attempt_keeps:
  "reconcile_attempt o1 a = (ok, c, b) \<Longrightarrow>
   sa_replay b = sa_replay a \<and> sa_pending_cause b = sa_pending_cause a \<and> sa_phase b = sa_phase a"
  by (auto simp: reconcile_attempt_def adopt_exact_def adopt_none_def split: if_splits bind_outcome_kind.splits)

lemma reconcile_good: "good evs f fed e \<Longrightarrow> good evs f fed (snd (reconcile_bind o1 e))"
proof (cases "ep_start e")
  case (Some a)
  assume g: "good evs f fed e"
  obtain ok c b where b: "reconcile_attempt o1 a = (ok, c, b)" by (cases "reconcile_attempt o1 a")
  from reconcile_attempt_keeps [OF b] good_attempt [OF g Some, of b] Some b show ?thesis
    by (simp add: reconcile_bind_def)
qed (simp add: reconcile_bind_def)

lemma sched_call_good [simp]: "good evs f fed (snd (sched_call ev e)) = good evs f fed e"
  "good evs f fed (snd (begin_external now e)) = good evs f fed e"
  by (simp_all add: begin_external_def sched_call_def split_beta split: sched_answer.split)

lemma new_cut_fields:
  "new_cut i k p = Inr c \<Longrightarrow> cut_pre c = [] \<and> cut_held c = [] \<and> \<not> cut_marker_seen c \<and> cut_kind_of c = k"
  by (auto simp: new_cut_def split: if_splits)

lemma next_cut_new: "fst (next_cut k e) = Inr c \<Longrightarrow> cut_pre c = [] \<and> cut_held c = [] \<and> \<not> cut_marker_seen c"
  by (auto simp: next_cut_def Let_def dest: new_cut_fields)

lemma adopted_replay:
  assumes "ra_kind (fst (adopt_pre_marker c (Some r))) = ReplayAdopted"
  shows "snd (snd (adopt_pre_marker c (Some r))) = Some []"
    "fst (snd (adopt_pre_marker c (Some r))) = c\<lparr>cut_pre := r\<rparr>" "\<not> live_before_marker c"
  using assms by (auto simp: adopt_pre_marker_def live_before_marker_def split: if_splits)

lemma prepare_start_good:
  assumes "good evs f fed e"
  shows "good evs f fed (snd (prepare_start_cut now e))"
proof (cases "ep_start e")
  case (Some a)
  let ?e = "snd (begin_external now e)"
  have "good evs f fed (set_attempt (\<lambda>a. a\<lparr>sa_replay := [], sa_phase := StartPhaseCutting\<rparr>)
      (?e\<lparr>ep_next_cut := n, ep_active := Some (fresh_cut (c\<lparr>cut_pre := sa_replay a\<rparr>) rows None)\<rparr>))"
    if "ep_active e = None" "cut_pre c = [] \<and> cut_held c = [] \<and> \<not> cut_marker_seen c" "\<not> live_before_marker c"
      "sa_phase a = StartPhaseBinding" for c rows n
  proof -
    have "good evs f fed ?e" using assms by simp
    with that Some show ?thesis
      by (simp add: good_def kept_def kept_of_attempt_def kept_of_cut_def tidy_def tidy_cut_def attempt_cause_def
          begun_def set_attempt_def fresh_cut_def live_before_marker_def)
  qed
  with assms Some show ?thesis
    by (auto simp: prepare_start_cut_def split_beta adopted_replay split: option.split sum.split
        dest: next_cut_new)
qed (use assms in \<open>simp add: prepare_start_cut_def\<close>)

lemma start_bound_stays:
  assumes "running e" "good evs f fed e"
  shows "stays evs f fed (snd (start_bound o1 now e))"
proof -
  note r = reconcile_running [OF assms(1), of o1] and g = reconcile_good [OF assms(2), of o1]
  with prepare_start_running [OF r, of now] prepare_start_good [OF g, of now] assms show ?thesis
    by (simp add: start_bound_def split_beta split: option.split)
qed

section \<open>Cuts\<close>

lemma good_new_active:
  assumes "good evs f fed e" "begun (ep_start e)" "ep_active e = None" "cut_pre c = []" "cut_held c = []"
  shows "good evs f fed (e\<lparr>ep_active := Some (fresh_cut c rows req)\<rparr>)"
  using assms
  by (auto simp: good_def kept_def kept_of_cut_def tidy_def tidy_cut_def attempt_cause_def fresh_cut_def)

lemma open_cut_good:
  assumes "good evs f fed e" "begun (ep_start e)" "ep_active e = None"
  shows "good evs f fed (snd (open_cut k rows req e))"
proof (cases "fst (next_cut k e)")
  case (Inr c)
  have "good evs f fed (e\<lparr>ep_next_cut := n, ep_active := Some (fresh_cut c rows req)\<rparr>)" for n
    using good_new_active [of evs f fed "e\<lparr>ep_next_cut := n\<rparr>" c rows req] assms next_cut_new [OF Inr] by simp
  with Inr show ?thesis by (simp add: open_cut_def split_beta)
qed (use assms in \<open>simp add: open_cut_def split_beta\<close>)

text \<open>An update of the active cut that keeps what it keeps.\<close>

lemma good_active:
  assumes "good evs f fed e" "ep_active e = Some a" "ac_cut b = ac_cut a" "ac_prepared b = ac_prepared a"
  shows "good evs f fed (e\<lparr>ep_active := Some b\<rparr>)"
  using assms by (auto simp: good_def kept_def kept_of_cut_def tidy_def tidy_cut_def attempt_cause_def)

lemma maybe_prepare_good:
  assumes "running e" "good evs f fed e"
  shows "good evs f fed (snd (maybe_publish_prepare e))"
proof (cases "ep_active e")
  case (Some a)
  define e1 where "e1 = snd (publish_frame (prepare_frame e a) e)"
  have b: "begun (ep_start e)" using assms(1) Some by (auto simp: running_def agrees_def)
  have k: "kept_of_attempt (ep_start e) = []" "tidy_cut a" "\<not> eg_owns_output (ep_egress e)"
    using assms(2) b Some by (simp_all add: good_def tidy_def)
  have plain: "good evs f fed (e1\<lparr>ep_active := Some (a\<lparr>ac_prepared := True\<rparr>)\<rparr>)"
    if "fst (publish_frame (prepare_frame e a) e) = None" "\<not> ac_prepared a" "cut_marker_seen (ac_cut a)"
    using assms(2) that Some k publish_shown(1) [OF that(1)]
    by (simp add: good_def kept_def kept_of_cut_def tidy_def tidy_cut_def attempt_cause_def e1_def)
  have settled: "good evs f fed (set_attempt (\<lambda>s. s\<lparr>sa_result := prepared_result, sa_phase := StartPhasePrepared,
        sa_done := True\<rparr>) (e1\<lparr>ep_active := Some (a\<lparr>ac_prepared := True\<rparr>)\<rparr>))"
    if "fst (publish_frame (prepare_frame e a) e) = None" "\<not> ac_prepared a" "cut_marker_seen (ac_cut a)"
  proof (cases "ep_start e")
    case (Some s)
    with good_attempt [OF plain [OF that], of s "s\<lparr>sa_result := prepared_result, sa_phase := StartPhasePrepared,
        sa_done := True\<rparr>"] b show ?thesis by (simp add: e1_def set_attempt_def begun_def)
  qed (use b in \<open>simp add: begun_def\<close>)
  have err: "fst (publish_frame (prepare_frame e a) e) \<noteq> None \<Longrightarrow> e1 = e"
    using publish_shown(2) by (simp add: e1_def)
  from assms(2) Some plain settled err show ?thesis
    by (auto simp: maybe_publish_prepare_def split_beta Let_def marker_found_def e1_def [symmetric]
        split: option.split)
qed (use assms(2) in \<open>simp add: maybe_publish_prepare_def\<close>)

lemma cut_issue_good: "good evs f fed e \<Longrightarrow> good evs f fed (snd (cut_issue c e))"
  by (cases "ep_active e") (auto simp: cut_issue_def split: option.split intro: good_active)

lemma cut_captured_good:
  assumes "running e" "good evs f fed e" "\<not> cut_unissued c e"
  shows "good evs f fed (snd (cut_captured at l c rows t e))"
proof (cases "ep_active e")
  case (Some a)
  let ?e = "e\<lparr>ep_active := Some (a\<lparr>ac_capture_ready := True, ac_history := rows, ac_truncated := t\<rparr>)\<rparr>"
  have g1: "good evs f fed ?e" by (rule good_active [OF assms(2) Some]) simp_all
  have g2: "good evs f fed (?e\<lparr>ep_start := Some (s\<lparr>sa_phase := StartPhaseAwaitingPrepare\<rparr>)\<rparr>)"
    if "ep_start e = Some s" "sa_phase s = StartPhaseCutting" for s
    by (rule good_attempt [OF g1]) (use that in auto)
  show ?thesis
  proof (cases "cut_id (ac_cut a) = c")
    case True
    have r1: "running ?e"
      by (rule running_active_update [OF assms(1) Some]) (use assms(3) True Some in \<open>simp_all add: cut_unissued_def\<close>)
    have r2: "running (?e\<lparr>ep_start := Some (s\<lparr>sa_phase := StartPhaseAwaitingPrepare\<rparr>)\<rparr>)"
      if "ep_start e = Some s" "sa_phase s = StartPhaseCutting" for s
      by (rule running_attempt [OF r1])
        (use that running_attempt_valid [OF assms(1) that(1)] in \<open>auto simp: attempt_valid_def\<close>)
    show ?thesis using assms(2) r1 r2 g1 g2 Some
      by (auto simp: cut_captured_def Let_def set_attempt_def intro: maybe_prepare_good split: option.split)
  qed (use assms(2) Some in \<open>simp add: cut_captured_def\<close>)
qed (use assms(2) in \<open>simp add: cut_captured_def\<close>)

lemma cut_complete_good:
  "running e \<Longrightarrow> good evs f fed e \<Longrightarrow> \<not> cut_unissued c e \<Longrightarrow> good evs f fed (snd (cut_complete at l c rows o1 e))"
  by (simp add: cut_complete_def split_beta cut_captured_good split: sum.split)

lemma cut_deadline_stays: "running e \<Longrightarrow> good evs f fed e \<Longrightarrow> stays evs f fed (cut_deadline l c e)"
  by (simp add: cut_deadline_def)


lemma ongoing_stays:
  assumes "running e" "good evs f fed e"
  shows "stays evs f fed (snd (begin_ongoing_cut e))"
proof -
  have o1: "running (snd (open_cut k rows req (e\<lparr>ep_gate := g\<rparr>)))" "good evs f fed (snd (open_cut k rows req (e\<lparr>ep_gate := g\<rparr>)))"
    if "a_state (ep_protocol e) = StateLive" "ep_active e = None" for k rows req g
    using assms that live_begun [OF assms(1)] open_cut_running [of "e\<lparr>ep_gate := g\<rparr>"]
      open_cut_good [of evs f fed "e\<lparr>ep_gate := g\<rparr>"] by (simp_all add: between_cuts_def)
  with assms show ?thesis
    by (auto simp: begin_ongoing_cut_def Let_def split_beta split: option.split sum.split)
qed

lemma external_cut:
  assumes "running e" "good evs f fed e" "a_state (ep_protocol e) = StateLive" "ep_active e = None"
  shows "running (snd (open_cut k rows req ((snd (begin_external now (e\<lparr>ep_gate := g\<rparr>)))\<lparr>ep_pending_history := h\<rparr>)))"
    "good evs f fed (snd (open_cut k rows req ((snd (begin_external now (e\<lparr>ep_gate := g\<rparr>)))\<lparr>ep_pending_history := h\<rparr>)))"
    "running (snd (open_cut k rows req (snd (begin_external now (e\<lparr>ep_gate := g\<rparr>)))))"
    "good evs f fed (snd (open_cut k rows req (snd (begin_external now (e\<lparr>ep_gate := g\<rparr>)))))"
  using assms live_begun [OF assms(1,3)]
  by (auto intro!: open_cut_running open_cut_good simp: between_cuts_def)

lemma pending_history_stays:
  assumes "running e" "good evs f fed e"
  shows "stays evs f fed (snd (begin_pending_history now e))"
  using assms external_cut [OF assms]
  by (auto simp: begin_pending_history_def Let_def split_beta split: option.split sum.split)

section \<open>PTY output\<close>

text \<open>Output that is due: it belongs behind everything shown and kept.\<close>

definition due :: "bytes \<Rightarrow> ingress_event list \<Rightarrow> ingress_framer \<Rightarrow> bytes \<Rightarrow> epoch \<Rightarrow> bool" where
  "due d evs f fed e \<longleftrightarrow>
     shown (ep_log e) @ kept e @ d = ordinary_bytes evs \<and> tidy e \<and> attempt_cause e = None
     \<and> ep_events e = evs \<and> ep_ingress e = f \<and> ep_fed e = fed"

lemma due_behind: "due d evs f fed e \<Longrightarrow> behind evs fed e"
  unfolding due_def behind_def by (metis prefixI)

lemma settle_prepare_none:
  assumes "running e" "begun (ep_start e)" "fst (settle_prepare po e) = None"
  shows "snd (settle_prepare po e) = e"
proof (cases "po_kind po = PrepareFailed")
  case True
  have "\<not> bind_undecided e" using assms(2) by (auto simp: bind_undecided_def begun_def split: option.splits)
  then have "rq_kind (fst (request_terminal (po_cause po) e)) = TerminalRequestResolved"
    by (simp add: request_terminal_def Let_def split_beta)
  with terminal_public_error [OF assms(1), of "po_cause po"] True assms(3) show ?thesis
    by (auto simp: settle_prepare_def split_beta)
qed (use assms in \<open>auto simp: settle_prepare_def split: prepare_outcome_kind.split\<close>)

lemma settle_prepare_stays:
  assumes "running e" "good evs f fed e"
  shows "stays evs f fed (snd (settle_prepare po e))"
  using assms by (simp add: settle_prepare_def split_beta split: prepare_outcome_kind.split)

text \<open>The common end of the routes through an active cut.\<close>

lemma prepare_onward:
  assumes "running e" "good evs f fed e" "begun (ep_start e)"
  defines "p \<equiv> maybe_publish_prepare e"
  shows "onward evs f fed (fst (settle_prepare (fst p) (snd p))) (snd (settle_prepare (fst p) (snd p)))"
proof -
  have r: "running (snd p)" "good evs f fed (snd p)"
    using maybe_prepare_running [OF assms(1)] maybe_prepare_good [OF assms(1,2)] by (simp_all add: p_def)
  have "begun (ep_start (snd p))"
    using assms(3)
    by (auto simp: p_def maybe_publish_prepare_def split_beta Let_def set_attempt_def begun_def split: option.splits)
  note none = settle_prepare_none [OF r(1) this, of "fst p"]
  show ?thesis
  proof (cases "good evs f fed (snd (settle_prepare (fst p) (snd p)))")
    case False
    with settle_prepare_stays [OF r, of "fst p"] none r(2) show ?thesis
      by (auto simp: onward_def stays_def closes_def)
  qed simp
qed

lemma route_active_onward:
  assumes "running e" "due d evs f fed e" "ep_active e = Some a"
  shows "onward evs f fed (snd (fst (route_active a d e))) (snd (route_active a d e))"
proof (cases "feed_ordinary (ac_cut a) d")
  case (Inl err)
  with due_behind [OF assms(2)] assms(2) show ?thesis by (simp add: route_active_def onward_def due_def)
next
  case (Inr rc)
  obtain route c where rc: "rc = (route, c)" by (cases rc)
  let ?e1 = "e\<lparr>ep_active := Some (a\<lparr>ac_cut := c\<rparr>)\<rparr>"
  note feed = Inr [unfolded rc]
  have b: "begun (ep_start e)" using active_begun [OF assms(1)] assms(3) by simp
  have r1: "running ?e1"
    by (rule running_active_update [OF assms(1,3)])
      (use feed_ordinary_id [OF feed] running_issued [OF assms(1,3)] in simp_all)
  have t: "tidy_cut a" "kept_of_attempt (ep_start e) = []" "\<not> eg_owns_output (ep_egress e)"
    using assms(2,3) b by (simp_all add: due_def tidy_def)
  have split: "kept_of_cut a @ d = route_live route @ kept_of_cut (a\<lparr>ac_cut := c\<rparr>)" "tidy_cut (a\<lparr>ac_cut := c\<rparr>)"
    using feed t(1)
    by (auto simp: feed_ordinary_def kept_of_cut_def tidy_cut_def live_before_marker_def split: if_splits)
  have all: "shown (ep_log ?e1) @ route_live route @ kept_of_cut (a\<lparr>ac_cut := c\<rparr>) = ordinary_bytes evs"
    "ep_events ?e1 = evs" "ep_ingress ?e1 = f" "ep_fed ?e1 = fed" "attempt_cause ?e1 = None"
    using assms(2,3) split(1) t(2) by (simp_all add: due_def kept_def attempt_cause_def)
  then have "prefix (shown (ep_log ?e1) @ route_live route) (ordinary_bytes evs)" by (metis append.assoc prefixI)
  note live = publish_live_shown [OF this all(2,4)]
  obtain err e2 where p: "publish_live (route_live route) ?e1 = (err, e2)" by fastforce
  have r2: "running e2" using p publish_live_running [OF r1, of "route_live route"] by simp
  have same: "ep_start e2 = ep_start e" "ep_active e2 = Some (a\<lparr>ac_cut := c\<rparr>)" "ep_ingress e2 = f"
    "eg_owns_output (ep_egress e2) = eg_owns_output (ep_egress e)" "ep_events e2 = evs" "ep_fed e2 = fed"
    using arg_cong [OF p, of snd] all by (auto simp: publish_live_def split: if_splits)
  have g2: "good evs f fed e2" if "err = None"
    using live(2) p that all t split(2) same
    by (simp add: good_def kept_def tidy_def attempt_cause_def)
  have b2: "behind evs fed e2" "attempt_cause e2 = None"
    using live(1) p same(1) assms(2) by (simp_all add: due_def attempt_cause_def)
  from prepare_onward [OF r2 g2] b2 same(1) b p feed show ?thesis
    by (cases err) (auto simp: route_active_def split_beta onward_def split: option.splits)
qed

lemma route_ordinary_onward:
  assumes "running e" "due d evs f fed e"
  shows "onward evs f fed (snd (fst (route_ordinary d e))) (snd (route_ordinary d e))"
proof (cases "ep_active e")
  case (Some a)
  with route_active_onward [OF assms Some] show ?thesis by (simp add: route_ordinary_def)
next
  case None
  have bind: "onward evs f fed None (e\<lparr>ep_start := Some (s\<lparr>sa_replay := sa_replay s @ d\<rparr>)\<rparr>)"
    if "ep_start e = Some s" "binding_ingress e" for s
  proof -
    have "good evs f fed (e\<lparr>ep_start := Some (s\<lparr>sa_replay := sa_replay s @ d\<rparr>)\<rparr>)"
      using that assms(2) None
      by (simp add: good_def due_def kept_def kept_of_attempt_def tidy_def attempt_cause_def begun_def binding_ingress_def)
    then show ?thesis by simp
  qed
  have nocause: "sa_pending_cause s = None" if "ep_start e = Some s" for s
    using that assms(2) by (simp add: due_def attempt_cause_def)
  let ?p = "publish_frame (live_frame e (a_cut (ep_protocol e)) d) e"
  have live: "onward evs f fed (fst ?p) (snd ?p)" if "a_state (ep_protocol e) = StateLive"
  proof (cases "fst ?p")
    case None
    have "kept_of_attempt (ep_start e) = []"
      using live_begun [OF assms(1) that] assms(2) by (simp add: due_def tidy_def)
    with None publish_shown(1) [OF None] assms(2) \<open>ep_active e = None\<close> have "good evs f fed (snd ?p)"
      by (simp add: good_def due_def kept_def tidy_def attempt_cause_def)
    then show ?thesis by simp
  next
    case (Some err)
    with publish_shown(2) [of "live_frame e (a_cut (ep_protocol e)) d" e] due_behind [OF assms(2)] assms(2)
    show ?thesis by (simp add: onward_def due_def)
  qed
  have "attempt_cause e = None" using assms(2) by (simp add: due_def)
  with None bind live nocause due_behind [OF assms(2)] show ?thesis
    by (auto simp: route_ordinary_def split_beta onward_def binding_ingress_def split: option.split)
qed

lemma route_marker_onward:
  assumes "running e" "good evs f fed e"
  shows "onward evs f fed (snd (fst (route_marker p e))) (snd (route_marker p e))"
proof (cases "ep_active e")
  case (Some a)
  show ?thesis
  proof (cases "accept_marker (ac_cut a) p")
    case (Inr c)
    have r1: "running (e\<lparr>ep_active := Some (a\<lparr>ac_cut := c\<rparr>)\<rparr>)"
      by (rule running_active_update [OF assms(1) Some])
        (use accept_marker_id [OF Inr] running_issued [OF assms(1) Some] in simp_all)
    have g1: "good evs f fed (e\<lparr>ep_active := Some (a\<lparr>ac_cut := c\<rparr>)\<rparr>)"
      using assms(2) Some Inr
      by (auto simp: good_def kept_def kept_of_cut_def tidy_def tidy_cut_def attempt_cause_def accept_marker_def
          live_before_marker_def split: if_splits)
    with prepare_onward [OF r1 g1] active_begun [OF assms(1)] Some Inr show ?thesis
      by (simp add: route_marker_def split_beta)
  qed (use Some assms in \<open>simp add: route_marker_def\<close>)
qed (use assms in \<open>simp add: route_marker_def\<close>)

lemma route_event_onward:
  assumes "running e" "good evs f fed e"
  shows "onward (evs @ [ev]) f fed (snd (fst (route_event ev e))) (snd (route_event ev e))"
proof -
  let ?e = "e\<lparr>ep_events := ep_events e @ [ev]\<rparr>"
  have r: "running ?e" using assms(1) by simp
  show ?thesis
  proof (cases ev)
    case (IngressOrdinary d)
    then have "due d (evs @ [ev]) f fed ?e"
      using assms(2) by (auto simp: due_def good_def kept_def tidy_def attempt_cause_def)
    from route_ordinary_onward [OF r this] IngressOrdinary show ?thesis by (simp add: route_event_def Let_def)
  next
    case (IngressPrivateMarker p)
    then have "good (evs @ [ev]) f fed ?e"
      using assms(2) by (auto simp: good_def kept_def tidy_def attempt_cause_def)
    from route_marker_onward [OF r this] IngressPrivateMarker show ?thesis by (simp add: route_event_def Let_def)
  qed
qed

lemma route_events_onward:
  assumes "running e" "good evs0 f fed e"
  defines "r \<equiv> \<lambda>evs act e. route_events evs act e"
  shows "\<exists>k. onward (evs0 @ take k evs) f fed (snd (fst (r evs act e))) (snd (r evs act e))
    \<and> (snd (fst (r evs act e)) = None \<longrightarrow> k = length evs)"
  using assms(1,2) unfolding r_def
proof (induction evs act e arbitrary: evs0 rule: route_events.induct)
  case (2 ev evs act e)
  obtain a1 err e1 where r: "route_event ev e = ((a1, err), e1)" by (metis prod.collapse)
  note on = route_event_onward [OF 2(2,3), of ev] and go = route_event_goes_on [OF 2(2), of ev]
  show ?case
  proof (cases err)
    case None
    have e1: "running e1" "good (evs0 @ [ev]) f fed e1"
      using on go r None by (simp_all add: onward_def goes_on_def)
    from 2(1) [OF r [symmetric] refl None e1]
    obtain k where
      "onward ((evs0 @ [ev]) @ take k evs) f fed (snd (fst (route_events evs (act \<or> a1) e1)))
         (snd (route_events evs (act \<or> a1) e1))
       \<and> (snd (fst (route_events evs (act \<or> a1) e1)) = None \<longrightarrow> k = length evs)" by (elim exE)
    with r None show ?thesis by (intro exI [of _ "Suc k"]) simp
  next
    case (Some x)
    with on r show ?thesis by (intro exI [of _ 1]) (simp add: onward_def)
  qed
qed simp


text \<open>What was taken in: exactly, or at least not less than what was routed.\<close>

definition taken :: "ingress_event list \<Rightarrow> ingress_framer \<Rightarrow> bytes \<Rightarrow> bool" where
  "taken evs f fed \<longleftrightarrow> (\<exists>w. on_wire evs w \<and> fed = w @ ing_pending f)"

definition taken_part :: "ingress_event list \<Rightarrow> bytes \<Rightarrow> bool" where
  "taken_part evs fed \<longleftrightarrow> (\<exists>w. on_wire evs w \<and> prefix w fed)"

lemma taken_partI: "taken (evs @ evs') f fed \<Longrightarrow> taken_part evs fed"
proof -
  assume "taken (evs @ evs') f fed"
  then obtain w where w: "on_wire (evs @ evs') w" "fed = w @ ing_pending f" by (auto simp: taken_def)
  from on_wire_prefix [OF w(1)] obtain u where "on_wire evs u" "prefix u w" by blast
  with w(2) show ?thesis unfolding taken_part_def by (metis prefix_prefix)
qed

lemma taken_taken_part: "taken evs f fed \<Longrightarrow> taken_part evs fed"
  using taken_partI [of evs "[]"] by simp

definition out_ok :: "epoch \<Rightarrow> bool" where
  "out_ok e \<longleftrightarrow> taken_part (ep_events e) (ep_fed e)
     \<and> (good (ep_events e) (ep_ingress e) (ep_fed e) e \<and> taken (ep_events e) (ep_ingress e) (ep_fed e)
        \<or> closes (ep_events e) (ep_fed e) e)"

lemma stays_out: "taken evs f fed \<Longrightarrow> stays evs f fed e \<Longrightarrow> out_ok e"
  using taken_taken_part [of evs f fed]
  by (auto simp: out_ok_def stays_def good_def closes_def behind_def)

lemma closes_out: "taken_part evs fed \<Longrightarrow> closes evs fed e \<Longrightarrow> out_ok e"
  by (simp add: out_ok_def closes_def behind_def)

lemma pty_bytes_out:
  assumes "running e" "good evs f fed e" "taken evs f fed"
  shows "out_ok (snd (pty_bytes_locked d e))"
proof -
  obtain new err g where g: "ingress_feed (ep_ingress e) d = (new, err, g)" by (cases "ingress_feed (ep_ingress e) d")
  define e1 where "e1 = e\<lparr>ep_ingress := g, ep_fed := ep_fed e @ d\<rparr>"
  obtain act x e2 where x: "route_events new False e1 = ((act, x), e2)" by (metis prod.collapse)
  have r1: "running e1" and g1: "good evs g (fed @ d) e1"
    using assms(1,2) by (simp_all add: e1_def good_def kept_def tidy_def attempt_cause_def)
  from feed_on_wire [OF g] assms(2,3) on_wire_append have t: "taken (evs @ new) g (fed @ d)"
    by (fastforce simp: taken_def good_def)
  from route_events_onward [OF r1 g1, of new False] x obtain k where
    on: "onward (evs @ take k new) g (fed @ d) x e2" "x = None \<longrightarrow> k = length new" by auto
  have life: "lifecycle_inv e2" using route_events_goes_on [OF r1, of new False] x by (simp add: goes_on_def)
  have "taken ((evs @ take k new) @ drop k new) g (fed @ d)" using t by simp
  note part = taken_partI [OF this]
  have fin: "out_ok (snd (request_terminal c e2))" for c
    using closes_out [OF part request_any_closes [OF life]] on(1) by (simp add: onward_def)
  have ok: "out_ok e2" if "x = None" using stays_out [OF t] on that by (simp add: onward_def)
  have same: "out_ok e" using stays_out [OF assms(3)] assms(2) by simp
  show ?thesis using fin ok same g x e1_def
    by (auto simp: pty_bytes_locked_def split_beta split: option.split)
qed

section \<open>The browser's frames\<close>

lemma release_mode_shown:
  "release_mode s x hi m r = (None, r') \<Longrightarrow> shown (rl_trail r') = shown (rl_trail r)"
  by (auto simp: release_mode_def split: if_splits sum.splits prod.splits option.splits)

lemma release_modes_shown:
  "release_modes s x hi ms r = (None, r') \<Longrightarrow> shown (rl_trail r') = shown (rl_trail r)"
  by (induction s x hi ms r rule: release_modes.induct)
    (auto split: prod.splits option.splits dest: release_mode_shown)

lemma release_shown: "release_transitional e n tr = (None, r) \<Longrightarrow> shown (rl_trail r) = shown tr"
  by (auto simp: release_transitional_def Let_def split: if_splits option.splits dest: release_modes_shown)

lemma send_owns [simp]: "eg_owns_output (snd (send_frames fs g)) = eg_owns_output g"
  by (simp add: send_frames_def)

lemma deliver_rest [simp]:
  "ep_events (snd (deliver_transition n tr e)) = ep_events e" "ep_fed (snd (deliver_transition n tr e)) = ep_fed e"
  "ep_ingress (snd (deliver_transition n tr e)) = ep_ingress e"
  "eg_owns_output (ep_egress (snd (deliver_transition n tr e))) = eg_owns_output (ep_egress e)"
  by (simp_all add: deliver_transition_def split_beta Let_def clear_transitional_def split: option.split)

lemma deliver_shown:
  "fst (deliver_transition n tr e) = None \<Longrightarrow> shown (ep_log (snd (deliver_transition n tr e))) = shown (ep_log e) @ shown tr"
  "shown (ep_log (snd (deliver_transition n tr e))) \<in> {shown (ep_log e), shown (ep_log e) @ shown tr}"
  using release_shown [of e n tr]
  by (cases "release_transitional e n tr";
      force simp: deliver_transition_def split_beta Let_def clear_transitional_def split: option.splits if_splits)+


definition answered :: "ingress_event list \<Rightarrow> ingress_framer \<Rightarrow> bytes \<Rightarrow> handled \<Rightarrow> epoch \<Rightarrow> bool" where
  "answered evs f fed h e \<longleftrightarrow>
     behind evs fed e \<and> attempt_cause e = None \<and> (case h of Failed _ \<Rightarrow> True | _ \<Rightarrow> good evs f fed e)"

lemma answered_good [simp]: "good evs f fed e \<Longrightarrow> answered evs f fed h e"
  by (simp add: answered_def good_behind split: handled.split) (simp add: good_def)

lemma answered_failed [simp]:
  "answered evs f fed (Failed x) e \<longleftrightarrow> behind evs fed e \<and> attempt_cause e = None"
  by (simp add: answered_def)

text \<open>READY and DEFER deliver what the prepared cut held.\<close>

lemma delivered_answered:
  assumes "running e" "good evs f fed e" "ep_active e = Some a" "ac_prepared a" "shown tr = held_bytes (ac_cut a)"
    and d_def: "d = deliver_transition n tr e"
  shows "behind evs fed (snd d) \<and> attempt_cause (snd d) = None"
    "fst d = None \<Longrightarrow> good evs f fed (finish_active (snd d))"
    "fst d = None \<Longrightarrow> good evs f fed (finish_active ((snd d)\<lparr>ep_history_rows := rows\<rparr>))"
proof -
  have k: "shown (ep_log e) @ shown tr = ordinary_bytes evs" "kept_of_attempt (ep_start e) = []"
    using assms(2-5) active_begun [OF assms(1)]
    by (auto simp: good_def kept_def kept_of_cut_def tidy_def held_bytes_def)
  then have "prefix (shown (ep_log e)) (ordinary_bytes evs)" by (metis prefixI)
  with k deliver_shown(2) [of n tr e] assms(2) show "behind evs fed (snd d) \<and> attempt_cause (snd d) = None"
    by (auto simp: behind_def good_def d_def attempt_cause_def)
  show "good evs f fed (finish_active (snd d))" if "fst d = None"
    using that k deliver_shown(1) [of n tr e] assms(2)
    by (simp add: good_def kept_def tidy_def attempt_cause_def finish_active_def d_def)
  then show "good evs f fed (finish_active ((snd d)\<lparr>ep_history_rows := rows\<rparr>))" if "fst d = None"
    using that by (simp add: good_def kept_def tidy_def attempt_cause_def finish_active_def)
qed

lemma live_if_any_shown [simp]: "shown (live_if_any e c d) = d"
  by (simp add: live_if_any_def)

lemma ready_answered:
  assumes "running e" "good evs f fed e"
  shows "answered evs f fed (fst (handle_ready fr e)) (snd (handle_ready fr e))"
proof (cases "ep_active e")
  case (Some a)
  show ?thesis
  proof (cases "ac_prepared a")
    case True
    define tr where "tr = [(FromBrowser, fr), (FromServer, (base_frame FrameCommit (ep_source_id e) (ep_epoch e))\<lparr>f_cut := f_cut fr\<rparr>)]
        @ live_if_any e (f_cut fr) (held_bytes (ac_cut a))"
    have "shown tr = held_bytes (ac_cut a)" by (simp add: tr_def)
    note d = delivered_answered [OF assms Some True this refl]
    from assms(2) good_rest [OF assms(2)] Some True d show ?thesis
      by (auto simp: handle_ready_def split_beta Let_def tr_def [symmetric, simplified]
          split: option.split sum.split)
  qed (use assms Some in \<open>simp add: handle_ready_def\<close>)
qed (use assms in \<open>simp add: handle_ready_def\<close>)

lemma defer_answered:
  assumes "running e" "good evs f fed e"
  shows "answered evs f fed (fst (handle_defer fr e)) (snd (handle_defer fr e))"
proof (cases "ep_active e")
  case (Some a)
  show ?thesis
  proof (cases "ac_prepared a")
    case True
    define tr where "tr = [(FromBrowser, fr)] @ live_if_any e (f_cut fr) (held_bytes (ac_cut a))"
    have "shown tr = held_bytes (ac_cut a)" by (simp add: tr_def)
    note d = delivered_answered [OF assms Some True this refl]
    from assms(2) good_rest [OF assms(2)] Some True d show ?thesis
      by (auto simp: handle_defer_def split_beta Let_def tr_def [symmetric, simplified]
          split: option.split sum.split)
  qed (use assms Some in \<open>simp add: handle_defer_def\<close>)
qed (use assms in \<open>simp add: handle_defer_def\<close>)

lemma good_log:
  assumes "good evs f fed e" "shown tr = []"
  shows "good evs f fed (e\<lparr>ep_log := ep_log e @ tr\<rparr>)"
  using assms by (simp add: good_def kept_def tidy_def attempt_cause_def)

lemma mode_request_answered:
  assumes "good evs f fed e"
  shows "answered evs f fed (fst (handle_mode_request fr e)) (snd (handle_mode_request fr e))"
proof -
  have "good evs f fed (e\<lparr>ep_input := p, ep_egress := g, ep_protocol := n,
      ep_log := ep_log e @ [(FromBrowser, fr), (FromServer, mode_frame s x m)]\<rparr>)"
    if "eg_owns_output g = eg_owns_output (ep_egress e)" for p g n s x m
    using assms that by (simp add: good_def kept_def tidy_def attempt_cause_def)
  moreover have "eg_owns_output (snd (egress_enqueue q g)) = eg_owns_output g" for q g
    by (simp add: egress_enqueue_def)
  ultimately show ?thesis using assms good_rest [OF assms]
    by (auto simp: handle_mode_request_def split_beta Let_def split: option.split sum.split)
qed

lemma input_answered:
  assumes "good evs f fed e"
  shows "answered evs f fed (fst (handle_input fr e)) (snd (handle_input fr e))"
proof -
  have "good evs f fed (e\<lparr>ep_input := p, ep_log := ep_log e @ [(FromBrowser, fr)], ep_accepted := q\<rparr>)" for p q
    using assms by (simp add: good_def kept_def tidy_def attempt_cause_def)
  with assms good_rest [OF assms] show ?thesis
    by (simp add: handle_input_def split_beta split: option.split sum.split)
qed

lemma handle_frame_stays:
  assumes "running e" "good evs f fed e"
  shows "stays evs f fed (snd (handle_frame_locked fr e))"
proof -
  have a: "answered evs f fed (fst (handle_switch fr e)) (snd (handle_switch fr e))"
    using assms ready_answered defer_answered mode_request_answered input_answered
    by (cases "f_type fr") (simp_all add: handle_switch_def)
  have "switched (fst (handle_switch fr e)) (snd (handle_switch fr e))"
    using assms(1) ready_switched defer_switched mode_request_switched input_switched
    by (cases "f_type fr") (simp_all add: handle_switch_def)
  then have "alive (snd (handle_switch fr e))" by (simp add: switched_def halfway_def)
  with a assms request_closes show ?thesis
    by (auto simp: handle_frame_locked_def split_beta answered_def stays_def split: option.split handled.split)
qed

section \<open>Resize, history and finalization\<close>

lemma resize_begin_stays:
  assumes "running e" "good evs f fed e"
  shows "stays evs f fed (snd (resize_begin h fr now e))"
proof -
  have "good evs f fed (x\<lparr>ep_protocol := n, ep_log := ep_log x @ [(FromBrowser, fr)]\<rparr>)" if "good evs f fed x" for x n
    using that by (simp add: good_def kept_def tidy_def attempt_cause_def)
  from this [OF external_cut(4) [OF assms]] assms external_cut [OF assms] show ?thesis
    by (auto simp: resize_begin_def Let_def split_beta split: option.split sum.split)
qed

text \<open>
  The one assumption about the environment: the marker of a cut is not in the PTY's output before the
  cut was issued.
\<close>

definition premature :: "epoch \<Rightarrow> bool" where
  "premature e \<longleftrightarrow>
     (case ep_active e of None \<Rightarrow> False | Some a \<Rightarrow> cut_marker_seen (ac_cut a) \<and> \<not> ac_cut_issued a)"

lemma abandon_stays:
  assumes "running e" "good evs f fed e" "\<not> premature e"
  shows "stays evs f fed (snd (abandon_resize c l e))"
proof (cases "ep_active e")
  case (Some a)
  let ?d = "pre_marker (ac_cut a)"
  obtain err e1 where p: "publish_live ?d e = (err, e1)" by fastforce
  have r1: "running e1" using p publish_live_running [OF assms(1), of ?d] by simp
  have "stays evs f fed (snd (fail_request k e1)) \<and> (err = None \<longrightarrow> good evs f fed (finish_active e1))"
    if "\<not> ac_cut_issued a" for k
  proof -
    have k: "\<not> cut_marker_seen (ac_cut a)" using assms(3) Some that by (simp add: premature_def)
    with assms(1,2) Some active_begun [OF assms(1)] have all: "shown (ep_log e) @ ?d = ordinary_bytes evs"
      "ep_events e = evs" "ep_fed e = fed" "kept_of_attempt (ep_start e) = []" "attempt_cause e = None"
      by (auto simp: good_def kept_def kept_of_cut_def tidy_def tidy_cut_def pre_marker_def)
    then have "prefix (shown (ep_log e) @ ?d) (ordinary_bytes evs)" by simp
    note live = publish_live_shown [OF this all(2,3)]
    have same: "ep_start e1 = ep_start e" "ep_ingress e1 = ep_ingress e" "ep_events e1 = ep_events e"
      "ep_fed e1 = ep_fed e" "eg_owns_output (ep_egress e1) = eg_owns_output (ep_egress e)"
      using arg_cong [OF p, of snd] by (auto simp: publish_live_def split: if_splits)
    have "stays evs f fed (snd (fail_request k e1))"
      using request_closes [of e1 evs fed k] r1 live(1) p same(1) all(5)
      by (simp add: fail_request_def split_beta stays_def running_def attempt_cause_def)
    moreover have "good evs f fed (finish_active e1)" if "err = None"
      using live(2) p that all same assms(2)
      by (simp add: good_def kept_def tidy_def attempt_cause_def finish_active_def)
    ultimately show ?thesis by blast
  qed
  with p assms Some show ?thesis
    by (auto simp: abandon_resize_def Let_def split_beta split: option.split)
qed (use assms in \<open>simp add: abandon_resize_def Let_def split_beta\<close>)

lemma resize_answered_stays:
  assumes "running e" "good evs f fed e" "\<not> premature e"
  shows "stays evs f fed (snd (resize_answered c l x s e))"
  using abandon_stays [of "e\<lparr>ep_source := s\<rparr>" evs f fed c l] assms
  by (auto simp: resize_answered_def Let_def split_beta premature_def split: option.split sum.split)

lemma request_history_stays:
  assumes "running e" "good evs f fed e"
  shows "stays evs f fed (snd (request_history fr e))"
proof -
  have "good evs f fed (e\<lparr>ep_pending_history := q, ep_last_history := l, ep_log := ep_log e @ [(FromBrowser, fr)]\<rparr>)" for q l
    using assms(2) by (simp add: good_def kept_def tidy_def attempt_cause_def)
  with assms show ?thesis
    by (auto simp: request_history_def Let_def split_beta split: option.split sum.split)
qed

lemma finish_output:
  assumes "running e" "good evs f fed e" "taken evs f fed"
  shows "\<exists>evs'. taken_part evs' fed \<and> behind evs' fed (snd (finish_ingress e))
    \<and> (attempt_cause (snd (finish_ingress e)) = None \<or> closing (snd (finish_ingress e)))"
proof -
  let ?f = "(ep_ingress e)\<lparr>ing_pending := []\<rparr>" and ?p = "ing_pending (ep_ingress e)"
  let ?e = "e\<lparr>ep_ingress := ?f\<rparr>"
  have r: "running ?e" and g: "good evs ?f fed ?e"
    using assms(1,2) by (simp_all add: good_def kept_def tidy_def attempt_cause_def)
  have idle: ?thesis if "snd (finish_ingress e) = ?e"
    using taken_taken_part [OF assms(3)] good_rest [OF g] that by auto
  show ?thesis
  proof (cases "?p \<noteq> [] \<and> length ?p < length marker_wire_prefix \<and> ?p = take (length ?p) marker_wire_prefix")
    case True
    have "index_sub marker_wire_prefix ?p = None"
    proof (cases "index_sub marker_wire_prefix ?p")
      case (Some n)
      from index_sub_start [OF Some] True show ?thesis by (auto simp: compat_def has_prefix_def)
    qed simp
    with True have "on_wire [IngressOrdinary ?p] ?p"
      by (auto simp: on_wire_def terminators_def intro!: exI [of _ "[[BEL]]"])
    with assms(2,3) on_wire_append have "taken_part (evs @ [IngressOrdinary ?p]) fed"
      by (fastforce simp: taken_def taken_part_def good_def)
    moreover have "snd (finish_ingress e) = snd (route_event (IngressOrdinary ?p) ?e)"
      using True
      by (auto simp: finish_ingress_def ingress_finish_def Let_def append_ordinary.simps split_beta
          split: option.split)
    ultimately show ?thesis using route_event_onward [OF r g, of "IngressOrdinary ?p"]
      by (auto simp: onward_def)
  qed (use idle in \<open>auto simp: finish_ingress_def ingress_finish_def Let_def\<close>)
qed

lemma finalize_out:
  assumes "running e" "good evs f fed e" "taken evs f fed"
  shows "out_ok (snd (finalize_begin e))"
proof -
  from finish_output [OF assms] obtain evs' where x: "taken_part evs' fed" "behind evs' fed (snd (finish_ingress e))"
    "attempt_cause (snd (finish_ingress e)) = None \<or> closing (snd (finish_ingress e))" by blast
  have "goes_on (fst (finish_ingress e)) (snd (finish_ingress e))"
    using assms(1) finish_events_lifecycle [of "e\<lparr>ep_ingress := snd (ingress_finish (ep_ingress e))\<rparr>"]
    by (auto simp: finish_ingress_def split_beta split: sum.split)
  then have "lifecycle_inv (snd (finish_ingress e))" by (simp add: goes_on_def)
  from closes_out [OF x(1) request_any_closes [OF this x(2,3)]]
  have "out_ok (snd (request_terminal c (snd (finish_ingress e))))" for c .
  moreover have "out_ok (snd (request_terminal c e))" for c
    using stays_out [OF assms(3) request_good(1) [OF assms(1,2)]] .
  ultimately show ?thesis by (simp add: finalize_begin_def split_beta split: option.split)
qed

section \<open>A recorded end\<close>

text \<open>While BIND is awaited to publish an end already recorded, nothing is shown or taken in.\<close>

definition waits :: "epoch \<Rightarrow> bool" where
  "waits e \<longleftrightarrow> running e \<and> attempt_cause e \<noteq> None \<and> \<not> begun (ep_start e) \<and> ing_pending (ep_ingress e) = []"

lemma closes_cong:
  assumes "ep_log e' = ep_log e" "ep_events e' = ep_events e" "ep_fed e' = ep_fed e" "ep_terminal e' = ep_terminal e"
    "ep_start e' = ep_start e" "ep_ingress e' = ep_ingress e"
  shows "closes evs fed e' = closes evs fed e"
  using assms by (simp add: closes_def behind_def closing_def attempt_cause_def)

lemma closes_other [simp]:
  "closes evs fed (e\<lparr>ep_source := x1\<rparr>) = closes evs fed e" "closes evs fed (e\<lparr>ep_scheduler := x2\<rparr>) = closes evs fed e"
  "closes evs fed (e\<lparr>ep_gate := x3\<rparr>) = closes evs fed e" "closes evs fed (e\<lparr>ep_input := x4\<rparr>) = closes evs fed e"
  "closes evs fed (e\<lparr>ep_egress := x5\<rparr>) = closes evs fed e" "closes evs fed (e\<lparr>ep_ctx_err := x6\<rparr>) = closes evs fed e"
  by (rule closes_cong; simp)+

lemma waits_other [simp]:
  "waits (e\<lparr>ep_source := x1\<rparr>) = waits e" "waits (e\<lparr>ep_scheduler := x2\<rparr>) = waits e"
  "waits (e\<lparr>ep_gate := x3\<rparr>) = waits e" "waits (e\<lparr>ep_input := x4\<rparr>) = waits e"
  "waits (e\<lparr>ep_egress := x5\<rparr>) = waits e" "waits (e\<lparr>ep_ctx_err := x6\<rparr>) = waits e"
  by (simp_all add: waits_def attempt_cause_def)

lemma waitsD:
  assumes "waits e"
  shows "running e" "ep_terminal e = None" "ep_active e = None" "a_state (ep_protocol e) = StateAwaitPrepare"
    "\<exists>s c. ep_start e = Some s \<and> sa_phase s = StartPhaseBinding \<and> sa_pending_cause s = Some c" "closing e"
  using assms
  by (auto simp: waits_def closing_def running_def alive_def agrees_def attempt_cause_def begun_def split: option.splits)

lemma waits_closes: "waits e \<Longrightarrow> behind evs fed e \<Longrightarrow> closes evs fed e"
  by (simp add: closes_def waitsD(6))

lemma waits_request:
  assumes "waits e" "behind evs fed e"
  shows "closes evs fed (snd (request_terminal c e))" "closes evs fed (terminate c e)"
    "closes evs fed (snd (fail_request c e))"
proof -
  show r: "closes evs fed (snd (request_terminal c e))" for c
    using request_closes [of e evs fed c] assms waitsD(1,6) [OF assms(1)] by (simp add: running_def)
  show "closes evs fed (terminate c e)" "closes evs fed (snd (fail_request c e))"
    by (simp_all add: terminate_def fail_request_def split_beta r)
qed

lemma refused_unless_live:
  assumes "a_state a = StateAwaitPrepare"
    "f_type f \<in> {FrameReady, FrameDefer, FrameModeRequest, FrameInput, FrameResize}"
  shows "\<exists>err. automaton_apply d f a = Inl err"
proof (cases "automaton_apply d f a")
  case (Inr b)
  from accepted_table [OF this] assms show ?thesis by auto
qed simp

lemma waits_frame: "waits e \<Longrightarrow> snd (handle_frame_locked f e) = e"
proof -
  assume w: "waits e"
  note d = waitsD [OF w]
  have "\<exists>err. handle_switch f e = (Refused err, e)"
    using d refused_unless_live [OF d(4), of f FromBrowser]
    by (cases "f_type f")
      (auto simp: handle_switch_def handle_ready_def handle_defer_def handle_mode_request_def handle_input_def
        transitional_ongoing_def)
  then show ?thesis by (auto simp: handle_frame_locked_def split: option.split)
qed

lemma waits_start:
  assumes w: "waits e" and b: "behind evs fed e"
  shows "closes evs fed (snd (start_admit h k x e))" "closes evs fed (start_owner_gone y e)"
    "closes evs fed (snd (transfer_ownership ids e))" "closes evs fed (snd (start_bound o1 now e))"
proof -
  note d = waitsD [OF w] and c = waits_closes [OF w b] and r = waits_request [OF w b]
  obtain s k0 where s: "ep_start e = Some s" "sa_phase s = StartPhaseBinding" "sa_pending_cause s = Some k0"
    using d(5) by blast
  show "closes evs fed (snd (start_admit h k x e))" using c d s by (simp add: start_admit_def)
  show "closes evs fed (start_owner_gone y e)" using c r s by (simp add: start_owner_gone_def)
  have w2: "waits (e\<lparr>ep_start := Some t\<rparr>)"
    if "sa_phase t = StartPhaseBinding" "sa_pending_cause t = Some k0" "attempt_valid (Some t)" for t
    using running_attempt [OF d(1) s(1) that(3)] that w s by (auto simp: waits_def attempt_cause_def begun_def)
  have "attempt_valid (Some (s\<lparr>sa_ownership := exact_ownership ids\<rparr>))" if "ids_exact ids"
    using running_attempt_valid [OF d(1) s(1)] s that by (auto simp: attempt_valid_def)
  with w2 [of "s\<lparr>sa_ownership := exact_ownership ids\<rparr>"] c b s
  show "closes evs fed (snd (transfer_ownership ids e))"
    by (auto simp: transfer_ownership_def set_attempt_def intro: waits_closes)
  obtain ok f t where t: "reconcile_attempt o1 s = (ok, f, t)" by (cases "reconcile_attempt o1 s")
  have "waits (e\<lparr>ep_start := Some t\<rparr>)"
    using w2 reconcile_attempt_keeps [OF t] reconcile_attempt_ok [OF running_attempt_valid [OF d(1) s(1)] t] s
    by simp
  then have "closes evs fed (terminate k (e\<lparr>ep_start := Some t\<rparr>))" for k
    using waits_request(2) b by simp
  with d s t reconcile_attempt_keeps [OF t] show "closes evs fed (snd (start_bound o1 now e))"
    by (simp add: start_bound_def reconcile_bind_def attempt_cause_def)
qed

lemma waits_cuts:
  assumes w: "waits e" and b: "behind evs fed e"
  shows "closes evs fed (snd (cut_issue c e))" "closes evs fed (snd (cut_complete at l c rows o1 e))"
    "closes evs fed (cut_deadline l c e)" "closes evs fed (snd (begin_ongoing_cut e))"
    "closes evs fed (snd (begin_pending_history now e))" "closes evs fed (snd (resize_begin h f now e))"
    "closes evs fed (snd (resize_answered c l x s e))"
proof -
  note d = waitsD [OF w] and c = waits_closes [OF w b] and r = waits_request [OF w b]
  have r': "closes evs fed (snd (fail_request k (e\<lparr>ep_gate := g\<rparr>)))"
    "closes evs fed (snd (fail_request k (e\<lparr>ep_source := q\<rparr>)))" for k g q
    using waits_request(3) [of "e\<lparr>ep_gate := g\<rparr>"] waits_request(3) [of "e\<lparr>ep_source := q\<rparr>"] w b by simp_all
  show "closes evs fed (snd (cut_issue c e))" "closes evs fed (cut_deadline l c e)"
    using c d by (simp_all add: cut_issue_def cut_deadline_def active_is_def)
  show "closes evs fed (snd (cut_complete at l c rows o1 e))"
    using c d by (simp add: cut_complete_def cut_captured_def split_beta split: sum.split)
  show "closes evs fed (snd (begin_ongoing_cut e))"
    using c d r' by (simp add: begin_ongoing_cut_def Let_def split_beta split: sum.split)
  show "closes evs fed (snd (begin_pending_history now e))"
    using c d r by (simp add: begin_pending_history_def Let_def split_beta split: sum.split option.split)
  show "closes evs fed (snd (resize_begin h f now e))"
    using c d by (simp add: resize_begin_def Let_def split_beta split: sum.split option.split)
  show "closes evs fed (snd (resize_answered c l x s e))"
    using c d r' by (simp add: resize_answered_def abandon_resize_def Let_def split_beta
        split: sum.split option.split)
qed

lemma waits_rest:
  assumes w: "waits e" and b: "behind evs fed e"
  shows "closes evs fed (snd (pty_bytes_locked data e))" "closes evs fed (snd (handle_frame_locked f e))"
    "closes evs fed (snd (request_history f e))" "closes evs fed (snd (sched_or_fault ev e))"
    "closes evs fed (snd (finalize_begin e))"
proof -
  note d = waitsD [OF w] and c = waits_closes [OF w b] and r = waits_request [OF w b]
  have "binding_ended e" using d(5) by (auto simp: binding_ended_def)
  with c d show "closes evs fed (snd (pty_bytes_locked data e))"
    by (simp add: pty_bytes_locked_def split_beta split: option.split)
  show "closes evs fed (snd (handle_frame_locked f e))" using c waits_frame [OF w] by simp
  have "closes evs fed (e\<lparr>ep_pending_history := q, ep_last_history := n, ep_log := ep_log e @ [(FromBrowser, f)]\<rparr>)" for q n
    using c by (simp add: closes_def behind_def closing_def attempt_cause_def)
  with c r show "closes evs fed (snd (request_history f e))"
    by (auto simp: request_history_def Let_def split_beta split: option.split sum.split)
  have "closes evs fed (terminate k (e\<lparr>ep_scheduler := s\<rparr>))" for k s
    using waits_request(2) [of "e\<lparr>ep_scheduler := s\<rparr>"] w b by simp
  with c r show "closes evs fed (snd (sched_or_fault ev e))"
    by (simp add: sched_or_fault_def sched_call_def split_beta Let_def split: option.split sched_answer.split)
  have "ing_pending (ep_ingress e) = []" using w by (simp add: waits_def)
  then have "finish_ingress e = (None, e)" by (simp add: finish_ingress_def ingress_finish_def Let_def)
  with r show "closes evs fed (snd (finalize_begin e))"
    by (simp add: finalize_begin_def split: option.split)
qed

lemma waits_step:
  assumes w: "waits e" and b: "behind evs fed e"
  shows "closes evs fed (epoch_step e ev)"
proof -
  have td: "teardown_step tev e = e" for tev
    using waitsD(1) [OF w] by (cases tev) (simp_all add: teardown_step_def running_def alive_def)
  have rep: "ep_teardown e \<noteq> TeardownDone" using waitsD(1) [OF w] by (simp add: running_def alive_def)
  show ?thesis
    by (cases ev) (simp_all add: epoch_step_def td rep waits_closes [OF w b] waits_start [OF w b]
        waits_cuts [OF w b] waits_rest [OF w b] waits_request [OF w b])
qed

section \<open>Steps\<close>

lemma sched_or_fault_stays:
  assumes "running e" "good evs f fed e"
  shows "stays evs f fed (snd (sched_or_fault ev e))"
proof -
  have "running (snd (sched_call ev e))" "good evs f fed (snd (sched_call ev e))" using assms by simp_all
  then show ?thesis by (simp add: sched_or_fault_def split_beta Let_def split: option.split)
qed

lemma good_step:
  assumes r: "running e" and g: "good evs f fed e" and t: "taken evs f fed" and p: "\<not> premature e"
  shows "out_ok (epoch_step e ev)"
proof -
  note out = stays_out [OF t]
  have here: "out_ok e" using out g by simp
  have td: "teardown_step tev e = e" for tev
    using r by (cases tev) (simp_all add: teardown_step_def running_def alive_def)
  have rep: "ep_teardown e \<noteq> TeardownDone" using r by (simp add: running_def alive_def)
  have own: "good evs f fed (e\<lparr>ep_egress := egress_step (ep_egress e) x\<rparr>)" for x
    using g by (simp add: good_def kept_def tidy_def attempt_cause_def)
  have gone: "stays evs f fed (start_owner_gone x e)" for x
    using r g by (simp add: start_owner_gone_def split: option.split)
  note s = start_admit_stays [OF r g] gone transfer_good [OF g] start_bound_stays [OF r g] cut_issue_good [OF g]
    cut_complete_good [OF r g] cut_deadline_stays [OF r g] sched_or_fault_stays [OF r g] handle_frame_stays [OF r g]
    resize_begin_stays [OF r g] resize_answered_stays [OF r g p] request_history_stays [OF r g]
    pending_history_stays [OF r g] ongoing_stays [OF r g] request_good [OF r g]
  show ?thesis
    by (cases ev)
      (use here r g s own in \<open>simp_all add: epoch_step_def td rep pty_bytes_out [OF r g t]
        finalize_out [OF r g t] out\<close>)
qed

lemma dead_out:
  assumes "dead e" "out_ok e"
  shows "out_ok (epoch_step e ev)"
proof -
  have v: "settled_view (epoch_step e ev) = settled_view e" by (rule ending.step_view [OF assms(1)])
  have "behind (ep_events e) (ep_fed e) e" using assms(2) good_behind by (auto simp: out_ok_def closes_def)
  with v have "closes (ep_events e) (ep_fed e) (epoch_step e ev)" using deadD(1) [OF assms(1)]
    by (simp add: closes_def behind_def closing_def settled_view_def)
  moreover have "taken_part (ep_events e) (ep_fed e)" using assms(2) by (simp add: out_ok_def)
  ultimately show ?thesis by (rule closes_out [rotated])
qed

lemma out_step:
  assumes "lifecycle_inv e" "out_ok e" "\<not> premature e"
  shows "out_ok (epoch_step e ev)"
proof (cases "dead e")
  case True
  then show ?thesis by (rule dead_out [OF _ assms(2)])
next
  case False
  with assms(1) have r: "running e" by (simp add: lifecycle_split)
  show ?thesis
  proof (cases "closes (ep_events e) (ep_fed e) e")
    case True
    with r have w: "waits e" and b: "behind (ep_events e) (ep_fed e) e"
      by (auto simp: closes_def closing_def waits_def running_def alive_def)
    have "taken_part (ep_events e) (ep_fed e)" using assms(2) by (simp add: out_ok_def)
    from closes_out [OF this waits_step [OF w b]] show ?thesis .
  next
    case False
    with assms(2) have g: "good (ep_events e) (ep_ingress e) (ep_fed e) e"
      "taken (ep_events e) (ep_ingress e) (ep_fed e)" by (simp_all add: out_ok_def)
    from good_step [OF r g assms(3)] show ?thesis .
  qed
qed

lemma new_epoch_out:
  assumes "new_epoch have_ctx src x have_writer False have_pty cfg bind undo = Inr e"
  shows "out_ok e"
proof -
  have f: "ep_log e = []" "ep_active e = None" "ep_start e = None" "ep_events e = []" "ep_fed e = []"
    "ep_ingress e = new_ingress_framer" "\<not> eg_owns_output (ep_egress e)"
    using new_epoch_fields [OF assms] by metis+
  then have "good [] new_ingress_framer [] e" "taken [] new_ingress_framer []"
    by (simp_all add: good_def kept_def kept_of_attempt_def tidy_def attempt_cause_def begun_def taken_def
        new_ingress_framer_def)
  then show ?thesis using stays_out stays_good by blast
qed

lemma run_out:
  assumes "lifecycle_inv e0" "out_ok e0" "\<forall>n \<le> length evs. \<not> premature (foldl epoch_step e0 (take n evs))"
  shows "out_ok (foldl epoch_step e0 evs)"
  using assms(3)
proof (induction evs rule: rev_induct)
  case (snoc ev evs)
  have all: "\<not> premature (foldl epoch_step e0 (take n evs))" if "n \<le> length evs" for n
    using snoc.prems [rule_format, of n] that by simp
  have now: "\<not> premature (foldl epoch_step e0 evs)" using all [of "length evs"] by simp
  from out_step [OF lifecycle.run_inv [OF assms(1)] snoc.IH now] all show ?case by simp
qed (use assms(2) in simp)

section \<open>The output theorem\<close>

text \<open>
  C2: What the browser is shown is what the PTY wrote. Take any reached epoch whose frame writer does
  not own the output, on a run where no cut's marker appeared before the cut was issued. The bytes it
  took in are the events it routed put back on the wire, followed by at most a marker's beginning that
  the parser retains. Until an end is recorded, the replay and LIVE bytes sent so far, followed by what
  the attempt and the active cut keep, are exactly the ordinary output of these events: no byte is
  lost, doubled, reordered or invented, whatever cuts, resizes, defers and refusals came between.
  Afterwards what was sent is still an initial part of it.
\<close>

theorem epoch_shows_pty_output:
  assumes "new_epoch have_ctx src x have_writer False have_pty cfg bind undo = Inr e0"
    and "\<forall>n \<le> length evs. \<not> premature (foldl epoch_step e0 (take n evs))"
    and "e = foldl epoch_step e0 evs"
  shows "\<exists>w. on_wire (ep_events e) w
    \<and> (if ep_terminal e = None \<and> attempt_cause e = None
       then ep_fed e = w @ ing_pending (ep_ingress e)
         \<and> shown (ep_log e) @ kept e = ordinary_bytes (ep_events e)
       else prefix w (ep_fed e) \<and> prefix (shown (ep_log e)) (ordinary_bytes (ep_events e)))"
proof -
  have o: "out_ok e" unfolding assms(3)
    by (rule run_out [OF lifecycle_running [OF new_epoch_running [OF assms(1)]] new_epoch_out [OF assms(1)] assms(2)])
  show ?thesis
  proof (cases "ep_terminal e = None \<and> attempt_cause e = None")
    case True
    then have "\<not> closes (ep_events e) (ep_fed e) e" by (simp add: closes_def closing_def)
    with o True show ?thesis by (auto simp: out_ok_def good_def taken_def)
  next
    case False
    from o obtain w where w: "on_wire (ep_events e) w" "prefix w (ep_fed e)" by (auto simp: out_ok_def taken_part_def)
    have "behind (ep_events e) (ep_fed e) e" using o good_behind by (auto simp: out_ok_def closes_def)
    with False w show ?thesis by (auto simp: behind_def)
  qed
qed

text \<open>Output arriving while BIND runs, in two reads that cut a marker's possible beginning in two.\<close>

definition sample_binding :: "epoch_event list" where
  "sample_binding = [EvStart True CutInitial None, EvPtyBytes (''ab'' @ [ESC]), EvPtyBytes ('']cd'' @ [ESC])]"

theorem epoch_shows_pty_output_witness:
  "kept (foldl epoch_step sample_fresh sample_binding) = ''ab'' @ [ESC] @ '']cd''
   \<and> (\<exists>w. on_wire (ep_events (foldl epoch_step sample_fresh sample_binding)) w
        \<and> ''ab'' @ [ESC] @ '']cd'' @ [ESC] = w @ [ESC])"
proof -
  let ?e = "foldl epoch_step sample_fresh sample_binding"
  have v: "kept ?e = ''ab'' @ [ESC] @ '']cd''" "ep_terminal ?e = None" "attempt_cause ?e = None"
    "ing_pending (ep_ingress ?e) = [ESC]" "ep_fed ?e = ''ab'' @ [ESC] @ '']cd'' @ [ESC]"
    by code_simp+
  have "list_all (\<lambda>n. \<not> premature (foldl epoch_step sample_fresh (take n sample_binding))) [0, 1, 2, 3]" by code_simp
  moreover have "length sample_binding = 3" by (simp add: sample_binding_def)
  ultimately have "\<forall>n \<le> length sample_binding. \<not> premature (foldl epoch_step sample_fresh (take n sample_binding))"
    by (auto simp: le_Suc_eq numeral_3_eq_3 numeral_2_eq_2)
  from epoch_shows_pty_output [OF sample_fresh_new this refl] v show ?thesis by simp
qed

end
