(* ===== verification/Epoch_Samples.thy ===== *)
theory Epoch_Samples
  imports Epoch_Wire
begin

text \<open>
  A concrete attachment for the witnesses: BIND, the first cut, control, a keystroke written, one
  queued, and one held behind an ongoing cut. The digest in a cut's marker stays symbolic: the lemmas
  take the run across the steps that compute it or compare it, evaluation does the rest.
\<close>

section \<open>A marker alone in a read\<close>

definition marker_shape :: "bytes \<Rightarrow> bool" where
  "marker_shape m \<longleftrightarrow>
     (\<exists>n. m = marker_namespace @ n \<and> length n = marker_nonce_size \<and> list_all marker_nonce_byte n)"

definition marker_read :: "bytes \<Rightarrow> bytes" where
  "marker_read m = marker_osc @ m @ [BEL]"

lemma cut_marker_shape: "marker_shape (cut_marker e c ids)"
  unfolding marker_shape_def cut_marker_def using digest_nonce_shape by blast

lemma cut_marker_cong:
  "ep_source_id e = ep_source_id e' \<Longrightarrow> ep_epoch e = ep_epoch e' \<Longrightarrow> cut_marker e c ids = cut_marker e' c ids"
  by (simp add: cut_marker_def)

lemma marker_read_scan:
  assumes "marker_shape m"
  shows "index_sub marker_wire_prefix (marker_read m) = Some 0" "scan_marker (marker_read m) = ScanMarker m 60"
    "length (marker_read m) = 60"
proof -
  from assms obtain n where n: "m = marker_namespace @ n" "length n = 43" "list_all marker_nonce_byte n"
    by (auto simp: marker_shape_def marker_nonce_size_def)
  have read: "marker_read m = marker_wire_prefix @ n @ [BEL]"
    by (simp add: marker_read_def marker_wire_prefix_def n(1))
  have ne: "marker_wire_prefix @ n @ [BEL] = ESC # tl (marker_wire_prefix @ n @ [BEL])"
    by (simp add: marker_wire_prefix_def marker_osc_def)
  show "index_sub marker_wire_prefix (marker_read m) = Some 0"
    using has_prefix_append [of marker_wire_prefix "n @ [BEL]"] unfolding read
    by (subst ne, subst (asm) ne) simp
  show "length (marker_read m) = 60" unfolding read using n(2) by simp
  have payload: "marker_payload (marker_wire_prefix @ n @ [BEL]) 60 = marker_namespace @ n"
    using n(2) by (simp add: marker_payload_def marker_wire_prefix_def Let_def)
  have "scan_marker (marker_wire_prefix @ n @ [BEL]) = ScanMarker (marker_namespace @ n) 60"
    using n(2,3) payload by (simp add: scan_marker_def Let_def marker_nonce_size_def)
  then show "scan_marker (marker_read m) = ScanMarker m 60" by (simp only: read) (simp only: n(1))
qed

lemma marker_read_feed:
  assumes "marker_shape m" and "ing_pending f = []"
  shows "ingress_feed f (marker_read m) = ([IngressPrivateMarker m], None, f)"
proof -
  note scan = marker_read_scan [OF assms(1)]
  have "marker_read m \<noteq> []" using scan(3) by auto
  then have "ingress_drain [] (marker_read m) = ([IngressPrivateMarker m], None, [])"
    using scan by (subst ingress_drain.simps) simp
  then show ?thesis using assms(2) by (cases f) (simp add: ingress_feed_def)
qed

section \<open>The step that takes a cut's marker\<close>

definition marker_taken :: "bytes \<Rightarrow> active_cut \<Rightarrow> epoch \<Rightarrow> prepare_outcome \<times> epoch" where
  "marker_taken m a e =
     maybe_publish_prepare
       (e\<lparr>ep_fed := ep_fed e @ marker_read m, ep_events := ep_events e @ [IngressPrivateMarker m],
          ep_active := Some (a\<lparr>ac_cut := (ac_cut a)\<lparr>cut_marker_seen := True\<rparr>\<rparr>)\<rparr>)"

lemma marker_step:
  assumes "ep_terminal e = None" "\<not> binding_ended e" "ing_pending (ep_ingress e) = []"
    and "ep_active e = Some a" "\<not> cut_marker_seen (ac_cut a)" "cut_marker_payload (ac_cut a) = m"
    and "marker_shape m" "po_kind (fst (marker_taken m a e)) = PreparePublished"
  shows "epoch_step e (EvPtyBytes (marker_read m)) = snd (marker_taken m a e)"
proof -
  note l = marker_read_scan(3) [OF assms(7)]
  have "marker_read m \<noteq> []" "len (marker_read m) \<le> max_egress_bytes"
    using l by (auto simp: len_def limit_defs)
  moreover have "e\<lparr>ep_ingress := ep_ingress e\<rparr> = e" by simp
  moreover obtain po e1 where taken: "marker_taken m a e = (po, e1)" by (cases "marker_taken m a e")
  ultimately show ?thesis
    using assms marker_read_feed [OF assms(7, 3)]
    by (simp add: epoch_step_def pty_bytes_locked_def route_event_def route_marker_def accept_marker_def
        settle_prepare_def marker_taken_def not_less)
qed

section \<open>The steps that open a cut\<close>

definition new_active :: "cut_kind \<Rightarrow> u64 \<Rightarrow> bytes \<Rightarrow> int \<Rightarrow> active_cut" where
  "new_active kind c m rows =
     fresh_cut \<lparr>cut_id = c, cut_kind_of = kind, cut_marker_payload = m, cut_marker_seen = False,
       cut_pre = [], cut_held = []\<rparr> rows None"

lemma next_cut_eq:
  assumes "known_cut_kind kind" "ep_next_cut e + 1 \<noteq> 0"
  shows "next_cut kind e =
    (Inr (ac_cut (new_active kind (ep_next_cut e + 1) (cut_marker e (ep_next_cut e + 1) (ao_ids (start_owner e))) 0)),
     e\<lparr>ep_next_cut := ep_next_cut e + 1\<rparr>)"
proof -
  have "cut_marker x c ids \<noteq> []" for x c ids
    by (simp add: cut_marker_def marker_namespace_def)
  then show ?thesis
    using assms by (simp add: next_cut_def new_cut_def new_active_def fresh_cut_def start_owner_def
        cut_marker_cong [of "e\<lparr>ep_next_cut := ep_next_cut e + 1\<rparr>" e] Let_def)
qed

text \<open>BIND succeeded, nothing was written meanwhile: the first cut.\<close>

definition bound_scheduled :: "bind_outcome \<Rightarrow> int \<Rightarrow> epoch \<Rightarrow> epoch" where
  "bound_scheduled o1 now e = snd (begin_external now (snd (reconcile_bind o1 e)))"

definition first_cut :: "bytes \<Rightarrow> epoch \<Rightarrow> epoch" where
  "first_cut m e =
     set_attempt (\<lambda>a. a\<lparr>sa_replay := [], sa_phase := StartPhaseCutting\<rparr>)
       (e\<lparr>ep_next_cut := ep_next_cut e + 1,
          ep_active := Some (new_active CutInitial (ep_next_cut e + 1) m (ep_history_rows e))\<rparr>)"

definition first_cut_ready :: "bind_outcome \<Rightarrow> int \<Rightarrow> epoch \<Rightarrow> bool" where
  "first_cut_ready o1 now e \<longleftrightarrow>
     sched_free e \<and> ep_terminal e = None \<and> fst (fst (reconcile_bind o1 e))
     \<and> (let e0 = snd (reconcile_bind o1 e)
        in fst (begin_external now e0) = None \<and> ep_active e0 = None \<and> a_state (ep_protocol e0) = StateAwaitPrepare
           \<and> (case ep_start e0 of None \<Rightarrow> False | Some a \<Rightarrow>
                sa_kind a = CutInitial \<and> sa_phase a = StartPhaseBinding \<and> sa_pending_cause a = None
                \<and> ao_kind (sa_ownership a) = OwnershipExact \<and> sa_replay a = []))
     \<and> ep_next_cut (bound_scheduled o1 now e) + 1 \<noteq> 0"

lemma begin_external_start: "ep_start (snd (begin_external now e)) = ep_start e"
  by (simp add: begin_external_def sched_call_def split: prod.split sched_answer.split)

lemma first_cut_step:
  assumes "first_cut_ready o1 now e"
    and "e1 = bound_scheduled o1 now e"
    and "m = cut_marker e1 (ep_next_cut e1 + 1) (ao_ids (start_owner e1))"
  shows "epoch_step e (EvBound o1 now) = first_cut m e1"
proof -
  obtain c e0 where r: "reconcile_bind o1 e = ((True, c), e0)"
    using assms(1) by (cases "reconcile_bind o1 e") (auto simp: first_cut_ready_def)
  obtain a where a: "ep_start e0 = Some a" "sa_kind a = CutInitial" "sa_phase a = StartPhaseBinding"
      "sa_pending_cause a = None" "ao_kind (sa_ownership a) = OwnershipExact" "sa_replay a = []"
    using assms(1) r by (auto simp: first_cut_ready_def Let_def split: option.splits)
  have b: "begin_external now e0 = (None, e1)"
    using assms(1,2) r by (cases "begin_external now e0") (simp add: first_cut_ready_def bound_scheduled_def Let_def)
  have n: "next_cut CutInitial e1 =
      (Inr (ac_cut (new_active CutInitial (ep_next_cut e1 + 1) m 0)), e1\<lparr>ep_next_cut := ep_next_cut e1 + 1\<rparr>)"
    using assms(1) unfolding assms(3)
    by (intro next_cut_eq) (simp_all add: first_cut_ready_def known_cut_kind_def assms(2))
  have "prepare_start_cut now e0 = (no_cause, first_cut m e1)"
    using assms(1) a b n r begin_external_start [of now e0]
    by (simp add: prepare_start_cut_def first_cut_ready_def Let_def new_active_def fresh_cut_def
        adopt_pre_marker_def replay_adoption_valid_def first_cut_def limit_defs)
  then show ?thesis
    using assms(1) r a(1,4)
    by (simp add: epoch_step_def start_bound_def first_cut_ready_def attempt_cause_def)
qed

text \<open>A live attachment opens an ongoing cut.\<close>

definition ongoing_cut :: "bytes \<Rightarrow> epoch \<Rightarrow> epoch" where
  "ongoing_cut m e =
     e\<lparr>ep_gate := snd (gate_claim ''ongoing-cut'' (ep_gate e)), ep_next_cut := ep_next_cut e + 1,
       ep_active := Some (new_active CutOngoing (ep_next_cut e + 1) m (ep_history_rows e))\<rparr>"

definition ongoing_ready :: "epoch \<Rightarrow> bool" where
  "ongoing_ready e \<longleftrightarrow>
     \<not> isl (fst (gate_claim ''ongoing-cut'' (ep_gate e))) \<and> ep_terminal e = None \<and> ep_active e = None
     \<and> a_state (ep_protocol e) = StateLive \<and> attempt_exact e \<and> ep_next_cut e + 1 \<noteq> 0"

lemma ongoing_cut_step:
  assumes "ongoing_ready e" and "m = cut_marker e (ep_next_cut e + 1) (ao_ids (start_owner e))"
  shows "epoch_step e EvOngoingCut = ongoing_cut m e"
proof -
  obtain c g where g: "gate_claim ''ongoing-cut'' (ep_gate e) = (Inr c, g)"
    using assms(1) unfolding ongoing_ready_def by (metis isl_def sum.exhaust prod.collapse)
  have "start_owner (e\<lparr>ep_gate := g\<rparr>) = start_owner e" by (simp add: start_owner_def)
  moreover have "cut_marker (e\<lparr>ep_gate := g\<rparr>) = cut_marker e" by (intro ext cut_marker_cong) simp_all
  ultimately show ?thesis
    using assms g
    by (simp add: epoch_step_def begin_ongoing_cut_def ongoing_ready_def attempt_exact_def open_cut_def
        next_cut_eq known_cut_kind_def ongoing_cut_def new_active_def fresh_cut_def)
qed

section \<open>The run\<close>

definition attached_marker :: "u64 \<Rightarrow> bytes" where
  "attached_marker c = cut_marker sample_fresh c sample_ids"

lemma sample_marker_shape: "marker_shape (attached_marker c)"
  by (simp add: attached_marker_def cut_marker_shape)

definition sample_bound :: bind_outcome where
  "sample_bound = \<lparr>bo_kind = BindSucceededExact, bo_ids = sample_ids, bo_cause = None\<rparr>"

definition sample_capture :: cut_outcome where
  "sample_capture = \<lparr>co_kind = CutSucceeded, co_capture = [], co_cause = None\<rparr>"

definition sample_lease :: generation_lease where
  "sample_lease = \<lparr>gl_source = ep_source_id sample_fresh, gl_epoch = 1, gl_generation = 1\<rparr>"

definition sample_frame :: "frame_type \<Rightarrow> frame" where
  "sample_frame t = base_frame t (ep_source_id sample_fresh) 1"

definition attached_input :: "bytes \<Rightarrow> u64 \<Rightarrow> frame" where
  "attached_input data i = (sample_frame FrameInput)\<lparr>f_data := data, f_input_id := i\<rparr>"

definition attached_admission :: "epoch_event list" where
  "attached_admission = [EvStart True CutInitial None, EvTransfer sample_ids]"

definition sample_first_capture :: "epoch_event list" where
  "sample_first_capture = [EvCutIssue 1, EvCutComplete True sample_lease 1 1000 sample_capture]"

definition attached_typing :: "epoch_event list" where
  "attached_typing =
     [EvFrame ((sample_frame FrameReady)\<lparr>f_cut := 1\<rparr>), EvComplete False 1 1,
      EvFrame ((sample_frame FrameModeRequest)\<lparr>f_mode := ModeControl\<rparr>),
      EvFrame (attached_input ''ls'' 1), EvInput PumpWake, EvInput PumpTake, EvInput PumpCheck,
      EvInput (PumpReturn 2 None), EvInput PumpComplete, EvFrame (attached_input ''x'' 2)]"

definition sample_second_capture :: "epoch_event list" where
  "sample_second_capture = [EvCutIssue 2, EvCutComplete False sample_lease 2 1000 sample_capture]"

definition attached_live :: "epoch_event list" where
  "attached_live =
     attached_admission @ EvBound sample_bound 0 # sample_first_capture @ EvPtyBytes (marker_read (attached_marker 1))
     # attached_typing @ EvOngoingCut # sample_second_capture
     @ [EvPtyBytes (marker_read (attached_marker 2)), EvFrame (attached_input ''y'' 3)]"

definition attached_item :: "bytes \<Rightarrow> u64 \<Rightarrow> u64 \<Rightarrow> input_item" where
  "attached_item data i g = \<lparr>ii_data = data, ii_id = i, ii_generation = g\<rparr>"

text \<open>
  What is evaluated: each stage checks where the run stands and goes on over any marker. At the end
  \<^verbatim>\<open>ls\<close> is written, \<^verbatim>\<open>x\<close> queued and \<^verbatim>\<open>y\<close> held behind the second cut.
\<close>

definition active_of :: "epoch \<Rightarrow> active_cut" where
  "active_of e = (case ep_active e of Some a \<Rightarrow> a | None \<Rightarrow> new_active CutNone 0 [] 0)"

definition marker_ready :: "bytes \<Rightarrow> epoch \<Rightarrow> bool" where
  "marker_ready m e \<longleftrightarrow>
     ep_terminal e = None \<and> \<not> binding_ended e \<and> ing_pending (ep_ingress e) = [] \<and> ep_active e \<noteq> None
     \<and> \<not> cut_marker_seen (ac_cut (active_of e)) \<and> cut_marker_payload (ac_cut (active_of e)) = m"

definition numbered :: "u64 \<Rightarrow> epoch \<Rightarrow> bool" where
  "numbered c e \<longleftrightarrow>
     ep_next_cut e = c \<and> ao_ids (start_owner e) = sample_ids \<and> ep_source_id e = ep_source_id sample_fresh
     \<and> ep_epoch e = ep_epoch sample_fresh"

definition live_end :: "epoch \<Rightarrow> bool" where
  "live_end e \<longleftrightarrow>
     ep_terminal e = None \<and> ip_mode (ep_input e) = ModeControl
     \<and> ep_accepted e = [attached_item ''ls'' 1 0, attached_item ''x'' 2 0, attached_item ''y'' 3 0]
     \<and> ep_held_input e = [attached_item ''y'' 3 0] \<and> pending_items (ep_input e) = [attached_item ''x'' 2 1]
     \<and> map is_item (ip_settled (ep_input e)) = [attached_item ''ls'' 1 1] \<and> ip_pty (ep_input e) = ''ls''
     \<and> ep_dropped e = []"

definition after_end :: "epoch \<Rightarrow> bool" where
  "after_end e \<longleftrightarrow>
     ep_terminal e \<noteq> None \<and> ep_dropped e = [attached_item ''y'' 3 0] \<and> ep_held_input e = []
     \<and> map is_item (ip_settled (ep_input e)) = [attached_item ''ls'' 1 1, attached_item ''x'' 2 1]"

definition stage_end :: "epoch \<Rightarrow> bool" where
  "stage_end e \<longleftrightarrow> live_end e \<and> after_end (epoch_step e (EvTerminate orderly_cause))"

definition stage_held :: "prepare_outcome \<times> epoch \<Rightarrow> bool" where
  "stage_held r \<longleftrightarrow>
     po_kind (fst r) = PreparePublished \<and> stage_end (epoch_step (snd r) (EvFrame (attached_input ''y'' 3)))"

definition stage_second :: "bytes \<Rightarrow> epoch \<Rightarrow> bool" where
  "stage_second m e \<longleftrightarrow> marker_ready m e \<and> stage_held (marker_taken m (active_of e) e)"

definition stage_ongoing :: "bytes \<Rightarrow> epoch \<Rightarrow> bool" where
  "stage_ongoing m e \<longleftrightarrow>
     ongoing_ready e \<and> numbered 1 e \<and> stage_second m (foldl epoch_step (ongoing_cut m e) sample_second_capture)"

definition stage_typing :: "bytes \<Rightarrow> prepare_outcome \<times> epoch \<Rightarrow> bool" where
  "stage_typing m r \<longleftrightarrow>
     po_kind (fst r) = PreparePublished \<and> stage_ongoing m (foldl epoch_step (snd r) attached_typing)"

definition stage_first :: "bytes \<Rightarrow> bytes \<Rightarrow> epoch \<Rightarrow> bool" where
  "stage_first m m' e \<longleftrightarrow> marker_ready m e \<and> stage_typing m' (marker_taken m (active_of e) e)"

definition stage_scheduled :: "bytes \<Rightarrow> bytes \<Rightarrow> epoch \<Rightarrow> bool" where
  "stage_scheduled m m' e \<longleftrightarrow>
     numbered 0 e \<and> stage_first m m' (foldl epoch_step (first_cut m e) sample_first_capture)"

definition stage_bound :: "bytes \<Rightarrow> bytes \<Rightarrow> epoch \<Rightarrow> bool" where
  "stage_bound m m' e \<longleftrightarrow>
     first_cut_ready sample_bound 0 e \<and> stage_scheduled m m' (bound_scheduled sample_bound 0 e)"

lemma stages: "stage_bound m m' (foldl epoch_step sample_fresh attached_admission)"
  by code_simp

section \<open>From the stages to the run\<close>

lemma numbered_marker: "numbered c e \<Longrightarrow> attached_marker d = cut_marker e d (ao_ids (start_owner e))"
  using cut_marker_cong [of e sample_fresh] by (simp add: numbered_def attached_marker_def)

lemma active_of_Some: "ep_active e \<noteq> None \<Longrightarrow> ep_active e = Some (active_of e)"
  by (auto simp: active_of_def)

lemma marker_ready_step:
  assumes "marker_ready m e" "marker_shape m" "po_kind (fst (marker_taken m (active_of e) e)) = PreparePublished"
  shows "epoch_step e (EvPtyBytes (marker_read m)) = snd (marker_taken m (active_of e) e)"
  using assms by (intro marker_step) (simp_all add: marker_ready_def active_of_Some)

lemma from_second:
  "stage_second (attached_marker 2) e \<Longrightarrow>
   stage_end (foldl epoch_step e [EvPtyBytes (marker_read (attached_marker 2)), EvFrame (attached_input ''y'' 3)])"
  by (simp add: stage_second_def stage_held_def marker_ready_step sample_marker_shape)

lemma from_typing:
  "stage_ongoing (attached_marker 2) e \<Longrightarrow>
   stage_second (attached_marker 2) (foldl epoch_step e (EvOngoingCut # sample_second_capture))"
  using numbered_marker [of 1 e 2]
  by (simp add: stage_ongoing_def ongoing_cut_step [of e "attached_marker 2"] numbered_def)

lemma from_first:
  "stage_first (attached_marker 1) m' e \<Longrightarrow>
   stage_ongoing m' (foldl epoch_step e (EvPtyBytes (marker_read (attached_marker 1)) # attached_typing))"
  by (simp add: stage_first_def stage_typing_def marker_ready_step sample_marker_shape)

lemma from_bound:
  assumes "stage_bound (attached_marker 1) m' e"
  shows "stage_first (attached_marker 1) m' (foldl epoch_step e (EvBound sample_bound 0 # sample_first_capture))"
proof -
  let ?e = "bound_scheduled sample_bound 0 e"
  have ready: "first_cut_ready sample_bound 0 e" "stage_scheduled (attached_marker 1) m' ?e"
    using assms by (simp_all add: stage_bound_def)
  then have "attached_marker 1 = cut_marker ?e (ep_next_cut ?e + 1) (ao_ids (start_owner ?e))"
    using numbered_marker [of 0 ?e 1] by (simp add: stage_scheduled_def numbered_def)
  with ready show ?thesis by (simp add: first_cut_step stage_scheduled_def)
qed

lemma attached_run: "stage_end (foldl epoch_step sample_fresh attached_live)"
  using from_second [OF from_typing [OF from_first [OF from_bound [OF stages]]]]
  by (simp add: attached_live_def)

lemmas attached_run_facts = attached_run [unfolded stage_end_def live_end_def after_end_def]

end
