(* ===== verification/Epoch_Input.thy ===== *)
theory Epoch_Input
  imports Epoch_Ending Epoch_Samples
begin

text \<open>
  What the browser types. Every INPUT the epoch accepted, at once or behind a cut, is settled by the
  pump, still pending there, held, or dropped, exactly once and in order; and the pump lets
  input through only while the last MODE the browser was sent granted control.
\<close>

section \<open>The account\<close>

text \<open>Items as the epoch accepted them, without the generation the pump stamps on them.\<close>

definition unstamped :: "input_item list \<Rightarrow> input_item list" where
  "unstamped is = map (\<lambda>i. i\<lparr>ii_generation := 0\<rparr>) is"

definition stop_ok :: "input_pump \<Rightarrow> bool" where
  "stop_ok p \<longleftrightarrow> (ip_stop p \<longrightarrow> ip_closed p) \<and> (ip_closed p \<longrightarrow> ip_mode p = ModeObserve)"

definition account :: "epoch \<Rightarrow> bool" where
  "account e \<longleftrightarrow>
     pump_inv (ep_input e) \<and> stop_ok (ep_input e) \<and> unstamped (ep_held_input e) = ep_held_input e
     \<and> mset (unstamped (map is_item (ip_settled (ep_input e)) @ pending_items (ep_input e)))
         + mset (ep_held_input e) + mset (ep_dropped e) = mset (ep_accepted e)
     \<and> subseq (unstamped (map is_item (filter took (ip_settled (ep_input e))) @ pending_items (ep_input e))
         @ ep_held_input e) (ep_accepted e)"

definition input_inv :: "epoch \<Rightarrow> bool" where
  "input_inv e \<longleftrightarrow> account e
     \<and> (ep_held_input e \<noteq> [] \<longrightarrow> a_state (ep_protocol e) = StatePrepared \<or> a_state (ep_protocol e) = StateEnded)
     \<and> (ip_mode (ep_input e) = ModeControl \<longrightarrow> a_mode (ep_protocol e) = ModeControl)"

lemma unstamped_simps [simp]:
  "unstamped [] = []" "unstamped (xs @ ys) = unstamped xs @ unstamped ys"
  "unstamped (map (\<lambda>i. i\<lparr>ii_generation := g\<rparr>) xs) = unstamped xs"
  "unstamped (map (ii_generation_update (\<lambda>_. g)) xs) = unstamped xs" "length (unstamped xs) = length xs"
  by (simp_all add: unstamped_def)

lemma unstamped_mset: "mset xs = mset ys \<Longrightarrow> mset (unstamped xs) = mset (unstamped ys)"
  by (simp add: unstamped_def)

lemma unstamped_subseq: "subseq xs ys \<Longrightarrow> subseq (unstamped xs) (unstamped ys)"
  unfolding unstamped_def by (rule subseq_map)

text \<open>The pump's progress carries the account along: what it takes in leaves the epoch's hold.\<close>

lemma account_progress:
  assumes a: "account e" and p: "progress (ep_input e) q new" "pump_inv q" "stop_ok q"
    and held: "ep_held_input e = unstamped new @ h" "ep_dropped e' = ep_dropped e"
    and e': "ep_input e' = q" "ep_held_input e' = h" "ep_accepted e' = ep_accepted e" "unstamped h = h"
  shows "account e'"
proof -
  obtain xs where xs: "ip_settled q = ip_settled (ep_input e) @ xs"
    "mset (map is_item xs) + mset (pending_items q) = mset (pending_items (ep_input e) @ new)"
    "subseq (map is_item (filter took xs) @ pending_items q) (pending_items (ep_input e) @ new)"
    using p(1) by (auto simp: progress_def)
  let ?s = "map is_item (ip_settled (ep_input e))" and ?t = "map is_item (filter took (ip_settled (ep_input e)))"
  have "mset (unstamped (map is_item xs @ pending_items q)) = mset (unstamped (pending_items (ep_input e) @ new))"
    by (rule unstamped_mset) (use xs(2) in simp)
  then have m: "mset (unstamped (map is_item (ip_settled q) @ pending_items q)) + mset h + mset (ep_dropped e)
      = mset (unstamped (?s @ pending_items (ep_input e))) + mset (ep_held_input e) + mset (ep_dropped e)"
    using xs(1) held(1) by (simp add: ac_simps)
  have "subseq (unstamped (?t @ map is_item (filter took xs) @ pending_items q) @ h)
      (unstamped (?t @ pending_items (ep_input e) @ new) @ h)"
    by (rule list_emb_append_mono [OF unstamped_subseq])
      (use xs(3) in \<open>simp_all add: subseq_append'\<close>)
  then have "subseq (unstamped (map is_item (filter took (ip_settled q)) @ pending_items q) @ h)
      (unstamped (?t @ pending_items (ep_input e)) @ ep_held_input e)"
    using xs(1) held(1) by simp
  moreover have "subseq (unstamped (?t @ pending_items (ep_input e)) @ ep_held_input e) (ep_accepted e)"
    using a by (simp add: account_def)
  ultimately have "subseq (unstamped (map is_item (filter took (ip_settled q)) @ pending_items q) @ h) (ep_accepted e)"
    by (rule subseq_order.trans)
  with a m p(2,3) held e' show ?thesis by (simp add: account_def)
qed

lemma account_pump:
  assumes "account e" "progress (ep_input e) q []" "pump_inv q" "stop_ok q"
  shows "account (e\<lparr>ep_input := q\<rparr>)"
  by (rule account_progress [OF assms, of "ep_held_input e"]) (use assms(1) in \<open>simp_all add: account_def\<close>)

text \<open>A new item joins what is accepted, at the end.\<close>

lemma account_accept:
  assumes "account e" "ep_input e' = ep_input e" "ep_dropped e' = ep_dropped e"
    "ep_held_input e' = ep_held_input e @ [i]" "ep_accepted e' = ep_accepted e @ [i]"
    "ii_generation i = 0"
  shows "account e'"
proof -
  let ?x = "unstamped (map is_item (filter took (ip_settled (ep_input e))) @ pending_items (ep_input e)) @ ep_held_input e"
  have "subseq (?x @ [i]) (ep_accepted e @ [i])"
    by (rule list_emb_append_mono) (use assms(1) in \<open>simp_all add: account_def\<close>)
  moreover have "i\<lparr>ii_generation := 0\<rparr> = i" using assms(6) by (cases i) simp
  ultimately show ?thesis using assms by (simp add: account_def unstamped_def)
qed

section \<open>The pump's part\<close>

lemma seal_stop_ok: "stop_ok p \<Longrightarrow> stop_ok (pump_seal p) \<and> ip_mode (pump_seal p) = ModeObserve"
  by (auto simp: stop_ok_def pump_seal_def discard_queued_def cancel_current_def pump_signal_def)

lemma set_mode_stop_ok: "stop_ok p \<Longrightarrow> stop_ok (snd (pump_set_mode m p))"
  by (auto simp: stop_ok_def pump_set_mode_def discard_queued_def cancel_current_def pump_signal_def Let_def)

lemma set_mode_mode: "fst (pump_set_mode m p) = None \<Longrightarrow> ip_mode (snd (pump_set_mode m p)) = m"
  by (auto simp: pump_set_mode_def discard_queued_def cancel_current_def pump_signal_def Let_def)

lemma own_step_ok:
  assumes "stop_ok p" "pump_own ev"
  shows "stop_ok (pump_step p ev) \<and> (ip_mode (pump_step p ev) = ModeControl \<longrightarrow> ip_mode p = ModeControl)"
  using assms
  by (cases ev)
    (auto simp: stop_ok_def pump_own_def pump_step_def pump_take_def finish_item_def discard_queued_def
      pump_complete_def fail_locked_def Let_def split: option.split)

lemma own_admits: "pump_own ev \<Longrightarrow> pump_admits p ev = []"
  by (cases ev) (simp_all add: pump_own_def pump_admits_def)

lemma enqueue_progress:
  assumes "pump_inv p" "pump_enqueue_batch s x batch p = (None, q)"
  shows "progress p q (map (\<lambda>i. i\<lparr>ii_generation := ip_generation p\<rparr>) batch)" "pump_inv q"
    "stop_ok p \<Longrightarrow> stop_ok q" "ip_mode q = ip_mode p"
proof -
  have c: "check_batch s x batch p = None"
    using assms(2) by (auto simp: pump_enqueue_batch_def split: option.splits)
  have q: "q = pump_step p (PumpEnqueue s x batch)" using assms(2) by (simp add: pump_step_def)
  show "progress p q (map (\<lambda>i. i\<lparr>ii_generation := ip_generation p\<rparr>) batch)"
    using progress_step [OF assms(1), of "PumpEnqueue s x batch"] c by (simp add: q pump_admits_def)
  show "pump_inv q" unfolding q by (rule pump_step_inv [OF assms(1)])
  show "stop_ok p \<Longrightarrow> stop_ok q" "ip_mode q = ip_mode p"
    using assms(2) c by (auto simp: pump_enqueue_batch_def stop_ok_def pump_signal_def)
qed

lemma enqueue_refused: "fst (pump_enqueue_batch s x batch p) \<noteq> None \<Longrightarrow> snd (pump_enqueue_batch s x batch p) = p"
  by (auto simp: pump_enqueue_batch_def split: option.splits)

lemma set_mode_account:
  assumes "account e"
  shows "account (e\<lparr>ep_input := snd (pump_set_mode m (ep_input e))\<rparr>)"
  using assms set_mode_inv [of "ep_input e" m] set_mode_stop_ok [of "ep_input e" m] progress_set_mode
  by (intro account_pump) (simp_all add: account_def)

section \<open>Sections\<close>

lemma account_cong:
  assumes "ep_input e' = ep_input e" "ep_held_input e' = ep_held_input e" "ep_dropped e' = ep_dropped e"
    "ep_accepted e' = ep_accepted e"
  shows "account e' = account e"
  using assms by (simp add: account_def)

lemma publish_mode:
  assumes "fst (publish_frame f e) = None" "f_type f \<noteq> FrameMode"
  shows "a_mode (ep_protocol (snd (publish_frame f e))) = a_mode (ep_protocol e)"
    "a_state (ep_protocol e) = StatePrepared \<or> a_state (ep_protocol e) = StateEnded \<Longrightarrow>
      a_state (ep_protocol (snd (publish_frame f e))) = StatePrepared
      \<or> a_state (ep_protocol (snd (publish_frame f e))) = StateEnded"
proof -
  obtain n g where n: "automaton_apply FromServer f (ep_protocol e) = Inr n"
    "publish_frame f e = (None, e\<lparr>ep_egress := g, ep_protocol := n, ep_log := ep_log e @ [(FromServer, f)]\<rparr>)"
    using assms(1) by (cases f e rule: publish_frame_cases) auto
  from accepted_table [OF n(1)] accepted_common [OF n(1)] assms(2) n(2)
  show "a_mode (ep_protocol (snd (publish_frame f e))) = a_mode (ep_protocol e)"
    "a_state (ep_protocol e) = StatePrepared \<or> a_state (ep_protocol e) = StateEnded \<Longrightarrow>
      a_state (ep_protocol (snd (publish_frame f e))) = StatePrepared
      \<or> a_state (ep_protocol (snd (publish_frame f e))) = StateEnded"
    by (cases "f_type f"; auto)+
qed

lemma publish_account:
  "ep_input (snd (publish_frame f e)) = ep_input e" "account (snd (publish_frame f e)) = account e"
  by (rule publish_frame_fields, rule account_cong) simp_all

lemma publish_input_inv: "input_inv e \<Longrightarrow> f_type f \<noteq> FrameMode \<Longrightarrow> input_inv (snd (publish_frame f e))"
proof (cases "fst (publish_frame f e)")
  case None
  assume "input_inv e" "f_type f \<noteq> FrameMode"
  with publish_mode [OF None] publish_account show ?thesis by (auto simp: input_inv_def)
next
  case (Some err)
  then have "snd (publish_frame f e) = e" by (cases f e rule: publish_frame_cases) auto
  then show "input_inv e \<Longrightarrow> ?thesis" by simp
qed

lemma subseq_front: "subseq (xs @ ys) zs \<Longrightarrow> subseq xs zs"
  using subseq_order.trans [OF prefix_imp_subseq, of xs "xs @ ys" zs] by simp

lemma drop_account: "account e \<Longrightarrow> account (drop_transitional e)"
  by (auto simp: account_def drop_transitional_def clear_transitional_def ac_simps
      intro: subseq_front [where ys = "ep_held_input e"])

lemma seal_account: "account e \<Longrightarrow> account (e\<lparr>ep_input := pump_seal (ep_input e)\<rparr>)"
  using seal_inv [of "ep_input e"] seal_stop_ok [of "ep_input e"] progress_seal
  by (intro account_pump) (simp_all add: account_def)

interpretation account_sections: epoch_sections account
proof unfold_locales
  show "account e \<Longrightarrow> f_type f \<noteq> FrameMode \<Longrightarrow> account (snd (publish_frame f e))" for e f
    by (simp add: publish_account)
  show "account e \<Longrightarrow> account (drop_transitional e)" for e by (rule drop_account)
  show "account e \<Longrightarrow> account (e\<lparr>ep_input := pump_seal (ep_input e)\<rparr>)" for e by (rule seal_account)
qed (rule account_cong; simp)+

lemma input_cong:
  assumes "ep_input e' = ep_input e" "ep_held_input e' = ep_held_input e" "ep_dropped e' = ep_dropped e"
    "ep_accepted e' = ep_accepted e" "ep_protocol e' = ep_protocol e"
  shows "input_inv e' = input_inv e"
  using assms account_cong [of e' e] by (simp add: input_inv_def)

interpretation input_sections: epoch_sections input_inv
proof unfold_locales
  show "input_inv e \<Longrightarrow> f_type f \<noteq> FrameMode \<Longrightarrow> input_inv (snd (publish_frame f e))" for e f
    by (rule publish_input_inv)
  show "input_inv e \<Longrightarrow> input_inv (drop_transitional e)" for e
    using drop_account [of e] by (simp add: input_inv_def drop_transitional_def clear_transitional_def)
  show "input_inv e \<Longrightarrow> input_inv (e\<lparr>ep_input := pump_seal (ep_input e)\<rparr>)" for e
    using seal_account [of e] seal_stop_ok [of "ep_input e"] by (simp add: input_inv_def account_def)
qed (rule input_cong; simp)+

section \<open>The browser's frames\<close>

text \<open>The mode answers behind a cut move the pump and the automaton together.\<close>

definition released_ok :: "epoch \<Rightarrow> release \<Rightarrow> bool" where
  "released_ok e r \<longleftrightarrow> account (e\<lparr>ep_input := rl_input r\<rparr>)"

definition in_step :: "release \<Rightarrow> bool" where
  "in_step r \<longleftrightarrow> (ip_mode (rl_input r) = ModeControl \<longrightarrow> a_mode (rl_next r) = ModeControl)"

lemma release_mode_input:
  assumes "released_ok e r"
  shows "released_ok e (snd (release_mode s x hi m r))"
    "in_step r \<Longrightarrow> fst (release_mode s x hi m r) = None \<Longrightarrow> in_step (snd (release_mode s x hi m r))"
proof -
  have a: "account (e\<lparr>ep_input := snd (pump_set_mode m (rl_input r))\<rparr>)"
    using set_mode_account [of "e\<lparr>ep_input := rl_input r\<rparr>" m] assms by (simp add: released_ok_def)
  then show "released_ok e (snd (release_mode s x hi m r))"
    using assms by (simp add: release_mode_def released_ok_def split_beta split: sum.split option.split)
  show "in_step r \<Longrightarrow> fst (release_mode s x hi m r) = None \<Longrightarrow> in_step (snd (release_mode s x hi m r))"
    using accepted_table set_mode_mode [of m "rl_input r"]
    by (fastforce simp: release_mode_def in_step_def split_beta split: sum.splits option.splits if_splits)
qed

lemma release_modes_input:
  "released_ok e r \<Longrightarrow> released_ok e (snd (release_modes s x hi ms r))
    \<and> (in_step r \<longrightarrow> fst (release_modes s x hi ms r) = None \<longrightarrow> in_step (snd (release_modes s x hi ms r)))"
proof (induction s x hi ms r rule: release_modes.induct)
  case (2 s x hi m ms r)
  obtain err r1 where r1: "release_mode s x hi m r = (err, r1)" by (cases "release_mode s x hi m r")
  have ok: "released_ok e r1" "in_step r \<Longrightarrow> err = None \<Longrightarrow> in_step r1"
    using release_mode_input [OF 2(2), of s x hi m] r1 by simp_all
  show ?case
  proof (cases err)
    case None
    from 2(1) [OF r1 [symmetric] None ok(1)] ok r1 None show ?thesis by simp
  qed (use r1 ok in simp)
qed simp

lemma release_input:
  assumes "account e"
  shows "account (e\<lparr>ep_input := rl_input (snd (release_transitional e n tr))\<rparr>)"
    "(ip_mode (ep_input e) = ModeControl \<longrightarrow> a_mode n = ModeControl) \<Longrightarrow> fst (release_transitional e n tr) = None \<Longrightarrow>
     in_step (snd (release_transitional e n tr))"
proof -
  let ?r = "\<lparr>rl_next = n, rl_input = ep_input e, rl_trail = tr\<rparr>"
  have r: "released_ok e ?r" using assms by (simp add: released_ok_def)
  note m = release_modes_input [OF r, of "ep_source_id e" "ep_epoch e" "ep_held_input e \<noteq> []" "ep_held_modes e"]
  show "account (e\<lparr>ep_input := rl_input (snd (release_transitional e n tr))\<rparr>)"
    using m r by (cases "ep_held_input e = []")
      (simp_all add: release_transitional_def Let_def released_ok_def split: option.split)
  show "(ip_mode (ep_input e) = ModeControl \<longrightarrow> a_mode n = ModeControl) \<Longrightarrow> fst (release_transitional e n tr) = None \<Longrightarrow>
     in_step (snd (release_transitional e n tr))"
    using m by (auto simp: release_transitional_def Let_def in_step_def split: option.splits if_splits)
qed

text \<open>Delivery hands the held input to the pump.\<close>

lemma held_unstamped: "account e \<Longrightarrow> unstamped (ep_held_input e) = ep_held_input e"
  by (simp add: account_def)

lemma deliver_input:
  assumes "account e" "ip_mode (ep_input e) = ModeControl \<longrightarrow> a_mode n = ModeControl"
  shows "account (snd (deliver_transition n tr e))"
    "fst (deliver_transition n tr e) = None \<Longrightarrow> input_inv (snd (deliver_transition n tr e))"
proof -
  let ?r = "snd (release_transitional e n tr)"
  let ?e1 = "e\<lparr>ep_input := rl_input ?r\<rparr>"
  have a1: "account ?e1" by (rule release_input(1) [OF assms(1)])
  have given: "account (clear_transitional (?e1\<lparr>ep_egress := g, ep_protocol := p, ep_log := l, ep_input := q\<rparr>))"
    "ip_mode q = ip_mode (rl_input ?r)"
    if b: "fst (pump_enqueue_batch s x (ep_held_input e) (rl_input ?r)) = None"
      "q = snd (pump_enqueue_batch s x (ep_held_input e) (rl_input ?r))" for s x q g p l
  proof -
    have that: "pump_enqueue_batch s x (ep_held_input e) (rl_input ?r) = (None, q)"
      using b by (simp add: prod_eq_iff)
    have i: "pump_inv (rl_input ?r)" "stop_ok (rl_input ?r)" using a1 by (simp_all add: account_def)
    note q = enqueue_progress [OF i(1) that]
    have p: "progress (ep_input ?e1) q (map (\<lambda>i. i\<lparr>ii_generation := ip_generation (rl_input ?r)\<rparr>) (ep_held_input e))"
      using q(1) by simp
    have held: "unstamped (map (ii_generation_update (\<lambda>_. ip_generation (rl_input ?r))) (ep_held_input e)) = ep_held_input e"
      by (simp only: unstamped_simps held_unstamped [OF assms(1)])
    show "account (clear_transitional (?e1\<lparr>ep_egress := g, ep_protocol := p, ep_log := l, ep_input := q\<rparr>))"
      by (rule account_progress [OF a1 p q(2) q(3) [OF i(2)], where h = "[]"])
        (simp_all add: clear_transitional_def held held_unstamped [OF assms(1)])
    show "ip_mode q = ip_mode (rl_input ?r)" by (rule q(4))
  qed
  have other: "account (?e1\<lparr>ep_egress := g, ep_protocol := p, ep_log := l\<rparr>)"
    "account (clear_transitional (?e1\<lparr>ep_egress := g, ep_protocol := p, ep_log := l\<rparr>)) = account (?e1\<lparr>ep_egress := g, ep_protocol := p, ep_log := l\<rparr>)"
    if "ep_held_input e = []" for g p l
    using a1 that by (simp_all add: account_def clear_transitional_def)
  have logged: "account (?e1\<lparr>ep_egress := g, ep_protocol := p, ep_log := l\<rparr>)" for g p l
    using a1 by (simp add: account_def)
  have failed: "account (?e1\<lparr>ep_egress := g, ep_protocol := p, ep_log := l, ep_input := q\<rparr>)"
    if "fst (pump_enqueue_batch s x (ep_held_input e) (rl_input ?r)) \<noteq> None"
      "q = snd (pump_enqueue_batch s x (ep_held_input e) (rl_input ?r))" for s x q g p l
    using logged [where g = g and p = p and l = l] enqueue_refused [OF that(1)] that(2)
    by (simp add: account_def)
  show "account (snd (deliver_transition n tr e))"
    using a1 other logged given(1) failed
    by (auto simp: deliver_transition_def split_beta Let_def split: option.split)
  show "fst (deliver_transition n tr e) = None \<Longrightarrow> input_inv (snd (deliver_transition n tr e))"
  proof -
    assume ok: "fst (deliver_transition n tr e) = None"
    then have rel: "fst (release_transitional e n tr) = None"
      by (auto simp: deliver_transition_def split_beta Let_def split: option.splits)
    note step = release_input(2) [OF assms rel]
    have "account (snd (deliver_transition n tr e))"
      using a1 other logged given(1) failed
      by (auto simp: deliver_transition_def split_beta Let_def split: option.split)
    moreover have "ep_held_input (snd (deliver_transition n tr e)) = []
      \<and> ip_mode (ep_input (snd (deliver_transition n tr e))) = ip_mode (rl_input ?r)
      \<and> a_mode (ep_protocol (snd (deliver_transition n tr e))) = a_mode (rl_next ?r)"
      using ok rel
      by (cases "ep_held_input e = []"; cases "fst (send_frames (server_frames (rl_trail ?r)) (ep_egress e))";
          cases "fst (pump_enqueue_batch (ep_source_id e) (ep_epoch e) (ep_held_input e) (rl_input ?r))")
        (simp_all add: deliver_transition_def split_beta Let_def clear_transitional_def given(2) [OF _ refl])
    ultimately show ?thesis using step by (simp add: input_inv_def in_step_def)
  qed
qed

text \<open>A section that fails: the end drops what is held and seals the pump.\<close>

definition fails_ok :: "epoch \<Rightarrow> bool" where
  "fails_ok e \<longleftrightarrow> account e \<and> (input_inv e \<or> \<not> bind_undecided e)"

lemma fails_request:
  assumes "alive e" "fails_ok e"
  shows "input_inv (snd (request_terminal c e))"
proof (cases "input_inv e")
  case False
  with assms(2) have a: "account e" "\<not> bind_undecided e" by (simp_all add: fails_ok_def)
  have own: "ao_kind (start_owner e) \<noteq> OwnershipPending"
    using assms(1) a(2) undecided_iff by (auto simp: alive_def)
  have "account (snd (publish_terminal k e))" for k using a(1) by simp
  moreover have "ep_held_input (snd (publish_terminal k e)) = []
      \<and> ip_mode (ep_input (snd (publish_terminal k e))) = ModeObserve" for k
    using assms(1) own a(1) seal_stop_ok [of "ep_input e"]
    by (simp add: publish_terminal_def split_beta Let_def alive_def account_def)
  ultimately show ?thesis using a(2) assms(1)
    by (simp add: request_terminal_def Let_def split_beta alive_def input_inv_def)
qed simp

definition served :: "handled \<Rightarrow> epoch \<Rightarrow> bool" where
  "served h e \<longleftrightarrow> fails_ok e \<and> (case h of Failed _ \<Rightarrow> True | _ \<Rightarrow> input_inv e)"

lemma served_inv [simp]: "input_inv e \<Longrightarrow> served h e"
  by (simp add: served_def fails_ok_def input_inv_def split: handled.split)

lemma served_failed [simp]: "served (Failed x) e \<longleftrightarrow> fails_ok e"
  by (simp add: served_def)

lemma input_finish [simp]: "input_inv (finish_active e) = input_inv e"
  "input_inv (e\<lparr>ep_history_rows := r\<rparr>) = input_inv e"
  by (rule input_cong; simp add: finish_active_def)+

lemma fails_inv [simp]: "input_inv e \<Longrightarrow> fails_ok e"
  by (simp add: fails_ok_def input_inv_def)

lemma deliver_fails:
  assumes "running e" "ep_active e \<noteq> None" "account (snd (deliver_transition n tr e))"
  shows "fails_ok (snd (deliver_transition n tr e))"
proof -
  have "begun (ep_start e)" by (rule active_begun [OF assms(1,2)])
  then have "\<not> bind_undecided (snd (deliver_transition n tr e))"
    by (auto simp: bind_undecided_def begun_def split: option.splits)
  with assms(3) show ?thesis by (simp add: fails_ok_def)
qed

lemma ready_served:
  assumes "running e" "input_inv e" "f_type f = FrameReady"
  shows "served (fst (handle_ready f e)) (snd (handle_ready f e))"
proof (cases "ep_active e")
  case (Some a)
  have mode: "a_mode n2 = a_mode (ep_protocol e)"
    if "automaton_apply FromBrowser f (ep_protocol e) = Inr n1"
      "automaton_apply FromServer ((base_frame FrameCommit s x)\<lparr>f_cut := c\<rparr>) n1 = Inr n2" for n1 n2 s x c
    using accepted_table [OF that(1)] accepted_table [OF that(2)] assms(3) by simp
  have d: "fails_ok (snd (deliver_transition n tr e))"
    "fst (deliver_transition n tr e) = None \<Longrightarrow> input_inv (snd (deliver_transition n tr e))"
    if "a_mode n = a_mode (ep_protocol e)" for n tr
    using deliver_input [of e n tr] deliver_fails [OF assms(1), of n tr] Some assms(2) that
    by (simp_all add: input_inv_def)
  let ?commit = "(base_frame FrameCommit (ep_source_id e) (ep_epoch e))\<lparr>f_cut := f_cut f\<rparr>"
  show ?thesis
  proof (cases "automaton_apply FromBrowser f (ep_protocol e)")
    case (Inr n1)
    show ?thesis
    proof (cases "automaton_apply FromServer ?commit n1")
      case n2: (Inr n2)
      from d [OF mode [OF Inr n2]] assms(2) Some Inr n2 show ?thesis
        by (simp add: handle_ready_def split_beta Let_def split: option.split)
    qed (use assms(2) Some Inr in \<open>simp add: handle_ready_def Let_def\<close>)
  qed (use assms(2) Some in \<open>simp add: handle_ready_def\<close>)
qed (use assms in \<open>simp add: handle_ready_def\<close>)

lemma defer_served:
  assumes "running e" "input_inv e" "f_type f = FrameDefer"
  shows "served (fst (handle_defer f e)) (snd (handle_defer f e))"
proof (cases "ep_active e")
  case (Some a)
  have mode: "a_mode n1 = a_mode (ep_protocol e)"
    if "automaton_apply FromBrowser f (ep_protocol e) = Inr n1" for n1
    using accepted_table [OF that(1)] assms(3) by simp
  have d: "fails_ok (snd (deliver_transition n tr e))"
    "fst (deliver_transition n tr e) = None \<Longrightarrow> input_inv (snd (deliver_transition n tr e))"
    if "a_mode n = a_mode (ep_protocol e)" for n tr
    using deliver_input [of e n tr] deliver_fails [OF assms(1), of n tr] Some assms(2) that
    by (simp_all add: input_inv_def)
  show ?thesis
  proof (cases "automaton_apply FromBrowser f (ep_protocol e)")
    case (Inr n1)
    from d [OF mode [OF Inr]] assms(2) Some Inr show ?thesis
      by (simp add: handle_defer_def split_beta Let_def split: option.split)
  qed (use assms(2) Some in \<open>simp add: handle_defer_def\<close>)
qed (use assms in \<open>simp add: handle_defer_def\<close>)

lemma live_held: "input_inv e \<Longrightarrow> a_state (ep_protocol e) = StateLive \<Longrightarrow> ep_held_input e = []"
  by (auto simp: input_inv_def)

lemma mode_request_served:
  assumes "running e" "input_inv e" "f_type f = FrameModeRequest"
  shows "served (fst (handle_mode_request f e)) (snd (handle_mode_request f e))"
proof (cases "transitional_ongoing e")
  case True
  have "input_inv (e\<lparr>ep_held_modes := m\<rparr>)" for m using assms(2) input_cong [of "e\<lparr>ep_held_modes := m\<rparr>" e] by simp
  with True assms(2) show ?thesis by (simp add: handle_mode_request_def)
next
  case False
  show ?thesis
  proof (cases "automaton_apply FromBrowser f (ep_protocol e)")
    case (Inr n1)
    have live: "a_state (ep_protocol e) = StateLive" "n1 = ep_protocol e"
      using accepted_table [OF Inr] assms(3) by simp_all
    define p where "p = snd (pump_set_mode (f_mode f) (ep_input e))"
    have a: "account e" using assms(2) by (simp add: input_inv_def)
    have ap: "account (e\<lparr>ep_input := p\<rparr>)" unfolding p_def by (rule set_mode_account [OF a])
    have again: "account (e\<lparr>ep_input := snd (pump_set_mode ModeObserve p)\<rparr>)"
      using set_mode_account [OF ap, of ModeObserve] by simp
    have "\<not> bind_undecided e"
      using live_begun [OF assms(1) live(1)] by (auto simp: bind_undecided_def begun_def split: option.splits)
    then have fails: "fails_ok (e\<lparr>ep_input := snd (pump_set_mode ModeObserve p)\<rparr>)" "fails_ok (e\<lparr>ep_input := p\<rparr>)"
      using again ap by (simp_all add: fails_ok_def bind_undecided_def)
    have ok: "input_inv (e\<lparr>ep_input := p, ep_egress := g, ep_protocol := n2, ep_log := l\<rparr>)"
      if "automaton_apply FromServer (mode_frame s x (f_mode f)) n1 = Inr n2"
        "fst (pump_set_mode (f_mode f) (ep_input e)) = None" for n2 s x g l
      using accepted_table [OF that(1)] set_mode_mode [OF that(2)] ap live_held [OF assms(2) live(1)]
      by (simp add: input_inv_def account_def p_def)
    show ?thesis using False Inr assms(2) fails ok
      by (auto simp: handle_mode_request_def split_beta Let_def p_def [symmetric] split: option.split sum.split)
  qed (use False assms in \<open>simp add: handle_mode_request_def\<close>)
qed

lemma input_of_fresh [simp]: "ii_generation (input_of f) = 0"
  by (simp add: input_of_def)

lemma input_served:
  assumes "running e" "input_inv e" "f_type f = FrameInput"
  shows "served (fst (handle_input f e)) (snd (handle_input f e))"
proof (cases "transitional_ongoing e")
  case True
  have "a_state (ep_protocol e) = StatePrepared"
    using True assms(1) by (auto simp: transitional_ongoing_def running_def agrees_def split: option.splits)
  then have "input_inv (e\<lparr>ep_held_input := ep_held_input e @ [input_of f], ep_held_input_bytes := b,
      ep_accepted := ep_accepted e @ [input_of f]\<rparr>)" for b
    using assms(2) account_accept [of e "e\<lparr>ep_held_input := ep_held_input e @ [input_of f], ep_held_input_bytes := b,
      ep_accepted := ep_accepted e @ [input_of f]\<rparr>" "input_of f"]
    by (simp add: input_inv_def)
  with True assms(2) show ?thesis by (simp add: handle_input_def)
next
  case False
  show ?thesis
  proof (cases "automaton_apply FromBrowser f (ep_protocol e)")
    case (Inr n1)
    have live: "a_state (ep_protocol e) = StateLive" using accepted_table [OF Inr] assms(3) by simp
    note held = live_held [OF assms(2) live]
    let ?e = "e\<lparr>ep_held_input := [input_of f], ep_accepted := ep_accepted e @ [input_of f]\<rparr>"
    have a: "account e" using assms(2) by (simp add: input_inv_def)
    have a1: "account ?e" using account_accept [OF a, of ?e "input_of f"] held by simp
    have "input_inv (e\<lparr>ep_input := q, ep_log := l, ep_accepted := ep_accepted e @ [input_of f]\<rparr>)"
      if "pump_enqueue_batch s x [input_of f] (ep_input e) = (None, q)" for s x q l
    proof -
      have i: "pump_inv (ep_input e)" "stop_ok (ep_input e)" using a by (simp_all add: account_def)
      note q = enqueue_progress [OF i(1) that]
      have p: "progress (ep_input ?e) q (map (\<lambda>i. i\<lparr>ii_generation := ip_generation (ep_input e)\<rparr>) [input_of f])"
        using q(1) by simp
      have "unstamped [input_of f] = [input_of f]" using a1 by (simp add: account_def)
      then have "account (e\<lparr>ep_input := q, ep_log := l, ep_accepted := ep_accepted e @ [input_of f]\<rparr>)"
        by (intro account_progress [OF a1 p q(2) q(3) [OF i(2)], where h = "[]"])
          (simp_all only: unstamped_simps, simp_all add: held)
      with assms(2) held q(4) show ?thesis by (simp add: input_inv_def)
    qed
    moreover have "input_inv (e\<lparr>ep_input := q\<rparr>)" if "pump_enqueue_batch s x [input_of f] (ep_input e) = (Some y, q)" for s x q y
      using enqueue_refused [of s x "[input_of f]" "ep_input e"] that assms(2) by simp
    ultimately show ?thesis using False Inr assms(2)
      by (auto simp: handle_input_def pump_enqueue_def split: option.split prod.split)
  qed (use False assms in \<open>simp add: handle_input_def\<close>)
qed

lemma handle_frame_input:
  assumes "lifecycle_inv e" "input_inv e"
  shows "input_inv (snd (handle_frame_locked f e))"
proof (cases "ep_terminal e")
  case None
  from lifecycle_aliveD [OF assms(1) None] have r: "running e" .
  have s: "served (fst (handle_switch f e)) (snd (handle_switch f e))"
    using r assms(2) ready_served defer_served mode_request_served input_served
    by (cases "f_type f") (simp_all add: handle_switch_def)
  have "switched (fst (handle_switch f e)) (snd (handle_switch f e))"
    using r ready_switched defer_switched mode_request_switched input_switched
    by (cases "f_type f") (simp_all add: handle_switch_def)
  then have "alive (snd (handle_switch f e))" by (simp add: switched_def halfway_def)
  with s assms(2) fails_request show ?thesis
    by (auto simp: handle_frame_locked_def split_beta served_def split: option.split handled.split)
qed (use assms(2) in \<open>simp add: handle_frame_locked_def split: option.split\<close>)

section \<open>Runs\<close>

lemma own_progress: "pump_inv p \<Longrightarrow> pump_own ev \<Longrightarrow> progress p (pump_step p ev) []"
  using progress_step [of p ev] own_admits [of ev p] by simp

interpretation input: epoch_keeps input_inv lifecycle_inv
proof unfold_locales
  show "lifecycle_inv e \<Longrightarrow> lifecycle_inv (epoch_step e ev)" for e ev by (rule lifecycle.step_inv)
  show "lifecycle_inv e \<Longrightarrow> input_inv e \<Longrightarrow> input_inv (snd (handle_frame_locked f e))" for e f
    by (rule handle_frame_input)
  show "input_inv (e\<lparr>ep_protocol := n, ep_log := ep_log e @ [(FromBrowser, f)]\<rparr>)"
    if "input_inv e" "automaton_apply FromBrowser f (ep_protocol e) = Inr n"
      "f_type f = FrameResize \<or> f_type f = FrameHistory" for e f n
    using that accepted_table [OF that(2)] by (auto simp: input_inv_def account_def)
  show "input_inv (e\<lparr>ep_input := pump_step (ep_input e) pe\<rparr>)" if "input_inv e" "pump_own pe" for e pe
  proof -
    have a: "account e" "pump_inv (ep_input e)" "stop_ok (ep_input e)"
      using that(1) by (simp_all add: input_inv_def account_def)
    note o1 = own_step_ok [OF a(3) that(2)]
    have "account (e\<lparr>ep_input := pump_step (ep_input e) pe\<rparr>)"
      by (rule account_pump [OF a(1) own_progress [OF a(2) that(2)] pump_step_inv [OF a(2)]]) (use o1 in simp)
    with that(1) o1 show ?thesis by (simp add: input_inv_def)
  qed
qed (simp_all add: input_inv_def account_def)

lemma new_pump_idle:
  "new_input_pump s x = Inr p \<Longrightarrow> ip_settled p = [] \<and> pending_items p = [] \<and> ip_mode p = ModeObserve
    \<and> \<not> ip_stop p \<and> \<not> ip_closed p \<and> ip_pty p = []"
  by (auto simp: new_input_pump_def pending_items_def split: if_splits)

lemma new_epoch_input:
  assumes "new_epoch have_ctx src x have_writer owns have_pty cfg bind undo = Inr e"
  shows "input_inv e"
proof -
  have f: "new_input_pump (ep_source_id e) x = Inr (ep_input e)" "ep_held_input e = []" "ep_accepted e = []"
    "ep_dropped e = []" using new_epoch_fields [OF assms] by metis+
  note n = new_pump_idle [OF f(1)]
  with f new_pump_inv [OF f(1)] show ?thesis by (simp add: input_inv_def account_def stop_ok_def)
qed

lemma reached_input:
  assumes "new_epoch have_ctx src x have_writer owns have_pty cfg bind undo = Inr e0"
  shows "lifecycle_inv (foldl epoch_step e0 evs) \<and> input_inv (foldl epoch_step e0 evs)"
  using input.run_inv [of e0 evs] lifecycle_running [OF new_epoch_running [OF assms]] new_epoch_input [OF assms]
  by simp

section \<open>The input theorems\<close>

text \<open>
  C3: Every INPUT an epoch accepted is accounted for exactly once. In every reached epoch the items it
  accepted, directly or behind a cut, are those the pump settled, those pending in the pump, those held
  for the active cut and those dropped at the end, each once. The PTY has received exactly the
  delivered parts of the settled items and the written part of the one in progress; the items it took
  bytes of, then the pending ones, then the held ones are in the order of acceptance. After the end
  nothing is held.
\<close>

theorem epoch_input_accounted:
  assumes "new_epoch have_ctx src x have_writer owns have_pty cfg bind undo = Inr e0"
    and "e = foldl epoch_step e0 evs"
  shows "mset (unstamped (map is_item (ip_settled (ep_input e)) @ pending_items (ep_input e)))
      + mset (ep_held_input e) + mset (ep_dropped e) = mset (ep_accepted e)
    \<and> ip_pty (ep_input e) = concat (map delivered (ip_settled (ep_input e))) @ in_flight_bytes (ep_input e)
    \<and> subseq (unstamped (map is_item (filter took (ip_settled (ep_input e))) @ pending_items (ep_input e))
        @ ep_held_input e) (ep_accepted e)
    \<and> (if ep_terminal e = None then True else ep_held_input e = [])"
proof -
  have "lifecycle_inv e" "account e" using reached_input [OF assms(1), of evs] assms(2)
    by (simp_all add: input_inv_def)
  then show ?thesis
    by (auto simp: account_def pump_inv_def write_ok_def lifecycle_inv_def ended_def split: option.splits)
qed

text \<open>
  The sample attachment: of three accepted keystrokes \<^verbatim>\<open>ls\<close> is written and settled,
  \<^verbatim>\<open>x\<close> is pending and \<^verbatim>\<open>y\<close> is held behind the second cut; when the epoch then ends,
  \<^verbatim>\<open>x\<close> is settled undelivered and \<^verbatim>\<open>y\<close> dropped.
\<close>

theorem epoch_input_accounted_witness:
  "(let e = foldl epoch_step sample_fresh attached_live; p = ep_input e
    in map is_item (ip_settled p) = [attached_item ''ls'' 1 1] \<and> pending_items p = [attached_item ''x'' 2 1]
       \<and> ep_held_input e = [attached_item ''y'' 3 0] \<and> ip_pty p = ''ls''
       \<and> mset (unstamped (map is_item (ip_settled p) @ pending_items p)) + mset (ep_held_input e)
           + mset (ep_dropped e)
         = mset [attached_item ''ls'' 1 0, attached_item ''x'' 2 0, attached_item ''y'' 3 0]
       \<and> ip_pty p = concat (map delivered (ip_settled p)) @ in_flight_bytes p)
   \<and> (let e = foldl epoch_step sample_fresh (attached_live @ [EvTerminate orderly_cause]); p = ep_input e
      in map is_item (ip_settled p) = [attached_item ''ls'' 1 1, attached_item ''x'' 2 1]
         \<and> ep_dropped e = [attached_item ''y'' 3 0] \<and> ep_held_input e = []
         \<and> mset (unstamped (map is_item (ip_settled p) @ pending_items p)) + mset (ep_held_input e)
             + mset (ep_dropped e) = mset (ep_accepted e))"
  using attached_run_facts epoch_input_accounted [OF sample_fresh_new refl, of attached_live]
    epoch_input_accounted [OF sample_fresh_new refl, of "attached_live @ [EvTerminate orderly_cause]"]
  by (simp only: Let_def foldl_append foldl.simps simp_thms)

text \<open>
  C6: Keystrokes pass only under granted control. In every reached epoch whose pump is in control mode,
  the epoch has not ended, and the last MODE frame its exchange contains granted control.
\<close>

theorem epoch_input_needs_control:
  assumes "new_epoch have_ctx src x have_writer owns have_pty cfg bind undo = Inr e0"
    and "e = foldl epoch_step e0 evs"
  shows "if ip_mode (ep_input e) = ModeControl
    then ep_terminal e = None \<and> last_mode (ep_log e) = ModeControl else True"
proof (cases "ip_mode (ep_input e) = ModeControl")
  case control: True
  have i: "lifecycle_inv e" "input_inv e" using reached_input [OF assms(1), of evs] assms(2) by simp_all
  have stop: "\<not> ip_stop (ep_input e)" using i(2) control by (auto simp: input_inv_def account_def stop_ok_def)
  then have t: "ep_terminal e = None" using i(1) by (auto simp: lifecycle_inv_def ended_def split: option.splits)
  with i(1) have "running e" by (simp add: lifecycle_aliveD)
  then have live: "a_state (ep_protocol e) \<noteq> StateEnded"
    by (auto simp: running_def agrees_def between_cuts_def split: option.splits if_splits)
  obtain s a0 where a0: "new_automaton s x = Inr a0" "wire_inv s x a0 e0"
    using new_epoch_wire [OF assms(1)] by blast
  have "session a0 (ep_log e) (ep_protocol e)"
    unfolding assms(2) using wire.run_inv a0(2) by (simp add: wire_inv_def)
  from session_inv [OF this a0(1)] live have "a_mode (ep_protocol e) = last_mode (ep_log e)"
    by (simp add: mode_inv_def)
  with i(2) control t show ?thesis by (simp add: input_inv_def)
qed simp

text \<open>The sample attachment was granted control, and keystrokes passed.\<close>

theorem epoch_input_needs_control_witness:
  "ip_mode (ep_input (foldl epoch_step sample_fresh attached_live)) = ModeControl
   \<and> ip_pty (ep_input (foldl epoch_step sample_fresh attached_live)) = ''ls''
   \<and> last_mode (ep_log (foldl epoch_step sample_fresh attached_live)) = ModeControl"
  using attached_run_facts epoch_input_needs_control [OF sample_fresh_new refl, of attached_live] by simp

end
