(* ===== verification/Journal_Record.thy ===== *)
theory Journal_Record
  imports Sha256 Frame_Json
begin

text \<open>
  The records of a pane's journal (\<^verbatim>\<open>internal/unifiedjournal\<close>: the types and frame layouts of
  \<^verbatim>\<open>journal.go\<close>): keys, geometries, committed records and events, the file header, and how an
  append and a commit are laid out as bytes. The last section is the arithmetic of the fixed-width
  big-endian fields, from which the round trips of the parser follow.
\<close>

section \<open>Identities, records and events\<close>

datatype journal_error =
    ErrUnsafeRuntime | ErrQuota | ErrInvalidated | ErrInvalidRecord | ErrCorruptJournal | ErrStorage
  | ErrRotationReplayRecordQuota | ErrPhysicalQuota | ErrSourceQuota | ErrCursorMismatch | ErrJournalGap

text \<open>\<^verbatim>\<open>errors.Is(err, ErrQuota)\<close>: three refusals wrap it.\<close>

definition is_quota :: "journal_error \<Rightarrow> bool" where
  "is_quota err \<longleftrightarrow>
     err = ErrQuota \<or> err = ErrRotationReplayRecordQuota \<or> err = ErrPhysicalQuota \<or> err = ErrSourceQuota"

record pane_key =
  pk_server :: string
  pk_session :: string
  pk_control_generation :: u64
  pk_window :: string
  pk_pane :: string
  pk_incarnation :: string

record journal_geometry =
  jg_columns :: int
  jg_rows :: int

definition max_journal_dimension :: int where
  "max_journal_dimension = 1000"

definition geometry_valid :: "journal_geometry \<Rightarrow> bool" where
  "geometry_valid g \<longleftrightarrow>
     jg_columns g \<ge> 1 \<and> jg_columns g \<le> max_journal_dimension
     \<and> jg_rows g \<ge> 1 \<and> jg_rows g \<le> max_journal_dimension"

definition no_geometry :: journal_geometry where
  "no_geometry = \<lparr>jg_columns = 0, jg_rows = 0\<rparr>"

datatype generation_origin = OriginBirth | OriginReconstructed | OriginRotated

text \<open>A record's kind is the byte of its frame; only two values are known.\<close>

definition record_output :: byte where "record_output = CHR 0x01"
definition record_geometry :: byte where "record_geometry = CHR 0x02"

text \<open>A record without its key, which is the one of the journal it is in.\<close>

record journal_record =
  jr_kind :: byte
  jr_sequence :: int
  jr_start :: int
  jr_end :: int
  jr_hash :: bytes
  jr_geometry :: journal_geometry

definition no_record :: journal_record where
  "no_record = \<lparr>jr_kind = NUL, jr_sequence = 0, jr_start = 0, jr_end = 0, jr_hash = replicate 32 NUL,
     jr_geometry = no_geometry\<rparr>"

record journal_event =
  je_kind :: byte
  je_sequence :: int
  je_start :: int
  je_end :: int
  je_geometry :: journal_geometry
  je_payload :: bytes

section \<open>Fixed-width fields\<close>

text \<open>\<^verbatim>\<open>binary.BigEndian\<close>: the low bytes of a value, highest first, and back.\<close>

definition be_put :: "nat \<Rightarrow> int \<Rightarrow> bytes" where
  "be_put n x = map (\<lambda>k. char_of (nat (x div 256 ^ k mod 256))) (rev [0..<n])"

definition be_get :: "bytes \<Rightarrow> int" where
  "be_get bs = foldl (\<lambda>v b. 256 * v + int (byte_val b)) 0 bs"

text \<open>\<^verbatim>\<open>int64(u)\<close> of an unsigned 64-bit value.\<close>

definition to_int64 :: "int \<Rightarrow> int" where
  "to_int64 u = (if u < 2 ^ 63 then u else u - 2 ^ 64)"

text \<open>\<^verbatim>\<open>int64\<close> addition wraps around.\<close>

definition wrap64 :: "int \<Rightarrow> int" where
  "wrap64 x = to_int64 (x mod 2 ^ 64)"

section \<open>Frames\<close>

definition append_marker :: byte where "append_marker = CHR 0xA1"
definition commit_marker :: byte where "commit_marker = CHR 0xC1"

definition append_fixed :: nat where "append_fixed = 1 + 1 + 8 + 8 + 8 + 4 + 4 + 4 + 32"
definition commit_fixed :: nat where "commit_fixed = 1 + 1 + 8 + 8 + 8 + 32"

definition geometry_record_cost :: int where
  "geometry_record_cost = int append_fixed + int commit_fixed"

definition header_limit :: int where "header_limit = 64 * 1024"

definition journal_magic :: bytes where "journal_magic = ''PUJ2''"

definition journal_version :: int where "journal_version = 2"

definition encode_append :: "journal_record \<Rightarrow> bytes \<Rightarrow> bytes" where
  "encode_append r payload =
     [append_marker, jr_kind r] @ be_put 8 (jr_sequence r) @ be_put 8 (jr_start r) @ be_put 8 (jr_end r)
     @ be_put 4 (len payload) @ be_put 4 (jg_columns (jr_geometry r)) @ be_put 4 (jg_rows (jr_geometry r))
     @ jr_hash r @ payload"

definition encode_commit :: "journal_record \<Rightarrow> bytes" where
  "encode_commit r =
     [commit_marker, jr_kind r] @ be_put 8 (jr_sequence r) @ be_put 8 (jr_start r) @ be_put 8 (jr_end r)
     @ jr_hash r"

text \<open>The domain prefix of a geometry's hash.\<close>

definition geometry_hash :: "int \<Rightarrow> journal_geometry \<Rightarrow> bytes" where
  "geometry_hash sequence g =
     sha256 (''persea-unified-journal/geometry'' @ [NUL] @ be_put 8 sequence
       @ be_put 4 (jg_columns g) @ be_put 4 (jg_rows g))"

section \<open>The header\<close>

record journal_header =
  jh_version :: int
  jh_key :: pane_key
  jh_incarnation :: string
  jh_initial :: "journal_geometry option"
  jh_origin :: string

definition origin_name :: "generation_origin \<Rightarrow> string" where
  "origin_name origin =
     (case origin of OriginBirth \<Rightarrow> ''birth'' | OriginReconstructed \<Rightarrow> ''reconstructed''
      | OriginRotated \<Rightarrow> ''rotated'')"

definition marshal_key :: "pane_key \<Rightarrow> string" where
  "marshal_key k =
     ''{'' @ comma_list
       [json_field ''Server'' (json_string (pk_server k)),
        json_field ''Session'' (json_string (pk_session k)),
        json_field ''ControlGeneration'' (decimal (unat (pk_control_generation k))),
        json_field ''Window'' (json_string (pk_window k)),
        json_field ''Pane'' (json_string (pk_pane k)),
        json_field ''Incarnation'' (json_string (pk_incarnation k))] @ ''}''"

definition marshal_geometry :: "journal_geometry \<Rightarrow> string" where
  "marshal_geometry g =
     ''{'' @ comma_list
       [json_field ''columns'' (decimal_int (jg_columns g)), json_field ''rows'' (decimal_int (jg_rows g))]
     @ ''}''"

definition marshal_header :: "journal_header \<Rightarrow> bytes" where
  "marshal_header h =
     ''{'' @ comma_list
       ([json_field ''Version'' (decimal_int (jh_version h)),
         json_field ''Key'' (marshal_key (jh_key h)),
         json_field ''BrokerIncarnation'' (json_string (jh_incarnation h)),
         json_field ''GeometryInitial''
           (case jh_initial h of None \<Rightarrow> ''null'' | Some g \<Rightarrow> marshal_geometry g)]
        @ opt_field (jh_origin h \<noteq> []) ''Origin'' (json_string (jh_origin h))) @ ''}''"

definition new_header :: "pane_key \<Rightarrow> string \<Rightarrow> journal_geometry option \<Rightarrow> generation_origin \<Rightarrow> journal_header" where
  "new_header key incarnation initial origin =
     \<lparr>jh_version = journal_version, jh_key = key, jh_incarnation = incarnation, jh_initial = initial,
      jh_origin = origin_name origin\<rparr>"

text \<open>\<open>encodeJournalHeader\<close>.\<close>

definition encode_header :: "journal_header \<Rightarrow> journal_error + bytes" where
  "encode_header h =
     (let body = marshal_header h
      in if len body > header_limit then Inl ErrStorage
         else Inr (journal_magic @ be_put 4 (len body) @ body))"

section \<open>The arithmetic of the fields\<close>

lemma be_put_length [simp]: "length (be_put n x) = n"
  by (simp add: be_put_def)

lemma be_put_Suc: "be_put (Suc n) x = char_of (nat (x div 256 ^ n mod 256)) # be_put n x"
  by (simp add: be_put_def)

lemma be_get_Nil [simp]: "be_get [] = 0"
  by (simp add: be_get_def)

lemma be_get_fold: "foldl (\<lambda>v b. 256 * v + int (byte_val b)) a bs = a * 256 ^ length bs + be_get bs"
proof (induction bs arbitrary: a)
  case (Cons b bs)
  from Cons [of "256 * a + int (byte_val b)"] Cons [of "int (byte_val b)"] show ?case
    by (simp add: be_get_def algebra_simps)
qed (simp add: be_get_def)

lemma be_get_Cons: "be_get (b # bs) = int (byte_val b) * 256 ^ length bs + be_get bs"
  using be_get_fold [of "int (byte_val b)" bs] by (simp add: be_get_def)

lemma be_get_nonneg: "0 \<le> be_get bs"
  by (induction bs) (simp_all add: be_get_Cons)

lemma be_get_less: "be_get bs < 256 ^ length bs"
proof (induction bs)
  case (Cons b bs)
  have "int (byte_val b) + 1 \<le> 256" using byte_val_less [of b] by linarith
  then have "(int (byte_val b) + 1) * 256 ^ length bs \<le> 256 * 256 ^ length bs"
    by (rule mult_right_mono) simp
  then have "int (byte_val b) * 256 ^ length bs + 256 ^ length bs \<le> 256 ^ length (b # bs)"
    by (simp add: distrib_right)
  with Cons show ?case unfolding be_get_Cons by linarith
qed simp

lemma be_get_put: "be_get (be_put n x) = x mod 256 ^ n"
proof (induction n)
  case 0
  then show ?case by (simp add: be_put_def)
next
  case (Suc n)
  have r: "x div 256 ^ n mod 256 < 256" "0 \<le> x div 256 ^ n mod 256" by simp_all
  then have "nat (x div 256 ^ n mod 256) < 256" by linarith
  then have "int (byte_val (char_of (nat (x div 256 ^ n mod 256)))) = x div 256 ^ n mod 256"
    using r by simp
  moreover have "x mod 256 ^ Suc n = (x div 256 ^ n mod 256) * 256 ^ n + x mod 256 ^ n"
    using mod_mult2_eq' [of x "256 ^ n" 256] by (simp add: algebra_simps)
  ultimately show ?case by (simp add: be_put_Suc be_get_Cons Suc)
qed

lemma be_put_get: "be_put (length bs) (be_get bs) = bs"
proof (induction bs)
  case (Cons b bs)
  have n: "be_get bs < 256 ^ length bs" "0 \<le> be_get bs" by (rule be_get_less be_get_nonneg)+
  have "be_get (b # bs) div 256 ^ length bs = int (byte_val b)" using n by (simp add: be_get_Cons)
  then have h: "be_get (b # bs) div 256 ^ length bs mod 256 = int (byte_val b)"
    using byte_val_less [of b] by simp
  have "be_put (length bs) (be_get (b # bs)) = be_put (length bs) (be_get bs)"
  proof -
    have "be_get (b # bs) div 256 ^ k mod 256 = be_get bs div 256 ^ k mod 256" if "k < length bs" for k
    proof -
      have "(256 :: int) ^ length bs = 256 ^ k * (256 * 256 ^ (length bs - Suc k))"
        using that by (simp flip: power_add power_Suc)
      then have "be_get (b # bs) = be_get bs + 256 ^ k * (256 * (256 ^ (length bs - Suc k) * int (byte_val b)))"
        by (simp add: be_get_Cons)
      then show ?thesis by simp
    qed
    then show ?thesis by (simp add: be_put_def)
  qed
  with h show ?case using Cons by (simp add: be_put_Suc)
qed (simp add: be_put_def)

lemma wrap64_same: "- (2 ^ 63) \<le> x \<Longrightarrow> x < 2 ^ 63 \<Longrightarrow> wrap64 x = x"
proof -
  assume a: "- (2 ^ 63) \<le> x" "x < 2 ^ 63"
  show ?thesis
  proof (cases "0 \<le> x")
    case True
    with a show ?thesis by (simp add: wrap64_def to_int64_def)
  next
    case False
    have "x mod 2 ^ 64 = (x + 2 ^ 64) mod 2 ^ 64" by simp
    also have "\<dots> = x + 2 ^ 64" using False a by (intro mod_pos_pos_trivial) simp_all
    finally show ?thesis using False a by (simp add: wrap64_def to_int64_def)
  qed
qed

lemma int64_field: "to_int64 (be_get (be_put 8 x)) = wrap64 x"
  by (simp add: be_get_put wrap64_def)

lemma to_int64_bounds: "0 \<le> u \<Longrightarrow> u < 2 ^ 64 \<Longrightarrow> - (2 ^ 63) \<le> to_int64 u \<and> to_int64 u < 2 ^ 63"
  by (simp add: to_int64_def)

lemma be_put_int64: "length bs = 8 \<Longrightarrow> be_put 8 (to_int64 (be_get bs)) = bs"
proof -
  assume l: "length bs = 8"
  have "be_put 8 (x - 2 ^ 64) = be_put 8 x" for x
  proof -
    have "(x - 2 ^ 64) div 256 ^ k mod 256 = x div 256 ^ k mod 256" if "k < 8" for k :: nat
    proof -
      have "(2 :: int) ^ 64 = 256 ^ k * (256 * 256 ^ (7 - k))"
        using that by (simp flip: power_add power_Suc add: power_mult [of 2 8, simplified])
      then have e: "x - 2 ^ 64 = x + 256 ^ k * (256 * - (256 ^ (7 - k)))" by simp
      have d: "(x + 256 ^ k * y) div 256 ^ k = y + x div 256 ^ k" for y by (rule div_mult_self2) simp
      have "(256 * y + z) mod 256 = z mod 256" for y z :: int by simp
      then show ?thesis unfolding e d .
    qed
    then show ?thesis by (simp add: be_put_def)
  qed
  with be_put_get [of bs] l show ?thesis by (simp add: to_int64_def)
qed

lemma encode_lengths [simp]:
  "length (jr_hash r) = 32 \<Longrightarrow> length (encode_append r p) = append_fixed + length p"
  "length (jr_hash r) = 32 \<Longrightarrow> length (encode_commit r) = commit_fixed"
  by (simp_all add: encode_append_def encode_commit_def append_fixed_def commit_fixed_def)

lemma geometry_hash_length [simp]: "length (geometry_hash q g) = 32"
  by (simp add: geometry_hash_def sha256_length)

end
