(* ===== verification/Journal_Parse.thy ===== *)
theory Journal_Parse
  imports Journal_Record
begin

text \<open>
  The parser of a pane's journal (\<^verbatim>\<open>internal/unifiedjournal/verified.go\<close> and \<open>parseJournal\<close> of
  \<^verbatim>\<open>journal.go\<close>): one frame at a time, shared by recovery after a restart and by the readback of
  every live commit. A reader is what it still delivers and whether it then breaks instead of ending.
  The linked pages of the code, which are never changed once linked, are lists, newest first.
  \<^verbatim>\<open>json.Unmarshal\<close> of a header is a parameter.

  The lemmas characterise one step of the parser in both directions by the entry it reads: a step
  succeeds exactly on the encoding of an entry that is legal in the current state.
\<close>

section \<open>Readers\<close>

datatype read_failure = ReadEOF | ReadUnexpectedEOF | ReadFailed

record reader =
  rd_data :: bytes
  rd_broken :: bool

text \<open>\<^verbatim>\<open>io.ReadFull\<close>.\<close>

definition read_full :: "nat \<Rightarrow> reader \<Rightarrow> (read_failure + bytes) \<times> reader" where
  "read_full n r =
     (if n \<le> length (rd_data r) then (Inr (take n (rd_data r)), r\<lparr>rd_data := drop n (rd_data r)\<rparr>)
      else (Inl (if rd_broken r then ReadFailed else if rd_data r = [] then ReadEOF else ReadUnexpectedEOF),
            r\<lparr>rd_data := []\<rparr>))"

section \<open>Pages and cursors\<close>

definition payload_page_bytes :: int where "payload_page_bytes = 32 * 1024"

record payload_page =
  pp_start :: int
  pp_data :: bytes

record event_page =
  vp_event :: journal_event
  vp_payload :: "payload_page list"
  vp_payload_bytes :: int
  vp_metadata_bytes :: int

text \<open>\<^verbatim>\<open>unsafe.Sizeof\<close> of the structures on a 64-bit build.\<close>

definition sizeof_payload_page :: int where "sizeof_payload_page = 8 + 24 + 8"
definition sizeof_event :: int where "sizeof_event = 8 + 8 + 8 + 8 + 16 + 24"
definition sizeof_event_page :: int where "sizeof_event_page = 8 + sizeof_event + 8 + 8 + 8"
definition sizeof_pending_record :: int where
  "sizeof_pending_record = 8 + (16 + 16 + 8 + 16 + 16 + 16) + 8 + 8 + 8 + 8 + 32 + 16"

record verified_cursor =
  vc_physical :: int
  vc_end :: int
  vc_sequence :: int
  vc_committed :: int
  vc_committed_sequence :: int
  vc_geometry_charge :: int
  vc_last :: journal_record
  vc_tail :: "event_page list"
  vc_view :: "event_page list"

definition no_cursor :: verified_cursor where
  "no_cursor = \<lparr>vc_physical = 0, vc_end = 0, vc_sequence = 0, vc_committed = 0, vc_committed_sequence = 0,
     vc_geometry_charge = 0, vc_last = no_record, vc_tail = [], vc_view = []\<rparr>"

text \<open>The bytes of a chain of payload pages, oldest first.\<close>

definition pages_bytes :: "payload_page list \<Rightarrow> bytes" where
  "pages_bytes ps = concat (map pp_data (rev ps))"

section \<open>One frame\<close>

datatype next_error = NextTorn | NextCorrupt | NextRead read_failure

definition frame_field :: "nat \<Rightarrow> nat \<Rightarrow> bytes \<Rightarrow> int" where
  "frame_field from n frame = be_get (take n (drop from frame))"

definition frame_record :: "bytes \<Rightarrow> journal_record" where
  "frame_record frame =
     no_record\<lparr>jr_kind := frame ! 1, jr_sequence := to_int64 (frame_field 2 8 frame),
       jr_start := to_int64 (frame_field 10 8 frame), jr_end := to_int64 (frame_field 18 8 frame)\<rparr>"

text \<open>The payload is read page by page, before anything is checked.\<close>

function read_payload ::
    "int \<Rightarrow> int \<Rightarrow> reader \<Rightarrow> payload_page list \<Rightarrow> next_error + payload_page list \<times> reader" where
  "read_payload position n r pages =
     (if position < n then
        let count = min (n - position) payload_page_bytes
        in case read_full (nat count) r of
             (Inl ReadFailed, _) \<Rightarrow> Inl (NextRead ReadFailed)
           | (Inl _, _) \<Rightarrow> Inl NextTorn
           | (Inr data, r') \<Rightarrow>
               read_payload (position + count) n r' (\<lparr>pp_start = position, pp_data = data\<rparr> # pages)
      else Inr (pages, r))"
  by pat_completeness auto

termination
  by (relation "measure (\<lambda>(position, n, _, _). nat (n - position))") (auto simp: payload_page_bytes_def)

declare read_payload.simps [simp del]

definition cursor_commit :: "bytes \<Rightarrow> verified_cursor \<Rightarrow> next_error + verified_cursor" where
  "cursor_commit frame c =
     (let r = (frame_record frame)\<lparr>jr_hash := take 32 (drop 26 frame)\<rparr>; last = vc_last c
      in if jr_kind r \<noteq> jr_kind last \<or> jr_sequence r \<noteq> jr_sequence last \<or> jr_start r \<noteq> jr_start last
            \<or> jr_end r \<noteq> jr_end last \<or> jr_hash r \<noteq> jr_hash last
            \<or> jr_end r > vc_end c \<or> jr_sequence r \<le> vc_committed_sequence c
         then Inl NextCorrupt
         else Inr (c\<lparr>vc_committed := jr_end r, vc_committed_sequence := jr_sequence r, vc_view := vc_tail c,
                     vc_physical := vc_physical c + int commit_fixed\<rparr>))"

text \<open>The typed rules of an append, and whether it is a geometry record.\<close>

definition append_admissible :: "journal_record \<Rightarrow> int \<Rightarrow> bytes \<Rightarrow> verified_cursor \<Rightarrow> bool" where
  "append_admissible r n payload c \<longleftrightarrow>
     jr_sequence r = wrap64 (vc_sequence c + 1) \<and> jr_start r = vc_end c
     \<and> (if jr_kind r = record_output
        then jr_end r = wrap64 (jr_start r + n) \<and> jr_geometry r = no_geometry \<and> jr_hash r = sha256 payload
        else if jr_kind r = record_geometry
        then n = 0 \<and> jr_end r = jr_start r \<and> geometry_valid (jr_geometry r)
             \<and> geometry_hash (jr_sequence r) (jr_geometry r) = jr_hash r
        else False)"

definition add_page :: "journal_record \<Rightarrow> int \<Rightarrow> payload_page list \<Rightarrow> verified_cursor \<Rightarrow> event_page" where
  "add_page r n pages c =
     \<lparr>vp_event = \<lparr>je_kind = jr_kind r, je_sequence = jr_sequence r, je_start = jr_start r, je_end = jr_end r,
                   je_geometry = jr_geometry r, je_payload = []\<rparr>,
      vp_payload = pages,
      vp_payload_bytes = n + (case vc_tail c of [] \<Rightarrow> 0 | p # _ \<Rightarrow> vp_payload_bytes p),
      vp_metadata_bytes = len pages * sizeof_payload_page + sizeof_event_page
        + (case vc_tail c of [] \<Rightarrow> 0 | p # _ \<Rightarrow> vp_metadata_bytes p)\<rparr>"

definition append_record :: "journal_record \<Rightarrow> int \<Rightarrow> payload_page list \<Rightarrow> verified_cursor \<Rightarrow> verified_cursor" where
  "append_record r n pages c =
     c\<lparr>vc_geometry_charge := vc_geometry_charge c
          + (if jr_kind r = record_geometry then geometry_record_cost else 0),
       vc_tail := add_page r n pages c # vc_tail c, vc_last := r, vc_sequence := jr_sequence r,
       vc_end := jr_end r, vc_physical := vc_physical c + int append_fixed + n\<rparr>"

definition cursor_append :: "bytes \<Rightarrow> reader \<Rightarrow> verified_cursor \<Rightarrow> next_error + reader \<times> verified_cursor" where
  "cursor_append frame rd c =
     (let n = frame_field 26 4 frame;
          r = (frame_record frame)
                \<lparr>jr_geometry := \<lparr>jg_columns = frame_field 30 4 frame, jg_rows = frame_field 34 4 frame\<rparr>,
                 jr_hash := take 32 (drop 38 frame)\<rparr>
      in case read_payload 0 n rd [] of
           Inl err \<Rightarrow> Inl err
         | Inr (pages, rd') \<Rightarrow>
             if append_admissible r n (pages_bytes pages) c then Inr (rd', append_record r n pages c)
             else Inl NextCorrupt)"

text \<open>\<open>verifiedCursor.next\<close>: whether the frame was an append, the rest of the input, the new state.\<close>

definition cursor_next :: "reader \<Rightarrow> verified_cursor \<Rightarrow> next_error + bool \<times> reader \<times> verified_cursor" where
  "cursor_next rd c =
     (case read_full 1 rd of
        (Inl err, _) \<Rightarrow> Inl (NextRead err)
      | (Inr marker, rd1) \<Rightarrow>
          if marker \<noteq> [append_marker] \<and> marker \<noteq> [commit_marker] then Inl NextCorrupt
          else
            (case read_full ((if marker = [append_marker] then append_fixed else commit_fixed) - 1) rd1 of
               (Inl err, _) \<Rightarrow>
                 if marker = [append_marker] \<and> err \<noteq> ReadFailed then Inl NextTorn else Inl NextCorrupt
             | (Inr rest, rd2) \<Rightarrow>
                 if marker = [commit_marker] then
                   (case cursor_commit (marker @ rest) c of
                      Inl err \<Rightarrow> Inl err | Inr c' \<Rightarrow> Inr (False, rd2, c'))
                 else
                   (case cursor_append (marker @ rest) rd2 c of
                      Inl err \<Rightarrow> Inl err | Inr (rd3, c') \<Rightarrow> Inr (True, rd3, c'))))"

section \<open>Entries\<close>

text \<open>What the frames of a journal say, read as one entry each.\<close>

datatype journal_entry = Appended journal_record bytes | Committed

definition entry_bytes :: "verified_cursor \<Rightarrow> journal_entry \<Rightarrow> bytes" where
  "entry_bytes c en = (case en of Appended r p \<Rightarrow> encode_append r p | Committed \<Rightarrow> encode_commit (vc_last c))"

definition is_append :: "journal_entry \<Rightarrow> bool" where
  "is_append en \<longleftrightarrow> (case en of Appended _ _ \<Rightarrow> True | Committed \<Rightarrow> False)"

text \<open>The pages a payload is read into.\<close>

function paged :: "int \<Rightarrow> bytes \<Rightarrow> payload_page list \<Rightarrow> payload_page list" where
  "paged position p pages =
     (if p = [] then pages
      else let k = nat payload_page_bytes
           in paged (position + min (len p) payload_page_bytes) (drop k p)
                (\<lparr>pp_start = position, pp_data = take k p\<rparr> # pages))"
  by pat_completeness auto

termination by (relation "measure (\<lambda>(_, p, _). length p)") (auto simp: payload_page_bytes_def)

declare paged.simps [simp del]

definition entry_legal :: "verified_cursor \<Rightarrow> journal_entry \<Rightarrow> bool" where
  "entry_legal c en \<longleftrightarrow>
     (case en of
        Appended r p \<Rightarrow> append_admissible r (len p) p c \<and> len p < 2 ^ 32 \<and> length (jr_hash r) = 32
      | Committed \<Rightarrow> jr_end (vc_last c) \<le> vc_end c \<and> vc_committed_sequence c < jr_sequence (vc_last c))"

definition entry_apply :: "verified_cursor \<Rightarrow> journal_entry \<Rightarrow> verified_cursor" where
  "entry_apply c en =
     (case en of
        Appended r p \<Rightarrow> append_record r (len p) (paged 0 p []) c
      | Committed \<Rightarrow> c\<lparr>vc_committed := jr_end (vc_last c), vc_committed_sequence := jr_sequence (vc_last c),
          vc_view := vc_tail c, vc_physical := vc_physical c + int commit_fixed\<rparr>)"

text \<open>The counters of a cursor fit \<^verbatim>\<open>int64\<close>, as everything the parser reads into them does.\<close>

definition int64 :: "int \<Rightarrow> bool" where
  "int64 x \<longleftrightarrow> - (2 ^ 63) \<le> x \<and> x < 2 ^ 63"

definition cursor_fits :: "verified_cursor \<Rightarrow> bool" where
  "cursor_fits c \<longleftrightarrow>
     int64 (vc_sequence c) \<and> int64 (vc_end c) \<and> length (jr_hash (vc_last c)) = 32
     \<and> int64 (jr_sequence (vc_last c)) \<and> int64 (jr_start (vc_last c)) \<and> int64 (jr_end (vc_last c))"

section \<open>Reading\<close>

lemma read_full_append: "length xs = n \<Longrightarrow> rd_data r = xs @ ys \<Longrightarrow> read_full n r = (Inr xs, r\<lparr>rd_data := ys\<rparr>)"
  by (simp add: read_full_def)

lemma read_full_Inr: "read_full n r = (Inr xs, r') \<Longrightarrow>
    rd_data r = xs @ rd_data r' \<and> length xs = n \<and> rd_broken r' = rd_broken r"
  by (auto simp: read_full_def split: if_splits)

lemma paged_reads:
  assumes "rd_data r = p @ rest" "n = position + len p"
  shows "read_payload position n r pages = Inr (paged position p pages, r\<lparr>rd_data := rest\<rparr>)"
  using assms
proof (induction position p pages arbitrary: r rule: paged.induct)
  case (1 position p pages)
  show ?case
  proof (cases "p = []")
    case True
    with 1 show ?thesis by (simp add: read_payload.simps paged.simps)
  next
    case False
    define k where "k = nat payload_page_bytes"
    have kp: "0 < payload_page_bytes" by (simp add: payload_page_bytes_def)
    have np: "n - position = len p" using 1 by simp
    have cnt: "nat (min (n - position) payload_page_bytes) = length (take k p)"
      unfolding np using kp by (auto simp: k_def len_def min_def nat_le_iff)
    have read: "read_full (length (take k p)) r = (Inr (take k p), r\<lparr>rd_data := drop k p @ rest\<rparr>)"
      by (rule read_full_append) (use 1 in simp_all)
    have pos: "position + min (n - position) payload_page_bytes = position + min (len p) payload_page_bytes"
      using 1 by simp
    have "len p = min (len p) payload_page_bytes + len (drop k p)"
      using kp by (auto simp: k_def len_def min_def nat_le_iff)
    then have rest_len: "n = position + min (len p) payload_page_bytes + len (drop k p)" using np by simp
    have "position < n" using 1 False by simp
    then have "read_payload position n r pages
      = read_payload (position + min (len p) payload_page_bytes) n (r\<lparr>rd_data := drop k p @ rest\<rparr>)
          (\<lparr>pp_start = position, pp_data = take k p\<rparr> # pages)"
      by (subst read_payload.simps) (simp add: cnt read pos Let_def del: length_take)
    also have "\<dots> = Inr (paged (position + min (len p) payload_page_bytes) (drop k p)
          (\<lparr>pp_start = position, pp_data = take k p\<rparr> # pages), r\<lparr>rd_data := rest\<rparr>)"
      using 1 (1) [OF False, of k "r\<lparr>rd_data := drop k p @ rest\<rparr>"] rest_len by (simp add: k_def)
    also have "\<dots> = Inr (paged position p pages, r\<lparr>rd_data := rest\<rparr>)"
      using False by (subst (2) paged.simps) (simp add: k_def Let_def)
    finally show ?thesis .
  qed
qed

lemma pages_bytes_Nil [simp]: "pages_bytes [] = []"
  by (simp add: pages_bytes_def)

lemma paged_bytes: "pages_bytes (paged position p pages) = pages_bytes pages @ p"
proof (induction position p pages rule: paged.induct)
  case (1 position p pages)
  show ?case
  proof (cases "p = []")
    case False
    with 1 show ?thesis by (subst paged.simps) (simp add: Let_def pages_bytes_def)
  qed (simp add: paged.simps)
qed

text \<open>A payload that is not there in full leaves the append torn, when the input merely ends.\<close>

lemma read_payload_short:
  assumes "\<not> rd_broken r" "len (rd_data r) < n - position"
  shows "read_payload position n r pages = Inl NextTorn"
  using assms
proof (induction position n r pages rule: read_payload.induct)
  case (1 position n r pages)
  have pos: "position < n" using 1(3) len_simps(4) [of "rd_data r"] by linarith
  let ?c = "min (n - position) payload_page_bytes"
  show ?case
  proof (cases "nat ?c \<le> length (rd_data r)")
    case False
    with pos 1(2) show ?thesis
      by (subst read_payload.simps) (simp add: read_full_def Let_def)
  next
    case True
    then have f: "read_full (nat ?c) r = (Inr (take (nat ?c) (rd_data r)), r\<lparr>rd_data := drop (nat ?c) (rd_data r)\<rparr>)"
      by (simp add: read_full_def)
    have c: "0 < ?c" using pos by (simp add: payload_page_bytes_def)
    have "len (drop (nat ?c) (rd_data r)) < n - (position + ?c)"
      using 1(3) True c by (simp add: len_def)
    with 1(1) [OF pos refl f [symmetric] refl] 1(2) pos f show ?thesis
      by (subst read_payload.simps) (simp add: Let_def)
  qed
qed

lemma read_payload_Inr:
  assumes "read_payload position n r pages = Inr (ps, r')" "position \<le> n"
  shows "\<exists>p. rd_data r = p @ rd_data r' \<and> len p = n - position \<and> ps = paged position p pages
    \<and> rd_broken r' = rd_broken r"
proof (cases "n - position \<le> len (rd_data r)")
  case True
  define p where "p = take (nat (n - position)) (rd_data r)"
  have "len p = n - position" using True assms(2) by (simp add: p_def len_def)
  moreover have d: "rd_data r = p @ drop (nat (n - position)) (rd_data r)" by (simp add: p_def)
  ultimately have "read_payload position n r pages = Inr (paged position p pages, r\<lparr>rd_data := drop (nat (n - position)) (rd_data r)\<rparr>)"
    using paged_reads [OF d, of n position pages] by simp
  with assms(1) d \<open>len p = n - position\<close> show ?thesis by auto
next
  case False
  have "read_payload position n r pages \<noteq> Inr (ps, r')" for pages
    using False assms(2)
  proof (induction position n r pages rule: read_payload.induct)
    case (1 position n r pages)
    let ?c = "min (n - position) payload_page_bytes"
    have pos: "position < n" using 1(2) len_simps(4) [of "rd_data r"] by linarith
    show ?case
    proof (cases "nat ?c \<le> length (rd_data r)")
      case False
      with pos show ?thesis
        by (subst read_payload.simps) (simp add: read_full_def Let_def split: read_failure.split)
    next
      case True
      then have f: "read_full (nat ?c) r = (Inr (take (nat ?c) (rd_data r)), r\<lparr>rd_data := drop (nat ?c) (rd_data r)\<rparr>)"
        by (simp add: read_full_def)
      have c: "0 < ?c" using pos by (simp add: payload_page_bytes_def)
      have "\<not> n - (position + ?c) \<le> len (drop (nat ?c) (rd_data r))"
        using 1(2) True c by (simp add: len_def)
      with 1(1) [OF pos refl f [symmetric] refl] pos f show ?thesis
        by (subst read_payload.simps) (simp add: Let_def)
    qed
  qed
  with assms(1) show ?thesis by blast
qed

section \<open>One entry\<close>

lemma uint32_field: "0 \<le> x \<Longrightarrow> x < 2 ^ 32 \<Longrightarrow> be_get (be_put 4 x) = x"
  by (simp add: be_get_put)

lemma frame_counters:
  assumes "length a = 8" "length b = 8" "length d = 8"
  shows "frame_field 2 8 (m # k # a @ b @ d @ rest) = be_get a"
    "frame_field 10 8 (m # k # a @ b @ d @ rest) = be_get b"
    "frame_field 18 8 (m # k # a @ b @ d @ rest) = be_get d"
    "drop 26 (m # k # a @ b @ d @ rest) = rest"
  using assms by (simp_all add: frame_field_def drop_Cons')

lemma frame_sizes:
  assumes "length a = 8" "length b = 8" "length d = 8" "length e = 4" "length f = 4" "length g = 4"
  shows "frame_field 26 4 (m # k # a @ b @ d @ e @ f @ g @ rest) = be_get e"
    "frame_field 30 4 (m # k # a @ b @ d @ e @ f @ g @ rest) = be_get f"
    "frame_field 34 4 (m # k # a @ b @ d @ e @ f @ g @ rest) = be_get g"
    "drop 38 (m # k # a @ b @ d @ e @ f @ g @ rest) = rest"
  using assms by (simp_all add: frame_field_def drop_Cons')

lemmas frame_layout = frame_counters frame_sizes

lemma read_full_head:
  "read_full 1 rd = (Inr m, rd1) \<longleftrightarrow> (\<exists>b. m = [b] \<and> rd_data rd = b # rd_data rd1 \<and> rd1 = rd\<lparr>rd_data := tl (rd_data rd)\<rparr>)"
  by (cases "rd_data rd") (auto simp: read_full_def)

lemma no_record_fields [simp]: "jr_geometry no_record = no_geometry" "length (jr_hash no_record) = 32"
  by (simp_all add: no_record_def)

lemma record_eqI:
  "\<lbrakk>jr_kind r = jr_kind q; jr_sequence r = jr_sequence q; jr_start r = jr_start q; jr_end r = jr_end q;
    jr_hash r = jr_hash q; jr_geometry r = jr_geometry q\<rbrakk> \<Longrightarrow> (r :: journal_record) = q"
  by simp

lemma wrap64_fits: "int64 (wrap64 x)"
proof -
  have "- (2 ^ 63) \<le> to_int64 (x mod 2 ^ 64) \<and> to_int64 (x mod 2 ^ 64) < 2 ^ 63"
    by (rule to_int64_bounds) simp_all
  then show ?thesis by (simp add: int64_def wrap64_def)
qed

lemma wrap64_id: "int64 x \<Longrightarrow> wrap64 x = x"
  by (simp add: int64_def wrap64_same)

lemma admissible_fits:
  assumes "append_admissible r n p c" "cursor_fits c"
  shows "int64 (jr_sequence r)" "int64 (jr_start r)" "int64 (jr_end r)"
    "jr_geometry r = no_geometry \<or> geometry_valid (jr_geometry r)"
  using assms wrap64_fits by (auto simp: append_admissible_def cursor_fits_def split: if_splits)

lemma small_geometry: "g = no_geometry \<or> geometry_valid g \<Longrightarrow>
    0 \<le> jg_columns g \<and> jg_columns g < 2 ^ 32 \<and> 0 \<le> jg_rows g \<and> jg_rows g < 2 ^ 32"
  by (auto simp: no_geometry_def geometry_valid_def max_journal_dimension_def)

text \<open>A legal entry is read back as what it says.\<close>

lemma next_reads_append:
  assumes "entry_legal c (Appended r p)" "cursor_fits c" "rd_data rd = encode_append r p @ rest"
  shows "cursor_next rd c = Inr (True, rd\<lparr>rd_data := rest\<rparr>, entry_apply c (Appended r p))"
proof -
  have adm: "append_admissible r (len p) p c" and small: "len p < 2 ^ 32" and h: "length (jr_hash r) = 32"
    using assms(1) by (simp_all add: entry_legal_def)
  note fits = admissible_fits [OF adm assms(2)]
  note geo = small_geometry [OF fits(4)]
  define body where "body = jr_kind r # be_put 8 (jr_sequence r) @ be_put 8 (jr_start r) @ be_put 8 (jr_end r)
     @ be_put 4 (len p) @ be_put 4 (jg_columns (jr_geometry r)) @ be_put 4 (jg_rows (jr_geometry r)) @ jr_hash r"
  have d: "rd_data rd = append_marker # body @ p @ rest"
    using assms(3) by (simp add: encode_append_def body_def)
  have lb: "length body = append_fixed - 1" using h by (simp add: body_def append_fixed_def)
  have r1: "read_full 1 rd = (Inr [append_marker], rd\<lparr>rd_data := body @ p @ rest\<rparr>)"
    using read_full_append [of "[append_marker]" 1 rd] d by simp
  have r2: "read_full (append_fixed - 1) (rd\<lparr>rd_data := body @ p @ rest\<rparr>) = (Inr body, rd\<lparr>rd_data := p @ rest\<rparr>)"
    using read_full_append [OF lb, of "rd\<lparr>rd_data := body @ p @ rest\<rparr>"] by simp
  have n: "frame_field 26 4 (append_marker # body) = len p"
    using small by (simp add: body_def frame_layout uint32_field)
  have r3: "read_payload 0 (len p) (rd\<lparr>rd_data := p @ rest\<rparr>) [] = Inr (paged 0 p [], rd\<lparr>rd_data := rest\<rparr>)"
    using paged_reads [of "rd\<lparr>rd_data := p @ rest\<rparr>" p rest "len p" 0 "[]"] by simp
  have rec: "(frame_record (append_marker # body))
      \<lparr>jr_geometry := \<lparr>jg_columns = frame_field 30 4 (append_marker # body), jg_rows = frame_field 34 4 (append_marker # body)\<rparr>,
       jr_hash := take 32 (drop 38 (append_marker # body))\<rparr> = r"
    using fits geo h
    by (intro record_eqI) (simp_all add: frame_record_def body_def frame_layout int64_field wrap64_id uint32_field)
  have app: "cursor_append (append_marker # body) (rd\<lparr>rd_data := p @ rest\<rparr>) c
      = Inr (rd\<lparr>rd_data := rest\<rparr>, entry_apply c (Appended r p))"
    unfolding cursor_append_def Let_def n rec r3 using adm by (simp add: paged_bytes entry_apply_def)
  show ?thesis
    unfolding cursor_next_def r1 using r2 app by (simp add: append_marker_def commit_marker_def)
qed

lemma next_reads_commit:
  assumes "entry_legal c Committed" "cursor_fits c" "rd_data rd = encode_commit (vc_last c) @ rest"
  shows "cursor_next rd c = Inr (False, rd\<lparr>rd_data := rest\<rparr>, entry_apply c Committed)"
proof -
  define r where "r = vc_last c"
  have h: "length (jr_hash r) = 32" and fits: "int64 (jr_sequence r)" "int64 (jr_start r)" "int64 (jr_end r)"
    using assms(2) by (simp_all add: cursor_fits_def r_def)
  define body where "body = jr_kind r # be_put 8 (jr_sequence r) @ be_put 8 (jr_start r) @ be_put 8 (jr_end r) @ jr_hash r"
  have d: "rd_data rd = commit_marker # body @ rest"
    using assms(3) by (simp add: encode_commit_def body_def r_def)
  have lb: "length body = commit_fixed - 1" using h by (simp add: body_def commit_fixed_def)
  have r1: "read_full 1 rd = (Inr [commit_marker], rd\<lparr>rd_data := body @ rest\<rparr>)"
    using read_full_append [of "[commit_marker]" 1 rd] d by simp
  have r2: "read_full (commit_fixed - 1) (rd\<lparr>rd_data := body @ rest\<rparr>) = (Inr body, rd\<lparr>rd_data := rest\<rparr>)"
    using read_full_append [OF lb, of "rd\<lparr>rd_data := body @ rest\<rparr>"] by simp
  have "cursor_commit (commit_marker # body) c = Inr (entry_apply c Committed)"
    using assms(1) h fits
    by (simp add: cursor_commit_def frame_record_def body_def frame_layout int64_field wrap64_id entry_legal_def
        entry_apply_def r_def [symmetric] Let_def)
  then show ?thesis
    unfolding cursor_next_def r1 using r2 by (simp add: append_marker_def commit_marker_def)
qed

lemma next_reads:
  assumes "entry_legal c en" "cursor_fits c" "rd_data rd = entry_bytes c en @ rest"
  shows "cursor_next rd c = Inr (is_append en, rd\<lparr>rd_data := rest\<rparr>, entry_apply c en)"
  using assms next_reads_append next_reads_commit
  by (cases en) (simp_all add: entry_bytes_def is_append_def)

text \<open>And whatever a step accepts is the encoding of a legal entry.\<close>

lemma split_at:
  assumes "length xs = n + m"
  obtains a b where "xs = a @ b" "length a = n" "length b = m"
  by (rule that [of "take n xs" "drop n xs"]) (use assms in simp_all)

lemma split_counters:
  assumes "length body = 25 + n"
  obtains k a b d t where "body = k # a @ b @ d @ t" "length a = 8" "length b = 8" "length d = 8" "length t = n"
proof -
  from assms obtain k t where t: "body = k # t" "length t = 8 + (8 + (8 + n))" by (cases body) simp_all
  from split_at [OF t(2)] obtain a t1 where 1: "t = a @ t1" "length a = 8" "length t1 = 8 + (8 + n)" by blast
  from split_at [OF 1(3)] obtain b t2 where 2: "t1 = b @ t2" "length b = 8" "length t2 = 8 + n" by blast
  from split_at [OF 2(3)] obtain d t3 where 3: "t2 = d @ t3" "length d = 8" "length t3 = n" by blast
  from t 1 2 3 show thesis by (intro that [of k a b d t3]) simp_all
qed

lemma split_sizes:
  assumes "length t = 12 + n"
  obtains e f g h where "t = e @ f @ g @ h" "length e = 4" "length f = 4" "length g = 4" "length h = n"
proof -
  from assms have "length t = 4 + (4 + (4 + n))" by simp
  from split_at [OF this] obtain e t1 where 1: "t = e @ t1" "length e = 4" "length t1 = 4 + (4 + n)" by blast
  from split_at [OF 1(3)] obtain f t2 where 2: "t1 = f @ t2" "length f = 4" "length t2 = 4 + n" by blast
  from split_at [OF 2(3)] obtain g h where 3: "t2 = g @ h" "length g = 4" "length h = n" by blast
  from 1 2 3 show thesis by (intro that [of e f g h]) simp_all
qed

lemma be_put_uint32: "length bs = 4 \<Longrightarrow> be_put 4 (be_get bs) = bs"
  using be_put_get [of bs] by simp

lemma commit_accepts:
  assumes "cursor_commit (commit_marker # body) c = Inr c'" "length body = commit_fixed - 1" "cursor_fits c"
  shows "entry_legal c Committed \<and> c' = entry_apply c Committed \<and> commit_marker # body = encode_commit (vc_last c)"
proof -
  from assms(2) have "length body = 25 + 32" by (simp add: commit_fixed_def)
  from split_counters [OF this] obtain k a b d h where
    body: "body = k # a @ b @ d @ h" "length a = 8" "length b = 8" "length d = 8" "length h = 32" .
  have eq: "jr_kind (vc_last c) = k" "jr_sequence (vc_last c) = to_int64 (be_get a)"
    "jr_start (vc_last c) = to_int64 (be_get b)" "jr_end (vc_last c) = to_int64 (be_get d)" "jr_hash (vc_last c) = h"
    "jr_end (vc_last c) \<le> vc_end c" "vc_committed_sequence c < jr_sequence (vc_last c)"
    and c': "c' = entry_apply c Committed"
    using assms(1) body
    by (auto simp: cursor_commit_def frame_record_def frame_layout Let_def entry_apply_def split: if_splits)
  from eq body have "commit_marker # body = encode_commit (vc_last c)"
    by (simp add: encode_commit_def be_put_int64)
  with eq c' show ?thesis by (simp add: entry_legal_def)
qed

lemma append_accepts:
  assumes "cursor_append (append_marker # body) rd c = Inr (rd', c')" "length body = append_fixed - 1"
  shows "\<exists>r p. entry_legal c (Appended r p) \<and> c' = entry_apply c (Appended r p) \<and> rd_broken rd' = rd_broken rd
    \<and> append_marker # body @ rd_data rd = encode_append r p @ rd_data rd'"
proof -
  from assms(2) have "length body = 25 + 44" by (simp add: append_fixed_def)
  from split_counters [OF this] obtain k a b d t where
    body: "body = k # a @ b @ d @ t" "length a = 8" "length b = 8" "length d = 8" "length t = 44" .
  from body(5) have "length t = 12 + 32" by simp
  from split_sizes [OF this] obtain e f g h where
    t: "t = e @ f @ g @ h" "length e = 4" "length f = 4" "length g = 4" "length h = 32" .
  define r where "r = \<lparr>jr_kind = k, jr_sequence = to_int64 (be_get a), jr_start = to_int64 (be_get b),
    jr_end = to_int64 (be_get d), jr_hash = h, jr_geometry = \<lparr>jg_columns = be_get f, jg_rows = be_get g\<rparr>\<rparr>"
  have rec: "(frame_record (append_marker # body))
      \<lparr>jr_geometry := \<lparr>jg_columns = frame_field 30 4 (append_marker # body), jg_rows = frame_field 34 4 (append_marker # body)\<rparr>,
       jr_hash := take 32 (drop 38 (append_marker # body))\<rparr> = r"
    using body t by (simp add: frame_record_def frame_layout r_def no_record_def)
  have n: "frame_field 26 4 (append_marker # body) = be_get e" using body t by (simp add: frame_layout)
  obtain pages where rp: "read_payload 0 (be_get e) rd [] = Inr (pages, rd')"
    and adm: "append_admissible r (be_get e) (pages_bytes pages) c" and c': "c' = append_record r (be_get e) pages c"
    using assms(1) unfolding cursor_append_def Let_def n rec by (auto split: sum.splits if_splits)
  from read_payload_Inr [OF rp be_get_nonneg] obtain p where
    p: "rd_data rd = p @ rd_data rd'" "len p = be_get e" "pages = paged 0 p []" "rd_broken rd' = rd_broken rd" by auto
  have small: "len p < 2 ^ 32" using be_get_less [of e] t p by simp
  have "append_marker # body @ rd_data rd = encode_append r p @ rd_data rd'"
    using body t p by (simp add: encode_append_def r_def be_put_int64 be_put_uint32)
  moreover have "entry_legal c (Appended r p)" using adm small t p by (simp add: entry_legal_def r_def paged_bytes)
  moreover have "c' = entry_apply c (Appended r p)" using c' p by (simp add: entry_apply_def)
  ultimately show ?thesis using p(4) by blast
qed

lemma next_accepts:
  assumes "cursor_next rd c = Inr (a, rd', c')" "cursor_fits c"
  shows "\<exists>en. entry_legal c en \<and> a = is_append en \<and> c' = entry_apply c en
    \<and> rd_data rd = entry_bytes c en @ rd_data rd' \<and> rd_broken rd' = rd_broken rd"
proof -
  obtain m rd1 where r1: "read_full 1 rd = (Inr [m], rd1)" and m: "m = append_marker \<or> m = commit_marker"
    using assms(1) by (auto simp: cursor_next_def read_full_head split: prod.splits sum.splits if_splits)
  note h = r1 [unfolded read_full_head]
  obtain body rd2 where r2: "read_full ((if m = append_marker then append_fixed else commit_fixed) - 1) rd1 = (Inr body, rd2)"
    using assms(1) r1 m by (auto simp: cursor_next_def split: prod.splits sum.splits if_splits)
  note b = read_full_Inr [OF r2]
  have ne: "append_marker \<noteq> commit_marker" by (simp add: append_marker_def commit_marker_def)
  show ?thesis
  proof (cases "m = append_marker")
    case True
    with assms(1) r1 r2 ne have "cursor_append (append_marker # body) rd2 c = Inr (rd', c')" and a: a
      by (auto simp: cursor_next_def split: sum.splits)
    from append_accepts [OF this(1)] b True obtain r p where
      "entry_legal c (Appended r p)" "c' = entry_apply c (Appended r p)" "rd_broken rd' = rd_broken rd2"
      "append_marker # body @ rd_data rd2 = encode_append r p @ rd_data rd'" by auto
    with a b h True show ?thesis by (intro exI [of _ "Appended r p"]) (auto simp: entry_bytes_def is_append_def)
  next
    case False
    with m have mc: "m = commit_marker" by simp
    with assms(1) r1 r2 ne have "cursor_commit (commit_marker # body) c = Inr c'" and a: "\<not> a" "rd' = rd2"
      by (auto simp: cursor_next_def split: sum.splits)
    from commit_accepts [OF this(1) _ assms(2)] b mc ne have
      "entry_legal c Committed" "c' = entry_apply c Committed" "commit_marker # body = encode_commit (vc_last c)" by auto
    with a b h mc show ?thesis by (intro exI [of _ Committed]) (auto simp: entry_bytes_def is_append_def)
  qed
qed

text \<open>An entry cut short: an append is torn, anything else is corrupt.\<close>

lemma next_cut_append:
  assumes "entry_legal c (Appended r p)" "cursor_fits c" "encode_append r p = xs @ ys" "xs \<noteq> []" "ys \<noteq> []"
    and "rd_data rd = xs" "\<not> rd_broken rd"
  shows "cursor_next rd c = Inl NextTorn"
proof -
  have hl: "length (jr_hash r) = 32" and small: "len p < 2 ^ 32" using assms(1) by (simp_all add: entry_legal_def)
  define head where "head = [append_marker, jr_kind r] @ be_put 8 (jr_sequence r) @ be_put 8 (jr_start r)
    @ be_put 8 (jr_end r) @ be_put 4 (len p) @ be_put 4 (jg_columns (jr_geometry r))
    @ be_put 4 (jg_rows (jr_geometry r)) @ jr_hash r"
  have e: "encode_append r p = head @ p" by (simp add: encode_append_def head_def)
  have lh: "length head = append_fixed" using hl by (simp add: head_def append_fixed_def)
  obtain xt where xt: "xs = append_marker # xt" using assms(3,4) by (cases xs) (auto simp: e head_def)
  have r1: "read_full 1 rd = (Inr [append_marker], rd\<lparr>rd_data := xt\<rparr>)"
    using read_full_append [of "[append_marker]" 1 rd xt] assms(6) xt by simp
  show ?thesis
  proof (cases "length xt < append_fixed - 1")
    case True
    then have "read_full (append_fixed - 1) (rd\<lparr>rd_data := xt\<rparr>)
        = (Inl (if xt = [] then ReadEOF else ReadUnexpectedEOF), rd\<lparr>rd_data := []\<rparr>)"
      using assms(7) by (simp add: read_full_def)
    then show ?thesis unfolding cursor_next_def r1 by simp
  next
    case False
    then have lx: "append_fixed \<le> length xs" using xt by (simp add: append_fixed_def)
    have hx: "take append_fixed xs = head" using assms(3) lx lh unfolding e
      by (metis append_eq_conv_conj take_append take_all_iff append_take_drop_id le_refl diff_is_0_eq' take_0 append_Nil2)
    define q where "q = drop append_fixed xs"
    have px: "xs = head @ q" using hx by (simp add: q_def) (metis append_take_drop_id)
    have pq: "p = q @ ys" using assms(3) px by (simp add: e)
    obtain body where bd: "head = append_marker # body" by (simp add: head_def)
    have lb: "length body = append_fixed - 1" using lh bd by simp
    have xtb: "xt = body @ q" using xt px bd by simp
    have r2: "read_full (append_fixed - 1) (rd\<lparr>rd_data := xt\<rparr>) = (Inr body, rd\<lparr>rd_data := q\<rparr>)"
      using read_full_append [OF lb, of "rd\<lparr>rd_data := xt\<rparr>"] xtb by simp
    have n: "frame_field 26 4 (append_marker # body) = len p"
      using small unfolding bd [symmetric] by (simp add: head_def frame_layout uint32_field)
    have "read_payload 0 (len p) (rd\<lparr>rd_data := q\<rparr>) [] = Inl NextTorn"
      by (rule read_payload_short) (use assms(5,7) pq in simp_all)
    then have "cursor_append (append_marker # body) (rd\<lparr>rd_data := q\<rparr>) c = Inl NextTorn"
      by (simp add: cursor_append_def n Let_def)
    then show ?thesis unfolding cursor_next_def r1 using r2 by (simp add: append_marker_def commit_marker_def)
  qed
qed

lemma next_cut_commit:
  assumes "cursor_fits c" "encode_commit (vc_last c) = xs @ ys" "xs \<noteq> []" "ys \<noteq> []" "rd_data rd = xs"
  shows "cursor_next rd c = Inl NextCorrupt"
proof -
  have ne: "append_marker \<noteq> commit_marker" by (simp add: append_marker_def commit_marker_def)
  obtain xt where xt: "xs = commit_marker # xt" using assms(2,3) by (cases xs) (auto simp: encode_commit_def)
  have "length (encode_commit (vc_last c)) = commit_fixed" using assms(1) by (simp add: cursor_fits_def)
  then have l: "length xt < commit_fixed - 1" using assms(2,4) xt by (cases ys) auto
  have r1: "read_full 1 rd = (Inr [commit_marker], rd\<lparr>rd_data := xt\<rparr>)"
    using read_full_append [of "[commit_marker]" 1 rd xt] assms(5) xt by simp
  show ?thesis unfolding cursor_next_def r1 using l ne by (simp add: read_full_def)
qed

lemma apply_fits: "entry_legal c en \<Longrightarrow> cursor_fits c \<Longrightarrow> cursor_fits (entry_apply c en)"
  using admissible_fits [of _ _ _ c]
  by (cases en) (fastforce simp: entry_legal_def entry_apply_def append_record_def cursor_fits_def)+

lemma entry_bytes_ne: "entry_bytes c en \<noteq> []"
  by (cases en) (simp_all add: entry_bytes_def encode_append_def encode_commit_def)

lemma entry_length: "entry_legal c en \<Longrightarrow> cursor_fits c \<Longrightarrow>
    int (length (entry_bytes c en)) = vc_physical (entry_apply c en) - vc_physical c"
  by (cases en) (simp_all add: entry_legal_def entry_bytes_def entry_apply_def append_record_def cursor_fits_def len_def)

end
