(* ===== verification/Journal_Recovery.thy ===== *)
theory Journal_Recovery
  imports Journal_Parse "HOL-Library.Sublist"
begin

text \<open>
  Recovery of a pane's journal after a restart (\<open>decodeHeader\<close> and \<open>acceptHeader\<close> of
  \<^verbatim>\<open>verified.go\<close>, \<open>parseJournal\<close> and \<open>openExisting\<close> of \<^verbatim>\<open>journal.go\<close>), with the state
  a pane's journal has in memory. \<^verbatim>\<open>json.Unmarshal\<close> is the parameter \<open>unmarshal\<close>: the header
  it reads from the bytes, or nothing.

  The theorems: a journal cut at any byte is recovered up to the last complete record, or refused as
  corrupt when the cut is in the header or in a commit frame; and whatever is recovered
  without an error is a header followed by legal records and at most one torn append.
\<close>

section \<open>A pane's journal\<close>

datatype eligibility_state = EligibilityLegacy | EligibilityContinuous | EligibilityUntrusted

datatype invalidation_reason =
    ReasonNone | ReasonControlPaused | ReasonControlDisconnected | ReasonDecoderAmbiguous
  | ReasonSourceReplacement | ReasonQuota | ReasonENOSPC | ReasonCorruptJournal | ReasonVolatileRestart
  | ReasonJournalGap | ReasonAdoptionAborted | ReasonPhysicalQuota

text \<open>
  The pending records are the list of the code's queue, oldest first; \<open>pj_file\<close> is whether the file
  handle is there; the origin is absent until a header was accepted.
\<close>

record pane_journal =
  pj_key :: pane_key
  pj_stream :: string
  pj_file :: bool
  pj_end :: int
  pj_committed :: int
  pj_verified :: verified_cursor
  pj_projection_released :: bool
  pj_header_hash :: bytes
  pj_header_size :: int
  pj_pending :: "journal_record list"
  pj_last :: journal_record
  pj_sequence :: int
  pj_committed_sequence :: int
  pj_initial :: journal_geometry
  pj_recovery_final :: journal_geometry
  pj_admitted :: bool
  pj_origin :: "generation_origin option"
  pj_stored :: int
  pj_geometry_charge :: int
  pj_realm_charge :: int
  pj_slot_retired :: bool
  pj_failed_owner_settled :: bool
  pj_state :: eligibility_state
  pj_reason :: invalidation_reason
  pj_corrupt :: bool
  pj_physical :: int
  pj_physical_reserved :: int
  pj_reserved_charge :: int
  pj_adoption_logical :: int
  pj_adoption_physical :: int
  pj_rollback_logical :: int
  pj_rollback_physical :: int
  pj_rollback_records :: int
  pj_rollback_reserved :: bool
  pj_rollback_armed :: bool
  pj_forward_logical :: int
  pj_forward_physical :: int
  pj_forward_records :: int
  pj_capacity_held :: bool

definition no_key :: pane_key where
  "no_key = \<lparr>pk_server = [], pk_session = [], pk_control_generation = 0, pk_window = [], pk_pane = [],
     pk_incarnation = []\<rparr>"

definition no_pane :: pane_journal where
  "no_pane = \<lparr>pj_key = no_key, pj_stream = [], pj_file = False, pj_end = 0, pj_committed = 0,
     pj_verified = no_cursor, pj_projection_released = False, pj_header_hash = replicate 32 NUL,
     pj_header_size = 0, pj_pending = [], pj_last = no_record, pj_sequence = 0, pj_committed_sequence = 0,
     pj_initial = no_geometry, pj_recovery_final = no_geometry, pj_admitted = False, pj_origin = None,
     pj_stored = 0, pj_geometry_charge = 0, pj_realm_charge = 0, pj_slot_retired = False,
     pj_failed_owner_settled = False, pj_state = EligibilityLegacy, pj_reason = ReasonNone,
     pj_corrupt = False, pj_physical = 0, pj_physical_reserved = 0, pj_reserved_charge = 0,
     pj_adoption_logical = 0, pj_adoption_physical = 0, pj_rollback_logical = 0, pj_rollback_physical = 0,
     pj_rollback_records = 0, pj_rollback_reserved = False, pj_rollback_armed = False,
     pj_forward_logical = 0, pj_forward_physical = 0, pj_forward_records = 0, pj_capacity_held = False\<rparr>"

section \<open>The header\<close>

text \<open>The header, its size and its digest, and the rest of the input.\<close>

definition decode_header ::
    "(bytes \<Rightarrow> journal_header option) \<Rightarrow> reader \<Rightarrow> (journal_header \<times> int \<times> bytes \<times> reader) option" where
  "decode_header unmarshal rd =
     (case read_full 8 rd of
        (Inl _, _) \<Rightarrow> None
      | (Inr pre, rd1) \<Rightarrow>
          let n = be_get (drop 4 pre)
          in if take 4 pre \<noteq> journal_magic \<or> n \<le> 0 \<or> n > header_limit then None
             else case read_full (nat n) rd1 of
               (Inl _, _) \<Rightarrow> None
             | (Inr body, rd2) \<Rightarrow>
                 (case unmarshal body of
                    None \<Rightarrow> None
                  | Some h \<Rightarrow> if jh_version h \<noteq> journal_version then None
                             else Some (h, 8 + n, sha256 (pre @ body), rd2)))"

definition header_origin :: "string \<Rightarrow> generation_origin option" where
  "header_origin s =
     (if s = [] \<or> s = ''birth'' then Some OriginBirth
      else if s = ''reconstructed'' then Some OriginReconstructed
      else if s = ''rotated'' then Some OriginRotated else None)"

text \<open>\<open>acceptHeader\<close>: whether the header is acceptable, and the pane as far as it was filled in.\<close>

definition accept_header :: "pane_journal \<Rightarrow> journal_header \<Rightarrow> bool \<times> pane_journal" where
  "accept_header p h =
     (let p1 = p\<lparr>pj_key := jh_key h\<rparr>
      in case header_origin (jh_origin h) of
           None \<Rightarrow> (False, p1)
         | Some origin \<Rightarrow>
             let p2 = p1\<lparr>pj_origin := Some origin\<rparr>
             in case jh_initial h of
                  None \<Rightarrow> (True, p2)
                | Some g \<Rightarrow> if geometry_valid g then (True, p2\<lparr>pj_initial := g, pj_admitted := True\<rparr>)
                           else (False, p2))"

section \<open>The records\<close>

lemma read_full_shrinks: "read_full n r = (Inr xs, r') \<Longrightarrow> length (rd_data r) = n + length (rd_data r')"
  using read_full_Inr [of n r xs r'] by simp

lemma cursor_append_shrinks: "cursor_append frame r c = Inr (r', c') \<Longrightarrow> length (rd_data r') \<le> length (rd_data r)"
proof -
  assume a: "cursor_append frame r c = Inr (r', c')"
  then obtain ps where "read_payload 0 (frame_field 26 4 frame) r [] = Inr (ps, r')"
    by (auto simp: cursor_append_def Let_def split: sum.splits if_splits)
  from read_payload_Inr [OF this] show ?thesis by (auto simp: frame_field_def be_get_nonneg)
qed

lemma next_consumes: "cursor_next rd c = Inr (a, rd', c') \<Longrightarrow> length (rd_data rd') < length (rd_data rd)"
  unfolding cursor_next_def
  by (auto split: prod.splits sum.splits if_splits dest!: read_full_shrinks dest: cursor_append_shrinks)

function parse_frames :: "reader \<Rightarrow> verified_cursor \<Rightarrow> journal_error option \<times> verified_cursor" where
  "parse_frames rd c =
     (if rd_data rd = [] then (None, c)
      else case cursor_next rd c of
        Inl NextTorn \<Rightarrow> (None, c)
      | Inl _ \<Rightarrow> (Some ErrCorruptJournal, c)
      | Inr (_, rd', c') \<Rightarrow> parse_frames rd' c')"
  by pat_completeness auto

termination by (relation "measure (\<lambda>(rd, _). length (rd_data rd))") (auto dest: next_consumes)

declare parse_frames.simps [simp del]

text \<open>The newest geometry of a projection, or the initial one.\<close>

definition final_geometry :: "journal_geometry \<Rightarrow> event_page list \<Rightarrow> journal_geometry" where
  "final_geometry initial view =
     (case find (\<lambda>p. je_kind (vp_event p) = record_geometry) view of
        None \<Rightarrow> initial | Some p \<Rightarrow> je_geometry (vp_event p))"

text \<open>
  \<open>parseJournal\<close>. The sequence and the committed counters follow the cursor even into an error; the
  end and the projection are published only without one.
\<close>

definition parse_journal ::
    "(bytes \<Rightarrow> journal_header option) \<Rightarrow> bytes \<Rightarrow> pane_journal \<times> journal_error option" where
  "parse_journal unmarshal contents =
     (case decode_header unmarshal \<lparr>rd_data = contents, rd_broken = False\<rparr> of
        None \<Rightarrow> (no_pane, Some ErrCorruptJournal)
      | Some (h, n, digest, rd) \<Rightarrow>
          (case accept_header no_pane h of
             (False, p) \<Rightarrow> (p, Some ErrCorruptJournal)
           | (True, p) \<Rightarrow>
               (case parse_frames rd (no_cursor\<lparr>vc_physical := n\<rparr>) of
                  (err, c) \<Rightarrow>
                    let p1 = p\<lparr>pj_header_size := n, pj_header_hash := digest,
                               pj_recovery_final := final_geometry (pj_initial p) (vc_view c),
                               pj_geometry_charge := vc_geometry_charge c, pj_sequence := vc_sequence c,
                               pj_stored := vc_physical c,
                               pj_committed := vc_committed c, pj_committed_sequence := vc_committed_sequence c\<rparr>
                    in case err of
                         Some e \<Rightarrow> (p1, Some e)
                       | None \<Rightarrow> (p1\<lparr>pj_end := vc_end c, pj_stored := vc_physical c,
                                     pj_verified := c\<lparr>vc_tail := vc_view c\<rparr>\<rparr>, None))))"

text \<open>\<open>openExisting\<close>, once the file was read: what a reopened generation is trusted with.\<close>

definition fail_closed :: "pane_journal \<Rightarrow> pane_journal" where
  "fail_closed p = p\<lparr>pj_state := EligibilityUntrusted, pj_reason := ReasonCorruptJournal, pj_corrupt := True,
     pj_verified := no_cursor, pj_committed := 0, pj_committed_sequence := 0\<rparr>"

definition open_existing :: "(bytes \<Rightarrow> journal_header option) \<Rightarrow> bytes \<Rightarrow> pane_journal" where
  "open_existing unmarshal contents =
     (case parse_journal unmarshal contents of
        (p, err) \<Rightarrow>
          let p1 = p\<lparr>pj_file := True, pj_physical := len contents\<rparr>
          in if err \<noteq> None \<or> \<not> pj_admitted p then fail_closed p1
             else p1\<lparr>pj_state := EligibilityLegacy, pj_reason := ReasonVolatileRestart\<rparr>)"

section \<open>Whole journals\<close>

fun entries_bytes :: "verified_cursor \<Rightarrow> journal_entry list \<Rightarrow> bytes" where
  "entries_bytes c [] = []"
| "entries_bytes c (en # es) = entry_bytes c en @ entries_bytes (entry_apply c en) es"

fun entries_legal :: "verified_cursor \<Rightarrow> journal_entry list \<Rightarrow> bool" where
  "entries_legal c [] \<longleftrightarrow> True"
| "entries_legal c (en # es) \<longleftrightarrow> entry_legal c en \<and> entries_legal (entry_apply c en) es"

text \<open>How many of the entries are there in full in the first \<open>n\<close> bytes.\<close>

fun complete_entries :: "verified_cursor \<Rightarrow> journal_entry list \<Rightarrow> nat \<Rightarrow> nat" where
  "complete_entries c [] n = 0"
| "complete_entries c (en # es) n =
     (if length (entry_bytes c en) \<le> n
      then Suc (complete_entries (entry_apply c en) es (n - length (entry_bytes c en))) else 0)"

text \<open>The first \<open>n\<close> bytes end inside a commit frame.\<close>

definition cuts_commit :: "verified_cursor \<Rightarrow> journal_entry list \<Rightarrow> nat \<Rightarrow> bool" where
  "cuts_commit c es n \<longleftrightarrow>
     (let k = complete_entries c es n
      in k < length es \<and> es ! k = Committed \<and> length (entries_bytes c (take k es)) < n)"

definition at_start :: "int \<Rightarrow> verified_cursor" where
  "at_start n = no_cursor\<lparr>vc_physical := n\<rparr>"

lemma at_start_fits [simp]: "cursor_fits (at_start n)"
  by (simp add: at_start_def cursor_fits_def no_cursor_def no_record_def int64_def)

lemma entries_bytes_append: "entries_bytes c (es @ fs) = entries_bytes c es @ entries_bytes (foldl entry_apply c es) fs"
  by (induction es arbitrary: c) simp_all

lemma entries_legal_append:
  "entries_legal c (es @ fs) \<longleftrightarrow> entries_legal c es \<and> entries_legal (foldl entry_apply c es) fs"
  by (induction es arbitrary: c) simp_all

lemma entries_fit: "entries_legal c es \<Longrightarrow> cursor_fits c \<Longrightarrow> cursor_fits (foldl entry_apply c es)"
  by (induction es arbitrary: c) (simp_all add: apply_fits)

lemma complete_entries_le: "complete_entries c es n \<le> length es"
  by (induction c es n rule: complete_entries.induct) simp_all

lemma complete_bytes_le: "length (entries_bytes c (take (complete_entries c es n) es)) \<le> n"
  by (induction c es n rule: complete_entries.induct) auto

text \<open>Parsing a journal cut at any byte.\<close>

lemma parse_cut:
  assumes "entries_legal c es" "cursor_fits c" "rd_data rd = take n (entries_bytes c es)" "\<not> rd_broken rd"
  shows "parse_frames rd c
    = (if cuts_commit c es n then Some ErrCorruptJournal else None, foldl entry_apply c (take (complete_entries c es n) es))"
  using assms
proof (induction c es n arbitrary: rd rule: complete_entries.induct)
  case (1 c n)
  then show ?case by (simp add: parse_frames.simps cuts_commit_def)
next
  case (2 c en es n)
  let ?b = "entry_bytes c en"
  have l: "entry_legal c en" "entries_legal (entry_apply c en) es" using 2(2) by simp_all
  show ?case
  proof (cases "length ?b \<le> n")
    case True
    have d: "rd_data rd = ?b @ take (n - length ?b) (entries_bytes (entry_apply c en) es)" using 2(4) True by simp
    have ne: "rd_data rd \<noteq> []" using d entry_bytes_ne [of c en] by simp
    let ?rd = "rd\<lparr>rd_data := take (n - length ?b) (entries_bytes (entry_apply c en) es)\<rparr>"
    have "cuts_commit c (en # es) n = cuts_commit (entry_apply c en) es (n - length ?b)"
      using True by (auto simp: cuts_commit_def Let_def)
    with 2(1) [OF True l(2) apply_fits [OF l(1) 2(3)], of ?rd] 2(5) True ne next_reads [OF l(1) 2(3) d]
    show ?thesis by (subst parse_frames.simps) simp
  next
    case False
    then have d: "rd_data rd = take n ?b" using 2(4) by simp
    show ?thesis
    proof (cases "n = 0")
      case True
      with d show ?thesis using False by (simp add: parse_frames.simps cuts_commit_def)
    next
      case n: False
      have ne: "take n ?b \<noteq> []" "drop n ?b \<noteq> []" using False n entry_bytes_ne [of c en] by simp_all
      have b: "?b = take n ?b @ drop n ?b" by simp
      show ?thesis
      proof (cases en)
        case (Appended r p)
        have "cursor_next rd c = Inl NextTorn"
          by (rule next_cut_append [OF _ 2(3) _ ne d 2(5)]) (use l(1) Appended b in \<open>simp_all add: entry_bytes_def\<close>)
        with ne(1) d False Appended show ?thesis by (subst parse_frames.simps) (simp add: cuts_commit_def)
      next
        case Committed
        have "cursor_next rd c = Inl NextCorrupt"
          by (rule next_cut_commit [OF 2(3) _ ne d]) (use Committed b in \<open>simp_all add: entry_bytes_def\<close>)
        with ne(1) d False Committed n show ?thesis by (subst parse_frames.simps) (simp add: cuts_commit_def)
      qed
    qed
  qed
qed

text \<open>Whatever is parsed without an error is made of legal entries and at most one torn append.\<close>

lemma parse_accepts:
  assumes "parse_frames rd c = (None, c')" "cursor_fits c"
  shows "\<exists>es tail. rd_data rd = entries_bytes c es @ tail \<and> entries_legal c es \<and> c' = foldl entry_apply c es
    \<and> (tail = [] \<or> cursor_next (rd\<lparr>rd_data := tail\<rparr>) c' = Inl NextTorn)"
  using assms
proof (induction rd c rule: parse_frames.induct)
  case (1 rd c)
  show ?case
  proof (cases "rd_data rd = []")
    case True
    with 1(2) have "c' = c" by (simp add: parse_frames.simps)
    with True show ?thesis by (intro exI [of _ "[]"]) simp
  next
    case False
    show ?thesis
    proof (cases "cursor_next rd c")
      case (Inl err)
      with 1(2) False have "err = NextTorn" "c' = c"
        by (simp_all add: parse_frames.simps split: next_error.splits)
      with Inl show ?thesis by (intro exI [of _ "[]"] exI [of _ "rd_data rd"]) simp
    next
      case (Inr x)
      then obtain a rd' c1 where n: "cursor_next rd c = Inr (a, rd', c1)" by (cases x) auto
      from next_accepts [OF n 1(3)] obtain en where
        en: "entry_legal c en" "c1 = entry_apply c en" "rd_data rd = entry_bytes c en @ rd_data rd'" "rd_broken rd' = rd_broken rd" by blast
      have "parse_frames rd' c1 = (None, c')" using 1(2) False n by (simp add: parse_frames.simps)
      from 1(1) [OF False n refl refl this] apply_fits [OF en(1) 1(3)] en obtain es tail where
        t: "rd_data rd' = entries_bytes c1 es @ tail" "entries_legal c1 es" "c' = foldl entry_apply c1 es"
        "tail = [] \<or> cursor_next (rd'\<lparr>rd_data := tail\<rparr>) c' = Inl NextTorn" by auto
      have "rd'\<lparr>rd_data := tail\<rparr> = rd\<lparr>rd_data := tail\<rparr>" using en(4) by simp
      with en t show ?thesis by (intro exI [of _ "en # es"] exI [of _ tail]) auto
    qed
  qed
qed

section \<open>Headers\<close>

lemma marshal_header_ne: "marshal_header h \<noteq> []"
  by (simp add: marshal_header_def)

lemma encode_headerD:
  assumes "encode_header h = Inr hb"
  shows "hb = journal_magic @ be_put 4 (len (marshal_header h)) @ marshal_header h"
    "0 < len (marshal_header h)" "len (marshal_header h) \<le> header_limit" "length hb = 8 + length (marshal_header h)"
proof -
  show b: "hb = journal_magic @ be_put 4 (len (marshal_header h)) @ marshal_header h"
    and "len (marshal_header h) \<le> header_limit"
    using assms by (auto simp: encode_header_def Let_def split: if_splits)
  show "0 < len (marshal_header h)" by (simp add: marshal_header_ne)
  show "length hb = 8 + length (marshal_header h)" by (simp add: b journal_magic_def)
qed

lemma decode_header_reads:
  assumes "encode_header h = Inr hb" "unmarshal (marshal_header h) = Some h" "jh_version h = journal_version"
    and "rd_data rd = hb @ rest"
  shows "decode_header unmarshal rd = Some (h, len hb, sha256 hb, rd\<lparr>rd_data := rest\<rparr>)"
proof -
  define m where "m = marshal_header h"
  note e = encode_headerD [OF assms(1), folded m_def]
  have lm: "len m < 2 ^ 32" using e(3) by (simp add: header_limit_def)
  define pre where "pre = journal_magic @ be_put 4 (len m)"
  have hb: "hb = pre @ m" using e(1) by (simp add: pre_def)
  have lp: "length pre = 8" by (simp add: pre_def journal_magic_def)
  have r1: "read_full 8 rd = (Inr pre, rd\<lparr>rd_data := m @ rest\<rparr>)"
    by (rule read_full_append [OF lp]) (use assms(4) hb in simp)
  have r2: "read_full (nat (len m)) (rd\<lparr>rd_data := m @ rest\<rparr>) = (Inr m, rd\<lparr>rd_data := rest\<rparr>)"
    using read_full_append [of m "nat (len m)" "rd\<lparr>rd_data := m @ rest\<rparr>" rest] by (simp add: len_def)
  have f: "take 4 pre = journal_magic" "be_get (drop 4 pre) = len m"
    using lm uint32_field [of "len m"] by (simp_all add: pre_def journal_magic_def)
  show ?thesis
    unfolding decode_header_def r1 using e(2,3) f r2 assms(2,3) lp hb by (simp add: Let_def m_def [symmetric] len_def)
qed

lemma decode_header_short:
  assumes "encode_header h = Inr hb" "rd_data rd = take n hb" "n < length hb"
  shows "decode_header unmarshal rd = None"
proof -
  define m where "m = marshal_header h"
  note e = encode_headerD [OF assms(1), folded m_def]
  have lm: "len m < 2 ^ 32" using e(3) by (simp add: header_limit_def)
  define pre where "pre = journal_magic @ be_put 4 (len m)"
  have hb: "hb = pre @ m" using e(1) by (simp add: pre_def)
  have lp: "length pre = 8" by (simp add: pre_def journal_magic_def)
  have f: "be_get (drop 4 pre) = len m" using lm uint32_field [of "len m"] by (simp add: pre_def journal_magic_def)
  show ?thesis
  proof (cases "n < 8")
    case True
    with assms(2) hb lp show ?thesis by (simp add: decode_header_def read_full_def)
  next
    case False
    have r1: "read_full 8 rd = (Inr pre, rd\<lparr>rd_data := take (n - 8) m\<rparr>)"
      by (rule read_full_append [OF lp]) (use assms(2) hb lp False in simp)
    have "\<not> nat (len m) \<le> n - 8" using assms(3) hb lp False by (simp add: len_def)
    then have "read_full (nat (len m)) (rd\<lparr>rd_data := take (n - 8) m\<rparr>)
        = (Inl (if rd_broken rd then ReadFailed else if take (n - 8) m = [] then ReadEOF else ReadUnexpectedEOF), rd\<lparr>rd_data := []\<rparr>)"
      by (simp add: read_full_def len_def)
    then show ?thesis unfolding decode_header_def r1 by (simp add: Let_def f)
  qed
qed

lemma decode_header_accepts:
  assumes "decode_header unmarshal rd = Some (h, n, digest, rd')"
  shows "\<exists>hb. rd_data rd = hb @ rd_data rd' \<and> len hb = n \<and> digest = sha256 hb \<and> take 4 hb = journal_magic
    \<and> unmarshal (drop 8 hb) = Some h \<and> jh_version h = journal_version \<and> rd_broken rd' = rd_broken rd"
proof -
  obtain pre rd1 where r1: "read_full 8 rd = (Inr pre, rd1)"
    using assms by (auto simp: decode_header_def split: prod.splits sum.splits)
  obtain body where r2: "read_full (nat (be_get (drop 4 pre))) rd1 = (Inr body, rd')"
    and v: "unmarshal body = Some h" "jh_version h = journal_version" "digest = sha256 (pre @ body)"
      "n = 8 + be_get (drop 4 pre)" "take 4 pre = journal_magic" "0 < be_get (drop 4 pre)"
    using assms r1 by (auto simp: decode_header_def Let_def split: prod.splits sum.splits if_splits option.splits)
  note a = read_full_Inr [OF r1] and b = read_full_Inr [OF r2]
  show ?thesis
    by (rule exI [of _ "pre @ body"]) (use a b v in \<open>simp add: len_def\<close>)
qed

section \<open>Recovery\<close>

lemma parse_journal_cut:
  assumes "encode_header h = Inr hb" "unmarshal (marshal_header h) = Some h" "jh_version h = journal_version"
    and "accept_header no_pane h = (True, p)" "entries_legal (at_start (len hb)) es"
    and "k = complete_entries (at_start (len hb)) es (n - length hb)" "c = foldl entry_apply (at_start (len hb)) (take k es)"
    and "length hb \<le> n"
  shows "\<exists>q. parse_journal unmarshal (take n (hb @ entries_bytes (at_start (len hb)) es))
      = (q, if cuts_commit (at_start (len hb)) es (n - length hb) then Some ErrCorruptJournal else None)
    \<and> pj_key q = jh_key h \<and> pj_committed q = vc_committed c \<and> pj_committed_sequence q = vc_committed_sequence c
    \<and> pj_geometry_charge q = vc_geometry_charge c
    \<and> (if cuts_commit (at_start (len hb)) es (n - length hb) then pj_verified q = no_cursor
       else pj_verified q = c\<lparr>vc_tail := vc_view c\<rparr> \<and> pj_end q = vc_end c)"
proof -
  let ?c0 = "at_start (len hb)" and ?m = "n - length hb"
  let ?rd = "\<lparr>rd_data = take n (hb @ entries_bytes ?c0 es), rd_broken = False\<rparr>"
  have d: "rd_data ?rd = hb @ take ?m (entries_bytes ?c0 es)" using assms(8) by simp
  have dh: "decode_header unmarshal ?rd = Some (h, len hb, sha256 hb, \<lparr>rd_data = take ?m (entries_bytes ?c0 es), rd_broken = False\<rparr>)"
    by (subst decode_header_reads [where h = h and hb = hb and rest = "take ?m (entries_bytes ?c0 es)"])
      (use assms(1-3) d in simp_all)
  have pf: "parse_frames \<lparr>rd_data = take ?m (entries_bytes ?c0 es), rd_broken = False\<rparr> ?c0
      = (if cuts_commit ?c0 es ?m then Some ErrCorruptJournal else None, c)"
    using parse_cut [OF assms(5) at_start_fits, of "\<lparr>rd_data = take ?m (entries_bytes ?c0 es), rd_broken = False\<rparr>" ?m]
    unfolding assms(6,7) by simp
  have p: "pj_key p = jh_key h" "pj_verified p = no_cursor"
    using assms(4) by (auto simp: accept_header_def Let_def no_pane_def split: option.splits if_splits)
  show ?thesis
    unfolding parse_journal_def dh using assms(4) pf p by (simp add: at_start_def Let_def)
qed

text \<open>Projections only grow.\<close>

lemma view_step:
  "suffix (vc_view c) (vc_tail c) \<Longrightarrow>
     suffix (vc_view (entry_apply c en)) (vc_tail (entry_apply c en)) \<and> suffix (vc_view c) (vc_view (entry_apply c en))"
  by (cases en) (auto simp: entry_apply_def append_record_def suffix_def)

lemma views_grow:
  "suffix (vc_view c) (vc_tail c) \<Longrightarrow>
     suffix (vc_view (foldl entry_apply c es)) (vc_tail (foldl entry_apply c es))
     \<and> suffix (vc_view c) (vc_view (foldl entry_apply c es))"
proof (induction es arbitrary: c)
  case (Cons en es)
  from view_step [OF Cons.prems, of en] Cons.IH [of "entry_apply c en"] show ?case
    by (auto intro: suffix_order.trans)
qed simp

lemma views_grow_take:
  "suffix (vc_view (foldl entry_apply (at_start n) (take k es))) (vc_view (foldl entry_apply (at_start n) es))"
proof -
  have "suffix (vc_view (foldl entry_apply (at_start n) (take k es))) (vc_tail (foldl entry_apply (at_start n) (take k es)))"
    using views_grow [of "at_start n" "take k es"] by (simp add: at_start_def no_cursor_def)
  from views_grow [OF this, of "drop k es"] show ?thesis
    by (metis append_take_drop_id foldl_append)
qed

text \<open>
  C21: A journal survives a crash at any byte, or fails closed. Take a journal that holds a header and any
  legal sequence of appends and commits, cut after \<open>n\<close> bytes. If the cut is inside the header
  the file is corrupt. Otherwise recovery works out exactly what the entries lying completely before the
  cut say: their committed frontier, their geometry charges, and, unless the cut is inside a commit
  frame (then the file is corrupt), their committed records, which are the oldest of the committed
  records of the uncut journal. An append that is cut is dropped silently.
\<close>

theorem journal_survives_crash:
  assumes "encode_header h = Inr hb" "unmarshal (marshal_header h) = Some h" "jh_version h = journal_version"
    and "accept_header no_pane h = (True, p)" "entries_legal (at_start (len hb)) es"
  shows "case parse_journal unmarshal (take n (hb @ entries_bytes (at_start (len hb)) es)) of (q, err) \<Rightarrow>
    if n < length hb then err = Some ErrCorruptJournal
    else let whole = take (complete_entries (at_start (len hb)) es (n - length hb)) es;
             c = foldl entry_apply (at_start (len hb)) whole
      in pj_key q = jh_key h \<and> pj_committed q = vc_committed c \<and> pj_committed_sequence q = vc_committed_sequence c
         \<and> pj_geometry_charge q = vc_geometry_charge c
         \<and> length (entries_bytes (at_start (len hb)) whole) \<le> n - length hb
         \<and> suffix (vc_view c) (vc_view (foldl entry_apply (at_start (len hb)) es))
         \<and> (if cuts_commit (at_start (len hb)) es (n - length hb) then err = Some ErrCorruptJournal
            else err = None \<and> vc_view (pj_verified q) = vc_view c \<and> pj_end q = vc_end c)"
proof (cases "n < length hb")
  case True
  then have "decode_header unmarshal \<lparr>rd_data = take n (hb @ entries_bytes (at_start (len hb)) es), rd_broken = False\<rparr> = None"
    by (intro decode_header_short [OF assms(1)]) simp_all
  with True show ?thesis by (simp add: parse_journal_def)
next
  case False
  then have "length hb \<le> n" by simp
  from parse_journal_cut [where unmarshal = unmarshal and h = h, OF assms refl refl this] complete_bytes_le [of "at_start (len hb)" es "n - length hb"] False
  show ?thesis by (auto simp: Let_def views_grow_take)
qed

section \<open>A sample journal\<close>

text \<open>Two bytes of output, committed, and a resize that is not.\<close>

definition journal_sample_key :: pane_key where
  "journal_sample_key = \<lparr>pk_server = ''s'', pk_session = ''$1'', pk_control_generation = 1, pk_window = ''@1'',
     pk_pane = ''%1'', pk_incarnation = ''i''\<rparr>"

definition sample_header :: journal_header where
  "sample_header = new_header journal_sample_key ''b'' (Some \<lparr>jg_columns = 80, jg_rows = 24\<rparr>) OriginBirth"

definition sample_unmarshal :: "bytes \<Rightarrow> journal_header option" where
  "sample_unmarshal bs = (if bs = marshal_header sample_header then Some sample_header else None)"

definition sample_header_bytes :: bytes where
  "sample_header_bytes = projr (encode_header sample_header)"

definition sample_entries :: "journal_entry list" where
  "sample_entries =
     [Appended \<lparr>jr_kind = record_output, jr_sequence = 1, jr_start = 0, jr_end = 2, jr_hash = sha256 ''hi'',
                jr_geometry = no_geometry\<rparr> ''hi'',
      Committed,
      Appended \<lparr>jr_kind = record_geometry, jr_sequence = 2, jr_start = 2, jr_end = 2,
                jr_hash = geometry_hash 2 \<lparr>jg_columns = 100, jg_rows = 30\<rparr>,
                jr_geometry = \<lparr>jg_columns = 100, jg_rows = 30\<rparr>\<rparr> []]"

lemma sample_header_ok:
  "encode_header sample_header = Inr sample_header_bytes" "sample_unmarshal (marshal_header sample_header) = Some sample_header"
  "jh_version sample_header = journal_version" "\<exists>p. accept_header no_pane sample_header = (True, p)"
proof -
  have "\<not> isl (encode_header sample_header)" by code_simp
  then show "encode_header sample_header = Inr sample_header_bytes"
    by (cases "encode_header sample_header") (simp_all add: sample_header_bytes_def)
  show "\<exists>p. accept_header no_pane sample_header = (True, p)"
    by (simp add: sample_header_def new_header_def accept_header_def header_origin_def origin_name_def
        geometry_valid_def max_journal_dimension_def)
qed (simp_all add: sample_unmarshal_def sample_header_def new_header_def)

lemma sample_entries_legal: "entries_legal (at_start n) sample_entries"
  by (simp add: sample_entries_def entry_legal_def entry_apply_def append_record_def append_admissible_def at_start_def
      no_cursor_def wrap64_same sha256_length no_record_def record_output_def record_geometry_def geometry_valid_def
      max_journal_dimension_def)

lemma sample_complete:
  "complete_entries (at_start m) sample_entries 150 = 2" "\<not> cuts_commit (at_start m) sample_entries 150"
  by (simp_all add: sample_entries_def entry_bytes_def entry_apply_def append_record_def cuts_commit_def Let_def
      sha256_length append_fixed_def commit_fixed_def)

lemma journal_sample_run:
  "vc_committed (foldl entry_apply (at_start m) (take 2 sample_entries)) = 2"
  "length (vc_view (foldl entry_apply (at_start m) (take 2 sample_entries))) = 1"
  by (simp_all add: sample_entries_def entry_apply_def append_record_def at_start_def no_cursor_def)

theorem journal_survives_crash_witness:
  "case parse_journal sample_unmarshal (take (length sample_header_bytes + 150)
      (sample_header_bytes @ entries_bytes (at_start (len sample_header_bytes)) sample_entries)) of
    (q, err) \<Rightarrow> err = None \<and> pj_key q = journal_sample_key \<and> pj_committed q = 2 \<and> length (vc_view (pj_verified q)) = 1"
proof -
  obtain p where p: "accept_header no_pane sample_header = (True, p)" using sample_header_ok(4) by blast
  have k: "jh_key sample_header = journal_sample_key" by (simp add: sample_header_def new_header_def)
  show ?thesis
    using journal_survives_crash [where unmarshal = sample_unmarshal and h = sample_header and n = "length sample_header_bytes + 150",
        OF sample_header_ok(1-3) p sample_entries_legal] sample_complete
    by (simp add: Let_def k journal_sample_run split: prod.splits)
qed

text \<open>
  C22: Recovery accepts nothing but a journal. A file recovered without an error is a header, read from the
  magic number on, then the frames of legal appends and commits, then at most one torn append. The
  key is the header's, and the recovered frontier, charges and committed records are what these frames say.
\<close>

theorem journal_accepts_only_records:
  assumes "parse_journal unmarshal contents = (p, None)"
  shows "\<exists>hb h es tail. contents = hb @ entries_bytes (at_start (len hb)) es @ tail
    \<and> take 4 hb = journal_magic \<and> unmarshal (drop 8 hb) = Some h \<and> jh_version h = journal_version
    \<and> pj_header_hash p = sha256 hb \<and> pj_key p = jh_key h \<and> pj_origin p = header_origin (jh_origin h)
    \<and> entries_legal (at_start (len hb)) es
    \<and> (let c = foldl entry_apply (at_start (len hb)) es
       in pj_verified p = c\<lparr>vc_tail := vc_view c\<rparr> \<and> pj_committed p = vc_committed c
          \<and> pj_committed_sequence p = vc_committed_sequence c \<and> pj_geometry_charge p = vc_geometry_charge c
          \<and> (tail = [] \<or> cursor_next \<lparr>rd_data = tail, rd_broken = False\<rparr> c = Inl NextTorn))"
proof -
  obtain h n digest rd where dh: "decode_header unmarshal \<lparr>rd_data = contents, rd_broken = False\<rparr> = Some (h, n, digest, rd)"
    using assms by (auto simp: parse_journal_def split: option.splits)
  obtain q where q: "accept_header no_pane h = (True, q)"
    using assms dh by (auto simp: parse_journal_def split: prod.splits bool.splits)
  from decode_header_accepts [OF dh] obtain hb where hb: "contents = hb @ rd_data rd" "len hb = n" "digest = sha256 hb"
    "take 4 hb = journal_magic" "unmarshal (drop 8 hb) = Some h" "jh_version h = journal_version" "\<not> rd_broken rd" by auto
  obtain c where c: "parse_frames rd (at_start n) = (None, c)"
    using assms dh q by (auto simp: parse_journal_def at_start_def Let_def split: prod.splits option.splits)
  from parse_accepts [OF c at_start_fits] obtain es tail where
    es: "rd_data rd = entries_bytes (at_start n) es @ tail" "entries_legal (at_start n) es"
    "c = foldl entry_apply (at_start n) es" "tail = [] \<or> cursor_next (rd\<lparr>rd_data := tail\<rparr>) c = Inl NextTorn" by blast
  have k: "pj_key q = jh_key h" "pj_origin q = header_origin (jh_origin h)"
    using q by (auto simp: accept_header_def Let_def split: option.splits if_splits)
  have r: "rd\<lparr>rd_data := tail\<rparr> = \<lparr>rd_data = tail, rd_broken = False\<rparr>" using hb(7) by simp
  have pf: "pj_verified p = c\<lparr>vc_tail := vc_view c\<rparr>" "pj_committed p = vc_committed c"
    "pj_committed_sequence p = vc_committed_sequence c" "pj_geometry_charge p = vc_geometry_charge c"
    "pj_header_hash p = digest" "pj_key p = pj_key q" "pj_origin p = pj_origin q"
    using assms dh q c by (auto simp: parse_journal_def at_start_def Let_def)
  have "contents = hb @ entries_bytes (at_start (len hb)) es @ tail" using hb(1,2) es(1) by simp
  with hb(2-6) es(2-4) k pf show ?thesis
    unfolding r Let_def by (intro exI [of _ hb] exI [of _ h] exI [of _ es] exI [of _ tail]) simp
qed

theorem journal_accepts_only_records_witness:
  "\<exists>p hb es tail. parse_journal sample_unmarshal (sample_header_bytes @ entries_bytes (at_start (len sample_header_bytes)) sample_entries) = (p, None)
    \<and> sample_header_bytes @ entries_bytes (at_start (len sample_header_bytes)) sample_entries = hb @ entries_bytes (at_start (len hb)) es @ tail
    \<and> entries_legal (at_start (len hb)) es"
proof -
  let ?es = sample_entries and ?c = "at_start (len sample_header_bytes)"
  obtain p where p: "accept_header no_pane sample_header = (True, p)" using sample_header_ok(4) by blast
  have l: "length sample_header_bytes + 200 = length (sample_header_bytes @ entries_bytes ?c ?es)"
    "\<not> cuts_commit ?c ?es 200"
    by (simp_all add: sample_entries_def entry_bytes_def entry_apply_def append_record_def cuts_commit_def Let_def
        sha256_length append_fixed_def commit_fixed_def)
  have "\<exists>q. parse_journal sample_unmarshal (sample_header_bytes @ entries_bytes ?c ?es) = (q, None)"
    using parse_journal_cut [where unmarshal = sample_unmarshal and h = sample_header and n = "length sample_header_bytes + 200", OF sample_header_ok(1-3) p sample_entries_legal refl refl] l
    by auto
  then obtain q where q: "parse_journal sample_unmarshal (sample_header_bytes @ entries_bytes ?c ?es) = (q, None)" ..
  from q journal_accepts_only_records [OF q] show ?thesis by blast
qed

end
