(* ===== verification/Journal_Projection.thy ===== *)
theory Journal_Projection
  imports Journal_Recovery
begin

text \<open>
  The committed projection of a pane's journal (\<open>ReadCommitted\<close>, \<open>ReadCommittedEvents\<close>,
  \<open>ReadCommittedEventsAfter\<close>, \<open>ValidCursor\<close>, \<open>GeometryAt\<close> of
  \<^verbatim>\<open>internal/unifiedjournal/journal.go\<close>, and the allocation estimates of \<^verbatim>\<open>memory.go\<close>): what
  a reader sees of the committed pages, in full or page by page after a cursor.

  The theorems: a projection is the sequence of events of a legal journal, each read at its place; reading
  page by page from any valid cursor delivers, without loss or repetition, what one full read delivers,
  and every page makes progress; allocation estimates are upper bounds.
\<close>

section \<open>Copying payloads\<close>

text \<open>\<^verbatim>\<open>copy(destination[at:], data)\<close>.\<close>

definition copy_at :: "nat \<Rightarrow> bytes \<Rightarrow> bytes \<Rightarrow> bytes" where
  "copy_at at data dest =
     take at dest @ take (length dest - at) data @ drop (at + length data) dest"

text \<open>\<open>copyEventPayloadFrom\<close>, over the chain of payload pages, newest first.\<close>

fun copy_payload_from :: "bytes \<Rightarrow> payload_page list \<Rightarrow> int \<Rightarrow> bytes" where
  "copy_payload_from dest [] skip = dest"
| "copy_payload_from dest (p # ps) skip =
     (if pp_start p < skip
      then if pp_start p + len (pp_data p) \<le> skip then copy_payload_from dest ps skip
           else copy_payload_from (copy_at 0 (drop (nat (skip - pp_start p)) (pp_data p)) dest) ps skip
      else copy_payload_from (copy_at (nat (pp_start p - skip)) (pp_data p) dest) ps skip)"

section \<open>Reading the projection\<close>

definition events_pane :: "pane_journal option \<Rightarrow> journal_error + pane_journal" where
  "events_pane p =
     (case p of
        None \<Rightarrow> Inl ErrInvalidated
      | Some q \<Rightarrow>
          if pj_corrupt q \<or> pj_reason q = ReasonCorruptJournal then Inl ErrCorruptJournal
          else if pj_projection_released q \<or> \<not> pj_admitted q then Inl ErrInvalidated
          else Inr q)"

text \<open>An event of a full read: the page's event, an output's payload with it.\<close>

definition full_event :: "event_page \<Rightarrow> journal_event" where
  "full_event page =
     (let ev = vp_event page
      in if je_kind ev = record_output
         then ev\<lparr>je_payload := copy_payload_from (replicate (nat (je_end ev - je_start ev)) NUL) (vp_payload page) 0\<rparr>
         else ev)"

text \<open>The array of events is filled by sequence number; an empty event stands where nothing was put.\<close>

definition no_event :: journal_event where
  "no_event = \<lparr>je_kind = NUL, je_sequence = 0, je_start = 0, je_end = 0, je_geometry = no_geometry, je_payload = []\<rparr>"

definition put_event :: "int \<Rightarrow> journal_event \<Rightarrow> journal_event list \<Rightarrow> journal_event list" where
  "put_event i ev evs = evs[nat i := ev]"

definition read_committed_events :: "pane_journal option \<Rightarrow> journal_error + journal_event list" where
  "read_committed_events p =
     (case events_pane p of
        Inl err \<Rightarrow> Inl err
      | Inr q \<Rightarrow>
          Inr (fold (\<lambda>page. put_event (je_sequence (vp_event page) - 1) (full_event page))
            (vc_view (pj_verified q)) (replicate (nat (pj_committed_sequence q)) no_event)))"

text \<open>\<open>ReadCommitted\<close>: the committed output bytes.\<close>

definition read_committed :: "pane_journal option \<Rightarrow> journal_error + bytes" where
  "read_committed p =
     (case p of
        None \<Rightarrow> Inr []
      | Some q \<Rightarrow>
          if pj_corrupt q \<or> pj_reason q = ReasonCorruptJournal then Inl ErrCorruptJournal
          else if pj_projection_released q then Inl ErrInvalidated
          else Inr (fold (\<lambda>page data.
              if je_kind (vp_event page) = record_output
              then copy_at (nat (je_start (vp_event page))) (je_payload (full_event page)) data else data)
            (vc_view (pj_verified q)) (replicate (nat (pj_committed q)) NUL)))"

section \<open>Reading after a cursor\<close>

record committed_cursor =
  cc_sequence :: int
  cc_offset :: int

definition continues_at :: "int \<Rightarrow> journal_event \<Rightarrow> bool" where
  "continues_at offset ev \<longleftrightarrow>
     offset = je_start ev \<or> je_kind ev = record_output \<and> je_start ev < offset \<and> offset < je_end ev"

text \<open>
  The walk of \<open>committedSuffix\<close> from the newest page back: the page the read ends with, its
  predecessors with it, and the oldest page reached.
\<close>

fun suffix_walk ::
    "committed_cursor \<Rightarrow> int \<Rightarrow> int \<Rightarrow> event_page list \<Rightarrow> event_page list option \<Rightarrow> event_page option
      \<Rightarrow> event_page list option \<times> event_page option" where
  "suffix_walk after committed_sequence max_bytes [] newest oldest = (newest, oldest)"
| "suffix_walk after committed_sequence max_bytes (page # pages) newest oldest =
     (let ev = vp_event page
      in if je_sequence ev \<le> cc_sequence after then (newest, oldest)
         else if je_sequence ev > committed_sequence
         then suffix_walk after committed_sequence max_bytes pages newest oldest
         else
           let cost = je_end ev - cc_offset after + (je_sequence ev - cc_sequence after) * sizeof_event;
               newest' = (if newest = None \<and> (cost \<le> max_bytes \<or> je_sequence ev = cc_sequence after + 1)
                        then Some (page # pages) else newest)
           in suffix_walk after committed_sequence max_bytes pages newest' (Some page))"

text \<open>The selected pages, newest first, with their number and bytes; none is the committed frontier.\<close>

definition committed_suffix ::
    "pane_journal \<Rightarrow> committed_cursor \<Rightarrow> int \<Rightarrow> journal_error + (event_page list \<times> int \<times> int) option" where
  "committed_suffix q after max_bytes =
     (if cc_sequence after < 0 \<or> cc_sequence after > pj_committed_sequence q then Inl ErrCursorMismatch
      else if cc_sequence after = pj_committed_sequence q
      then if cc_offset after \<noteq> pj_committed q then Inl ErrCursorMismatch else Inr None
      else case suffix_walk after (pj_committed_sequence q) max_bytes (vc_view (pj_verified q)) None None of
        (newest, oldest) \<Rightarrow>
          (case oldest of
             None \<Rightarrow> Inl ErrCursorMismatch
           | Some f \<Rightarrow>
               if je_sequence (vp_event f) \<noteq> cc_sequence after + 1 \<or> \<not> continues_at (cc_offset after) (vp_event f)
               then Inl ErrCursorMismatch
               else case newest of
                 Some (page # pages) \<Rightarrow>
                   Inr (Some (page # pages, je_sequence (vp_event page) - cc_sequence after,
                     je_end (vp_event page) - cc_offset after))
               | _ \<Rightarrow> Inl ErrCursorMismatch))"

definition valid_cursor :: "pane_journal option \<Rightarrow> committed_cursor \<Rightarrow> journal_error option" where
  "valid_cursor p cursor =
     (case events_pane p of
        Inl err \<Rightarrow> Some err
      | Inr q \<Rightarrow> (case committed_suffix q cursor 0 of Inl err \<Rightarrow> Some err | Inr _ \<Rightarrow> None))"

text \<open>An event of a read after a cursor: a partly consumed output starts at the cursor's offset.\<close>

definition suffix_event :: "committed_cursor \<Rightarrow> event_page \<Rightarrow> journal_event" where
  "suffix_event after page =
     (let ev = vp_event page; skip = max (cc_offset after - je_start ev) 0
      in if je_kind ev = record_output
         then ev\<lparr>je_start := je_start ev + skip,
                 je_payload := copy_payload_from (replicate (nat (je_end ev - (je_start ev + skip))) NUL) (vp_payload page) skip\<rparr>
         else ev)"

definition read_committed_events_after ::
    "pane_journal option \<Rightarrow> committed_cursor \<Rightarrow> int \<Rightarrow> journal_error + journal_event list" where
  "read_committed_events_after p after max_bytes =
     (case events_pane p of
        Inl err \<Rightarrow> Inl err
      | Inr q \<Rightarrow>
          (case committed_suffix q after max_bytes of
             Inl err \<Rightarrow> Inl err
           | Inr None \<Rightarrow> Inr []
           | Inr (Some (pages, records, _)) \<Rightarrow>
               Inr (fold (\<lambda>page. put_event (je_sequence (vp_event page) - cc_sequence after - 1) (suffix_event after page))
                 (takeWhile (\<lambda>page. je_sequence (vp_event page) > cc_sequence after) pages)
                 (replicate (nat records) no_event))))"

text \<open>The geometry in force after a record.\<close>

definition geometry_at :: "pane_journal option \<Rightarrow> int \<Rightarrow> journal_error + journal_geometry" where
  "geometry_at p sequence =
     (case events_pane p of
        Inl err \<Rightarrow> Inl err
      | Inr q \<Rightarrow>
          if sequence < 0 \<or> sequence > pj_committed_sequence q then Inl ErrCursorMismatch
          else case find (\<lambda>page. je_sequence (vp_event page) \<le> sequence \<and> je_kind (vp_event page) = record_geometry)
                      (vc_view (pj_verified q)) of
                 Some page \<Rightarrow> Inr (je_geometry (vp_event page))
               | None \<Rightarrow> Inr (pj_initial q))"

section \<open>Allocation estimates\<close>

text \<open>The smallest power of two of at least sixteen that is not below \<open>n\<close>: the doubling loop.\<close>

function power_ceiling :: "int \<Rightarrow> int \<Rightarrow> int" where
  "power_ceiling charge n = (if 0 < charge \<and> charge < n then power_ceiling (charge * 2) n else charge)"
  by pat_completeness auto

termination by (relation "measure (\<lambda>(charge, n). nat (n - charge))") auto

declare power_ceiling.simps [simp del]

definition allocation_charge :: "int \<Rightarrow> int" where
  "allocation_charge n =
     (if n \<le> 0 then 0
      else if n > 32 * 1024 then (n + 8 * 1024 - 1) AND NOT (8 * 1024 - 1)
      else power_ceiling 16 n)"

text \<open>\<open>AllocationCharge\<close> in \<^verbatim>\<open>int64\<close> arithmetic; nothing in the definition says that its loop ends.\<close>

partial_function (option) power_loop :: "64 word \<Rightarrow> 64 word \<Rightarrow> 64 word option" where
  "power_loop charge n = (if charge <s n then power_loop (charge * 2) n else Some charge)"

definition allocation_loop :: "64 word \<Rightarrow> 64 word option" where
  "allocation_loop n =
     (if n \<le>s 0 then Some 0
      else if 32 * 1024 <s n then Some ((n + 8 * 1024 - 1) AND NOT (8 * 1024 - 1))
      else power_loop 16 n)"

definition snapshot_allocation :: "pane_journal option \<Rightarrow> journal_error + int \<times> int" where
  "snapshot_allocation p =
     (case events_pane p of
        Inl err \<Rightarrow> Inl err
      | Inr q \<Rightarrow>
          let records = pj_committed_sequence q;
              index = (if records \<noteq> 0 then allocation_charge (records * sizeof_event + 8) else 0)
          in Inr (index + allocation_charge (pj_committed q), records))"

definition suffix_allocation :: "pane_journal option \<Rightarrow> committed_cursor \<Rightarrow> int \<Rightarrow> journal_error + int \<times> int" where
  "suffix_allocation p after max_bytes =
     (case events_pane p of
        Inl err \<Rightarrow> Inl err
      | Inr q \<Rightarrow>
          (case committed_suffix q after max_bytes of
             Inl err \<Rightarrow> Inl err
           | Inr None \<Rightarrow> Inr (0, 0)
           | Inr (Some (_, records, payload)) \<Rightarrow>
               Inr (allocation_charge (records * sizeof_event + 8) + allocation_charge payload, records)))"

section \<open>Payload pages\<close>

text \<open>The pages of a chain lie side by side, from the start on.\<close>

fun chained :: "payload_page list \<Rightarrow> bool" where
  "chained [] \<longleftrightarrow> True"
| "chained (p # ps) \<longleftrightarrow> pp_start p = len (pages_bytes ps) \<and> pp_data p \<noteq> [] \<and> chained ps"

lemma pages_bytes_Cons: "pages_bytes (p # ps) = pages_bytes ps @ pp_data p"
  by (simp add: pages_bytes_def)

lemma paged_chained: "chained pages \<Longrightarrow> position = len (pages_bytes pages) \<Longrightarrow> chained (paged position p pages)"
proof (induction position p pages rule: paged.induct)
  case (1 position p pages)
  show ?case
  proof (cases "p = []")
    case False
    have k: "0 < payload_page_bytes" by (simp add: payload_page_bytes_def)
    have "len (take (nat payload_page_bytes) p) = min (len p) payload_page_bytes" using k by (auto simp: len_def min_def nat_le_iff le_nat_iff)
    moreover have "take (nat payload_page_bytes) p \<noteq> []" using False k by simp
    ultimately show ?thesis using 1 False
      by (subst paged.simps) (simp add: Let_def pages_bytes_Cons)
  qed (use 1 in \<open>simp add: paged.simps\<close>)
qed

lemma copy_at_id: "at \<le> length dest \<Longrightarrow> at + length data \<le> length dest \<Longrightarrow>
    copy_at at data dest = take at dest @ data @ drop (at + length data) dest"
  by (simp add: copy_at_def)

lemma copy_payload:
  assumes "chained ps" "0 \<le> skip" "length (pages_bytes ps) \<le> nat skip + length dest"
  shows "copy_payload_from dest ps skip
    = drop (nat skip) (pages_bytes ps) @ drop (length (pages_bytes ps) - nat skip) dest"
  using assms
proof (induction ps arbitrary: dest)
  case (Cons p ps)
  let ?n = "length (pages_bytes ps)" and ?d = "pp_data p" and ?s = "nat skip"
  have st: "pp_start p = int ?n" using Cons.prems(1) by (simp add: len_def)
  have le: "?n + length ?d \<le> ?s + length dest" using Cons.prems(3) by (simp add: pages_bytes_Cons)
  show ?case
  proof (cases "int ?n < skip")
    case small: True
    show ?thesis
    proof (cases "int ?n + len ?d \<le> skip")
      case True
      then have "?n + length ?d \<le> ?s" by (simp add: len_def)
      with Cons True small st show ?thesis by (simp add: pages_bytes_Cons)
    next
      case False
      then have f: "?n < ?s" "?s < ?n + length ?d" using small by (simp_all add: len_def)
      define dest' where "dest' = copy_at 0 (drop (nat (skip - int ?n)) ?d) dest"
      have e: "nat (skip - int ?n) = ?s - ?n" by simp
      have "length (drop (?s - ?n) ?d) \<le> length dest" using f le by simp
      then have d': "dest' = drop (?s - ?n) ?d @ drop (?n + length ?d - ?s) dest"
        using f unfolding dest'_def e by (subst copy_at_id) (simp_all add: algebra_simps)
      have "copy_payload_from dest (p # ps) skip = copy_payload_from dest' ps skip"
        using small False st by (simp add: dest'_def)
      also have "\<dots> = dest'"
        using Cons.IH [of dest'] Cons.prems f by simp
      finally show ?thesis using f d' by (simp add: pages_bytes_Cons)
    qed
  next
    case False
    then have f: "?s \<le> ?n" by simp
    define dest' where "dest' = copy_at (?n - ?s) ?d dest"
    have d': "dest' = take (?n - ?s) dest @ ?d @ drop (?n - ?s + length ?d) dest"
      using f le unfolding dest'_def by (intro copy_at_id) simp_all
    have e: "nat (int ?n - skip) = ?n - ?s" using Cons.prems(2) by simp
    have "copy_payload_from dest (p # ps) skip = copy_payload_from dest' ps skip"
      using False st by (simp add: dest'_def e)
    also have "\<dots> = drop ?s (pages_bytes ps) @ drop (?n - ?s) dest'"
      using Cons.IH [of dest'] Cons.prems f le d' by simp
    finally show ?thesis using f le d' by (simp add: pages_bytes_Cons)
  qed
qed simp

section \<open>The pages of a legal journal\<close>

definition page_data :: "event_page \<Rightarrow> bytes" where
  "page_data p = pages_bytes (vp_payload p)"

text \<open>The event a page stands for.\<close>

definition page_event :: "event_page \<Rightarrow> journal_event" where
  "page_event p = (vp_event p)\<lparr>je_payload := page_data p\<rparr>"

definition pages_end :: "event_page list \<Rightarrow> int" where
  "pages_end ps = (case ps of [] \<Rightarrow> 0 | p # _ \<Rightarrow> je_end (vp_event p))"

definition page_ok :: "event_page \<Rightarrow> event_page list \<Rightarrow> bool" where
  "page_ok p ps \<longleftrightarrow>
     (let ev = vp_event p
      in je_sequence ev = len ps + 1 \<and> je_start ev = pages_end ps \<and> je_payload ev = []
         \<and> je_end ev = je_start ev + len (page_data p) \<and> chained (vp_payload p)
         \<and> (je_kind ev = record_output
            \<or> je_kind ev = record_geometry \<and> vp_payload p = [] \<and> geometry_valid (je_geometry ev)))"

fun pages_ok :: "event_page list \<Rightarrow> bool" where
  "pages_ok [] \<longleftrightarrow> True"
| "pages_ok (p # ps) \<longleftrightarrow> page_ok p ps \<and> pages_ok ps"

definition projection_inv :: "verified_cursor \<Rightarrow> bool" where
  "projection_inv c \<longleftrightarrow>
     pages_ok (vc_tail c) \<and> suffix (vc_view c) (vc_tail c)
     \<and> vc_sequence c = len (vc_tail c) \<and> vc_end c = pages_end (vc_tail c)
     \<and> vc_committed_sequence c = len (vc_view c) \<and> vc_committed c = pages_end (vc_view c)
     \<and> jr_sequence (vc_last c) = vc_sequence c \<and> jr_end (vc_last c) = vc_end c
     \<and> 0 \<le> vc_end c \<and> vc_sequence c + vc_end c \<le> vc_physical c"

lemma projection_start: "0 \<le> n \<Longrightarrow> projection_inv (at_start n)"
  by (simp add: projection_inv_def at_start_def no_cursor_def no_record_def pages_end_def)

lemma pages_end_Cons [simp]: "pages_end (p # ps) = je_end (vp_event p)"
  by (simp add: pages_end_def)

lemma legal_physical: "entry_legal c en \<Longrightarrow> vc_physical c \<le> vc_physical (entry_apply c en)"
  by (cases en) (simp_all add: entry_apply_def append_record_def)

lemma projection_append:
  assumes "projection_inv c" "entry_legal c (Appended r p)" "vc_physical (entry_apply c (Appended r p)) < 2 ^ 63"
  shows "projection_inv (entry_apply c (Appended r p))"
proof -
  have b: "0 \<le> vc_sequence c" "0 \<le> vc_end c" "vc_sequence c + vc_end c \<le> vc_physical c"
    using assms(1) by (simp_all add: projection_inv_def)
  have adm: "append_admissible r (len p) p c" using assms(2) by (simp add: entry_legal_def)
  have ph: "vc_physical c + int append_fixed + len p < 2 ^ 63"
    using assms(3) by (simp add: entry_apply_def append_record_def)
  have f: "1 \<le> int append_fixed" by (simp add: append_fixed_def)
  have lp: "0 \<le> len p" by simp
  have w: "wrap64 (vc_sequence c + 1) = vc_sequence c + 1" "wrap64 (vc_end c + len p) = vc_end c + len p"
    using b ph f lp by (intro wrap64_same; linarith)+
  have r: "jr_sequence r = vc_sequence c + 1" "jr_start r = vc_end c" "jr_end r = vc_end c + len p"
    "jr_kind r = record_output \<or> jr_kind r = record_geometry \<and> p = [] \<and> geometry_valid (jr_geometry r)"
    using adm w by (auto simp: append_admissible_def split: if_splits)
  have np: "paged 0 p [] = [] " if "p = []" using that by (simp add: paged.simps)
  have "page_ok (add_page r (len p) (paged 0 p []) c) (vc_tail c)"
    using assms(1) r np paged_chained [of "[]" 0 p]
    by (auto simp: page_ok_def add_page_def page_data_def paged_bytes projection_inv_def Let_def)
  with assms(1) r b f lp show ?thesis
    by (auto simp: projection_inv_def entry_apply_def append_record_def add_page_def suffix_Cons pages_end_def)
qed

lemma legal_commit_tail:
  assumes "projection_inv c" "entry_legal c Committed"
  shows "vc_tail c \<noteq> []"
  using assms by (auto simp: projection_inv_def entry_legal_def)

lemma projection_commit:
  assumes "projection_inv c" "entry_legal c Committed"
  shows "projection_inv (entry_apply c Committed)"
  using assms by (auto simp: projection_inv_def entry_apply_def commit_fixed_def)

lemma projection_run:
  assumes "projection_inv c" "entries_legal c es" "vc_physical (foldl entry_apply c es) < 2 ^ 63"
  shows "projection_inv (foldl entry_apply c es)"
  using assms
proof (induction es arbitrary: c)
  case (Cons en es)
  have mono: "vc_physical c' \<le> vc_physical (foldl entry_apply c' es)" if "entries_legal c' es" for c'
    using that
  proof (induction es arbitrary: c')
    case (Cons en es)
    then show ?case using legal_physical [of c' en] by fastforce
  qed simp
  have "projection_inv (entry_apply c en)"
    using Cons.prems mono [of "entry_apply c en"] projection_append [of c] projection_commit [of c] by (cases en) auto
  with Cons show ?case by simp
qed simp

text \<open>What recovery publishes is such a projection.\<close>

definition projection_ok :: "pane_journal \<Rightarrow> bool" where
  "projection_ok q \<longleftrightarrow>
     pages_ok (vc_view (pj_verified q)) \<and> pj_committed_sequence q = len (vc_view (pj_verified q))
     \<and> pj_committed q = pages_end (vc_view (pj_verified q))"

lemma pages_ok_suffix: "pages_ok ps \<Longrightarrow> suffix qs ps \<Longrightarrow> pages_ok qs"
proof -
  have "pages_ok (a @ qs) \<Longrightarrow> pages_ok qs" for a by (induction a) auto
  then show "pages_ok ps \<Longrightarrow> suffix qs ps \<Longrightarrow> pages_ok qs" by (auto simp: suffix_def)
qed

lemma projection_view:
  "projection_inv c \<Longrightarrow> pages_ok (vc_view c) \<and> vc_committed_sequence c = len (vc_view c) \<and> vc_committed c = pages_end (vc_view c)"
  using pages_ok_suffix by (auto simp: projection_inv_def)

lemma entries_physical:
  "entries_legal c es \<Longrightarrow> cursor_fits c \<Longrightarrow> vc_physical (foldl entry_apply c es) = vc_physical c + len (entries_bytes c es)"
proof (induction es arbitrary: c)
  case (Cons en es)
  then have "vc_physical (foldl entry_apply (entry_apply c en) es) = vc_physical (entry_apply c en) + len (entries_bytes (entry_apply c en) es)"
    using apply_fits by auto
  with entry_length [of c en] Cons.prems show ?case by (simp add: len_def)
qed simp

section \<open>Pages in order\<close>

lemma page_bounds:
  assumes "page_ok p ps" "0 \<le> pages_end ps"
  shows "je_start (vp_event p) \<le> je_end (vp_event p)" "0 \<le> je_end (vp_event p)"
    "pages_end ps \<le> je_end (vp_event p)" "length (page_data p) = nat (je_end (vp_event p) - je_start (vp_event p))"
  using assms by (simp_all add: page_ok_def Let_def len_def)

lemma pages_end_nonneg: "pages_ok ps \<Longrightarrow> 0 \<le> pages_end ps"
proof (induction ps)
  case (Cons p ps)
  then show ?case using page_bounds(2) [of p ps] by simp
qed (simp add: pages_end_def)

lemma full_event_data:
  assumes "page_ok p ps"
  shows "full_event p = page_event p"
proof -
  have c: "chained (vp_payload p)" and l: "length (pages_bytes (vp_payload p)) = nat (je_end (vp_event p) - je_start (vp_event p))"
    using assms by (simp_all add: page_ok_def Let_def page_data_def len_def)
  have "copy_payload_from (replicate (nat (je_end (vp_event p) - je_start (vp_event p))) NUL) (vp_payload p) 0
      = pages_bytes (vp_payload p)"
    using copy_payload [OF c, of 0 "replicate (nat (je_end (vp_event p) - je_start (vp_event p))) NUL"] l by simp
  then show ?thesis using assms
    by (auto simp: full_event_def page_event_def page_ok_def Let_def page_data_def pages_bytes_def)
qed

lemma parse_projection:
  assumes "parse_journal unmarshal contents = (q, None)" "len contents < 2 ^ 63"
  shows "projection_ok q"
proof -
  obtain h n digest rd where dh: "decode_header unmarshal \<lparr>rd_data = contents, rd_broken = False\<rparr> = Some (h, n, digest, rd)"
    using assms(1) by (auto simp: parse_journal_def split: option.splits)
  from decode_header_accepts [OF dh] obtain hb where hb: "contents = hb @ rd_data rd" "len hb = n" by auto
  obtain c where c: "parse_frames rd (at_start n) = (None, c)"
    and q: "pj_verified q = c\<lparr>vc_tail := vc_view c\<rparr>" "pj_committed_sequence q = vc_committed_sequence c" "pj_committed q = vc_committed c"
    using assms(1) dh by (auto simp: parse_journal_def at_start_def Let_def split: prod.splits option.splits bool.splits)
  from parse_accepts [OF c at_start_fits] obtain es tail where
    es: "rd_data rd = entries_bytes (at_start n) es @ tail" "entries_legal (at_start n) es" "c = foldl entry_apply (at_start n) es" by blast
  have "vc_physical c = n + len (entries_bytes (at_start n) es)"
    using entries_physical [OF es(2) at_start_fits] es(3) by (simp add: at_start_def)
  moreover have "len contents = n + len (entries_bytes (at_start n) es) + len tail" using hb es(1) by simp
  moreover have "0 \<le> len tail" by simp
  ultimately have "vc_physical c < 2 ^ 63" using assms(2) by linarith
  moreover have "0 \<le> n" using hb(2) by (simp flip: hb(2))
  ultimately have "projection_inv c" using projection_run [OF projection_start es(2)] es(3) by simp
  from projection_view [OF this] q show ?thesis by (simp add: projection_ok_def)
qed

section \<open>The full read\<close>

lemma pages_seq: "pages_ok (p # ps) \<Longrightarrow> je_sequence (vp_event p) = len ps + 1"
  by (simp add: page_ok_def Let_def)

lemma fill_events:
  assumes "pages_ok ps" "a \<le> length ps" "length ps - a \<le> length xs"
  shows "fold (\<lambda>p. put_event (je_sequence (vp_event p) - int a - 1) (g p)) (take (length ps - a) ps) xs
    = rev (map g (take (length ps - a) ps)) @ drop (length ps - a) xs"
  using assms
proof (induction ps arbitrary: xs)
  case (Cons p ps)
  show ?case
  proof (cases "a \<le> length ps")
    case True
    let ?k = "length ps - a"
    have q: "je_sequence (vp_event p) - int a - 1 = int ?k" using pages_seq [OF Cons.prems(1)] True by (simp add: len_def)
    have s: "length (p # ps) - a = Suc ?k" using True by simp
    have put: "put_event (je_sequence (vp_event p) - int a - 1) (g p) xs = xs[?k := g p]"
      unfolding q by (simp add: put_event_def)
    have lt: "?k < length xs" using Cons.prems(3) True by simp
    have "fold (\<lambda>p. put_event (je_sequence (vp_event p) - int a - 1) (g p)) (take (Suc ?k) (p # ps)) xs
        = rev (map g (take ?k ps)) @ drop ?k (xs[?k := g p])"
      using Cons.IH [of "xs[?k := g p]"] Cons.prems True put by simp
    also have "drop ?k (xs[?k := g p]) = g p # drop (Suc ?k) xs"
      using lt by (simp add: Cons_nth_drop_Suc [symmetric])
    finally show ?thesis unfolding s by simp
  next
    case False
    with Cons.prems have "a = length (p # ps)" by simp
    then show ?thesis by simp
  qed
qed simp

lemma all_pages_ok: "pages_ok ps \<Longrightarrow> p \<in> set ps \<Longrightarrow> full_event p = page_event p"
proof (induction ps)
  case (Cons q ps)
  then show ?case using full_event_data [of q ps] by auto
qed simp

definition projected :: "pane_journal \<Rightarrow> journal_event list" where
  "projected q = rev (map page_event (vc_view (pj_verified q)))"

lemma read_all:
  assumes "projection_ok q" "events_pane (Some q) = Inr q"
  shows "read_committed_events (Some q) = Inr (projected q)"
proof -
  let ?ps = "vc_view (pj_verified q)"
  have ok: "pages_ok ?ps" "pj_committed_sequence q = len ?ps" using assms(1) by (simp_all add: projection_ok_def)
  have m: "map full_event ?ps = map page_event ?ps" using all_pages_ok [OF ok(1)] by simp
  have "fold (\<lambda>page. put_event (je_sequence (vp_event page) - 1) (full_event page)) ?ps (replicate (length ?ps) no_event)
      = rev (map full_event ?ps)"
    using fill_events [OF ok(1), of 0 "replicate (length ?ps) no_event" full_event] by simp
  then show ?thesis using assms(2) ok(2) m by (simp add: read_committed_events_def projected_def len_def)
qed

section \<open>Reading after a cursor\<close>

definition read_cost :: "committed_cursor \<Rightarrow> event_page \<Rightarrow> int" where
  "read_cost after p =
     je_end (vp_event p) - cc_offset after + (je_sequence (vp_event p) - cc_sequence after) * sizeof_event"

lemma suffix_walk_stops:
  assumes "pages_ok ps" "int (length ps) \<le> cc_sequence after"
  shows "suffix_walk after cs m ps newest oldest = (newest, oldest)"
  using assms by (cases ps) (simp_all add: pages_seq len_def Let_def)

lemma suffix_walk_spec:
  assumes "pages_ok ps" "cc_sequence after = int a" "a < length ps" "int (length ps) \<le> cs"
  shows "\<exists>pages. suffix_walk after cs m ps newest oldest
      = (case newest of None \<Rightarrow> Some pages | Some x \<Rightarrow> Some x, Some (ps ! (length ps - a - 1)))
    \<and> suffix pages ps \<and> a < length pages \<and> (length pages = Suc a \<or> read_cost after (hd pages) \<le> m)
    \<and> (\<forall>qs. suffix qs ps \<and> length pages < length qs \<longrightarrow> m < read_cost after (hd qs))"
  using assms
proof (induction ps arbitrary: newest oldest)
  case (Cons p ps)
  have q: "je_sequence (vp_event p) = int (length ps) + 1" using pages_seq [OF Cons.prems(1)] by (simp add: len_def)
  let ?hit = "read_cost after p \<le> m \<or> length ps = a"
  let ?new = "if newest = None \<and> ?hit then Some (p # ps) else newest"
  have w: "suffix_walk after cs m (p # ps) newest oldest = suffix_walk after cs m ps ?new (Some p)"
    using q Cons.prems by (auto simp: Let_def read_cost_def)
  have long: "suffix qs (p # ps) \<Longrightarrow> length qs \<le> Suc (length ps)" for qs
    using suffix_length_le [of qs "p # ps"] by simp
  show ?case
  proof (cases "length ps = a")
    case True
    then have "suffix_walk after cs m ps ?new (Some p) = (?new, Some p)"
      using suffix_walk_stops [of ps after] Cons.prems by simp
    with True w long show ?thesis
      by (intro exI [of _ "p # ps"]) (auto dest: long split: option.split)
  next
    case False
    then have a: "a < length ps" using Cons.prems by simp
    from Cons.IH [of ?new "Some p"] Cons.prems a obtain pages where
      e: "suffix_walk after cs m ps ?new (Some p) = (case ?new of None \<Rightarrow> Some pages | Some x \<Rightarrow> Some x, Some (ps ! (length ps - a - 1)))"
      and p: "suffix pages ps" "a < length pages" "length pages = Suc a \<or> read_cost after (hd pages) \<le> m"
        "\<forall>qs. suffix qs ps \<and> length pages < length qs \<longrightarrow> m < read_cost after (hd qs)" by auto
    have n: "(p # ps) ! (length (p # ps) - a - 1) = ps ! (length ps - a - 1)" using a by (simp add: nth_Cons' Suc_diff_Suc)
    show ?thesis
    proof (cases "read_cost after p \<le> m")
      case True
      then show ?thesis using w e n a
        by (intro exI [of _ "p # ps"]) (auto dest: long split: option.split)
    next
      case miss: False
      then have "\<forall>qs. suffix qs (p # ps) \<and> length pages < length qs \<longrightarrow> m < read_cost after (hd qs)"
        using p(4) by (auto simp: suffix_Cons)
      with miss w e n a False p show ?thesis
        by (intro exI [of _ pages]) (auto simp: suffix_Cons split: option.split)
    qed
  qed
qed simp

lemma last_take: "0 < k \<Longrightarrow> k \<le> length xs \<Longrightarrow> last (take k xs) = xs ! (k - 1)"
  by (subst last_conv_nth) auto

lemma newer_pages:
  assumes "pages_ok (us @ f # vs)"
  shows "je_end (vp_event f) \<le> pages_end (us @ f # vs)" "p \<in> set us \<Longrightarrow> je_end (vp_event f) \<le> je_start (vp_event p)"
proof -
  have e: "je_end (vp_event f) \<le> pages_end (us @ f # vs)" if "pages_ok (us @ f # vs)" for us
    using that
  proof (induction us)
    case (Cons u us)
    then have "0 \<le> pages_end (us @ f # vs)" "page_ok u (us @ f # vs)" using pages_end_nonneg by auto
    from page_bounds(3) [OF this(2,1)] Cons show ?case by simp
  qed simp
  from e [OF assms] show "je_end (vp_event f) \<le> pages_end (us @ f # vs)" .
  show "je_end (vp_event f) \<le> je_start (vp_event p)" if "p \<in> set us" using that assms
  proof (induction us)
    case (Cons u us)
    then have "je_start (vp_event u) = pages_end (us @ f # vs)" by (simp add: page_ok_def Let_def)
    with Cons e [of us] show ?case by auto
  qed simp
qed

text \<open>
  What is left to read after a cursor: the events after its sequence number, the first without the bytes
  already consumed.
\<close>

definition rest_of_event :: "int \<Rightarrow> journal_event \<Rightarrow> journal_event" where
  "rest_of_event offset ev =
     (if je_kind ev = record_output
      then ev\<lparr>je_start := offset, je_payload := drop (nat (offset - je_start ev)) (je_payload ev)\<rparr> else ev)"

definition events_after :: "committed_cursor \<Rightarrow> journal_event list \<Rightarrow> journal_event list" where
  "events_after after evs =
     (case drop (nat (cc_sequence after)) evs of
        [] \<Rightarrow> [] | ev # later \<Rightarrow> rest_of_event (cc_offset after) ev # later)"

lemma suffix_event_later:
  assumes "page_ok p ps" "cc_offset after \<le> je_start (vp_event p)"
  shows "suffix_event after p = page_event p"
proof -
  have "max (cc_offset after - je_start (vp_event p)) 0 = 0" using assms(2) by simp
  then have "suffix_event after p = full_event p" by (simp add: suffix_event_def full_event_def Let_def)
  then show ?thesis using full_event_data [OF assms(1)] by simp
qed

lemma suffix_event_first:
  assumes "page_ok p ps" "0 \<le> pages_end ps" "continues_at (cc_offset after) (vp_event p)"
  shows "suffix_event after p = rest_of_event (cc_offset after) (page_event p)"
proof -
  let ?ev = "vp_event p"
  have o1: "je_start ?ev \<le> cc_offset after" using assms(3) by (auto simp: continues_at_def)
  have c: "chained (vp_payload p)" and l: "length (pages_bytes (vp_payload p)) = nat (je_end ?ev - je_start ?ev)"
    using assms(1) by (simp_all add: page_ok_def Let_def page_data_def len_def)
  have e: "je_start ?ev \<le> je_end ?ev" "cc_offset after \<le> je_end ?ev"
    using page_bounds(1) [OF assms(1,2)] assms(3) by (auto simp: continues_at_def)
  have m: "max (cc_offset after - je_start ?ev) 0 = cc_offset after - je_start ?ev" using o1 by simp
  have "copy_payload_from (replicate (nat (je_end ?ev - cc_offset after)) NUL) (vp_payload p) (cc_offset after - je_start ?ev)
      = drop (nat (cc_offset after - je_start ?ev)) (page_data p)"
    using copy_payload [OF c, of "cc_offset after - je_start ?ev" "replicate (nat (je_end ?ev - cc_offset after)) NUL"] l o1 e
    by (simp add: page_data_def)
  then show ?thesis using assms(1,3) m
    by (auto simp: suffix_event_def rest_of_event_def page_event_def Let_def page_ok_def page_data_def pages_bytes_def)
qed

lemma pages_okD: "pages_ok ps \<Longrightarrow> p \<in> set ps \<Longrightarrow> \<exists>qs. page_ok p qs"
  by (induction ps) auto

lemma suffix_events:
  assumes "pages_ok (rev es)" "cc_sequence after = int a" "a < length es" "continues_at (cc_offset after) (vp_event (es ! a))"
  shows "map (suffix_event after) (drop a es) = events_after after (map page_event es)"
proof -
  let ?f = "es ! a"
  have es: "es = take a es @ ?f # drop (Suc a) es" using assms(3) by (simp add: id_take_nth_drop)
  then have r: "rev es = rev (drop (Suc a) es) @ ?f # rev (take a es)" by (metis rev.simps(2) rev_append append.assoc append_Cons append_Nil)
  have ok: "pages_ok (rev (drop (Suc a) es) @ ?f # rev (take a es))" using assms(1) r by simp
  have okf: "pages_ok (?f # rev (take a es))" using pages_ok_suffix [OF ok suffixI [OF refl]] .
  then have pf: "page_ok ?f (rev (take a es))" "0 \<le> pages_end (rev (take a es))" using pages_end_nonneg by auto
  have off: "cc_offset after \<le> je_end (vp_event ?f)"
    using page_bounds(1) [OF pf] assms(4) by (auto simp: continues_at_def)
  have later: "suffix_event after p = page_event p" if "p \<in> set (drop (Suc a) es)" for p
  proof -
    have "p \<in> set (rev (drop (Suc a) es))" using that by simp
    from newer_pages(2) [OF ok this] off have "cc_offset after \<le> je_start (vp_event p)" by simp
    moreover have "\<exists>ps. page_ok p ps" using pages_okD [OF ok] \<open>p \<in> set (rev (drop (Suc a) es))\<close> by simp
    ultimately show ?thesis using suffix_event_later by blast
  qed
  have "drop a es = ?f # drop (Suc a) es" using assms(3) by (simp add: Cons_nth_drop_Suc)
  then show ?thesis using suffix_event_first [OF pf assms(4)] later assms(2)
    by (simp add: events_after_def drop_map)
qed

lemma take_newer: "pages_ok ps \<Longrightarrow> a \<le> length ps \<Longrightarrow>
    takeWhile (\<lambda>p. int a < je_sequence (vp_event p)) ps = take (length ps - a) ps"
proof (induction ps)
  case (Cons p ps)
  then show ?case
    using pages_seq [OF Cons.prems(1)] by (cases "a \<le> length ps") (simp_all add: len_def Suc_diff_le le_Suc_eq)
qed simp

lemma read_after:
  assumes "projection_ok q" "events_pane (Some q) = Inr q" "cc_sequence after = int a" "cc_sequence after < pj_committed_sequence q"
    and "es = rev (vc_view (pj_verified q))" "continues_at (cc_offset after) (vp_event (es ! a))"
  shows "\<exists>k. 0 < k \<and> k \<le> length es - a
    \<and> read_committed_events_after (Some q) after m = Inr (take k (events_after after (projected q)))
    \<and> (k = 1 \<or> read_cost after (es ! (a + k - 1)) \<le> m)
    \<and> (\<forall>j. k < j \<and> j \<le> length es - a \<longrightarrow> m < read_cost after (es ! (a + j - 1)))"
proof -
  let ?ps = "vc_view (pj_verified q)"
  have ok: "pages_ok ?ps" and cs: "pj_committed_sequence q = int (length ?ps)"
    using assms(1) by (simp_all add: projection_ok_def len_def)
  have an: "a < length ?ps" using assms(3,4) cs by simp
  from suffix_walk_spec [OF ok assms(3) an order.refl, of m None None] obtain pages where
    w: "suffix_walk after (int (length ?ps)) m ?ps None None = (Some pages, Some (?ps ! (length ?ps - a - 1)))"
    and p: "suffix pages ?ps" "a < length pages" "length pages = Suc a \<or> read_cost after (hd pages) \<le> m"
    and best: "\<forall>qs. suffix qs ?ps \<and> length pages < length qs \<longrightarrow> m < read_cost after (hd qs)" by auto
  have first: "?ps ! (length ?ps - a - 1) = es ! a" using an assms(5) by (simp add: rev_nth)
  have okp: "pages_ok pages" by (rule pages_ok_suffix [OF ok p(1)])
  obtain x xs where px: "pages = x # xs" using p(2) by (cases pages) auto
  let ?k = "length pages - a"
  have sx: "je_sequence (vp_event x) = int (length pages)" using pages_seq okp px by (simp add: len_def)
  have sf: "je_sequence (vp_event (es ! a)) = int a + 1"
  proof -
    have "drop (length ?ps - a - 1) ?ps = ?ps ! (length ?ps - a - 1) # drop (length ?ps - a) ?ps"
      using an by (simp add: Cons_nth_drop_Suc [symmetric] Suc_diff_Suc)
    moreover have "pages_ok (drop (length ?ps - a - 1) ?ps)" by (rule pages_ok_suffix [OF ok suffix_drop])
    ultimately show ?thesis using pages_seq [of "es ! a" "drop (length ?ps - a) ?ps"] first an by (simp add: len_def)
  qed
  have neq: "cc_sequence after \<noteq> pj_committed_sequence q" "\<not> pj_committed_sequence q < cc_sequence after"
    "\<not> cc_sequence after < 0" using assms(3,4) by simp_all
  have sel: "committed_suffix q after m = Inr (Some (pages, int ?k, je_end (vp_event x) - cc_offset after))"
    using neq w sf first assms(3,6) sx px p(2) by (simp add: committed_suffix_def cs)
  have rp: "rev pages = take (length pages) es"
  proof -
    from p(1) obtain u where "?ps = u @ pages" by (auto simp: suffix_def)
    then show ?thesis using assms(5) by simp
  qed
  have "fold (\<lambda>page. put_event (je_sequence (vp_event page) - int a - 1) (suffix_event after page))
      (take ?k pages) (replicate ?k no_event) = rev (map (suffix_event after) (take ?k pages))"
    using fill_events [OF okp, of a "replicate ?k no_event" "suffix_event after"] p(2) by simp
  also have "\<dots> = map (suffix_event after) (rev (take ?k pages))" by (simp add: rev_map)
  also have "rev (take ?k pages) = drop a (rev pages)" using p(2) by (simp add: drop_rev)
  also have "\<dots> = take ?k (drop a es)" unfolding rp using p(2) by (simp add: take_drop)
  also have "map (suffix_event after) (take ?k (drop a es)) = take ?k (map (suffix_event after) (drop a es))" by (simp add: take_map)
  also have "map (suffix_event after) (drop a es) = events_after after (map page_event es)"
    by (rule suffix_events [OF _ assms(3) _ assms(6)]) (use ok an assms(5) in simp_all)
  also have "map page_event es = projected q" by (simp add: assms(5) projected_def rev_map)
  finally have fl: "fold (\<lambda>page. put_event (je_sequence (vp_event page) - int a - 1) (suffix_event after page))
      (take ?k pages) (replicate ?k no_event) = take ?k (events_after after (projected q))" .
  have tw: "takeWhile (\<lambda>page. int a < je_sequence (vp_event page)) pages = take ?k pages"
    by (rule take_newer [OF okp]) (use p(2) in simp)
  have rd: "read_committed_events_after (Some q) after m = Inr (take ?k (events_after after (projected q)))"
    using assms(2,3) sel fl tw by (simp add: read_committed_events_after_def)
  have lp: "length pages \<le> length es" using suffix_length_le [OF p(1)] assms(5) by simp
  have hdp: "hd pages = es ! (a + ?k - 1)"
  proof -
    have "hd pages = last (rev pages)" using px by simp
    also have "\<dots> = es ! (length pages - 1)" unfolding rp using px lp last_take [of "length pages" es] by simp
    finally show ?thesis using p(2) by simp
  qed
  have bj: "m < read_cost after (es ! (a + j - 1))" if "?k < j" "j \<le> length es - a" for j
  proof -
    have s: "suffix (rev (take (a + j) es)) ?ps" using assms(5) by (simp add: take_rev suffix_drop)
    have aj: "a + j \<le> length es" using that an assms(5) by simp
    then have l: "length (rev (take (a + j) es)) = a + j" by simp
    have h: "hd (rev (take (a + j) es)) = es ! (a + j - 1)"
      unfolding hd_rev by (rule last_take) (use aj that in linarith)+
    have "length pages < length (rev (take (a + j) es))" using that(1) l p(2) by linarith
    with best s have "m < read_cost after (hd (rev (take (a + j) es)))" by blast
    then show ?thesis unfolding h .
  qed
  show ?thesis
    by (rule exI [of _ ?k]) (use rd p lp hdp bj an in \<open>auto simp: assms(5)\<close>)
qed

lemma page_at:
  assumes "projection_ok q" "es = rev (vc_view (pj_verified q))" "a < length es"
  shows "je_sequence (vp_event (es ! a)) = int a + 1"
    "je_start (vp_event (es ! a)) = (if a = 0 then 0 else je_end (vp_event (es ! (a - 1))))"
proof -
  let ?ps = "vc_view (pj_verified q)"
  have ok: "pages_ok ?ps" using assms(1) by (simp add: projection_ok_def)
  have an: "a < length ?ps" using assms(2,3) by simp
  have d: "drop (length ?ps - Suc a) ?ps = es ! a # drop (length ?ps - a) ?ps"
    using an assms(2) by (simp add: Cons_nth_drop_Suc [symmetric] Suc_diff_Suc rev_nth)
  have okd: "pages_ok (es ! a # drop (length ?ps - a) ?ps)"
    using pages_ok_suffix [OF ok suffix_drop, of "length ?ps - Suc a"] d by simp
  from pages_seq [OF okd] an show "je_sequence (vp_event (es ! a)) = int a + 1" by (simp add: len_def)
  have "je_start (vp_event (es ! a)) = pages_end (drop (length ?ps - a) ?ps)" using okd by (simp add: page_ok_def Let_def)
  also have "\<dots> = (if a = 0 then 0 else je_end (vp_event (es ! (a - 1))))"
  proof (cases a)
    case (Suc b)
    then have "drop (length ?ps - a) ?ps = es ! b # drop (length ?ps - b) ?ps"
      using an assms(2) by (simp add: Cons_nth_drop_Suc [symmetric] Suc_diff_Suc rev_nth)
    with Suc show ?thesis by simp
  qed (simp add: pages_end_def)
  finally show "je_start (vp_event (es ! a)) = (if a = 0 then 0 else je_end (vp_event (es ! (a - 1))))" .
qed

lemma committed_end:
  assumes "projection_ok q" "es = rev (vc_view (pj_verified q))"
  shows "pj_committed q = (if es = [] then 0 else je_end (vp_event (last es)))"
  using assms by (cases "vc_view (pj_verified q)") (simp_all add: projection_ok_def pages_end_def)

lemma valid_cursor_iff:
  assumes "projection_ok q" "events_pane (Some q) = Inr q" "es = rev (vc_view (pj_verified q))"
  shows "valid_cursor (Some q) c = None \<longleftrightarrow>
    (\<exists>a. cc_sequence c = int a \<and> (a < length es \<and> continues_at (cc_offset c) (vp_event (es ! a))
        \<or> a = length es \<and> cc_offset c = pj_committed q))"
proof -
  let ?ps = "vc_view (pj_verified q)"
  have ok: "pages_ok ?ps" and cs: "pj_committed_sequence q = int (length ?ps)"
    using assms(1) by (simp_all add: projection_ok_def len_def)
  show ?thesis
  proof (cases "0 \<le> cc_sequence c \<and> cc_sequence c < int (length ?ps)")
    case True
    then obtain a where a: "cc_sequence c = int a" "a < length ?ps" by (metis nonneg_int_cases of_nat_less_iff)
    from suffix_walk_spec [OF ok a order.refl, of 0 None None] obtain pages where
      w: "suffix_walk c (int (length ?ps)) 0 ?ps None None = (Some pages, Some (?ps ! (length ?ps - a - 1)))" "a < length pages" by auto
    have f: "?ps ! (length ?ps - a - 1) = es ! a" using a assms(3) by (simp add: rev_nth)
    obtain x xs where "pages = x # xs" using w(2) by (cases pages) auto
    then have "valid_cursor (Some q) c = None \<longleftrightarrow> continues_at (cc_offset c) (vp_event (es ! a))"
      using assms(2) a w(1) page_at(1) [OF assms(1,3), of a] assms(3) unfolding f
      by (simp add: valid_cursor_def committed_suffix_def cs)
    with a assms(3) show ?thesis by auto
  next
    case False
    with assms cs show ?thesis
      by (auto simp: valid_cursor_def committed_suffix_def intro: exI [of _ "length ?ps"])
  qed
qed

lemma rest_of_event_start: "ev = page_event p \<Longrightarrow> offset = je_start (vp_event p) \<Longrightarrow> rest_of_event offset ev = ev"
  by (simp add: rest_of_event_def page_event_def)

text \<open>Delivering \<open>k\<close> of the remaining events moves the cursor past them.\<close>

lemma rest_after:
  assumes "projection_ok q" "es = rev (vc_view (pj_verified q))" "cc_sequence after = int a" "a < length es"
    and "rest = events_after after (projected q)"
  shows "rest = rest_of_event (cc_offset after) (page_event (es ! a)) # drop (Suc a) (map page_event es)"
    "length rest = length es - a"
proof -
  have pr: "projected q = map page_event es" by (simp add: projected_def assms(2) rev_map)
  have "drop a (map page_event es) = page_event (es ! a) # drop (Suc a) (map page_event es)"
    using assms(4) by (simp add: Cons_nth_drop_Suc [symmetric])
  then show r: "rest = rest_of_event (cc_offset after) (page_event (es ! a)) # drop (Suc a) (map page_event es)"
    using assms(3) by (simp add: assms(5) events_after_def pr)
  show "length rest = length es - a" using assms(4) by (simp add: r Suc_diff_Suc)
qed

lemma rest_end:
  assumes "rest = rest_of_event off (page_event (es ! a)) # drop (Suc a) (map page_event es)" "0 < k" "k \<le> length es - a"
    and "length rest = length es - a"
  shows "je_end (last (take k rest)) = je_end (vp_event (es ! (a + k - 1)))"
proof -
  have "last (take k rest) = rest ! (k - 1)" using assms(2-4) last_take [of k rest] by simp
  moreover have "je_end (rest ! (k - 1)) = je_end (vp_event (es ! (a + k - 1)))"
  proof (cases "k = 1")
    case True
    then show ?thesis unfolding assms(1) by (simp add: rest_of_event_def page_event_def)
  next
    case False
    then have "k = Suc (Suc (k - 2))" using assms(2) by linarith
    then obtain i where i: "k = Suc (Suc i)" by blast
    then have "Suc (a + i) < length es" using assms(3) by simp
    then have n: "drop (Suc a) (map page_event es) ! i = page_event (es ! (Suc a + i))" by simp
    have m: "a + k - 1 = Suc a + i" using i by simp
    show ?thesis unfolding assms(1) m by (simp add: i n) (simp add: page_event_def)
  qed
  ultimately show ?thesis by simp
qed

lemma cursor_moves:
  assumes "projection_ok q" "events_pane (Some q) = Inr q" "es = rev (vc_view (pj_verified q))" "cc_sequence after = int a"
    and "0 < k" "k \<le> length es - a" "a < length es" "rest = events_after after (projected q)"
    and "nxt = \<lparr>cc_sequence = cc_sequence after + int k, cc_offset = je_end (last (take k rest))\<rparr>"
  shows "valid_cursor (Some q) nxt = None \<and> events_after nxt (projected q) = drop k rest"
proof -
  have pr: "projected q = map page_event es" by (simp add: projected_def assms(3) rev_map)
  note r = rest_after [OF assms(1,3,4,7,8)]
  note endk = rest_end [OF r(1) assms(5,6) r(2)]
  have ns: "cc_sequence nxt = int (a + k)" using assms(4) by (simp add: assms(9))
  then have nn: "nat (cc_sequence nxt) = a + k" by (simp only: nat_int)
  show ?thesis
  proof (cases "a + k < length es")
    case True
    from page_at(2) [OF assms(1,3) True] assms(5) endk have st: "je_start (vp_event (es ! (a + k))) = cc_offset nxt"
      by (simp add: assms(9))
    have "drop (a + k) (map page_event es) = page_event (es ! (a + k)) # drop (Suc (a + k)) (map page_event es)"
      using True by (simp add: Cons_nth_drop_Suc [symmetric])
    moreover have "drop k rest = drop (a + k) (map page_event es)"
      using assms(5) r(1) by (cases k) (simp_all add: add.commute)
    ultimately have "events_after nxt (projected q) = drop k rest"
      using st by (simp add: events_after_def nn pr rest_of_event_start)
    moreover have "continues_at (cc_offset nxt) (vp_event (es ! (a + k)))" by (simp add: continues_at_def st)
    ultimately show ?thesis using True ns valid_cursor_iff [OF assms(1-3), of nxt] by auto
  next
    case False
    then have e: "a + k = length es" using assms(6,7) by simp
    then have "cc_offset nxt = pj_committed q"
      using endk committed_end [OF assms(1,3)] assms(5) by (auto simp: assms(9) last_conv_nth)
    moreover have "events_after nxt (projected q) = drop k rest"
      using e nn r(2) by (simp add: events_after_def pr)
    ultimately show ?thesis using e ns valid_cursor_iff [OF assms(1-3), of nxt] by auto
  qed
qed

text \<open>
  C23: The committed projection can be read in pages without loss. A full read of a pane's committed
  projection delivers every committed event in order, each output with its payload. From any valid
  cursor, and for any bound on the bytes, a bounded read delivers the next events, the first one without
  the bytes already consumed: at least one event unless the cursor is at the committed frontier, more
  than one only within the bound. The cursor after the last event delivered is valid again, and from
  it exactly the remaining events are read.
\<close>

theorem projection_pages_lossless:
  assumes "projection_ok q" "events_pane (Some q) = Inr q" "valid_cursor (Some q) after = None"
  shows "read_committed_events (Some q) = Inr (projected q)
    \<and> (\<exists>k. let rest = events_after after (projected q); now = take k rest;
              nxt = (if k = 0 then after else \<lparr>cc_sequence = cc_sequence after + int k, cc_offset = je_end (last now)\<rparr>)
        in read_committed_events_after (Some q) after m = Inr now
           \<and> k \<le> length rest \<and> (k = 0 \<longleftrightarrow> cc_sequence after = pj_committed_sequence q)
           \<and> (if k < 2 then True else je_end (last now) - cc_offset after + int k * sizeof_event \<le> m)
           \<and> valid_cursor (Some q) nxt = None \<and> events_after nxt (projected q) = drop k rest)"
proof (intro conjI)
  show "read_committed_events (Some q) = Inr (projected q)" by (rule read_all [OF assms(1,2)])
  define es where "es = rev (vc_view (pj_verified q))"
  have pr: "projected q = map page_event es" by (simp add: projected_def es_def rev_map)
  have cs: "pj_committed_sequence q = int (length es)" using assms(1) by (simp add: projection_ok_def len_def es_def)
  from assms(3) [unfolded valid_cursor_iff [OF assms(1,2) es_def]] obtain a where a: "cc_sequence after = int a"
    and v: "a < length es \<and> continues_at (cc_offset after) (vp_event (es ! a)) \<or> a = length es \<and> cc_offset after = pj_committed q"
    by blast
  show "\<exists>k. let rest = events_after after (projected q); now = take k rest;
              nxt = (if k = 0 then after else \<lparr>cc_sequence = cc_sequence after + int k, cc_offset = je_end (last now)\<rparr>)
        in read_committed_events_after (Some q) after m = Inr now
           \<and> k \<le> length rest \<and> (k = 0 \<longleftrightarrow> cc_sequence after = pj_committed_sequence q)
           \<and> (if k < 2 then True else je_end (last now) - cc_offset after + int k * sizeof_event \<le> m)
           \<and> valid_cursor (Some q) nxt = None \<and> events_after nxt (projected q) = drop k rest"
  proof (cases "a < length es")
    case False
    with v have e: "a = length es" "cc_offset after = pj_committed q" by simp_all
    then have "read_committed_events_after (Some q) after m = Inr []"
      using assms(2) a cs by (simp add: read_committed_events_after_def committed_suffix_def)
    with e a cs assms(3) show ?thesis by (intro exI [of _ 0]) (simp add: Let_def)
  next
    case True
    with v have cont: "continues_at (cc_offset after) (vp_event (es ! a))" by auto
    from read_after [OF assms(1,2) a _ es_def cont, of m] a cs True obtain k where
      k: "0 < k" "k \<le> length es - a" "read_committed_events_after (Some q) after m = Inr (take k (events_after after (projected q)))"
      "k = 1 \<or> read_cost after (es ! (a + k - 1)) \<le> m" by auto
    define rest where "rest = events_after after (projected q)"
    define nxt where "nxt = \<lparr>cc_sequence = cc_sequence after + int k, cc_offset = je_end (last (take k rest))\<rparr>"
    note r = rest_after [OF assms(1) es_def a True rest_def]
    note endk = rest_end [OF r(1) k(1,2) r(2)]
    have "if k < 2 then True else je_end (last (take k rest)) - cc_offset after + int k * sizeof_event \<le> m"
    proof -
      have "je_sequence (vp_event (es ! (a + k - 1))) = int (a + k)"
        using page_at(1) [OF assms(1) es_def, of "a + k - 1"] k(1,2) True by simp
      then show ?thesis using k(4) a unfolding read_cost_def endk by auto
    qed
    with cursor_moves [OF assms(1,2) es_def a k(1,2) True rest_def nxt_def] k r(2) a cs True show ?thesis
      unfolding rest_def nxt_def by (intro exI [of _ k]) (simp add: Let_def)
  qed
qed

definition sample_pane_journal :: pane_journal where
  "sample_pane_journal = no_pane\<lparr>pj_admitted := True, pj_committed := 2, pj_committed_sequence := 2,
     pj_verified := no_cursor\<lparr>vc_view :=
       [\<lparr>vp_event = \<lparr>je_kind = record_geometry, je_sequence = 2, je_start = 2, je_end = 2,
            je_geometry = \<lparr>jg_columns = 100, jg_rows = 30\<rparr>, je_payload = []\<rparr>,
         vp_payload = [], vp_payload_bytes = 2, vp_metadata_bytes = 248\<rparr>,
        \<lparr>vp_event = \<lparr>je_kind = record_output, je_sequence = 1, je_start = 0, je_end = 2,
            je_geometry = no_geometry, je_payload = []\<rparr>,
         vp_payload = [\<lparr>pp_start = 0, pp_data = ''hi''\<rparr>], vp_payload_bytes = 2, vp_metadata_bytes = 144\<rparr>]\<rparr>\<rparr>"

theorem projection_pages_lossless_witness:
  "\<exists>k. read_committed_events_after (Some sample_pane_journal) \<lparr>cc_sequence = 0, cc_offset = 1\<rparr> 80
      = Inr (take k (events_after \<lparr>cc_sequence = 0, cc_offset = 1\<rparr> (projected sample_pane_journal)))
    \<and> 0 < k \<and> map je_payload (events_after \<lparr>cc_sequence = 0, cc_offset = 1\<rparr> (projected sample_pane_journal)) = [''i'', []]"
proof -
  have ok: "projection_ok sample_pane_journal" by code_simp
  have ep: "events_pane (Some sample_pane_journal) = Inr sample_pane_journal"
    by (simp add: events_pane_def sample_pane_journal_def no_pane_def)
  have v: "valid_cursor (Some sample_pane_journal) \<lparr>cc_sequence = 0, cc_offset = 1\<rparr> = None" by code_simp
  have l: "cc_sequence \<lparr>cc_sequence = 0, cc_offset = 1\<rparr> \<noteq> pj_committed_sequence sample_pane_journal" by code_simp
  have p: "map je_payload (events_after \<lparr>cc_sequence = 0, cc_offset = 1\<rparr> (projected sample_pane_journal)) = [''i'', []]"
    by code_simp
  from projection_pages_lossless [OF ok ep v, of 80] l p show ?thesis by (auto simp: Let_def)
qed

section \<open>Estimates\<close>

lemma power_ceiling_bounds: "0 < charge \<Longrightarrow> n \<le> power_ceiling charge n \<and> charge \<le> power_ceiling charge n
    \<and> (power_ceiling charge n = charge \<or> power_ceiling charge n < 2 * n) \<and> (\<exists>k. power_ceiling charge n = charge * 2 ^ k)"
proof (induction charge n rule: power_ceiling.induct)
  case (1 charge n)
  show ?case
  proof (cases "charge < n")
    case True
    with 1 have i: "n \<le> power_ceiling (charge * 2) n" "charge * 2 \<le> power_ceiling (charge * 2) n"
      "power_ceiling (charge * 2) n = charge * 2 \<or> power_ceiling (charge * 2) n < 2 * n"
      "\<exists>k. power_ceiling (charge * 2) n = charge * 2 * 2 ^ k" by auto
    from i(4) obtain k where "power_ceiling (charge * 2) n = charge * 2 * 2 ^ k" by blast
    then have "power_ceiling (charge * 2) n = charge * 2 ^ Suc k" by simp
    moreover have "power_ceiling charge n = power_ceiling (charge * 2) n"
      using True 1(2) by (subst power_ceiling.simps) simp
    ultimately have "\<exists>k. power_ceiling charge n = charge * 2 ^ k" by metis
    with i True 1(2) \<open>power_ceiling charge n = power_ceiling (charge * 2) n\<close> show ?thesis by auto
  next
    case False
    then have "power_ceiling charge n = charge" by (subst power_ceiling.simps) simp
    with False show ?thesis by (auto intro: exI [of _ 0])
  qed
qed

lemma allocation_charge_bounds:
  "n \<le> allocation_charge n
   \<and> (if n \<le> 0 then allocation_charge n = 0
      else if n \<le> 32 * 1024
      then (\<exists>k. allocation_charge n = 16 * 2 ^ k) \<and> (allocation_charge n = 16 \<or> allocation_charge n < 2 * n)
      else allocation_charge n mod (8 * 1024) = 0 \<and> allocation_charge n < n + 8 * 1024)"
proof (cases "n \<le> 32 * 1024")
  case True
  with power_ceiling_bounds [of 16 n] show ?thesis by (auto simp: allocation_charge_def)
next
  case False
  have m: "(8 * 1024 - 1 :: int) = mask 13" by (simp add: mask_eq_exp_minus_1)
  have "allocation_charge n = (n + 8 * 1024 - 1) div 2 ^ 13 * 2 ^ 13"
    using False unfolding allocation_charge_def m and_not_mask_int by simp
  moreover have "x div 2 ^ 13 * 2 ^ 13 = x - x mod 2 ^ 13" for x :: int by (simp add: minus_mod_eq_div_mult)
  moreover have "0 \<le> x mod 2 ^ 13" "x mod 2 ^ 13 < 2 ^ 13" for x :: int by simp_all
  moreover from calculation(1) have "allocation_charge n mod 2 ^ 13 = 0" by simp
  ultimately show ?thesis using False by (auto simp: algebra_simps)
qed

lemma sint_double: "0 < sint c \<Longrightarrow> sint (c :: 64 word) < 2 ^ 62 \<Longrightarrow> sint (c * 2) = sint c * 2"
  by (simp add: sint_word_ariths signed_take_bit_int_eq_self)

lemma power_loop_returns:
  assumes "0 < sint c" "sint c < 65536" "sint n \<le> 32768"
  shows "\<exists>d. power_loop c n = Some d \<and> sint d = power_ceiling (sint c) (sint n)"
  using assms
proof (induction "nat (sint n - sint c)" arbitrary: c rule: less_induct)
  case less
  show ?case
  proof (cases "sint c < sint n")
    case True
    have d: "sint (c * 2) = sint c * 2" using less.prems by (intro sint_double) simp_all
    have "\<exists>d. power_loop (c * 2) n = Some d \<and> sint d = power_ceiling (sint (c * 2)) (sint n)"
      by (rule less.hyps) (use d True less.prems in simp_all)
    then show ?thesis using True d less.prems(1)
      by (subst power_loop.simps, subst power_ceiling.simps) (simp add: word_sless_alt)
  next
    case False
    then show ?thesis by (subst power_loop.simps, subst power_ceiling.simps) (simp add: word_sless_alt)
  qed
qed

lemma allocation_returns:
  assumes "sint n < 2 ^ 63 - 8 * 1024"
  shows "\<exists>c. allocation_loop n = Some c \<and> sint c = allocation_charge (sint n)"
proof -
  consider (none) "sint n \<le> 0" | (small) "0 < sint n" "sint n \<le> 32768" | (large) "32768 < sint n" by linarith
  then show ?thesis
  proof cases
    case none
    then show ?thesis by (simp add: allocation_loop_def allocation_charge_def word_sle_eq)
  next
    case small
    with power_loop_returns [of 16 n] show ?thesis
      by (simp add: allocation_loop_def allocation_charge_def word_sle_eq word_sless_alt)
  next
    case large
    have "sint ((n + 8 * 1024 - 1) AND NOT (8 * 1024 - 1)) = (sint n + 8 * 1024 - 1) AND NOT (8 * 1024 - 1)"
    proof -
      have "sint (n + 8 * 1024 - 1) = sint n + 8 * 1024 - 1"
        using large assms by (simp add: sint_word_ariths signed_take_bit_int_eq_self)
      then show ?thesis by (simp add: signed_and_eq signed_not_eq)
    qed
    with large show ?thesis
      by (simp add: allocation_loop_def allocation_charge_def word_sle_eq word_sless_alt)
  qed
qed

lemma allocation_loop_total: "allocation_loop n \<noteq> None"
  using power_loop_returns [of 16 n] by (auto simp: allocation_loop_def word_sless_alt not_less)

text \<open>
  C24: \<open>AllocationCharge\<close> returns for every \<^verbatim>\<open>int64\<close>: its doubling loop, in wrapping arithmetic and with
  no bound of its own, ends. For every size that is not within a page of the largest integer no step of the
  computation overflows, and the charge is at least the bytes asked for: a power of two below twice the bytes
  (or the minimum of 16) up to 32 KiB, and beyond a multiple of 8 KiB less than one page above the bytes.
\<close>

theorem allocation_charge_returns:
  "\<exists>c. allocation_loop n = Some c
    \<and> (sint n < 2 ^ 63 - 8 * 1024 \<longrightarrow>
         sint c = allocation_charge (sint n) \<and> sint n \<le> sint c
         \<and> (if sint n \<le> 0 then sint c = 0
            else if sint n \<le> 32 * 1024 then (\<exists>k. sint c = 16 * 2 ^ k) \<and> (sint c = 16 \<or> sint c < 2 * sint n)
            else sint c mod (8 * 1024) = 0 \<and> sint c < sint n + 8 * 1024))"
proof -
  obtain c where c: "allocation_loop n = Some c" using allocation_loop_total by blast
  show ?thesis
  proof (intro exI conjI impI)
    show "allocation_loop n = Some c" by (rule c)
    assume "sint n < 2 ^ 63 - 8 * 1024"
    from allocation_returns [OF this] c have e: "sint c = allocation_charge (sint n)" by simp
    then show "sint c = allocation_charge (sint n)" .
    note b = allocation_charge_bounds [of "sint n"]
    show "sint n \<le> sint c" unfolding e by (rule conjunct1 [OF b])
    show "if sint n \<le> 0 then sint c = 0
       else if sint n \<le> 32 * 1024 then (\<exists>k. sint c = 16 * 2 ^ k) \<and> (sint c = 16 \<or> sint c < 2 * sint n)
       else sint c mod (8 * 1024) = 0 \<and> sint c < sint n + 8 * 1024"
      unfolding e by (rule conjunct2 [OF b])
  qed
qed

theorem allocation_charge_returns_witness:
  "\<exists>c. allocation_loop 40000 = Some c \<and> 40000 \<le> sint c \<and> sint c mod 8192 = 0 \<and> sint c < 48192"
  using allocation_charge_returns [of 40000] by auto

end
