(* ===== verification/Journal_Pane.thy ===== *)
theory Journal_Pane
  imports Journal_Projection
begin

text \<open>
  Writing and committing the records of one pane (\<open>writeAll\<close>, \<open>writeRecord\<close>, \<open>Sync\<close>,
  \<open>AdvanceCommitted\<close> of \<^verbatim>\<open>internal/unifiedjournal/journal.go\<close> and \<open>verifyCommitted\<close> of
  \<^verbatim>\<open>verified.go\<close>), on the pane's state and the bytes of its file. What the operating system
  answers to the calls comes with them; a readback delivers what the file holds or, when the environment
  says so, something else.

  The theorem: a commit that is acknowledged is on the disk, and recovering the file gives exactly the
  acknowledged projection, whatever uncommitted bytes follow it.
\<close>

section \<open>Writing\<close>

datatype write_error = WriteENOSPC | WriteFailed | WriteShort

text \<open>
  The loop of \<open>writeAll\<close>: every call answers how many bytes it took and whether it failed.
\<close>

fun write_all :: "(nat \<times> write_error option) list \<Rightarrow> bytes \<Rightarrow> bytes \<Rightarrow> write_error option \<times> bytes" where
  "write_all answers data disk =
     (if data = [] then (None, disk)
      else case answers of
        [] \<Rightarrow> (Some WriteFailed, disk)
      | (n, Some err) # _ \<Rightarrow> (Some err, disk @ take n data)
      | (n, None) # later \<Rightarrow>
          if n = 0 then (Some WriteShort, disk) else write_all later (drop n data) (disk @ take n data))"

declare write_all.simps [simp del]

definition invalidate_pane :: "invalidation_reason \<Rightarrow> pane_journal \<Rightarrow> pane_journal" where
  "invalidate_pane reason p =
     (if pj_state p \<noteq> EligibilityUntrusted then p\<lparr>pj_state := EligibilityUntrusted, pj_reason := reason\<rparr> else p)"

definition write_record ::
    "(nat \<times> write_error option) list \<Rightarrow> journal_record \<Rightarrow> bytes \<Rightarrow> pane_journal \<Rightarrow> bytes
      \<Rightarrow> journal_error option \<times> pane_journal \<times> bytes" where
  "write_record answers r payload p disk =
     (case write_all answers (encode_append r payload) disk of
        (Some err, disk') \<Rightarrow>
          (Some ErrStorage, invalidate_pane (if err = WriteENOSPC then ReasonENOSPC else ReasonCorruptJournal) p, disk')
      | (None, disk') \<Rightarrow>
          (None, p\<lparr>pj_sequence := jr_sequence r, pj_last := r, pj_pending := pj_pending p @ [r],
                  pj_stored := pj_stored p + int append_fixed + len payload\<rparr>, disk'))"

text \<open>The records the two appends write.\<close>

definition new_output_record :: "pane_journal \<Rightarrow> bytes \<Rightarrow> journal_record" where
  "new_output_record p payload =
     \<lparr>jr_kind = record_output, jr_sequence = wrap64 (pj_sequence p + 1), jr_start = pj_end p,
      jr_end = wrap64 (pj_end p + len payload), jr_hash = sha256 payload, jr_geometry = no_geometry\<rparr>"

definition new_geometry_record :: "pane_journal \<Rightarrow> journal_geometry \<Rightarrow> journal_record" where
  "new_geometry_record p g =
     \<lparr>jr_kind = record_geometry, jr_sequence = wrap64 (pj_sequence p + 1), jr_start = pj_end p, jr_end = pj_end p,
      jr_hash = geometry_hash (wrap64 (pj_sequence p + 1)) g, jr_geometry = g\<rparr>"

definition write_output ::
    "(nat \<times> write_error option) list \<Rightarrow> bytes \<Rightarrow> pane_journal \<Rightarrow> bytes \<Rightarrow> journal_error option \<times> pane_journal \<times> bytes" where
  "write_output answers payload p disk =
     (case write_record answers (new_output_record p payload) payload p disk of
        (Some err, p1, disk1) \<Rightarrow> (Some err, p1, disk1)
      | (None, p1, disk1) \<Rightarrow> (None, p1\<lparr>pj_end := jr_end (new_output_record p payload)\<rparr>, disk1))"

definition write_geometry ::
    "(nat \<times> write_error option) list \<Rightarrow> journal_geometry \<Rightarrow> pane_journal \<Rightarrow> bytes \<Rightarrow> journal_error option \<times> pane_journal \<times> bytes" where
  "write_geometry answers g p disk = write_record answers (new_geometry_record p g) [] p disk"

definition sync_pane :: "write_error option \<Rightarrow> pane_journal \<Rightarrow> journal_error option \<times> pane_journal" where
  "sync_pane answer p =
     (if pj_state p \<noteq> EligibilityContinuous then (Some ErrInvalidated, p)
      else case answer of
        None \<Rightarrow> (None, p)
      | Some err \<Rightarrow>
          (Some ErrStorage, invalidate_pane (if err = WriteENOSPC then ReasonENOSPC else ReasonCorruptJournal) p))"

section \<open>Committing\<close>

text \<open>
  The loop of \<open>verifyCommitted\<close>: up to the stored size, every frame read must be legal and every append
  the next pending one.
\<close>

function verify_frames ::
    "int \<Rightarrow> reader \<Rightarrow> journal_record list \<Rightarrow> verified_cursor \<Rightarrow> (journal_record list \<times> verified_cursor) option" where
  "verify_frames stored rd expected c =
     (if vc_physical c < stored then
        (case cursor_next rd c of
           Inl _ \<Rightarrow> None
         | Inr (False, rd', c') \<Rightarrow> verify_frames stored rd' expected c'
         | Inr (True, rd', c') \<Rightarrow>
             (case expected of
                [] \<Rightarrow> None
              | r # later \<Rightarrow> if vc_last c' = r then verify_frames stored rd' later c' else None))
      else Some (expected, c))"
  by pat_completeness auto

termination by (relation "measure (\<lambda>(_, rd, _, _). length (rd_data rd))") (auto dest: next_consumes)

declare verify_frames.simps [simp del]

text \<open>The header is read back, too, with the first commit.\<close>

definition verify_header ::
    "(bytes \<Rightarrow> journal_header option) \<Rightarrow> string \<Rightarrow> pane_journal \<Rightarrow> reader \<Rightarrow> (reader \<times> verified_cursor) option" where
  "verify_header unmarshal incarnation p rd =
     (if vc_physical (pj_verified p) \<noteq> 0 then Some (rd, pj_verified p)
      else case decode_header unmarshal rd of
        None \<Rightarrow> None
      | Some (h, n, digest, rd') \<Rightarrow>
          (case accept_header no_pane h of
             (ok, accepted) \<Rightarrow>
               if \<not> ok \<or> digest \<noteq> pj_header_hash p \<or> n \<noteq> pj_header_size p \<or> pj_key accepted \<noteq> pj_key p
                  \<or> pj_initial accepted \<noteq> pj_initial p \<or> pj_admitted accepted \<noteq> pj_admitted p
                  \<or> pj_origin accepted \<noteq> pj_origin p \<or> jh_incarnation h \<noteq> incarnation
               then None else Some (rd', (pj_verified p)\<lparr>vc_physical := n\<rparr>)))"

definition verify_committed ::
    "(bytes \<Rightarrow> journal_header option) \<Rightarrow> string \<Rightarrow> pane_journal \<Rightarrow> journal_record \<Rightarrow> reader \<Rightarrow> verified_cursor option" where
  "verify_committed unmarshal incarnation p expected rd =
     (case verify_header unmarshal incarnation p rd of
        None \<Rightarrow> None
      | Some (rd', c0) \<Rightarrow>
          (case verify_frames (pj_stored p) rd' (pj_pending p) c0 of
             None \<Rightarrow> None
           | Some (rest, c) \<Rightarrow>
               if vc_physical c \<noteq> pj_stored p \<or> rest \<noteq> [] \<or> vc_last c \<noteq> expected
                  \<or> vc_committed c \<noteq> jr_end expected \<or> vc_committed_sequence c \<noteq> jr_sequence expected
                  \<or> vc_view c \<noteq> vc_tail c
               then None else Some c))"

text \<open>
  The section of the file from the verified position to the stored size, as the environment delivers it:
  what the file holds, or the reader given instead.
\<close>

definition read_back :: "reader option \<Rightarrow> pane_journal \<Rightarrow> bytes \<Rightarrow> reader" where
  "read_back answer p disk =
     (case answer of
        Some rd \<Rightarrow> rd
      | None \<Rightarrow>
          \<lparr>rd_data = take (nat (pj_stored p - vc_physical (pj_verified p))) (drop (nat (vc_physical (pj_verified p))) disk),
           rd_broken = False\<rparr>)"

record commit_io =
  ci_writes :: "(nat \<times> write_error option) list"
  ci_sync :: "write_error option"
  ci_read :: "reader option"

definition advance_committed ::
    "(bytes \<Rightarrow> journal_header option) \<Rightarrow> string \<Rightarrow> commit_io \<Rightarrow> journal_record \<Rightarrow> pane_journal \<Rightarrow> bytes
      \<Rightarrow> journal_error option \<times> pane_journal \<times> bytes" where
  "advance_committed unmarshal incarnation io r p disk =
     (if pj_state p \<noteq> EligibilityContinuous then (Some ErrInvalidated, p, disk)
      else if pj_last p \<noteq> r \<or> jr_sequence r \<noteq> pj_sequence p \<or> jr_sequence r \<le> pj_committed_sequence p
              \<or> jr_end r \<noteq> pj_end p
      then (Some ErrInvalidRecord, invalidate_pane ReasonCorruptJournal p, disk)
      else case write_all (ci_writes io) (encode_commit r) disk of
        (werr, disk') \<Rightarrow>
          if werr \<noteq> None \<or> ci_sync io \<noteq> None then (Some ErrStorage, invalidate_pane ReasonENOSPC p, disk')
          else
            let p1 = p\<lparr>pj_stored := pj_stored p + int commit_fixed\<rparr>
            in case verify_committed unmarshal incarnation p1 r (read_back (ci_read io) p1 disk') of
                 None \<Rightarrow> (Some ErrCorruptJournal, invalidate_pane ReasonCorruptJournal p1, disk')
               | Some c \<Rightarrow>
                   (None, p1\<lparr>pj_verified := c, pj_committed := vc_committed c,
                            pj_committed_sequence := vc_committed_sequence c, pj_pending := []\<rparr>, disk'))"

section \<open>What the file holds\<close>

lemma write_all_lands: "\<exists>n. snd (write_all answers data disk) = disk @ take n data \<and>
    (fst (write_all answers data disk) = None \<longrightarrow> take n data = data)"
proof (induction answers data disk rule: write_all.induct)
  case (1 answers data disk)
  show ?case
  proof (cases "data = []")
    case True
    then show ?thesis by (simp add: write_all.simps)
  next
    case ne: False
    show ?thesis
    proof (cases answers)
      case Nil
      with ne show ?thesis by (subst (1 2) write_all.simps) (auto intro: exI [of _ 0])
    next
      case (Cons a later)
      obtain n e where a: "a = (n, e)" by (cases a)
      show ?thesis
      proof (cases e)
        case (Some err)
        with ne Cons a show ?thesis by (subst (1 2) write_all.simps) auto
      next
        case None
        show ?thesis
        proof (cases "n = 0")
          case True
          with ne Cons a None show ?thesis by (subst (1 2) write_all.simps) (auto intro: exI [of _ 0])
        next
          case False
          from "1.IH" [OF ne Cons a [symmetric] None False] obtain m where
            m: "snd (write_all later (drop n data) (disk @ take n data)) = (disk @ take n data) @ take m (drop n data)"
            "fst (write_all later (drop n data) (disk @ take n data)) = None \<longrightarrow> take m (drop n data) = drop n data" by auto
          have w: "write_all answers data disk = write_all later (drop n data) (disk @ take n data)"
            using ne Cons a None False by (subst write_all.simps) simp
          have t: "take (n + m) data = take n data @ take m (drop n data)" by (rule take_add)
          show ?thesis unfolding w
          proof (intro exI [of _ "n + m"] conjI impI)
            show "snd (write_all later (drop n data) (disk @ take n data)) = disk @ take (n + m) data"
              using m(1) by (simp only: t append_assoc)
            assume "fst (write_all later (drop n data) (disk @ take n data)) = None"
            with m(2) show "take (n + m) data = data" unfolding t by simp
          qed
        qed
      qed
    qed
  qed
qed

text \<open>The entries of a list of appends.\<close>

definition appends :: "(journal_record \<times> bytes) list \<Rightarrow> journal_entry list" where
  "appends = map (\<lambda>x. Appended (fst x) (snd x))"

lemma appends_Nil [simp]: "appends [] = []"
  by (simp add: appends_def)

text \<open>A header and the pane that was created with it.\<close>

definition headed :: "(bytes \<Rightarrow> journal_header option) \<Rightarrow> string \<Rightarrow> bytes \<Rightarrow> pane_journal \<Rightarrow> bool" where
  "headed unmarshal incarnation hb p \<longleftrightarrow>
     (\<exists>h q. encode_header h = Inr hb \<and> unmarshal (marshal_header h) = Some h \<and> jh_version h = journal_version
        \<and> jh_incarnation h = incarnation \<and> accept_header no_pane h = (True, q)
        \<and> pj_key p = pj_key q \<and> pj_initial p = pj_initial q \<and> pj_admitted p = pj_admitted q \<and> pj_origin p = pj_origin q
        \<and> pj_header_hash p = sha256 hb \<and> pj_header_size p = len hb)"

text \<open>
  The file holds the header, the entries \<open>es\<close> that are acknowledged (none, or ending with a commit)
  and the appends \<open>pend\<close> not yet committed; the pane's counters are those of this log.
\<close>

definition holds :: "bytes \<Rightarrow> journal_entry list \<Rightarrow> (journal_record \<times> bytes) list \<Rightarrow> pane_journal \<Rightarrow> bytes \<Rightarrow> bool" where
  "holds hb es pend p disk \<longleftrightarrow>
     (let c = foldl entry_apply (at_start (len hb)) es;
          c' = foldl entry_apply (at_start (len hb)) (es @ appends pend)
      in entries_legal (at_start (len hb)) (es @ appends pend)
         \<and> disk = hb @ entries_bytes (at_start (len hb)) (es @ appends pend)
         \<and> (es = [] \<and> pj_verified p = no_cursor \<or> es \<noteq> [] \<and> last es = Committed \<and> pj_verified p = c)
         \<and> pj_pending p = map fst pend \<and> pj_sequence p = vc_sequence c' \<and> pj_end p = vc_end c'
         \<and> pj_stored p = vc_physical c' \<and> pj_last p = vc_last c'
         \<and> pj_committed p = vc_committed c \<and> pj_committed_sequence p = vc_committed_sequence c)"

lemma start_physical [simp]: "vc_physical (at_start n) = n"
  by (simp add: at_start_def)

lemma holds_append:
  assumes "holds hb es pend p disk" "entry_legal (foldl entry_apply (at_start (len hb)) (es @ appends pend)) (Appended r payload)"
  shows "holds hb es (pend @ [(r, payload)])
     (p\<lparr>pj_sequence := jr_sequence r, pj_last := r, pj_pending := pj_pending p @ [r],
        pj_stored := pj_stored p + int append_fixed + len payload, pj_end := jr_end r\<rparr>)
     (disk @ encode_append r payload)"
  using assms
  by (auto simp: holds_def appends_def Let_def entries_bytes_append entries_legal_append entry_bytes_def entry_apply_def append_record_def)

lemma output_legal:
  assumes "holds hb es pend p disk" "len payload < 2 ^ 32"
  shows "entry_legal (foldl entry_apply (at_start (len hb)) (es @ appends pend)) (Appended (new_output_record p payload) payload)"
  using assms by (auto simp: holds_def Let_def entry_legal_def append_admissible_def new_output_record_def sha256_length)

lemma geometry_legal:
  assumes "holds hb es pend p disk" "geometry_valid g"
  shows "entry_legal (foldl entry_apply (at_start (len hb)) (es @ appends pend)) (Appended (new_geometry_record p g) [])"
  using assms
  by (auto simp: holds_def Let_def entry_legal_def append_admissible_def new_geometry_record_def record_geometry_def record_output_def)

text \<open>The readback of a log whose last entry is the new commit.\<close>

lemma verify_appends:
  assumes "entries_legal c (appends pend)" "cursor_fits c" "rd_data rd = entries_bytes c (appends pend) @ rest" "\<not> rd_broken rd"
    and "vc_physical (foldl entry_apply c (appends pend)) < stored"
  shows "verify_frames stored rd (map fst pend @ others) c
    = verify_frames stored (rd\<lparr>rd_data := rest\<rparr>) others (foldl entry_apply c (appends pend))"
  using assms
proof (induction pend arbitrary: c rd)
  case (Cons x pend)
  obtain r p where x: "x = (r, p)" by (cases x)
  have l: "entry_legal c (Appended r p)" "entries_legal (entry_apply c (Appended r p)) (appends pend)"
    using Cons.prems(1) x by (simp_all add: appends_def)
  have d: "rd_data rd = entry_bytes c (Appended r p) @ entries_bytes (entry_apply c (Appended r p)) (appends pend) @ rest"
    using Cons.prems(3) x by (simp add: appends_def)
  note n = next_reads [OF l(1) Cons.prems(2) d]
  have mono: "vc_physical c \<le> vc_physical (foldl entry_apply c (appends (x # pend)))"
    using entries_physical [OF Cons.prems(1,2)] by simp
  have last: "vc_last (entry_apply c (Appended r p)) = r" by (simp add: entry_apply_def append_record_def)
  have "verify_frames stored rd (map fst (x # pend) @ others) c
      = verify_frames stored (rd\<lparr>rd_data := entries_bytes (entry_apply c (Appended r p)) (appends pend) @ rest\<rparr>)
          (map fst pend @ others) (entry_apply c (Appended r p))"
    using n mono Cons.prems(5) x last by (subst verify_frames.simps) (simp add: is_append_def)
  also have "\<dots> = verify_frames stored (rd\<lparr>rd_data := rest\<rparr>) others (foldl entry_apply (entry_apply c (Appended r p)) (appends pend))"
    using Cons.IH [OF l(2) apply_fits [OF l(1) Cons.prems(2)], of "rd\<lparr>rd_data := entries_bytes (entry_apply c (Appended r p)) (appends pend) @ rest\<rparr>"]
      Cons.prems(4,5) x by (simp add: appends_def)
  finally show ?case using x by (simp add: appends_def)
next
  case Nil
  then have "rd\<lparr>rd_data := rest\<rparr> = rd" by (cases rd) (simp add: appends_def)
  then show ?case by (simp add: appends_def)
qed

lemma verify_log:
  assumes "entries_legal c (appends pend @ [Committed])" "cursor_fits c"
    and "rd_data rd = entries_bytes c (appends pend @ [Committed])" "\<not> rd_broken rd"
    and "stored = vc_physical (foldl entry_apply c (appends pend)) + int commit_fixed"
  shows "verify_frames stored rd (map fst pend) c = Some ([], foldl entry_apply c (appends pend @ [Committed]))"
proof -
  let ?c = "foldl entry_apply c (appends pend)"
  have l: "entries_legal c (appends pend)" "entry_legal ?c Committed"
    using assms(1) by (simp_all add: entries_legal_append)
  have f: "cursor_fits ?c" by (rule entries_fit [OF l(1) assms(2)])
  have cf: "0 < int commit_fixed" by (simp add: commit_fixed_def)
  have d: "rd_data rd = entries_bytes c (appends pend) @ entry_bytes ?c Committed"
    using assms(3) by (simp add: entries_bytes_append)
  have "verify_frames stored rd (map fst pend) c = verify_frames stored (rd\<lparr>rd_data := entry_bytes ?c Committed\<rparr>) [] ?c"
    using verify_appends [OF l(1) assms(2) d assms(4), of stored "[]"] assms(5) cf by simp
  also have "\<dots> = Some ([], entry_apply ?c Committed)"
    using next_reads [OF l(2) f, of "rd\<lparr>rd_data := entry_bytes ?c Committed\<rparr>" "[]"] assms(5) cf
    by (subst verify_frames.simps) (simp add: is_append_def verify_frames.simps entry_apply_def)
  finally show ?thesis by simp
qed

lemma headed_length: "headed unmarshal incarnation hb p \<Longrightarrow> 8 \<le> len hb"
  using encode_headerD(4) by (fastforce simp: headed_def len_def)

lemma headed_verify:
  assumes "headed unmarshal incarnation hb p" "rd_data rd = hb @ rest" "pj_verified p = no_cursor"
  shows "verify_header unmarshal incarnation p rd = Some (rd\<lparr>rd_data := rest\<rparr>, at_start (len hb))"
proof -
  from assms(1) obtain h q where h: "encode_header h = Inr hb" "unmarshal (marshal_header h) = Some h"
    "jh_version h = journal_version" "jh_incarnation h = incarnation" "accept_header no_pane h = (True, q)"
    "pj_key p = pj_key q" "pj_initial p = pj_initial q" "pj_admitted p = pj_admitted q" "pj_origin p = pj_origin q"
    "pj_header_hash p = sha256 hb" "pj_header_size p = len hb" by (auto simp: headed_def)
  have "decode_header unmarshal rd = Some (h, len hb, sha256 hb, rd\<lparr>rd_data := rest\<rparr>)"
    by (rule decode_header_reads [OF h(1), where unmarshal = unmarshal]) (use h(2,3) assms(2) in simp_all)
  with h assms(3) show ?thesis by (simp add: verify_header_def at_start_def no_cursor_def)
qed

lemma holds_stored:
  assumes "holds hb es pend p disk"
  shows "pj_stored p = len disk"
proof -
  have "entries_legal (at_start (len hb)) (es @ appends pend)" "disk = hb @ entries_bytes (at_start (len hb)) (es @ appends pend)"
    "pj_stored p = vc_physical (foldl entry_apply (at_start (len hb)) (es @ appends pend))"
    using assms by (simp_all add: holds_def Let_def)
  with entries_physical [of "at_start (len hb)" "es @ appends pend"] show ?thesis by simp
qed

lemma advance_holds:
  assumes "holds hb es pend p disk" "headed unmarshal incarnation hb p"
    and "advance_committed unmarshal incarnation io r p disk = (res, p', disk')" "pj_state p = EligibilityContinuous"
    and "pj_last p = r" "jr_sequence r = pj_sequence p" "pj_committed_sequence p < jr_sequence r" "jr_end r = pj_end p"
    and "write_all (ci_writes io) (encode_commit r) disk = (None, disk')" "ci_sync io = None" "ci_read io = None"
  shows "res = None \<and> holds hb (es @ appends pend @ [Committed]) [] p' disk' \<and> pj_state p' = EligibilityContinuous"
proof -
  let ?c0 = "at_start (len hb)"
  define c where "c = foldl entry_apply ?c0 es"
  define c' where "c' = foldl entry_apply c (appends pend)"
  have h: "entries_legal ?c0 (es @ appends pend)" "disk = hb @ entries_bytes ?c0 (es @ appends pend)"
    "pj_pending p = map fst pend" "pj_sequence p = vc_sequence c'" "pj_end p = vc_end c'" "pj_stored p = vc_physical c'"
    "pj_last p = vc_last c'" "pj_committed p = vc_committed c" "pj_committed_sequence p = vc_committed_sequence c"
    and v: "es = [] \<and> pj_verified p = no_cursor \<or> es \<noteq> [] \<and> last es = Committed \<and> pj_verified p = c"
    using assms(1) by (simp_all add: holds_def Let_def c_def c'_def)
  have les: "entries_legal ?c0 es" "entries_legal c (appends pend)" using h(1) by (simp_all add: entries_legal_append c_def)
  have fc: "cursor_fits c" unfolding c_def by (rule entries_fit [OF les(1) at_start_fits])
  have comm: "vc_committed_sequence c' = vc_committed_sequence c"
  proof -
    have "vc_committed_sequence (foldl entry_apply d (appends xs)) = vc_committed_sequence d" for d xs
      by (induction xs arbitrary: d) (simp_all add: appends_def entry_apply_def append_record_def)
    then show ?thesis by (simp add: c'_def)
  qed
  have lc: "entry_legal c' Committed" using assms(5-8) h comm by (simp add: entry_legal_def)
  have lall: "entries_legal c (appends pend @ [Committed])" using les(2) lc by (simp add: entries_legal_append c'_def)
  have rc: "r = vc_last c'" using assms(5) h(7) by simp
  have dsk: "disk' = disk @ encode_commit r"
    using write_all_lands [of "ci_writes io" "encode_commit r" disk] assms(9) by auto
  then have d': "disk' = hb @ entries_bytes ?c0 es @ entries_bytes c (appends pend @ [Committed])"
    using h(2) rc by (simp add: entries_bytes_append c_def c'_def entry_bytes_def)
  define p1 where "p1 = p\<lparr>pj_stored := pj_stored p + int commit_fixed\<rparr>"
  have st: "pj_stored p1 = len disk'"
    using holds_stored [OF assms(1)] dsk fc entries_fit [OF les(2) fc] rc
    by (simp add: p1_def c'_def cursor_fits_def len_def)
  have phys: "pj_stored p1 = vc_physical c' + int commit_fixed" using h(6) by (simp add: p1_def)
  have hb8: "8 \<le> len hb" by (rule headed_length [OF assms(2)])
  have hd1: "headed unmarshal incarnation hb p1" using assms(2) by (simp add: headed_def p1_def)
  have vl: "verify_frames (pj_stored p1) \<lparr>rd_data = entries_bytes c (appends pend @ [Committed]), rd_broken = False\<rparr> (map fst pend) c
      = Some ([], entry_apply c' Committed)"
    using verify_log [OF lall fc _ _ phys [unfolded c'_def], of "\<lparr>rd_data = entries_bytes c (appends pend @ [Committed]), rd_broken = False\<rparr>"]
    by (simp add: c'_def)
  have rd: "\<exists>rd. verify_header unmarshal incarnation p1 (read_back None p1 disk') = Some (rd, c)
      \<and> rd = \<lparr>rd_data = entries_bytes c (appends pend @ [Committed]), rd_broken = False\<rparr>"
  proof (cases "es = []")
    case True
    then have vn: "pj_verified p1 = no_cursor" using v by (simp add: p1_def)
    have "read_back None p1 disk' = \<lparr>rd_data = disk', rd_broken = False\<rparr>"
      using st by (simp add: read_back_def vn no_cursor_def len_def)
    moreover have "disk' = hb @ entries_bytes c (appends pend @ [Committed])" using d' True by simp
    ultimately show ?thesis using headed_verify [OF hd1 _ vn, of "read_back None p1 disk'"] True by (simp add: c_def)
  next
    case False
    then have vc: "pj_verified p1 = c" using v by (simp add: p1_def)
    have pc: "vc_physical c = len (hb @ entries_bytes ?c0 es)"
      using entries_physical [OF les(1) at_start_fits] by (simp add: c_def at_start_def)
    then have "vc_physical c = len hb + len (entries_bytes ?c0 es)" by simp
    then have "vc_physical c \<noteq> 0" using hb8 len_simps(4) [of "entries_bytes ?c0 es"] by linarith
    moreover have "drop (nat (vc_physical c)) disk' = entries_bytes c (appends pend @ [Committed])"
      unfolding pc d' by (simp add: len_def)
    moreover have "nat (pj_stored p1 - vc_physical c) = length (entries_bytes c (appends pend @ [Committed]))"
      unfolding pc st d' by (simp add: len_def)
    ultimately show ?thesis by (simp add: verify_header_def read_back_def vc)
  qed
  have "verify_committed unmarshal incarnation p1 r (read_back None p1 disk') = Some (entry_apply c' Committed)"
    using rd vl h(3) phys assms(8) h(4-7) rc
    by (auto simp: verify_committed_def p1_def entry_apply_def)
  then have res: "(res, p', disk') = (None, p1\<lparr>pj_verified := entry_apply c' Committed,
      pj_committed := vc_committed (entry_apply c' Committed),
      pj_committed_sequence := vc_committed_sequence (entry_apply c' Committed), pj_pending := []\<rparr>, disk')"
    using assms(3-11) by (simp add: advance_committed_def p1_def Let_def)
  have "holds hb (es @ appends pend @ [Committed]) [] p' disk'"
    using res h d' lall les(1) phys
    by (simp add: holds_def Let_def appends_Nil entries_legal_append entries_bytes_append c_def [symmetric] c'_def [symmetric] p1_def)
      (simp add: c_def c'_def entries_legal_append entry_apply_def)
  with res assms(4) show ?thesis by (simp add: p1_def)
qed

section \<open>A pane's life\<close>

text \<open>The pane that \<open>createPaneWithHeader\<close> makes once its header is written.\<close>

definition created_pane :: "pane_key \<Rightarrow> string \<Rightarrow> journal_geometry option \<Rightarrow> generation_origin \<Rightarrow> bytes \<Rightarrow> pane_journal" where
  "created_pane key stream initial origin header =
     no_pane\<lparr>pj_key := key, pj_stream := stream, pj_file := True, pj_state := EligibilityContinuous,
       pj_stored := len header, pj_origin := Some origin, pj_header_size := len header,
       pj_header_hash := sha256 header, pj_physical := len header,
       pj_initial := (case initial of None \<Rightarrow> no_geometry | Some g \<Rightarrow> g), pj_admitted := (initial \<noteq> None)\<rparr>"

datatype pane_op =
    PaneOutput "(nat \<times> write_error option) list" bytes
  | PaneGeometry "(nat \<times> write_error option) list" journal_geometry
  | PaneSync "write_error option"
  | PaneCommit commit_io journal_record
  | PaneInvalidate invalidation_reason

definition pane_step ::
    "(bytes \<Rightarrow> journal_header option) \<Rightarrow> string \<Rightarrow> pane_journal \<times> bytes \<Rightarrow> pane_op \<Rightarrow> pane_journal \<times> bytes" where
  "pane_step unmarshal incarnation s op =
     (case s of (p, disk) \<Rightarrow>
        (case op of
           PaneOutput answers payload \<Rightarrow>
             if pj_state p \<noteq> EligibilityContinuous then s else snd (write_output answers payload p disk)
         | PaneGeometry answers g \<Rightarrow>
             if pj_state p \<noteq> EligibilityContinuous \<or> \<not> geometry_valid g then s
             else snd (write_geometry answers g p disk)
         | PaneSync answer \<Rightarrow> (snd (sync_pane answer p), disk)
         | PaneCommit io r \<Rightarrow> snd (advance_committed unmarshal incarnation io r p disk)
         | PaneInvalidate reason \<Rightarrow> (invalidate_pane reason p, disk)))"

text \<open>Payloads fit the length field of their frame; a readback delivers what the file holds.\<close>

definition op_ok :: "pane_op \<Rightarrow> bool" where
  "op_ok op \<longleftrightarrow>
     (case op of PaneOutput _ payload \<Rightarrow> len payload < 2 ^ 32 | PaneCommit io _ \<Rightarrow> ci_read io = None | _ \<Rightarrow> True)"

text \<open>A log that may end in a piece of one more entry.\<close>

definition pane_logged :: "bytes \<Rightarrow> pane_journal \<Rightarrow> bytes \<Rightarrow> bool" where
  "pane_logged hb p disk \<longleftrightarrow>
     (\<exists>es rest x n. entries_legal (at_start (len hb)) (es @ rest @ x) \<and> length x \<le> 1
        \<and> (es = [] \<and> pj_verified p = no_cursor \<or> pj_verified p = foldl entry_apply (at_start (len hb)) es)
        \<and> disk = hb @ entries_bytes (at_start (len hb)) (es @ rest)
            @ take n (entries_bytes (foldl entry_apply (at_start (len hb)) (es @ rest)) x))"

definition pane_kept :: "bytes \<Rightarrow> pane_journal \<times> bytes \<Rightarrow> bool" where
  "pane_kept hb s \<longleftrightarrow>
     (case s of (p, disk) \<Rightarrow>
        if pj_state p = EligibilityContinuous then \<exists>es pend. holds hb es pend p disk else pane_logged hb p disk)"

lemma holds_pane_logged: "holds hb es pend p disk \<Longrightarrow> pj_verified p' = pj_verified p \<Longrightarrow> pane_logged hb p' disk"
  unfolding pane_logged_def holds_def Let_def
  by (intro exI [of _ es] exI [of _ "appends pend"] exI [of _ "[]"] exI [of _ 0]) auto

lemma torn_logged:
  assumes "holds hb es pend p disk" "entry_legal (foldl entry_apply (at_start (len hb)) (es @ appends pend)) en"
    and "pj_verified p' = pj_verified p"
    and "disk' = disk @ take n (entry_bytes (foldl entry_apply (at_start (len hb)) (es @ appends pend)) en)"
  shows "pane_logged hb p' disk'"
  unfolding pane_logged_def using assms
  by (intro exI [of _ es] exI [of _ "appends pend"] exI [of _ "[en]"] exI [of _ n])
    (auto simp: holds_def Let_def entries_legal_append)

lemma invalidate_kept [simp]:
  "pj_verified (invalidate_pane reason p) = pj_verified p" "pj_state (invalidate_pane reason p) = EligibilityUntrusted"
  "headed unmarshal incarnation hb (invalidate_pane reason p) = headed unmarshal incarnation hb p"
  by (auto simp: invalidate_pane_def headed_def)

lemma write_record_kept:
  assumes "holds hb es pend p disk" "pj_state p = EligibilityContinuous"
    and "entry_legal (foldl entry_apply (at_start (len hb)) (es @ appends pend)) (Appended r payload)"
    and "write_record answers r payload p disk = (res, p', disk')"
  shows "if res = None then pj_state p' = EligibilityContinuous \<and> holds hb es (pend @ [(r, payload)]) (p'\<lparr>pj_end := jr_end r\<rparr>) disk'
    else pj_state p' \<noteq> EligibilityContinuous \<and> pane_logged hb p' disk'"
proof -
  let ?w = "write_all answers (encode_append r payload) disk"
  obtain n where n: "snd ?w = disk @ take n (encode_append r payload)" "fst ?w = None \<longrightarrow> take n (encode_append r payload) = encode_append r payload"
    using write_all_lands by blast
  show ?thesis
  proof (cases "fst ?w")
    case None
    then have w: "?w = (None, disk @ encode_append r payload)" using n by (cases ?w) simp
    with assms(2,4) holds_append [OF assms(1,3)] show ?thesis by (auto simp: write_record_def)
  next
    case (Some err)
    then have w: "?w = (Some err, disk @ take n (encode_append r payload))" using n by (cases ?w) simp
    have "pane_logged hb (invalidate_pane reason p) (disk @ take n (encode_append r payload))" for reason
      by (rule torn_logged [OF assms(1,3)]) (simp_all add: entry_bytes_def)
    with w assms(4) show ?thesis by (auto simp: write_record_def)
  qed
qed

lemma advance_kept:
  assumes "holds hb es pend p disk" "headed unmarshal incarnation hb p" "pj_state p = EligibilityContinuous"
    and "ci_read io = None" "advance_committed unmarshal incarnation io r p disk = (res, p', disk')"
  shows "pane_kept hb (p', disk')"
proof (cases "pj_last p \<noteq> r \<or> jr_sequence r \<noteq> pj_sequence p \<or> jr_sequence r \<le> pj_committed_sequence p \<or> jr_end r \<noteq> pj_end p")
  case True
  then have "p' = invalidate_pane ReasonCorruptJournal p" "disk' = disk"
    using assms(3,5) unfolding advance_committed_def by (simp_all split: if_splits)
  with holds_pane_logged [OF assms(1)] show ?thesis by (simp add: pane_kept_def)
next
  case False
  let ?w = "write_all (ci_writes io) (encode_commit r) disk"
  let ?c = "foldl entry_apply (at_start (len hb)) (es @ appends pend)"
  obtain n where n: "snd ?w = disk @ take n (encode_commit r)" using write_all_lands by blast
  show ?thesis
  proof (cases "fst ?w = None \<and> ci_sync io = None")
    case True
    obtain d where d: "?w = (None, d)" using True by (cases ?w) simp
    then have "d = disk'" using assms(3,5) False True
      by (auto simp: advance_committed_def Let_def split: option.splits)
    with d advance_holds [OF assms(1,2,5,3)] False True assms(4) show ?thesis
      by (auto simp: pane_kept_def)
  next
    case bad: False
    then have r: "p' = invalidate_pane ReasonENOSPC p" "disk' = snd ?w"
      using assms(3,5) False by (auto simp: advance_committed_def split: prod.splits)
    have "vc_committed_sequence ?c = pj_committed_sequence p"
    proof -
      have "vc_committed_sequence (foldl entry_apply d (appends xs)) = vc_committed_sequence d" for d xs
        by (induction xs arbitrary: d) (simp_all add: appends_def entry_apply_def append_record_def)
      then show ?thesis using assms(1) by (simp add: holds_def Let_def)
    qed
    then have l: "entry_legal ?c Committed" "r = vc_last ?c"
      using assms(1) False by (auto simp: holds_def Let_def entry_legal_def)
    have "pane_logged hb p' disk'"
      by (rule torn_logged [OF assms(1) l(1), of _ _ n]) (use r n l(2) in \<open>simp_all add: entry_bytes_def\<close>)
    with r show ?thesis by (simp add: pane_kept_def)
  qed
qed

lemma write_record_headed:
  "write_record answers r payload p disk = (res, p', disk') \<Longrightarrow>
     headed unmarshal incarnation hb p' = headed unmarshal incarnation hb p"
  by (auto simp: write_record_def headed_def invalidate_pane_def split: prod.splits option.splits if_splits)

lemma advance_headed:
  "advance_committed unmarshal incarnation io r p disk = (res, p', disk') \<Longrightarrow>
     headed u i hb p' = headed u i hb p"
  by (auto simp: advance_committed_def Let_def invalidate_pane_def headed_def split: prod.splits option.splits if_splits)

lemma pane_step_kept:
  assumes "op_ok op" "headed unmarshal incarnation hb (fst s) \<and> pane_kept hb s"
  shows "headed unmarshal incarnation hb (fst (pane_step unmarshal incarnation s op)) \<and> pane_kept hb (pane_step unmarshal incarnation s op)"
proof -
  obtain p disk where s: "s = (p, disk)" by (cases s)
  have hd: "headed unmarshal incarnation hb p" and k: "pane_kept hb (p, disk)" using assms(2) s by simp_all
  show ?thesis
  proof (cases "pj_state p = EligibilityContinuous")
    case False
    have inv: "invalidate_pane reason p = p \<or> pj_verified (invalidate_pane reason p) = pj_verified p" for reason by simp
    have "pane_logged hb p disk" using k False by (simp add: pane_kept_def)
    then have l: "pane_logged hb (invalidate_pane reason p) disk" for reason by (simp add: pane_logged_def)
    show ?thesis using assms s False hd k l
      by (cases op) (simp_all add: pane_step_def sync_pane_def advance_committed_def, simp add: pane_kept_def)
  next
    case True
    then obtain es pend where h: "holds hb es pend p disk" using k by (auto simp: pane_kept_def)
    have inv: "pane_kept hb (invalidate_pane reason p, disk)" for reason
      using holds_pane_logged [OF h] by (simp add: pane_kept_def)
    show ?thesis
    proof (cases op)
      case (PaneOutput answers payload)
      let ?r = "new_output_record p payload"
      obtain res p' disk' where w: "write_record answers ?r payload p disk = (res, p', disk')" by (cases "write_record answers ?r payload p disk") auto
      have "len payload < 2 ^ 32" using assms(1) PaneOutput by (simp add: op_ok_def)
      note kept = write_record_kept [OF h True output_legal [OF h this] w]
      have hd': "headed unmarshal incarnation hb (p'\<lparr>pj_end := e\<rparr>)" "headed unmarshal incarnation hb p'" for e
        using write_record_headed [OF w] hd by (simp_all add: headed_def)
      show ?thesis
        using kept hd' w True by (cases res) (auto simp: s PaneOutput pane_step_def write_output_def pane_kept_def)
    next
      case (PaneGeometry answers g)
      show ?thesis
      proof (cases "geometry_valid g")
        case gv: True
        let ?r = "new_geometry_record p g"
        obtain res p' disk' where w: "write_record answers ?r [] p disk = (res, p', disk')" by (cases "write_record answers ?r [] p disk") auto
        note kept = write_record_kept [OF h True geometry_legal [OF h gv] w]
        have hd': "headed unmarshal incarnation hb p'" using write_record_headed [OF w] hd by simp
        have e: "res = None \<Longrightarrow> p'\<lparr>pj_end := jr_end ?r\<rparr> = p'"
          using w by (auto simp: write_record_def new_geometry_record_def split: prod.splits option.splits)
        show ?thesis
          using kept hd' w True gv e by (cases res) (auto simp: s PaneGeometry pane_step_def write_geometry_def pane_kept_def)
      qed (use True hd k in \<open>simp add: s PaneGeometry pane_step_def\<close>)
    next
      case (PaneSync answer)
      then show ?thesis using hd k inv True
        by (auto simp: s pane_step_def sync_pane_def split: option.split)
    next
      case (PaneCommit io r)
      obtain res p' disk' where a: "advance_committed unmarshal incarnation io r p disk = (res, p', disk')"
        by (cases "advance_committed unmarshal incarnation io r p disk") auto
      have "ci_read io = None" using assms(1) PaneCommit by (simp add: op_ok_def)
      from advance_kept [OF h hd True this a] advance_headed [OF a] hd a show ?thesis
        by (simp add: s PaneCommit pane_step_def)
    next
      case (PaneInvalidate reason)
      then show ?thesis using hd inv by (simp add: s pane_step_def)
    qed
  qed
qed

lemma pane_run_kept:
  "list_all op_ok ops \<Longrightarrow> headed unmarshal incarnation hb (fst s) \<and> pane_kept hb s \<Longrightarrow>
     headed unmarshal incarnation hb (fst (foldl (pane_step unmarshal incarnation) s ops))
     \<and> pane_kept hb (foldl (pane_step unmarshal incarnation) s ops)"
proof (induction ops arbitrary: s)
  case (Cons op ops)
  from pane_step_kept [of op unmarshal incarnation hb s] Cons.prems Cons.IH [of "pane_step unmarshal incarnation s op"]
  show ?case by simp
qed simp

lemma created_headed:
  assumes "encode_header (new_header key incarnation initial origin) = Inr hb"
    and "unmarshal (marshal_header (new_header key incarnation initial origin)) = Some (new_header key incarnation initial origin)"
    and "initial = None \<or> (\<exists>g. initial = Some g \<and> geometry_valid g)"
  shows "headed unmarshal incarnation hb (created_pane key stream initial origin hb)"
  unfolding headed_def using assms
  by (intro exI [of _ "new_header key incarnation initial origin"])
    (auto simp: created_pane_def new_header_def accept_header_def header_origin_def origin_name_def no_pane_def Let_def
      split: generation_origin.splits)

lemma created_holds: "holds hb [] [] (created_pane key stream initial origin hb) hb"
  by (simp add: holds_def created_pane_def no_pane_def at_start_def no_cursor_def)

lemma complete_prefix:
  "length (entries_bytes c es) \<le> n \<Longrightarrow> length es \<le> complete_entries c (es @ fs) n"
  by (induction es arbitrary: c n) auto

text \<open>Recovering the file of a log.\<close>

lemma recover_pane_logged:
  assumes "headed unmarshal incarnation hb p" "entries_legal (at_start (len hb)) (es @ rest @ x)"
    and "disk = hb @ entries_bytes (at_start (len hb)) (es @ rest)
      @ take n (entries_bytes (foldl entry_apply (at_start (len hb)) (es @ rest)) x)"
  shows "\<exists>q k. parse_journal unmarshal disk
      = (q, if cuts_commit (at_start (len hb)) (es @ rest @ x) (length disk - length hb) then Some ErrCorruptJournal else None)
    \<and> k = complete_entries (at_start (len hb)) (es @ rest @ x) (length disk - length hb) \<and> length (es @ rest) \<le> k
    \<and> (let c = foldl entry_apply (at_start (len hb)) (take k (es @ rest @ x))
       in pj_committed q = vc_committed c
         \<and> (if cuts_commit (at_start (len hb)) (es @ rest @ x) (length disk - length hb) then True
            else vc_view (pj_verified q) = vc_view c))"
proof -
  let ?c0 = "at_start (len hb)" and ?all = "es @ rest @ x"
  from assms(1) obtain h q where h: "encode_header h = Inr hb" "unmarshal (marshal_header h) = Some h"
    "jh_version h = journal_version" "accept_header no_pane h = (True, q)" by (auto simp: headed_def)
  let ?m = "length disk - length hb"
  have all: "entries_bytes ?c0 ?all = entries_bytes ?c0 (es @ rest) @ entries_bytes (foldl entry_apply ?c0 (es @ rest)) x"
    using entries_bytes_append [of ?c0 "es @ rest" x] by simp
  have lm: "length hb \<le> length disk" "length (entries_bytes ?c0 (es @ rest)) \<le> ?m" by (simp_all add: assms(3))
  have d: "disk = take (length disk) (hb @ entries_bytes ?c0 ?all)"
  proof -
    have "take (length (take n ys)) ys = take n ys" for ys :: bytes by (simp add: min_def)
    then show ?thesis by (simp add: assms(3) all)
  qed
  from complete_prefix [OF lm(2), of x] have "length (es @ rest) \<le> complete_entries ?c0 ?all ?m" by simp
  with parse_journal_cut [where unmarshal = unmarshal and h = h, OF h assms(2) refl refl lm(1)] show ?thesis
    unfolding d [symmetric] by (auto simp: Let_def)
qed

lemma recovered_cases:
  fixes es rest x :: "journal_entry list"
  assumes "headed unmarshal incarnation hb p" "entries_legal (at_start (len hb)) (es @ rest @ x)"
    and "disk = hb @ entries_bytes (at_start (len hb)) (es @ rest)
      @ take n (entries_bytes (foldl entry_apply (at_start (len hb)) (es @ rest)) x)"
  obtains (torn) q where "parse_journal unmarshal disk = (q, Some ErrCorruptJournal)"
      "cuts_commit (at_start (len hb)) (es @ rest @ x) (length disk - length hb)"
  | (kept) q k where "parse_journal unmarshal disk = (q, None)" "length (es @ rest) \<le> k"
      "pj_committed q = vc_committed (foldl entry_apply (at_start (len hb)) (take k (es @ rest @ x)))"
      "vc_view (pj_verified q) = vc_view (foldl entry_apply (at_start (len hb)) (take k (es @ rest @ x)))"
      "k = complete_entries (at_start (len hb)) (es @ rest @ x) (length disk - length hb)"
  using recover_pane_logged [OF assms] unfolding Let_def by (metis (full_types))

lemma whole_uncut: "\<not> cuts_commit c xs (length (entries_bytes c xs))"
  using complete_prefix [of c xs "length (entries_bytes c xs)" "[]"] by (simp add: cuts_commit_def Let_def)

lemma view_of_appends: "vc_view (foldl entry_apply c (appends xs)) = vc_view c"
    "vc_committed (foldl entry_apply c (appends xs)) = vc_committed c"
  by (induction xs arbitrary: c) (simp_all add: appends_def entry_apply_def append_record_def)

lemma start_view: "suffix (vc_view (foldl entry_apply (at_start n) es)) (vc_tail (foldl entry_apply (at_start n) es))"
  using views_grow [of "at_start n" es] by (simp add: at_start_def no_cursor_def)

text \<open>The file of a log, read by a restart.\<close>

lemma log_recovered:
  assumes "headed unmarshal incarnation hb p" "pane_kept hb (p, disk)"
  shows "case parse_journal unmarshal disk of (q, err) \<Rightarrow>
    if pj_state p = EligibilityContinuous
    then err = None \<and> projected q = projected p \<and> pj_committed q = pj_committed p
    else err = Some ErrCorruptJournal \<or> err = None \<and> prefix (projected p) (projected q)"
proof -
  let ?c0 = "at_start (len hb)"
  note run = assms
  show ?thesis
  proof (cases "pj_state p = EligibilityContinuous")
    case True
    then obtain es pend where h: "holds hb es pend p disk" using run(2) by (auto simp: pane_kept_def)
    then have l: "entries_legal ?c0 (es @ appends pend @ [])"
        "disk = hb @ entries_bytes ?c0 (es @ appends pend) @ take 0 (entries_bytes (foldl entry_apply ?c0 (es @ appends pend)) [])"
      and v: "vc_view (pj_verified p) = vc_view (foldl entry_apply ?c0 es)" "pj_committed p = vc_committed (foldl entry_apply ?c0 es)"
      by (auto simp: holds_def Let_def at_start_def no_cursor_def)
    from run(1) l show ?thesis
    proof (cases rule: recovered_cases)
      case (torn q)
      have "length disk - length hb = length (entries_bytes ?c0 (es @ appends pend))" unfolding l(2) by simp
      with torn(2) show ?thesis by (simp add: whole_uncut)
    next
      case (kept q k)
      then show ?thesis using v True by (simp add: projected_def view_of_appends)
    qed
  next
    case False
    then obtain es rest x n where g: "entries_legal ?c0 (es @ rest @ x)"
      "es = [] \<and> pj_verified p = no_cursor \<or> pj_verified p = foldl entry_apply ?c0 es"
      "disk = hb @ entries_bytes ?c0 (es @ rest) @ take n (entries_bytes (foldl entry_apply ?c0 (es @ rest)) x)"
      using run(2) by (auto simp: pane_kept_def pane_logged_def)
    from run(1) g(1,3) show ?thesis
    proof (cases rule: recovered_cases)
      case (torn q)
      then show ?thesis using False by simp
    next
      case (kept q k)
      have "take k (es @ rest @ x) = es @ take (k - length es) (rest @ x)" using kept(2) by simp
      then have "suffix (vc_view (foldl entry_apply ?c0 es)) (vc_view (foldl entry_apply ?c0 (take k (es @ rest @ x))))"
        using views_grow [OF start_view, of "len hb" es "take (k - length es) (rest @ x)"] by simp
      moreover have "vc_view (pj_verified p) = vc_view (foldl entry_apply ?c0 es)"
        using g(2) by (auto simp: at_start_def no_cursor_def)
      ultimately have "prefix (projected p) (projected q)"
        using kept(4) by (auto simp: projected_def suffix_def prefix_def)
      with kept(1) False show ?thesis by simp
    qed
  qed
qed

text \<open>
  C20: What a commit acknowledged survives. A pane is created with its header and then receives any
  sequence of appends of output and geometry, syncs, commits and invalidations, each with whatever the
  operating system answered: writes that stop short, run out of space or fail, failing syncs. While
  the generation is continuous, recovering the file gives exactly the events it acknowledged as committed.
  Once it stopped being continuous, recovery either gives every event the pane ever acknowledged, in the same
  order and possibly followed by others, or refuses the file as corrupt, as it does after a torn commit frame.
\<close>

theorem acknowledged_commits_survive:
  assumes "encode_header (new_header key incarnation initial origin) = Inr hb"
    and "unmarshal (marshal_header (new_header key incarnation initial origin)) = Some (new_header key incarnation initial origin)"
    and "initial = None \<or> (\<exists>g. initial = Some g \<and> geometry_valid g)"
    and "list_all op_ok ops"
    and "(p, disk) = foldl (pane_step unmarshal incarnation) (created_pane key stream initial origin hb, hb) ops"
  shows "case parse_journal unmarshal disk of (q, err) \<Rightarrow>
    if pj_state p = EligibilityContinuous
    then err = None \<and> projected q = projected p \<and> pj_committed q = pj_committed p
    else err = Some ErrCorruptJournal \<or> err = None \<and> prefix (projected p) (projected q)"
proof -
  let ?p0 = "created_pane key stream initial origin hb"
  have "headed unmarshal incarnation hb ?p0" by (rule created_headed [where unmarshal = unmarshal, OF assms(1-3)])
  moreover have "pj_state ?p0 = EligibilityContinuous" by (simp add: created_pane_def)
  then have "pane_kept hb (?p0, hb)" using created_holds [of hb key stream initial origin] by (auto simp: pane_kept_def)
  ultimately have run: "headed unmarshal incarnation hb p" "pane_kept hb (p, disk)"
    using pane_run_kept [OF assms(4), of unmarshal incarnation hb "(?p0, hb)"] unfolding assms(5) [symmetric] by simp_all
  from log_recovered [OF run] show ?thesis .
qed

section \<open>A sample life\<close>

definition sample_created :: pane_journal where
  "sample_created = created_pane journal_sample_key ''s'' (Some \<lparr>jg_columns = 80, jg_rows = 24\<rparr>) OriginBirth sample_header_bytes"

definition sample_ops :: "pane_op list" where
  "sample_ops =
     [PaneOutput [(30, None), (42, None)] ''hi'', PaneSync None,
      PaneCommit \<lparr>ci_writes = [(58, None)], ci_sync = None, ci_read = None\<rparr> (new_output_record sample_created ''hi'')]"

lemma write_all_once: "length data = n \<Longrightarrow> 0 < n \<Longrightarrow> write_all [(n, None)] data disk = (None, disk @ data)"
  by (subst write_all.simps, cases "data = []") (simp_all add: write_all.simps)

lemma write_all_twice:
  "length data = n + m \<Longrightarrow> 0 < n \<Longrightarrow> 0 < m \<Longrightarrow> write_all [(n, None), (m, None)] data disk = (None, disk @ data)"
proof -
  assume a: "length data = n + m" "0 < n" "0 < m"
  then have "data \<noteq> []" by auto
  then have "write_all [(n, None), (m, None)] data disk = write_all [(m, None)] (drop n data) (disk @ take n data)"
    using a by (subst write_all.simps) simp
  also have "\<dots> = (None, (disk @ take n data) @ drop n data)" by (rule write_all_once) (use a in simp_all)
  finally show ?thesis by simp
qed

text \<open>The sample's commit is acknowledged, and its one event is there.\<close>

lemma sample_life: "\<exists>p disk. foldl (pane_step sample_unmarshal ''b'') (sample_created, sample_header_bytes) sample_ops = (p, disk)
    \<and> pj_state p = EligibilityContinuous \<and> length (projected p) = 1"
proof -
  let ?hb = sample_header_bytes and ?r = "new_output_record sample_created ''hi''"
  have h0: "holds ?hb [] [] sample_created ?hb" by (simp add: sample_created_def created_holds)
  have st: "pj_state sample_created = EligibilityContinuous" by (simp add: sample_created_def created_pane_def)
  have legal: "entry_legal (foldl entry_apply (at_start (len ?hb)) ([] @ appends [])) (Appended ?r ''hi'')"
    by (rule output_legal [OF h0]) simp
  define p1 where "p1 = sample_created\<lparr>pj_sequence := jr_sequence ?r, pj_last := ?r, pj_pending := pj_pending sample_created @ [?r],
      pj_stored := pj_stored sample_created + int append_fixed + len ''hi'', pj_end := jr_end ?r\<rparr>"
  have h1: "holds ?hb [] ([] @ [(?r, ''hi'')]) p1 (?hb @ encode_append ?r ''hi'')"
    unfolding p1_def by (rule holds_append [OF h0 legal])
  have l: "length (jr_hash ?r) = 32" by (simp add: new_output_record_def sha256_length)
  have w: "write_all [(30, None), (42, None)] (encode_append ?r ''hi'') ?hb = (None, ?hb @ encode_append ?r ''hi'')"
    by (rule write_all_twice) (use l in \<open>simp_all add: append_fixed_def\<close>)
  have s1: "pane_step sample_unmarshal ''b'' (sample_created, ?hb) (PaneOutput [(30, None), (42, None)] ''hi'')
      = (p1, ?hb @ encode_append ?r ''hi'')"
    using st w by (simp add: pane_step_def write_output_def write_record_def p1_def)
  have st1: "pj_state p1 = EligibilityContinuous" using st by (simp add: p1_def)
  have hd: "headed sample_unmarshal ''b'' ?hb sample_created"
    unfolding sample_created_def
    by (rule created_headed) (use sample_header_ok(1,2) in \<open>simp_all add: sample_header_def geometry_valid_def max_journal_dimension_def\<close>)
  then have hd1: "headed sample_unmarshal ''b'' ?hb p1" by (simp add: headed_def p1_def)
  let ?io = "\<lparr>ci_writes = [(58, None)], ci_sync = None, ci_read = None\<rparr>"
  have w2: "write_all [(58, None)] (encode_commit ?r) (?hb @ encode_append ?r ''hi'') = (None, (?hb @ encode_append ?r ''hi'') @ encode_commit ?r)"
    by (rule write_all_once) (use l in \<open>simp_all add: commit_fixed_def\<close>)
  obtain res p2 d2 where a: "advance_committed sample_unmarshal ''b'' ?io ?r p1 (?hb @ encode_append ?r ''hi'') = (res, p2, d2)"
    by (cases "advance_committed sample_unmarshal ''b'' ?io ?r p1 (?hb @ encode_append ?r ''hi'')") auto
  have r1: "pj_last p1 = ?r" "jr_sequence ?r = pj_sequence p1" "pj_committed_sequence p1 < jr_sequence ?r" "jr_end ?r = pj_end p1"
    by (simp_all add: p1_def new_output_record_def sample_created_def created_pane_def no_pane_def wrap64_same)
  have d2: "d2 = (?hb @ encode_append ?r ''hi'') @ encode_commit ?r"
    using a st1 r1 w2 by (auto simp: advance_committed_def Let_def split: option.splits if_splits)
  have v: "holds ?hb ([] @ appends ([] @ [(?r, ''hi'')]) @ [Committed]) [] p2 d2" "pj_state p2 = EligibilityContinuous"
    using advance_holds [OF h1 hd1 a st1 r1] w2 d2 by simp_all
  have "length (projected p2) = 1"
    using v(1) by (auto simp: holds_def Let_def projected_def appends_def entry_apply_def append_record_def at_start_def no_cursor_def)
  moreover have "foldl (pane_step sample_unmarshal ''b'') (sample_created, ?hb) sample_ops = (p2, d2)"
    using s1 st1 a by (simp add: sample_ops_def, simp add: pane_step_def sync_pane_def)
  ultimately show ?thesis using v(2) by blast
qed

theorem acknowledged_commits_survive_witness:
  "\<exists>p disk q. foldl (pane_step sample_unmarshal ''b'') (sample_created, sample_header_bytes) sample_ops = (p, disk)
    \<and> parse_journal sample_unmarshal disk = (q, None) \<and> projected q = projected p \<and> length (projected p) = 1"
proof -
  obtain p disk where r: "foldl (pane_step sample_unmarshal ''b'') (sample_created, sample_header_bytes) sample_ops = (p, disk)"
    "pj_state p = EligibilityContinuous" "length (projected p) = 1" using sample_life by blast
  let ?g = "Some \<lparr>jg_columns = 80, jg_rows = 24\<rparr> :: journal_geometry option"
  have h: "encode_header (new_header journal_sample_key ''b'' ?g OriginBirth) = Inr sample_header_bytes"
    "sample_unmarshal (marshal_header (new_header journal_sample_key ''b'' ?g OriginBirth)) = Some (new_header journal_sample_key ''b'' ?g OriginBirth)"
    using sample_header_ok(1,2) by (simp_all add: sample_header_def)
  have g: "?g = None \<or> (\<exists>g. ?g = Some g \<and> geometry_valid g)" by (simp add: geometry_valid_def max_journal_dimension_def)
  have ok: "list_all op_ok sample_ops" by (simp add: sample_ops_def op_ok_def)
  have e: "(p, disk) = foldl (pane_step sample_unmarshal ''b'') (created_pane journal_sample_key ''s'' ?g OriginBirth sample_header_bytes, sample_header_bytes) sample_ops"
    using r(1) by (simp add: sample_created_def)
  from acknowledged_commits_survive [where unmarshal = sample_unmarshal, OF h g ok e] r show ?thesis
    by (cases "parse_journal sample_unmarshal disk") auto
qed

end
