(* ===== verification/Keyed.thy ===== *)
theory Keyed
  imports Main "HOL-Library.AList"
begin

text \<open>
  Go maps as association lists with distinct keys: the sum of a quantity over the entries, how one update or
  deletion moves it, and lookups with Go's zero value for an absent key.
\<close>

definition keyed :: "('k \<times> 'v) list \<Rightarrow> bool" where
  "keyed m \<longleftrightarrow> distinct (map fst m)"

definition sum_of :: "('v \<Rightarrow> int) \<Rightarrow> ('k \<times> 'v) list \<Rightarrow> int" where
  "sum_of f m = sum_list (map (\<lambda>e. f (snd e)) m)"

definition at_or :: "int \<Rightarrow> ('v \<Rightarrow> int) \<Rightarrow> 'v option \<Rightarrow> int" where
  "at_or z f x = (case x of None \<Rightarrow> z | Some v \<Rightarrow> f v)"

lemma at_or_simps [simp]: "at_or z f None = z" "at_or z f (Some v) = f v"
  by (simp_all add: at_or_def)

lemma keyed_simps [simp]:
  "keyed []" "keyed m \<Longrightarrow> keyed (AList.update k v m)" "keyed m \<Longrightarrow> keyed (AList.delete k m)"
  by (simp_all add: keyed_def AList.distinct_update distinct_delete)

lemma sum_of_simps [simp]: "sum_of f [] = 0" "sum_of f (e # m) = f (snd e) + sum_of f m"
  by (simp_all add: sum_of_def)

lemma sum_of_append [simp]: "sum_of f (m @ n) = sum_of f m + sum_of f n"
  by (simp add: sum_of_def)

lemma sum_of_delete:
  "keyed m \<Longrightarrow> sum_of f (AList.delete k m) = sum_of f m - at_or 0 f (map_of m k)"
  by (induction m) (auto simp: keyed_def AList.delete_id map_of_eq_None_iff [symmetric])

lemma sum_of_update:
  "keyed m \<Longrightarrow> sum_of f (AList.update k v m) = sum_of f m - at_or 0 f (map_of m k) + f v"
  by (induction m) (auto simp: keyed_def map_of_eq_None_iff [symmetric])

lemma len_delete: "keyed m \<Longrightarrow> int (length (AList.delete k m)) = int (length m) - (if map_of m k = None then 0 else 1)"
  using sum_of_delete [of m "\<lambda>_. 1" k] by (auto simp: sum_of_def at_or_def sum_list_triv split: option.splits)

lemma len_update: "keyed m \<Longrightarrow> int (length (AList.update k v m)) = int (length m) + (if map_of m k = None then 1 else 0)"
  using sum_of_update [of m "\<lambda>_. 1" k v] by (auto simp: sum_of_def at_or_def sum_list_triv split: option.splits)

lemma map_of_update [simp]: "map_of (AList.update k v m) i = (if i = k then Some v else map_of m i)"
  by (simp add: update_conv)

lemma map_of_delete [simp]: "map_of (AList.delete k m) i = (if i = k then None else map_of m i)"
  by (simp add: delete_conv)

lemma keyed_mem: "keyed m \<Longrightarrow> (k, v) \<in> set m \<longleftrightarrow> map_of m k = Some v"
  unfolding keyed_def by (metis map_of_is_SomeI map_of_SomeD)

lemma sum_of_mono: "(\<And>k v. (k, v) \<in> set m \<Longrightarrow> f v \<le> g v) \<Longrightarrow> sum_of f m \<le> sum_of g m"
  by (induction m) (force+)

lemma sum_of_nonneg: "(\<And>k v. (k, v) \<in> set m \<Longrightarrow> 0 \<le> f v) \<Longrightarrow> 0 \<le> sum_of f m"
  by (induction m) (force+)

lemma sum_of_member:
  "(\<And>i w. (i, w) \<in> set m \<Longrightarrow> 0 \<le> f w) \<Longrightarrow> map_of m k = Some v \<Longrightarrow> f v \<le> sum_of f m"
proof (induction m)
  case (Cons e m)
  then have "0 \<le> sum_of f m" by (intro sum_of_nonneg) (meson list.set_intros(2))
  with Cons show ?case by (cases e) (auto split: if_splits, fastforce)
qed simp

text \<open>Sums in which the key takes part.\<close>

definition ksum :: "('k \<Rightarrow> 'v \<Rightarrow> int) \<Rightarrow> ('k \<times> 'v) list \<Rightarrow> int" where
  "ksum f m = sum_list (map (\<lambda>e. f (fst e) (snd e)) m)"

lemma ksum_simps [simp]: "ksum f [] = 0" "ksum f (e # m) = f (fst e) (snd e) + ksum f m"
  by (simp_all add: ksum_def)

lemma ksum_delete:
  "keyed m \<Longrightarrow> ksum f (AList.delete k m) = ksum f m - at_or 0 (f k) (map_of m k)"
  by (induction m) (auto simp: keyed_def AList.delete_id map_of_eq_None_iff [symmetric])

lemma ksum_update:
  "keyed m \<Longrightarrow> ksum f (AList.update k v m) = ksum f m - at_or 0 (f k) (map_of m k) + f k v"
  by (induction m) (auto simp: keyed_def map_of_eq_None_iff [symmetric])

lemma ksum_nonneg: "(\<And>k v. (k, v) \<in> set m \<Longrightarrow> 0 \<le> f k v) \<Longrightarrow> 0 \<le> ksum f m"
  by (induction m) (force+)

lemma ksum_mono: "(\<And>k v. (k, v) \<in> set m \<Longrightarrow> f k v \<le> g k v) \<Longrightarrow> ksum f m \<le> ksum g m"
  by (induction m) (force+)

lemma ksum_cong: "(\<And>k v. (k, v) \<in> set m \<Longrightarrow> f k v = g k v) \<Longrightarrow> ksum f m = ksum g m"
  by (induction m) auto

text \<open>One entry of a list replaced.\<close>

lemma sum_list_replace:
  "i < length xs \<Longrightarrow> sum_list (map f (xs[i := v])) = sum_list (map f xs) - f (xs ! i) + (f v :: int)"
  by (induction xs arbitrary: i) (auto simp: less_Suc_eq_0_disj split: nat.splits)

end
