(* ===== verification/Journal_Source_Quota.thy ===== *)
theory Journal_Source_Quota
  imports Journal_Recovery Keyed
begin

text \<open>
  The per-source admission quota of the journal (\<^verbatim>\<open>internal/unifiedjournal/source_quota.go\<close>): a lease per
  journal key, the number of leases of every source, and the leases whose source is not known yet. Go's two
  maps are keyed lists; a realm without the quota is \<open>None\<close>.

  The theorem: whatever is reserved, attributed, transferred, claimed, cancelled and unlinked, the counters
  are exactly the numbers of leases, within both bounds, and no source ever exceeds its allowance.
\<close>

section \<open>State\<close>

record source_id =
  si_realm :: string
  si_server :: string
  si_socket_path :: string
  si_socket_device :: u64
  si_socket_inode :: u64
  si_server_pid :: int
  si_server_start :: u64
  si_session :: string
  si_window :: string
  si_pane :: string
  si_pane_pid :: int
  si_pane_start :: u64

definition no_source :: source_id where
  "no_source = \<lparr>si_realm = [], si_server = [], si_socket_path = [], si_socket_device = 0, si_socket_inode = 0,
     si_server_pid = 0, si_server_start = 0, si_session = [], si_window = [], si_pane = [], si_pane_pid = 0,
     si_pane_start = 0\<rparr>"

record source_lease =
  sl_source :: source_id
  sl_materialized :: bool

record source_quota =
  sq_per_source :: int
  sq_max_sources :: int
  sq_leases :: "(pane_key \<times> source_lease) list"
  sq_used :: "(source_id \<times> int) list"
  sq_unknown :: int

definition used_of :: "source_quota \<Rightarrow> source_id \<Rightarrow> int" where
  "used_of q sid = at_or 0 (\<lambda>n. n) (map_of (sq_used q) sid)"

definition use_source :: "source_id \<Rightarrow> source_quota \<Rightarrow> source_quota" where
  "use_source sid q = q\<lparr>sq_used := AList.update sid (used_of q sid + 1) (sq_used q)\<rparr>"

section \<open>Operations\<close>

text \<open>One surviving file of the realm, counted when the quota is configured.\<close>

definition configure_pane :: "(pane_key \<Rightarrow> source_id) \<Rightarrow> source_quota \<Rightarrow> pane_key \<times> pane_journal \<Rightarrow> source_quota" where
  "configure_pane known q e =
     (case e of (key, p) \<Rightarrow>
        if pj_projection_released p \<and> pj_physical p = 0 then q
        else let q1 = q\<lparr>sq_leases := AList.update key \<lparr>sl_source = known key, sl_materialized = True\<rparr> (sq_leases q)\<rparr>
             in if known key = no_source then q1\<lparr>sq_unknown := sq_unknown q1 + 1\<rparr> else use_source (known key) q1)"

definition configure_source_quota ::
    "int \<Rightarrow> int \<Rightarrow> (pane_key \<Rightarrow> source_id) \<Rightarrow> (pane_key \<times> pane_journal) list \<Rightarrow> source_quota option
      \<Rightarrow> journal_error option \<times> source_quota option" where
  "configure_source_quota per_source max_sources known panes old =
     (if old \<noteq> None \<or> per_source < 2 \<or> max_sources < 1 then (Some ErrInvalidRecord, old)
      else let q = foldl (configure_pane known)
                     \<lparr>sq_per_source = per_source, sq_max_sources = max_sources, sq_leases = [], sq_used = [],
                      sq_unknown = 0\<rparr> panes
           in if len (sq_leases q) > per_source * max_sources \<or> len (sq_used q) > max_sources
              then (Some ErrSourceQuota, old)
              else (None, Some q))"

definition reserved_source :: "source_quota option \<Rightarrow> pane_key \<Rightarrow> source_id" where
  "reserved_source oq key =
     (case oq of
        None \<Rightarrow> no_source
      | Some q \<Rightarrow> (case map_of (sq_leases q) key of None \<Rightarrow> no_source | Some l \<Rightarrow> sl_source l))"

definition reserve_source ::
    "pane_key \<Rightarrow> source_id \<Rightarrow> source_quota option \<Rightarrow> journal_error option \<times> source_quota option" where
  "reserve_source key sid oq =
     (case oq of
        None \<Rightarrow> (None, oq)
      | Some q \<Rightarrow>
          if sid = no_source then (Some ErrInvalidRecord, oq)
          else case map_of (sq_leases q) key of
            Some l \<Rightarrow> (if sl_source l \<noteq> sid then Some ErrInvalidated else None, oq)
          | None \<Rightarrow>
              if used_of q sid + sq_unknown q \<ge> sq_per_source q \<or> len (sq_leases q) \<ge> sq_per_source q * sq_max_sources q
                 \<or> used_of q sid = 0 \<and> len (sq_used q) \<ge> sq_max_sources q
              then (Some ErrSourceQuota, oq)
              else (None, Some (use_source sid
                (q\<lparr>sq_leases := AList.update key \<lparr>sl_source = sid, sl_materialized = False\<rparr> (sq_leases q)\<rparr>))))"

definition attribute_recovered_source ::
    "pane_key \<Rightarrow> source_id \<Rightarrow> source_quota option \<Rightarrow> journal_error option \<times> source_quota option" where
  "attribute_recovered_source key sid oq =
     (case oq of
        None \<Rightarrow> (None, oq)
      | Some q \<Rightarrow>
          (case map_of (sq_leases q) key of
             None \<Rightarrow> (None, oq)
           | Some l \<Rightarrow>
               if sid = no_source \<or> sl_source l \<noteq> no_source \<and> sl_source l \<noteq> sid then (Some ErrInvalidated, oq)
               else if sl_source l = sid then (None, oq)
               else if used_of q sid = 0 \<and> len (sq_used q) \<ge> sq_max_sources q then (Some ErrSourceQuota, oq)
               else (None, Some ((use_source sid (q\<lparr>sq_unknown := sq_unknown q - 1\<rparr>))
                 \<lparr>sq_leases := AList.update key (l\<lparr>sl_source := sid\<rparr>) (sq_leases q)\<rparr>))))"

definition transfer_source_reservation ::
    "pane_key \<Rightarrow> pane_key \<Rightarrow> source_quota option \<Rightarrow> journal_error option \<times> source_quota option" where
  "transfer_source_reservation from_key to_key oq =
     (case oq of
        None \<Rightarrow> (None, oq)
      | Some q \<Rightarrow>
          if from_key = to_key then (None, oq)
          else case map_of (sq_leases q) from_key of
            None \<Rightarrow> (Some ErrInvalidated, oq)
          | Some l \<Rightarrow>
              if sl_materialized l \<or> map_of (sq_leases q) to_key \<noteq> None then (Some ErrInvalidated, oq)
              else (None, Some (q\<lparr>sq_leases := AList.update to_key l (AList.delete from_key (sq_leases q))\<rparr>)))"

definition source_claim_create :: "pane_key \<Rightarrow> source_quota option \<Rightarrow> bool \<times> source_quota option" where
  "source_claim_create key oq =
     (case oq of
        None \<Rightarrow> (True, oq)
      | Some q \<Rightarrow>
          (case map_of (sq_leases q) key of
             None \<Rightarrow> (False, oq)
           | Some l \<Rightarrow>
               if sl_source l = no_source \<or> sl_materialized l then (False, oq)
               else (True, Some (q\<lparr>sq_leases := AList.update key (l\<lparr>sl_materialized := True\<rparr>) (sq_leases q)\<rparr>))))"

definition release_lease :: "pane_key \<Rightarrow> source_quota \<Rightarrow> source_quota" where
  "release_lease key q =
     (case map_of (sq_leases q) key of
        None \<Rightarrow> q
      | Some l \<Rightarrow>
          let q1 = q\<lparr>sq_leases := AList.delete key (sq_leases q)\<rparr>
          in if sl_source l = no_source then q1\<lparr>sq_unknown := sq_unknown q1 - 1\<rparr>
             else let n = used_of q1 (sl_source l) - 1
                  in q1\<lparr>sq_used := (if n = 0 then AList.delete (sl_source l) (sq_used q1)
                                    else AList.update (sl_source l) n (sq_used q1))\<rparr>)"

definition source_unlinked :: "pane_key \<Rightarrow> source_quota option \<Rightarrow> source_quota option" where
  "source_unlinked key oq = map_option (release_lease key) oq"

definition cancel_source_reservation :: "pane_key \<Rightarrow> source_quota option \<Rightarrow> source_quota option" where
  "cancel_source_reservation key oq =
     (case oq of
        None \<Rightarrow> None
      | Some q \<Rightarrow>
          (case map_of (sq_leases q) key of
             Some l \<Rightarrow> Some (if \<not> sl_materialized l then release_lease key q else q)
           | None \<Rightarrow> Some q))"

definition source_usage :: "source_quota option \<Rightarrow> source_id \<Rightarrow> int \<times> int \<times> int \<times> int" where
  "source_usage oq sid =
     (case oq of
        None \<Rightarrow> (0, 0, 0, 0)
      | Some q \<Rightarrow> (used_of q sid, sq_unknown q, sq_per_source q, len (sq_leases q)))"

section \<open>The counters\<close>

definition lease_count :: "source_quota \<Rightarrow> source_id \<Rightarrow> int" where
  "lease_count q sid = sum_of (\<lambda>l. if sl_source l = sid then 1 else 0) (sq_leases q)"

definition quota_counts :: "source_quota \<Rightarrow> bool" where
  "quota_counts q \<longleftrightarrow>
     keyed (sq_leases q) \<and> keyed (sq_used q) \<and> sq_unknown q = lease_count q no_source
     \<and> (\<forall>sid. used_of q sid = (if sid = no_source then 0 else lease_count q sid))
     \<and> (\<forall>sid. map_of (sq_used q) sid \<noteq> Some 0)"

definition quota_within :: "source_quota \<Rightarrow> bool" where
  "quota_within q \<longleftrightarrow>
     len (sq_leases q) \<le> sq_per_source q * sq_max_sources q \<and> len (sq_used q) \<le> sq_max_sources q"

lemma lease_count_nonneg: "0 \<le> lease_count q sid"
  unfolding lease_count_def by (rule sum_of_nonneg) simp

lemma lease_count_update:
  "keyed (sq_leases q) \<Longrightarrow> lease_count (q\<lparr>sq_leases := AList.update k l (sq_leases q)\<rparr>) sid
    = lease_count q sid - at_or 0 (\<lambda>l. if sl_source l = sid then 1 else 0) (map_of (sq_leases q) k)
      + (if sl_source l = sid then 1 else 0)"
  by (simp add: lease_count_def sum_of_update)

lemma lease_count_delete:
  "keyed (sq_leases q) \<Longrightarrow> lease_count (q\<lparr>sq_leases := AList.delete k (sq_leases q)\<rparr>) sid
    = lease_count q sid - at_or 0 (\<lambda>l. if sl_source l = sid then 1 else 0) (map_of (sq_leases q) k)"
  by (simp add: lease_count_def sum_of_delete)

lemma lease_count_cong: "sq_leases q = sq_leases q' \<Longrightarrow> lease_count q = lease_count q'"
  by (rule ext) (simp add: lease_count_def)

lemma use_source_simps [simp]:
  "sq_leases (use_source sid q) = sq_leases q" "sq_unknown (use_source sid q) = sq_unknown q"
  "sq_per_source (use_source sid q) = sq_per_source q" "sq_max_sources (use_source sid q) = sq_max_sources q"
  "used_of (use_source sid q) i = (if i = sid then used_of q sid + 1 else used_of q i)"
  "map_of (sq_used (use_source sid q)) i = (if i = sid then Some (used_of q sid + 1) else map_of (sq_used q) i)"
  "keyed (sq_used q) \<Longrightarrow> keyed (sq_used (use_source sid q))"
  by (simp_all add: use_source_def used_of_def)

lemma used_of_cong [simp]:
  "used_of (q\<lparr>sq_leases := x\<rparr>) = used_of q" "used_of (q\<lparr>sq_unknown := y\<rparr>) = used_of q"
  by (rule ext, simp add: used_of_def)+

lemma counted_used: "quota_counts q \<Longrightarrow> map_of (sq_used q) sid = (if used_of q sid = 0 then None else Some (used_of q sid))"
  by (cases "map_of (sq_used q) sid") (auto simp: quota_counts_def used_of_def)

lemma used_nonneg: "quota_counts q \<Longrightarrow> 0 \<le> used_of q sid"
  using lease_count_nonneg [of q sid] by (simp add: quota_counts_def)

lemma len_use_source:
  "quota_counts q \<Longrightarrow> len (sq_used (use_source sid q)) = len (sq_used q) + (if used_of q sid = 0 then 1 else 0)"
  using len_update [of "sq_used q" sid "used_of q sid + 1"] counted_used [of q sid]
  by (auto simp: use_source_def len_def quota_counts_def)

text \<open>A lease that comes, one that gains its source, one that goes.\<close>

lemma counts_use:
  assumes "quota_counts q" "sid \<noteq> no_source" "map_of (sq_leases q) key = None" "sl_source l = sid"
  shows "quota_counts (use_source sid (q\<lparr>sq_leases := AList.update key l (sq_leases q)\<rparr>))"
proof -
  have lc: "lease_count (use_source sid (q\<lparr>sq_leases := AList.update key l (sq_leases q)\<rparr>)) i
      = lease_count q i + (if i = sid then 1 else 0)" for i
    using assms by (subst lease_count_cong [of _ "q\<lparr>sq_leases := AList.update key l (sq_leases q)\<rparr>"])
      (auto simp: lease_count_update quota_counts_def)
  then show ?thesis using assms used_nonneg [OF assms(1), of sid] by (auto simp: quota_counts_def)
qed

lemma counts_attribute:
  assumes "quota_counts q" "sid \<noteq> no_source" "map_of (sq_leases q) key = Some l" "sl_source l = no_source"
  shows "quota_counts ((use_source sid (q\<lparr>sq_unknown := sq_unknown q - 1\<rparr>))
      \<lparr>sq_leases := AList.update key (l\<lparr>sl_source := sid\<rparr>) (sq_leases q)\<rparr>)"
proof -
  have lc: "lease_count ((use_source sid (q\<lparr>sq_unknown := sq_unknown q - 1\<rparr>))
      \<lparr>sq_leases := AList.update key (l\<lparr>sl_source := sid\<rparr>) (sq_leases q)\<rparr>) i
      = lease_count q i + (if i = sid then 1 else 0) - (if i = no_source then 1 else 0)" for i
    using assms by (subst lease_count_cong [of _ "q\<lparr>sq_leases := AList.update key (l\<lparr>sl_source := sid\<rparr>) (sq_leases q)\<rparr>"])
      (auto simp: lease_count_update quota_counts_def)
  then show ?thesis using assms used_nonneg [OF assms(1), of sid] by (auto simp: quota_counts_def)
qed

lemma counts_retag:
  assumes "quota_counts q" "map_of (sq_leases q) key = Some l" "sl_source l' = sl_source l"
  shows "quota_counts (q\<lparr>sq_leases := AList.update key l' (sq_leases q)\<rparr>)"
  using assms by (auto simp: quota_counts_def lease_count_update)

lemma counts_release:
  assumes "quota_counts q"
  shows "quota_counts (release_lease key q)"
proof (cases "map_of (sq_leases q) key")
  case (Some l)
  have lc: "lease_count (release_lease key q) i = lease_count q i - (if sl_source l = i then 1 else 0)" for i
    using assms Some by (subst lease_count_cong [of _ "q\<lparr>sq_leases := AList.delete key (sq_leases q)\<rparr>"])
      (auto simp: release_lease_def Let_def lease_count_delete quota_counts_def)
  have "used_of (release_lease key q) i = used_of q i - (if sl_source l \<noteq> no_source \<and> sl_source l = i then 1 else 0)" for i
    using Some by (auto simp: release_lease_def Let_def used_of_def)
  moreover have "map_of (sq_used (release_lease key q)) i \<noteq> Some 0" for i
    using assms Some by (auto simp: release_lease_def Let_def quota_counts_def)
  moreover have "keyed (sq_leases (release_lease key q))" "keyed (sq_used (release_lease key q))"
    "sq_unknown (release_lease key q) = sq_unknown q - (if sl_source l = no_source then 1 else 0)"
    using assms Some by (auto simp: release_lease_def Let_def quota_counts_def)
  ultimately show ?thesis using assms lc by (auto simp: quota_counts_def)
qed (use assms in \<open>simp add: release_lease_def\<close>)

lemma release_simps [simp]:
  "sq_per_source (release_lease key q) = sq_per_source q" "sq_max_sources (release_lease key q) = sq_max_sources q"
  by (auto simp: release_lease_def Let_def split: option.splits)

lemma len_delete_le: "len (AList.delete k m) \<le> len m"
  using length_delete_le [of k m] by (simp add: len_def)

lemma release_shrinks:
  assumes "quota_counts q"
  shows "len (sq_leases (release_lease key q)) \<le> len (sq_leases q)" "len (sq_used (release_lease key q)) \<le> len (sq_used q)"
    "used_of (release_lease key q) sid \<le> used_of q sid" "sq_unknown (release_lease key q) \<le> sq_unknown q"
proof -
  show "len (sq_leases (release_lease key q)) \<le> len (sq_leases q)"
    by (simp add: release_lease_def Let_def len_delete_le split: option.split)
  show "sq_unknown (release_lease key q) \<le> sq_unknown q"
    by (simp add: release_lease_def Let_def split: option.split)
  show "used_of (release_lease key q) sid \<le> used_of q sid"
    by (auto simp: release_lease_def Let_def used_of_def split: option.split)
  show "len (sq_used (release_lease key q)) \<le> len (sq_used q)"
  proof (cases "map_of (sq_leases q) key")
    case (Some l)
    show ?thesis
    proof (cases "sl_source l = no_source \<or> used_of q (sl_source l) = 1")
      case True
      then show ?thesis using Some by (auto simp: release_lease_def Let_def len_delete_le)
    next
      case False
      have "lease_count q (sl_source l) > 0"
      proof -
        have "keyed (sq_leases q)" using assms by (simp add: quota_counts_def)
        have "lease_count (q\<lparr>sq_leases := AList.delete key (sq_leases q)\<rparr>) (sl_source l) = lease_count q (sl_source l) - 1"
          using Some \<open>keyed (sq_leases q)\<close> by (simp add: lease_count_delete)
        then show ?thesis using lease_count_nonneg [of "q\<lparr>sq_leases := AList.delete key (sq_leases q)\<rparr>" "sl_source l"] by simp
      qed
      then have "used_of q (sl_source l) \<noteq> 0" using False assms by (simp add: quota_counts_def)
      then have m: "map_of (sq_used q) (sl_source l) \<noteq> None" using counted_used [OF assms, of "sl_source l"] by simp
      have "keyed (sq_used q)" using assms by (simp add: quota_counts_def)
      with m have "len (AList.update (sl_source l) n (sq_used q)) = len (sq_used q)" for n
        using len_update [of "sq_used q" "sl_source l" n] by (simp add: len_def)
      then show ?thesis using Some False by (simp add: release_lease_def Let_def)
    qed
  qed (simp add: release_lease_def)
qed

section \<open>Runs\<close>

datatype quota_op =
    ReserveSource pane_key source_id
  | AttributeRecoveredSource pane_key source_id
  | TransferSourceReservation pane_key pane_key
  | ClaimCreate pane_key
  | SourceUnlinked pane_key
  | CancelSourceReservation pane_key

definition quota_step :: "source_quota option \<Rightarrow> quota_op \<Rightarrow> source_quota option" where
  "quota_step oq op =
     (case op of
        ReserveSource key sid \<Rightarrow> snd (reserve_source key sid oq)
      | AttributeRecoveredSource key sid \<Rightarrow> snd (attribute_recovered_source key sid oq)
      | TransferSourceReservation a b \<Rightarrow> snd (transfer_source_reservation a b oq)
      | ClaimCreate key \<Rightarrow> snd (source_claim_create key oq)
      | SourceUnlinked key \<Rightarrow> source_unlinked key oq
      | CancelSourceReservation key \<Rightarrow> cancel_source_reservation key oq)"

definition source_load :: "source_quota \<Rightarrow> source_id \<Rightarrow> int" where
  "source_load q sid = used_of q sid + sq_unknown q"

text \<open>What every operation keeps: the counts, the bounds, and every source's load once it is within a limit.\<close>

definition quota_kept :: "source_quota \<Rightarrow> source_quota option \<Rightarrow> bool" where
  "quota_kept q oq \<longleftrightarrow>
     (\<exists>q'. oq = Some q' \<and> quota_counts q' \<and> quota_within q' \<and> sq_per_source q' = sq_per_source q
        \<and> sq_max_sources q' = sq_max_sources q
        \<and> (\<forall>sid. sid \<noteq> no_source \<longrightarrow> source_load q' sid \<le> max (sq_per_source q) (source_load q sid)))"

lemma quota_keptI:
  "oq = Some q' \<Longrightarrow> quota_counts q' \<Longrightarrow> quota_within q' \<Longrightarrow> sq_per_source q' = sq_per_source q \<Longrightarrow> sq_max_sources q' = sq_max_sources q
   \<Longrightarrow> (\<And>sid. sid \<noteq> no_source \<Longrightarrow> source_load q' sid \<le> max (sq_per_source q) (source_load q sid)) \<Longrightarrow> quota_kept q oq"
  by (simp add: quota_kept_def)

lemma quota_kept_refl: "quota_counts q \<Longrightarrow> quota_within q \<Longrightarrow> quota_kept q (Some q)"
  by (simp add: quota_kept_def)

lemma release_kept: "quota_counts q \<Longrightarrow> quota_within q \<Longrightarrow> quota_kept q (Some (release_lease key q))"
  using release_shrinks [of q key] counts_release [of q key]
  by (intro quota_keptI [OF refl]) (auto simp: quota_within_def source_load_def add_mono le_max_iff_disj intro: order.trans)

lemma reserve_kept:
  assumes "quota_counts q" "quota_within q"
  shows "quota_kept q (snd (reserve_source key sid (Some q)))"
proof (cases "fst (reserve_source key sid (Some q)) = None \<and> map_of (sq_leases q) key = None")
  case True
  let ?q = "use_source sid (q\<lparr>sq_leases := AList.update key \<lparr>sl_source = sid, sl_materialized = False\<rparr> (sq_leases q)\<rparr>)"
  from True have r: "sid \<noteq> no_source" "used_of q sid + sq_unknown q < sq_per_source q"
      "len (sq_leases q) < sq_per_source q * sq_max_sources q" "used_of q sid = 0 \<longrightarrow> len (sq_used q) < sq_max_sources q"
    and s: "snd (reserve_source key sid (Some q)) = Some ?q"
    by (auto simp: reserve_source_def split: if_splits)
  have u: "len (sq_used ?q) = len (sq_used q) + (if used_of q sid = 0 then 1 else 0)"
    using len_use_source [OF assms(1), of sid] by (simp add: use_source_def)
  have l: "len (sq_leases ?q) = len (sq_leases q) + 1"
    using assms(1) True len_update [of "sq_leases q" key] by (simp add: len_def quota_counts_def)
  show ?thesis
    by (rule quota_keptI [OF s counts_use [OF assms(1) r(1)]])
      (use True r u l assms(2) in \<open>auto simp: quota_within_def source_load_def\<close>)
next
  case False
  then have "snd (reserve_source key sid (Some q)) = Some q"
    by (auto simp: reserve_source_def split: option.splits)
  then show ?thesis using quota_kept_refl [OF assms] by simp
qed

lemma attribute_kept:
  assumes "quota_counts q" "quota_within q"
  shows "quota_kept q (snd (attribute_recovered_source key sid (Some q)))"
proof (cases "snd (attribute_recovered_source key sid (Some q)) = Some q")
  case False
  then obtain l where r: "map_of (sq_leases q) key = Some l" "sid \<noteq> no_source" "sl_source l = no_source"
      "used_of q sid = 0 \<longrightarrow> len (sq_used q) < sq_max_sources q"
    and s: "snd (attribute_recovered_source key sid (Some q)) = Some ((use_source sid (q\<lparr>sq_unknown := sq_unknown q - 1\<rparr>))
      \<lparr>sq_leases := AList.update key (l\<lparr>sl_source := sid\<rparr>) (sq_leases q)\<rparr>)" (is "_ = Some ?q")
    by (auto simp: attribute_recovered_source_def split: option.splits if_splits)
  have u: "len (sq_used ?q) = len (sq_used q) + (if used_of q sid = 0 then 1 else 0)"
    using len_use_source [OF assms(1), of sid] by (simp add: use_source_def)
  have l: "len (sq_leases ?q) = len (sq_leases q)"
    using assms(1) r len_update [of "sq_leases q" key] by (simp add: len_def quota_counts_def)
  show ?thesis
    by (rule quota_keptI [OF s counts_attribute [OF assms(1) r(2,1,3)]])
      (use r u l assms(2) in \<open>auto simp: quota_within_def source_load_def\<close>)
qed (use quota_kept_refl [OF assms] in simp)

lemma claim_kept:
  assumes "quota_counts q" "quota_within q"
  shows "quota_kept q (snd (source_claim_create key (Some q)))"
proof (cases "snd (source_claim_create key (Some q)) = Some q")
  case False
  then obtain l where r: "map_of (sq_leases q) key = Some l"
    and s: "snd (source_claim_create key (Some q)) = Some (q\<lparr>sq_leases := AList.update key (l\<lparr>sl_materialized := True\<rparr>) (sq_leases q)\<rparr>)"
    by (auto simp: source_claim_create_def split: option.splits if_splits)
  have "len (AList.update key (l\<lparr>sl_materialized := True\<rparr>) (sq_leases q)) = len (sq_leases q)"
    using assms(1) r len_update [of "sq_leases q" key] by (simp add: len_def quota_counts_def)
  with counts_retag [OF assms(1) r, where l' = "l\<lparr>sl_materialized := True\<rparr>"] assms(2) show ?thesis
    unfolding s by (intro quota_keptI [OF refl]) (auto simp: quota_within_def source_load_def)
qed (use quota_kept_refl [OF assms] in simp)

lemma transfer_kept:
  assumes "quota_counts q" "quota_within q"
  shows "quota_kept q (snd (transfer_source_reservation a b (Some q)))"
proof (cases "snd (transfer_source_reservation a b (Some q)) = Some q")
  case False
  then obtain l where r: "map_of (sq_leases q) a = Some l" "map_of (sq_leases q) b = None" "a \<noteq> b"
    and s: "snd (transfer_source_reservation a b (Some q)) = Some (q\<lparr>sq_leases := AList.update b l (AList.delete a (sq_leases q))\<rparr>)"
    by (auto simp: transfer_source_reservation_def split: option.splits if_splits)
  have k: "keyed (sq_leases q)" using assms(1) by (simp add: quota_counts_def)
  then have "len (AList.update b l (AList.delete a (sq_leases q))) = len (sq_leases q)"
    using r len_update [of "AList.delete a (sq_leases q)" b l] len_delete [of "sq_leases q" a] by (simp add: len_def)
  moreover have "lease_count (q\<lparr>sq_leases := AList.update b l (AList.delete a (sq_leases q))\<rparr>) i = lease_count q i" for i
    using k r by (simp add: lease_count_def sum_of_update sum_of_delete)
  ultimately show ?thesis
    using assms k unfolding s by (intro quota_keptI [OF refl]) (auto simp: quota_within_def source_load_def quota_counts_def)
qed (use quota_kept_refl [OF assms] in simp)

lemma step_kept:
  assumes "quota_counts q" "quota_within q"
  shows "quota_kept q (quota_step (Some q) op)"
  using reserve_kept [OF assms] attribute_kept [OF assms] claim_kept [OF assms] transfer_kept [OF assms]
    release_kept [OF assms] quota_kept_refl [OF assms]
  by (cases op) (simp_all add: quota_step_def source_unlinked_def cancel_source_reservation_def split: option.split)

lemma run_kept:
  assumes "quota_counts q" "quota_within q"
  shows "quota_kept q (foldl quota_step (Some q) ops)"
proof (induction ops rule: rev_induct)
  case (snoc op ops)
  then obtain q' where q': "foldl quota_step (Some q) ops = Some q'" "quota_counts q'" "quota_within q'"
      "sq_per_source q' = sq_per_source q" "sq_max_sources q' = sq_max_sources q"
      "\<forall>sid. sid \<noteq> no_source \<longrightarrow> source_load q' sid \<le> max (sq_per_source q) (source_load q sid)"
    by (auto simp: quota_kept_def)
  from step_kept [OF q'(2,3), of op] obtain q2 where q2: "quota_step (Some q') op = Some q2" "quota_counts q2" "quota_within q2"
      "sq_per_source q2 = sq_per_source q" "sq_max_sources q2 = sq_max_sources q"
      "\<forall>sid. sid \<noteq> no_source \<longrightarrow> source_load q2 sid \<le> max (sq_per_source q) (source_load q' sid)"
    using q'(4,5) by (auto simp: quota_kept_def)
  have "source_load q2 sid \<le> max (sq_per_source q) (source_load q sid)" if "sid \<noteq> no_source" for sid
    using q2(6) q'(6) that by (meson max.cobounded1 max.boundedI order.trans)
  with q2 q'(1) show ?case by (auto simp: quota_kept_def)
qed (simp add: quota_kept_refl assms)

section \<open>Configuration\<close>

lemma configured_counts:
  assumes "quota_counts q" "keyed panes" "\<And>k. map_of panes k \<noteq> None \<Longrightarrow> map_of (sq_leases q) k = None"
  shows "quota_counts (foldl (configure_pane known) q panes)
    \<and> sq_per_source (foldl (configure_pane known) q panes) = sq_per_source q
    \<and> sq_max_sources (foldl (configure_pane known) q panes) = sq_max_sources q"
  using assms
proof (induction panes arbitrary: q)
  case (Cons e panes)
  obtain key p where e: "e = (key, p)" by (cases e)
  have fresh: "map_of (sq_leases q) key = None" "map_of panes key = None" "keyed panes"
    using Cons.prems(2) Cons.prems(3) [of key] e by (auto simp: keyed_def map_of_eq_None_iff)
  let ?l = "\<lparr>sl_source = known key, sl_materialized = True\<rparr>"
  let ?q1 = "q\<lparr>sq_leases := AList.update key ?l (sq_leases q)\<rparr>"
  have lc: "lease_count ?q1 i = lease_count q i + (if known key = i then 1 else 0)" for i
    using Cons.prems(1) fresh by (simp add: lease_count_update quota_counts_def)
  have "quota_counts (?q1\<lparr>sq_unknown := sq_unknown q + 1\<rparr>)" if "known key = no_source"
  proof -
    have "lease_count (?q1\<lparr>sq_unknown := sq_unknown q + 1\<rparr>) i = lease_count ?q1 i" for i
      by (rule fun_cong [OF lease_count_cong]) simp
    then show ?thesis using lc Cons.prems(1) that by (auto simp: quota_counts_def)
  qed
  then have "quota_counts (configure_pane known q e)"
    using counts_use [OF Cons.prems(1) _ fresh(1), of "known key" ?l] Cons.prems(1)
    by (auto simp: configure_pane_def e Let_def)
  moreover have "map_of (sq_leases (configure_pane known q e)) k = None" if "map_of panes k \<noteq> None" for k
    using Cons.prems(3) [of k] that fresh e by (auto simp: configure_pane_def Let_def)
  moreover have "sq_per_source (configure_pane known q e) = sq_per_source q" "sq_max_sources (configure_pane known q e) = sq_max_sources q"
    by (auto simp: configure_pane_def e Let_def)
  ultimately show ?case using Cons.IH [of "configure_pane known q e"] fresh(3) by simp
qed simp

lemma configured:
  assumes "configure_source_quota per_source max_sources known panes None = (None, oq)" "keyed panes"
  obtains q where "oq = Some q" "quota_counts q" "quota_within q" "sq_per_source q = per_source" "sq_max_sources q = max_sources"
proof -
  let ?q0 = "\<lparr>sq_per_source = per_source, sq_max_sources = max_sources, sq_leases = [], sq_used = [], sq_unknown = 0\<rparr>"
  have "quota_counts ?q0" by (simp add: quota_counts_def used_of_def lease_count_def)
  from configured_counts [OF this assms(2), of known] have "quota_counts (foldl (configure_pane known) ?q0 panes)"
    "sq_per_source (foldl (configure_pane known) ?q0 panes) = per_source" "sq_max_sources (foldl (configure_pane known) ?q0 panes) = max_sources"
    by simp_all
  with that assms(1) show ?thesis
    by (auto simp: configure_source_quota_def Let_def quota_within_def split: if_splits)
qed

text \<open>
  C18: The source quota counts exactly. After it was configured from the surviving files, any sequence of
  reservations, attributions, transfers, creations, unlinks and cancellations leaves the usage it reports for
  every source equal to the number of leases of that source and the unknown count equal to the number of
  leases without one; leases and sources stay within their limits, and no source's load, its own leases
  plus the unknown ones, exceeds its allowance unless it already did at configuration.
\<close>

theorem source_quota_exact:
  assumes "configure_source_quota per_source max_sources known panes None = (None, Some q0)" "keyed panes"
    and "foldl quota_step (Some q0) ops = oq" "sid \<noteq> no_source"
  shows "\<exists>q. oq = Some q
    \<and> source_usage oq sid = (lease_count q sid, lease_count q no_source, per_source, len (sq_leases q))
    \<and> len (sq_leases q) \<le> per_source * max_sources \<and> len (sq_used q) \<le> max_sources
    \<and> lease_count q sid + lease_count q no_source \<le> max per_source (lease_count q0 sid + lease_count q0 no_source)"
proof -
  obtain q1 where c: "Some q0 = Some q1" "quota_counts q1" "quota_within q1" "sq_per_source q1 = per_source" "sq_max_sources q1 = max_sources"
    using assms(1,2) by (rule configured)
  then have c: "quota_counts q0" "quota_within q0" "sq_per_source q0 = per_source" "sq_max_sources q0 = max_sources" by simp_all
  from run_kept [OF c(1,2), of ops] obtain q where q: "oq = Some q" "quota_counts q" "quota_within q"
      "sq_per_source q = per_source" "sq_max_sources q = max_sources" "source_load q sid \<le> max per_source (source_load q0 sid)"
    using c assms(3,4) by (auto simp: quota_kept_def)
  then show ?thesis using assms(4) c(1)
    by (auto simp: source_usage_def quota_within_def source_load_def quota_counts_def)
qed

definition sample_source :: source_id where
  "sample_source = no_source\<lparr>si_realm := ''r'', si_pane := ''%1''\<rparr>"

definition sample_source_panes :: "(pane_key \<times> pane_journal) list" where
  "sample_source_panes = [(no_key, no_pane\<lparr>pj_physical := 70\<rparr>)]"

theorem source_quota_exact_witness:
  "\<exists>q0. configure_source_quota 2 3 (\<lambda>_. no_source) sample_source_panes None = (None, Some q0)
    \<and> source_usage (foldl quota_step (Some q0)
        [ReserveSource (no_key\<lparr>pk_pane := ''%1''\<rparr>) sample_source, ReserveSource (no_key\<lparr>pk_pane := ''%2''\<rparr>) sample_source,
         AttributeRecoveredSource no_key sample_source, SourceUnlinked no_key]) sample_source = (1, 0, 2, 1)"
proof -
  let ?ops = "[ReserveSource (no_key\<lparr>pk_pane := ''%1''\<rparr>) sample_source, ReserveSource (no_key\<lparr>pk_pane := ''%2''\<rparr>) sample_source,
         AttributeRecoveredSource no_key sample_source, SourceUnlinked no_key]"
  let ?conf = "configure_source_quota 2 3 (\<lambda>_. no_source) sample_source_panes None"
  have "fst ?conf = None" "snd ?conf \<noteq> None" by code_simp+
  then obtain q0 where q0: "?conf = (None, Some q0)" by (cases ?conf) auto
  have "source_usage (foldl quota_step (snd ?conf) ?ops) sample_source = (1, 0, 2, 1)" by code_simp
  then have u: "source_usage (foldl quota_step (Some q0) ?ops) sample_source = (1, 0, 2, 1)" by (simp only: q0 snd_conv)
  have k: "keyed sample_source_panes" "sample_source \<noteq> no_source"
    by (simp_all add: keyed_def sample_source_panes_def sample_source_def no_source_def)
  from source_quota_exact [OF q0 k(1) refl k(2), of ?ops] q0 u show ?thesis by auto
qed

end
