(* ===== verification/Journal_Retention.thy ===== *)
theory Journal_Retention
  imports Prelude Journal_Record
begin

text \<open>
  The retention ledger of a journal realm (\<^verbatim>\<open>internal/unifiedjournal/retention.go\<close>): the ticket lock
  that serialises the realm's operations in request order, the complete-pane slots with the one kept
  back for a rotation, and the coalesced wake that \<open>leave\<close> delivers.
\<close>

section \<open>The ledger\<close>

record retention_policy =
  rp_maximum_complete_panes :: int
  rp_complete_pane_units :: int
  rp_complete_realm_units :: int

definition default_complete_pane_slots :: int where
  "default_complete_pane_slots = 9"

record retention_ledger =
  rt_next :: u64
  rt_serving :: u64
  rt_reserved :: int
  rt_limit :: int
  rt_wake :: bool
  rt_wake_pending :: bool

text \<open>The policy of the options, and the limit it gives.\<close>

definition retention_policy_of :: "int \<Rightarrow> retention_policy option \<Rightarrow> retention_policy" where
  "retention_policy_of slots override =
     (case override of
        Some policy \<Rightarrow> policy
      | None \<Rightarrow>
          let n = (if slots > 0 then slots else default_complete_pane_slots)
          in \<lparr>rp_maximum_complete_panes = n, rp_complete_pane_units = 1, rp_complete_realm_units = n\<rparr>)"

definition retention_limit :: "retention_policy \<Rightarrow> int" where
  "retention_limit policy =
     (let limit = rp_maximum_complete_panes policy
      in if limit < 0 \<or> rp_complete_pane_units policy \<le> 0 \<or> rp_complete_realm_units policy < 0 then 0
         else min limit (rp_complete_realm_units policy div rp_complete_pane_units policy))"

definition new_retention_ledger :: "int \<Rightarrow> retention_policy option \<Rightarrow> bool \<Rightarrow> int \<Rightarrow> retention_ledger" where
  "new_retention_ledger slots override wake occupied =
     \<lparr>rt_next = 0, rt_serving = 0, rt_reserved = occupied,
      rt_limit = retention_limit (retention_policy_of slots override), rt_wake = wake, rt_wake_pending = False\<rparr>"

section \<open>The ticket lock\<close>

text \<open>
  \<open>enter\<close> draws a ticket and then waits until it is served; \<open>leave\<close> serves the next one and says whether the
  wake callback is to be called.
\<close>

definition ledger_enter :: "retention_ledger \<Rightarrow> u64 \<times> retention_ledger" where
  "ledger_enter l = (rt_next l, l\<lparr>rt_next := rt_next l + 1\<rparr>)"

definition ledger_served :: "u64 \<Rightarrow> retention_ledger \<Rightarrow> bool" where
  "ledger_served ticket l \<longleftrightarrow> ticket = rt_serving l"

definition ledger_leave :: "retention_ledger \<Rightarrow> bool \<times> retention_ledger" where
  "ledger_leave l =
     (rt_wake_pending l \<and> rt_wake l, l\<lparr>rt_serving := rt_serving l + 1, rt_wake_pending := False\<rparr>)"

section \<open>The slots\<close>

definition reserve_complete_pane :: "bool \<Rightarrow> retention_ledger \<Rightarrow> bool \<times> retention_ledger" where
  "reserve_complete_pane reserve_last l =
     (let limit = (if reserve_last then rt_limit l - 1 else rt_limit l)
      in if limit < 0 \<or> rt_reserved l \<ge> limit then (False, l)
         else (True, l\<lparr>rt_reserved := rt_reserved l + 1\<rparr>))"

definition release_complete_pane :: "retention_ledger \<Rightarrow> retention_ledger" where
  "release_complete_pane l =
     (if rt_reserved l > 0 then l\<lparr>rt_reserved := rt_reserved l - 1, rt_wake_pending := True\<rparr> else l)"

definition retire_complete_pane :: "retention_ledger \<Rightarrow> bool \<times> retention_ledger" where
  "retire_complete_pane l =
     (if rt_reserved l = 0 then (False, l)
      else (True, l\<lparr>rt_reserved := rt_reserved l - 1, rt_wake_pending := True\<rparr>))"

definition release_proven_capacity :: "bool \<Rightarrow> retention_ledger \<Rightarrow> retention_ledger" where
  "release_proven_capacity released l = (if released then l\<lparr>rt_wake_pending := True\<rparr> else l)"

definition available_complete_panes :: "retention_ledger \<Rightarrow> int" where
  "available_complete_panes l =
     (let limit = rt_limit l - 1
      in if limit < 0 \<or> rt_reserved l \<ge> limit then 0 else limit - rt_reserved l)"

lemma reserved_bounds [simp]:
  "rt_limit (snd (reserve_complete_pane b l)) = rt_limit l"
  "rt_limit (release_complete_pane l) = rt_limit l"
  "rt_limit (snd (retire_complete_pane l)) = rt_limit l"
  "rt_limit (release_proven_capacity r l) = rt_limit l"
  "rt_reserved (release_proven_capacity r l) = rt_reserved l"
  by (simp_all add: reserve_complete_pane_def release_complete_pane_def retire_complete_pane_def
    release_proven_capacity_def Let_def)

lemma reserved_reserve:
  "fst (reserve_complete_pane b l) \<Longrightarrow>
     rt_reserved (snd (reserve_complete_pane b l)) = rt_reserved l + 1 \<and> rt_reserved l + 1 \<le> rt_limit l"
  "\<not> fst (reserve_complete_pane b l) \<Longrightarrow> snd (reserve_complete_pane b l) = l"
  by (auto simp: reserve_complete_pane_def Let_def split: if_splits)

lemma reserved_release:
  "0 \<le> rt_reserved l \<Longrightarrow> rt_reserved (release_complete_pane l) = max 0 (rt_reserved l - 1)"
  "0 \<le> rt_reserved l \<Longrightarrow> rt_reserved (snd (retire_complete_pane l)) = max 0 (rt_reserved l - 1)"
  by (auto simp: release_complete_pane_def retire_complete_pane_def)

section \<open>Request order\<close>

text \<open>
  The tickets drawn and not yet given back, oldest first, beside the ledger. A holder leaves only after it
  was served; there are never as many holders as tickets.
\<close>

inductive lock_step :: "retention_ledger \<times> u64 list \<Rightarrow> retention_ledger \<times> u64 list \<Rightarrow> bool" where
  Enter: "length ts < 2 ^ 64 - 1 \<Longrightarrow> ledger_enter l = (t, l') \<Longrightarrow> lock_step (l, ts) (l', ts @ [t])"
| Leave: "t \<in> set ts \<Longrightarrow> ledger_served t l \<Longrightarrow> lock_step (l, ts) (snd (ledger_leave l), remove1 t ts)"

inductive_cases lock_stepE: "lock_step s s'"

definition lock_inv :: "retention_ledger \<times> u64 list \<Rightarrow> bool" where
  "lock_inv s \<longleftrightarrow>
     (case s of (l, ts) \<Rightarrow>
        length ts < 2 ^ 64 \<and> ts = map (\<lambda>i. rt_serving l + of_nat i) [0..<length ts]
        \<and> rt_next l = rt_serving l + of_nat (length ts))"

lemma of_nat_ticket: "i < 2 ^ 64 \<Longrightarrow> j < 2 ^ 64 \<Longrightarrow> (of_nat i :: u64) = of_nat j \<longleftrightarrow> i = j"
  by (simp add: word_unat_eq_iff unat_of_nat take_bit_nat_eq_self)

lemma lock_inv_hd: "lock_inv (l, ts) \<Longrightarrow> t \<in> set ts \<Longrightarrow> ledger_served t l \<longleftrightarrow> t = hd ts"
proof -
  assume inv: "lock_inv (l, ts)" and t: "t \<in> set ts"
  then have n: "0 < length ts" "length ts < 2 ^ 64" by (auto simp: lock_inv_def)
  have ts: "ts = map (\<lambda>i. rt_serving l + of_nat i) [0..<length ts]" using inv by (simp add: lock_inv_def)
  have "hd (map (\<lambda>i. rt_serving l + of_nat i) [0..<length ts]) = rt_serving l" using n by (simp add: upt_conv_Cons)
  with ts have "hd ts = rt_serving l" by argo
  then show ?thesis by (auto simp: ledger_served_def)
qed

lemma lock_inv_step: "lock_step s s' \<Longrightarrow> lock_inv s \<Longrightarrow> lock_inv s'"
proof (induction rule: lock_step.induct)
  case (Enter ts l t l')
  then show ?case by (auto simp: ledger_enter_def lock_inv_def algebra_simps)
next
  case (Leave t ts l)
  then have "t = hd ts" using lock_inv_hd by blast
  with Leave(1) obtain us where ts: "ts = t # us" by (cases ts) auto
  have l: "ts = map (\<lambda>i. rt_serving l + of_nat i) [0..<length ts]" "length ts < 2 ^ 64"
      "rt_next l = rt_serving l + of_nat (length ts)" using Leave(3) by (simp_all add: lock_inv_def)
  have "us = map (\<lambda>i. rt_serving l + of_nat i) [1..<Suc (length us)]" using l(1) unfolding ts by (simp add: upt_rec)
  also have "\<dots> = map (\<lambda>i. rt_serving l + 1 + of_nat i) [0..<length us]"
    unfolding One_nat_def map_Suc_upt [symmetric] by (simp add: algebra_simps)
  finally show ?case using l(2,3) by (simp add: lock_inv_def ledger_leave_def ts)
qed

lemma lock_inv_reachable: "lock_step\<^sup>*\<^sup>* s s' \<Longrightarrow> lock_inv s \<Longrightarrow> lock_inv s'"
  by (induction rule: rtranclp_induct) (auto intro: lock_inv_step)

text \<open>
  C19: The realm's operations run one at a time and in the order in which they were requested. Starting from a
  new ledger, whatever enters and leaves, the ticket that is served is exactly the oldest one that was drawn
  and not given back, no other holder is let in beside it, and as long as anybody waits somebody is served.
\<close>

theorem retention_serves_in_order:
  assumes "lock_step\<^sup>*\<^sup>* (new_retention_ledger slots override wake occupied, []) (l, ts)"
  shows "distinct ts \<and> filter (\<lambda>t. ledger_served t l) ts = take 1 ts"
proof -
  have "lock_inv (new_retention_ledger slots override wake occupied, [])"
    by (simp add: lock_inv_def new_retention_ledger_def)
  from lock_inv_reachable [OF assms this] have inv: "lock_inv (l, ts)" .
  then have ts: "ts = map (\<lambda>i. rt_serving l + of_nat i) [0..<length ts]" and n: "length ts < 2 ^ 64"
    by (simp_all add: lock_inv_def)
  have "inj_on (\<lambda>i. rt_serving l + of_nat i) {0..<length ts}"
    using n by (auto simp: inj_on_def of_nat_ticket)
  then have "distinct (map (\<lambda>i. rt_serving l + of_nat i) [0..<length ts])" by (simp add: distinct_map)
  with ts have d: "distinct ts" by argo
  have "filter (\<lambda>t. ledger_served t l) ts = filter (\<lambda>t. t = hd ts) ts"
    by (rule filter_cong [OF refl]) (rule lock_inv_hd [OF inv])
  also have "\<dots> = take 1 ts"
    using d by (cases ts) (auto simp: filter_empty_conv)
  finally show ?thesis using d by simp
qed

theorem retention_serves_in_order_witness:
  "\<exists>l. lock_step\<^sup>*\<^sup>* (new_retention_ledger 0 None True 0, []) (l, [1, 2])
    \<and> filter (\<lambda>t. ledger_served t l) [1, 2] = [1 :: u64]"
proof -
  define l where "l = \<lparr>rt_next = 3, rt_serving = 1, rt_reserved = 0, rt_limit = 9, rt_wake = True, rt_wake_pending = False\<rparr>"
  let ?l = "\<lambda>n. \<lparr>rt_next = n, rt_serving = 0, rt_reserved = 0, rt_limit = 9, rt_wake = True, rt_wake_pending = False\<rparr>"
  have n: "new_retention_ledger 0 None True 0 = ?l 0"
    by (simp add: new_retention_ledger_def retention_limit_def retention_policy_of_def default_complete_pane_slots_def)
  have "lock_step (?l 0, []) (?l 1, [] @ [0])" by (rule Enter) (simp_all add: ledger_enter_def)
  moreover have "lock_step (?l 1, [0]) (?l 2, [0] @ [1])" by (rule Enter) (simp_all add: ledger_enter_def)
  moreover have "lock_step (?l 2, [0, 1]) (?l 3, [0, 1] @ [2])" by (rule Enter) (simp_all add: ledger_enter_def)
  moreover have "lock_step (?l 3, [0, 1, 2]) (snd (ledger_leave (?l 3)), remove1 0 [0, 1, 2])"
    by (rule Leave) (simp_all add: ledger_served_def)
  moreover have "snd (ledger_leave (?l 3)) = l" by (simp add: ledger_leave_def l_def)
  ultimately have r: "lock_step\<^sup>*\<^sup>* (new_retention_ledger 0 None True 0, []) (l, [1, 2])"
    unfolding n by (auto intro: converse_rtranclp_into_rtranclp)
  from retention_serves_in_order [OF r] have "filter (\<lambda>t. ledger_served t l) [1, 2] = [1 :: u64]" by simp
  with r show ?thesis by blast
qed

end
