(* ===== verification/Journal_Realm.thy ===== *)
theory Journal_Realm
  imports Journal_Pane Journal_Source_Quota Journal_Retention
begin

text \<open>
  The realm of \<^verbatim>\<open>internal/unifiedjournal/journal.go\<close>: all pane generations of one runtime directory
  with the two ledgers, logical (payload and geometry) and physical (bytes on disk), each with what is
  charged, what is reserved and a cap. This theory has the state, the ledgers' room, and the operations on one
  generation: creating its file, appending, committing, removing. Admission, adoption and rotation are in
  \<open>Journal_Admission\<close>.

  The directory is part of the state: the bytes of every file, under the key whose file name it has. What the
  operating system answers (to creating, writing and unlinking) comes with every operation. The objects
  that callers hold (reservations) are in lists, and a caller names one by its position.
  Charges are integers: \<open>Journal_Ledger\<close> shows them within the caps.
\<close>

section \<open>State\<close>

record journal_options =
  jo_realm :: string
  jo_incarnation :: string
  jo_pane_cap :: int
  jo_realm_cap :: int
  jo_startup_recovery :: bool

datatype recovery_disposition = KeepExact | RetireAbsent | RetireReplacement | RetainAmbiguous

datatype recovery_outcome =
    RecoveryScanned | RecoveryKeptExact | RecoveryRetiredAbsent | RecoveryRetiredStale
  | RecoveryRetainedAmbiguous | RecoveryRetainedCorrupt | RecoveryRetainedError

record journal_recovery =
  rv_key :: pane_key
  rv_committed :: int
  rv_eligibility :: eligibility_state
  rv_reason :: invalidation_reason
  rv_decision :: "recovery_disposition option"
  rv_outcome :: recovery_outcome
  rv_initial :: journal_geometry
  rv_final :: journal_geometry
  rv_retained_logical :: int
  rv_retained_physical :: int
  rv_retained_slot :: bool
  rv_retry_needed :: bool

record adoption_reservation =
  ad_key :: pane_key
  ad_held :: bool
  ad_settled :: bool

record rotation_capacity =
  rc_predecessor :: pane_key
  rc_held :: bool
  rc_attempted :: bool
  rc_materialized :: bool
  rc_active :: bool
  rc_successor_logical :: int
  rc_successor_physical :: int
  rc_successor_records :: int

record rotation_reservation =
  rr_predecessor :: pane_key
  rr_successor :: pane_key
  rr_capacity :: nat
  rr_held :: bool
  rr_committed :: bool
  rr_failed :: bool

record geometry_reservation =
  gr_key :: pane_key
  gr_held :: bool

record journal_realm =
  rl_source :: "source_quota option"
  rl_options :: journal_options
  rl_retention :: retention_ledger
  rl_panes :: "(pane_key \<times> pane_journal) list"
  rl_recovered :: "journal_recovery list"
  rl_total :: int
  rl_reserved :: int
  rl_physical_total :: int
  rl_physical_reserved :: int
  rl_physical_cap :: int
  rl_pane_physical_cap :: int
  rl_closed :: bool
  rl_disk :: "(pane_key \<times> bytes) list"
  rl_adoptions :: "adoption_reservation list"
  rl_capacities :: "rotation_capacity list"
  rl_rotations :: "rotation_reservation list"
  rl_geometries :: "geometry_reservation list"

definition max_realm_identities :: int where
  "max_realm_identities = 128"

definition pane_at :: "pane_key \<Rightarrow> journal_realm \<Rightarrow> pane_journal option" where
  "pane_at key r = map_of (rl_panes r) key"

definition put_pane :: "pane_key \<Rightarrow> pane_journal \<Rightarrow> journal_realm \<Rightarrow> journal_realm" where
  "put_pane key p r = r\<lparr>rl_panes := AList.update key p (rl_panes r)\<rparr>"

definition drop_generation :: "pane_key \<Rightarrow> journal_realm \<Rightarrow> journal_realm" where
  "drop_generation key r = r\<lparr>rl_panes := AList.delete key (rl_panes r)\<rparr>"

definition put_file :: "pane_key \<Rightarrow> bytes \<Rightarrow> journal_realm \<Rightarrow> journal_realm" where
  "put_file key bs r = r\<lparr>rl_disk := AList.update key bs (rl_disk r)\<rparr>"

definition file_at :: "pane_key \<Rightarrow> journal_realm \<Rightarrow> bytes" where
  "file_at key r = (case map_of (rl_disk r) key of None \<Rightarrow> [] | Some bs \<Rightarrow> bs)"

text \<open>Bytes written to a file that was unlinked are not in the directory.\<close>

definition grow_file :: "pane_key \<Rightarrow> bytes \<Rightarrow> journal_realm \<Rightarrow> journal_realm" where
  "grow_file key bs r = (if map_of (rl_disk r) key = None then r else put_file key bs r)"

definition with_ledger :: "(retention_ledger \<Rightarrow> retention_ledger) \<Rightarrow> journal_realm \<Rightarrow> journal_realm" where
  "with_ledger f r = r\<lparr>rl_retention := f (rl_retention r)\<rparr>"

section \<open>Room\<close>

definition physical_append_cost :: "bytes \<Rightarrow> int" where
  "physical_append_cost payload = int append_fixed + len payload + int commit_fixed"

definition physical_room :: "journal_realm \<Rightarrow> pane_journal option \<Rightarrow> int \<Rightarrow> bool" where
  "physical_room r pane cost \<longleftrightarrow>
     (let pane_used = at_or 0 (\<lambda>p. pj_physical p + pj_physical_reserved p) pane;
          realm_used = rl_physical_total r + rl_physical_reserved r
      in cost \<le> rl_pane_physical_cap r - pane_used \<and> cost \<le> rl_physical_cap r - realm_used)"

definition logical_room :: "journal_realm \<Rightarrow> pane_journal option \<Rightarrow> int \<Rightarrow> bool" where
  "logical_room r pane cost \<longleftrightarrow>
     (let pane_used = at_or 0 (\<lambda>p. pj_realm_charge p + pj_reserved_charge p) pane
      in cost \<le> jo_pane_cap (rl_options r) - pane_used
         \<and> cost \<le> jo_realm_cap (rl_options r) - rl_total r - rl_reserved r)"

section \<open>Removing a generation's file\<close>

text \<open>The unlink's answer: whether it succeeded or found no file.\<close>

type_synonym unlinks = "pane_key \<Rightarrow> bool"

definition remove_pane_file :: "unlinks \<Rightarrow> pane_key \<Rightarrow> journal_realm \<Rightarrow> bool \<times> journal_realm" where
  "remove_pane_file unlink key r =
     (if unlink key
      then (True, r\<lparr>rl_disk := AList.delete key (rl_disk r), rl_source := source_unlinked key (rl_source r)\<rparr>)
      else (False, r))"

definition release_projection :: "pane_journal \<Rightarrow> pane_journal" where
  "release_projection p = p\<lparr>pj_verified := no_cursor, pj_pending := [], pj_projection_released := True\<rparr>"

text \<open>The two charges of a generation whose bytes are gone.\<close>

definition refund_charges :: "pane_key \<Rightarrow> pane_journal \<Rightarrow> journal_realm \<Rightarrow> journal_realm" where
  "refund_charges key p r =
     put_pane key (release_projection (p\<lparr>pj_realm_charge := 0, pj_physical := 0\<rparr>))
       (r\<lparr>rl_total := rl_total r - pj_realm_charge p, rl_physical_total := rl_physical_total r - pj_physical p\<rparr>)"

text \<open>
  How a terminal generation is settled: its file is closed, then removed, and what it was charged is returned
  when the removal is proved; with \<open>forget\<close> the generation then leaves the map.
\<close>

definition settle_pane_file :: "unlinks \<Rightarrow> bool \<Rightarrow> pane_key \<Rightarrow> journal_realm \<Rightarrow> bool \<times> journal_realm" where
  "settle_pane_file unlink forget key r =
     (case pane_at key r of
        None \<Rightarrow> (True, r)
      | Some p \<Rightarrow>
          let p1 = p\<lparr>pj_file := False\<rparr>
          in case remove_pane_file unlink key (put_pane key p1 r) of
               (False, r1) \<Rightarrow> (False, r1)
             | (True, r1) \<Rightarrow>
                 let r2 = with_ledger (release_proven_capacity (pj_realm_charge p > 0 \<or> pj_physical p > 0))
                            (refund_charges key p1 r1)
                 in (True, if forget then drop_generation key r2 else r2))"

section \<open>Creating a generation\<close>

datatype create_answer = CreateOpened | CreateExists | CreateFailed | CreateUnsafe

record file_io =
  fi_stream :: string
  fi_create :: create_answer
  fi_writes :: "(nat \<times> write_error option) list"
  fi_unlink :: unlinks

text \<open>The file is created exclusively: where one exists the answer is that it exists.\<close>

definition create_outcome :: "file_io \<Rightarrow> pane_key \<Rightarrow> journal_realm \<Rightarrow> create_answer" where
  "create_outcome io key r =
     (if map_of (rl_disk r) key \<noteq> None \<and> fi_create io \<in> {CreateOpened, CreateUnsafe} then CreateExists
      else fi_create io)"

definition create_pane_with_header ::
    "file_io \<Rightarrow> pane_key \<Rightarrow> journal_geometry option \<Rightarrow> generation_origin \<Rightarrow> bytes \<Rightarrow> bool \<Rightarrow> journal_realm
      \<Rightarrow> journal_error option \<times> journal_realm" where
  "create_pane_with_header io key initial origin header header_reserved r =
     (if len (rl_panes r) \<ge> max_realm_identities then (Some ErrQuota, r)
      else if \<not> header_reserved \<and> \<not> physical_room r None (len header) then (Some ErrPhysicalQuota, r)
      else case source_claim_create key (rl_source r) of
        (False, _) \<Rightarrow> (Some ErrSourceQuota, r)
      | (True, quota) \<Rightarrow>
          let r0 = r\<lparr>rl_source := quota\<rparr>
          in case create_outcome io key r of
               CreateFailed \<Rightarrow> (Some ErrUnsafeRuntime, snd (remove_pane_file (fi_unlink io) key r0))
             | CreateExists \<Rightarrow> (Some ErrUnsafeRuntime, r0)
             | CreateUnsafe \<Rightarrow> (Some ErrUnsafeRuntime, put_file key [] r0)
             | CreateOpened \<Rightarrow>
                 (case write_all (fi_writes io) header [] of
                    (err, written) \<Rightarrow>
                      let r1 = put_file key written (r0\<lparr>rl_physical_total := rl_physical_total r0 + len header\<rparr>)
                      in if err \<noteq> None
                         then (case remove_pane_file (fi_unlink io) key r1 of
                                 (False, r2) \<Rightarrow> (Some ErrStorage, r2)
                               | (True, r2) \<Rightarrow>
                                   (Some ErrStorage,
                                    with_ledger (release_proven_capacity (len header > 0))
                                      (r2\<lparr>rl_physical_total := rl_physical_total r2 - len header\<rparr>)))
                         else (None, put_pane key (created_pane key (fi_stream io) initial origin header) r1)))"

definition create_pane_with_capacity ::
    "file_io \<Rightarrow> pane_key \<Rightarrow> journal_geometry option \<Rightarrow> generation_origin \<Rightarrow> bool \<Rightarrow> journal_realm
      \<Rightarrow> journal_error option \<times> journal_realm" where
  "create_pane_with_capacity io key initial origin header_reserved r =
     (case encode_header (new_header key (jo_incarnation (rl_options r)) initial origin) of
        Inl err \<Rightarrow> (Some err, r)
      | Inr header \<Rightarrow> create_pane_with_header io key initial origin header header_reserved r)"

section \<open>Appending output\<close>

datatype append_hold = HoldForward | HoldRollback | HoldAdoption

text \<open>Which hold of the generation an append draws on.\<close>

definition append_hold_of :: "pane_journal \<Rightarrow> append_hold option" where
  "append_hold_of p =
     (if pj_forward_logical p > 0 then Some HoldForward
      else if pj_capacity_held p \<and> pj_rollback_armed p \<and> pj_rollback_logical p > 0 \<and> pj_rollback_records p > 0
      then Some HoldRollback
      else if pj_adoption_logical p > 0 \<or> pj_adoption_physical p > 0 then Some HoldAdoption
      else None)"

fun held_logical :: "append_hold \<Rightarrow> pane_journal \<Rightarrow> int" where
  "held_logical HoldForward p = pj_forward_logical p"
| "held_logical HoldRollback p = pj_rollback_logical p"
| "held_logical HoldAdoption p = pj_adoption_logical p"

fun held_physical :: "append_hold \<Rightarrow> pane_journal \<Rightarrow> int" where
  "held_physical HoldForward p = pj_forward_physical p"
| "held_physical HoldRollback p = pj_rollback_physical p"
| "held_physical HoldAdoption p = pj_adoption_physical p"

fun held_records :: "append_hold \<Rightarrow> pane_journal \<Rightarrow> int option" where
  "held_records HoldForward p = Some (pj_forward_records p)"
| "held_records HoldRollback p = Some (pj_rollback_records p)"
| "held_records HoldAdoption p = None"

fun hold_reserved :: "append_hold \<Rightarrow> pane_journal \<Rightarrow> bool" where
  "hold_reserved HoldForward p = True"
| "hold_reserved HoldRollback p = pj_rollback_reserved p"
| "hold_reserved HoldAdoption p = True"

fun spend_hold :: "append_hold \<Rightarrow> int \<Rightarrow> int \<Rightarrow> pane_journal \<Rightarrow> pane_journal" where
  "spend_hold HoldForward l f p = p\<lparr>pj_forward_logical := pj_forward_logical p - l,
     pj_forward_physical := pj_forward_physical p - f, pj_forward_records := pj_forward_records p - 1\<rparr>"
| "spend_hold HoldRollback l f p = p\<lparr>pj_rollback_logical := pj_rollback_logical p - l,
     pj_rollback_physical := pj_rollback_physical p - f, pj_rollback_records := pj_rollback_records p - 1\<rparr>"
| "spend_hold HoldAdoption l f p = p\<lparr>pj_adoption_logical := pj_adoption_logical p - l,
     pj_adoption_physical := pj_adoption_physical p - f\<rparr>"

text \<open>What a hold pays of an append's logical and physical cost.\<close>

definition draws_held :: "append_hold \<Rightarrow> pane_journal \<Rightarrow> bool" where
  "draws_held h p \<longleftrightarrow> (case held_records h p of None \<Rightarrow> True | Some n \<Rightarrow> n > 0)"

definition logical_share :: "append_hold option \<Rightarrow> pane_journal \<Rightarrow> int \<Rightarrow> int" where
  "logical_share oh p cost =
     (case oh of None \<Rightarrow> 0 | Some h \<Rightarrow> if draws_held h p then min cost (held_logical h p) else 0)"

definition physical_share :: "append_hold option \<Rightarrow> pane_journal \<Rightarrow> int \<Rightarrow> int \<Rightarrow> int" where
  "physical_share oh p logical cost =
     (case oh of
        None \<Rightarrow> 0
      | Some h \<Rightarrow>
          if draws_held h p
          then let shaped = (if held_records h p \<noteq> None then min cost (logical + int append_fixed + int commit_fixed) else cost)
               in min shaped (held_physical h p)
          else 0)"

text \<open>The append on a continuous generation, once the shares are decided: convert, charge, write.\<close>

definition convert_hold :: "append_hold option \<Rightarrow> int \<Rightarrow> int \<Rightarrow> pane_journal \<Rightarrow> journal_realm \<Rightarrow> pane_journal \<times> journal_realm" where
  "convert_hold oh logical physical p r =
     (case oh of
        None \<Rightarrow> (p, r)
      | Some h \<Rightarrow>
          let p1 = (if draws_held h p then spend_hold h logical physical p else p)
          in if hold_reserved h p
             then (p1\<lparr>pj_reserved_charge := pj_reserved_charge p1 - logical,
                      pj_physical_reserved := pj_physical_reserved p1 - physical\<rparr>,
                   r\<lparr>rl_reserved := rl_reserved r - logical, rl_physical_reserved := rl_physical_reserved r - physical\<rparr>)
             else (p1, r))"

definition charged_output ::
    "(nat \<times> write_error option) list \<Rightarrow> pane_key \<Rightarrow> bytes \<Rightarrow> pane_journal \<Rightarrow> journal_realm
      \<Rightarrow> (journal_error + journal_record) \<times> journal_realm" where
  "charged_output answers key payload p r =
     (let cost = physical_append_cost payload;
          p1 = p\<lparr>pj_physical := pj_physical p + cost\<rparr>;
          r1 = r\<lparr>rl_physical_total := rl_physical_total r + cost\<rparr>
      in case write_output answers payload p1 (file_at key r) of
           (Some err, p2, disk) \<Rightarrow> (Inl err, put_pane key p2 (grow_file key disk r1))
         | (None, p2, disk) \<Rightarrow>
             (Inr (new_output_record p payload),
              put_pane key (p2\<lparr>pj_realm_charge := pj_realm_charge p2 + len payload\<rparr>)
                (grow_file key disk (r1\<lparr>rl_total := rl_total r1 + len payload\<rparr>))))"

definition append_admitted ::
    "(nat \<times> write_error option) list \<Rightarrow> pane_key \<Rightarrow> bytes \<Rightarrow> pane_journal \<Rightarrow> journal_realm
      \<Rightarrow> (journal_error + journal_record) \<times> journal_realm" where
  "append_admitted answers key payload p r =
     (let oh = append_hold_of p;
          logical = logical_share oh p (len payload);
          cost = physical_append_cost payload;
          physical = physical_share oh p logical cost
      in if oh = Some HoldForward \<and> pj_forward_records p = 0 then (Inl ErrRotationReplayRecordQuota, r)
         else if \<not> logical_room r (Some p) (len payload - logical)
         then (Inl ErrQuota, put_pane key (invalidate_pane ReasonQuota p) r)
         else if \<not> physical_room r (Some p) (cost - physical)
         then (Inl ErrPhysicalQuota, put_pane key (invalidate_pane ReasonPhysicalQuota p) r)
         else case convert_hold oh logical physical p r of
           (p1, r1) \<Rightarrow> charged_output answers key payload p1 r1)"

definition realm_append ::
    "file_io \<Rightarrow> (nat \<times> write_error option) list \<Rightarrow> pane_key \<Rightarrow> bytes \<Rightarrow> journal_realm
      \<Rightarrow> (journal_error + journal_record) \<times> journal_realm" where
  "realm_append io answers key payload r =
     (if rl_closed r then (Inl ErrInvalidated, r)
      else case pane_at key r of
        Some p \<Rightarrow>
          if pj_state p \<noteq> EligibilityContinuous then (Inl ErrInvalidated, r)
          else append_admitted answers key payload p r
      | None \<Rightarrow>
          (case reserve_complete_pane True (rl_retention r) of
             (False, _) \<Rightarrow> (Inl ErrQuota, r)
           | (True, l) \<Rightarrow>
               (case create_pane_with_capacity io key None OriginBirth False (r\<lparr>rl_retention := l\<rparr>) of
                  (Some err, r1) \<Rightarrow> (Inl err, with_ledger release_complete_pane r1)
                | (None, r1) \<Rightarrow>
                    (case pane_at key r1 of
                       None \<Rightarrow> (Inl ErrInvalidated, r1)
                     | Some p \<Rightarrow> append_admitted answers key payload p r1))))"

section \<open>Appending geometry\<close>

definition append_geometry_locked ::
    "(nat \<times> write_error option) list \<Rightarrow> pane_key \<Rightarrow> journal_geometry \<Rightarrow> pane_journal \<Rightarrow> journal_realm
      \<Rightarrow> (journal_error + journal_record) \<times> journal_realm" where
  "append_geometry_locked answers key g p r =
     (let p1 = p\<lparr>pj_physical := pj_physical p + geometry_record_cost\<rparr>;
          r1 = r\<lparr>rl_physical_total := rl_physical_total r + geometry_record_cost\<rparr>
      in case write_geometry answers g p1 (file_at key r) of
           (Some err, p2, disk) \<Rightarrow> (Inl err, put_pane key p2 (grow_file key disk r1))
         | (None, p2, disk) \<Rightarrow>
             (Inr (new_geometry_record p g),
              put_pane key (p2\<lparr>pj_realm_charge := pj_realm_charge p2 + geometry_record_cost\<rparr>)
                (grow_file key disk (r1\<lparr>rl_total := rl_total r1 + geometry_record_cost\<rparr>))))"

definition append_geometry ::
    "(nat \<times> write_error option) list \<Rightarrow> pane_key \<Rightarrow> journal_geometry \<Rightarrow> journal_realm
      \<Rightarrow> (journal_error + journal_record) \<times> journal_realm" where
  "append_geometry answers key g r =
     (if rl_closed r then (Inl ErrInvalidated, r)
      else case pane_at key r of
        None \<Rightarrow> (Inl ErrInvalidated, r)
      | Some p \<Rightarrow>
          if \<not> pj_admitted p \<or> pj_state p \<noteq> EligibilityContinuous then (Inl ErrInvalidated, r)
          else if \<not> geometry_valid g then (Inl ErrInvalidRecord, r)
          else if \<not> logical_room r (Some p) geometry_record_cost
          then (Inl ErrQuota, put_pane key (invalidate_pane ReasonQuota p) r)
          else if \<not> physical_room r (Some p) geometry_record_cost
          then (Inl ErrPhysicalQuota, put_pane key (invalidate_pane ReasonPhysicalQuota p) r)
          else append_geometry_locked answers key g p r)"

text \<open>A reservation ahead of the write; its position in the list, and its settlement.\<close>

definition reserve_geometry :: "pane_key \<Rightarrow> journal_realm \<Rightarrow> (journal_error + nat) \<times> journal_realm" where
  "reserve_geometry key r =
     (if rl_closed r then (Inl ErrInvalidated, r)
      else case pane_at key r of
        None \<Rightarrow> (Inl ErrInvalidated, r)
      | Some p \<Rightarrow>
          if \<not> pj_admitted p \<or> pj_state p \<noteq> EligibilityContinuous then (Inl ErrInvalidated, r)
          else if \<not> logical_room r (Some p) geometry_record_cost then (Inl ErrQuota, r)
          else if \<not> physical_room r (Some p) geometry_record_cost then (Inl ErrPhysicalQuota, r)
          else (Inr (length (rl_geometries r)),
            put_pane key (p\<lparr>pj_reserved_charge := pj_reserved_charge p + geometry_record_cost,
                            pj_physical_reserved := pj_physical_reserved p + geometry_record_cost\<rparr>)
              (r\<lparr>rl_reserved := rl_reserved r + geometry_record_cost,
                 rl_physical_reserved := rl_physical_reserved r + geometry_record_cost,
                 rl_geometries := rl_geometries r @ [\<lparr>gr_key = key, gr_held = True\<rparr>]\<rparr>)))"

definition release_geometry_pane :: "pane_key \<Rightarrow> journal_realm \<Rightarrow> journal_realm" where
  "release_geometry_pane key r =
     (case pane_at key r of
        None \<Rightarrow> r
      | Some p \<Rightarrow>
          put_pane key (p\<lparr>pj_reserved_charge := pj_reserved_charge p - geometry_record_cost,
                          pj_physical_reserved := pj_physical_reserved p - geometry_record_cost\<rparr>) r)"

definition release_geometry :: "nat \<Rightarrow> journal_realm \<Rightarrow> journal_realm" where
  "release_geometry i r =
     (if i < length (rl_geometries r) \<and> gr_held (rl_geometries r ! i)
      then release_geometry_pane (gr_key (rl_geometries r ! i))
             (r\<lparr>rl_geometries := (rl_geometries r)[i := (rl_geometries r ! i)\<lparr>gr_held := False\<rparr>],
                rl_reserved := rl_reserved r - geometry_record_cost,
                rl_physical_reserved := rl_physical_reserved r - geometry_record_cost\<rparr>)
      else r)"

definition append_reserved_geometry ::
    "(nat \<times> write_error option) list \<Rightarrow> nat \<Rightarrow> journal_geometry \<Rightarrow> journal_realm
      \<Rightarrow> (journal_error + journal_record) \<times> journal_realm" where
  "append_reserved_geometry answers i g r =
     (if \<not> (i < length (rl_geometries r) \<and> gr_held (rl_geometries r ! i)) then (Inl ErrInvalidRecord, r)
      else let key = gr_key (rl_geometries r ! i);
               r1 = release_geometry i r
           in if rl_closed r1 then (Inl ErrInvalidated, r1)
              else case pane_at key r1 of
                None \<Rightarrow> (Inl ErrInvalidated, r1)
              | Some p \<Rightarrow>
                  if \<not> pj_admitted p \<or> pj_state p \<noteq> EligibilityContinuous then (Inl ErrInvalidated, r1)
                  else if \<not> geometry_valid g then (Inl ErrInvalidRecord, r1)
                  else append_geometry_locked answers key g p r1)"

section \<open>Syncing and committing\<close>

definition realm_sync :: "write_error option \<Rightarrow> pane_key \<Rightarrow> journal_realm \<Rightarrow> journal_error option \<times> journal_realm" where
  "realm_sync answer key r =
     (case pane_at key r of
        None \<Rightarrow> (Some ErrInvalidated, r)
      | Some p \<Rightarrow>
          if rl_closed r then (Some ErrInvalidated, r)
          else (case sync_pane answer p of (err, p1) \<Rightarrow> (err, put_pane key p1 r)))"

text \<open>The record the caller commits has a key of its own.\<close>

definition realm_advance_committed ::
    "(bytes \<Rightarrow> journal_header option) \<Rightarrow> commit_io \<Rightarrow> pane_key \<Rightarrow> pane_key \<Rightarrow> journal_record \<Rightarrow> journal_realm
      \<Rightarrow> journal_error option \<times> journal_realm" where
  "realm_advance_committed unmarshal io key record_key record r =
     (case pane_at key r of
        None \<Rightarrow> (Some ErrInvalidated, r)
      | Some p \<Rightarrow>
          if pj_state p \<noteq> EligibilityContinuous \<or> rl_closed r then (Some ErrInvalidated, r)
          else if record_key \<noteq> key then (Some ErrInvalidRecord, put_pane key (invalidate_pane ReasonCorruptJournal p) r)
          else (case advance_committed unmarshal (jo_incarnation (rl_options r)) io record p (file_at key r) of
                  (err, p1, disk) \<Rightarrow> (err, put_pane key p1 (grow_file key disk r))))"

end
