(* ===== verification/Journal_Admission.thy ===== *)
theory Journal_Admission
  imports Journal_Realm
begin

text \<open>
  How generations come and go in a realm (\<^verbatim>\<open>internal/unifiedjournal/journal.go\<close> and \<^verbatim>\<open>writer.go\<close>):
  births, adoptions with the allowance of the generations they supersede, rotations with their capacity
  decided beforehand, retirement, the reconciliation of what a restart found, and the scan at open. Every
  operation is one function on the realm, as the ticket lock runs it.
\<close>

section \<open>Births\<close>

definition admit_pane :: "file_io \<Rightarrow> pane_key \<Rightarrow> journal_geometry \<Rightarrow> journal_realm \<Rightarrow> journal_error option \<times> journal_realm" where
  "admit_pane io key initial r =
     (if rl_closed r then (Some ErrInvalidated, r)
      else if \<not> geometry_valid initial then (Some ErrInvalidRecord, r)
      else case pane_at key r of
        Some p \<Rightarrow>
          (if pj_admitted p \<and> pj_initial p = initial \<and> pj_state p = EligibilityContinuous \<and> pj_origin p = Some OriginBirth
           then None else Some ErrInvalidated, r)
      | None \<Rightarrow>
          (case reserve_complete_pane True (rl_retention r) of
             (False, _) \<Rightarrow> (Some ErrQuota, r)
           | (True, l) \<Rightarrow>
               (case create_pane_with_capacity io key (Some initial) OriginBirth False (r\<lparr>rl_retention := l\<rparr>) of
                  (Some err, r1) \<Rightarrow> (Some err, with_ledger release_complete_pane r1)
                | (None, r1) \<Rightarrow> (None, r1))))"

section \<open>Superseding stale generations\<close>

definition same_pane :: "pane_key \<Rightarrow> pane_key \<Rightarrow> bool" where
  "same_pane a b \<longleftrightarrow>
     pk_server a = pk_server b \<and> pk_session a = pk_session b \<and> pk_window a = pk_window b \<and> pk_pane a = pk_pane b"

definition same_session :: "pane_key \<Rightarrow> pane_key \<Rightarrow> bool" where
  "same_session a b \<longleftrightarrow> pk_server a = pk_server b \<and> pk_session a = pk_session b"

text \<open>A recovered owner of the same pane gives up its slot, the first one to the reconstruction itself.\<close>

definition recovered_owner :: "pane_key \<Rightarrow> source_id \<Rightarrow> journal_realm \<Rightarrow> journal_recovery \<Rightarrow> bool" where
  "recovered_owner current source r rv \<longleftrightarrow>
     (let key = rv_key rv
      in key \<noteq> current \<and> same_pane key current
         \<and> (if source \<noteq> no_source then reserved_source (rl_source r) key = source
            else rv_outcome rv = RecoveryKeptExact \<and> pk_incarnation key = pk_incarnation current)
         \<and> (case pane_at key r of
              None \<Rightarrow> False
            | Some p \<Rightarrow> \<not> pj_slot_retired p \<and> pj_state p = EligibilityLegacy \<and> \<not> pj_corrupt p))"

definition retire_slot :: "pane_key \<Rightarrow> journal_realm \<Rightarrow> journal_realm" where
  "retire_slot key r = (case pane_at key r of None \<Rightarrow> r | Some p \<Rightarrow> put_pane key (p\<lparr>pj_slot_retired := True\<rparr>) r)"

definition retire_recovered_one ::
    "pane_key \<Rightarrow> source_id \<Rightarrow> bool \<Rightarrow> bool \<times> journal_realm \<Rightarrow> journal_recovery \<Rightarrow> bool \<times> journal_realm" where
  "retire_recovered_one current source transfer_one s rv =
     (case s of (transferred, r) \<Rightarrow>
        if \<not> recovered_owner current source r rv then (transferred, r)
        else let r1 = retire_slot (rv_key rv) r
             in if transferred \<or> \<not> transfer_one
                then (transferred, with_ledger (\<lambda>l. snd (retire_complete_pane l)) r1)
                else (True, r1))"

definition retire_recovered :: "pane_key \<Rightarrow> source_id \<Rightarrow> bool \<Rightarrow> journal_realm \<Rightarrow> bool \<times> journal_realm" where
  "retire_recovered current source transfer_one r =
     foldl (retire_recovered_one current source transfer_one) (False, r) (rl_recovered r)"

text \<open>A failed writer's generation, settled in full, is superseded with its slot and its bytes.\<close>

definition settled_failed_candidate :: "journal_realm \<Rightarrow> pane_key \<Rightarrow> pane_journal \<Rightarrow> bool" where
  "settled_failed_candidate r key p \<longleftrightarrow>
     pj_admitted p \<and> \<not> pj_slot_retired p \<and> pj_state p = EligibilityUntrusted \<and> \<not> pj_corrupt p
     \<and> pj_failed_owner_settled p \<and> pj_reserved_charge p = 0 \<and> pj_physical_reserved p = 0
     \<and> pj_adoption_logical p = 0 \<and> pj_adoption_physical p = 0 \<and> \<not> pj_capacity_held p \<and> \<not> pj_rollback_reserved p
     \<and> pj_forward_logical p = 0 \<and> pj_forward_physical p = 0 \<and> reserved_source (rl_source r) key \<noteq> no_source"

definition newer_failed ::
    "pane_key \<Rightarrow> source_id \<Rightarrow> journal_realm \<Rightarrow> pane_key option \<Rightarrow> pane_key \<times> pane_journal \<Rightarrow> pane_key option" where
  "newer_failed current source r selected e =
     (case e of (key, p) \<Rightarrow>
        if key = current \<or> \<not> same_pane key current \<or> \<not> settled_failed_candidate r key p
           \<or> reserved_source (rl_source r) key \<noteq> source
        then selected
        else case selected of
          None \<Rightarrow> Some key
        | Some best \<Rightarrow> if pk_control_generation key > pk_control_generation best then Some key else selected)"

definition transfer_settled_failed ::
    "unlinks \<Rightarrow> pane_key \<Rightarrow> source_id \<Rightarrow> journal_realm \<Rightarrow> (journal_error + int \<times> int \<times> bool) \<times> journal_realm" where
  "transfer_settled_failed unlink current source r =
     (if source = no_source then (Inr (0, 0, False), r)
      else case foldl (newer_failed current source r) None (rl_panes r) of
        None \<Rightarrow> (Inr (0, 0, False), r)
      | Some key \<Rightarrow>
          (case pane_at key r of
             None \<Rightarrow> (Inr (0, 0, False), r)
           | Some p \<Rightarrow>
               (case settle_pane_file unlink True key r of
                  (False, r1) \<Rightarrow> (Inl ErrQuota, r1)
                | (True, r1) \<Rightarrow> (Inr (pj_realm_charge p, pj_physical p, True), r1))))"

text \<open>The sweep of a session's retired generations: what was proved gone is refunded and forgotten.\<close>

definition sweep_one :: "unlinks \<Rightarrow> pane_key \<Rightarrow> int \<times> int \<times> journal_realm \<Rightarrow> pane_key \<Rightarrow> int \<times> int \<times> journal_realm" where
  "sweep_one unlink current s key =
     (case s of (logical, physical, r) \<Rightarrow>
        (case pane_at key r of
           None \<Rightarrow> s
         | Some p \<Rightarrow>
             if key = current \<or> \<not> pj_slot_retired p \<or> \<not> same_session key current then s
             else let p1 = p\<lparr>pj_file := False\<rparr>
                  in case remove_pane_file unlink key (put_pane key p1 r) of
                       (False, r1) \<Rightarrow> (logical, physical, r1)
                     | (True, r1) \<Rightarrow>
                         (logical + pj_realm_charge p, physical + pj_physical p,
                          drop_generation key (refund_charges key p1 r1))))"

definition sweep_retired_session :: "unlinks \<Rightarrow> pane_key \<Rightarrow> journal_realm \<Rightarrow> int \<times> int \<times> journal_realm" where
  "sweep_retired_session unlink current r =
     (case foldl (sweep_one unlink current) (0, 0, r) (map fst (rl_panes r)) of
        (logical, physical, r1) \<Rightarrow>
          (logical, physical, with_ledger (release_proven_capacity (logical > 0 \<or> physical > 0)) r1))"

definition sweep_session :: "unlinks \<Rightarrow> pane_key \<Rightarrow> journal_realm \<Rightarrow> journal_realm" where
  "sweep_session unlink current r = snd (snd (sweep_retired_session unlink current r))"

definition reclaim_retired_session :: "unlinks \<Rightarrow> pane_key \<Rightarrow> journal_realm \<Rightarrow> journal_realm" where
  "reclaim_retired_session unlink key r =
     (if rl_closed r then r
      else sweep_session unlink key (snd (retire_recovered key no_source False r)))"

section \<open>Adoptions\<close>

definition release_allowance :: "int \<Rightarrow> int \<Rightarrow> journal_realm \<Rightarrow> journal_realm" where
  "release_allowance logical physical r =
     with_ledger release_complete_pane
       (r\<lparr>rl_reserved := rl_reserved r - logical, rl_physical_reserved := rl_physical_reserved r - physical\<rparr>)"

text \<open>The header, paid by the allowance when it carries it, and the successor with what remains.\<close>

definition begin_adopted ::
    "file_io \<Rightarrow> pane_key \<Rightarrow> journal_geometry \<Rightarrow> int \<Rightarrow> int \<Rightarrow> journal_realm \<Rightarrow> (journal_error + nat) \<times> journal_realm" where
  "begin_adopted io key initial logical physical0 r =
     (case encode_header (new_header key (jo_incarnation (rl_options r)) (Some initial) OriginReconstructed) of
        Inl err \<Rightarrow> (Inl err, release_allowance logical physical0 r)
      | Inr header \<Rightarrow>
          let carried = physical0 \<ge> len header;
              held = (if carried then len header else 0);
              physical = (if carried then physical0 else 0);
              r1 = (if carried then r else r\<lparr>rl_physical_reserved := rl_physical_reserved r - physical0\<rparr>)
          in case create_pane_with_header io key (Some initial) OriginReconstructed header (held > 0) r1 of
               (Some err, r2) \<Rightarrow>
                 let retained = rl_physical_total r2 - rl_physical_total r1;
                     paid = (if retained > 0 \<and> held > 0 then min retained held else 0)
                 in (Inl err, release_allowance logical (physical - paid)
                       (r2\<lparr>rl_physical_reserved := rl_physical_reserved r2 - paid\<rparr>))
             | (None, r2) \<Rightarrow>
                 (case pane_at key r2 of
                    None \<Rightarrow> (Inl ErrInvalidated, r2)
                  | Some p \<Rightarrow>
                      (Inr (length (rl_adoptions r2)),
                       put_pane key (p\<lparr>pj_adoption_logical := logical, pj_adoption_physical := physical - held,
                           pj_reserved_charge := pj_reserved_charge p + logical,
                           pj_physical_reserved := pj_physical_reserved p + (physical - held)\<rparr>)
                         (r2\<lparr>rl_physical_reserved := rl_physical_reserved r2 - held,
                            rl_adoptions := rl_adoptions r2 @ [\<lparr>ad_key = key, ad_held = True, ad_settled = False\<rparr>]\<rparr>))))"

definition begin_for_source ::
    "file_io \<Rightarrow> pane_key \<Rightarrow> journal_geometry \<Rightarrow> source_id \<Rightarrow> int \<Rightarrow> int \<Rightarrow> journal_realm
      \<Rightarrow> (journal_error + nat) \<times> journal_realm" where
  "begin_for_source io key initial source logical physical r =
     (if source = no_source then begin_adopted io key initial logical physical r
      else case reserve_source key source (rl_source r) of
        (Some err, _) \<Rightarrow> (Inl err, release_allowance logical physical r)
      | (None, quota) \<Rightarrow>
          (case begin_adopted io key initial logical physical (r\<lparr>rl_source := quota\<rparr>) of
             (res, r1) \<Rightarrow> (res, r1\<lparr>rl_source := cancel_source_reservation key (rl_source r1)\<rparr>)))"

text \<open>The idempotent admission of the generation that is already live.\<close>

definition begin_live ::
    "pane_key \<Rightarrow> journal_geometry \<Rightarrow> source_id \<Rightarrow> pane_journal \<Rightarrow> journal_realm \<Rightarrow> (journal_error + nat) \<times> journal_realm" where
  "begin_live key initial source p r =
     (if pj_admitted p \<and> pj_initial p = initial \<and> pj_state p = EligibilityContinuous
         \<and> pj_origin p = Some OriginReconstructed
      then case (if source \<noteq> no_source then reserve_source key source (rl_source r) else (None, rl_source r)) of
             (Some err, _) \<Rightarrow> (Inl err, r)
           | (None, quota) \<Rightarrow>
               (Inr (length (rl_adoptions r)),
                r\<lparr>rl_source := quota,
                  rl_adoptions := rl_adoptions r @ [\<lparr>ad_key = key, ad_held = False, ad_settled = True\<rparr>]\<rparr>)
      else (Inl ErrInvalidated, r))"

text \<open>One slot for the successor: one that a superseded owner had, or a new one.\<close>

definition adoption_slot :: "pane_key \<Rightarrow> source_id \<Rightarrow> bool \<Rightarrow> journal_realm \<Rightarrow> bool \<times> journal_realm" where
  "adoption_slot key source moved r =
     (if moved then (True, r)
      else case retire_recovered key source True r of
        (True, r1) \<Rightarrow> (True, r1)
      | (False, r1) \<Rightarrow>
          (case reserve_complete_pane True (rl_retention r1) of
             (False, _) \<Rightarrow> (False, r1)
           | (True, l) \<Rightarrow> (True, r1\<lparr>rl_retention := l\<rparr>)))"

definition begin_reconstructed ::
    "file_io \<Rightarrow> pane_key \<Rightarrow> journal_geometry \<Rightarrow> source_id \<Rightarrow> journal_realm \<Rightarrow> (journal_error + nat) \<times> journal_realm" where
  "begin_reconstructed io key initial source r =
     (if rl_closed r then (Inl ErrInvalidated, r)
      else if \<not> geometry_valid initial then (Inl ErrInvalidRecord, r)
      else case pane_at key r of
        Some p \<Rightarrow> begin_live key initial source p r
      | None \<Rightarrow>
          (case transfer_settled_failed (fi_unlink io) key source r of
             (Inl err, r1) \<Rightarrow> (Inl err, r1)
           | (Inr (failed_logical, failed_physical, moved), r1) \<Rightarrow>
               (case adoption_slot key source moved r1 of
                  (False, r2) \<Rightarrow> (Inl ErrQuota, r2)
                | (True, r2) \<Rightarrow>
                    (case sweep_retired_session (fi_unlink io) key r2 of
                       (swept_logical, swept_physical, r3) \<Rightarrow>
                         let logical = min (swept_logical + failed_logical) (jo_pane_cap (rl_options r3));
                             physical = min (swept_physical + failed_physical) (rl_pane_physical_cap r3)
                         in begin_for_source io key initial source logical physical
                              (r3\<lparr>rl_reserved := rl_reserved r3 + logical,
                                 rl_physical_reserved := rl_physical_reserved r3 + physical\<rparr>)))))"

definition begin_reconstructed_pane ::
    "file_io \<Rightarrow> pane_key \<Rightarrow> journal_geometry \<Rightarrow> journal_realm \<Rightarrow> (journal_error + nat) \<times> journal_realm" where
  "begin_reconstructed_pane io key initial r =
     begin_reconstructed io key initial (reserved_source (rl_source r) key) r"

definition begin_reconstructed_pane_for_source ::
    "file_io \<Rightarrow> pane_key \<Rightarrow> journal_geometry \<Rightarrow> source_id \<Rightarrow> journal_realm \<Rightarrow> (journal_error + nat) \<times> journal_realm" where
  "begin_reconstructed_pane_for_source io key initial source r =
     (if rl_source r \<noteq> None
         \<and> (source = no_source \<or> si_realm source \<noteq> jo_realm (rl_options r) \<or> si_server source \<noteq> pk_server key
            \<or> si_session source \<noteq> pk_session key \<or> si_window source \<noteq> pk_window key \<or> si_pane source \<noteq> pk_pane key)
      then (Inl ErrInvalidRecord, r)
      else begin_reconstructed io key initial source r)"

definition release_adoption_allowance :: "pane_key \<Rightarrow> journal_realm \<Rightarrow> journal_realm" where
  "release_adoption_allowance key r =
     (case pane_at key r of
        None \<Rightarrow> r
      | Some p \<Rightarrow>
          put_pane key (p\<lparr>pj_reserved_charge := pj_reserved_charge p - pj_adoption_logical p,
                          pj_physical_reserved := pj_physical_reserved p - pj_adoption_physical p,
                          pj_adoption_logical := 0, pj_adoption_physical := 0\<rparr>)
            (r\<lparr>rl_reserved := rl_reserved r - pj_adoption_logical p,
               rl_physical_reserved := rl_physical_reserved r - pj_adoption_physical p\<rparr>))"

text \<open>Both settlements first mark the reservation.\<close>

definition settle_adoption :: "nat \<Rightarrow> journal_realm \<Rightarrow> journal_realm" where
  "settle_adoption i r =
     r\<lparr>rl_adoptions := (rl_adoptions r)[i := (rl_adoptions r ! i)\<lparr>ad_settled := True,
         ad_held := ad_held (rl_adoptions r ! i) \<and> rl_closed r\<rparr>]\<rparr>"

definition adoption_pending :: "nat \<Rightarrow> journal_realm \<Rightarrow> bool" where
  "adoption_pending i r \<longleftrightarrow>
     i < length (rl_adoptions r) \<and> \<not> ad_settled (rl_adoptions r ! i)"

definition adoption_commit :: "unlinks \<Rightarrow> nat \<Rightarrow> journal_realm \<Rightarrow> journal_realm" where
  "adoption_commit unlink i r =
     (if \<not> adoption_pending i r then r
      else let a = rl_adoptions r ! i; r1 = settle_adoption i r
           in if \<not> ad_held a \<or> rl_closed r then r1
              else sweep_session unlink (ad_key a) (release_adoption_allowance (ad_key a) r1))"

text \<open>An aborted or failed successor stays behind as a retired generation that admits nothing.\<close>

definition entomb :: "invalidation_reason \<Rightarrow> pane_key \<Rightarrow> journal_realm \<Rightarrow> journal_realm" where
  "entomb reason key r =
     (case pane_at key r of
        None \<Rightarrow> r
      | Some p \<Rightarrow> put_pane key ((invalidate_pane reason p)\<lparr>pj_slot_retired := True\<rparr>) r)"

definition adoption_abort :: "unlinks \<Rightarrow> nat \<Rightarrow> journal_realm \<Rightarrow> journal_realm" where
  "adoption_abort unlink i r =
     (if \<not> adoption_pending i r then r
      else let a = rl_adoptions r ! i; r1 = settle_adoption i r
           in if \<not> ad_held a \<or> rl_closed r then r1
              else snd (settle_pane_file unlink False (ad_key a)
                (entomb ReasonAdoptionAborted (ad_key a)
                  (release_adoption_allowance (ad_key a) (with_ledger release_complete_pane r1)))))"

text \<open>\<open>AdmitReconstructedPane\<close>: begun and committed at once.\<close>

definition admit_reconstructed_pane ::
    "file_io \<Rightarrow> unlinks \<Rightarrow> pane_key \<Rightarrow> journal_geometry \<Rightarrow> journal_realm \<Rightarrow> journal_error option \<times> journal_realm" where
  "admit_reconstructed_pane io unlink key initial r =
     (case begin_reconstructed_pane io key initial r of
        (Inl err, r1) \<Rightarrow> (Some err, r1)
      | (Inr i, r1) \<Rightarrow> (None, adoption_commit unlink i r1))"

section \<open>Rotations\<close>

definition adoption_bootstrap_cap_bytes :: int where "adoption_bootstrap_cap_bytes = 2 * 2 ^ 20"
definition adoption_bootstrap_cap_records :: int where "adoption_bootstrap_cap_records = 32"
definition rotation_pending_cap_bytes :: int where "rotation_pending_cap_bytes = 2 ^ 20"
definition rotation_pending_cap_records :: int where "rotation_pending_cap_records = 16"
definition rotation_header_physical_reserve :: int where "rotation_header_physical_reserve = 8 + header_limit"

definition rotation_replay_physical :: "int \<Rightarrow> int \<Rightarrow> int" where
  "rotation_replay_physical n records = n + records * geometry_record_cost"

definition rollback_physical_need :: int where
  "rollback_physical_need = rotation_replay_physical rotation_pending_cap_bytes rotation_pending_cap_records"

definition successor_logical_need :: int where
  "successor_logical_need = adoption_bootstrap_cap_bytes + rotation_pending_cap_bytes"

definition successor_physical_need :: int where
  "successor_physical_need = rotation_header_physical_reserve
     + rotation_replay_physical adoption_bootstrap_cap_bytes adoption_bootstrap_cap_records
     + rotation_replay_physical rotation_pending_cap_bytes rotation_pending_cap_records"

definition begin_rotation_capacity :: "pane_key \<Rightarrow> journal_realm \<Rightarrow> (journal_error + nat) \<times> journal_realm" where
  "begin_rotation_capacity predecessor r =
     (if rl_closed r then (Inl ErrInvalidated, r)
      else case pane_at predecessor r of
        None \<Rightarrow> (Inl ErrInvalidated, r)
      | Some p \<Rightarrow>
          if \<not> pj_admitted p \<or> pj_state p \<noteq> EligibilityContinuous \<or> pj_slot_retired p \<or> pj_capacity_held p
          then (Inl ErrInvalidated, r)
          else case reserve_complete_pane False (rl_retention r) of
            (False, _) \<Rightarrow> (Inl ErrQuota, r)
          | (True, l) \<Rightarrow>
              let r1 = r\<lparr>rl_retention := l\<rparr>
              in if rotation_pending_cap_bytes > jo_pane_cap (rl_options r) - pj_realm_charge p - pj_reserved_charge p
                    \<or> successor_logical_need > jo_pane_cap (rl_options r)
                    \<or> rotation_pending_cap_bytes + successor_logical_need
                       > jo_realm_cap (rl_options r) - rl_total r - rl_reserved r
                 then (Inl ErrQuota, with_ledger release_complete_pane r1)
                 else if rollback_physical_need > rl_pane_physical_cap r - pj_physical p - pj_physical_reserved p
                    \<or> successor_physical_need > rl_pane_physical_cap r
                    \<or> rollback_physical_need + successor_physical_need
                       > rl_physical_cap r - rl_physical_total r - rl_physical_reserved r
                 then (Inl ErrPhysicalQuota, with_ledger release_complete_pane r1)
                 else (Inr (length (rl_capacities r)),
                   put_pane predecessor
                     (p\<lparr>pj_reserved_charge := pj_reserved_charge p + rotation_pending_cap_bytes,
                        pj_physical_reserved := pj_physical_reserved p + rollback_physical_need,
                        pj_rollback_logical := rotation_pending_cap_bytes,
                        pj_rollback_physical := rollback_physical_need,
                        pj_rollback_records := rotation_pending_cap_records,
                        pj_rollback_reserved := True, pj_capacity_held := True\<rparr>)
                     (r1\<lparr>rl_reserved := rl_reserved r1 + (rotation_pending_cap_bytes + successor_logical_need),
                        rl_physical_reserved := rl_physical_reserved r1 + (rollback_physical_need + successor_physical_need),
                        rl_capacities := rl_capacities r1 @
                          [\<lparr>rc_predecessor = predecessor, rc_held = True, rc_attempted = False, rc_materialized = False,
                            rc_active = False, rc_successor_logical = successor_logical_need,
                            rc_successor_physical = successor_physical_need,
                            rc_successor_records = adoption_bootstrap_cap_records + rotation_pending_cap_records\<rparr>]\<rparr>)))"

definition release_rotation_rollback :: "pane_key \<Rightarrow> journal_realm \<Rightarrow> journal_realm" where
  "release_rotation_rollback key r =
     (case pane_at key r of
        None \<Rightarrow> r
      | Some p \<Rightarrow>
          if \<not> pj_capacity_held p then r
          else let cleared = (\<lambda>q. q\<lparr>pj_rollback_logical := 0, pj_rollback_physical := 0, pj_rollback_records := 0,
                                  pj_rollback_reserved := False, pj_rollback_armed := False, pj_capacity_held := False\<rparr>)
               in if pj_rollback_reserved p
                  then put_pane key
                         (cleared (p\<lparr>pj_reserved_charge := pj_reserved_charge p - pj_rollback_logical p,
                                    pj_physical_reserved := pj_physical_reserved p - pj_rollback_physical p\<rparr>))
                         (r\<lparr>rl_reserved := rl_reserved r - pj_rollback_logical p,
                            rl_physical_reserved := rl_physical_reserved r - pj_rollback_physical p\<rparr>)
                  else put_pane key (cleared p) r)"

definition set_capacity :: "nat \<Rightarrow> rotation_capacity \<Rightarrow> journal_realm \<Rightarrow> journal_realm" where
  "set_capacity i c r = r\<lparr>rl_capacities := (rl_capacities r)[i := c]\<rparr>"

definition capacity_at :: "nat \<Rightarrow> journal_realm \<Rightarrow> rotation_capacity option" where
  "capacity_at i r = (if i < length (rl_capacities r) then Some (rl_capacities r ! i) else None)"

definition release_capacity :: "nat \<Rightarrow> journal_realm \<Rightarrow> journal_realm" where
  "release_capacity i r =
     (case capacity_at i r of
        None \<Rightarrow> r
      | Some c \<Rightarrow>
          if \<not> rc_held c \<or> rc_active c then r
          else let r1 = release_rotation_rollback (rc_predecessor c) (set_capacity i (c\<lparr>rc_held := False\<rparr>) r)
               in if rc_materialized c then r1
                  else with_ledger release_complete_pane
                         (r1\<lparr>rl_reserved := rl_reserved r1 - rc_successor_logical c,
                            rl_physical_reserved := rl_physical_reserved r1 - rc_successor_physical c\<rparr>))"

definition arm_rotation_rollback :: "pane_key \<Rightarrow> journal_realm \<Rightarrow> journal_realm" where
  "arm_rotation_rollback key r =
     (case pane_at key r of
        None \<Rightarrow> r
      | Some p \<Rightarrow>
          if \<not> pj_capacity_held p \<or> \<not> pj_rollback_reserved p then r
          else put_pane key (p\<lparr>pj_rollback_armed := True\<rparr>) r)"

definition arm_rollback :: "nat \<Rightarrow> journal_realm \<Rightarrow> journal_error option \<times> journal_realm" where
  "arm_rollback i r =
     (case capacity_at i r of
        None \<Rightarrow> (Some ErrInvalidated, r)
      | Some c \<Rightarrow>
          if rl_closed r \<or> \<not> rc_held c \<or> rc_materialized c \<or> rc_active c then (Some ErrInvalidated, r)
          else case pane_at (rc_predecessor c) r of
            None \<Rightarrow> (Some ErrInvalidated, r)
          | Some p \<Rightarrow> if \<not> pj_capacity_held p then (Some ErrInvalidated, r)
                      else (None, arm_rotation_rollback (rc_predecessor c) r))"

text \<open>The materialized successor takes over what its capacity held for it.\<close>

definition rotated_created :: "pane_key \<Rightarrow> nat \<Rightarrow> rotation_capacity \<Rightarrow> pane_journal \<Rightarrow> journal_realm \<Rightarrow> nat \<times> journal_realm" where
  "rotated_created key i c p r =
     (let left = rc_successor_physical c - rotation_header_physical_reserve
      in (length (rl_rotations r),
          put_pane key (p\<lparr>pj_reserved_charge := pj_reserved_charge p + rc_successor_logical c,
              pj_physical_reserved := pj_physical_reserved p + left,
              pj_forward_logical := rc_successor_logical c, pj_forward_physical := left,
              pj_forward_records := rc_successor_records c\<rparr>)
            (set_capacity i (c\<lparr>rc_successor_logical := 0, rc_successor_physical := 0, rc_successor_records := 0,
                rc_materialized := True, rc_active := True\<rparr>)
              (r\<lparr>rl_physical_reserved := rl_physical_reserved r - rotation_header_physical_reserve,
                 rl_rotations := rl_rotations r @
                   [\<lparr>rr_predecessor = rc_predecessor c, rr_successor = key, rr_capacity = i, rr_held = True,
                     rr_committed = False, rr_failed = False\<rparr>]\<rparr>))))"

definition rotation_allowed :: "pane_key \<Rightarrow> rotation_capacity \<Rightarrow> journal_realm \<Rightarrow> bool" where
  "rotation_allowed key c r \<longleftrightarrow>
     (case pane_at (rc_predecessor c) r of
        None \<Rightarrow> False
      | Some p \<Rightarrow> pj_admitted p \<and> pj_state p = EligibilityContinuous \<and> \<not> pj_slot_retired p \<and> pj_capacity_held p
                   \<and> \<not> pj_rollback_armed p)
     \<and> same_session key (rc_predecessor c) \<and> pk_control_generation key \<noteq> pk_control_generation (rc_predecessor c)
     \<and> pane_at key r = None"

definition begin_rotated_pane ::
    "file_io \<Rightarrow> pane_key \<Rightarrow> journal_geometry \<Rightarrow> nat \<Rightarrow> journal_realm \<Rightarrow> (journal_error + nat) \<times> journal_realm" where
  "begin_rotated_pane io key initial i r =
     (case capacity_at i r of
        None \<Rightarrow> (Inl ErrInvalidated, r)
      | Some c \<Rightarrow>
          if rl_closed r \<or> \<not> rc_held c \<or> rc_attempted c \<or> rc_materialized c \<or> rc_active c then (Inl ErrInvalidated, r)
          else if \<not> geometry_valid initial then (Inl ErrInvalidRecord, r)
          else if \<not> rotation_allowed key c r then (Inl ErrInvalidated, r)
          else let c1 = c\<lparr>rc_attempted := True\<rparr>; r1 = set_capacity i c1 r
               in case create_pane_with_capacity io key (Some initial) OriginRotated True r1 of
                    (Some err, r2) \<Rightarrow>
                      let retained = rl_physical_total r2 - rl_physical_total r1
                      in (Inl err,
                          if retained > 0
                          then set_capacity i (c1\<lparr>rc_successor_physical := rc_successor_physical c1 - retained\<rparr>)
                                 (r2\<lparr>rl_physical_reserved := rl_physical_reserved r2 - retained\<rparr>)
                          else r2)
                  | (None, r2) \<Rightarrow>
                      (case pane_at key r2 of
                         None \<Rightarrow> (Inl ErrInvalidated, r2)
                       | Some p \<Rightarrow> (case rotated_created key i c1 p r2 of (j, r3) \<Rightarrow> (Inr j, r3))))"

definition release_rotation_forward :: "pane_key \<Rightarrow> journal_realm \<Rightarrow> journal_realm" where
  "release_rotation_forward key r =
     (case pane_at key r of
        None \<Rightarrow> r
      | Some p \<Rightarrow>
          if pj_forward_logical p = 0 \<and> pj_forward_physical p = 0 \<and> pj_forward_records p = 0 then r
          else put_pane key
                 (p\<lparr>pj_reserved_charge := pj_reserved_charge p - pj_forward_logical p,
                    pj_physical_reserved := pj_physical_reserved p - pj_forward_physical p,
                    pj_forward_logical := 0, pj_forward_physical := 0, pj_forward_records := 0\<rparr>)
                 (r\<lparr>rl_reserved := rl_reserved r - pj_forward_logical p,
                    rl_physical_reserved := rl_physical_reserved r - pj_forward_physical p\<rparr>))"

text \<open>The rollback part is a no-op unless the capacity is held, whatever its remainders are.\<close>

definition release_rotation_pane_reservations :: "pane_key \<Rightarrow> journal_realm \<Rightarrow> journal_realm" where
  "release_rotation_pane_reservations key r = release_rotation_forward key (release_rotation_rollback key r)"

definition retire_pane_slot :: "invalidation_reason \<Rightarrow> pane_key \<Rightarrow> journal_realm \<Rightarrow> journal_realm" where
  "retire_pane_slot reason key r =
     (case pane_at key r of
        None \<Rightarrow> r
      | Some p \<Rightarrow>
          if pj_slot_retired p then r
          else with_ledger release_complete_pane (put_pane key (invalidate_pane reason (p\<lparr>pj_slot_retired := True\<rparr>)) r))"

definition set_rotation :: "nat \<Rightarrow> rotation_reservation \<Rightarrow> journal_realm \<Rightarrow> journal_realm" where
  "set_rotation j t r = r\<lparr>rl_rotations := (rl_rotations r)[j := t]\<rparr>"

definition rotation_at :: "nat \<Rightarrow> journal_realm \<Rightarrow> rotation_reservation option" where
  "rotation_at j r = (if j < length (rl_rotations r) then Some (rl_rotations r ! j) else None)"

definition drop_capacity :: "bool \<Rightarrow> nat \<Rightarrow> journal_realm \<Rightarrow> journal_realm" where
  "drop_capacity still_held i r =
     (case capacity_at i r of
        None \<Rightarrow> r
      | Some c \<Rightarrow> set_capacity i (c\<lparr>rc_active := False, rc_held := rc_held c \<and> still_held\<rparr>) r)"

definition rotation_commit :: "unlinks \<Rightarrow> nat \<Rightarrow> journal_realm \<Rightarrow> journal_realm" where
  "rotation_commit unlink j r =
     (case rotation_at j r of
        None \<Rightarrow> r
      | Some t \<Rightarrow>
          if \<not> rr_held t then r
          else sweep_session unlink (rr_successor t)
                 (retire_pane_slot ReasonSourceReplacement (rr_predecessor t)
                   (release_rotation_pane_reservations (rr_successor t)
                     (release_rotation_rollback (rr_predecessor t)
                       (drop_capacity False (rr_capacity t)
                         (set_rotation j (t\<lparr>rr_held := False, rr_committed := True\<rparr>) r))))))"

definition invalidate_at :: "invalidation_reason \<Rightarrow> pane_key \<Rightarrow> journal_realm \<Rightarrow> journal_realm" where
  "invalidate_at reason key r =
     (case pane_at key r of None \<Rightarrow> r | Some p \<Rightarrow> put_pane key (invalidate_pane reason p) r)"

definition rotation_fail_committed :: "unlinks \<Rightarrow> nat \<Rightarrow> journal_realm \<Rightarrow> journal_realm" where
  "rotation_fail_committed unlink j r =
     (case rotation_at j r of
        None \<Rightarrow> r
      | Some t \<Rightarrow>
          if \<not> rr_committed t \<and> \<not> rr_failed t then r
          else snd (settle_pane_file unlink True (rr_successor t)
                 (retire_pane_slot ReasonSourceReplacement (rr_successor t)
                   (invalidate_at ReasonSourceReplacement (rr_successor t)
                     (set_rotation j (t\<lparr>rr_failed := True, rr_committed := False\<rparr>) r)))))"

definition rotation_abort :: "unlinks \<Rightarrow> nat \<Rightarrow> journal_realm \<Rightarrow> journal_realm" where
  "rotation_abort unlink j r =
     (case rotation_at j r of
        None \<Rightarrow> r
      | Some t \<Rightarrow>
          if \<not> rr_held t then r
          else snd (settle_pane_file unlink False (rr_successor t)
                 (entomb ReasonAdoptionAborted (rr_successor t)
                   (with_ledger release_complete_pane
                     (release_rotation_pane_reservations (rr_successor t)
                       (arm_rotation_rollback (rr_predecessor t)
                         (drop_capacity True (rr_capacity t)
                           (set_rotation j (t\<lparr>rr_held := False\<rparr>) r))))))))"

definition rotation_fatal :: "unlinks \<Rightarrow> nat \<Rightarrow> journal_realm \<Rightarrow> journal_realm" where
  "rotation_fatal unlink j r =
     (case rotation_at j r of
        None \<Rightarrow> r
      | Some t \<Rightarrow>
          if \<not> rr_held t then r
          else snd (settle_pane_file unlink False (rr_successor t)
                 (entomb ReasonSourceReplacement (rr_successor t)
                   (with_ledger release_complete_pane
                     (release_rotation_pane_reservations (rr_successor t)
                       (drop_capacity False (rr_capacity t)
                         (release_rotation_rollback (rr_predecessor t)
                           (retire_pane_slot ReasonSourceReplacement (rr_predecessor t)
                             (invalidate_at ReasonSourceReplacement (rr_predecessor t)
                               (set_rotation j (t\<lparr>rr_held := False\<rparr>) r))))))))))"

section \<open>Retirement and recovery\<close>

definition retire_pane :: "unlinks \<Rightarrow> pane_key \<Rightarrow> journal_realm \<Rightarrow> bool \<times> journal_realm" where
  "retire_pane unlink key r =
     (if rl_closed r then (True, r)
      else case pane_at key r of
        None \<Rightarrow> (True, r)
      | Some p0 \<Rightarrow>
          let p = invalidate_pane ReasonSourceReplacement p0
          in if pj_reserved_charge p \<noteq> 0 \<or> pj_physical_reserved p \<noteq> 0 \<or> pj_capacity_held p
             then (False, put_pane key p r)
             else settle_pane_file unlink True key
                    (if pj_slot_retired p then put_pane key p r
                     else with_ledger (\<lambda>l. snd (retire_complete_pane l))
                            (put_pane key (p\<lparr>pj_slot_retired := True\<rparr>) r)))"

text \<open>A decision for one recovered generation; of several for one key the last counts.\<close>

definition decided :: "(pane_key \<times> recovery_disposition) list \<Rightarrow> pane_key \<Rightarrow> recovery_disposition" where
  "decided decisions key = (case map_of (rev decisions) key of None \<Rightarrow> RetainAmbiguous | Some d \<Rightarrow> d)"

definition reconcile_outcome ::
    "unlinks \<Rightarrow> recovery_disposition \<Rightarrow> pane_key \<Rightarrow> pane_journal \<Rightarrow> journal_realm \<Rightarrow> recovery_outcome \<times> journal_realm" where
  "reconcile_outcome unlink d key p r =
     (if pj_corrupt p \<or> pj_reason p = ReasonCorruptJournal then (RecoveryRetainedCorrupt, r)
      else case d of
        KeepExact \<Rightarrow> (RecoveryKeptExact, r)
      | RetainAmbiguous \<Rightarrow> (RecoveryRetainedAmbiguous, r)
      | RetireAbsent \<Rightarrow>
          (case retire_pane unlink key r of (ok, r1) \<Rightarrow> (if ok then RecoveryRetiredAbsent else RecoveryRetainedError, r1))
      | RetireReplacement \<Rightarrow>
          (case retire_pane unlink key r of (ok, r1) \<Rightarrow> (if ok then RecoveryRetiredStale else RecoveryRetainedError, r1)))"

definition reconcile_one ::
    "unlinks \<Rightarrow> (pane_key \<times> recovery_disposition) list \<Rightarrow> journal_recovery list \<times> journal_realm \<Rightarrow> journal_recovery
      \<Rightarrow> journal_recovery list \<times> journal_realm" where
  "reconcile_one unlink decisions s rv =
     (case s of (done_list, r) \<Rightarrow>
        (case pane_at (rv_key rv) r of
           None \<Rightarrow> (done_list @ [rv], r)
         | Some p \<Rightarrow>
             let d = decided decisions (rv_key rv)
             in case reconcile_outcome unlink d (rv_key rv) p r of
                  (outcome, r1) \<Rightarrow>
                    let after = pane_at (rv_key rv) r1
                    in (done_list @ [rv\<lparr>rv_decision := Some d, rv_outcome := outcome,
                          rv_retained_logical := at_or 0 pj_realm_charge after,
                          rv_retained_physical := at_or 0 pj_physical after,
                          rv_retained_slot := (case after of None \<Rightarrow> False | Some q \<Rightarrow> \<not> pj_slot_retired q),
                          rv_retry_needed := (outcome = RecoveryRetainedError)\<rparr>], r1)))"

definition reconcile_recovered ::
    "unlinks \<Rightarrow> (pane_key \<times> recovery_disposition) list \<Rightarrow> journal_realm \<Rightarrow> journal_recovery list \<times> journal_realm" where
  "reconcile_recovered unlink decisions r =
     (case foldl (reconcile_one unlink decisions) ([], r) (rl_recovered r) of
        (recovered, r1) \<Rightarrow> (recovered, r1\<lparr>rl_recovered := recovered\<rparr>))"

definition reclaim_retired :: "pane_key \<Rightarrow> journal_realm \<Rightarrow> bool \<times> journal_realm" where
  "reclaim_retired key r =
     (case pane_at key r of
        None \<Rightarrow> (True, r)
      | Some p \<Rightarrow>
          if \<not> pj_slot_retired p \<or> pj_file p \<or> \<not> pj_projection_released p \<or> pj_realm_charge p \<noteq> 0
             \<or> pj_physical p \<noteq> 0 \<or> pj_reserved_charge p \<noteq> 0 \<or> pj_physical_reserved p \<noteq> 0
             \<or> pj_adoption_logical p \<noteq> 0 \<or> pj_adoption_physical p \<noteq> 0 \<or> pj_capacity_held p
             \<or> pj_rollback_reserved p \<or> pj_forward_logical p \<noteq> 0 \<or> pj_forward_physical p \<noteq> 0
          then (False, r)
          else (True, drop_generation key r))"

section \<open>Writers\<close>

text \<open>
  A writer holds the pane object it was bound to. Objects are told apart by their stream, which is minted at
  random when a generation is created.
\<close>

record journal_writer =
  jw_key :: pane_key
  jw_stream :: string

definition bind_writer :: "pane_key \<Rightarrow> journal_realm \<Rightarrow> journal_error + journal_writer" where
  "bind_writer key r =
     (case pane_at key r of
        None \<Rightarrow> Inl ErrInvalidated
      | Some p \<Rightarrow>
          if \<not> pj_admitted p \<or> pj_state p \<noteq> EligibilityContinuous \<or> rl_closed r then Inl ErrInvalidated
          else Inr \<lparr>jw_key = key, jw_stream = pj_stream p\<rparr>)"

definition writer_valid :: "journal_writer \<Rightarrow> pane_key \<Rightarrow> journal_realm \<Rightarrow> bool" where
  "writer_valid w key r \<longleftrightarrow>
     jw_key w = key \<and> \<not> rl_closed r
     \<and> (case pane_at key r of
          None \<Rightarrow> False
        | Some p \<Rightarrow> pj_stream p = jw_stream w \<and> pj_admitted p \<and> pj_state p = EligibilityContinuous)"

definition writer_append ::
    "file_io \<Rightarrow> (nat \<times> write_error option) list \<Rightarrow> journal_writer \<Rightarrow> pane_key \<Rightarrow> bytes \<Rightarrow> journal_realm
      \<Rightarrow> (journal_error + journal_record) \<times> journal_realm" where
  "writer_append io answers w key payload r =
     (if \<not> writer_valid w key r then (Inl ErrInvalidated, r)
      else case pane_at key r of
        None \<Rightarrow> (Inl ErrInvalidated, r)
      | Some p \<Rightarrow>
          if pj_pending p \<noteq> [] then (Inl ErrInvalidRecord, r) else realm_append io answers key payload r)"

definition settle_failed_owner :: "journal_writer \<Rightarrow> journal_realm \<Rightarrow> journal_realm" where
  "settle_failed_owner w r =
     (case pane_at (jw_key w) r of
        None \<Rightarrow> r
      | Some p \<Rightarrow>
          if pj_stream p = jw_stream w then put_pane (jw_key w) (p\<lparr>pj_failed_owner_settled := True\<rparr>) r else r)"

section \<open>Opening and closing\<close>

definition scanned_pane :: "journal_realm \<Rightarrow> pane_journal \<Rightarrow> pane_journal" where
  "scanned_pane r p =
     p\<lparr>pj_realm_charge := pj_end p + pj_geometry_charge p,
       pj_slot_retired := \<not> jo_startup_recovery (rl_options r)\<rparr>"

text \<open>
  One file of the directory: its content, or that it could not be opened or read safely. The key is the one
  the file is named after.
\<close>

definition scan_one ::
    "(bytes \<Rightarrow> journal_header option) \<Rightarrow> journal_error + journal_realm \<Rightarrow> pane_key \<times> (journal_error + bytes)
      \<Rightarrow> journal_error + journal_realm" where
  "scan_one unmarshal s e =
     (case s of
        Inl err \<Rightarrow> Inl err
      | Inr r \<Rightarrow>
          (case e of
             (key, Inl err) \<Rightarrow> Inl err
           | (key, Inr contents) \<Rightarrow>
               let p = scanned_pane r (open_existing unmarshal contents)
               in if pj_key p \<noteq> key \<or> pane_at key r \<noteq> None then Inl ErrUnsafeRuntime
                  else Inr (put_pane key p
                    (r\<lparr>rl_total := rl_total r + pj_realm_charge p,
                       rl_physical_total := rl_physical_total r + pj_physical p,
                       rl_disk := AList.update key contents (rl_disk r),
                       rl_recovered := rl_recovered r @
                         [\<lparr>rv_key = key, rv_committed = pj_committed p, rv_eligibility = pj_state p,
                           rv_reason = pj_reason p, rv_decision = None, rv_outcome = RecoveryScanned,
                           rv_initial = pj_initial p, rv_final = pj_recovery_final p,
                           rv_retained_logical = pj_realm_charge p, rv_retained_physical = pj_physical p,
                           rv_retained_slot = (\<not> pj_slot_retired p), rv_retry_needed = False\<rparr>]\<rparr>))))"

definition scan_realm ::
    "(bytes \<Rightarrow> journal_header option) \<Rightarrow> (pane_key \<times> (journal_error + bytes)) list \<Rightarrow> journal_realm
      \<Rightarrow> journal_error + journal_realm" where
  "scan_realm unmarshal files r =
     (if len files > max_realm_identities then Inl ErrQuota
      else foldl (scan_one unmarshal) (Inr r) files)"

definition empty_realm :: "journal_options \<Rightarrow> int \<Rightarrow> int \<Rightarrow> journal_realm" where
  "empty_realm options physical_cap pane_physical_cap =
     \<lparr>rl_source = None, rl_options = options, rl_retention = new_retention_ledger 0 None False 0, rl_panes = [],
      rl_recovered = [], rl_total = 0, rl_reserved = 0, rl_physical_total = 0, rl_physical_reserved = 0,
      rl_physical_cap = physical_cap, rl_pane_physical_cap = pane_physical_cap, rl_closed = False, rl_disk = [],
      rl_adoptions = [], rl_capacities = [], rl_rotations = [], rl_geometries = []\<rparr>"

definition open_realm ::
    "(bytes \<Rightarrow> journal_header option) \<Rightarrow> journal_options \<Rightarrow> int \<Rightarrow> int \<Rightarrow> int \<Rightarrow> retention_policy option \<Rightarrow> bool
      \<Rightarrow> (pane_key \<times> (journal_error + bytes)) list \<Rightarrow> journal_error + journal_realm" where
  "open_realm unmarshal options physical_cap pane_physical_cap slots policy wake files =
     (case scan_realm unmarshal files (empty_realm options physical_cap pane_physical_cap) of
        Inl err \<Rightarrow> Inl err
      | Inr r \<Rightarrow>
          Inr (r\<lparr>rl_retention := new_retention_ledger slots policy wake
            (len (filter (\<lambda>e. \<not> pj_slot_retired (snd e)) (rl_panes r)))\<rparr>))"

definition realm_close :: "journal_realm \<Rightarrow> journal_realm" where
  "realm_close r = r\<lparr>rl_closed := True\<rparr>"

end
