(* ===== verification/Journal_Ledger.thy ===== *)
theory Journal_Ledger
  imports Journal_Admission
begin

text \<open>
  The ledgers of a realm as an account: what every operation may do to the load (charged plus reserved), to
  the reservations that have an owner, and to the bytes of the directory that are charged. An operation's
  effect is a vector of four numbers that add up along a composition (\<open>moves\<close>), so that the effect of a
  handler is the sum of the effects of its steps.
\<close>

section \<open>One generation\<close>

definition holds_logical :: "pane_journal \<Rightarrow> int" where
  "holds_logical p = pj_adoption_logical p + (if pj_rollback_reserved p then pj_rollback_logical p else 0) + pj_forward_logical p"

definition holds_physical :: "pane_journal \<Rightarrow> int" where
  "holds_physical p = pj_adoption_physical p + (if pj_rollback_reserved p then pj_rollback_physical p else 0) + pj_forward_physical p"

text \<open>
  A continuous generation with appends that are not committed has the commit frame paid for; its file is
  never longer than its physical charge.
\<close>

definition commit_due :: "pane_journal \<Rightarrow> int" where
  "commit_due p =
     (if pj_state p = EligibilityContinuous \<and> pj_committed_sequence p < pj_sequence p then int commit_fixed else 0)"

definition pane_ok :: "bytes option \<Rightarrow> pane_journal \<Rightarrow> bool" where
  "pane_ok file p \<longleftrightarrow>
     0 \<le> pj_adoption_logical p \<and> 0 \<le> pj_adoption_physical p \<and> 0 \<le> pj_rollback_logical p
     \<and> 0 \<le> pj_rollback_physical p \<and> 0 \<le> pj_forward_logical p \<and> 0 \<le> pj_forward_physical p
     \<and> 0 \<le> pj_realm_charge p \<and> (pj_rollback_armed p \<longrightarrow> pj_rollback_reserved p)
     \<and> at_or 0 len file + commit_due p \<le> pj_physical p
     \<and> (pj_state p = EligibilityContinuous \<longrightarrow> length (jr_hash (pj_last p)) = 32 \<and> \<not> pj_slot_retired p)"

lemma holds_nonneg: "pane_ok file p \<Longrightarrow> 0 \<le> holds_logical p \<and> 0 \<le> holds_physical p"
  by (auto simp: pane_ok_def holds_logical_def holds_physical_def)

lemma physical_nonneg: "pane_ok file p \<Longrightarrow> 0 \<le> pj_physical p"
  by (auto simp: pane_ok_def commit_due_def len_def at_or_def split: if_splits option.splits)

lemma pane_ok_unlinked: "pane_ok file p \<Longrightarrow> pane_ok None p"
  by (auto simp: pane_ok_def commit_due_def len_def at_or_def split: option.splits)

lemma pane_ok_file: "pane_ok file p \<Longrightarrow> at_or 0 len file \<le> pj_physical p"
  by (auto simp: pane_ok_def commit_due_def split: if_splits)

lemma commit_due_bounds: "0 \<le> commit_due p" "commit_due p \<le> int commit_fixed"
  by (simp_all add: commit_due_def)

lemma invalidate_simps [simp]:
  "pj_state (invalidate_pane reason p) = EligibilityUntrusted"
  "commit_due (invalidate_pane reason p) = 0"
  "pj_key (invalidate_pane reason p) = pj_key p"
  "pj_slot_retired (invalidate_pane reason p) = pj_slot_retired p"
  "pj_realm_charge (invalidate_pane reason p) = pj_realm_charge p"
  "pj_physical (invalidate_pane reason p) = pj_physical p"
  "pj_capacity_held (invalidate_pane reason p) = pj_capacity_held p"
  "pj_rollback_reserved (invalidate_pane reason p) = pj_rollback_reserved p"
  "pj_rollback_armed (invalidate_pane reason p) = pj_rollback_armed p"
  "pj_rollback_logical (invalidate_pane reason p) = pj_rollback_logical p"
  "pj_rollback_physical (invalidate_pane reason p) = pj_rollback_physical p"
  "pj_adoption_logical (invalidate_pane reason p) = pj_adoption_logical p"
  "pj_adoption_physical (invalidate_pane reason p) = pj_adoption_physical p"
  "pj_forward_logical (invalidate_pane reason p) = pj_forward_logical p"
  "pj_forward_physical (invalidate_pane reason p) = pj_forward_physical p"
  "pj_reserved_charge (invalidate_pane reason p) = pj_reserved_charge p"
  "pj_physical_reserved (invalidate_pane reason p) = pj_physical_reserved p"
  by (auto simp: invalidate_pane_def commit_due_def)

lemma holds_invalidate [simp]:
  "holds_logical (invalidate_pane reason p) = holds_logical p"
  "holds_physical (invalidate_pane reason p) = holds_physical p"
  by (simp_all add: holds_logical_def holds_physical_def)

lemma pane_ok_invalidate: "pane_ok file p \<Longrightarrow> pane_ok file (invalidate_pane reason p)"
  using commit_due_bounds(1) [of p] by (simp add: pane_ok_def)

section \<open>The realm\<close>

definition capacity_logical :: "rotation_capacity \<Rightarrow> int" where
  "capacity_logical c = (if rc_held c \<and> \<not> rc_materialized c then rc_successor_logical c else 0)"

definition capacity_physical :: "rotation_capacity \<Rightarrow> int" where
  "capacity_physical c = (if rc_held c \<and> \<not> rc_materialized c then rc_successor_physical c else 0)"

definition capacity_ok :: "rotation_capacity \<Rightarrow> bool" where
  "capacity_ok c \<longleftrightarrow>
     (rc_held c \<and> \<not> rc_materialized c \<longrightarrow>
        0 \<le> rc_successor_logical c
        \<and> (if rc_attempted c then 0 else rotation_header_physical_reserve) \<le> rc_successor_physical c)"

definition geometry_need :: "geometry_reservation \<Rightarrow> int" where
  "geometry_need g = (if gr_held g then geometry_record_cost else 0)"

definition owed_logical :: "journal_realm \<Rightarrow> int" where
  "owed_logical r = sum_of holds_logical (rl_panes r) + sum_list (map capacity_logical (rl_capacities r))
     + sum_list (map geometry_need (rl_geometries r))"

definition owed_physical :: "journal_realm \<Rightarrow> int" where
  "owed_physical r = sum_of holds_physical (rl_panes r) + sum_list (map capacity_physical (rl_capacities r))
     + sum_list (map geometry_need (rl_geometries r))"

text \<open>The bytes of the directory, and those of files that no generation of the map stands for.\<close>

definition disk_usage :: "journal_realm \<Rightarrow> int" where
  "disk_usage r = ksum (\<lambda>_. len) (rl_disk r)"

definition stray_bytes :: "(pane_key \<times> pane_journal) list \<Rightarrow> (pane_key \<times> bytes) list \<Rightarrow> int" where
  "stray_bytes panes disk = ksum (\<lambda>k bs. if map_of panes k = None then len bs else 0) disk"

definition realm_wf :: "journal_realm \<Rightarrow> bool" where
  "realm_wf r \<longleftrightarrow>
     keyed (rl_panes r) \<and> keyed (rl_disk r)
     \<and> (\<forall>k p. pane_at k r = Some p \<longrightarrow> pane_ok (map_of (rl_disk r) k) p)
     \<and> (\<forall>c \<in> set (rl_capacities r). capacity_ok c)
     \<and> len (rl_panes r) \<le> max_realm_identities"

definition logical_load :: "journal_realm \<Rightarrow> int" where
  "logical_load r = rl_total r + rl_reserved r"

definition physical_load :: "journal_realm \<Rightarrow> int" where
  "physical_load r = rl_physical_total r + rl_physical_reserved r"

text \<open>Reserved without an owner; charged logically beyond the generations (none); charged physically beyond the files.\<close>

definition spare_logical :: "journal_realm \<Rightarrow> int" where
  "spare_logical r = rl_reserved r - owed_logical r"

definition spare_physical :: "journal_realm \<Rightarrow> int" where
  "spare_physical r = rl_physical_reserved r - owed_physical r"

definition unattributed :: "journal_realm \<Rightarrow> int" where
  "unattributed r = rl_total r - sum_of pj_realm_charge (rl_panes r)"

definition overcharged :: "journal_realm \<Rightarrow> int" where
  "overcharged r = rl_physical_total r - sum_of pj_physical (rl_panes r) - stray_bytes (rl_panes r) (rl_disk r)"

definition slots_ok :: "int \<Rightarrow> journal_realm \<Rightarrow> bool" where
  "slots_ok n r \<longleftrightarrow> 0 \<le> rt_reserved (rl_retention r) \<and> rt_reserved (rl_retention r) \<le> n \<and> rt_limit (rl_retention r) \<le> n"

definition same_caps :: "journal_realm \<Rightarrow> journal_realm \<Rightarrow> bool" where
  "same_caps r r' \<longleftrightarrow>
     rl_options r' = rl_options r \<and> rl_physical_cap r' = rl_physical_cap r
     \<and> rl_pane_physical_cap r' = rl_pane_physical_cap r"

section \<open>Effects\<close>

text \<open>
  From a well-formed realm: the loads grow by at most \<open>dl\<close> and \<open>dp\<close>, the unowned reservations by at least
  \<open>sl\<close> and \<open>sp\<close>.
\<close>

definition moves :: "int \<Rightarrow> int \<Rightarrow> int \<Rightarrow> int \<Rightarrow> journal_realm \<Rightarrow> journal_realm \<Rightarrow> bool" where
  "moves dl sl dp sp r r' \<longleftrightarrow>
     (realm_wf r \<longrightarrow>
        realm_wf r' \<and> logical_load r' \<le> logical_load r + dl \<and> spare_logical r + sl \<le> spare_logical r'
        \<and> physical_load r' \<le> physical_load r + dp \<and> spare_physical r + sp \<le> spare_physical r'
        \<and> unattributed r' = unattributed r \<and> overcharged r \<le> overcharged r' \<and> same_caps r r'
        \<and> (\<forall>n. slots_ok n r \<longrightarrow> slots_ok n r'))"

abbreviation stays :: "journal_realm \<Rightarrow> journal_realm \<Rightarrow> bool" where
  "stays \<equiv> moves 0 0 0 0"

lemma moves_refl: "stays r r"
  by (simp add: moves_def same_caps_def)

lemma moves_trans:
  "moves dl sl dp sp r r1 \<Longrightarrow> moves el ul ep tp r1 r2 \<Longrightarrow> moves (dl + el) (sl + ul) (dp + ep) (sp + tp) r r2"
  by (auto simp: moves_def same_caps_def)

lemma moves_weaken:
  "moves dl sl dp sp r r' \<Longrightarrow> dl \<le> el \<Longrightarrow> ul \<le> sl \<Longrightarrow> dp \<le> ep \<Longrightarrow> tp \<le> sp \<Longrightarrow> moves el ul ep tp r r'"
  by (auto simp: moves_def)

lemma stays_trans: "stays r r1 \<Longrightarrow> stays r1 r2 \<Longrightarrow> stays r r2"
  using moves_trans [of 0 0 0 0 r r1 0 0 0 0 r2] by simp

lemma moves_stays: "moves dl sl dp sp r r1 \<Longrightarrow> stays r1 r2 \<Longrightarrow> moves dl sl dp sp r r2"
  using moves_trans [of dl sl dp sp r r1 0 0 0 0 r2] by simp

lemma stays_moves: "stays r r1 \<Longrightarrow> moves dl sl dp sp r1 r2 \<Longrightarrow> moves dl sl dp sp r r2"
  using moves_trans [of 0 0 0 0 r r1 dl sl dp sp r2] by simp

lemma moves_wf: "moves dl sl dp sp r r' \<Longrightarrow> realm_wf r \<Longrightarrow> realm_wf r'"
  by (simp add: moves_def)

lemma moves_if_wf: "(realm_wf r \<Longrightarrow> moves dl sl dp sp r r') \<Longrightarrow> moves dl sl dp sp r r'"
  by (auto simp: moves_def)

lemma wf_pane: "realm_wf r \<Longrightarrow> pane_at k r = Some p \<Longrightarrow> pane_ok (map_of (rl_disk r) k) p"
  by (simp add: realm_wf_def)

text \<open>The ticket lock's ledger: any of its slot operations.\<close>

lemma ledger_stays:
  "(\<And>n l. 0 \<le> rt_reserved l \<Longrightarrow> rt_reserved l \<le> n \<Longrightarrow> rt_limit l \<le> n \<Longrightarrow>
      0 \<le> rt_reserved (f l) \<and> rt_reserved (f l) \<le> n \<and> rt_limit (f l) \<le> n) \<Longrightarrow> stays r (with_ledger f r)"
  by (auto simp: moves_def with_ledger_def realm_wf_def pane_at_def logical_load_def physical_load_def spare_logical_def
    spare_physical_def owed_logical_def owed_physical_def unattributed_def overcharged_def same_caps_def slots_ok_def)

lemma release_stays: "stays r (with_ledger release_complete_pane r)"
  by (rule ledger_stays) (auto simp: release_complete_pane_def)

lemma retire_stays: "stays r (with_ledger (\<lambda>l. snd (retire_complete_pane l)) r)"
  by (rule ledger_stays) (auto simp: retire_complete_pane_def)

lemma proven_stays: "stays r (with_ledger (release_proven_capacity b) r)"
  by (rule ledger_stays) simp

lemma reserve_stays: "reserve_complete_pane b (rl_retention r) = (True, l) \<Longrightarrow> stays r (r\<lparr>rl_retention := l\<rparr>)"
  by (auto simp: moves_def realm_wf_def pane_at_def logical_load_def physical_load_def spare_logical_def
    spare_physical_def owed_logical_def owed_physical_def unattributed_def overcharged_def same_caps_def slots_ok_def
    reserve_complete_pane_def Let_def split: if_splits)

text \<open>Fields that no account reads.\<close>

lemma source_stays: "stays r (r\<lparr>rl_source := q\<rparr>)"
  by (auto simp: moves_def realm_wf_def pane_at_def logical_load_def physical_load_def spare_logical_def
    spare_physical_def owed_logical_def owed_physical_def unattributed_def overcharged_def same_caps_def slots_ok_def)

lemma adoptions_stays: "stays r (r\<lparr>rl_adoptions := xs\<rparr>)" "stays r (r\<lparr>rl_rotations := ys\<rparr>)"
    "stays r (r\<lparr>rl_recovered := zs\<rparr>)" "stays r (r\<lparr>rl_closed := b\<rparr>)"
  by (auto simp: moves_def realm_wf_def pane_at_def logical_load_def physical_load_def spare_logical_def
    spare_physical_def owed_logical_def owed_physical_def unattributed_def overcharged_def same_caps_def slots_ok_def)

text \<open>The totals by themselves.\<close>

lemma reserve_moves:
  "moves a a b b r (r\<lparr>rl_reserved := rl_reserved r + a, rl_physical_reserved := rl_physical_reserved r + b\<rparr>)"
  by (auto simp: moves_def realm_wf_def pane_at_def logical_load_def physical_load_def spare_logical_def
    spare_physical_def owed_logical_def owed_physical_def unattributed_def overcharged_def same_caps_def slots_ok_def)

lemma physical_moves: "0 \<le> a \<Longrightarrow> moves 0 0 a 0 r (r\<lparr>rl_physical_total := rl_physical_total r + a\<rparr>)"
  by (auto simp: moves_def realm_wf_def pane_at_def logical_load_def physical_load_def spare_logical_def
    spare_physical_def owed_logical_def owed_physical_def unattributed_def overcharged_def same_caps_def slots_ok_def)

section \<open>A generation and its file replaced\<close>

lemma stray_cong:
  "(\<And>k. map_of panes k = None \<longleftrightarrow> map_of panes' k = None) \<Longrightarrow> stray_bytes panes disk = stray_bytes panes' disk"
  unfolding stray_bytes_def by (rule ksum_cong) simp

lemma stray_update:
  "keyed disk \<Longrightarrow> map_of panes k \<noteq> None \<Longrightarrow> stray_bytes panes (AList.update k bs disk) = stray_bytes panes disk"
  by (cases "map_of disk k"; cases "map_of panes k") (simp_all add: stray_bytes_def ksum_update)

lemma stray_delete:
  "keyed disk \<Longrightarrow> stray_bytes panes (AList.delete k disk) \<le> stray_bytes panes disk"
  by (simp add: stray_bytes_def ksum_delete at_or_def len_def split: option.split)

lemma keyed_len_update:
  "keyed m \<Longrightarrow> map_of m k \<noteq> None \<Longrightarrow> len (AList.update k v m) = len m"
  using len_update [of m k v] by (simp add: len_def)

text \<open>
  A generation replaced, with the totals moved: \<open>r1\<close> is the realm with the new totals, and with the new file
  if it changed.
\<close>

definition same_but_totals :: "journal_realm \<Rightarrow> journal_realm \<Rightarrow> bool" where
  "same_but_totals r r1 \<longleftrightarrow>
     rl_panes r1 = rl_panes r \<and> rl_capacities r1 = rl_capacities r \<and> rl_geometries r1 = rl_geometries r
     \<and> rl_retention r1 = rl_retention r \<and> same_caps r r1"

lemma put_moves_file:
  assumes "same_but_totals r r1" "pane_at k r = Some p"
    and disk: "rl_disk r1 = rl_disk r \<or> rl_disk r1 = AList.update k bs (rl_disk r)"
    and ok: "realm_wf r \<Longrightarrow> pane_ok (map_of (rl_disk r) k) p \<Longrightarrow> pane_ok (map_of (rl_disk r1) k) p'"
    and total: "rl_total r1 - rl_total r = pj_realm_charge p' - pj_realm_charge p"
    and physical: "pj_physical p' - pj_physical p \<le> rl_physical_total r1 - rl_physical_total r"
  shows "moves (rl_total r1 - rl_total r + (rl_reserved r1 - rl_reserved r))
      (rl_reserved r1 - rl_reserved r - (holds_logical p' - holds_logical p))
      (rl_physical_total r1 - rl_physical_total r + (rl_physical_reserved r1 - rl_physical_reserved r))
      (rl_physical_reserved r1 - rl_physical_reserved r - (holds_physical p' - holds_physical p)) r (put_pane k p' r1)"
proof (rule moves_if_wf)
  assume wf: "realm_wf r"
  let ?r' = "put_pane k p' r1"
  note d = assms(1) [unfolded same_but_totals_def]
  have kd: "keyed (rl_panes r)" "keyed (rl_disk r)" using wf by (simp_all add: realm_wf_def)
  have at: "map_of (rl_panes r) k = Some p" using assms(2) by (simp add: pane_at_def)
  have panes: "rl_panes ?r' = AList.update k p' (rl_panes r)" using d by (simp add: put_pane_def)
  have dk: "rl_disk ?r' = rl_disk r1" "keyed (rl_disk r1)" using disk kd by (auto simp: put_pane_def)
  have other: "map_of (rl_disk r1) i = map_of (rl_disk r) i" if "i \<noteq> k" for i using disk that by auto
  have s: "sum_of f (rl_panes ?r') = sum_of f (rl_panes r) - f p + f p'" for f
    using kd at panes by (simp add: sum_of_update)
  have st: "stray_bytes (rl_panes ?r') (rl_disk ?r') = stray_bytes (rl_panes r) (rl_disk r)"
  proof -
    have "stray_bytes (rl_panes ?r') (rl_disk ?r') = stray_bytes (rl_panes r) (rl_disk r1)"
      unfolding dk(1) by (rule stray_cong) (auto simp: panes at)
    also have "\<dots> = stray_bytes (rl_panes r) (rl_disk r)" using disk kd(2) at by (auto simp: stray_update)
    finally show ?thesis .
  qed
  have "realm_wf ?r'"
    unfolding realm_wf_def
  proof (intro conjI allI impI)
    show "keyed (rl_panes ?r')" "keyed (rl_disk ?r')" using kd panes dk by simp_all
    show "\<forall>c \<in> set (rl_capacities ?r'). capacity_ok c" using wf d by (simp add: realm_wf_def put_pane_def)
    show "len (rl_panes ?r') \<le> max_realm_identities" using wf kd at panes by (simp add: realm_wf_def keyed_len_update)
    fix i q assume "pane_at i ?r' = Some q"
    then show "pane_ok (map_of (rl_disk ?r') i) q"
      using wf_pane [OF wf] ok [OF wf wf_pane [OF wf assms(2)]] dk(1) panes other at
      by (auto simp: pane_at_def split: if_splits)
  qed
  moreover have "logical_load ?r' = logical_load r + (rl_total r1 - rl_total r + (rl_reserved r1 - rl_reserved r))"
    "physical_load ?r' = physical_load r + (rl_physical_total r1 - rl_physical_total r + (rl_physical_reserved r1 - rl_physical_reserved r))"
    by (simp_all add: logical_load_def physical_load_def put_pane_def)
  moreover have "spare_logical ?r' = spare_logical r + (rl_reserved r1 - rl_reserved r - (holds_logical p' - holds_logical p))"
    "spare_physical ?r' = spare_physical r + (rl_physical_reserved r1 - rl_physical_reserved r - (holds_physical p' - holds_physical p))"
    using d s by (simp_all add: spare_logical_def spare_physical_def owed_logical_def owed_physical_def put_pane_def)
  moreover have "unattributed ?r' = unattributed r" "overcharged r \<le> overcharged ?r'"
    using s st total physical by (simp_all add: unattributed_def overcharged_def put_pane_def)
  moreover have "same_caps r ?r'" "\<forall>n. slots_ok n r \<longrightarrow> slots_ok n ?r'"
    using d by (simp_all add: same_caps_def slots_ok_def put_pane_def)
  ultimately show "moves (rl_total r1 - rl_total r + (rl_reserved r1 - rl_reserved r))
      (rl_reserved r1 - rl_reserved r - (holds_logical p' - holds_logical p))
      (rl_physical_total r1 - rl_physical_total r + (rl_physical_reserved r1 - rl_physical_reserved r))
      (rl_physical_reserved r1 - rl_physical_reserved r - (holds_physical p' - holds_physical p)) r ?r'"
    by (simp add: moves_def)
qed


text \<open>The common case: the file stays as it is.\<close>

lemma put_moves:
  assumes "same_but_totals r r1" "pane_at k r = Some p" "rl_disk r1 = rl_disk r"
    and "pane_ok (map_of (rl_disk r) k) p \<Longrightarrow> pane_ok (map_of (rl_disk r) k) p'"
    and "rl_total r1 - rl_total r = pj_realm_charge p' - pj_realm_charge p"
    and "pj_physical p' - pj_physical p \<le> rl_physical_total r1 - rl_physical_total r"
    and "rl_total r1 - rl_total r + (rl_reserved r1 - rl_reserved r) \<le> dl"
    and "sl \<le> rl_reserved r1 - rl_reserved r - (holds_logical p' - holds_logical p)"
    and "rl_physical_total r1 - rl_physical_total r + (rl_physical_reserved r1 - rl_physical_reserved r) \<le> dp"
    and "sp \<le> rl_physical_reserved r1 - rl_physical_reserved r - (holds_physical p' - holds_physical p)"
  shows "moves dl sl dp sp r (put_pane k p' r1)"
  by (rule moves_weaken [OF put_moves_file [OF assms(1,2) _ _ assms(5,6)]]) (use assms in auto)

lemma put_stays:
  assumes "pane_at k r = Some p" "pane_ok (map_of (rl_disk r) k) p \<Longrightarrow> pane_ok (map_of (rl_disk r) k) p'"
    and "pj_realm_charge p' = pj_realm_charge p" "pj_physical p' = pj_physical p"
      "holds_logical p' = holds_logical p" "holds_physical p' = holds_physical p"
  shows "stays r (put_pane k p' r)"
  by (rule put_moves [OF _ assms(1)]) (use assms in \<open>simp_all add: same_but_totals_def same_caps_def\<close>)

lemma invalidate_stays: "pane_at k r = Some p \<Longrightarrow> stays r (put_pane k (invalidate_pane reason p) r)"
  by (erule put_stays) (simp_all add: pane_ok_invalidate)

text \<open>A handle replaced.\<close>

lemma capacity_moves:
  assumes "i < length (rl_capacities r)" "capacity_ok (rl_capacities r ! i) \<Longrightarrow> capacity_ok c"
  shows "moves 0 (capacity_logical (rl_capacities r ! i) - capacity_logical c)
      0 (capacity_physical (rl_capacities r ! i) - capacity_physical c) r (set_capacity i c r)"
  using assms
  by (auto simp: moves_def set_capacity_def realm_wf_def pane_at_def logical_load_def physical_load_def spare_logical_def
    spare_physical_def owed_logical_def owed_physical_def unattributed_def overcharged_def same_caps_def slots_ok_def
    sum_list_replace dest!: set_update_subset_insert [THEN subsetD])

lemma new_capacity_moves:
  assumes "capacity_ok c"
  shows "moves 0 (- capacity_logical c) 0 (- capacity_physical c) r (r\<lparr>rl_capacities := rl_capacities r @ [c]\<rparr>)"
  using assms
  by (auto simp: moves_def realm_wf_def pane_at_def logical_load_def physical_load_def spare_logical_def
    spare_physical_def owed_logical_def owed_physical_def unattributed_def overcharged_def same_caps_def slots_ok_def)

lemma geometry_moves:
  assumes "i < length (rl_geometries r)"
  shows "moves 0 (geometry_need (rl_geometries r ! i) - geometry_need g)
      0 (geometry_need (rl_geometries r ! i) - geometry_need g) r (r\<lparr>rl_geometries := (rl_geometries r)[i := g]\<rparr>)"
  using assms
  by (auto simp: moves_def realm_wf_def pane_at_def logical_load_def physical_load_def spare_logical_def
    spare_physical_def owed_logical_def owed_physical_def unattributed_def overcharged_def same_caps_def slots_ok_def
    sum_list_replace)

lemma new_geometry_moves:
  "moves 0 (- geometry_need g) 0 (- geometry_need g) r (r\<lparr>rl_geometries := rl_geometries r @ [g]\<rparr>)"
  by (auto simp: moves_def realm_wf_def pane_at_def logical_load_def physical_load_def spare_logical_def
    spare_physical_def owed_logical_def owed_physical_def unattributed_def overcharged_def same_caps_def slots_ok_def)

section \<open>Removing\<close>

lemma remove_stays: "remove_pane_file unlink k r = (ok, r') \<Longrightarrow> stays r r'"
proof -
  assume a: "remove_pane_file unlink k r = (ok, r')"
  have "stays r (r\<lparr>rl_disk := AList.delete k (rl_disk r), rl_source := q\<rparr>)" for q
    using stray_delete [of "rl_disk r" "rl_panes r" k]
    by (auto simp: moves_def realm_wf_def pane_at_def logical_load_def physical_load_def spare_logical_def
      spare_physical_def owed_logical_def owed_physical_def unattributed_def overcharged_def same_caps_def slots_ok_def
      intro: pane_ok_unlinked)
  with a moves_refl [of r] show ?thesis by (auto simp: remove_pane_file_def split: if_splits)
qed

lemma removed_file: "remove_pane_file unlink k r = (True, r') \<Longrightarrow> map_of (rl_disk r') k = None"
    "remove_pane_file unlink k r = (ok, r') \<Longrightarrow> rl_panes r' = rl_panes r"
    "remove_pane_file unlink k r = (ok, r') \<Longrightarrow> rl_physical_total r' = rl_physical_total r"
  by (auto simp: remove_pane_file_def split: if_splits)

lemma refund_moves:
  assumes "pane_at k r = Some p" "map_of (rl_disk r) k = None" "pj_state p \<noteq> EligibilityContinuous"
  shows "moves (- pj_realm_charge p) 0 (- pj_physical p) 0 r (refund_charges k p r)"
  unfolding refund_charges_def
  by (rule put_moves [OF _ assms(1)])
    (use assms(2,3) in \<open>auto simp: same_but_totals_def same_caps_def release_projection_def pane_ok_def commit_due_def
      holds_logical_def holds_physical_def\<close>)

end
