(* ===== verification/Journal_Effects.thy ===== *)
theory Journal_Effects
  imports Journal_Ledger
begin

text \<open>
  The effect on the ledgers of every operation of a realm: none makes a load grow beyond its cap, takes from
  the reservations that have an owner, or puts bytes in the directory that are not charged (\<open>kept\<close>).
\<close>

section \<open>Removing generations\<close>

lemma drop_stays:
  assumes "pane_at k r = Some p" "pj_realm_charge p = 0" "pj_physical p = 0"
  shows "stays r (drop_generation k r)"
proof (rule moves_if_wf)
  assume wf: "realm_wf r"
  have kd: "keyed (rl_panes r)" "keyed (rl_disk r)" using wf by (simp_all add: realm_wf_def)
  have at: "map_of (rl_panes r) k = Some p" using assms(1) by (simp add: pane_at_def)
  have ok: "pane_ok (map_of (rl_disk r) k) p" by (rule wf_pane [OF wf assms(1)])
  have s: "sum_of f (rl_panes (drop_generation k r)) = sum_of f (rl_panes r) - f p" for f
    using kd at by (simp add: drop_generation_def sum_of_delete)
  have "stray_bytes (AList.delete k (rl_panes r)) (rl_disk r) \<le> stray_bytes (rl_panes r) (rl_disk r)"
    unfolding stray_bytes_def
  proof (rule ksum_mono)
    fix i bs assume "(i, bs) \<in> set (rl_disk r)"
    then have "i = k \<Longrightarrow> len bs \<le> 0" using pane_ok_file [OF ok] kd(2) assms(3) keyed_mem [of "rl_disk r" i bs] by simp
    then show "(if map_of (AList.delete k (rl_panes r)) i = None then len bs else 0)
        \<le> (if map_of (rl_panes r) i = None then len bs else 0)" by (auto simp: len_def)
  qed
  moreover have "realm_wf (drop_generation k r)"
    using wf len_delete [OF kd(1), of k] by (auto simp: realm_wf_def drop_generation_def pane_at_def len_def split: if_splits)
  ultimately show "stays r (drop_generation k r)"
    using s assms(2,3) holds_nonneg [OF ok]
    by (simp add: moves_def logical_load_def physical_load_def spare_logical_def spare_physical_def owed_logical_def
      owed_physical_def unattributed_def overcharged_def same_caps_def slots_ok_def, simp add: drop_generation_def)
qed

lemma pane_at_put [simp]: "pane_at i (put_pane k p r) = (if i = k then Some p else pane_at i r)"
  by (simp add: pane_at_def put_pane_def)

lemma pane_at_ledger [simp]: "pane_at i (with_ledger f r) = pane_at i r"
  by (simp add: pane_at_def with_ledger_def)

lemma pane_at_drop [simp]: "pane_at i (drop_generation k r) = (if i = k then None else pane_at i r)"
  by (simp add: pane_at_def drop_generation_def)

lemma removed_panes: "remove_pane_file unlink k r = (ok, r') \<Longrightarrow> pane_at i r' = pane_at i r"
  using removed_file(2) [of unlink k r ok r'] by (simp add: pane_at_def)

lemma refund_at [simp]:
  "pane_at i (refund_charges k p r) = (if i = k then Some (release_projection (p\<lparr>pj_realm_charge := 0, pj_physical := 0\<rparr>)) else pane_at i r)"
  by (simp add: refund_charges_def) (simp add: pane_at_def)

lemma release_projection_simps [simp]:
  "pj_realm_charge (release_projection p) = pj_realm_charge p" "pj_physical (release_projection p) = pj_physical p"
  "pj_state (release_projection p) = pj_state p"
  by (simp_all add: release_projection_def)

lemma charges_nonneg: "realm_wf r \<Longrightarrow> pane_at k r = Some p \<Longrightarrow> 0 \<le> pj_realm_charge p \<and> 0 \<le> pj_physical p"
  using wf_pane [of r k p] physical_nonneg by (auto simp: pane_ok_def)

text \<open>Closing a generation's file and removing it: what it refunds.\<close>

lemma closed_moves:
  assumes "pane_at k r = Some p" "pj_state p \<noteq> EligibilityContinuous"
    and "remove_pane_file unlink k (put_pane k (p\<lparr>pj_file := False\<rparr>) r) = (True, r1)"
  shows "moves (- pj_realm_charge p) 0 (- pj_physical p) 0 r (refund_charges k (p\<lparr>pj_file := False\<rparr>) r1)"
proof -
  have a: "stays r (put_pane k (p\<lparr>pj_file := False\<rparr>) r)"
    by (rule put_stays [OF assms(1)]) (auto simp: pane_ok_def commit_due_def holds_logical_def holds_physical_def)
  have "moves (- pj_realm_charge p) 0 (- pj_physical p) 0 r1 (refund_charges k (p\<lparr>pj_file := False\<rparr>) r1)"
    using refund_moves [of k r1 "p\<lparr>pj_file := False\<rparr>"] removed_panes [OF assms(3), of k] removed_file(1) [OF assms(3)] assms(2)
    by simp
  then show ?thesis by (rule stays_moves [OF stays_trans [OF a remove_stays [OF assms(3)]]])
qed

lemma settle_moves:
  assumes "pane_at k r = Some p" "pj_state p \<noteq> EligibilityContinuous" "settle_pane_file unlink forget k r = (ok, r')"
  shows "if ok then moves (- pj_realm_charge p) 0 (- pj_physical p) 0 r r' else stays r r'"
proof -
  let ?p1 = "p\<lparr>pj_file := False\<rparr>"
  obtain gone r1 where d: "remove_pane_file unlink k (put_pane k ?p1 r) = (gone, r1)" by fastforce
  have a: "stays r (put_pane k ?p1 r)"
    by (rule put_stays [OF assms(1)]) (auto simp: pane_ok_def commit_due_def holds_logical_def holds_physical_def)
  show ?thesis
  proof (cases gone)
    case False
    then have "ok = False" "r' = r1" using assms d by (simp_all add: settle_pane_file_def Let_def)
    then show ?thesis using stays_trans [OF a remove_stays [OF d]] by simp
  next
    case True
    let ?r2 = "with_ledger (release_proven_capacity (pj_realm_charge p > 0 \<or> pj_physical p > 0)) (refund_charges k ?p1 r1)"
    have m: "moves (- pj_realm_charge p) 0 (- pj_physical p) 0 r ?r2"
      using closed_moves [OF assms(1,2)] d True by (intro moves_stays [OF _ proven_stays]) simp
    have "stays ?r2 (drop_generation k ?r2)" by (rule drop_stays, simp, simp, simp)
    from moves_stays [OF m this] m have "moves (- pj_realm_charge p) 0 (- pj_physical p) 0 r (if forget then drop_generation k ?r2 else ?r2)"
      by simp
    moreover have "ok" "r' = (if forget then drop_generation k ?r2 else ?r2)"
      using assms d True by (auto simp: settle_pane_file_def Let_def)
    ultimately show ?thesis by simp
  qed
qed

lemma settle_stays:
  assumes "\<And>p. pane_at k r = Some p \<Longrightarrow> pj_state p \<noteq> EligibilityContinuous"
  shows "stays r (snd (settle_pane_file unlink forget k r))"
proof (rule moves_if_wf)
  assume wf: "realm_wf r"
  show "stays r (snd (settle_pane_file unlink forget k r))"
  proof (cases "pane_at k r")
    case (Some p)
    obtain ok r' where s: "settle_pane_file unlink forget k r = (ok, r')" by fastforce
    show ?thesis
      using settle_moves [OF Some assms [OF Some] s] charges_nonneg [OF wf Some] s
      by (auto intro: moves_weaken split: if_splits)
  qed (simp add: settle_pane_file_def moves_refl)
qed

section \<open>The sweep\<close>

lemma retired_not_live: "realm_wf r \<Longrightarrow> pane_at k r = Some p \<Longrightarrow> pj_slot_retired p \<Longrightarrow> pj_state p \<noteq> EligibilityContinuous"
  using wf_pane [of r k p] by (auto simp: pane_ok_def)

lemma sweep_one_moves:
  assumes "sweep_one unlink current (l, f, r) key = (l', f', r')" "realm_wf r"
  shows "moves (l - l') 0 (f - f') 0 r r' \<and> l \<le> l' \<and> f \<le> f'"
proof (cases "pane_at key r")
  case (Some p)
  let ?p1 = "p\<lparr>pj_file := False\<rparr>"
  obtain gone r1 where d: "remove_pane_file unlink key (put_pane key ?p1 r) = (gone, r1)" by fastforce
  show ?thesis
  proof (cases "key = current \<or> \<not> pj_slot_retired p \<or> \<not> same_session key current")
    case False
    then have live: "pj_state p \<noteq> EligibilityContinuous" using retired_not_live [OF assms(2) Some] by blast
    have a: "stays r (put_pane key ?p1 r)"
      by (rule put_stays [OF Some]) (auto simp: pane_ok_def commit_due_def holds_logical_def holds_physical_def)
    show ?thesis
    proof (cases gone)
      case True
      have "moves (- pj_realm_charge p) 0 (- pj_physical p) 0 r (drop_generation key (refund_charges key ?p1 r1))"
        using closed_moves [OF Some live] d True by (intro moves_stays [OF _ drop_stays], simp, simp, simp, simp)
      then show ?thesis using assms(1) Some False d True charges_nonneg [OF assms(2) Some] by (auto simp: sweep_one_def Let_def)
    next
      case f: False
      then show ?thesis using assms(1) Some False d stays_trans [OF a remove_stays [OF d]] by (auto simp: sweep_one_def Let_def)
    qed
  qed (use assms Some moves_refl in \<open>auto simp: sweep_one_def\<close>)
qed (use assms moves_refl in \<open>auto simp: sweep_one_def\<close>)

lemma sweep_fold_moves:
  assumes "foldl (sweep_one unlink current) (l, f, r) keys = (l', f', r')" "realm_wf r"
  shows "moves (l - l') 0 (f - f') 0 r r' \<and> l \<le> l' \<and> f \<le> f'"
  using assms
proof (induction keys arbitrary: l f r)
  case (Cons key keys)
  obtain l1 f1 r1 where s: "sweep_one unlink current (l, f, r) key = (l1, f1, r1)" by (cases "sweep_one unlink current (l, f, r) key")
  note a = sweep_one_moves [OF s Cons.prems(2)]
  have "realm_wf r1" using a moves_wf Cons.prems(2) by blast
  with Cons.IH [of l1 f1 r1] Cons.prems(1) s have b: "moves (l1 - l') 0 (f1 - f') 0 r1 r' \<and> l1 \<le> l' \<and> f1 \<le> f'" by simp
  from moves_trans [OF conjunct1 [OF a] conjunct1 [OF b]] a b show ?case by simp
qed (simp add: moves_refl)

lemma sweep_moves:
  assumes "sweep_retired_session unlink current r = (l, f, r')" "realm_wf r"
  shows "moves (- l) 0 (- f) 0 r r' \<and> 0 \<le> l \<and> 0 \<le> f"
proof -
  obtain l1 f1 r1 where s: "foldl (sweep_one unlink current) (0, 0, r) (map fst (rl_panes r)) = (l1, f1, r1)"
    by (cases "foldl (sweep_one unlink current) (0, 0, r) (map fst (rl_panes r))")
  with assms have e: "l = l1" "f = f1" "r' = with_ledger (release_proven_capacity (l1 > 0 \<or> f1 > 0)) r1"
    by (auto simp: sweep_retired_session_def)
  from sweep_fold_moves [OF s assms(2)] show ?thesis
    unfolding e using moves_stays [OF _ proven_stays] by auto
qed

lemma sweep_stays: "stays r (sweep_session unlink current r)"
proof (rule moves_if_wf)
  assume wf: "realm_wf r"
  obtain l f r' where s: "sweep_retired_session unlink current r = (l, f, r')" by (cases "sweep_retired_session unlink current r")
  from sweep_moves [OF s wf] show "stays r (sweep_session unlink current r)"
    by (auto simp: sweep_session_def s intro: moves_weaken)
qed

text \<open>Neither adds a generation.\<close>

lemma settle_keeps_absent: "pane_at i r = None \<Longrightarrow> pane_at i (snd (settle_pane_file unlink forget k r)) = None"
proof -
  assume a: "pane_at i r = None"
  show ?thesis
  proof (cases "pane_at k r")
    case (Some p)
    obtain gone r1 where d: "remove_pane_file unlink k (put_pane k (p\<lparr>pj_file := False\<rparr>) r) = (gone, r1)" by fastforce
    show ?thesis using a Some d removed_panes [OF d, of i] by (auto simp: settle_pane_file_def Let_def split: bool.split)
  qed (simp add: settle_pane_file_def a)
qed

lemma sweep_one_absent: "pane_at i (snd (snd s)) = None \<Longrightarrow> pane_at i (snd (snd (sweep_one unlink current s key))) = None"
proof -
  assume a: "pane_at i (snd (snd s)) = None"
  obtain l f r where s: "s = (l, f, r)" by (cases s)
  show ?thesis
  proof (cases "pane_at key r")
    case (Some p)
    obtain gone r1 where d: "remove_pane_file unlink key (put_pane key (p\<lparr>pj_file := False\<rparr>) r) = (gone, r1)" by fastforce
    show ?thesis using a s Some d removed_panes [OF d, of i] by (auto simp: sweep_one_def Let_def split: bool.split)
  qed (use a s in \<open>simp add: sweep_one_def\<close>)
qed

lemma sweep_absent: "sweep_retired_session unlink current r = (l, f, r') \<Longrightarrow> pane_at i r = None \<Longrightarrow> pane_at i r' = None"
proof -
  have "pane_at i (snd (snd s)) = None \<Longrightarrow> pane_at i (snd (snd (foldl (sweep_one unlink current) s keys))) = None" for s keys
    by (induction keys arbitrary: s) (simp_all add: sweep_one_absent)
  from this [of "(0, 0, r)" "map fst (rl_panes r)"]
  show "sweep_retired_session unlink current r = (l, f, r') \<Longrightarrow> pane_at i r = None \<Longrightarrow> pane_at i r' = None"
    by (auto simp: sweep_retired_session_def split: prod.splits)
qed

section \<open>Creating\<close>

lemma file_moves:
  assumes "pane_at k r = None" "map_of (rl_disk r) k = None" "len bs \<le> a"
  shows "moves 0 0 a 0 r (put_file k bs (r\<lparr>rl_physical_total := rl_physical_total r + a\<rparr>))"
proof (rule moves_if_wf)
  assume wf: "realm_wf r"
  have "stray_bytes (rl_panes r) (AList.update k bs (rl_disk r)) = stray_bytes (rl_panes r) (rl_disk r) + len bs"
    using wf assms(1,2) by (simp add: realm_wf_def stray_bytes_def ksum_update pane_at_def)
  then show "moves 0 0 a 0 r (put_file k bs (r\<lparr>rl_physical_total := rl_physical_total r + a\<rparr>))"
    using assms by (auto simp: moves_def put_file_def realm_wf_def pane_at_def logical_load_def physical_load_def spare_logical_def
      spare_physical_def owed_logical_def owed_physical_def unattributed_def overcharged_def same_caps_def slots_ok_def)
qed

lemma new_pane_moves:
  assumes "pane_at k r = None" "map_of (rl_disk r) k = None" "len (rl_panes r) < max_realm_identities"
    and "pane_ok (Some bs) p" "pj_realm_charge p = 0" "holds_logical p = 0" "holds_physical p = 0" "pj_physical p \<le> a"
  shows "moves 0 0 a 0 r (put_pane k p (put_file k bs (r\<lparr>rl_physical_total := rl_physical_total r + a\<rparr>)))"
proof (rule moves_if_wf)
  assume wf: "realm_wf r"
  let ?P = "AList.update k p (rl_panes r)" and ?D = "AList.update k bs (rl_disk r)"
  have kd: "keyed (rl_panes r)" "keyed (rl_disk r)" using wf by (simp_all add: realm_wf_def)
  have at: "map_of (rl_panes r) k = None" using assms(1) by (simp add: pane_at_def)
  have "stray_bytes ?P ?D = stray_bytes ?P (rl_disk r)" using kd assms(2) by (simp add: stray_bytes_def ksum_update)
  also have "\<dots> \<le> stray_bytes (rl_panes r) (rl_disk r)"
    unfolding stray_bytes_def by (rule ksum_mono) (auto simp: len_def)
  finally have st: "stray_bytes ?P ?D \<le> stray_bytes (rl_panes r) (rl_disk r)" .
  have s: "sum_of f ?P = sum_of f (rl_panes r) + f p" for f using kd at by (simp add: sum_of_update)
  have "len ?P \<le> max_realm_identities" using assms(3) len_update [OF kd(1), of k p] at by (simp add: len_def)
  moreover have "pane_ok (map_of ?D i) q" if "map_of ?P i = Some q" for i q
    using that assms(4) wf by (auto simp: realm_wf_def pane_at_def split: if_splits)
  ultimately have "realm_wf (put_pane k p (put_file k bs (r\<lparr>rl_physical_total := rl_physical_total r + a\<rparr>)))"
    using wf by (simp add: realm_wf_def put_pane_def put_file_def pane_at_def)
  then show "moves 0 0 a 0 r (put_pane k p (put_file k bs (r\<lparr>rl_physical_total := rl_physical_total r + a\<rparr>)))"
    using s st assms(5-8)
    by (simp add: moves_def logical_load_def physical_load_def spare_logical_def spare_physical_def owed_logical_def
      owed_physical_def unattributed_def overcharged_def same_caps_def slots_ok_def, simp add: put_pane_def put_file_def)
qed

text \<open>A file that was written in part and removed again.\<close>

lemma unmade_stays:
  assumes "map_of (rl_disk r) k = None" "remove_pane_file unlink k (put_file k bs (r\<lparr>rl_physical_total := rl_physical_total r + a\<rparr>)) = (True, r2)"
  shows "stays r (r2\<lparr>rl_physical_total := rl_physical_total r2 - a\<rparr>)"
proof (rule moves_if_wf)
  assume wf: "realm_wf r"
  have kd: "keyed (rl_disk r)" using wf by (simp add: realm_wf_def)
  have "stray_bytes (rl_panes r) (AList.delete k (AList.update k bs (rl_disk r))) \<le> stray_bytes (rl_panes r) (rl_disk r)"
    using kd assms(1) by (simp add: stray_bytes_def ksum_delete ksum_update)
  moreover obtain q where "r2\<lparr>rl_physical_total := rl_physical_total r2 - a\<rparr>
      = r\<lparr>rl_disk := AList.delete k (AList.update k bs (rl_disk r)), rl_source := q\<rparr>"
    using assms(2) by (auto simp: remove_pane_file_def put_file_def split: if_splits)
  ultimately show "stays r (r2\<lparr>rl_physical_total := rl_physical_total r2 - a\<rparr>)"
    using wf by (auto simp: moves_def realm_wf_def pane_at_def logical_load_def physical_load_def spare_logical_def
      spare_physical_def owed_logical_def owed_physical_def unattributed_def overcharged_def same_caps_def slots_ok_def
      intro: pane_ok_unlinked)
qed

lemma created_ok: "pane_ok (Some header) (created_pane key stream initial origin header)"
  by (simp add: pane_ok_def created_pane_def no_pane_def commit_due_def no_record_def len_def)

lemma created_zero:
  "pj_realm_charge (created_pane key stream initial origin header) = 0"
  "holds_logical (created_pane key stream initial origin header) = 0"
  "holds_physical (created_pane key stream initial origin header) = 0"
  "pj_physical (created_pane key stream initial origin header) = len header"
  by (simp_all add: created_pane_def no_pane_def holds_logical_def holds_physical_def)

definition room_kept :: "journal_realm \<Rightarrow> int \<Rightarrow> bool" where
  "room_kept r x \<longleftrightarrow> x = 0 \<or> physical_load r + x \<le> rl_physical_cap r"

lemma create_moves:
  assumes "create_pane_with_header io key initial origin header reserved r = (err, r')" "pane_at key r = None"
  defines "x \<equiv> rl_physical_total r' - rl_physical_total r"
  shows "moves 0 0 x 0 r r' \<and> 0 \<le> x \<and> x \<le> len header \<and> (\<not> reserved \<longrightarrow> room_kept r x)
    \<and> (err = None \<longrightarrow> x = len header \<and> pane_at key r' = Some (created_pane key (fi_stream io) initial origin header))
    \<and> rl_capacities r' = rl_capacities r"
proof -
  note d = assms(1) [unfolded create_pane_with_header_def]
  show ?thesis
  proof (cases "len (rl_panes r) \<ge> max_realm_identities \<or> \<not> reserved \<and> \<not> physical_room r None (len header)
      \<or> \<not> fst (source_claim_create key (rl_source r))")
    case True
    then have "r' = r" "err \<noteq> None" using d by (auto split: if_splits prod.splits bool.splits)
    then have "x = 0" "stays r r'" by (simp_all add: x_def moves_refl)
    then show ?thesis using \<open>r' = r\<close> \<open>err \<noteq> None\<close> by (auto simp: room_kept_def len_def)
  next
    case False
    then obtain quota where q: "source_claim_create key (rl_source r) = (True, quota)"
      by (cases "source_claim_create key (rl_source r)") auto
    let ?r0 = "r\<lparr>rl_source := quota\<rparr>"
    have n: "len (rl_panes r) < max_realm_identities" using False by simp
    have room: "\<not> reserved \<Longrightarrow> physical_load r + len header \<le> rl_physical_cap r"
      using False by (auto simp: physical_room_def physical_load_def Let_def)
    have s0: "stays r ?r0" by (rule source_stays)
    have p0: "pane_at key ?r0 = None" using assms(2) by (simp add: pane_at_def)
    consider (failed) "create_outcome io key r = CreateFailed" | (exists) "create_outcome io key r = CreateExists"
      | (unsafe) "create_outcome io key r = CreateUnsafe" | (opened) "create_outcome io key r = CreateOpened"
      by (cases "create_outcome io key r") auto
    then show ?thesis
    proof cases
      case failed
      obtain ok r1 where m: "remove_pane_file (fi_unlink io) key ?r0 = (ok, r1)" by fastforce
      then have "r' = r1" "err \<noteq> None" using d False q failed by auto
      moreover have "rl_capacities r1 = rl_capacities r" using m by (auto simp: remove_pane_file_def split: if_splits)
      ultimately show ?thesis using stays_trans [OF s0 remove_stays [OF m]] removed_file(3) [OF m]
        by (auto simp: x_def room_kept_def len_def)
    next
      case exists
      then have "r' = ?r0" "err \<noteq> None" using d False q by auto
      then show ?thesis using s0 by (auto simp: x_def room_kept_def len_def)
    next
      case unsafe
      then have absent: "map_of (rl_disk ?r0) key = None" by (auto simp: create_outcome_def split: if_splits)
      have "r' = put_file key [] ?r0" "err \<noteq> None" using d False q unsafe by auto
      then show ?thesis using stays_trans [OF s0] file_moves [OF p0 absent, of "[]" 0]
        by (auto simp: x_def room_kept_def len_def put_file_def)
    next
      case opened
      then have absent: "map_of (rl_disk ?r0) key = None" by (auto simp: create_outcome_def split: if_splits)
      obtain werr written where w: "write_all (fi_writes io) header [] = (werr, written)" by fastforce
      from write_all_lands [of "fi_writes io" header "[]"] w obtain k where
        wk: "written = take k header" "werr = None \<longrightarrow> take k header = header" by auto
      then have lw: "len written \<le> len header" by (simp add: len_def)
      let ?r1 = "put_file key written (?r0\<lparr>rl_physical_total := rl_physical_total ?r0 + len header\<rparr>)"
      show ?thesis
      proof (cases "werr = None")
        case True
        let ?p = "created_pane key (fi_stream io) initial origin header"
        have "r' = put_pane key ?p ?r1" "err = None" using d False q opened w True by auto
        moreover have "moves 0 0 (len header) 0 ?r0 (put_pane key ?p ?r1)"
          by (rule new_pane_moves [OF p0 absent]) (use n wk True created_zero [of key "fi_stream io" initial origin header] in \<open>simp_all add: created_ok\<close>)
        ultimately show ?thesis using stays_moves [OF s0] room
          by (auto simp: x_def room_kept_def put_pane_def put_file_def pane_at_def len_def)
      next
        case False2: False
        obtain ok r2 where m: "remove_pane_file (fi_unlink io) key ?r1 = (ok, r2)" by fastforce
        have caps: "rl_capacities r2 = rl_capacities r" using m by (auto simp: remove_pane_file_def put_file_def split: if_splits)
        show ?thesis
        proof (cases ok)
          case True
          have r': "r' = with_ledger (release_proven_capacity (len header > 0)) (r2\<lparr>rl_physical_total := rl_physical_total r2 - len header\<rparr>)"
            and "err \<noteq> None" using d False q opened w False2 m True by auto
          have "stays r (r2\<lparr>rl_physical_total := rl_physical_total r2 - len header\<rparr>)"
            using m True by (intro stays_trans [OF s0 unmade_stays [OF absent]]) simp
          then have "stays r r'" unfolding r' by (rule stays_trans [OF _ proven_stays])
          moreover have "rl_physical_total r' = rl_physical_total r" "rl_capacities r' = rl_capacities r"
            using removed_file(3) [OF m] caps r' by (simp_all add: with_ledger_def put_file_def)
          ultimately show ?thesis using \<open>err \<noteq> None\<close> by (auto simp: x_def room_kept_def len_def)
        next
          case not: False
          have "r' = r2" "err \<noteq> None" using d False q opened w False2 m not by auto
          moreover have "moves 0 0 (len header) 0 r r2"
            using moves_stays [OF stays_moves [OF s0 file_moves [OF p0 absent lw]] remove_stays [OF m]] .
          ultimately show ?thesis using removed_file(3) [OF m] caps room
            by (auto simp: x_def room_kept_def put_file_def len_def)
        qed
      qed
    qed
  qed
qed

end
