(* ===== verification/Journal_Caps.thy ===== *)
theory Journal_Caps
  imports Journal_Effects
begin

text \<open>
  The operations of a realm keep both ledgers: \<open>realm_kept\<close> is what a whole operation guarantees, and the last
  section runs any sequence of operations on a realm opened on any directory.
\<close>

section \<open>What an operation keeps\<close>

definition realm_kept :: "journal_realm \<Rightarrow> journal_realm \<Rightarrow> bool" where
  "realm_kept r r' \<longleftrightarrow>
     (realm_wf r \<longrightarrow>
        realm_wf r' \<and> logical_load r' \<le> max (logical_load r) (jo_realm_cap (rl_options r))
        \<and> physical_load r' \<le> max (physical_load r) (rl_physical_cap r)
        \<and> spare_logical r \<le> spare_logical r' \<and> spare_physical r \<le> spare_physical r'
        \<and> unattributed r' = unattributed r \<and> overcharged r \<le> overcharged r' \<and> same_caps r r'
        \<and> (\<forall>n. slots_ok n r \<longrightarrow> slots_ok n r'))"

lemma kept_moves:
  assumes "moves dl sl dp sp r r'" "dl \<le> 0 \<or> logical_load r + dl \<le> jo_realm_cap (rl_options r)" "0 \<le> sl"
    and "dp \<le> 0 \<or> physical_load r + dp \<le> rl_physical_cap r" "0 \<le> sp"
  shows "realm_kept r r'"
  using assms unfolding realm_kept_def moves_def le_max_iff_disj by (smt (verit))

lemma kept_stays: "stays r r' \<Longrightarrow> realm_kept r r'"
  by (erule kept_moves) simp_all

lemma kept_refl: "realm_kept r r"
  by (rule kept_stays [OF moves_refl])

lemma kept_trans: "realm_kept r r1 \<Longrightarrow> realm_kept r1 r2 \<Longrightarrow> realm_kept r r2"
  unfolding realm_kept_def same_caps_def by (smt (verit))

lemma kept_if_wf: "(realm_wf r \<Longrightarrow> realm_kept r r') \<Longrightarrow> realm_kept r r'"
  by (auto simp: realm_kept_def)

lemma stays_kept: "stays r r1 \<Longrightarrow> realm_kept r1 r2 \<Longrightarrow> realm_kept r r2"
  using kept_trans kept_stays by blast

lemma kept_then_stays: "realm_kept r r1 \<Longrightarrow> stays r1 r2 \<Longrightarrow> realm_kept r r2"
  using kept_trans kept_stays by blast

section \<open>Births\<close>

lemma create_capacity_cases:
  assumes "create_pane_with_capacity io key initial origin reserved r = (err, r')"
  obtains (unencoded) e where "r' = r" "err = Some e"
  | (made) header where "encode_header (new_header key (jo_incarnation (rl_options r)) initial origin) = Inr header"
      "create_pane_with_header io key initial origin header reserved r = (err, r')"
  using assms unfolding create_pane_with_capacity_def
  by (cases "encode_header (new_header key (jo_incarnation (rl_options r)) initial origin)") auto

lemma create_kept:
  assumes "create_pane_with_capacity io key initial origin False r = (err, r')" "pane_at key r = None"
  shows "realm_kept r r' \<and> (err = None \<longrightarrow> (\<exists>p. pane_at key r' = Some p))"
  using assms(1)
proof (cases rule: create_capacity_cases)
  case unencoded
  then show ?thesis by (simp add: kept_refl)
next
  case (made header)
  from create_moves [OF made(2) assms(2)] show ?thesis
    by (auto simp: room_kept_def intro!: kept_moves [of 0 0 "rl_physical_total r' - rl_physical_total r" 0])
qed

lemma create_made:
  assumes "create_pane_with_capacity io key initial origin reserved r = (None, r')" "pane_at key r = None"
  shows "\<exists>p. pane_at key r' = Some p \<and> pj_state p = EligibilityContinuous"
  using assms(1)
proof (cases rule: create_capacity_cases)
  case (made header)
  from create_moves [OF made(2) assms(2)] show ?thesis by (simp add: created_pane_def)
qed simp

lemma reserve_at: "pane_at k (r\<lparr>rl_retention := l\<rparr>) = pane_at k r"
  by (simp add: pane_at_def)

lemma admit_kept: "realm_kept r (snd (admit_pane io key initial r))"
proof (cases "rl_closed r \<or> \<not> geometry_valid initial \<or> pane_at key r \<noteq> None \<or> \<not> fst (reserve_complete_pane True (rl_retention r))")
  case True
  then have "snd (admit_pane io key initial r) = r"
    by (auto simp: admit_pane_def split: prod.splits bool.splits option.splits)
  then show ?thesis by (simp add: kept_refl)
next
  case False
  then obtain l where l: "reserve_complete_pane True (rl_retention r) = (True, l)"
    by (cases "reserve_complete_pane True (rl_retention r)") auto
  obtain err r1 where c: "create_pane_with_capacity io key (Some initial) OriginBirth False (r\<lparr>rl_retention := l\<rparr>) = (err, r1)"
    by fastforce
  have k: "realm_kept r r1" using create_kept [OF c] False by (intro stays_kept [OF reserve_stays [OF l]]) (simp add: reserve_at)
  have "snd (admit_pane io key initial r) = r1 \<or> snd (admit_pane io key initial r) = with_ledger release_complete_pane r1"
    using False l c by (auto simp: admit_pane_def split: option.splits)
  then show ?thesis using k kept_then_stays [OF k release_stays] by auto
qed

section \<open>Writing\<close>

text \<open>What a write changes of a generation; only a write that succeeded leaves it continuous.\<close>

definition same_holds :: "pane_journal \<Rightarrow> pane_journal \<Rightarrow> bool" where
  "same_holds p p' \<longleftrightarrow>
     pj_adoption_logical p' = pj_adoption_logical p \<and> pj_adoption_physical p' = pj_adoption_physical p
     \<and> pj_rollback_logical p' = pj_rollback_logical p \<and> pj_rollback_physical p' = pj_rollback_physical p
     \<and> pj_rollback_reserved p' = pj_rollback_reserved p \<and> pj_rollback_armed p' = pj_rollback_armed p
     \<and> pj_forward_logical p' = pj_forward_logical p \<and> pj_forward_physical p' = pj_forward_physical p
     \<and> pj_realm_charge p' = pj_realm_charge p \<and> pj_physical p' = pj_physical p \<and> pj_slot_retired p' = pj_slot_retired p"

lemma same_holds_sums: "same_holds p p' \<Longrightarrow> holds_logical p' = holds_logical p \<and> holds_physical p' = holds_physical p"
  by (simp add: same_holds_def holds_logical_def holds_physical_def)

definition writes :: "pane_journal \<Rightarrow> pane_journal \<Rightarrow> bool" where
  "writes p p' \<longleftrightarrow>
     same_holds p p'
     \<and> (pj_state p' = EligibilityContinuous \<longrightarrow>
          pj_state p = EligibilityContinuous \<and> length (jr_hash (pj_last p')) = 32)"

lemma write_all_len: "write_all answers data disk = (err, disk') \<Longrightarrow> len disk' \<le> len disk + len data"
  using write_all_lands [of answers data disk] by (auto simp: len_def)

lemma write_record_writes:
  assumes "write_record answers rec payload p disk = (err, p', disk')" "length (jr_hash rec) = 32"
    and "pj_state p = EligibilityContinuous"
  shows "writes p p' \<and> len disk' \<le> len disk + int append_fixed + len payload"
proof -
  obtain e d where w: "write_all answers (encode_append rec payload) disk = (e, d)" by fastforce
  have "len d \<le> len disk + int append_fixed + len payload"
    using write_all_len [OF w] encode_lengths(1) [OF assms(2), of payload] by (simp add: len_def)
  moreover have "writes p (invalidate_pane reason p)" for reason by (simp add: writes_def same_holds_def)
  moreover have "writes p (p\<lparr>pj_sequence := jr_sequence rec, pj_last := rec, pj_pending := pj_pending p @ [rec],
                  pj_stored := pj_stored p + int append_fixed + len payload\<rparr>)"
    using assms(2,3) by (simp add: writes_def same_holds_def)
  ultimately show ?thesis using assms(1) w by (auto simp: write_record_def split: option.splits)
qed

lemma writes_end: "writes p p' \<Longrightarrow> writes p (p'\<lparr>pj_end := x\<rparr>)"
  by (simp add: writes_def same_holds_def)

lemma write_output_writes:
  assumes "write_output answers payload p disk = (err, p', disk')" "pj_state p = EligibilityContinuous"
  shows "writes p p' \<and> len disk' \<le> len disk + int append_fixed + len payload"
proof -
  obtain e q d where w: "write_record answers (new_output_record p payload) payload p disk = (e, q, d)"
    by (cases "write_record answers (new_output_record p payload) payload p disk")
  have "length (jr_hash (new_output_record p payload)) = 32" by (simp add: new_output_record_def sha256_length)
  from write_record_writes [OF w this assms(2)] show ?thesis
    using assms(1) w writes_end by (auto simp: write_output_def split: option.splits)
qed

lemma write_geometry_writes:
  assumes "write_geometry answers g p disk = (err, p', disk')" "pj_state p = EligibilityContinuous"
  shows "writes p p' \<and> len disk' \<le> len disk + int append_fixed"
proof -
  have "length (jr_hash (new_geometry_record p g)) = 32" by (simp add: new_geometry_record_def geometry_hash_def sha256_length)
  from write_record_writes [OF assms(1) [unfolded write_geometry_def] this assms(2)] show ?thesis by (simp add: len_def)
qed

lemma writes_ok:
  assumes "pane_ok file p" "writes (p\<lparr>pj_physical := pj_physical p + cost\<rparr>) p'" "0 \<le> c" "0 \<le> n"
    and "len disk' \<le> at_or 0 len file + n" "n + int commit_fixed \<le> cost"
  shows "pane_ok (map_option (\<lambda>_. disk') file) (p'\<lparr>pj_realm_charge := pj_realm_charge p' + c\<rparr>)"
proof -
  have f: "at_or 0 len file \<le> pj_physical p" "0 \<le> pj_physical p"
    using pane_ok_file [OF assms(1)] physical_nonneg [OF assms(1)] by simp_all
  have "at_or 0 len (map_option (\<lambda>_. disk') file) \<le> at_or 0 len file + n"
    using assms(4,5) by (auto simp: at_or_def split: option.splits)
  then have "at_or 0 len (map_option (\<lambda>_. disk') file) + commit_due q \<le> pj_physical p + cost" for q
    using f(1) assms(6) commit_due_bounds(2) [of q] by linarith
  then show ?thesis using assms(1,2,3) by (auto simp: writes_def same_holds_def pane_ok_def)
qed

lemma grow_disk:
  "map_of (rl_disk (grow_file k bs r)) k = map_option (\<lambda>_. bs) (map_of (rl_disk r) k)"
  "rl_disk (grow_file k bs r) = rl_disk r \<or> rl_disk (grow_file k bs r) = AList.update k bs (rl_disk r)"
  by (auto simp: grow_file_def put_file_def)

lemma grow_simps [simp]:
  "rl_total (grow_file k bs r) = rl_total r" "rl_reserved (grow_file k bs r) = rl_reserved r"
  "rl_physical_total (grow_file k bs r) = rl_physical_total r"
  "rl_physical_reserved (grow_file k bs r) = rl_physical_reserved r"
  "rl_panes (grow_file k bs r) = rl_panes r" "rl_capacities (grow_file k bs r) = rl_capacities r"
  "rl_geometries (grow_file k bs r) = rl_geometries r" "rl_retention (grow_file k bs r) = rl_retention r"
  "same_caps r (grow_file k bs r)"
  by (simp_all add: grow_file_def put_file_def same_caps_def)

lemma file_at_len: "len (file_at k r) = at_or 0 len (map_of (rl_disk r) k)"
  by (simp add: file_at_def at_or_def len_def split: option.split)

text \<open>
  A write that was paid for: the holds of the generation and the reserved totals went down together (from
  \<open>r\<close> to \<open>r1\<close>), then the write is charged in full.
\<close>

lemma charged_moves:
  assumes "pane_at k r = Some p" "same_but_totals r r1" "rl_disk r1 = rl_disk r"
    and "rl_total r1 = rl_total r" "rl_physical_total r1 = rl_physical_total r"
    and "pane_ok (map_of (rl_disk r) k) p \<Longrightarrow> pane_ok (map_of (rl_disk r) k) p1"
    and "pj_realm_charge p1 = pj_realm_charge p" "pj_physical p1 = pj_physical p"
    and "writes (p1\<lparr>pj_physical := pj_physical p1 + cost\<rparr>) p2"
    and "len disk' \<le> len (file_at k r) + n" "n + int commit_fixed \<le> cost" "0 \<le> c" "0 \<le> n"
    and "holds_logical p - holds_logical p1 = rl_reserved r - rl_reserved r1"
    and "holds_physical p - holds_physical p1 = rl_physical_reserved r - rl_physical_reserved r1"
  shows "moves (c - (rl_reserved r - rl_reserved r1)) 0 (cost - (rl_physical_reserved r - rl_physical_reserved r1)) 0 r
      (put_pane k (p2\<lparr>pj_realm_charge := pj_realm_charge p2 + c\<rparr>)
        (grow_file k disk' (r1\<lparr>rl_physical_total := rl_physical_total r1 + cost, rl_total := rl_total r1 + c\<rparr>)))"
proof -
  let ?r2 = "grow_file k disk' (r1\<lparr>rl_physical_total := rl_physical_total r1 + cost, rl_total := rl_total r1 + c\<rparr>)"
  let ?p3 = "p2\<lparr>pj_realm_charge := pj_realm_charge p2 + c\<rparr>"
  have d: "rl_disk ?r2 = rl_disk r \<or> rl_disk ?r2 = AList.update k disk' (rl_disk r)"
      "map_of (rl_disk ?r2) k = map_option (\<lambda>_. disk') (map_of (rl_disk r) k)"
    using assms(3) by (auto simp: grow_file_def put_file_def)
  have w: "pj_realm_charge p2 = pj_realm_charge p1" "pj_physical p2 = pj_physical p1 + cost"
      "holds_logical p2 = holds_logical p1" "holds_physical p2 = holds_physical p1"
    using assms(9) by (simp_all add: writes_def same_holds_def holds_logical_def holds_physical_def)
  have "holds_logical ?p3 = holds_logical p2" "holds_physical ?p3 = holds_physical p2"
    by (simp_all add: holds_logical_def holds_physical_def)
  with w(3,4) have h: "holds_logical ?p3 = holds_logical p1" "holds_physical ?p3 = holds_physical p1" by simp_all
  have sb: "same_but_totals r ?r2" using assms(2) by (simp add: same_but_totals_def same_caps_def grow_file_def put_file_def)
  have ok: "pane_ok (map_of (rl_disk ?r2) k) ?p3" if "pane_ok (map_of (rl_disk r) k) p"
    unfolding d(2)
    by (rule writes_ok [OF assms(6) [OF that] assms(9,12,13) _ assms(11)]) (use assms(10) in \<open>simp add: file_at_len\<close>)
  show ?thesis
    by (rule moves_weaken [OF put_moves_file [OF sb assms(1) d(1) ok]])
      (use assms(4,5,7,8,14,15) w h in simp_all)
qed

text \<open>The share a hold pays.\<close>

lemma held_nonneg: "pane_ok file p \<Longrightarrow> 0 \<le> held_logical h p \<and> 0 \<le> held_physical h p"
  by (cases h) (auto simp: pane_ok_def)

lemma shares:
  assumes "pane_ok file p" "0 \<le> cost"
  shows "0 \<le> logical_share oh p cost" "logical_share oh p cost \<le> cost"
    "\<And>h. oh = Some h \<Longrightarrow> logical_share oh p cost \<le> held_logical h p"
    "\<And>h l. oh = Some h \<Longrightarrow> 0 \<le> l \<Longrightarrow> 0 \<le> physical_share oh p l cost \<and> physical_share oh p l cost \<le> held_physical h p"
    "\<And>h l. oh = Some h \<Longrightarrow> \<not> draws_held h p \<Longrightarrow> logical_share oh p cost = 0 \<and> physical_share oh p l cost = 0"
    "\<And>l. oh = None \<Longrightarrow> logical_share oh p cost = 0 \<and> physical_share oh p l cost = 0"
  using assms(2) held_nonneg [OF assms(1)]
  by (auto simp: logical_share_def physical_share_def Let_def split: option.split)

lemma spend_simps:
  "pj_realm_charge (spend_hold h l f p) = pj_realm_charge p" "pj_physical (spend_hold h l f p) = pj_physical p"
  "pj_state (spend_hold h l f p) = pj_state p" "pj_slot_retired (spend_hold h l f p) = pj_slot_retired p"
  "pj_last (spend_hold h l f p) = pj_last p" "pj_rollback_reserved (spend_hold h l f p) = pj_rollback_reserved p"
  "pj_rollback_armed (spend_hold h l f p) = pj_rollback_armed p" "commit_due (spend_hold h l f p) = commit_due p"
  by (cases h; simp add: commit_due_def)+

lemma spend_ok:
  assumes "pane_ok file p" "0 \<le> l" "0 \<le> f" "l \<le> held_logical h p" "f \<le> held_physical h p"
  shows "pane_ok file (spend_hold h l f p)"
  using assms unfolding pane_ok_def spend_simps by (cases h) simp_all

lemma spend_holds:
  assumes "hold_reserved h p"
  shows "holds_logical p - holds_logical (spend_hold h l f p) = l" "holds_physical p - holds_physical (spend_hold h l f p) = f"
  using assms by (cases h; simp add: holds_logical_def holds_physical_def)+

lemma reserved_fields:
  "pane_ok file (p\<lparr>pj_reserved_charge := x, pj_physical_reserved := y\<rparr>) = pane_ok file p"
  "holds_logical (p\<lparr>pj_reserved_charge := x, pj_physical_reserved := y\<rparr>) = holds_logical p"
  "holds_physical (p\<lparr>pj_reserved_charge := x, pj_physical_reserved := y\<rparr>) = holds_physical p"
  by (simp_all add: pane_ok_def commit_due_def holds_logical_def holds_physical_def)

lemma convert_effect:
  assumes "convert_hold oh l f p r = (p1, r1)" "oh = append_hold_of p"
    and ok: "pane_ok file p" and "0 \<le> l" "0 \<le> f"
    and le: "\<And>h. oh = Some h \<Longrightarrow> l \<le> held_logical h p \<and> f \<le> held_physical h p"
    and zero: "oh = None \<or> (\<exists>h. oh = Some h \<and> \<not> draws_held h p) \<Longrightarrow> l = 0 \<and> f = 0"
  shows "same_but_totals r r1 \<and> rl_disk r1 = rl_disk r \<and> rl_total r1 = rl_total r
    \<and> rl_physical_total r1 = rl_physical_total r \<and> pane_ok file p1
    \<and> pj_realm_charge p1 = pj_realm_charge p \<and> pj_physical p1 = pj_physical p \<and> pj_state p1 = pj_state p
    \<and> rl_reserved r - rl_reserved r1 = l \<and> rl_physical_reserved r - rl_physical_reserved r1 = f
    \<and> holds_logical p - holds_logical p1 = l \<and> holds_physical p - holds_physical p1 = f"
proof (cases oh)
  case None
  then show ?thesis using assms(1) zero ok by (auto simp: convert_hold_def same_but_totals_def same_caps_def)
next
  case (Some h)
  let ?r1 = "r\<lparr>rl_reserved := rl_reserved r - l, rl_physical_reserved := rl_physical_reserved r - f\<rparr>"
  have sb: "same_but_totals r ?r1" "same_but_totals r r" by (simp_all add: same_but_totals_def same_caps_def)
  let ?q = "if draws_held h p then spend_hold h l f p else p"
  have p1: "p1 = (if hold_reserved h p
      then ?q\<lparr>pj_reserved_charge := pj_reserved_charge ?q - l, pj_physical_reserved := pj_physical_reserved ?q - f\<rparr> else ?q)"
    "r1 = (if hold_reserved h p then ?r1 else r)"
    using assms(1) Some by (auto simp: convert_hold_def Let_def)
  show ?thesis
  proof (cases "draws_held h p")
    case False
    then have "l = 0" "f = 0" using zero Some by auto
    then show ?thesis using p1 False ok sb by (simp add: reserved_fields)
  next
    case True
    have r: "hold_reserved h p" using assms(2) Some ok by (cases h) (auto simp: append_hold_of_def pane_ok_def split: if_splits)
    have "pane_ok file (spend_hold h l f p)" using spend_ok [OF ok assms(4,5)] le [OF Some] by simp
    then show ?thesis using p1 True r sb spend_holds [OF r, of l f] by (simp add: reserved_fields spend_simps)
  qed
qed

lemma invalidated_kept: "pane_at k r = Some p \<Longrightarrow> realm_kept r (put_pane k (invalidate_pane reason p) r)"
  by (rule kept_stays [OF invalidate_stays])

lemma append_admitted_kept:
  assumes "pane_at key r = Some p" "pj_state p = EligibilityContinuous"
  shows "realm_kept r (snd (append_admitted answers key payload p r))"
proof (rule kept_if_wf)
  assume wf: "realm_wf r"
  have ok: "pane_ok (map_of (rl_disk r) key) p" by (rule wf_pane [OF wf assms(1)])
  let ?oh = "append_hold_of p" and ?n = "len payload" and ?cost = "physical_append_cost payload"
  define l where "l = logical_share ?oh p ?n"
  define f where "f = physical_share ?oh p l ?cost"
  have n: "0 \<le> ?n" "0 \<le> ?cost" by (simp_all add: len_def physical_append_cost_def)
  note sl = shares [OF ok n(1), of ?oh, folded l_def]
  note sp = shares [OF ok n(2), of ?oh]
  obtain p1 r1 where c: "convert_hold ?oh l f p r = (p1, r1)" by fastforce
  have e: "same_but_totals r r1 \<and> rl_disk r1 = rl_disk r \<and> rl_total r1 = rl_total r
    \<and> rl_physical_total r1 = rl_physical_total r \<and> pane_ok (map_of (rl_disk r) key) p1
    \<and> pj_realm_charge p1 = pj_realm_charge p \<and> pj_physical p1 = pj_physical p \<and> pj_state p1 = pj_state p
    \<and> rl_reserved r - rl_reserved r1 = l \<and> rl_physical_reserved r - rl_physical_reserved r1 = f
    \<and> holds_logical p - holds_logical p1 = l \<and> holds_physical p - holds_physical p1 = f"
  proof (rule convert_effect [OF c refl ok sl(1)])
    show "0 \<le> f" using sp(4) [of _ l] sp(6) [of l] sl(1) by (cases ?oh) (auto simp: f_def)
    show "l \<le> held_logical h p \<and> f \<le> held_physical h p" if "?oh = Some h" for h
      using sl(3) [OF that] sp(4) [OF that sl(1)] by (simp add: f_def)
    show "l = 0 \<and> f = 0" if "?oh = None \<or> (\<exists>h. ?oh = Some h \<and> \<not> draws_held h p)"
      using that sl(5,6) sp(5,6) by (auto simp: f_def)
  qed
  let ?res = "append_admitted answers key payload p r"
  show "realm_kept r (snd ?res)"
  proof (cases "?oh = Some HoldForward \<and> pj_forward_records p = 0 \<or> \<not> logical_room r (Some p) (?n - l)
      \<or> \<not> physical_room r (Some p) (?cost - f)")
    case True
    then have "snd ?res = r \<or> (\<exists>reason. snd ?res = put_pane key (invalidate_pane reason p) r)"
      by (auto simp: append_admitted_def Let_def l_def f_def)
    then show ?thesis using kept_refl invalidated_kept [OF assms(1)] by auto
  next
    case False
    then have room: "logical_load r + (?n - l) \<le> jo_realm_cap (rl_options r)" "physical_load r + (?cost - f) \<le> rl_physical_cap r"
      by (auto simp: logical_room_def physical_room_def Let_def logical_load_def physical_load_def)
    let ?q = "p1\<lparr>pj_physical := pj_physical p1 + ?cost\<rparr>"
    obtain err p2 disk' where w: "write_output answers payload ?q (file_at key r1) = (err, p2, disk')"
      by (cases "write_output answers payload ?q (file_at key r1)")
    have st: "pj_state ?q = EligibilityContinuous" using e assms(2) by simp
    have "file_at key r1 = file_at key r" using e by (simp add: file_at_def)
    with write_output_writes [OF w st] have wr: "writes ?q p2" "len disk' \<le> len (file_at key r) + (int append_fixed + ?n)" by simp_all
    have m: "moves (x - l) 0 (?cost - f) 0 r
        (put_pane key (p2\<lparr>pj_realm_charge := pj_realm_charge p2 + x\<rparr>)
          (grow_file key disk' (r1\<lparr>rl_physical_total := rl_physical_total r1 + ?cost, rl_total := rl_total r1 + x\<rparr>)))"
      if "0 \<le> x" for x
      using charged_moves [OF assms(1), of r1 p1 ?cost p2 disk' "int append_fixed + ?n" x] e wr that n(1)
      by (simp add: physical_append_cost_def)
    have res: "?res = charged_output answers key payload p1 r1"
      using False c by (auto simp: append_admitted_def Let_def l_def f_def)
    show ?thesis
    proof (cases err)
      case (Some er)
      have "snd ?res = put_pane key p2 (grow_file key disk' (r1\<lparr>rl_physical_total := rl_physical_total r1 + ?cost\<rparr>))"
        unfolding res charged_output_def Let_def using w Some by simp
      moreover have "p2\<lparr>pj_realm_charge := pj_realm_charge p2 + 0\<rparr> = p2" "r1\<lparr>rl_physical_total := y, rl_total := rl_total r1 + 0\<rparr> = r1\<lparr>rl_physical_total := y\<rparr>" for y
        by simp_all
      ultimately show ?thesis using m [of 0] kept_moves [OF m [of 0]] sl(1) room(2) by simp
    next
      case None
      have "snd ?res = put_pane key (p2\<lparr>pj_realm_charge := pj_realm_charge p2 + ?n\<rparr>)
          (grow_file key disk' (r1\<lparr>rl_physical_total := rl_physical_total r1 + ?cost, rl_total := rl_total r1 + ?n\<rparr>))"
        unfolding res charged_output_def Let_def using w None by simp
      then show ?thesis using kept_moves [OF m [OF n(1)]] room by simp
    qed
  qed
qed

lemma append_kept: "realm_kept r (snd (realm_append io answers key payload r))"
proof (cases "pane_at key r")
  case (Some p)
  show ?thesis
  proof (cases "rl_closed r \<or> pj_state p \<noteq> EligibilityContinuous")
    case True
    then show ?thesis using Some by (auto simp: realm_append_def kept_refl)
  next
    case False
    then show ?thesis using Some append_admitted_kept [OF Some] by (simp add: realm_append_def)
  qed
next
  case None
  show ?thesis
  proof (cases "rl_closed r \<or> \<not> fst (reserve_complete_pane True (rl_retention r))")
    case True
    then have "snd (realm_append io answers key payload r) = r"
      using None by (auto simp: realm_append_def split: prod.splits bool.splits)
    then show ?thesis by (simp add: kept_refl)
  next
    case False
    then obtain l where l: "reserve_complete_pane True (rl_retention r) = (True, l)"
      by (cases "reserve_complete_pane True (rl_retention r)") auto
    obtain err r1 where c: "create_pane_with_capacity io key None OriginBirth False (r\<lparr>rl_retention := l\<rparr>) = (err, r1)"
      by fastforce
    have at: "pane_at key (r\<lparr>rl_retention := l\<rparr>) = None" using None by (simp add: reserve_at)
    have k: "realm_kept r r1" using create_kept [OF c at] by (intro stays_kept [OF reserve_stays [OF l]]) simp
    show ?thesis
    proof (cases err)
      case (Some e)
      then show ?thesis using False None l c kept_then_stays [OF k release_stays] by (simp add: realm_append_def)
    next
      case err: None
      from create_made [OF c [unfolded err] at] obtain p where p: "pane_at key r1 = Some p" "pj_state p = EligibilityContinuous" by auto
      then show ?thesis using False None err l c kept_trans [OF k append_admitted_kept [OF p]] by (simp add: realm_append_def)
    qed
  qed
qed

section \<open>Geometry\<close>

lemma geometry_locked_moves:
  assumes "pane_at key r = Some p" "pj_state p = EligibilityContinuous"
  shows "\<exists>c. 0 \<le> c \<and> c \<le> geometry_record_cost
    \<and> moves c 0 geometry_record_cost 0 r (snd (append_geometry_locked answers key g p r))"
proof -
  let ?c = geometry_record_cost
  let ?q = "p\<lparr>pj_physical := pj_physical p + ?c\<rparr>"
  obtain err p2 disk' where w: "write_geometry answers g ?q (file_at key r) = (err, p2, disk')"
    by (cases "write_geometry answers g ?q (file_at key r)")
  have "pj_state ?q = EligibilityContinuous" using assms(2) by simp
  from write_geometry_writes [OF w this] have wr: "writes ?q p2" "len disk' \<le> len (file_at key r) + int append_fixed" by simp_all
  have m: "moves x 0 ?c 0 r (put_pane key (p2\<lparr>pj_realm_charge := pj_realm_charge p2 + x\<rparr>)
      (grow_file key disk' (r\<lparr>rl_physical_total := rl_physical_total r + ?c, rl_total := rl_total r + x\<rparr>)))" if "0 \<le> x" for x
    using charged_moves [OF assms(1), of r p ?c p2 disk' "int append_fixed" x] wr that
    by (simp add: same_but_totals_def same_caps_def geometry_record_cost_def)
  show ?thesis
  proof (cases err)
    case (Some e)
    have "snd (append_geometry_locked answers key g p r) = put_pane key p2 (grow_file key disk' (r\<lparr>rl_physical_total := rl_physical_total r + ?c\<rparr>))"
      unfolding append_geometry_locked_def Let_def using w Some by simp
    then show ?thesis using m [of 0] by (intro exI [of _ 0]) (simp add: geometry_record_cost_def)
  next
    case None
    have "snd (append_geometry_locked answers key g p r) = put_pane key (p2\<lparr>pj_realm_charge := pj_realm_charge p2 + ?c\<rparr>)
        (grow_file key disk' (r\<lparr>rl_physical_total := rl_physical_total r + ?c, rl_total := rl_total r + ?c\<rparr>))"
      unfolding append_geometry_locked_def Let_def using w None by simp
    then show ?thesis using m [of ?c] by (intro exI [of _ ?c]) (simp add: geometry_record_cost_def)
  qed
qed

lemma append_geometry_kept: "realm_kept r (snd (append_geometry answers key g r))"
proof (cases "pane_at key r")
  case None
  then show ?thesis by (simp add: append_geometry_def kept_refl)
next
  case (Some p)
  show ?thesis
  proof (cases "rl_closed r \<or> \<not> pj_admitted p \<or> pj_state p \<noteq> EligibilityContinuous \<or> \<not> geometry_valid g
      \<or> \<not> logical_room r (Some p) geometry_record_cost \<or> \<not> physical_room r (Some p) geometry_record_cost")
    case True
    then have "snd (append_geometry answers key g r) = r
        \<or> (\<exists>reason. snd (append_geometry answers key g r) = put_pane key (invalidate_pane reason p) r)"
      using Some by (auto simp: append_geometry_def)
    then show ?thesis using kept_refl invalidated_kept [OF Some] by auto
  next
    case False
    then have e: "append_geometry answers key g r = append_geometry_locked answers key g p r"
      and room: "logical_load r + geometry_record_cost \<le> jo_realm_cap (rl_options r)"
        "physical_load r + geometry_record_cost \<le> rl_physical_cap r"
      using Some by (auto simp: append_geometry_def logical_room_def physical_room_def Let_def logical_load_def physical_load_def)
    from geometry_locked_moves [OF Some, of answers g] False obtain c where
      c: "c \<le> geometry_record_cost" "moves c 0 geometry_record_cost 0 r (snd (append_geometry_locked answers key g p r))" by auto
    from kept_moves [OF c(2)] show ?thesis unfolding e using c(1) room by simp
  qed
qed

lemma reserve_geometry_kept: "realm_kept r (snd (reserve_geometry key r))"
proof (cases "fst (reserve_geometry key r)")
  case (Inl e)
  then have "snd (reserve_geometry key r) = r"
    by (auto simp: reserve_geometry_def split: option.splits if_splits)
  then show ?thesis by (simp add: kept_refl)
next
  case (Inr i)
  let ?c = geometry_record_cost and ?g = "\<lparr>gr_key = key, gr_held = True\<rparr>"
  obtain p where p: "pane_at key r = Some p" "logical_room r (Some p) ?c" "physical_room r (Some p) ?c"
    using Inr by (auto simp: reserve_geometry_def split: option.splits if_splits)
  let ?q = "p\<lparr>pj_reserved_charge := pj_reserved_charge p + ?c, pj_physical_reserved := pj_physical_reserved p + ?c\<rparr>"
  let ?r1 = "r\<lparr>rl_reserved := rl_reserved r + ?c, rl_physical_reserved := rl_physical_reserved r + ?c\<rparr>"
  let ?r2 = "?r1\<lparr>rl_geometries := rl_geometries ?r1 @ [?g]\<rparr>"
  have e: "snd (reserve_geometry key r) = put_pane key ?q ?r2"
    using p Inr by (auto simp: reserve_geometry_def split: option.splits if_splits)
  have "moves ?c ?c ?c ?c r ?r1" by (rule reserve_moves)
  from moves_trans [OF this new_geometry_moves [of ?g]] have m: "moves ?c 0 ?c 0 r ?r2" by (simp add: geometry_need_def)
  have "stays ?r2 (put_pane key ?q ?r2)"
    by (rule put_stays [of key _ p]) (use p in \<open>simp_all add: pane_at_def reserved_fields\<close>)
  from kept_moves [OF moves_stays [OF m this]] p(2,3) show ?thesis
    unfolding e by (simp add: logical_room_def physical_room_def Let_def logical_load_def physical_load_def)
qed

lemma release_geometry_stays: "stays r (release_geometry i r)"
proof (cases "i < length (rl_geometries r) \<and> gr_held (rl_geometries r ! i)")
  case True
  let ?c = geometry_record_cost and ?g = "(rl_geometries r ! i)\<lparr>gr_held := False\<rparr>"
  let ?r1 = "r\<lparr>rl_geometries := (rl_geometries r)[i := ?g]\<rparr>"
  let ?r2 = "?r1\<lparr>rl_reserved := rl_reserved ?r1 + (- ?c), rl_physical_reserved := rl_physical_reserved ?r1 + (- ?c)\<rparr>"
  have "moves 0 ?c 0 ?c r ?r1" using geometry_moves [of i r ?g] True by (simp add: geometry_need_def)
  from moves_trans [OF this reserve_moves [of "- ?c" "- ?c"]]
  have "moves (- ?c) 0 (- ?c) 0 r ?r2" by simp
  then have m: "stays r ?r2" by (rule moves_weaken) (simp_all add: geometry_record_cost_def)
  have "stays ?r2 (release_geometry_pane (gr_key (rl_geometries r ! i)) ?r2)"
    unfolding release_geometry_pane_def
    by (auto split: option.split simp: moves_refl reserved_fields intro!: put_stays)
  from stays_trans [OF m this] show ?thesis using True by (simp add: release_geometry_def)
qed (auto simp: release_geometry_def moves_refl)

lemma release_geometry_load:
  "i < length (rl_geometries r) \<Longrightarrow> gr_held (rl_geometries r ! i) \<Longrightarrow>
    logical_load (release_geometry i r) = logical_load r - geometry_record_cost
    \<and> physical_load (release_geometry i r) = physical_load r - geometry_record_cost"
  by (auto simp: release_geometry_def release_geometry_pane_def logical_load_def physical_load_def put_pane_def split: option.split)

text \<open>The record of a reservation is written without a check: it takes the room that was released.\<close>

lemma append_reserved_geometry_kept: "realm_kept r (snd (append_reserved_geometry answers i g r))"
proof (cases "i < length (rl_geometries r) \<and> gr_held (rl_geometries r ! i)")
  case True
  let ?c = geometry_record_cost and ?key = "gr_key (rl_geometries r ! i)" and ?r1 = "release_geometry i r"
  note s = release_geometry_stays [of r i]
  show ?thesis
  proof (cases "pane_at ?key ?r1")
    case None
    then show ?thesis using True kept_stays [OF s] by (auto simp: append_reserved_geometry_def Let_def)
  next
    case (Some p)
    show ?thesis
    proof (cases "rl_closed ?r1 \<or> \<not> pj_admitted p \<or> pj_state p \<noteq> EligibilityContinuous \<or> \<not> geometry_valid g")
      case t: True
      then show ?thesis using True Some kept_stays [OF s] by (auto simp: append_reserved_geometry_def Let_def)
    next
      case False
      then have e: "append_reserved_geometry answers i g r = append_geometry_locked answers ?key g p ?r1"
        using True Some by (simp add: append_reserved_geometry_def Let_def)
      from geometry_locked_moves [OF Some, of answers g] False obtain c where
        c: "0 \<le> c" "c \<le> ?c" "moves c 0 ?c 0 ?r1 (snd (append_geometry_locked answers ?key g p ?r1))" by auto
      from s c(3) release_geometry_load [of i r] True c(1,2) show ?thesis
        unfolding e by (auto simp: realm_kept_def moves_def same_caps_def)
    qed
  qed
qed (auto simp: append_reserved_geometry_def kept_refl)

section \<open>Syncing and committing\<close>

lemma realm_sync_kept: "realm_kept r (snd (realm_sync answer key r))"
  by (auto simp: realm_sync_def sync_pane_def kept_refl split: option.splits prod.splits if_splits
    intro!: invalidated_kept kept_stays [OF put_stays])

lemma verified_sequence:
  "verify_committed unmarshal incarnation p expected rd = Some c \<Longrightarrow> vc_committed_sequence c = jr_sequence expected"
  by (auto simp: verify_committed_def split: option.splits prod.splits if_splits)

lemma advance_ok:
  assumes "advance_committed unmarshal incarnation io r p disk = (err, p', disk')" "pane_ok file p"
    and "len disk = at_or 0 len file"
  shows "pane_ok (map_option (\<lambda>_. disk') file) p' \<and> same_holds p p'"
proof -
  note d = assms(1) [unfolded advance_committed_def]
  have same: "same_holds p (invalidate_pane reason p)" for reason by (simp add: same_holds_def)
  have keep: "pane_ok (map_option (\<lambda>_. disk) file) p"
    using assms(2,3) by (cases "file") (simp_all add: pane_ok_def)
  show ?thesis
  proof (cases "pj_state p \<noteq> EligibilityContinuous \<or> pj_last p \<noteq> r \<or> jr_sequence r \<noteq> pj_sequence p
      \<or> jr_sequence r \<le> pj_committed_sequence p \<or> jr_end r \<noteq> pj_end p")
    case True
    then have "disk' = disk" "p' = p \<or> p' = invalidate_pane ReasonCorruptJournal p" using d by (auto split: if_splits)
    then show ?thesis using keep pane_ok_invalidate [OF keep] same by (auto simp: same_holds_def)
  next
    case False
    then have live: "pj_state p = EligibilityContinuous" "pj_last p = r" "pj_committed_sequence p < pj_sequence p"
      "jr_sequence r = pj_sequence p" by auto
    then have h: "length (jr_hash r) = 32" and room: "at_or 0 len file + int commit_fixed \<le> pj_physical p"
      using assms(2) by (auto simp: pane_ok_def commit_due_def)
    obtain werr d2 where w: "write_all (ci_writes io) (encode_commit r) disk = (werr, d2)" by fastforce
    have "len d2 \<le> len disk + int commit_fixed" using write_all_len [OF w] h by (simp add: len_def)
    then have f: "at_or 0 len (map_option (\<lambda>_. d2) file) \<le> pj_physical p"
      using assms(3) room physical_nonneg [OF assms(2)] by (auto simp: at_or_def split: option.splits)
    let ?p1 = "p\<lparr>pj_stored := pj_stored p + int commit_fixed\<rparr>"
    have inv: "pane_ok (map_option (\<lambda>_. d2) file) (invalidate_pane reason q) \<and> same_holds p (invalidate_pane reason q)"
      if "q = p \<or> q = ?p1" for reason q
      using that f assms(2) by (auto simp: pane_ok_def same_holds_def)
    show ?thesis
    proof (cases "werr \<noteq> None \<or> ci_sync io \<noteq> None")
      case True
      then have "p' = invalidate_pane ReasonENOSPC p" "disk' = d2" using d w False by auto
      then show ?thesis using inv by simp
    next
      case ok: False
      show ?thesis
      proof (cases "verify_committed unmarshal incarnation ?p1 r (read_back (ci_read io) ?p1 d2)")
        case None
        then have "p' = invalidate_pane ReasonCorruptJournal ?p1" "disk' = d2" using d w False ok by (auto simp: Let_def)
        then show ?thesis using inv by simp
      next
        case (Some c)
        then have "p' = ?p1\<lparr>pj_verified := c, pj_committed := vc_committed c,
            pj_committed_sequence := vc_committed_sequence c, pj_pending := []\<rparr>" "disk' = d2" using d w False ok by (auto simp: Let_def)
        then show ?thesis using f assms(2) live verified_sequence [OF Some] by (auto simp: pane_ok_def same_holds_def commit_due_def)
      qed
    qed
  qed
qed

lemma realm_advance_kept: "realm_kept r (snd (realm_advance_committed unmarshal io key record_key rec r))"
proof (cases "pane_at key r")
  case None
  then show ?thesis by (simp add: realm_advance_committed_def kept_refl)
next
  case (Some p)
  obtain err p1 disk where a: "advance_committed unmarshal (jo_incarnation (rl_options r)) io rec p (file_at key r) = (err, p1, disk)"
    by (cases "advance_committed unmarshal (jo_incarnation (rl_options r)) io rec p (file_at key r)")
  show ?thesis
  proof (cases "pj_state p \<noteq> EligibilityContinuous \<or> rl_closed r \<or> record_key \<noteq> key")
    case True
    then show ?thesis using Some kept_refl invalidated_kept [OF Some] by (auto simp: realm_advance_committed_def)
  next
    case False
    then have e: "snd (realm_advance_committed unmarshal io key record_key rec r) = put_pane key p1 (grow_file key disk r)"
      using Some a by (simp add: realm_advance_committed_def)
    have "stays r (put_pane key p1 (grow_file key disk r))"
    proof (rule moves_if_wf)
      assume wf: "realm_wf r"
      have sh: "same_holds p p1" using advance_ok [OF a wf_pane [OF wf Some] file_at_len] by simp
      have "moves (rl_total (grow_file key disk r) - rl_total r + (rl_reserved (grow_file key disk r) - rl_reserved r))
        (rl_reserved (grow_file key disk r) - rl_reserved r - (holds_logical p1 - holds_logical p))
        (rl_physical_total (grow_file key disk r) - rl_physical_total r + (rl_physical_reserved (grow_file key disk r) - rl_physical_reserved r))
        (rl_physical_reserved (grow_file key disk r) - rl_physical_reserved r - (holds_physical p1 - holds_physical p)) r
        (put_pane key p1 (grow_file key disk r))"
        by (rule put_moves_file [OF _ Some grow_disk(2)])
          (use advance_ok [OF a _ file_at_len] sh in \<open>simp_all add: same_but_totals_def grow_disk(1) same_holds_def\<close>)
      then show "stays r (put_pane key p1 (grow_file key disk r))" using same_holds_sums [OF sh] by simp
    qed
    then show ?thesis unfolding e by (rule kept_stays)
  qed
qed

end
