(* ===== verification/Journal_Bounds.thy ===== *)
theory Journal_Bounds
  imports Journal_Caps
begin

text \<open>
  Adoptions, rotations, retirement and recovery keep both ledgers of a realm, and so does every run of its
  operations from the scan on: the caps bound what is charged and reserved, the reservations that have an
  owner are backed, and the bytes in the directory are charged.
\<close>

section \<open>Taking over\<close>

lemma retire_slot_stays:
  assumes "\<And>p. pane_at key r = Some p \<Longrightarrow> pj_state p \<noteq> EligibilityContinuous"
  shows "stays r (retire_slot key r)"
  using assms unfolding retire_slot_def
  by (auto split: option.split simp: moves_refl pane_ok_def commit_due_def holds_logical_def holds_physical_def intro!: put_stays)

lemma retire_recovered_one_stays: "stays (snd s) (snd (retire_recovered_one current source transfer_one s rv))"
proof (cases s)
  case (Pair transferred r)
  show ?thesis
  proof (cases "recovered_owner current source r rv")
    case True
    then have "stays r (retire_slot (rv_key rv) r)"
      by (intro retire_slot_stays) (auto simp: recovered_owner_def Let_def)
    then show ?thesis using True Pair stays_trans [OF _ retire_stays]
      by (auto simp: retire_recovered_one_def Let_def)
  qed (simp add: Pair retire_recovered_one_def moves_refl)
qed

lemma retire_recovered_stays: "stays r (snd (retire_recovered current source transfer_one r))"
proof -
  have "stays (snd s) (snd (foldl (retire_recovered_one current source transfer_one) s rvs))" for s rvs
  proof (induction rvs arbitrary: s)
    case (Cons rv rvs)
    then show ?case
      using stays_trans [OF retire_recovered_one_stays [of s current source transfer_one rv]] by simp
  qed (simp add: moves_refl)
  from this [of "(False, r)"] show ?thesis by (simp add: retire_recovered_def)
qed

lemma retire_slot_absent: "pane_at i r = None \<Longrightarrow> pane_at i (retire_slot key r) = None"
  by (auto simp: retire_slot_def split: option.split)

lemma retire_recovered_absent: "pane_at i r = None \<Longrightarrow> pane_at i (snd (retire_recovered current source transfer_one r)) = None"
proof -
  have "pane_at i (snd s) = None \<Longrightarrow> pane_at i (snd (foldl (retire_recovered_one current source transfer_one) s rvs)) = None" for s rvs
  proof (induction rvs arbitrary: s)
    case (Cons rv rvs)
    have "pane_at i (snd (retire_recovered_one current source transfer_one s rv)) = None"
      using Cons.prems by (cases s) (simp add: retire_recovered_one_def Let_def retire_slot_absent)
    from Cons.IH [OF this] show ?case by simp
  qed simp
  from this [of "(False, r)"] show "pane_at i r = None \<Longrightarrow> ?thesis" by (simp add: retire_recovered_def)
qed

lemma adoption_slot_stays: "adoption_slot key source moved r = (ok, r') \<Longrightarrow> stays r r'"
  using retire_recovered_stays [of r key source True] moves_refl [of r]
  by (auto simp: adoption_slot_def split: if_splits prod.splits bool.splits intro: stays_trans [OF _ reserve_stays])

lemma adoption_slot_absent: "adoption_slot key source moved r = (ok, r') \<Longrightarrow> pane_at i r = None \<Longrightarrow> pane_at i r' = None"
  using retire_recovered_absent [of i r key source True]
  by (auto simp: adoption_slot_def reserve_at split: if_splits prod.splits bool.splits)

lemma newer_failed_live:
  "foldl (newer_failed current source r) selected es = Some key \<Longrightarrow>
    selected = Some key \<or> (\<exists>p. (key, p) \<in> set es \<and> settled_failed_candidate r key p)"
proof (induction es arbitrary: selected)
  case (Cons e es)
  from Cons.IH [of "newer_failed current source r selected e"] Cons.prems
  show ?case by (auto simp: newer_failed_def split: prod.splits option.splits if_splits)
qed simp

lemma transfer_moves:
  assumes "transfer_settled_failed unlink current source r = (res, r')" "realm_wf r"
  shows "case res of Inl _ \<Rightarrow> stays r r' | Inr (l, f, moved) \<Rightarrow> moves (- l) 0 (- f) 0 r r' \<and> 0 \<le> l \<and> 0 \<le> f"
    "pane_at i r = None \<Longrightarrow> pane_at i r' = None"
proof -
  have "(case res of Inl _ \<Rightarrow> stays r r' | Inr (l, f, moved) \<Rightarrow> moves (- l) 0 (- f) 0 r r' \<and> 0 \<le> l \<and> 0 \<le> f)
      \<and> (pane_at i r = None \<longrightarrow> pane_at i r' = None)"
  proof (cases "source = no_source \<or> foldl (newer_failed current source r) None (rl_panes r) = None")
    case True
    then have "res = Inr (0, 0, False)" "r' = r"
      using assms(1) by (auto simp: transfer_settled_failed_def split: if_splits)
    then show ?thesis by (simp add: moves_refl)
  next
    case False
    then obtain key where key: "foldl (newer_failed current source r) None (rl_panes r) = Some key" by auto
    from newer_failed_live [OF this] obtain p where "(key, p) \<in> set (rl_panes r)" "settled_failed_candidate r key p" by auto
    then have p: "pane_at key r = Some p" "pj_state p \<noteq> EligibilityContinuous"
      using assms(2) by (auto simp: realm_wf_def keyed_mem pane_at_def settled_failed_candidate_def)
    obtain ok r1 where s: "settle_pane_file unlink True key r = (ok, r1)" by fastforce
    from settle_moves [OF p s] settle_keeps_absent [of i r unlink True key] s show ?thesis
      using False key p assms(1) charges_nonneg [OF assms(2) p(1)]
      by (cases ok) (auto simp: transfer_settled_failed_def)
  qed
  then show "case res of Inl _ \<Rightarrow> stays r r' | Inr (l, f, moved) \<Rightarrow> moves (- l) 0 (- f) 0 r r' \<and> 0 \<le> l \<and> 0 \<le> f"
    "pane_at i r = None \<Longrightarrow> pane_at i r' = None" by simp_all
qed

section \<open>Adoptions\<close>

lemma allowance_moves: "moves (- l) (- l) (- f) (- f) r (release_allowance l f r)"
  using moves_stays [OF reserve_moves [of "- l" "- f" r] release_stays] by (simp add: release_allowance_def)

lemma release_at [simp]: "pane_at i (release_allowance l f r) = pane_at i r"
  by (simp add: release_allowance_def pane_at_def with_ledger_def)

text \<open>
  The successor is begun from a realm whose reserved totals hold the allowance (\<open>l\<close>, \<open>f\<close>) without an owner
  yet: it hands the allowance to the generation or releases it.
\<close>

lemma begin_adopted_moves:
  assumes "begin_adopted io key initial l f r = (res, r')" "pane_at key r = None" "0 \<le> l" "0 \<le> f"
  shows "\<exists>x y. moves x (- l) y (- f) r r' \<and> x \<le> 0 \<and> (y \<le> 0 \<or> physical_load r + y \<le> rl_physical_cap r)"
proof (cases "encode_header (new_header key (jo_incarnation (rl_options r)) (Some initial) OriginReconstructed)")
  case (Inl e)
  then have "r' = release_allowance l f r" using assms(1) by (simp add: begin_adopted_def)
  then show ?thesis using allowance_moves [of l f r] assms(3,4)
    by (intro exI [of _ "- l"] exI [of _ "- f"]) simp
next
  case (Inr header)
  define held where "held = (if f \<ge> len header then len header else 0)"
  define g where "g = (if f \<ge> len header then f else 0)"
  define r1 where "r1 = (if f \<ge> len header then r else r\<lparr>rl_physical_reserved := rl_physical_reserved r - f\<rparr>)"
  have h0: "0 \<le> len header" by (simp add: len_def)
  have m1: "moves 0 0 (g - f) (g - f) r r1"
    using moves_refl [of r] reserve_moves [of 0 "- f" r] by (auto simp: g_def r1_def)
  have at1: "pane_at key r1 = None" using assms(2) by (simp add: r1_def pane_at_def)
  have load1: "physical_load r1 = physical_load r + (g - f)" "rl_physical_cap r1 = rl_physical_cap r"
    by (auto simp: r1_def g_def physical_load_def)
  obtain err r2 where c: "create_pane_with_header io key (Some initial) OriginReconstructed header (held > 0) r1 = (err, r2)"
    by fastforce
  define x where "x = rl_physical_total r2 - rl_physical_total r1"
  have cm: "moves 0 0 x 0 r1 r2" "0 \<le> x" "x \<le> len header" "\<not> held > 0 \<Longrightarrow> room_kept r1 x"
      "err = None \<Longrightarrow> x = len header \<and> pane_at key r2 = Some (created_pane key (fi_stream io) (Some initial) OriginReconstructed header)"
    using create_moves [OF c at1] by (auto simp: x_def)
  have m2: "moves 0 0 (g - f + x) (g - f) r r2" using moves_trans [OF m1 cm(1)] by simp
  have zero: "held = 0 \<or> held = len header \<and> g = f" by (auto simp: held_def g_def)
  have room: "x - held \<le> 0 \<or> physical_load r + (g - f) + x \<le> rl_physical_cap r"
  proof (cases "held > 0")
    case True
    then show ?thesis using zero cm(3) by auto
  next
    case False
    then have "held = 0" using zero h0 by auto
    with cm(4) [OF False] load1 show ?thesis by (auto simp: room_kept_def)
  qed
  have gf: "g - f \<le> 0" "0 \<le> g" "held \<le> g" and "0 \<le> held" using assms(4) h0 by (auto simp: g_def held_def)
  show ?thesis
  proof (cases err)
    case (Some e)
    define paid where "paid = (if x > 0 \<and> held > 0 then min x held else 0)"
    let ?r3 = "r2\<lparr>rl_physical_reserved := rl_physical_reserved r2 - paid\<rparr>"
    have r': "r' = release_allowance l (g - paid) ?r3"
      using assms(1) Inr c Some by (simp add: begin_adopted_def Let_def r1_def x_def paid_def held_def g_def split: if_splits)
    have "moves 0 0 (- paid) (- paid) r2 ?r3" using reserve_moves [of 0 "- paid" r2] by simp
    from moves_trans [OF moves_trans [OF m2 this] allowance_moves [of l "g - paid"]]
    have "moves (- l) (- l) (x - f) (- f) r r'" unfolding r' by (simp add: algebra_simps)
    moreover have "x - f \<le> 0 \<or> physical_load r + (x - f) \<le> rl_physical_cap r"
      using room gf by auto
    ultimately show ?thesis using assms(3) by (intro exI [of _ "- l"] exI [of _ "x - f"]) simp
  next
    case None
    let ?p = "created_pane key (fi_stream io) (Some initial) OriginReconstructed header"
    let ?q = "?p\<lparr>pj_adoption_logical := l, pj_adoption_physical := g - held,
        pj_reserved_charge := pj_reserved_charge ?p + l, pj_physical_reserved := pj_physical_reserved ?p + (g - held)\<rparr>"
    let ?r3 = "r2\<lparr>rl_adoptions := rl_adoptions r2 @ [\<lparr>ad_key = key, ad_held = True, ad_settled = False\<rparr>]\<rparr>"
    let ?r4 = "r2\<lparr>rl_physical_reserved := rl_physical_reserved r2 - held,
        rl_adoptions := rl_adoptions r2 @ [\<lparr>ad_key = key, ad_held = True, ad_settled = False\<rparr>]\<rparr>"
    have at2: "pane_at key ?r3 = Some ?p" using cm(5) [OF None] by (simp add: pane_at_def)
    have r': "r' = put_pane key ?q ?r4"
      using assms(1) Inr c None cm(5) [OF None] by (simp add: begin_adopted_def Let_def r1_def held_def g_def split: if_splits)
    have "moves 0 (- l) (- held) (- g) ?r3 (put_pane key ?q ?r4)"
      by (rule put_moves [OF _ at2])
        (use assms(3) gf in \<open>simp_all add: same_but_totals_def same_caps_def pane_ok_def commit_due_def holds_logical_def holds_physical_def
          created_pane_def no_pane_def\<close>)
    from moves_trans [OF moves_stays [OF m2 adoptions_stays(1)] this]
    have "moves 0 (- l) (g - f + x - held) (- f) r r'" unfolding r' by (simp add: algebra_simps)
    moreover have "g - f + x - held \<le> 0 \<or> physical_load r + (g - f + x - held) \<le> rl_physical_cap r"
      using room gf \<open>0 \<le> held\<close> by auto
    ultimately show ?thesis by (intro exI [of _ 0] exI [of _ "g - f + x - held"]) simp
  qed
qed

lemma begin_for_source_moves:
  assumes "begin_for_source io key initial source l f r = (res, r')" "pane_at key r = None" "0 \<le> l" "0 \<le> f"
  shows "\<exists>x y. moves x (- l) y (- f) r r' \<and> x \<le> 0 \<and> (y \<le> 0 \<or> physical_load r + y \<le> rl_physical_cap r)"
proof (cases "source = no_source")
  case True
  then show ?thesis using begin_adopted_moves [OF _ assms(2-4)] assms(1) by (simp add: begin_for_source_def)
next
  case False
  obtain err quota where q: "reserve_source key source (rl_source r) = (err, quota)" by fastforce
  show ?thesis
  proof (cases err)
    case (Some e)
    then have "r' = release_allowance l f r" using assms(1) False q by (simp add: begin_for_source_def)
    then show ?thesis using allowance_moves [of l f r] assms(3,4)
      by (intro exI [of _ "- l"] exI [of _ "- f"]) simp
  next
    case None
    let ?r0 = "r\<lparr>rl_source := quota\<rparr>"
    obtain b r1 where b: "begin_adopted io key initial l f ?r0 = (b, r1)" by fastforce
    have r': "r' = r1\<lparr>rl_source := cancel_source_reservation key (rl_source r1)\<rparr>"
      using assms(1) False q None b by (simp add: begin_for_source_def)
    have "pane_at key ?r0 = None" using assms(2) by (simp add: pane_at_def)
    from begin_adopted_moves [OF b this assms(3,4)] obtain x y where
      m: "moves x (- l) y (- f) ?r0 r1" "x \<le> 0" "y \<le> 0 \<or> physical_load ?r0 + y \<le> rl_physical_cap ?r0" by auto
    have "moves x (- l) y (- f) r r'" unfolding r'
      by (rule moves_stays [OF stays_moves [OF source_stays m(1)] source_stays])
    then show ?thesis using m(2,3) by (intro exI [of _ x] exI [of _ y]) (simp add: physical_load_def)
  qed
qed

lemma begin_live_kept: "realm_kept r (snd (begin_live key initial source p r))"
proof -
  have "stays r (r\<lparr>rl_source := q, rl_adoptions := xs\<rparr>)" for q xs
    using stays_trans [OF source_stays [of r q] adoptions_stays(1) [of "r\<lparr>rl_source := q\<rparr>" xs]] by simp
  then show ?thesis
    using adoptions_stays(1) by (auto simp: begin_live_def kept_refl split: option.split prod.split intro!: kept_stays)
qed

text \<open>
  A begun adoption: what the superseded generations give back (\<open>l1 + l2\<close>) is at least what is reserved for the
  successor, so the loads do not grow, except by a header that had room.
\<close>

lemma begin_reconstructed_kept:
  assumes "0 \<le> jo_pane_cap (rl_options r)" "0 \<le> rl_pane_physical_cap r"
  shows "realm_kept r (snd (begin_reconstructed io key initial source r))"
proof (rule kept_if_wf)
  assume wf: "realm_wf r"
  show "realm_kept r (snd (begin_reconstructed io key initial source r))"
  proof (cases "rl_closed r \<or> \<not> geometry_valid initial \<or> pane_at key r \<noteq> None")
    case True
    then show ?thesis using kept_refl begin_live_kept by (auto simp: begin_reconstructed_def)
  next
    case False
    obtain t r1 where t: "transfer_settled_failed (fi_unlink io) key source r = (t, r1)" by fastforce
    note tm = transfer_moves [OF t wf]
    show ?thesis
    proof (cases t)
      case (Inl e)
      then show ?thesis using tm(1) False t by (simp add: begin_reconstructed_def kept_stays)
    next
      case (Inr v)
      obtain l1 f1 moved where v: "v = (l1, f1, moved)" by (cases v)
      have m1: "moves (- l1) 0 (- f1) 0 r r1" "0 \<le> l1" "0 \<le> f1" using tm(1) Inr v by simp_all
      have n1: "pane_at key r1 = None" using tm(2) False by blast
      obtain ok r2 where a: "adoption_slot key source moved r1 = (ok, r2)" by fastforce
      have m2: "moves (- l1) 0 (- f1) 0 r r2" using m1(1) adoption_slot_stays [OF a] by (rule moves_stays)
      have n2: "pane_at key r2 = None" by (rule adoption_slot_absent [OF a n1])
      show ?thesis
      proof (cases ok)
        case no: False
        then show ?thesis using False t Inr v a kept_moves [OF m2] m1(2,3) by (simp add: begin_reconstructed_def)
      next
        case True
        obtain l2 f2 r3 where s: "sweep_retired_session (fi_unlink io) key r2 = (l2, f2, r3)"
          by (cases "sweep_retired_session (fi_unlink io) key r2")
        have m3: "moves (- l2) 0 (- f2) 0 r2 r3" "0 \<le> l2" "0 \<le> f2"
          using sweep_moves [OF s moves_wf [OF m2 wf]] by simp_all
        have n3: "pane_at key r3 = None" by (rule sweep_absent [OF s n2])
        have m: "moves (- l1 - l2) 0 (- f1 - f2) 0 r r3" using moves_trans [OF m2 m3(1)] by simp
        have caps: "rl_options r3 = rl_options r" "rl_pane_physical_cap r3 = rl_pane_physical_cap r" "rl_physical_cap r3 = rl_physical_cap r"
          using m wf by (simp_all add: moves_def same_caps_def)
        define l where "l = min (l2 + l1) (jo_pane_cap (rl_options r3))"
        define f where "f = min (f2 + f1) (rl_pane_physical_cap r3)"
        let ?r4 = "r3\<lparr>rl_reserved := rl_reserved r3 + l, rl_physical_reserved := rl_physical_reserved r3 + f\<rparr>"
        have pos: "0 \<le> l" "0 \<le> f" "l \<le> l1 + l2" "f \<le> f1 + f2"
          using m1(2,3) m3(2,3) assms caps by (auto simp: l_def f_def)
        have m4: "moves (l - l1 - l2) l (f - f1 - f2) f r ?r4"
          using moves_trans [OF m reserve_moves [of l f r3]] by (simp add: algebra_simps)
        have n4: "pane_at key ?r4 = None" using n3 by (simp add: pane_at_def)
        obtain b r5 where b: "begin_for_source io key initial source l f ?r4 = (b, r5)" by fastforce
        from begin_for_source_moves [OF b n4 pos(1,2)] obtain x y where
          m5: "moves x (- l) y (- f) ?r4 r5" "x \<le> 0" "y \<le> 0 \<or> physical_load ?r4 + y \<le> rl_physical_cap ?r4" by auto
        have res: "snd (begin_reconstructed io key initial source r) = r5"
          using False t Inr v a True s b by (simp add: begin_reconstructed_def Let_def l_def f_def)
        have k4: "physical_load ?r4 \<le> physical_load r + (f - f1 - f2)" using m4 wf by (simp add: moves_def)
        have m6: "moves (l - l1 - l2 + x) 0 (f - f1 - f2 + y) 0 r r5" using moves_trans [OF m4 m5(1)] by simp
        show ?thesis unfolding res
        proof (cases "y \<le> 0")
          case True
          then show "realm_kept r r5" using kept_moves [OF m6] pos m5(2) by simp
        next
          case False
          then have "physical_load ?r4 + y \<le> rl_physical_cap r" using m5(3) caps by simp
          moreover have "physical_load r5 \<le> physical_load ?r4 + y" using m5(1) moves_wf [OF m4 wf] by (simp add: moves_def)
          ultimately have "physical_load r5 \<le> rl_physical_cap r" by simp
          then show "realm_kept r r5" using m6 pos m5(2) unfolding realm_kept_def moves_def by auto
        qed
      qed
    qed
  qed
qed

lemma release_adoption_stays: "stays r (release_adoption_allowance key r)"
proof (rule moves_if_wf)
  assume wf: "realm_wf r"
  show "stays r (release_adoption_allowance key r)"
  proof (cases "pane_at key r")
    case (Some p)
    have "pane_ok (map_of (rl_disk r) key) p" by (rule wf_pane [OF wf Some])
    then have n: "0 \<le> pj_adoption_logical p" "0 \<le> pj_adoption_physical p" by (simp_all add: pane_ok_def)
    show ?thesis unfolding release_adoption_allowance_def Some option.case
      by (rule put_moves [OF _ Some])
        (use n in \<open>simp_all add: same_but_totals_def same_caps_def pane_ok_def commit_due_def holds_logical_def holds_physical_def\<close>)
  qed (simp add: release_adoption_allowance_def moves_refl)
qed

lemma settle_adoption_stays: "stays r (settle_adoption i r)"
  unfolding settle_adoption_def by (rule adoptions_stays)

lemma adoption_commit_stays: "stays r (adoption_commit unlink i r)"
  using stays_trans [OF stays_trans [OF settle_adoption_stays release_adoption_stays] sweep_stays]
  by (auto simp: adoption_commit_def Let_def moves_refl settle_adoption_stays)

lemma retired_ok: "pane_ok file p \<Longrightarrow> pane_ok file ((invalidate_pane reason p)\<lparr>pj_slot_retired := True\<rparr>)"
  using pane_ok_invalidate [of "file" p reason] by (simp add: pane_ok_def commit_due_def)

lemma retired_holds:
  "holds_logical ((invalidate_pane reason p)\<lparr>pj_slot_retired := True\<rparr>) = holds_logical p"
  "holds_physical ((invalidate_pane reason p)\<lparr>pj_slot_retired := True\<rparr>) = holds_physical p"
  by (simp_all add: holds_logical_def holds_physical_def)

lemma entomb_stays: "stays r (entomb reason key r)"
  unfolding entomb_def
  by (auto split: option.split simp: moves_refl retired_holds intro!: put_stays retired_ok)

lemma entombed: "pane_at key (entomb reason key r) = Some p \<Longrightarrow> pj_state p \<noteq> EligibilityContinuous"
  by (auto simp: entomb_def split: option.splits)

lemma tomb_stays: "stays r (snd (settle_pane_file unlink forget key (entomb reason key r)))"
  by (rule stays_trans [OF entomb_stays settle_stays]) (rule entombed)

lemma adoption_abort_stays: "stays r (adoption_abort unlink i r)"
  using stays_trans [OF stays_trans [OF stays_trans [OF settle_adoption_stays release_stays] release_adoption_stays] tomb_stays]
  by (auto simp: adoption_abort_def Let_def moves_refl settle_adoption_stays)

section \<open>Rotations\<close>

lemma release_rollback_stays: "stays r (release_rotation_rollback key r)"
proof (rule moves_if_wf)
  assume wf: "realm_wf r"
  show "stays r (release_rotation_rollback key r)"
  proof (cases "pane_at key r")
    case (Some p)
    have "pane_ok (map_of (rl_disk r) key) p" by (rule wf_pane [OF wf Some])
    then have n: "0 \<le> pj_rollback_logical p" "0 \<le> pj_rollback_physical p" by (simp_all add: pane_ok_def)
    show ?thesis
    proof (cases "pj_capacity_held p")
      case True
      show ?thesis
      proof (cases "pj_rollback_reserved p")
        case t: True
        show ?thesis unfolding release_rotation_rollback_def Some option.case Let_def using True t
          by (simp, intro put_moves [OF _ Some])
            (use n in \<open>simp_all add: same_but_totals_def same_caps_def pane_ok_def commit_due_def holds_logical_def holds_physical_def\<close>)
      next
        case False
        then show ?thesis unfolding release_rotation_rollback_def Some option.case Let_def using True
          by (simp, intro put_stays [OF Some])
            (simp_all add: pane_ok_def commit_due_def holds_logical_def holds_physical_def)
      qed
    qed (simp add: release_rotation_rollback_def Some moves_refl)
  qed (simp add: release_rotation_rollback_def moves_refl)
qed

lemma release_forward_stays: "stays r (release_rotation_forward key r)"
proof (rule moves_if_wf)
  assume wf: "realm_wf r"
  show "stays r (release_rotation_forward key r)"
  proof (cases "pane_at key r")
    case (Some p)
    have "pane_ok (map_of (rl_disk r) key) p" by (rule wf_pane [OF wf Some])
    then have n: "0 \<le> pj_forward_logical p" "0 \<le> pj_forward_physical p" by (simp_all add: pane_ok_def)
    show ?thesis
    proof (cases "pj_forward_logical p = 0 \<and> pj_forward_physical p = 0 \<and> pj_forward_records p = 0")
      case False
      show ?thesis unfolding release_rotation_forward_def Some option.case if_not_P [OF False]
        by (rule put_moves [OF _ Some])
          (use n in \<open>simp_all add: same_but_totals_def same_caps_def pane_ok_def commit_due_def holds_logical_def holds_physical_def\<close>)
    qed (simp add: release_rotation_forward_def Some moves_refl)
  qed (simp add: release_rotation_forward_def moves_refl)
qed

lemma release_pane_stays: "stays r (release_rotation_pane_reservations key r)"
  unfolding release_rotation_pane_reservations_def by (rule stays_trans [OF release_rollback_stays release_forward_stays])

lemma arm_stays: "stays r (arm_rotation_rollback key r)"
  unfolding arm_rotation_rollback_def
  by (auto split: option.split simp: moves_refl pane_ok_def commit_due_def holds_logical_def holds_physical_def intro!: put_stays)

lemma arm_kept: "realm_kept r (snd (arm_rollback i r))"
  by (auto simp: arm_rollback_def kept_refl split: option.split intro!: kept_stays arm_stays)

lemma capacity_at_Some: "capacity_at i r = Some c \<longleftrightarrow> i < length (rl_capacities r) \<and> rl_capacities r ! i = c"
  by (auto simp: capacity_at_def)

lemma drop_capacity_stays: "stays r (drop_capacity held i r)"
proof (rule moves_if_wf)
  assume wf: "realm_wf r"
  show "stays r (drop_capacity held i r)"
  proof (cases "capacity_at i r")
    case (Some c)
    then have c: "i < length (rl_capacities r)" "rl_capacities r ! i = c" by (simp_all add: capacity_at_Some)
    let ?c = "c\<lparr>rc_active := False, rc_held := rc_held c \<and> held\<rparr>"
    have ok: "capacity_ok c" using wf c by (auto simp: realm_wf_def)
    have "moves 0 (capacity_logical c - capacity_logical ?c) 0 (capacity_physical c - capacity_physical ?c) r (set_capacity i ?c r)"
      using capacity_moves [OF c(1), of ?c] c(2) by (simp add: capacity_ok_def)
    moreover have "0 \<le> capacity_logical c - capacity_logical ?c" "0 \<le> capacity_physical c - capacity_physical ?c"
      using ok by (auto simp: capacity_ok_def capacity_logical_def capacity_physical_def rotation_header_physical_reserve_def
        header_limit_def split: if_splits)
    ultimately show ?thesis using Some by (auto simp: drop_capacity_def intro: moves_weaken)
  qed (simp add: drop_capacity_def moves_refl)
qed

lemma release_rollback_caps: "rl_capacities (release_rotation_rollback key r) = rl_capacities r"
  by (auto simp: release_rotation_rollback_def Let_def put_pane_def split: option.split)

lemma release_capacity_stays: "stays r (release_capacity i r)"
proof (rule moves_if_wf)
  assume wf: "realm_wf r"
  show "stays r (release_capacity i r)"
  proof (cases "capacity_at i r")
    case (Some c)
    then have c: "i < length (rl_capacities r)" "rl_capacities r ! i = c" by (simp_all add: capacity_at_Some)
    show ?thesis
    proof (cases "\<not> rc_held c \<or> rc_active c")
      case True
      then show ?thesis using Some by (auto simp: release_capacity_def moves_refl)
    next
      case False
      let ?c = "c\<lparr>rc_held := False\<rparr>" and ?r1 = "release_rotation_rollback (rc_predecessor c) (set_capacity i (c\<lparr>rc_held := False\<rparr>) r)"
      have ok: "capacity_ok c" using wf c by (auto simp: realm_wf_def)
      have "moves 0 (capacity_logical c - capacity_logical ?c) 0 (capacity_physical c - capacity_physical ?c) r (set_capacity i ?c r)"
        using capacity_moves [OF c(1), of ?c] c(2) by (simp add: capacity_ok_def)
      from moves_stays [OF this release_rollback_stays]
      have m: "moves 0 (capacity_logical c) 0 (capacity_physical c) r ?r1"
        by (simp add: capacity_logical_def [of ?c] capacity_physical_def [of ?c])
      show ?thesis
      proof (cases "rc_materialized c")
        case True
        with m show ?thesis using Some False by (simp add: release_capacity_def Let_def capacity_logical_def capacity_physical_def)
      next
        case nm: False
        then have p: "0 \<le> rc_successor_logical c" "0 \<le> rc_successor_physical c"
          using ok False by (auto simp: capacity_ok_def rotation_header_physical_reserve_def header_limit_def split: if_splits)
        let ?r2 = "?r1\<lparr>rl_reserved := rl_reserved ?r1 + (- rc_successor_logical c),
            rl_physical_reserved := rl_physical_reserved ?r1 + (- rc_successor_physical c)\<rparr>"
        have "moves (- rc_successor_logical c) 0 (- rc_successor_physical c) 0 r ?r2"
          using moves_trans [OF m reserve_moves [of "- rc_successor_logical c" "- rc_successor_physical c" ?r1]] nm False
          by (simp add: capacity_logical_def capacity_physical_def)
        then have "stays r ?r2" by (rule moves_weaken) (use p in simp_all)
        from stays_trans [OF this release_stays] show ?thesis using Some False nm
          by (simp add: release_capacity_def Let_def)
      qed
    qed
  qed (simp add: release_capacity_def moves_refl)
qed

lemma needs_nonneg: "0 \<le> rotation_pending_cap_bytes" "0 \<le> rollback_physical_need" "0 \<le> successor_logical_need"
    "0 \<le> rotation_header_physical_reserve" "rotation_header_physical_reserve \<le> successor_physical_need"
  by (simp_all add: rotation_pending_cap_bytes_def rollback_physical_need_def successor_logical_need_def
    rotation_header_physical_reserve_def successor_physical_need_def rotation_replay_physical_def header_limit_def
    adoption_bootstrap_cap_bytes_def rotation_pending_cap_records_def adoption_bootstrap_cap_records_def
    geometry_record_cost_def)

lemma begin_rotation_capacity_kept: "realm_kept r (snd (begin_rotation_capacity predecessor r))"
proof (cases "pane_at predecessor r")
  case None
  then show ?thesis by (simp add: begin_rotation_capacity_def kept_refl)
next
  case (Some p)
  show ?thesis
  proof (cases "rl_closed r \<or> \<not> pj_admitted p \<or> pj_state p \<noteq> EligibilityContinuous \<or> pj_slot_retired p \<or> pj_capacity_held p
      \<or> \<not> fst (reserve_complete_pane False (rl_retention r))")
    case True
    then have "snd (begin_rotation_capacity predecessor r) = r"
      using Some by (auto simp: begin_rotation_capacity_def split: prod.split bool.split)
    then show ?thesis by (simp add: kept_refl)
  next
    case False
    then obtain l where l: "reserve_complete_pane False (rl_retention r) = (True, l)"
      by (cases "reserve_complete_pane False (rl_retention r)") auto
    let ?r1 = "r\<lparr>rl_retention := l\<rparr>"
    have s1: "stays r ?r1" by (rule reserve_stays [OF l])
    let ?RL = rotation_pending_cap_bytes and ?RP = rollback_physical_need and ?SL = successor_logical_need and ?SP = successor_physical_need
    show ?thesis
    proof (cases "?RL + ?SL > jo_realm_cap (rl_options r) - rl_total r - rl_reserved r
        \<or> ?RP + ?SP > rl_physical_cap r - rl_physical_total r - rl_physical_reserved r
        \<or> (\<exists>e. fst (begin_rotation_capacity predecessor r) = Inl e)")
      case True
      then have "snd (begin_rotation_capacity predecessor r) = with_ledger release_complete_pane ?r1"
        using Some False l by (auto simp: begin_rotation_capacity_def Let_def split: if_splits)
      then show ?thesis using kept_stays [OF stays_trans [OF s1 release_stays]] by simp
    next
      case fits: False
      let ?q = "p\<lparr>pj_reserved_charge := pj_reserved_charge p + ?RL, pj_physical_reserved := pj_physical_reserved p + ?RP,
          pj_rollback_logical := ?RL, pj_rollback_physical := ?RP, pj_rollback_records := rotation_pending_cap_records,
          pj_rollback_reserved := True, pj_capacity_held := True\<rparr>"
      let ?c = "\<lparr>rc_predecessor = predecessor, rc_held = True, rc_attempted = False, rc_materialized = False, rc_active = False,
          rc_successor_logical = ?SL, rc_successor_physical = ?SP,
          rc_successor_records = adoption_bootstrap_cap_records + rotation_pending_cap_records\<rparr>"
      let ?r2 = "?r1\<lparr>rl_reserved := rl_reserved ?r1 + (?RL + ?SL), rl_physical_reserved := rl_physical_reserved ?r1 + (?RP + ?SP)\<rparr>"
      let ?r3 = "?r2\<lparr>rl_capacities := rl_capacities ?r2 @ [?c]\<rparr>"
      have e: "snd (begin_rotation_capacity predecessor r) = put_pane predecessor ?q ?r3"
        using Some False l fits by (auto simp: begin_rotation_capacity_def Let_def split: if_splits)
      have "capacity_ok ?c" using needs_nonneg by (simp add: capacity_ok_def)
      from moves_trans [OF stays_moves [OF s1 reserve_moves [of "?RL + ?SL" "?RP + ?SP"]] new_capacity_moves [OF this]]
      have m: "moves (?RL + ?SL) ?RL (?RP + ?SP) ?RP r ?r3" by (simp add: capacity_logical_def capacity_physical_def)
      have at: "pane_at predecessor ?r3 = Some p" using Some by (simp add: pane_at_def)
      have "moves 0 (- ?RL) 0 (- ?RP) ?r3 (put_pane predecessor ?q ?r3)"
      proof (rule moves_if_wf)
        assume "realm_wf ?r3"
        from wf_pane [OF this at] have "0 \<le> pj_rollback_logical p" "0 \<le> pj_rollback_physical p" by (simp_all add: pane_ok_def)
        then show "moves 0 (- ?RL) 0 (- ?RP) ?r3 (put_pane predecessor ?q ?r3)"
          by (intro put_moves [OF _ at])
            (use needs_nonneg in \<open>simp_all add: same_but_totals_def same_caps_def pane_ok_def commit_due_def holds_logical_def holds_physical_def\<close>)
      qed
      from moves_trans [OF m this] have "moves (?RL + ?SL) 0 (?RP + ?SP) 0 r (put_pane predecessor ?q ?r3)" by simp
      from kept_moves [OF this] show ?thesis unfolding e using fits by (simp add: logical_load_def physical_load_def)
    qed
  qed
qed

lemma header_fits: "encode_header h = Inr header \<Longrightarrow> len header \<le> rotation_header_physical_reserve"
  by (auto simp: encode_header_def Let_def rotation_header_physical_reserve_def len_def journal_magic_def split: if_splits)

lemma begin_rotated_stays: "stays r (snd (begin_rotated_pane io key initial i r))"
proof (rule moves_if_wf)
  assume wf: "realm_wf r"
  show "stays r (snd (begin_rotated_pane io key initial i r))"
  proof (cases "capacity_at i r")
    case None
    then show ?thesis by (simp add: begin_rotated_pane_def moves_refl)
  next
    case (Some c)
    then have c: "i < length (rl_capacities r)" "rl_capacities r ! i = c" by (simp_all add: capacity_at_Some)
    show ?thesis
    proof (cases "rl_closed r \<or> \<not> rc_held c \<or> rc_attempted c \<or> rc_materialized c \<or> rc_active c
        \<or> \<not> geometry_valid initial \<or> \<not> rotation_allowed key c r")
      case True
      then show ?thesis using Some by (auto simp: begin_rotated_pane_def moves_refl)
    next
      case False
      let ?H = rotation_header_physical_reserve
      have ok: "0 \<le> rc_successor_logical c" "?H \<le> rc_successor_physical c"
        using wf c False by (auto simp: realm_wf_def capacity_ok_def)
      let ?c1 = "c\<lparr>rc_attempted := True\<rparr>" and ?r1 = "set_capacity i (c\<lparr>rc_attempted := True\<rparr>) r"
      have s1: "stays r ?r1"
        using capacity_moves [OF c(1), of ?c1] c(2) ok needs_nonneg(4) False
        by (simp add: capacity_ok_def capacity_logical_def capacity_physical_def)
      have n1: "pane_at key ?r1 = None" using False by (simp add: rotation_allowed_def pane_at_def set_capacity_def)
      obtain err r2 where cr: "create_pane_with_capacity io key (Some initial) OriginRotated True ?r1 = (err, r2)" by fastforce
      define x where "x = rl_physical_total r2 - rl_physical_total ?r1"
      have cm: "moves 0 0 x 0 ?r1 r2 \<and> 0 \<le> x \<and> x \<le> ?H \<and> rl_capacities r2 = rl_capacities ?r1"
        using cr
      proof (cases rule: create_capacity_cases)
        case (unencoded e)
        then show ?thesis using needs_nonneg(4) by (simp add: x_def moves_refl)
      next
        case (made header)
        from create_moves [OF made(2) n1] header_fits [OF made(1)] show ?thesis by (auto simp: x_def)
      qed
      have m2: "moves 0 0 x 0 r r2" by (rule stays_moves [OF s1]) (use cm in simp)
      have c2: "i < length (rl_capacities r2)" "rl_capacities r2 ! i = ?c1" using cm c(1) by (simp_all add: set_capacity_def)
      show ?thesis
      proof (cases err)
        case (Some e)
        show ?thesis
        proof (cases "x > 0")
          case False2: False
          then have "x = 0" using cm by simp
          have "snd (begin_rotated_pane io key initial i r) = r2"
            using \<open>capacity_at i r = Some c\<close> False cr Some False2 by (auto simp: begin_rotated_pane_def Let_def x_def)
          then show ?thesis using m2 \<open>x = 0\<close> by simp
        next
          case True
          let ?c3 = "?c1\<lparr>rc_successor_physical := rc_successor_physical ?c1 - x\<rparr>"
          let ?r3 = "r2\<lparr>rl_physical_reserved := rl_physical_reserved r2 - x\<rparr>"
          have e: "snd (begin_rotated_pane io key initial i r) = set_capacity i ?c3 ?r3"
            using \<open>capacity_at i r = Some c\<close> False cr Some True by (auto simp: begin_rotated_pane_def Let_def x_def)
          have c3: "i < length (rl_capacities ?r3)" "rl_capacities ?r3 ! i = ?c1" using c2 by simp_all
          have "moves 0 0 (- x) (- x) r2 ?r3" using reserve_moves [of 0 "- x" r2] by simp
          moreover have "moves 0 0 0 x ?r3 (set_capacity i ?c3 ?r3)"
            using capacity_moves [OF c3(1), of ?c3] c3(2) ok cm False
            by (simp add: capacity_ok_def capacity_logical_def capacity_physical_def)
          ultimately show ?thesis unfolding e using moves_trans [OF moves_trans [OF m2]] by fastforce
        qed
      next
        case None
        from create_made [OF cr [unfolded None] n1] obtain p0 where "pane_at key r2 = Some p0" by blast
        obtain header where h: "encode_header (new_header key (jo_incarnation (rl_options ?r1)) (Some initial) OriginRotated) = Inr header"
            "create_pane_with_header io key (Some initial) OriginRotated header True ?r1 = (None, r2)"
          using cr [unfolded None] by (cases rule: create_capacity_cases) auto
        let ?p = "created_pane key (fi_stream io) (Some initial) OriginRotated header"
        from create_moves [OF h(2) n1] have p: "pane_at key r2 = Some ?p" by simp
        let ?left = "rc_successor_physical c - ?H"
        let ?q = "?p\<lparr>pj_reserved_charge := pj_reserved_charge ?p + rc_successor_logical c,
            pj_physical_reserved := pj_physical_reserved ?p + ?left, pj_forward_logical := rc_successor_logical c,
            pj_forward_physical := ?left, pj_forward_records := rc_successor_records c\<rparr>"
        let ?c3 = "?c1\<lparr>rc_successor_logical := 0, rc_successor_physical := 0, rc_successor_records := 0,
            rc_materialized := True, rc_active := True\<rparr>"
        let ?r3 = "r2\<lparr>rl_physical_reserved := rl_physical_reserved r2 + (- ?H)\<rparr>"
        let ?r4 = "?r3\<lparr>rl_rotations := rl_rotations ?r3 @ [\<lparr>rr_predecessor = rc_predecessor c, rr_successor = key, rr_capacity = i,
            rr_held = True, rr_committed = False, rr_failed = False\<rparr>]\<rparr>"
        let ?r5 = "set_capacity i ?c3 ?r4"
        have e: "snd (begin_rotated_pane io key initial i r) = put_pane key ?q ?r5"
          using \<open>capacity_at i r = Some c\<close> False cr None p
          by (simp add: begin_rotated_pane_def Let_def rotated_created_def)
        have c4: "i < length (rl_capacities ?r4)" "rl_capacities ?r4 ! i = ?c1" using c2 by simp_all
        have "moves 0 0 (- ?H) (- ?H) r2 ?r3" using reserve_moves [of 0 "- ?H" r2] by simp
        from moves_stays [OF moves_trans [OF m2 this] adoptions_stays(2)]
        have m4: "moves 0 0 (x - ?H) (- ?H) r ?r4" by simp
        have "moves 0 (rc_successor_logical c) 0 (rc_successor_physical c) ?r4 ?r5"
          using capacity_moves [OF c4(1), of ?c3] c4(2) False
          by (simp add: capacity_ok_def capacity_logical_def capacity_physical_def)
        from moves_trans [OF m4 this]
        have m5: "moves 0 (rc_successor_logical c) (x - ?H) ?left r ?r5" by (simp add: algebra_simps)
        have at5: "pane_at key ?r5 = Some ?p" using p by (simp add: pane_at_def set_capacity_def)
        have "moves 0 (- rc_successor_logical c) 0 (- ?left) ?r5 (put_pane key ?q ?r5)"
          by (rule put_moves [OF _ at5])
            (use ok in \<open>simp_all add: same_but_totals_def same_caps_def pane_ok_def commit_due_def holds_logical_def holds_physical_def
              created_pane_def no_pane_def\<close>)
        from moves_trans [OF m5 this] have "moves 0 0 (x - ?H) 0 r (put_pane key ?q ?r5)" by simp
        then show ?thesis unfolding e by (rule moves_weaken) (use cm in simp_all)
      qed
    qed
  qed
qed

lemma retire_pane_slot_stays: "stays r (retire_pane_slot reason key r)"
proof -
  have "stays r (put_pane key (invalidate_pane reason (p\<lparr>pj_slot_retired := True\<rparr>)) r)" if "pane_at key r = Some p" for p
  proof (rule put_stays [OF that])
    show "pane_ok (map_of (rl_disk r) key) p \<Longrightarrow> pane_ok (map_of (rl_disk r) key) (invalidate_pane reason (p\<lparr>pj_slot_retired := True\<rparr>))"
      using commit_due_bounds(1) [of p] by (simp add: pane_ok_def)
  qed (simp_all add: holds_logical_def holds_physical_def)
  then show ?thesis using stays_trans [OF _ release_stays] by (auto simp: retire_pane_slot_def moves_refl split: option.split)
qed

lemma set_rotation_stays: "stays r (set_rotation j t r)"
  unfolding set_rotation_def by (rule adoptions_stays)

lemma rotation_commit_stays: "stays r (rotation_commit unlink j r)"
proof (cases "rotation_at j r")
  case (Some t)
  have "stays r (sweep_session unlink (rr_successor t)
                 (retire_pane_slot ReasonSourceReplacement (rr_predecessor t)
                   (release_rotation_pane_reservations (rr_successor t)
                     (release_rotation_rollback (rr_predecessor t)
                       (drop_capacity False (rr_capacity t)
                         (set_rotation j (t\<lparr>rr_held := False, rr_committed := True\<rparr>) r))))))"
    by (intro stays_trans [OF _ sweep_stays] stays_trans [OF _ retire_pane_slot_stays] stays_trans [OF _ release_pane_stays]
      stays_trans [OF _ release_rollback_stays] stays_trans [OF _ drop_capacity_stays] set_rotation_stays)
  then show ?thesis by (simp add: rotation_commit_def Some moves_refl)
qed (simp add: rotation_commit_def moves_refl)

lemma invalidate_at_stays: "stays r (invalidate_at reason key r)"
  unfolding invalidate_at_def by (auto split: option.split simp: moves_refl intro: invalidate_stays)

lemma invalidated_at: "pane_at key (invalidate_at reason key r) = Some p \<Longrightarrow> pj_state p \<noteq> EligibilityContinuous"
  by (auto simp: invalidate_at_def split: option.splits)

lemma retire_pane_slot_live:
  "(\<And>p. pane_at key r = Some p \<Longrightarrow> pj_state p \<noteq> EligibilityContinuous) \<Longrightarrow>
    pane_at key (retire_pane_slot reason key r) = Some p \<Longrightarrow> pj_state p \<noteq> EligibilityContinuous"
  by (auto simp: retire_pane_slot_def split: option.splits if_splits)

lemma fail_committed_stays: "stays r (rotation_fail_committed unlink j r)"
proof (cases "rotation_at j r")
  case (Some t)
  let ?k = "rr_successor t" and ?r1 = "set_rotation j (t\<lparr>rr_failed := True, rr_committed := False\<rparr>) r"
  have "stays r (snd (settle_pane_file unlink True ?k
      (retire_pane_slot ReasonSourceReplacement ?k (invalidate_at ReasonSourceReplacement ?k ?r1))))"
  proof (rule stays_trans [OF _ settle_stays])
    show "stays r (retire_pane_slot ReasonSourceReplacement ?k (invalidate_at ReasonSourceReplacement ?k ?r1))"
      by (intro stays_trans [OF _ retire_pane_slot_stays] stays_trans [OF _ invalidate_at_stays] set_rotation_stays)
    show "pj_state p \<noteq> EligibilityContinuous"
      if "pane_at ?k (retire_pane_slot ReasonSourceReplacement ?k (invalidate_at ReasonSourceReplacement ?k ?r1)) = Some p" for p
      by (rule retire_pane_slot_live [OF invalidated_at that])
  qed
  then show ?thesis by (simp add: rotation_fail_committed_def Some moves_refl)
qed (simp add: rotation_fail_committed_def moves_refl)

lemma rotation_abort_stays: "stays r (rotation_abort unlink j r)"
proof (cases "rotation_at j r")
  case (Some t)
  have "stays r (snd (settle_pane_file unlink False (rr_successor t)
                 (entomb ReasonAdoptionAborted (rr_successor t)
                   (with_ledger release_complete_pane
                     (release_rotation_pane_reservations (rr_successor t)
                       (arm_rotation_rollback (rr_predecessor t)
                         (drop_capacity True (rr_capacity t)
                           (set_rotation j (t\<lparr>rr_held := False\<rparr>) r))))))))"
    by (intro stays_trans [OF _ tomb_stays] stays_trans [OF _ release_stays] stays_trans [OF _ release_pane_stays]
      stays_trans [OF _ arm_stays] stays_trans [OF _ drop_capacity_stays] set_rotation_stays)
  then show ?thesis by (simp add: rotation_abort_def Some moves_refl)
qed (simp add: rotation_abort_def moves_refl)

lemma rotation_fatal_stays: "stays r (rotation_fatal unlink j r)"
proof (cases "rotation_at j r")
  case (Some t)
  have "stays r (snd (settle_pane_file unlink False (rr_successor t)
                 (entomb ReasonSourceReplacement (rr_successor t)
                   (with_ledger release_complete_pane
                     (release_rotation_pane_reservations (rr_successor t)
                       (drop_capacity False (rr_capacity t)
                         (release_rotation_rollback (rr_predecessor t)
                           (retire_pane_slot ReasonSourceReplacement (rr_predecessor t)
                             (invalidate_at ReasonSourceReplacement (rr_predecessor t)
                               (set_rotation j (t\<lparr>rr_held := False\<rparr>) r))))))))))"
    by (intro stays_trans [OF _ tomb_stays] stays_trans [OF _ release_stays] stays_trans [OF _ release_pane_stays]
      stays_trans [OF _ drop_capacity_stays] stays_trans [OF _ release_rollback_stays] stays_trans [OF _ retire_pane_slot_stays]
      stays_trans [OF _ invalidate_at_stays] set_rotation_stays)
  then show ?thesis by (simp add: rotation_fatal_def Some moves_refl)
qed (simp add: rotation_fatal_def moves_refl)

section \<open>Retirement and recovery\<close>

lemma retire_pane_stays: "stays r (snd (retire_pane unlink key r))"
proof (cases "rl_closed r \<or> pane_at key r = None")
  case True
  then show ?thesis by (auto simp: retire_pane_def moves_refl)
next
  case False
  then obtain p where p: "pane_at key r = Some p" by auto
  let ?q = "invalidate_pane ReasonSourceReplacement p"
  have i: "stays r (put_pane key ?q r)" by (rule invalidate_stays [OF p])
  show ?thesis
  proof (cases "pj_reserved_charge p \<noteq> 0 \<or> pj_physical_reserved p \<noteq> 0 \<or> pj_capacity_held p")
    case True
    then show ?thesis using False p i by (auto simp: retire_pane_def Let_def)
  next
    case free: False
    let ?r1 = "if pj_slot_retired p then put_pane key ?q r
      else with_ledger (\<lambda>l. snd (retire_complete_pane l)) (put_pane key (?q\<lparr>pj_slot_retired := True\<rparr>) r)"
    have "stays r (put_pane key (?q\<lparr>pj_slot_retired := True\<rparr>) r)"
      by (rule put_stays [OF p]) (auto simp: retired_holds intro: retired_ok)
    with i stays_trans [OF _ retire_stays] have "stays r ?r1" by auto
    moreover have "stays ?r1 (snd (settle_pane_file unlink True key ?r1))" by (rule settle_stays) (auto split: if_splits)
    ultimately have "stays r (snd (settle_pane_file unlink True key ?r1))" by (rule stays_trans)
    then show ?thesis using False free p by (simp add: retire_pane_def Let_def)
  qed
qed

lemma reconcile_one_stays: "stays (snd s) (snd (reconcile_one unlink decisions s rv))"
proof (cases s)
  case (Pair rvs r)
  have "stays r (snd (reconcile_outcome unlink d key p r))" for d key p
    using retire_pane_stays [of r unlink key] moves_refl [of r]
    by (cases d) (auto simp: reconcile_outcome_def split: prod.split)
  then show ?thesis using Pair
    by (auto simp: reconcile_one_def Let_def moves_refl split: option.split prod.split) (metis snd_conv)
qed

lemma reconcile_stays: "stays r (snd (reconcile_recovered unlink decisions r))"
proof -
  have "stays (snd s) (snd (foldl (reconcile_one unlink decisions) s rvs))" for s rvs
  proof (induction rvs arbitrary: s)
    case (Cons rv rvs)
    then show ?case using stays_trans [OF reconcile_one_stays [of s unlink decisions rv]] by simp
  qed (simp add: moves_refl)
  from this [of "([], r)"] show ?thesis using stays_trans [OF _ adoptions_stays(3)]
    by (auto simp: reconcile_recovered_def split: prod.split) (metis snd_conv)
qed

lemma reclaim_session_stays: "stays r (reclaim_retired_session unlink key r)"
  using stays_trans [OF retire_recovered_stays sweep_stays] by (auto simp: reclaim_retired_session_def moves_refl)

lemma reclaim_stays: "stays r (snd (reclaim_retired key r))"
  by (auto simp: reclaim_retired_def moves_refl split: option.split intro: drop_stays)

lemma settle_owner_stays: "stays r (settle_failed_owner w r)"
  unfolding settle_failed_owner_def
  by (auto split: option.split simp: moves_refl pane_ok_def commit_due_def holds_logical_def holds_physical_def intro!: put_stays)

lemma writer_append_kept: "realm_kept r (snd (writer_append io answers w key payload r))"
  using append_kept by (auto simp: writer_append_def kept_refl split: option.split)

end
