(* ===== verification/Journal_Runs.thy ===== *)
theory Journal_Runs
  imports Journal_Bounds
begin

text \<open>
  Whole lives of a realm: opened on whatever the directory holds, then any sequence of its operations with
  any answers of the operating system. The theorem bounds what is on the disk.
\<close>

section \<open>Operations\<close>

datatype realm_op =
    AdmitPane file_io pane_key journal_geometry
  | AdmitReconstructed file_io unlinks pane_key journal_geometry
  | BeginReconstructed file_io pane_key journal_geometry
  | BeginReconstructedForSource file_io pane_key journal_geometry source_id
  | AdoptionCommit unlinks nat
  | AdoptionAbort unlinks nat
  | BeginRotationCapacity pane_key
  | ReleaseCapacity nat
  | ArmRollback nat
  | BeginRotatedPane file_io pane_key journal_geometry nat
  | RotationCommit unlinks nat
  | RotationFailCommitted unlinks nat
  | RotationAbort unlinks nat
  | RotationFatal unlinks nat
  | AppendOutput file_io "(nat \<times> write_error option) list" pane_key bytes
  | WriterAppend file_io "(nat \<times> write_error option) list" journal_writer pane_key bytes
  | AppendGeometry "(nat \<times> write_error option) list" pane_key journal_geometry
  | ReserveGeometry pane_key
  | ReleaseGeometry nat
  | AppendReservedGeometry "(nat \<times> write_error option) list" nat journal_geometry
  | SyncPane "write_error option" pane_key
  | AdvanceCommitted commit_io pane_key pane_key journal_record
  | RetirePane unlinks pane_key
  | ReclaimRetiredSession unlinks pane_key
  | ReclaimRetired pane_key
  | ReconcileRecovered unlinks "(pane_key \<times> recovery_disposition) list"
  | SettleFailedOwner journal_writer
  | ConfigureSourceQuota int int "pane_key \<Rightarrow> source_id"
  | SourceOperation quota_op
  | CloseRealm

text \<open>The ticket lock around an operation, served at once: its turn has come.\<close>

definition in_turn :: "(journal_realm \<Rightarrow> journal_realm) \<Rightarrow> journal_realm \<Rightarrow> journal_realm" where
  "in_turn f r = with_ledger (\<lambda>l. snd (ledger_leave l)) (f (with_ledger (\<lambda>l. snd (ledger_enter l)) r))"

definition realm_step :: "(bytes \<Rightarrow> journal_header option) \<Rightarrow> journal_realm \<Rightarrow> realm_op \<Rightarrow> journal_realm" where
  "realm_step unmarshal r op =
     (case op of
        AdmitPane io key g \<Rightarrow> in_turn (\<lambda>r. snd (admit_pane io key g r)) r
      | AdmitReconstructed io unlink key g \<Rightarrow> in_turn (\<lambda>r. snd (admit_reconstructed_pane io unlink key g r)) r
      | BeginReconstructed io key g \<Rightarrow> in_turn (\<lambda>r. snd (begin_reconstructed_pane io key g r)) r
      | BeginReconstructedForSource io key g source \<Rightarrow>
          in_turn (\<lambda>r. snd (begin_reconstructed_pane_for_source io key g source r)) r
      | AdoptionCommit unlink i \<Rightarrow> in_turn (adoption_commit unlink i) r
      | AdoptionAbort unlink i \<Rightarrow> in_turn (adoption_abort unlink i) r
      | BeginRotationCapacity key \<Rightarrow> in_turn (\<lambda>r. snd (begin_rotation_capacity key r)) r
      | ReleaseCapacity i \<Rightarrow> in_turn (release_capacity i) r
      | ArmRollback i \<Rightarrow> in_turn (\<lambda>r. snd (arm_rollback i r)) r
      | BeginRotatedPane io key g i \<Rightarrow> in_turn (\<lambda>r. snd (begin_rotated_pane io key g i r)) r
      | RotationCommit unlink j \<Rightarrow> in_turn (rotation_commit unlink j) r
      | RotationFailCommitted unlink j \<Rightarrow> in_turn (rotation_fail_committed unlink j) r
      | RotationAbort unlink j \<Rightarrow> in_turn (rotation_abort unlink j) r
      | RotationFatal unlink j \<Rightarrow> in_turn (rotation_fatal unlink j) r
      | AppendOutput io answers key payload \<Rightarrow> in_turn (\<lambda>r. snd (realm_append io answers key payload r)) r
      | WriterAppend io answers w key payload \<Rightarrow> in_turn (\<lambda>r. snd (writer_append io answers w key payload r)) r
      | AppendGeometry answers key g \<Rightarrow> in_turn (\<lambda>r. snd (append_geometry answers key g r)) r
      | ReserveGeometry key \<Rightarrow> in_turn (\<lambda>r. snd (reserve_geometry key r)) r
      | ReleaseGeometry i \<Rightarrow> in_turn (release_geometry i) r
      | AppendReservedGeometry answers i g \<Rightarrow> in_turn (\<lambda>r. snd (append_reserved_geometry answers i g r)) r
      | SyncPane answer key \<Rightarrow> snd (realm_sync answer key r)
      | AdvanceCommitted io key record_key rec \<Rightarrow> snd (realm_advance_committed unmarshal io key record_key rec r)
      | RetirePane unlink key \<Rightarrow> in_turn (\<lambda>r. snd (retire_pane unlink key r)) r
      | ReclaimRetiredSession unlink key \<Rightarrow> in_turn (reclaim_retired_session unlink key) r
      | ReclaimRetired key \<Rightarrow> snd (reclaim_retired key r)
      | ReconcileRecovered unlink decisions \<Rightarrow> snd (reconcile_recovered unlink decisions r)
      | SettleFailedOwner w \<Rightarrow> settle_failed_owner w r
      | ConfigureSourceQuota per_source max_sources known \<Rightarrow>
          r\<lparr>rl_source := snd (configure_source_quota per_source max_sources known (rl_panes r) (rl_source r))\<rparr>
      | SourceOperation q \<Rightarrow> r\<lparr>rl_source := quota_step (rl_source r) q\<rparr>
      | CloseRealm \<Rightarrow> in_turn realm_close r)"

section \<open>One operation\<close>

lemma enter_stays: "stays r (with_ledger (\<lambda>l. snd (ledger_enter l)) r)"
  by (rule ledger_stays) (simp add: ledger_enter_def)

lemma leave_stays: "stays r (with_ledger (\<lambda>l. snd (ledger_leave l)) r)"
  by (rule ledger_stays) (simp add: ledger_leave_def)

lemma in_turn_kept: "(\<And>r. realm_kept r (f r)) \<Longrightarrow> realm_kept r (in_turn f r)"
  unfolding in_turn_def by (rule kept_then_stays [OF stays_kept [OF enter_stays] leave_stays])

definition caps_nonneg :: "journal_realm \<Rightarrow> bool" where
  "caps_nonneg r \<longleftrightarrow> 0 \<le> jo_pane_cap (rl_options r) \<and> 0 \<le> rl_pane_physical_cap r"

lemma in_turn_kept_caps: "(\<And>r. caps_nonneg r \<Longrightarrow> realm_kept r (f r)) \<Longrightarrow> caps_nonneg r \<Longrightarrow> realm_kept r (in_turn f r)"
proof -
  assume f: "\<And>r. caps_nonneg r \<Longrightarrow> realm_kept r (f r)" and c: "caps_nonneg r"
  have "caps_nonneg (with_ledger g r)" for g using c by (simp add: caps_nonneg_def with_ledger_def)
  from f [OF this] show "realm_kept r (in_turn f r)"
    unfolding in_turn_def by (intro kept_then_stays [OF stays_kept [OF enter_stays] leave_stays])
qed

lemma begin_pane_kept: "caps_nonneg r \<Longrightarrow> realm_kept r (snd (begin_reconstructed_pane io key g r))"
  unfolding begin_reconstructed_pane_def caps_nonneg_def by (simp add: begin_reconstructed_kept)

lemma begin_source_kept: "caps_nonneg r \<Longrightarrow> realm_kept r (snd (begin_reconstructed_pane_for_source io key g source r))"
  unfolding begin_reconstructed_pane_for_source_def caps_nonneg_def by (auto simp: begin_reconstructed_kept kept_refl)

lemma admit_reconstructed_kept: "caps_nonneg r \<Longrightarrow> realm_kept r (snd (admit_reconstructed_pane io unlink key g r))"
proof -
  assume c: "caps_nonneg r"
  obtain res r1 where b: "begin_reconstructed_pane io key g r = (res, r1)" by fastforce
  then have k: "realm_kept r r1" using begin_pane_kept [OF c, of io key g] by simp
  show ?thesis using b k kept_then_stays [OF k adoption_commit_stays]
    by (auto simp: admit_reconstructed_pane_def split: sum.split)
qed

lemma close_stays: "stays r (realm_close r)"
  unfolding realm_close_def by (rule adoptions_stays)

lemma step_kept_realm: "caps_nonneg r \<Longrightarrow> realm_kept r (realm_step unmarshal r op)"
  by (cases op)
    (simp_all add: realm_step_def in_turn_kept admit_kept append_kept writer_append_kept append_geometry_kept
      reserve_geometry_kept append_reserved_geometry_kept realm_sync_kept realm_advance_kept arm_kept
      begin_rotation_capacity_kept in_turn_kept_caps begin_pane_kept begin_source_kept admit_reconstructed_kept
      kept_stays [OF adoption_commit_stays] kept_stays [OF adoption_abort_stays] kept_stays [OF release_capacity_stays]
      kept_stays [OF begin_rotated_stays] kept_stays [OF rotation_commit_stays] kept_stays [OF fail_committed_stays]
      kept_stays [OF rotation_abort_stays] kept_stays [OF rotation_fatal_stays] kept_stays [OF release_geometry_stays]
      kept_stays [OF retire_pane_stays] kept_stays [OF reclaim_session_stays] kept_stays [OF reclaim_stays]
      kept_stays [OF reconcile_stays] kept_stays [OF settle_owner_stays] kept_stays [OF source_stays] kept_stays [OF close_stays])

section \<open>Runs\<close>

text \<open>What a run from \<open>r0\<close> keeps.\<close>

definition realm_safe :: "journal_realm \<Rightarrow> journal_realm \<Rightarrow> bool" where
  "realm_safe r0 r \<longleftrightarrow>
     realm_wf r \<and> same_caps r0 r \<and> caps_nonneg r
     \<and> logical_load r \<le> max (logical_load r0) (jo_realm_cap (rl_options r0))
     \<and> physical_load r \<le> max (physical_load r0) (rl_physical_cap r0)
     \<and> 0 \<le> spare_logical r \<and> 0 \<le> spare_physical r \<and> unattributed r = 0 \<and> 0 \<le> overcharged r
     \<and> (\<forall>n. slots_ok n r0 \<longrightarrow> slots_ok n r)"

lemma realm_safe_step: "realm_safe r0 r \<Longrightarrow> realm_safe r0 (realm_step unmarshal r op)"
proof -
  assume s: "realm_safe r0 r"
  then have "realm_kept r (realm_step unmarshal r op)" by (intro step_kept_realm) (simp add: realm_safe_def)
  with s show ?thesis unfolding realm_safe_def realm_kept_def same_caps_def caps_nonneg_def by (smt (verit))
qed

interpretation realm: invariant_machine "realm_step unmarshal" "realm_safe r0" for unmarshal r0
  by unfold_locales (rule realm_safe_step)

text \<open>What the generations of the map do not pay of the directory is what the stray files hold.\<close>

lemma owed_nonneg: "realm_wf r \<Longrightarrow> 0 \<le> owed_logical r \<and> 0 \<le> owed_physical r"
proof -
  assume wf: "realm_wf r"
  have each: "0 \<le> holds_logical p \<and> 0 \<le> holds_physical p" if "(k, p) \<in> set (rl_panes r)" for k p
  proof -
    have "pane_at k r = Some p" using that wf by (simp add: realm_wf_def keyed_mem pane_at_def)
    from holds_nonneg [OF wf_pane [OF wf this]] show ?thesis .
  qed
  have h: "0 \<le> sum_of holds_logical (rl_panes r)" "0 \<le> sum_of holds_physical (rl_panes r)"
    by (rule sum_of_nonneg, use each in blast)+
  have capacity: "0 \<le> capacity_logical c \<and> 0 \<le> capacity_physical c" if "capacity_ok c" for c
    using that by (cases "rc_attempted c") (auto simp: capacity_ok_def capacity_logical_def capacity_physical_def
      rotation_header_physical_reserve_def header_limit_def)
  have c: "0 \<le> sum_list (map capacity_logical (rl_capacities r))" "0 \<le> sum_list (map capacity_physical (rl_capacities r))"
    using wf capacity by (auto simp: realm_wf_def intro!: sum_list_nonneg)
  have g: "0 \<le> sum_list (map geometry_need (rl_geometries r))"
    by (auto simp: geometry_need_def geometry_record_cost_def intro!: sum_list_nonneg)
  show ?thesis using h c g by (simp add: owed_logical_def owed_physical_def)
qed

lemma ksum_other: "a \<notin> fst ` set m \<Longrightarrow> ksum (\<lambda>k v. if k = a then f v else 0) m = 0"
  by (induction m) auto

lemma ksum_single: "keyed m \<Longrightarrow> ksum (\<lambda>k v. if k = a then f v else 0) m = at_or 0 f (map_of m a)"
proof (induction m)
  case (Cons e m)
  then show ?case using ksum_other [of a m f] by (cases e) (auto simp: keyed_def)
qed simp

lemma ksum_add: "ksum (\<lambda>k v. f k v + g k v) m = ksum f m + ksum g m"
  by (induction m) auto

lemma covered_bytes:
  fixes disk :: "(pane_key \<times> bytes) list"
  assumes "keyed disk" "\<And>k p. (k, p) \<in> set panes \<Longrightarrow> at_or 0 len (map_of disk k) \<le> pj_physical p"
  shows "ksum (\<lambda>k bs. if map_of panes k = None then 0 else len bs) disk \<le> sum_of pj_physical panes"
  using assms(2)
proof (induction panes)
  case Nil
  have "ksum (\<lambda>k bs. 0) disk = 0" by (induction disk) auto
  then show ?case by simp
next
  case (Cons e panes)
  obtain k p where e: "e = (k, p)" by (cases e)
  have "ksum (\<lambda>i bs. if map_of (e # panes) i = None then 0 else len bs) disk
      \<le> ksum (\<lambda>i bs. (if map_of panes i = None then 0 else len bs) + (if i = k then len bs else 0)) disk"
    by (rule ksum_mono) (auto simp: e len_def)
  also have "\<dots> = ksum (\<lambda>i bs. if map_of panes i = None then 0 else len bs) disk + at_or 0 len (map_of disk k)"
    by (simp add: ksum_add ksum_single [OF assms(1)])
  also have "\<dots> \<le> sum_of pj_physical panes + pj_physical p"
  proof (rule add_mono)
    show "ksum (\<lambda>i bs. if map_of panes i = None then 0 else len bs) disk \<le> sum_of pj_physical panes"
      by (rule Cons.IH) (use Cons.prems in auto)
    show "at_or 0 len (map_of disk k) \<le> pj_physical p" using Cons.prems e by simp
  qed
  finally show ?case by (simp add: e)
qed

lemma usage_charged: "realm_wf r \<Longrightarrow> 0 \<le> overcharged r \<Longrightarrow> disk_usage r \<le> rl_physical_total r"
proof -
  assume wf: "realm_wf r" and o: "0 \<le> overcharged r"
  have kd: "keyed (rl_panes r)" "keyed (rl_disk r)" using wf by (simp_all add: realm_wf_def)
  have "ksum (\<lambda>k bs. if map_of (rl_panes r) k = None then 0 else len bs) (rl_disk r) \<le> sum_of pj_physical (rl_panes r)"
    by (rule covered_bytes [OF kd(2)])
      (use wf_pane [OF wf] kd(1) in \<open>auto simp: keyed_mem pane_at_def intro: pane_ok_file\<close>)
  moreover have "disk_usage r = ksum (\<lambda>k bs. if map_of (rl_panes r) k = None then 0 else len bs) (rl_disk r)
      + stray_bytes (rl_panes r) (rl_disk r)"
    unfolding disk_usage_def stray_bytes_def ksum_add [symmetric] by (rule ksum_cong) simp
  ultimately show ?thesis using o by (simp add: overcharged_def)
qed

section \<open>The scan\<close>

definition cursor_sane :: "verified_cursor \<Rightarrow> int \<Rightarrow> bool" where
  "cursor_sane c n \<longleftrightarrow>
     cursor_fits c \<and> 0 \<le> vc_end c \<and> vc_end c \<le> vc_physical c \<and> 0 \<le> vc_geometry_charge c \<and> vc_physical c + n < 2 ^ 63"

lemma next_sane:
  assumes "cursor_next rd c = Inr (a, rd', c')" "cursor_sane c (len (rd_data rd))"
  shows "cursor_sane c' (len (rd_data rd'))"
proof -
  have fits: "cursor_fits c" using assms(2) by (simp add: cursor_sane_def)
  from next_accepts [OF assms(1) fits] obtain en where
    en: "entry_legal c en" "c' = entry_apply c en" "rd_data rd = entry_bytes c en @ rd_data rd'" by blast
  have f': "cursor_fits c'" using apply_fits [OF en(1) fits] en(2) by simp
  have l: "len (rd_data rd) = len (entry_bytes c en) + len (rd_data rd')" by (simp add: en(3) len_def)
  show ?thesis
  proof (cases en)
    case Committed
    have "length (jr_hash (vc_last c)) = 32" using fits by (simp add: cursor_fits_def)
    then have "len (entry_bytes c en) = int commit_fixed" by (simp add: Committed entry_bytes_def len_def)
    then show ?thesis using assms(2) f' l en(2) Committed by (simp add: cursor_sane_def entry_apply_def commit_fixed_def)
  next
    case (Appended r p)
    have adm: "append_admissible r (len p) p c" "length (jr_hash r) = 32" using en(1) Appended by (simp_all add: entry_legal_def)
    have eb: "len (entry_bytes c en) = int append_fixed + len p" using adm(2) by (simp add: Appended entry_bytes_def len_def)
    have s: "0 \<le> vc_end c" "vc_end c \<le> vc_physical c" "0 \<le> vc_geometry_charge c"
        "vc_physical c + int append_fixed + len p + len (rd_data rd') < 2 ^ 63"
      using assms(2) l eb by (simp_all add: cursor_sane_def)
    have n: "0 \<le> len p" "0 \<le> len (rd_data rd')" by (simp_all add: len_def)
    have "wrap64 (vc_end c + len p) = vc_end c + len p"
      using s n by (intro wrap64_same; linarith)
    then have "jr_end r = vc_end c + len p \<or> jr_end r = vc_end c"
      using adm(1) by (auto simp: append_admissible_def split: if_splits)
    with s n have "vc_end c \<le> vc_physical c + 70 + len p" "jr_end r \<le> vc_physical c + 70 + len p" "0 \<le> jr_end r" by linarith+
    then show ?thesis using f' s n en(2) Appended
      by (auto simp: cursor_sane_def entry_apply_def append_record_def geometry_record_cost_def append_fixed_def)
  qed
qed

lemma frames_sane: "parse_frames rd c = (err, c') \<Longrightarrow> cursor_sane c (len (rd_data rd)) \<Longrightarrow> 0 \<le> vc_end c' \<and> 0 \<le> vc_geometry_charge c'"
proof (induction rd c rule: parse_frames.induct)
  case (1 rd c)
  show ?case
  proof (cases "rd_data rd = []")
    case True
    with 1(2,3) show ?thesis by (simp add: parse_frames.simps cursor_sane_def)
  next
    case False
    show ?thesis
    proof (cases "cursor_next rd c")
      case (Inl e)
      with 1(2,3) False show ?thesis by (auto simp: parse_frames.simps cursor_sane_def split: next_error.splits)
    next
      case (Inr x)
      then obtain a rd' c1 where n: "cursor_next rd c = Inr (a, rd', c1)" by (cases x) auto
      have "parse_frames rd' c1 = (err, c')" using 1(2) False n by (simp add: parse_frames.simps)
      from 1(1) [OF False n refl refl this next_sane [OF n 1(3)]] show ?thesis .
    qed
  qed
qed

lemma accept_header_fields:
  "accept_header no_pane h = (ok, p) \<Longrightarrow> \<exists>k og g a. p = no_pane\<lparr>pj_key := k, pj_origin := og, pj_initial := g, pj_admitted := a\<rparr>"
proof -
  have e: "no_pane = no_pane\<lparr>pj_key := pj_key no_pane, pj_origin := pj_origin no_pane, pj_initial := pj_initial no_pane, pj_admitted := pj_admitted no_pane\<rparr>"
    by simp
  show "accept_header no_pane h = (ok, p) \<Longrightarrow> \<exists>k og g a. p = no_pane\<lparr>pj_key := k, pj_origin := og, pj_initial := g, pj_admitted := a\<rparr>"
    by (auto simp: accept_header_def Let_def no_pane_def split: option.splits if_splits)
qed

lemma decode_header_size:
  "decode_header unmarshal rd = Some (h, n, digest, rd') \<Longrightarrow> 0 \<le> n \<and> len (rd_data rd) = n + len (rd_data rd')"
proof -
  assume a: "decode_header unmarshal rd = Some (h, n, digest, rd')"
  then obtain pre rd1 body where r: "read_full 8 rd = (Inr pre, rd1)" "0 < be_get (drop 4 pre)"
      "read_full (nat (be_get (drop 4 pre))) rd1 = (Inr body, rd')" "n = 8 + be_get (drop 4 pre)"
    by (auto simp: decode_header_def Let_def split: prod.splits sum.splits option.splits if_splits)
  show ?thesis using read_full_shrinks [OF r(1)] read_full_shrinks [OF r(3)] r(2,4) by (simp add: len_def)
qed

text \<open>A reopened generation: never continuous, without holds, and charged what was parsed.\<close>

lemma parsed_fields:
  assumes "parse_journal unmarshal contents = (p, err)" "len contents < 2 ^ 63"
  shows "pane_ok (Some contents) (p\<lparr>pj_file := True, pj_physical := len contents, pj_realm_charge := pj_end p + pj_geometry_charge p,
        pj_state := EligibilityUntrusted\<rparr>)
    \<and> holds_logical p = 0 \<and> holds_physical p = 0"
proof -
  have base: "pane_ok (Some contents) (q\<lparr>pj_file := True, pj_physical := len contents, pj_realm_charge := pj_end q + pj_geometry_charge q,
        pj_state := EligibilityUntrusted\<rparr>) \<and> holds_logical q = 0 \<and> holds_physical q = 0"
    if "0 \<le> pj_end q" "0 \<le> pj_geometry_charge q" "pj_adoption_logical q = 0" "pj_adoption_physical q = 0" "pj_rollback_logical q = 0"
      "pj_rollback_physical q = 0" "pj_forward_logical q = 0" "pj_forward_physical q = 0" "\<not> pj_rollback_armed q" for q
    using that by (simp add: pane_ok_def commit_due_def holds_logical_def holds_physical_def)
  have fields: "0 \<le> pj_end p \<and> 0 \<le> pj_geometry_charge p \<and> pj_adoption_logical p = 0 \<and> pj_adoption_physical p = 0 \<and> pj_rollback_logical p = 0
      \<and> pj_rollback_physical p = 0 \<and> pj_forward_logical p = 0 \<and> pj_forward_physical p = 0 \<and> \<not> pj_rollback_armed p"
  proof (cases "decode_header unmarshal \<lparr>rd_data = contents, rd_broken = False\<rparr>")
    case None
    then show ?thesis using assms(1) by (auto simp: parse_journal_def no_pane_def)
  next
    case (Some v)
    then obtain h n digest rd where d: "decode_header unmarshal \<lparr>rd_data = contents, rd_broken = False\<rparr> = Some (h, n, digest, rd)"
      by (cases v) auto
    obtain ok q where q: "accept_header no_pane h = (ok, q)" by fastforce
    from accept_header_fields [OF q] obtain k og g a where
      qe: "q = no_pane\<lparr>pj_key := k, pj_origin := og, pj_initial := g, pj_admitted := a\<rparr>" by blast
    show ?thesis
    proof (cases ok)
      case False
      then have "p = q" using assms(1) d q by (simp add: parse_journal_def)
      then show ?thesis by (simp add: qe no_pane_def)
    next
      case True
      obtain e c where f: "parse_frames rd (no_cursor\<lparr>vc_physical := n\<rparr>) = (e, c)" by fastforce
      have "cursor_sane (no_cursor\<lparr>vc_physical := n\<rparr>) (len (rd_data rd))"
        using decode_header_size [OF d] assms(2) at_start_fits [of n]
        by (simp add: cursor_sane_def at_start_def, simp add: no_cursor_def)
      from frames_sane [OF f this] have "0 \<le> vc_end c" "0 \<le> vc_geometry_charge c" by simp_all
      then show ?thesis using assms(1) d q True f
        by (cases e) (auto simp: parse_journal_def Let_def qe no_pane_def)
    qed
  qed
  then show ?thesis by (intro base) auto
qed

lemma scanned_ok:
  assumes "len contents < 2 ^ 63"
  shows "pane_ok (Some contents) (scanned_pane r (open_existing unmarshal contents))
    \<and> holds_logical (scanned_pane r (open_existing unmarshal contents)) = 0
    \<and> holds_physical (scanned_pane r (open_existing unmarshal contents)) = 0
    \<and> pj_physical (scanned_pane r (open_existing unmarshal contents)) = len contents"
proof -
  obtain p err where p: "parse_journal unmarshal contents = (p, err)" by fastforce
  from parsed_fields [OF p assms] show ?thesis
    by (auto simp: scanned_pane_def open_existing_def p Let_def fail_closed_def pane_ok_def commit_due_def
      holds_logical_def holds_physical_def)
qed

definition scan_inv :: "journal_realm \<Rightarrow> bool" where
  "scan_inv r \<longleftrightarrow>
     keyed (rl_panes r) \<and> keyed (rl_disk r)
     \<and> (\<forall>k p. pane_at k r = Some p \<longrightarrow> pane_ok (map_of (rl_disk r) k) p)
     \<and> (\<forall>k. map_of (rl_panes r) k = None \<longleftrightarrow> map_of (rl_disk r) k = None)
     \<and> rl_capacities r = [] \<and> rl_geometries r = [] \<and> rl_reserved r = 0 \<and> rl_physical_reserved r = 0
     \<and> sum_of holds_logical (rl_panes r) = 0 \<and> sum_of holds_physical (rl_panes r) = 0
     \<and> rl_total r = sum_of pj_realm_charge (rl_panes r)
     \<and> rl_physical_total r = sum_of pj_physical (rl_panes r) \<and> rl_physical_total r = disk_usage r"

lemma scan_one_inv:
  assumes "scan_one unmarshal (Inr r) e = Inr r'" "scan_inv r" "\<And>bs. snd e = Inr bs \<Longrightarrow> len bs < 2 ^ 63"
  shows "scan_inv r' \<and> same_caps r r' \<and> len (rl_panes r') = len (rl_panes r) + 1"
proof -
  obtain key bs where e: "e = (key, Inr bs)" using assms(1) by (cases e) (auto simp: scan_one_def split: sum.splits)
  let ?p = "scanned_pane r (open_existing unmarshal bs)"
  have c: "pane_at key r = None" "pj_key ?p = key" using assms(1) e by (auto simp: scan_one_def Let_def split: if_splits)
  have kd: "keyed (rl_panes r)" "keyed (rl_disk r)" and none: "map_of (rl_panes r) key = None" "map_of (rl_disk r) key = None"
    using assms(2) c(1) by (auto simp: scan_inv_def pane_at_def)
  have panes: "rl_panes r' = AList.update key ?p (rl_panes r)" and disk: "rl_disk r' = AList.update key bs (rl_disk r)"
    and rest: "rl_capacities r' = rl_capacities r" "rl_geometries r' = rl_geometries r" "rl_reserved r' = rl_reserved r"
      "rl_physical_reserved r' = rl_physical_reserved r" "rl_total r' = rl_total r + pj_realm_charge ?p"
      "rl_physical_total r' = rl_physical_total r + pj_physical ?p" "same_caps r r'"
    using assms(1) c e by (auto simp: scan_one_def Let_def put_pane_def same_caps_def)
  have s: "sum_of f (rl_panes r') = sum_of f (rl_panes r) + f ?p" for f
    using kd none panes by (simp add: sum_of_update)
  have u: "disk_usage r' = disk_usage r + len bs" using kd none disk by (simp add: disk_usage_def ksum_update)
  have ok: "pane_ok (Some bs) ?p" "holds_logical ?p = 0" "holds_physical ?p = 0" "pj_physical ?p = len bs"
    using scanned_ok [of bs r unmarshal] assms(3) e by simp_all
  have "scan_inv r'"
    using assms(2) kd ok s u rest panes disk unfolding scan_inv_def by (auto simp: pane_at_def)
  then show ?thesis using rest len_update [OF kd(1), of key ?p] none panes by (simp add: len_def)
qed

lemma scan_fold_inv:
  assumes "foldl (scan_one unmarshal) (Inr r) files = Inr r'" "scan_inv r"
    and "\<And>k bs. (k, Inr bs) \<in> set files \<Longrightarrow> len bs < 2 ^ 63"
  shows "scan_inv r' \<and> same_caps r r' \<and> len (rl_panes r') = len (rl_panes r) + len files"
  using assms
proof (induction files arbitrary: r)
  case Nil
  then show ?case by (simp add: same_caps_def len_def)
next
  case (Cons e files)
  have stuck: "foldl (scan_one unmarshal) (Inl err) fs = Inl err" for err fs
    by (induction fs) (simp_all add: scan_one_def)
  obtain r1 where r1: "scan_one unmarshal (Inr r) e = Inr r1"
    using Cons.prems(1) stuck by (cases "scan_one unmarshal (Inr r) e") auto
  have "len bs < 2 ^ 63" if "snd e = Inr bs" for bs
    using Cons.prems(3) [of "fst e" bs] that by (cases e) auto
  from scan_one_inv [OF r1 Cons.prems(2) this] have one: "scan_inv r1" "same_caps r r1" "len (rl_panes r1) = len (rl_panes r) + 1"
    by simp_all
  have "foldl (scan_one unmarshal) (Inr r1) files = Inr r'" using Cons.prems(1) r1 by simp
  from Cons.IH [OF this one(1)] Cons.prems(3) have "scan_inv r'" "same_caps r1 r'" "len (rl_panes r') = len (rl_panes r1) + len files"
    by auto
  with one show ?case by (simp add: same_caps_def len_def)
qed

lemma opened:
  assumes "open_realm unmarshal options physical_cap pane_physical_cap slots policy wake files = Inr r"
    and "\<And>k bs. (k, Inr bs) \<in> set files \<Longrightarrow> len bs < 2 ^ 63" "0 \<le> jo_pane_cap options" "0 \<le> pane_physical_cap"
  shows "realm_safe r r \<and> rl_options r = options \<and> rl_physical_cap r = physical_cap
    \<and> logical_load r = rl_total r \<and> physical_load r = disk_usage r"
proof -
  let ?e = "empty_realm options physical_cap pane_physical_cap"
  obtain r1 where f: "len files \<le> max_realm_identities" "foldl (scan_one unmarshal) (Inr ?e) files = Inr r1"
      and r: "r = r1\<lparr>rl_retention := new_retention_ledger slots policy wake (len (filter (\<lambda>e. \<not> pj_slot_retired (snd e)) (rl_panes r1)))\<rparr>"
    using assms(1) by (auto simp: open_realm_def scan_realm_def split: sum.splits if_splits)
  have "scan_inv ?e" by (simp add: scan_inv_def empty_realm_def pane_at_def disk_usage_def)
  from scan_fold_inv [OF f(2) this assms(2)] have s: "scan_inv r1" "same_caps ?e r1" "len (rl_panes r1) = len files"
    by (auto simp: empty_realm_def len_def)
  have st: "stray_bytes (rl_panes r1) (rl_disk r1) = 0"
  proof -
    have "stray_bytes (rl_panes r1) (rl_disk r1) = ksum (\<lambda>_ _. 0) (rl_disk r1)"
      unfolding stray_bytes_def
      by (rule ksum_cong) (use s(1) in \<open>auto simp: scan_inv_def keyed_mem dest: map_of_SomeD\<close>)
    also have "\<dots> = 0" by (induction "rl_disk r1" rule: list.induct) (simp_all add: ksum_def sum_list_triv)
    finally show ?thesis .
  qed
  show ?thesis
    using s st f(1) assms(3,4)
    by (simp add: r realm_safe_def realm_wf_def scan_inv_def same_caps_def caps_nonneg_def empty_realm_def pane_at_def
      logical_load_def physical_load_def spare_logical_def spare_physical_def owed_logical_def owed_physical_def
      unattributed_def overcharged_def disk_usage_def)
qed

lemma opened_slots:
  "open_realm unmarshal options physical_cap pane_physical_cap slots policy wake files = Inr r \<Longrightarrow> 0 \<le> rt_reserved (rl_retention r)"
  by (auto simp: open_realm_def new_retention_ledger_def len_def split: sum.splits)

section \<open>What is on the disk\<close>

text \<open>
  C17: The journal never outgrows its caps. A realm is opened on any directory and then runs any sequence of
  admissions, adoptions, rotations, appends, commits, reservations, retirements, reconciliations and
  closings, with every answer the operating system may give: files that cannot be created, headers and
  records that are written in part, unlinks that fail. At every point the bytes of all files in the directory
  are at most what the physical ledger charges, and charged plus reserved is at most the physical cap or what
  the directory held when it was opened; the logical ledger is exactly the sum of the generations' charges
  and within its cap in the same way; no reservation is negative; and the complete-pane slots and the
  identities stay within their limits.
\<close>

theorem realm_within_caps:
  assumes "open_realm unmarshal options physical_cap pane_physical_cap slots policy wake files = Inr r0"
    and "\<forall>(k, content) \<in> set files. \<forall>bs. content = Inr bs \<longrightarrow> len bs < 2 ^ 63"
    and "0 \<le> jo_pane_cap options" "0 \<le> pane_physical_cap"
    and "r = foldl (realm_step unmarshal) r0 ops"
  shows "disk_usage r \<le> rl_physical_total r
    \<and> rl_physical_total r + rl_physical_reserved r \<le> max (disk_usage r0) physical_cap
    \<and> rl_total r = sum_of pj_realm_charge (rl_panes r)
    \<and> rl_total r + rl_reserved r \<le> max (rl_total r0) (jo_realm_cap options)
    \<and> 0 \<le> rl_physical_reserved r \<and> 0 \<le> rl_reserved r
    \<and> 0 \<le> rt_reserved (rl_retention r)
    \<and> rt_reserved (rl_retention r) \<le> max (rt_limit (rl_retention r0)) (rt_reserved (rl_retention r0))
    \<and> len (rl_panes r) \<le> max_realm_identities"
proof -
  have "len bs < 2 ^ 63" if "(k, Inr bs) \<in> set files" for k bs using assms(2) that by blast
  from opened [OF assms(1) this assms(3,4)] have o: "realm_safe r0 r0" "rl_options r0 = options" "rl_physical_cap r0 = physical_cap"
    "logical_load r0 = rl_total r0" "physical_load r0 = disk_usage r0" by simp_all
  from realm.run_inv [OF o(1)] have s: "realm_safe r0 r" by (simp add: assms(5))
  have wf: "realm_wf r" "0 \<le> overcharged r" using s by (simp_all add: realm_safe_def)
  have keeps: "\<forall>n. slots_ok n r0 \<longrightarrow> slots_ok n r" using s by (simp add: realm_safe_def)
  have slots: "slots_ok (max (rt_limit (rl_retention r0)) (rt_reserved (rl_retention r0))) r"
    by (rule keeps [rule_format]) (use opened_slots [OF assms(1)] in \<open>simp add: slots_ok_def\<close>)
  have "0 \<le> owed_logical r" "0 \<le> owed_physical r" using owed_nonneg [OF wf(1)] by simp_all
  then show ?thesis
    using usage_charged [OF wf] s slots o(2-5) wf(1)
    by (simp add: realm_safe_def slots_ok_def realm_wf_def logical_load_def physical_load_def spare_logical_def spare_physical_def
      unattributed_def)
qed


definition sample_options :: journal_options where
  "sample_options = \<lparr>jo_realm = ''r'', jo_incarnation = ''i'', jo_pane_cap = 5000, jo_realm_cap = 9000, jo_startup_recovery = False\<rparr>"

definition sample_realm_key :: pane_key where
  "sample_realm_key = \<lparr>pk_server = ''s'', pk_session = ''$1'', pk_control_generation = 1, pk_window = ''@1'', pk_pane = ''%1'', pk_incarnation = ''i''\<rparr>"

definition sample_run :: "pane_key \<Rightarrow> realm_op list" where
  "sample_run key =
     (let io = \<lparr>fi_stream = ''s'', fi_create = CreateOpened, fi_writes = [], fi_unlink = \<lambda>_. False\<rparr>
      in [AdmitPane io key \<lparr>jg_columns = 80, jg_rows = 24\<rparr>, AppendOutput io [(3, Some WriteENOSPC)] key ''hello'',
          AppendOutput io [] key ''world'', RetirePane (\<lambda>_. False) key, CloseRealm])"

theorem realm_within_caps_witness:
  "\<exists>r0. open_realm (\<lambda>_. None) sample_options 200000 100000 4 None False [] = Inr r0
    \<and> disk_usage (foldl (realm_step (\<lambda>_. None)) r0 (sample_run sample_realm_key)) \<le> 200000"
proof -
  obtain r0 where r0: "open_realm (\<lambda>_. None) sample_options 200000 100000 4 None False [] = Inr r0" "disk_usage r0 = 0"
    by (simp add: open_realm_def scan_realm_def empty_realm_def disk_usage_def max_realm_identities_def len_def)
  define r where "r = foldl (realm_step (\<lambda>_. None)) r0 (sample_run sample_realm_key)"
  have "disk_usage r \<le> rl_physical_total r \<and> rl_physical_total r + rl_physical_reserved r \<le> max (disk_usage r0) 200000
      \<and> 0 \<le> rl_physical_reserved r"
    using realm_within_caps [OF r0(1) _ _ _ r_def] by (simp add: sample_options_def)
  with r0 show ?thesis by (auto simp: r_def)
qed

end
