(* ===== verification/Journal_Corners.thy ===== *)
theory Journal_Corners
  imports Journal_Runs
begin

text \<open>
  Two corners of the realm's operations that the code's comments do not lead one to expect.
\<close>

text \<open>
  A generation whose file fails to parse is charged at the scan for its geometry records only: the output
  that was validated before the failure is not in its logical charge, which while it lived it was.
\<close>

lemma failed_parse_drops_output:
  "parse_journal unmarshal contents = (p, Some err) \<Longrightarrow> pj_realm_charge (scanned_pane r (p\<lparr>pj_physical := len contents\<rparr>)) = pj_geometry_charge p"
proof -
  assume a: "parse_journal unmarshal contents = (p, Some err)"
  have "pj_end q = 0" if "accept_header no_pane h = (ok, q)" for h ok q
    using accept_header_fields [OF that] by (auto simp: no_pane_def)
  then have "pj_end p = 0"
    using a by (auto simp: parse_journal_def Let_def no_pane_def split: option.splits prod.splits if_splits bool.splits)
  then show ?thesis by (simp add: scanned_pane_def)
qed

text \<open>
  A provisional reconstruction that was given no allowance can be retired while its reservation is still
  open, which returns its slot; aborting the reservation then returns a second one, which belongs to another
  generation.
\<close>

lemma retire_gives_up:
  assumes "pane_at key r = Some p" "\<not> pj_slot_retired p" "pj_reserved_charge p = 0" "pj_physical_reserved p = 0"
    "\<not> pj_capacity_held p" "\<not> rl_closed r" "unlink key" "0 < rt_reserved (rl_retention r)" "keyed (rl_panes r)"
    and "r' = snd (retire_pane unlink key r)"
  shows "pane_at key r' = None \<and> rt_reserved (rl_retention r') = rt_reserved (rl_retention r) - 1
    \<and> rl_adoptions r' = rl_adoptions r \<and> \<not> rl_closed r'"
proof -
  have i: "pj_reserved_charge (invalidate_pane e p) = 0" "pj_physical_reserved (invalidate_pane e p) = 0"
      "\<not> pj_capacity_held (invalidate_pane e p)" "\<not> pj_slot_retired (invalidate_pane e p)" for e
    using assms(2-5) by (simp_all add: invalidate_pane_def)
  define q where "q = (invalidate_pane ReasonSourceReplacement p)\<lparr>pj_slot_retired := True\<rparr>"
  define r0 where "r0 = with_ledger (\<lambda>l. snd (retire_complete_pane l)) (put_pane key q r)"
  have r': "r' = snd (settle_pane_file unlink True key r0)"
    using assms(1,6,10) i by (simp add: retire_pane_def Let_def q_def r0_def)
  have r0: "pane_at key r0 = Some q" "rt_reserved (rl_retention r0) = rt_reserved (rl_retention r) - 1"
      "rl_adoptions r0 = rl_adoptions r" "\<not> rl_closed r0"
    using assms(6,8) by (simp_all add: r0_def with_ledger_def put_pane_def pane_at_def retire_complete_pane_def map_of_update)
  show ?thesis
    using r0 assms(7)
    by (simp add: r' settle_pane_file_def Let_def remove_pane_file_def refund_charges_def drop_generation_def with_ledger_def put_pane_def
      pane_at_def release_proven_capacity_def map_of_delete)
qed

lemma retire_then_abort_returns_two_slots:
  assumes "pane_at key r = Some p" "\<not> pj_slot_retired p" "pj_reserved_charge p = 0" "pj_physical_reserved p = 0"
    "\<not> pj_capacity_held p" "\<not> rl_closed r" "unlink key" "keyed (rl_panes r)"
    and "i < length (rl_adoptions r)" "rl_adoptions r ! i = \<lparr>ad_key = key, ad_held = True, ad_settled = False\<rparr>"
    and "2 \<le> rt_reserved (rl_retention r)" 
  shows "rt_reserved (rl_retention (adoption_abort unlink i (snd (retire_pane unlink key r)))) = rt_reserved (rl_retention r) - 2"
proof -
  define r' where "r' = snd (retire_pane unlink key r)"
  have "0 < rt_reserved (rl_retention r)" using assms(11) by simp
  from retire_gives_up [where r = r and r' = r', OF assms(1-7) this assms(8) r'_def]
  have r': "pane_at key r' = None" "rt_reserved (rl_retention r') = rt_reserved (rl_retention r) - 1"
    "rl_adoptions r' = rl_adoptions r" "\<not> rl_closed r'" by simp_all
  have "pane_at key (with_ledger release_complete_pane (settle_adoption i r')) = None"
    using r'(1) by (simp add: pane_at_def with_ledger_def settle_adoption_def)
  then show ?thesis
    using r' assms(9-11) unfolding r'_def [symmetric]
    by (simp add: adoption_abort_def adoption_pending_def Let_def release_adoption_allowance_def entomb_def settle_pane_file_def)
      (simp add: with_ledger_def settle_adoption_def release_complete_pane_def)
qed

end
