(* ===== verification/Journal_Survival.thy ===== *)
theory Journal_Survival
  imports Journal_Corners
begin

text \<open>
  What a restart finds of a realm. Every file a generation of the realm still has holds a log of that
  generation, whatever the realm's operations did to it and to its neighbours; so the file, read again, gives
  back every event the generation had acknowledged.
\<close>

section \<open>One file and its generation\<close>

text \<open>The fields of a generation that its file answers for.\<close>

definition same_log :: "pane_journal \<Rightarrow> pane_journal \<Rightarrow> bool" where
  "same_log p p' \<longleftrightarrow>
     pj_key p' = pj_key p \<and> pj_initial p' = pj_initial p \<and> pj_admitted p' = pj_admitted p \<and> pj_origin p' = pj_origin p
     \<and> pj_header_hash p' = pj_header_hash p \<and> pj_header_size p' = pj_header_size p
     \<and> pj_verified p' = pj_verified p \<and> pj_pending p' = pj_pending p \<and> pj_sequence p' = pj_sequence p
     \<and> pj_end p' = pj_end p \<and> pj_stored p' = pj_stored p \<and> pj_last p' = pj_last p
     \<and> pj_committed p' = pj_committed p \<and> pj_committed_sequence p' = pj_committed_sequence p
     \<and> pj_state p' = pj_state p"

lemma same_log_refl [simp]: "same_log p p"
  by (simp add: same_log_def)

text \<open>
  A file is recoverable for a generation when it is the generation's own log, or when the generation was
  itself recovered, writes no more, and shows what a restart shows, or nothing.
\<close>

definition recoverable :: "(bytes \<Rightarrow> journal_header option) \<Rightarrow> string \<Rightarrow> bytes \<Rightarrow> pane_journal \<Rightarrow> bool" where
  "recoverable unmarshal incarnation disk p \<longleftrightarrow>
     (\<exists>hb. headed unmarshal incarnation hb p \<and> pane_kept hb (p, disk))
     \<or> pj_state p \<noteq> EligibilityContinuous \<and> (projected p = [] \<or> projected p = projected (open_existing unmarshal disk))"

lemma same_log_holds: "same_log p p' \<Longrightarrow> holds hb es pend p' disk = holds hb es pend p disk"
  by (simp add: same_log_def holds_def)

lemma same_log_logged: "same_log p p' \<Longrightarrow> pane_logged hb p' disk = pane_logged hb p disk"
  by (simp add: same_log_def pane_logged_def)

lemma same_log_kept: "same_log p p' \<Longrightarrow> pane_kept hb (p', disk) = pane_kept hb (p, disk)"
  using same_log_holds [of p p'] same_log_logged [of p p'] by (simp add: pane_kept_def) (simp add: same_log_def)

lemma same_log_headed: "same_log p p' \<Longrightarrow> headed u i hb p' = headed u i hb p"
  by (simp add: same_log_def headed_def)

lemma same_log_recoverable: "same_log p p' \<Longrightarrow> recoverable u i disk p' = recoverable u i disk p"
  using same_log_kept [of p p'] same_log_headed [of p p'] by (simp add: recoverable_def) (simp add: same_log_def projected_def)

lemma kept_logged: "pane_kept hb (p, disk) \<Longrightarrow> pane_logged hb p disk"
  using holds_pane_logged by (auto simp: pane_kept_def split: if_splits)

lemma invalid_recoverable: "recoverable u i disk p \<Longrightarrow> recoverable u i disk (invalidate_pane reason p)"
proof -
  assume r: "recoverable u i disk p"
  have l: "pane_logged hb (invalidate_pane reason p) disk" if "pane_kept hb (p, disk)" for hb
    using kept_logged [OF that] by (simp add: pane_logged_def)
  have "projected (invalidate_pane reason p) = projected p" by (simp add: projected_def)
  with r l show ?thesis by (auto simp: recoverable_def) (auto simp: pane_kept_def)
qed

lemma released_recoverable: "pj_state p \<noteq> EligibilityContinuous \<Longrightarrow> recoverable u i disk (release_projection p)"
  by (simp add: recoverable_def release_projection_def projected_def no_cursor_def)

lemma parsed_admitted:
  assumes "parse_journal u (hb @ rest) = (q, None)" "headed u i hb p"
  shows "pj_admitted q = pj_admitted p"
proof -
  from assms(2) obtain h q0 where h: "encode_header h = Inr hb" "u (marshal_header h) = Some h" "jh_version h = journal_version"
    "accept_header no_pane h = (True, q0)" "pj_admitted p = pj_admitted q0" by (auto simp: headed_def)
  have "decode_header u \<lparr>rd_data = hb @ rest, rd_broken = False\<rparr>
      = Some (h, len hb, sha256 hb, \<lparr>rd_data = hb @ rest, rd_broken = False\<rparr>\<lparr>rd_data := rest\<rparr>)"
    by (rule decode_header_reads [OF h(1), where unmarshal = u]) (use h(2,3) in simp_all)
  with h(4,5) assms(1) show ?thesis by (auto simp: parse_journal_def Let_def split: prod.splits option.splits)
qed

lemma kept_starts: "pane_kept hb (p, disk) \<Longrightarrow> \<exists>rest. disk = hb @ rest"
  using kept_logged [of hb p disk] by (auto simp: pane_logged_def)

text \<open>What a restart makes of the file.\<close>

lemma reopened:
  assumes "recoverable u i disk p" "q = open_existing u disk"
  shows "(pj_state p = EligibilityContinuous \<and> pj_admitted p \<longrightarrow> pj_state q = EligibilityLegacy \<and> projected q = projected p)
    \<and> (pj_state q = EligibilityLegacy \<longrightarrow> prefix (projected p) (projected q))"
proof (cases "\<exists>hb. headed u i hb p \<and> pane_kept hb (p, disk)")
  case True
  then obtain hb where h: "headed u i hb p" "pane_kept hb (p, disk)" by blast
  obtain p0 err where p0: "parse_journal u disk = (p0, err)" by fastforce
  obtain rest where rest: "disk = hb @ rest" using kept_starts [OF h(2)] by blast
  have a: "err = None \<Longrightarrow> pj_admitted p0 = pj_admitted p" using parsed_admitted [of u hb rest p0 i p] h(1) p0 rest by simp
  have "if pj_state p = EligibilityContinuous then err = None \<and> projected p0 = projected p
      else err = Some ErrCorruptJournal \<or> err = None \<and> prefix (projected p) (projected p0)"
    using log_recovered [OF h] p0 by (auto split: if_splits)
  with a p0 assms(2) show ?thesis
    by (auto simp: open_existing_def Let_def fail_closed_def projected_def split: if_splits)
next
  case False
  with assms show ?thesis by (auto simp: recoverable_def)
qed

section \<open>A realm's files\<close>

definition logs_ok ::
    "(bytes \<Rightarrow> journal_header option) \<Rightarrow> string \<Rightarrow> (pane_key \<times> pane_journal) list \<Rightarrow> (pane_key \<times> bytes) list \<Rightarrow> bool" where
  "logs_ok u i panes disk \<longleftrightarrow>
     (\<forall>k p d. map_of panes k = Some p \<longrightarrow> map_of disk k = Some d \<longrightarrow> recoverable u i d p)"

abbreviation realm_logs :: "(bytes \<Rightarrow> journal_header option) \<Rightarrow> string \<Rightarrow> journal_realm \<Rightarrow> bool" where
  "realm_logs u i r \<equiv> logs_ok u i (rl_panes r) (rl_disk r)"

lemma logs_put:
  "logs_ok u i panes disk \<Longrightarrow> map_of panes k = Some p \<Longrightarrow> same_log p p' \<Longrightarrow> logs_ok u i (AList.update k p' panes) disk"
  by (auto simp: logs_ok_def same_log_recoverable)

lemma logs_put_invalid:
  "logs_ok u i panes disk \<Longrightarrow> map_of panes k = Some p \<Longrightarrow> same_log (invalidate_pane reason p) p' \<Longrightarrow> logs_ok u i (AList.update k p' panes) disk"
  using invalid_recoverable [of u i _ p reason] by (auto simp: logs_ok_def same_log_recoverable)

lemma logs_put_gone: "logs_ok u i panes disk \<Longrightarrow> map_of disk k = None \<Longrightarrow> logs_ok u i (AList.update k p' panes) disk"
  by (auto simp: logs_ok_def)

lemma logs_drop: "logs_ok u i panes disk \<Longrightarrow> logs_ok u i (AList.delete k panes) disk"
  by (auto simp: logs_ok_def)

lemma logs_unlink: "logs_ok u i panes disk \<Longrightarrow> logs_ok u i panes (AList.delete k disk)"
  by (auto simp: logs_ok_def)

lemma logs_file: "logs_ok u i panes disk \<Longrightarrow> map_of panes k = None \<Longrightarrow> logs_ok u i panes (AList.update k bs disk)"
  by (auto simp: logs_ok_def)

lemma logs_written:
  "logs_ok u i panes disk \<Longrightarrow> recoverable u i bs p \<Longrightarrow> logs_ok u i (AList.update k p panes) (AList.update k bs disk)"
  by (auto simp: logs_ok_def)

lemma with_ledger_logs [simp]: "rl_panes (with_ledger f r) = rl_panes r" "rl_disk (with_ledger f r) = rl_disk r"
  by (simp_all add: with_ledger_def)

text \<open>An operation that keeps the logs of whatever realm it is run on.\<close>

definition keeps_logs :: "(bytes \<Rightarrow> journal_header option) \<Rightarrow> string \<Rightarrow> journal_realm \<Rightarrow> journal_realm \<Rightarrow> bool" where
  "keeps_logs u i r r' \<longleftrightarrow> (realm_logs u i r \<longrightarrow> realm_logs u i r')"

lemma keeps_logs_refl [simp]: "keeps_logs u i r r"
  by (simp add: keeps_logs_def)

lemma keeps_logs_trans: "keeps_logs u i r r1 \<Longrightarrow> keeps_logs u i r1 r2 \<Longrightarrow> keeps_logs u i r r2"
  by (simp add: keeps_logs_def)

lemma keeps_logs_same: "rl_panes r' = rl_panes r1 \<Longrightarrow> rl_disk r' = rl_disk r1 \<Longrightarrow> keeps_logs u i r r' = keeps_logs u i r r1"
  by (simp add: keeps_logs_def)

lemma keeps_logs_fields [simp]:
  "keeps_logs u i r (with_ledger f r') = keeps_logs u i r r'"
  "keeps_logs u i r (r'\<lparr>rl_source := a\<rparr>) = keeps_logs u i r r'"
  "keeps_logs u i r (r'\<lparr>rl_options := b\<rparr>) = keeps_logs u i r r'"
  "keeps_logs u i r (r'\<lparr>rl_retention := c\<rparr>) = keeps_logs u i r r'"
  "keeps_logs u i r (r'\<lparr>rl_recovered := d\<rparr>) = keeps_logs u i r r'"
  "keeps_logs u i r (r'\<lparr>rl_total := e\<rparr>) = keeps_logs u i r r'"
  "keeps_logs u i r (r'\<lparr>rl_reserved := f1\<rparr>) = keeps_logs u i r r'"
  "keeps_logs u i r (r'\<lparr>rl_physical_total := g\<rparr>) = keeps_logs u i r r'"
  "keeps_logs u i r (r'\<lparr>rl_physical_reserved := h\<rparr>) = keeps_logs u i r r'"
  "keeps_logs u i r (r'\<lparr>rl_closed := j\<rparr>) = keeps_logs u i r r'"
  "keeps_logs u i r (r'\<lparr>rl_adoptions := l\<rparr>) = keeps_logs u i r r'"
  "keeps_logs u i r (r'\<lparr>rl_capacities := m\<rparr>) = keeps_logs u i r r'"
  "keeps_logs u i r (r'\<lparr>rl_rotations := n\<rparr>) = keeps_logs u i r r'"
  "keeps_logs u i r (r'\<lparr>rl_geometries := q\<rparr>) = keeps_logs u i r r'"
  by (simp_all add: keeps_logs_def)

lemma keeps_put: "keeps_logs u i r r' \<Longrightarrow> pane_at k r' = Some p \<Longrightarrow> same_log p p' \<Longrightarrow> keeps_logs u i r (put_pane k p' r')"
  by (simp add: keeps_logs_def put_pane_def pane_at_def logs_put)

lemma keeps_put_invalid:
  "keeps_logs u i r r' \<Longrightarrow> pane_at k r' = Some p \<Longrightarrow> same_log (invalidate_pane reason p) p' \<Longrightarrow> keeps_logs u i r (put_pane k p' r')"
  by (simp add: keeps_logs_def put_pane_def pane_at_def logs_put_invalid [where p = p and reason = reason])

lemma keeps_invalid: "keeps_logs u i r r' \<Longrightarrow> pane_at k r' = Some p \<Longrightarrow> keeps_logs u i r (put_pane k (invalidate_pane reason p) r')"
  by (erule (1) keeps_put_invalid [where reason = reason]) (rule same_log_refl)

lemma keeps_drop: "keeps_logs u i r r' \<Longrightarrow> keeps_logs u i r (drop_generation k r')"
  by (simp add: keeps_logs_def drop_generation_def logs_drop)

section \<open>What leaves the files alone\<close>

lemma settle_logs: "keeps_logs u i r (snd (settle_pane_file unlink forget k r))"
proof (cases "pane_at k r")
  case None
  then show ?thesis by (simp add: settle_pane_file_def)
next
  case (Some p)
  define r1 where "r1 = put_pane k (p\<lparr>pj_file := False\<rparr>) r"
  have k1: "keeps_logs u i r r1"
    unfolding r1_def by (rule keeps_put [OF keeps_logs_refl Some]) (simp add: same_log_def)
  show ?thesis
  proof (cases "unlink k")
    case False
    with Some k1 show ?thesis by (simp add: settle_pane_file_def Let_def remove_pane_file_def r1_def)
  next
    case True
    define r2 where "r2 = r1\<lparr>rl_disk := AList.delete k (rl_disk r1), rl_source := source_unlinked k (rl_source r1)\<rparr>"
    have k2: "keeps_logs u i r r2" using k1 by (simp add: keeps_logs_def r2_def logs_unlink)
    have "map_of (rl_disk r2) k = None" by (simp add: r2_def)
    then have "keeps_logs u i r (refund_charges k (p\<lparr>pj_file := False\<rparr>) r2)"
      using k2 by (simp add: refund_charges_def put_pane_def keeps_logs_def logs_put_gone)
    with Some True show ?thesis
      by (simp add: settle_pane_file_def Let_def remove_pane_file_def r1_def [symmetric] r2_def [symmetric] keeps_drop)
  qed
qed

lemma keeps_settle: "keeps_logs u i r r' \<Longrightarrow> keeps_logs u i r (snd (settle_pane_file unlink forget k r'))"
  using keeps_logs_trans settle_logs by blast

lemma sweep_one_logs: "keeps_logs u i r (snd (snd s)) \<Longrightarrow> keeps_logs u i r (snd (snd (sweep_one unlink current s k)))"
proof -
  assume a: "keeps_logs u i r (snd (snd s))"
  obtain l f r0 where s: "s = (l, f, r0)" by (cases s) auto
  show ?thesis
  proof (cases "pane_at k r0")
    case None
    with a s show ?thesis by (simp add: sweep_one_def)
  next
    case (Some p)
    define r1 where "r1 = put_pane k (p\<lparr>pj_file := False\<rparr>) r0"
    have k1: "keeps_logs u i r r1"
      unfolding r1_def by (rule keeps_put [OF _ Some]) (use a s in \<open>simp_all add: same_log_def\<close>)
    define r2 where "r2 = r1\<lparr>rl_disk := AList.delete k (rl_disk r1), rl_source := source_unlinked k (rl_source r1)\<rparr>"
    have k2: "keeps_logs u i r r2" using k1 by (simp add: keeps_logs_def r2_def logs_unlink)
    have "map_of (rl_disk r2) k = None" by (simp add: r2_def)
    then have "keeps_logs u i r (refund_charges k (p\<lparr>pj_file := False\<rparr>) r2)"
      using k2 by (simp add: refund_charges_def put_pane_def keeps_logs_def logs_put_gone)
    then show ?thesis using a s Some k1
      by (simp add: sweep_one_def Let_def remove_pane_file_def r1_def [symmetric] r2_def [symmetric] keeps_drop)
  qed
qed

lemma sweep_logs: "keeps_logs u i r r' \<Longrightarrow> keeps_logs u i r (snd (snd (sweep_retired_session unlink current r')))"
proof -
  assume a: "keeps_logs u i r r'"
  have "keeps_logs u i r (snd (snd (foldl (sweep_one unlink current) s ks)))" if "keeps_logs u i r (snd (snd s))" for s ks
    using that by (induction ks arbitrary: s) (simp, simp add: sweep_one_logs del: split_paired_All)
  from this [of "(0, 0, r')" "map fst (rl_panes r')"] a show ?thesis
    by (cases "foldl (sweep_one unlink current) (0, 0, r') (map fst (rl_panes r'))") (simp add: sweep_retired_session_def)
qed

lemma sweep_session_logs: "keeps_logs u i r r' \<Longrightarrow> keeps_logs u i r (sweep_session unlink current r')"
  by (simp add: sweep_session_def sweep_logs)

named_theorems logs_rules

declare sweep_session_logs [logs_rules] keeps_settle [logs_rules]

lemma release_adoption_logs [logs_rules]: "keeps_logs u i r r' \<Longrightarrow> keeps_logs u i r (release_adoption_allowance k r')"
  by (auto simp: release_adoption_allowance_def same_log_def pane_at_def split: option.splits intro!: keeps_put)

lemma entomb_logs [logs_rules]: "keeps_logs u i r r' \<Longrightarrow> keeps_logs u i r (entomb reason k r')"
  by (auto simp: entomb_def same_log_def split: option.splits intro!: keeps_put_invalid [where reason = reason])

lemma settle_adoption_logs [logs_rules]: "keeps_logs u i r r' \<Longrightarrow> keeps_logs u i r (settle_adoption n r')"
  by (simp add: settle_adoption_def)

lemma release_rollback_logs [logs_rules]: "keeps_logs u i r r' \<Longrightarrow> keeps_logs u i r (release_rotation_rollback k r')"
  by (auto simp: release_rotation_rollback_def same_log_def pane_at_def Let_def split: option.splits intro!: keeps_put)

lemma release_forward_logs [logs_rules]: "keeps_logs u i r r' \<Longrightarrow> keeps_logs u i r (release_rotation_forward k r')"
  by (auto simp: release_rotation_forward_def same_log_def pane_at_def split: option.splits intro!: keeps_put)

lemma release_reservations_logs [logs_rules]:
  "keeps_logs u i r r' \<Longrightarrow> keeps_logs u i r (release_rotation_pane_reservations k r')"
  by (simp add: release_rotation_pane_reservations_def logs_rules)

lemma set_lists_logs [logs_rules]:
  "keeps_logs u i r r' \<Longrightarrow> keeps_logs u i r (set_capacity n c r')"
  "keeps_logs u i r r' \<Longrightarrow> keeps_logs u i r (set_rotation n t r')"
  "keeps_logs u i r r' \<Longrightarrow> keeps_logs u i r (drop_capacity b n r')"
  by (simp_all add: set_capacity_def set_rotation_def drop_capacity_def split: option.split)

lemma arm_logs [logs_rules]: "keeps_logs u i r r' \<Longrightarrow> keeps_logs u i r (arm_rotation_rollback k r')"
  by (auto simp: arm_rotation_rollback_def same_log_def split: option.splits intro!: keeps_put)

lemma retire_pane_slot_logs [logs_rules]: "keeps_logs u i r r' \<Longrightarrow> keeps_logs u i r (retire_pane_slot reason k r')"
  by (auto simp: retire_pane_slot_def same_log_def invalidate_pane_def split: option.splits
    intro!: keeps_put_invalid [where reason = reason])

lemma retire_slot_logs [logs_rules]:
  "keeps_logs u i r r' \<Longrightarrow> keeps_logs u i r (invalidate_at reason k r')"
  "keeps_logs u i r r' \<Longrightarrow> keeps_logs u i r (retire_slot k r')"
  by (auto simp: invalidate_at_def split: option.splits intro!: keeps_put_invalid [where reason = reason])
    (auto simp: retire_slot_def same_log_def split: option.splits intro!: keeps_put)

lemma release_geometry_logs [logs_rules]: "keeps_logs u i r r' \<Longrightarrow> keeps_logs u i r (release_geometry n r')"
  by (auto simp: release_geometry_def release_geometry_pane_def same_log_def pane_at_def split: option.splits intro!: keeps_put)

lemma settlements_log [logs_rules]:
  "keeps_logs u i r (adoption_commit unlink n r)" "keeps_logs u i r (adoption_abort unlink n r)"
  "keeps_logs u i r (rotation_commit unlink n r)" "keeps_logs u i r (rotation_fail_committed unlink n r)"
  "keeps_logs u i r (rotation_abort unlink n r)" "keeps_logs u i r (rotation_fatal unlink n r)"
  "keeps_logs u i r (release_capacity n r)"
  by (simp_all add: adoption_commit_def adoption_abort_def rotation_commit_def rotation_fail_committed_def rotation_abort_def
    rotation_fatal_def release_capacity_def Let_def logs_rules split: option.split)

lemma arm_rollback_logs: "keeps_logs u i r (snd (arm_rollback n r))"
  by (simp add: arm_rollback_def logs_rules split: option.split)

lemma begin_capacity_logs: "keeps_logs u i r (snd (begin_rotation_capacity k r))"
  by (auto simp: begin_rotation_capacity_def Let_def same_log_def pane_at_def split: option.splits prod.splits bool.splits intro!: keeps_put)

lemma retire_pane_logs: "keeps_logs u i r (snd (retire_pane unlink k r))"
proof (cases "rl_closed r \<or> pane_at k r = None")
  case True
  then show ?thesis by (auto simp: retire_pane_def)
next
  case False
  then obtain p where p: "pane_at k r = Some p" "\<not> rl_closed r" by auto
  have "keeps_logs u i r (put_pane k (invalidate_pane ReasonSourceReplacement p) r)"
    by (rule keeps_put_invalid [OF keeps_logs_refl p(1), where reason = ReasonSourceReplacement]) simp
  moreover have "keeps_logs u i r (put_pane k ((invalidate_pane ReasonSourceReplacement p)\<lparr>pj_slot_retired := True\<rparr>) r)"
    by (rule keeps_put_invalid [OF keeps_logs_refl p(1), where reason = ReasonSourceReplacement]) (simp add: same_log_def)
  ultimately show ?thesis using p by (simp add: retire_pane_def Let_def keeps_settle)
qed

lemma reconcile_logs: "keeps_logs u i r (snd (reconcile_recovered unlink decisions r))"
proof -
  have "keeps_logs u i r (snd (reconcile_outcome unlink d k p r'))" if "keeps_logs u i r r'" for d k p r'
    using that keeps_logs_trans [OF that retire_pane_logs]
    by (auto simp: reconcile_outcome_def split: recovery_disposition.split prod.split)
      (metis snd_conv)+
  then have one: "keeps_logs u i r (snd (reconcile_one unlink decisions s rv))" if "keeps_logs u i r (snd s)" for s rv
    using that by (cases s) (auto simp: reconcile_one_def Let_def split: option.split prod.split, metis snd_conv)
  have "keeps_logs u i r (snd (foldl (reconcile_one unlink decisions) s rvs))" if "keeps_logs u i r (snd s)" for s rvs
    using that one by (induction rvs arbitrary: s) auto
  from this [of "([], r)" "rl_recovered r"] show ?thesis
    by (cases "foldl (reconcile_one unlink decisions) ([], r) (rl_recovered r)") (simp add: reconcile_recovered_def)
qed

lemma reclaim_logs: "keeps_logs u i r (snd (reclaim_retired k r))"
  by (simp add: reclaim_retired_def keeps_drop split: option.split)

lemma settle_owner_logs: "keeps_logs u i r (settle_failed_owner w r)"
  by (auto simp: settle_failed_owner_def same_log_def split: option.split intro!: keeps_put)

lemma retire_recovered_logs: "keeps_logs u i r r' \<Longrightarrow> keeps_logs u i r (snd (retire_recovered k source b r'))"
proof -
  assume a: "keeps_logs u i r r'"
  have one: "keeps_logs u i r (snd (retire_recovered_one k source b s rv))" if "keeps_logs u i r (snd s)" for s rv
    using that by (cases s) (simp add: retire_recovered_one_def Let_def logs_rules)
  have "keeps_logs u i r (snd (foldl (retire_recovered_one k source b) s rvs))" if "keeps_logs u i r (snd s)" for s rvs
    using that one by (induction rvs arbitrary: s) auto
  from this [of "(False, r')"] a show ?thesis by (simp add: retire_recovered_def)
qed

lemma reclaim_session_logs: "keeps_logs u i r (reclaim_retired_session unlink k r)"
  by (simp add: reclaim_retired_session_def sweep_session_logs retire_recovered_logs)

lemma transfer_logs: "keeps_logs u i r (snd (transfer_settled_failed unlink k source r))"
proof -
  have "keeps_logs u i r (snd (settle_pane_file unlink True key r))" for key by (rule settle_logs)
  then show ?thesis
    by (auto simp: transfer_settled_failed_def split: option.split prod.split bool.split) (metis snd_conv)+
qed

section \<open>What writes to them\<close>

lemma step_recoverable:
  assumes "recoverable u i d p" "pj_state p = EligibilityContinuous" "op_ok op" "pane_step u i (p, d) op = (p', d')"
  shows "recoverable u i d' p'"
proof -
  from assms(1,2) obtain hb where "headed u i hb p" "pane_kept hb (p, d)" by (auto simp: recoverable_def)
  with pane_step_kept [of op u i hb "(p, d)"] assms(3,4) show ?thesis by (auto simp: recoverable_def)
qed

text \<open>A generation and its file after a write, in the map and in the directory.\<close>

lemma stepped_logs:
  assumes "pane_at k r = Some p" "pj_state p = EligibilityContinuous" "op_ok op" "same_log p q"
    and "pane_step u i (q, file_at k r) op = (p1, d1)" "same_log p1 p'"
    and "rl_panes r' = rl_panes r" "rl_disk r' = rl_disk r"
  shows "keeps_logs u i r (put_pane k p' (grow_file k d1 r'))"
proof (cases "map_of (rl_disk r) k")
  case None
  then show ?thesis using assms(7,8)
    by (simp add: keeps_logs_def grow_file_def put_pane_def logs_put_gone)
next
  case (Some d)
  then have f: "file_at k r = d" by (simp add: file_at_def)
  have c: "pj_state q = EligibilityContinuous" using assms(2,4) by (simp add: same_log_def)
  have "recoverable u i d1 p'" if "realm_logs u i r"
  proof -
    have "recoverable u i d p" using that assms(1) Some by (simp add: logs_ok_def pane_at_def)
    then have "recoverable u i d q" by (simp add: same_log_recoverable [OF assms(4)])
    from step_recoverable [OF this c assms(3) assms(5) [unfolded f]] show ?thesis
      by (simp add: same_log_recoverable [OF assms(6)])
  qed
  then show ?thesis using Some assms(7,8)
    by (simp add: keeps_logs_def grow_file_def put_pane_def put_file_def logs_written)
qed

lemma convert_same:
  "convert_hold oh l f p r = (p1, r1) \<Longrightarrow> same_log p p1 \<and> rl_panes r1 = rl_panes r \<and> rl_disk r1 = rl_disk r"
proof -
  have "same_log p (spend_hold h l f p)" for h by (cases h) (simp_all add: same_log_def)
  then show "convert_hold oh l f p r = (p1, r1) \<Longrightarrow> same_log p p1 \<and> rl_panes r1 = rl_panes r \<and> rl_disk r1 = rl_disk r"
    by (auto simp: convert_hold_def Let_def same_log_def split: option.splits if_splits)
qed

lemma charged_output_logs:
  assumes "pane_at k r = Some p" "pj_state p = EligibilityContinuous" "len payload < 2 ^ 32"
    and "same_log p q" "rl_panes r1 = rl_panes r" "rl_disk r1 = rl_disk r"
  shows "keeps_logs u i r (snd (charged_output answers k payload q r1))"
proof -
  let ?q = "q\<lparr>pj_physical := pj_physical q + physical_append_cost payload\<rparr>"
  obtain res p2 d2 where w: "write_output answers payload ?q (file_at k r) = (res, p2, d2)"
    by (cases "write_output answers payload ?q (file_at k r)") auto
  have f: "file_at k r1 = file_at k r" using assms(6) by (simp add: file_at_def)
  have q: "same_log p ?q" "pj_state ?q = EligibilityContinuous" using assms(2,4) by (simp_all add: same_log_def)
  have s: "pane_step u i (?q, file_at k r) (PaneOutput answers payload) = (p2, d2)"
    using w q(2) by (simp add: pane_step_def)
  have o: "op_ok (PaneOutput answers payload)" using assms(3) by (simp add: op_ok_def)
  have "keeps_logs u i r (put_pane k p' (grow_file k d2 (r1\<lparr>rl_physical_total := x\<rparr>)))"
    "keeps_logs u i r (put_pane k p' (grow_file k d2 (r1\<lparr>rl_physical_total := x, rl_total := y\<rparr>)))" if "same_log p2 p'" for p' x y
    by (rule stepped_logs [OF assms(1,2) o q(1) s that]; simp add: assms(5,6))+
  then show ?thesis
    by (cases res) (simp_all add: charged_output_def Let_def f w same_log_def)
qed

lemma append_admitted_logs:
  assumes "pane_at k r = Some p" "pj_state p = EligibilityContinuous" "len payload < 2 ^ 32"
  shows "keeps_logs u i r (snd (append_admitted answers k payload p r))"
proof -
  have inv: "keeps_logs u i r (put_pane k (invalidate_pane reason p) r)" for reason
    by (rule keeps_put_invalid [OF keeps_logs_refl assms(1), where reason = reason]) simp
  have "keeps_logs u i r (snd (charged_output answers k payload p1 r1))" if "convert_hold oh l f p r = (p1, r1)" for oh l f p1 r1
    using convert_same [OF that] by (intro charged_output_logs [OF assms]) simp_all
  with inv show ?thesis by (simp add: append_admitted_def Let_def split: prod.split)
qed

lemma geometry_locked_logs:
  assumes "pane_at k r = Some p" "pj_state p = EligibilityContinuous" "geometry_valid g"
  shows "keeps_logs u i r (snd (append_geometry_locked answers k g p r))"
proof -
  let ?q = "p\<lparr>pj_physical := pj_physical p + geometry_record_cost\<rparr>"
  obtain res p2 d2 where w: "write_geometry answers g ?q (file_at k r) = (res, p2, d2)"
    by (cases "write_geometry answers g ?q (file_at k r)") auto
  have q: "same_log p ?q" "pj_state ?q = EligibilityContinuous" using assms(2) by (simp_all add: same_log_def)
  have s: "pane_step u i (?q, file_at k r) (PaneGeometry answers g) = (p2, d2)"
    using w q(2) assms(3) by (simp add: pane_step_def)
  have o: "op_ok (PaneGeometry answers g)" by (simp add: op_ok_def)
  have "keeps_logs u i r (put_pane k p' (grow_file k d2 (r\<lparr>rl_physical_total := x\<rparr>)))"
    "keeps_logs u i r (put_pane k p' (grow_file k d2 (r\<lparr>rl_physical_total := x, rl_total := y\<rparr>)))" if "same_log p2 p'" for p' x y
    by (rule stepped_logs [OF assms(1,2) o q(1) s that]; simp)+
  then show ?thesis
    by (cases res) (simp_all add: append_geometry_locked_def Let_def w same_log_def)
qed

lemma append_geometry_logs: "keeps_logs u i r (snd (append_geometry answers k g r))"
  by (auto simp: append_geometry_def split: option.split intro!: geometry_locked_logs keeps_invalid)

lemma reserve_geometry_logs: "keeps_logs u i r (snd (reserve_geometry k r))"
  by (auto simp: reserve_geometry_def same_log_def pane_at_def split: option.splits intro!: keeps_put)

lemma append_reserved_logs: "keeps_logs u i r (snd (append_reserved_geometry answers n g r))"
proof -
  let ?r = "release_geometry n r"
  have l: "keeps_logs u i r ?r" by (rule release_geometry_logs) simp
  then show ?thesis
    by (auto simp: append_reserved_geometry_def Let_def split: option.split intro!: keeps_logs_trans [OF l] geometry_locked_logs)
qed

lemma sync_logs: "keeps_logs u i r (snd (realm_sync answer k r))"
proof (cases "pane_at k r")
  case (Some p)
  have "keeps_logs u i r (put_pane k (invalidate_pane reason p) r)" for reason
    by (rule keeps_put_invalid [OF keeps_logs_refl Some, where reason = reason]) simp
  moreover have "keeps_logs u i r (put_pane k p r)" by (rule keeps_put [OF keeps_logs_refl Some]) simp
  ultimately show ?thesis using Some by (simp add: realm_sync_def sync_pane_def split: option.split)
qed (simp add: realm_sync_def)

lemma advance_logs:
  assumes "jo_incarnation (rl_options r) = i" "ci_read io = None"
  shows "keeps_logs u i r (snd (realm_advance_committed u io k rk record r))"
proof (cases "pane_at k r")
  case (Some p)
  have inv: "keeps_logs u i r (put_pane k (invalidate_pane reason p) r)" for reason
    by (rule keeps_put_invalid [OF keeps_logs_refl Some, where reason = reason]) simp
  obtain res p1 d1 where a: "advance_committed u i io record p (file_at k r) = (res, p1, d1)"
    by (cases "advance_committed u i io record p (file_at k r)") auto
  have "keeps_logs u i r (put_pane k p1 (grow_file k d1 r))" if c: "pj_state p = EligibilityContinuous"
  proof -
    have o: "op_ok (PaneCommit io record)" using assms(2) by (simp add: op_ok_def)
    have s: "pane_step u i (p, file_at k r) (PaneCommit io record) = (p1, d1)" using a by (simp add: pane_step_def)
    show ?thesis by (rule stepped_logs [OF Some c o same_log_refl s same_log_refl]) simp_all
  qed
  with inv a Some assms(1) show ?thesis by (simp add: realm_advance_committed_def)
qed (simp add: realm_advance_committed_def)

section \<open>New generations\<close>

text \<open>The header a realm writes is one its decoder reads back.\<close>

definition header_reads :: "(bytes \<Rightarrow> journal_header option) \<Rightarrow> journal_header \<Rightarrow> bool" where
  "header_reads u h \<longleftrightarrow> u (marshal_header h) = Some h"

lemma create_logs:
  assumes "pane_at k r = None" "encode_header (new_header k i initial origin) = Inr header"
    and "header_reads u (new_header k i initial origin)" "initial = None \<or> (\<exists>g. initial = Some g \<and> geometry_valid g)"
  shows "keeps_logs u i r (snd (create_pane_with_header io k initial origin header b r))"
proof -
  have unlinked: "keeps_logs u i r (snd (remove_pane_file unlink k r'))" if "keeps_logs u i r r'" for unlink r'
    using that by (auto simp: remove_pane_file_def keeps_logs_def logs_unlink)
  have placed: "keeps_logs u i r (put_file k bs r')" if "rl_panes r' = rl_panes r" "rl_disk r' = rl_disk r" for bs r'
    using that assms(1) by (simp add: keeps_logs_def put_file_def pane_at_def logs_file)
  show ?thesis
  proof (cases "source_claim_create k (rl_source r)")
    case (Pair ok quota)
    obtain err written where w: "write_all (fi_writes io) header [] = (err, written)" by fastforce
    define r1 where "r1 = put_file k written (r\<lparr>rl_source := quota, rl_physical_total := rl_physical_total r + len header\<rparr>)"
    have r1: "keeps_logs u i r r1" unfolding r1_def by (rule placed) simp_all
    have made: "keeps_logs u i r (put_pane k (created_pane k (fi_stream io) initial origin header) r1)" if "err = None"
    proof -
      have "written = header" using write_all_lands [of "fi_writes io" header "[]"] w that by auto
      moreover have "headed u i header (created_pane k s initial origin header)" for s
        using created_headed [OF assms(2) _ assms(4)] assms(3) by (simp add: header_reads_def)
      moreover have "pane_kept header (created_pane k s initial origin header, header)" for s
        using created_holds [of header k s initial origin] by (auto simp: pane_kept_def created_pane_def)
      ultimately have "recoverable u i written (created_pane k s initial origin header)" for s
        by (auto simp: recoverable_def)
      then show ?thesis
        by (simp add: keeps_logs_def r1_def put_pane_def put_file_def logs_written)
    qed
    obtain gone r2 where g: "remove_pane_file (fi_unlink io) k r1 = (gone, r2)" by fastforce
    have r2: "keeps_logs u i r r2" using unlinked [OF r1, of "fi_unlink io"] g by simp
    show ?thesis
      using Pair w g r2 made placed unlinked [of "r\<lparr>rl_source := quota\<rparr>"]
      by (simp add: create_pane_with_header_def Let_def r1_def [symmetric] split: bool.split create_answer.split)
  qed
qed

lemma create_capacity_logs:
  assumes "pane_at k r = None" "header_reads u (new_header k i initial origin)"
    and "initial = None \<or> (\<exists>g. initial = Some g \<and> geometry_valid g)" "jo_incarnation (rl_options r) = i"
  shows "keeps_logs u i r (snd (create_pane_with_capacity io k initial origin b r))"
  using create_logs [OF assms(1) _ assms(2,3)] assms(4)
  by (simp add: create_pane_with_capacity_def split: sum.split)

text \<open>The generation just created, when it was.\<close>

lemma created_at:
  "create_pane_with_header io k initial origin header b r = (None, r') \<Longrightarrow>
     pane_at k r' = Some (created_pane k (fi_stream io) initial origin header)"
  by (auto simp: create_pane_with_header_def Let_def put_pane_def pane_at_def split: if_splits prod.splits bool.splits create_answer.splits)

lemma created_continuous:
  "create_pane_with_capacity io k initial origin b r = (None, r') \<Longrightarrow> \<exists>p. pane_at k r' = Some p \<and> pj_state p = EligibilityContinuous"
  by (auto simp: create_pane_with_capacity_def created_pane_def split: sum.splits dest: created_at)

lemma admit_logs:
  assumes "header_reads u (new_header k i (Some g) OriginBirth)" "jo_incarnation (rl_options r) = i"
  shows "keeps_logs u i r (snd (admit_pane io k g r))"
proof (cases "rl_closed r \<or> \<not> geometry_valid g \<or> pane_at k r \<noteq> None")
  case True
  then show ?thesis by (auto simp: admit_pane_def split: option.split)
next
  case False
  have "keeps_logs u i r (snd (create_pane_with_capacity io k (Some g) OriginBirth False (r\<lparr>rl_retention := l\<rparr>)))" for l
    using create_capacity_logs [of k "r\<lparr>rl_retention := l\<rparr>" u i "Some g" OriginBirth io False] assms False
    by (simp add: pane_at_def) (simp add: keeps_logs_def)
  then show ?thesis using False
    by (auto simp: admit_pane_def split: prod.split bool.split option.split) (metis snd_conv)+
qed

lemma append_logs:
  assumes "header_reads u (new_header k i None OriginBirth)" "jo_incarnation (rl_options r) = i" "len payload < 2 ^ 32"
  shows "keeps_logs u i r (snd (realm_append io answers k payload r))"
proof (cases "pane_at k r")
  case (Some p)
  then show ?thesis using append_admitted_logs [OF Some _ assms(3)] by (simp add: realm_append_def)
next
  case None
  have made: "keeps_logs u i r r1 \<and> (err = None \<longrightarrow> (\<exists>p. pane_at k r1 = Some p \<and> pj_state p = EligibilityContinuous))"
    if "create_pane_with_capacity io k None OriginBirth False (r\<lparr>rl_retention := l\<rparr>) = (err, r1)" for l err r1
    using create_capacity_logs [of k "r\<lparr>rl_retention := l\<rparr>" u i None OriginBirth io False] assms None that created_continuous [of io k None OriginBirth False _ r1]
    by (simp add: pane_at_def) (auto simp: keeps_logs_def)
  show ?thesis
  proof (cases "rl_closed r \<or> \<not> fst (reserve_complete_pane True (rl_retention r))")
    case True
    then show ?thesis using None by (auto simp: realm_append_def split: prod.split bool.split)
  next
    case False
    then obtain l where l: "reserve_complete_pane True (rl_retention r) = (True, l)" by (cases "reserve_complete_pane True (rl_retention r)") auto
    obtain err r1 where c: "create_pane_with_capacity io k None OriginBirth False (r\<lparr>rl_retention := l\<rparr>) = (err, r1)" by fastforce
    show ?thesis
    proof (cases err)
      case (Some e)
      with None False l c made [OF c] show ?thesis by (simp add: realm_append_def)
    next
      case n: None
      then obtain p where p: "pane_at k r1 = Some p" "pj_state p = EligibilityContinuous" using made [OF c] by auto
      with None False l c n keeps_logs_trans [OF conjunct1 [OF made [OF c]] append_admitted_logs [OF p assms(3)]]
      show ?thesis by (simp add: realm_append_def)
    qed
  qed
qed

lemma begin_rotated_logs:
  assumes "header_reads u (new_header k i (Some g) OriginRotated)" "jo_incarnation (rl_options r) = i"
  shows "keeps_logs u i r (snd (begin_rotated_pane io k g n r))"
proof (cases "capacity_at n r")
  case None
  then show ?thesis by (simp add: begin_rotated_pane_def)
next
  case (Some c)
  let ?r1 = "set_capacity n (c\<lparr>rc_attempted := True\<rparr>) r"
  show ?thesis
  proof (cases "geometry_valid g \<and> rotation_allowed k c r")
    case False
    with Some show ?thesis by (auto simp: begin_rotated_pane_def)
  next
    case True
    then have none: "pane_at k ?r1 = None" by (simp add: rotation_allowed_def set_capacity_def pane_at_def)
    obtain err r2 where c: "create_pane_with_capacity io k (Some g) OriginRotated True ?r1 = (err, r2)" by fastforce
    have "keeps_logs u i ?r1 r2"
      using create_capacity_logs [OF none assms(1), of io True] c assms(2) True by (simp add: set_capacity_def)
    then have k2: "keeps_logs u i r r2" by (simp add: keeps_logs_def set_capacity_def)
    show ?thesis
    proof (cases err)
      case (Some e)
      with k2 \<open>capacity_at n r = Some c\<close> c True show ?thesis
        by (simp add: begin_rotated_pane_def Let_def set_capacity_def)
    next
      case None
      then obtain p where p: "pane_at k r2 = Some p" using created_continuous c by blast
      have "keeps_logs u i r (snd (rotated_created k n (c\<lparr>rc_attempted := True\<rparr>) p r2))"
        using p by (auto simp: rotated_created_def Let_def set_capacity_def same_log_def pane_at_def intro!: keeps_put k2)
      with k2 \<open>capacity_at n r = Some c\<close> c True None p show ?thesis
        by (simp add: begin_rotated_pane_def Let_def split: prod.split) (metis snd_conv)
    qed
  qed
qed

lemma begin_adopted_logs:
  assumes "pane_at k r = None" "header_reads u (new_header k i (Some g) OriginReconstructed)" "geometry_valid g"
    and "jo_incarnation (rl_options r) = i"
  shows "keeps_logs u i r (snd (begin_adopted io k g l f r))"
proof (cases "encode_header (new_header k i (Some g) OriginReconstructed)")
  case (Inl e)
  then show ?thesis using assms(4) by (simp add: begin_adopted_def release_allowance_def)
next
  case (Inr header)
  define r1 where "r1 = (if f \<ge> len header then r else r\<lparr>rl_physical_reserved := rl_physical_reserved r - f\<rparr>)"
  define held where "held = (if f \<ge> len header then len header else 0)"
  have at: "pane_at k r1 = None" using assms(1) by (simp add: r1_def pane_at_def)
  obtain err r2 where c: "create_pane_with_header io k (Some g) OriginReconstructed header (held > 0) r1 = (err, r2)" by fastforce
  have "keeps_logs u i r1 r2"
    using create_logs [OF at Inr assms(2), of io "held > 0"] c assms(3) by simp
  then have k2: "keeps_logs u i r r2" by (auto simp: keeps_logs_def r1_def split: if_splits)
  show ?thesis
  proof (cases err)
    case (Some e)
    with k2 Inr c assms(4) show ?thesis
      by (simp add: begin_adopted_def Let_def r1_def [symmetric] held_def [symmetric] release_allowance_def)
  next
    case None
    with created_at c have p: "pane_at k r2 = Some (created_pane k (fi_stream io) (Some g) OriginReconstructed header)" by metis
    show ?thesis
      using p k2 Inr c assms(4) None
      by (simp add: begin_adopted_def Let_def r1_def [symmetric] held_def [symmetric])
        (auto intro!: keeps_put simp: same_log_def pane_at_def)
  qed
qed

lemma begin_for_source_logs:
  assumes "pane_at k r = None" "header_reads u (new_header k i (Some g) OriginReconstructed)" "geometry_valid g"
    and "jo_incarnation (rl_options r) = i"
  shows "keeps_logs u i r (snd (begin_for_source io k g source l f r))"
proof (cases "source = no_source")
  case True
  then show ?thesis using begin_adopted_logs [OF assms] by (simp add: begin_for_source_def)
next
  case False
  obtain e q where q: "reserve_source k source (rl_source r) = (e, q)" by fastforce
  have "keeps_logs u i (r\<lparr>rl_source := q\<rparr>) (snd (begin_adopted io k g l f (r\<lparr>rl_source := q\<rparr>)))"
    by (rule begin_adopted_logs) (use assms in \<open>simp_all add: pane_at_def\<close>)
  then have "keeps_logs u i r (snd (begin_adopted io k g l f (r\<lparr>rl_source := q\<rparr>)))" by (simp add: keeps_logs_def)
  then show ?thesis using False q
    by (cases e; cases "begin_adopted io k g l f (r\<lparr>rl_source := q\<rparr>)") (simp_all add: begin_for_source_def release_allowance_def)
qed

lemma begin_live_logs: "keeps_logs u i r (snd (begin_live k g source p r))"
  by (auto simp: begin_live_def split: prod.split option.split)

lemma begin_reconstructed_logs:
  assumes wf: "realm_wf r" and h: "header_reads u (new_header k i (Some g) OriginReconstructed)" "jo_incarnation (rl_options r) = i"
  shows "keeps_logs u i r (snd (begin_reconstructed io k g source r))"
proof (cases "rl_closed r \<or> \<not> geometry_valid g \<or> pane_at k r \<noteq> None")
  case True
  then show ?thesis using begin_live_logs by (auto simp: begin_reconstructed_def)
next
  case False
  obtain t r1 where t: "transfer_settled_failed (fi_unlink io) k source r = (t, r1)" by fastforce
  note tm = transfer_moves [OF t wf]
  have k1: "keeps_logs u i r r1" using transfer_logs [of u i r "fi_unlink io" k source] t by simp
  show ?thesis
  proof (cases t)
    case (Inl e)
    then show ?thesis using k1 False t by (simp add: begin_reconstructed_def)
  next
    case (Inr v)
    obtain l1 f1 moved where v: "v = (l1, f1, moved)" by (cases v)
    have m1: "moves (- l1) 0 (- f1) 0 r r1" using tm(1) Inr v by simp
    have n1: "pane_at k r1 = None" using tm(2) False by blast
    obtain ok r2 where a: "adoption_slot k source moved r1 = (ok, r2)" by fastforce
    have k2: "keeps_logs u i r r2"
      using a k1 retire_recovered_logs [OF k1, of k source True] by (auto simp: adoption_slot_def split: prod.splits bool.splits if_splits)
    have m2: "moves (- l1) 0 (- f1) 0 r r2" using m1 adoption_slot_stays [OF a] by (rule moves_stays)
    have n2: "pane_at k r2 = None" by (rule adoption_slot_absent [OF a n1])
    show ?thesis
    proof (cases ok)
      case no: False
      then show ?thesis using False t Inr v a k2 by (simp add: begin_reconstructed_def)
    next
      case True
      obtain l2 f2 r3 where s: "sweep_retired_session (fi_unlink io) k r2 = (l2, f2, r3)"
        by (cases "sweep_retired_session (fi_unlink io) k r2")
      have m3: "moves (- l2) 0 (- f2) 0 r2 r3" using sweep_moves [OF s moves_wf [OF m2 wf]] by simp
      have n3: "pane_at k r3 = None" by (rule sweep_absent [OF s n2])
      have k3: "keeps_logs u i r r3" using sweep_logs [OF k2, of "fi_unlink io" k] s by simp
      have "moves (- l1 - l2) 0 (- f1 - f2) 0 r r3" using moves_trans [OF m2 m3] by simp
      then have inc: "jo_incarnation (rl_options r3) = i" using wf h(2) by (simp add: moves_def same_caps_def)
      have "keeps_logs u i r (snd (begin_for_source io k g source l f (r3\<lparr>rl_reserved := x, rl_physical_reserved := y\<rparr>)))" for l f x y
      proof -
        have "keeps_logs u i (r3\<lparr>rl_reserved := x, rl_physical_reserved := y\<rparr>)
            (snd (begin_for_source io k g source l f (r3\<lparr>rl_reserved := x, rl_physical_reserved := y\<rparr>)))"
          by (rule begin_for_source_logs) (use n3 inc h(1) False in \<open>simp_all add: pane_at_def\<close>)
        with k3 show ?thesis by (simp add: keeps_logs_def)
      qed
      then show ?thesis using False t Inr v a True s by (simp add: begin_reconstructed_def Let_def)
    qed
  qed
qed

lemma begin_pane_logs:
  assumes "realm_wf r" "header_reads u (new_header k i (Some g) OriginReconstructed)" "jo_incarnation (rl_options r) = i"
  shows "keeps_logs u i r (snd (begin_reconstructed_pane io k g r))"
    "keeps_logs u i r (snd (begin_reconstructed_pane_for_source io k g source r))"
    "keeps_logs u i r (snd (admit_reconstructed_pane io unlink k g r))"
proof -
  note b = begin_reconstructed_logs [OF assms]
  show "keeps_logs u i r (snd (begin_reconstructed_pane io k g r))" by (simp add: begin_reconstructed_pane_def b)
  show "keeps_logs u i r (snd (begin_reconstructed_pane_for_source io k g source r))"
    by (simp add: begin_reconstructed_pane_for_source_def b)
  obtain res r1 where r1: "begin_reconstructed_pane io k g r = (res, r1)" by fastforce
  then have "keeps_logs u i r r1" using b [of io "reserved_source (rl_source r) k"] by (simp add: begin_reconstructed_pane_def)
  with r1 show "keeps_logs u i r (snd (admit_reconstructed_pane io unlink k g r))"
    by (auto simp: admit_reconstructed_pane_def split: sum.split intro: keeps_logs_trans settlements_log)
qed

section \<open>Runs\<close>

text \<open>The headers an operation may write, and what the environment is asked of it.\<close>

definition op_headers :: "string \<Rightarrow> realm_op \<Rightarrow> journal_header list" where
  "op_headers i op =
     (case op of
        AdmitPane _ k g \<Rightarrow> [new_header k i (Some g) OriginBirth]
      | AdmitReconstructed _ _ k g \<Rightarrow> [new_header k i (Some g) OriginReconstructed]
      | BeginReconstructed _ k g \<Rightarrow> [new_header k i (Some g) OriginReconstructed]
      | BeginReconstructedForSource _ k g _ \<Rightarrow> [new_header k i (Some g) OriginReconstructed]
      | BeginRotatedPane _ k g _ \<Rightarrow> [new_header k i (Some g) OriginRotated]
      | AppendOutput _ _ k _ \<Rightarrow> [new_header k i None OriginBirth]
      | _ \<Rightarrow> [])"

definition op_plain :: "(bytes \<Rightarrow> journal_header option) \<Rightarrow> string \<Rightarrow> realm_op \<Rightarrow> bool" where
  "op_plain u i op \<longleftrightarrow>
     list_all (header_reads u) (op_headers i op)
     \<and> (case op of
          AppendOutput _ _ _ payload \<Rightarrow> len payload < 2 ^ 32
        | WriterAppend _ _ _ _ payload \<Rightarrow> len payload < 2 ^ 32
        | AdvanceCommitted io _ _ _ \<Rightarrow> ci_read io = None
        | _ \<Rightarrow> True)"

definition realm_at :: "string \<Rightarrow> journal_realm \<Rightarrow> bool" where
  "realm_at i r \<longleftrightarrow> realm_wf r \<and> jo_incarnation (rl_options r) = i"

lemma in_turn_logs: "(\<And>r. realm_at i r \<Longrightarrow> keeps_logs u i r (f r)) \<Longrightarrow> realm_at i r \<Longrightarrow> keeps_logs u i r (in_turn f r)"
proof -
  assume f: "\<And>r. realm_at i r \<Longrightarrow> keeps_logs u i r (f r)" and r: "realm_at i r"
  have "realm_at i (with_ledger g r)" for g using r by (simp add: realm_at_def realm_wf_def with_ledger_def pane_at_def)
  from f [OF this] have "keeps_logs u i (with_ledger g r) (f (with_ledger g r))" for g .
  then show "keeps_logs u i r (in_turn f r)" by (simp add: in_turn_def keeps_logs_def)
qed

text \<open>A writer's append never creates a generation.\<close>

lemma writer_append_logs:
  assumes "len payload < 2 ^ 32"
  shows "keeps_logs u i r (snd (writer_append io answers w k payload r))"
proof (cases "pane_at k r")
  case (Some p)
  with append_admitted_logs [OF Some _ assms] show ?thesis by (simp add: writer_append_def realm_append_def)
qed (simp add: writer_append_def)

lemma close_logs: "keeps_logs u i r (realm_close r)"
  by (simp add: realm_close_def)

lemma step_logs: "realm_at i r \<Longrightarrow> op_plain u i op \<Longrightarrow> keeps_logs u i r (realm_step u r op)"
  by (cases op)
    (simp_all add: realm_step_def op_plain_def op_headers_def,
     (rule in_turn_logs, simp_all add: realm_at_def admit_logs begin_pane_logs append_logs writer_append_logs begin_rotated_logs
        settlements_log append_geometry_logs reserve_geometry_logs release_geometry_logs append_reserved_logs sync_logs
        advance_logs retire_pane_logs reclaim_session_logs arm_rollback_logs begin_capacity_logs close_logs
      | simp add: realm_at_def sync_logs advance_logs reclaim_logs reconcile_logs settle_owner_logs)+)

lemma scanned_logs:
  assumes "scan_one u (Inr r) e = Inr r'" "realm_logs u i r"
  shows "realm_logs u i r'"
proof -
  obtain k bs where e: "e = (k, Inr bs)" using assms(1) by (cases e) (auto simp: scan_one_def split: sum.splits)
  let ?p = "scanned_pane r (open_existing u bs)"
  have "pj_state (open_existing u bs) \<noteq> EligibilityContinuous"
    by (simp add: open_existing_def Let_def fail_closed_def split: prod.split)
  then have "recoverable u i bs ?p"
    by (simp add: recoverable_def scanned_pane_def projected_def)
  moreover have "rl_panes r' = AList.update k ?p (rl_panes r)" "rl_disk r' = AList.update k bs (rl_disk r)"
    using assms(1) e by (auto simp: scan_one_def Let_def put_pane_def split: if_splits)
  ultimately show ?thesis using assms(2) by (simp add: logs_written)
qed

lemma scan_fold_logs: "foldl (scan_one u) (Inr r) files = Inr r' \<Longrightarrow> realm_logs u i r \<Longrightarrow> realm_logs u i r'"
proof (induction files arbitrary: r)
  case (Cons e files)
  have stuck: "foldl (scan_one u) (Inl err) fs = Inl err" for err fs
    by (induction fs) (simp_all add: scan_one_def)
  obtain r1 where r1: "scan_one u (Inr r) e = Inr r1"
    using Cons.prems(1) stuck by (cases "scan_one u (Inr r) e") auto
  with Cons.IH [of r1] scanned_logs [OF r1 Cons.prems(2)] Cons.prems(1) show ?case by simp
qed simp

lemma opened_logs:
  assumes "open_realm u options cap pane_cap slots policy wake files = Inr r"
  shows "realm_logs u i r"
proof -
  let ?e = "empty_realm options cap pane_cap"
  obtain r1 where f: "foldl (scan_one u) (Inr ?e) files = Inr r1" and r: "rl_panes r = rl_panes r1" "rl_disk r = rl_disk r1"
    using assms by (auto simp: open_realm_def scan_realm_def split: sum.splits if_splits)
  have "realm_logs u i ?e" by (simp add: logs_ok_def empty_realm_def)
  from scan_fold_logs [OF f this] show ?thesis by (simp add: r)
qed

lemma run_logs:
  assumes "realm_safe r0 r0" "realm_logs u i r0" "jo_incarnation (rl_options r0) = i" "\<forall>op \<in> set ops. op_plain u i op"
  shows "realm_safe r0 (foldl (realm_step u) r0 ops) \<and> realm_logs u i (foldl (realm_step u) r0 ops)"
  using assms(4)
proof (induction ops rule: rev_induct)
  case Nil
  with assms show ?case by simp
next
  case (snoc op ops)
  let ?r = "foldl (realm_step u) r0 ops"
  have s: "realm_safe r0 ?r" "realm_logs u i ?r" using snoc by simp_all
  then have "realm_at i ?r" using assms(3) by (simp add: realm_at_def realm_safe_def same_caps_def)
  from step_logs [OF this, of u op] snoc.prems s realm_safe_step [OF s(1), of u op] show ?case
    by (simp add: keeps_logs_def)
qed

text \<open>
  C15: A restart serves what was acknowledged, whatever the realm did meanwhile. A realm is opened on any
  directory and runs any sequence of operations on all its panes, with any answers of the operating system to
  creates, writes, syncs and unlinks. At any point, for every generation whose file is still in the directory:
  reading that file as a restart does classifies it as recoverable with exactly the committed events the
  generation shows, in order, as long as the generation is live and continuous; and whenever the restart
  trusts the file at all, every event the generation shows as committed is there, in order, at the start.
\<close>

theorem realm_restart_serves_acknowledged:
  assumes "open_realm u options cap pane_cap slots policy wake files = Inr r0"
    and "\<forall>(k, content) \<in> set files. \<forall>bs. content = Inr bs \<longrightarrow> len bs < 2 ^ 63"
    and "0 \<le> jo_pane_cap options" "0 \<le> pane_cap"
    and "\<forall>op \<in> set ops. op_plain u (jo_incarnation options) op"
    and "r = foldl (realm_step u) r0 ops"
    and "pane_at k r = Some p" "map_of (rl_disk r) k = Some disk" "q = open_existing u disk"
  shows "(pj_state p = EligibilityContinuous \<and> pj_admitted p \<longrightarrow> pj_state q = EligibilityLegacy \<and> projected q = projected p)
    \<and> (pj_state q = EligibilityLegacy \<longrightarrow> prefix (projected p) (projected q))"
proof -
  have "len bs < 2 ^ 63" if "(k, Inr bs) \<in> set files" for k bs using assms(2) that by blast
  from opened [OF assms(1) this assms(3,4)] have o: "realm_safe r0 r0" "jo_incarnation (rl_options r0) = jo_incarnation options"
    by simp_all
  from run_logs [OF o(1) opened_logs [OF assms(1)] o(2) assms(5)] have "realm_logs u (jo_incarnation options) r"
    by (simp add: assms(6))
  then have "recoverable u (jo_incarnation options) disk p" using assms(7,8) by (simp add: logs_ok_def pane_at_def)
  from reopened [OF this assms(9)] show ?thesis .
qed

text \<open>A realm whose only generation was born and then left alone.\<close>

definition sample_restart_options :: journal_options where
  "sample_restart_options =
     \<lparr>jo_realm = ''r'', jo_incarnation = ''b'', jo_pane_cap = 5000, jo_realm_cap = 9000, jo_startup_recovery = False\<rparr>"

definition sample_admission :: realm_op where
  "sample_admission =
     AdmitPane \<lparr>fi_stream = ''s'', fi_create = CreateOpened, fi_writes = [(70000, None)], fi_unlink = \<lambda>_. False\<rparr>
       journal_sample_key \<lparr>jg_columns = 80, jg_rows = 24\<rparr>"

definition sample_restart_ops :: "realm_op list" where
  "sample_restart_ops = [sample_admission, CloseRealm]"

lemma sample_plain: "op_plain sample_unmarshal (jo_incarnation sample_restart_options) sample_admission"
  using sample_header_ok(2)
  by (simp add: sample_admission_def op_plain_def op_headers_def header_reads_def sample_restart_options_def sample_header_def)

lemma sample_admitted:
  "\<exists>r0 r p. open_realm sample_unmarshal sample_restart_options 200000 100000 4 None False [] = Inr r0
    \<and> r = realm_step sample_unmarshal r0 sample_admission
    \<and> pane_at journal_sample_key r = Some p \<and> map_of (rl_disk r) journal_sample_key = Some sample_header_bytes
    \<and> pj_state p = EligibilityContinuous \<and> pj_admitted p \<and> projected p = []
    \<and> p = sample_created \<and> \<not> rl_closed r \<and> rl_options r = sample_restart_options
    \<and> logical_room r (Some p) 3 \<and> physical_room r (Some p) (physical_append_cost ''one'')"
proof -
  obtain r0 where r0: "open_realm sample_unmarshal sample_restart_options 200000 100000 4 None False [] = Inr r0"
      "r0 = (empty_realm sample_restart_options 200000 100000)\<lparr>rl_retention := new_retention_ledger 4 None False 0\<rparr>"
    by (simp add: open_realm_def scan_realm_def max_realm_identities_def len_def empty_realm_def)
  let ?g = "\<lparr>jg_columns = 80, jg_rows = 24\<rparr> :: journal_geometry"
  have e: "encode_header (new_header journal_sample_key ''b'' (Some ?g) OriginBirth) = Inr sample_header_bytes"
    using sample_header_ok(1) by (simp add: sample_header_def)
  have n: "length sample_header_bytes \<le> 70000" "sample_header_bytes \<noteq> []"
    using encode_headerD(3,4) [OF e] by (auto simp: len_def header_limit_def)
  have w: "write_all [(70000, None)] sample_header_bytes [] = (None, sample_header_bytes)"
    using n by (subst write_all.simps) (simp add: write_all.simps)
  define io where "io = \<lparr>fi_stream = ''s'', fi_create = CreateOpened, fi_writes = [(70000, None)], fi_unlink = \<lambda>_ :: pane_key. False\<rparr>"
  define r1 where "r1 = realm_step sample_unmarshal r0 (AdmitPane io journal_sample_key ?g)"
  have "pane_at journal_sample_key r1 = Some (created_pane journal_sample_key ''s'' (Some ?g) OriginBirth sample_header_bytes)
      \<and> map_of (rl_disk r1) journal_sample_key = Some sample_header_bytes
      \<and> \<not> rl_closed r1 \<and> rl_options r1 = sample_restart_options \<and> rl_total r1 = 0 \<and> rl_reserved r1 = 0
      \<and> rl_physical_total r1 = len sample_header_bytes \<and> rl_physical_reserved r1 = 0
      \<and> rl_physical_cap r1 = 200000 \<and> rl_pane_physical_cap r1 = 100000"
    using n e w
    by (simp add: r1_def realm_step_def in_turn_def admit_pane_def r0(2) empty_realm_def geometry_valid_def max_journal_dimension_def
      pane_at_def with_ledger_def ledger_enter_def new_retention_ledger_def retention_limit_def retention_policy_of_def
      reserve_complete_pane_def create_pane_with_capacity_def sample_restart_options_def create_pane_with_header_def max_realm_identities_def
      physical_room_def at_or_def source_claim_create_def create_outcome_def io_def put_file_def put_pane_def len_def Let_def)
  then show ?thesis
    using r0(1) n(1)
    by (simp add: sample_admission_def io_def [symmetric] r1_def [symmetric] sample_created_def)
      (simp add: created_pane_def projected_def no_pane_def no_cursor_def logical_room_def physical_room_def at_or_def
        physical_append_cost_def append_fixed_def commit_fixed_def sample_restart_options_def len_def)
qed

lemma sample_restart:
  "\<exists>r0 r p. open_realm sample_unmarshal sample_restart_options 200000 100000 4 None False [] = Inr r0
    \<and> r = foldl (realm_step sample_unmarshal) r0 sample_restart_ops
    \<and> pane_at journal_sample_key r = Some p \<and> map_of (rl_disk r) journal_sample_key = Some sample_header_bytes
    \<and> pj_state p = EligibilityContinuous \<and> pj_admitted p"
proof -
  obtain r0 r p where s: "open_realm sample_unmarshal sample_restart_options 200000 100000 4 None False [] = Inr r0"
    "r = realm_step sample_unmarshal r0 sample_admission"
    "pane_at journal_sample_key r = Some p" "map_of (rl_disk r) journal_sample_key = Some sample_header_bytes"
    "pj_state p = EligibilityContinuous" "pj_admitted p" using sample_admitted by blast
  have "rl_panes (realm_step sample_unmarshal r CloseRealm) = rl_panes r" "rl_disk (realm_step sample_unmarshal r CloseRealm) = rl_disk r"
    by (simp_all add: realm_step_def in_turn_def realm_close_def)
  with s show ?thesis by (simp add: sample_restart_ops_def pane_at_def)
qed

theorem realm_restart_serves_acknowledged_witness:
  "\<exists>r0 p disk. open_realm sample_unmarshal sample_restart_options 200000 100000 4 None False [] = Inr r0
    \<and> pane_at journal_sample_key (foldl (realm_step sample_unmarshal) r0 sample_restart_ops) = Some p
    \<and> map_of (rl_disk (foldl (realm_step sample_unmarshal) r0 sample_restart_ops)) journal_sample_key = Some disk
    \<and> pj_state (open_existing sample_unmarshal disk) = EligibilityLegacy
    \<and> projected (open_existing sample_unmarshal disk) = projected p"
proof -
  obtain r0 r p where s: "open_realm sample_unmarshal sample_restart_options 200000 100000 4 None False [] = Inr r0"
    "r = foldl (realm_step sample_unmarshal) r0 sample_restart_ops"
    "pane_at journal_sample_key r = Some p" "map_of (rl_disk r) journal_sample_key = Some sample_header_bytes"
    "pj_state p = EligibilityContinuous" "pj_admitted p" using sample_restart by blast
  have "\<forall>op \<in> set sample_restart_ops. op_plain sample_unmarshal (jo_incarnation sample_restart_options) op"
    using sample_plain by (simp add: sample_restart_ops_def) (simp add: op_plain_def op_headers_def)
  from realm_restart_serves_acknowledged [OF s(1) _ _ _ this s(2-4) refl] s(5,6)
  have "pj_state (open_existing sample_unmarshal sample_header_bytes) = EligibilityLegacy
    \<and> projected (open_existing sample_unmarshal sample_header_bytes) = projected p"
    by (simp add: sample_restart_options_def)
  with s show ?thesis by blast
qed

end
