(* ===== verification/Journal_Sequencer.thy ===== *)
theory Journal_Sequencer
  imports Journal_Survival
begin

text \<open>
  What stands between the recorder and its subscribers (\<open>EligibilityTracker\<close>, \<open>WriteAhead\<close> and
  \<open>Sequencer\<close> of \<^verbatim>\<open>internal/unifiedjournal/eligibility.go\<close>, and the methods of \<open>Writer\<close> in
  \<^verbatim>\<open>writer.go\<close>, which is the sink the broker gives it). \<open>WriteAhead\<close> is the record
  \<open>write_ahead\<close>; its contract is the locale \<open>write_ahead_contract\<close>, whose provider is the realm.
\<close>

section \<open>Eligibility\<close>

datatype journal_admission_kind =
    AdmissionObservedBeforeFirstByte | AdmissionExistingPane | AdmissionReconstructedPane | AdmissionAfterBrokerRestart

record journal_admission =
  ja_kind :: journal_admission_kind
  ja_key :: pane_key
  ja_start :: int

record eligibility_tracker =
  et_state :: eligibility_state
  et_reason :: invalidation_reason
  et_committed :: int

definition new_eligibility :: "journal_admission \<Rightarrow> eligibility_tracker" where
  "new_eligibility a =
     \<lparr>et_state = (if ja_kind a = AdmissionObservedBeforeFirstByte \<and> ja_start a = 0 then EligibilityContinuous
                  else EligibilityLegacy),
      et_reason = ReasonNone, et_committed = ja_start a\<rparr>"

definition tracker_eligible :: "eligibility_tracker \<Rightarrow> bool" where
  "tracker_eligible t \<longleftrightarrow> et_state t = EligibilityContinuous"

definition tracker_invalidate :: "invalidation_reason \<Rightarrow> eligibility_tracker \<Rightarrow> eligibility_tracker" where
  "tracker_invalidate reason t =
     (if et_state t = EligibilityUntrusted then t else t\<lparr>et_state := EligibilityUntrusted, et_reason := reason\<rparr>)"

definition observe_range :: "int \<Rightarrow> int \<Rightarrow> eligibility_tracker \<Rightarrow> journal_error option \<times> eligibility_tracker" where
  "observe_range start stop t =
     (if et_state t = EligibilityUntrusted then (Some ErrInvalidated, t)
      else if et_state t \<noteq> EligibilityContinuous \<or> start \<noteq> et_committed t \<or> stop < start
      then (Some ErrJournalGap, tracker_invalidate ReasonJournalGap t)
      else (None, t\<lparr>et_committed := stop\<rparr>))"

text \<open>A tracker stays eligible exactly as long as the ranges it observed join up from the first byte on.\<close>

fun joined :: "int \<Rightarrow> (int \<times> int) list \<Rightarrow> bool" where
  "joined at [] = True"
| "joined at ((start, stop) # rs) = (start = at \<and> start \<le> stop \<and> joined stop rs)"

abbreviation observe_all :: "eligibility_tracker \<Rightarrow> (int \<times> int) list \<Rightarrow> eligibility_tracker" where
  "observe_all \<equiv> foldl (\<lambda>t (start, stop). snd (observe_range start stop t))"

lemma untrusted_stays: "et_state t = EligibilityUntrusted \<Longrightarrow> observe_all t rs = t"
  by (induction rs) (auto simp: observe_range_def)

lemma eligible_iff_joined:
  "et_state t = EligibilityContinuous \<Longrightarrow>
     (tracker_eligible (observe_all t rs) \<longleftrightarrow> joined (et_committed t) rs)
     \<and> (joined (et_committed t) rs \<longrightarrow> et_committed (observe_all t rs) = last (et_committed t # map snd rs))"
proof (induction rs arbitrary: t)
  case (Cons x rs)
  obtain a b where x: "x = (a, b)" by (cases x)
  show ?case
  proof (cases "a = et_committed t \<and> a \<le> b")
    case True
    with Cons.IH [of "t\<lparr>et_committed := b\<rparr>"] Cons.prems x show ?thesis by (auto simp: observe_range_def)
  next
    case False
    then have "snd (observe_range a b t) = t\<lparr>et_state := EligibilityUntrusted, et_reason := ReasonJournalGap\<rparr>"
      using Cons.prems by (auto simp: observe_range_def tracker_invalidate_def)
    then have "observe_all t (x # rs) = t\<lparr>et_state := EligibilityUntrusted, et_reason := ReasonJournalGap\<rparr>"
      using untrusted_stays [of "t\<lparr>et_state := EligibilityUntrusted, et_reason := ReasonJournalGap\<rparr>" rs] by (simp add: x)
    with False x show ?thesis by (auto simp: tracker_eligible_def)
  qed
qed (simp add: tracker_eligible_def)

section \<open>The sequencer\<close>

record 's write_ahead =
  wa_append :: "pane_key \<Rightarrow> bytes \<Rightarrow> 's \<Rightarrow> (journal_error + journal_record) \<times> 's"
  wa_sync :: "pane_key \<Rightarrow> 's \<Rightarrow> journal_error option \<times> 's"
  wa_advance :: "pane_key \<Rightarrow> journal_record \<Rightarrow> 's \<Rightarrow> journal_error option \<times> 's"

type_synonym 'f feed_func = "pane_key \<Rightarrow> journal_record \<Rightarrow> bytes \<Rightarrow> 'f \<Rightarrow> journal_error option \<times> 'f"

record ('s, 'f) sequencer =
  sq_sink :: "'s write_ahead option"
  sq_feed :: "'f feed_func option"
  sq_failed :: bool

definition new_sequencer :: "'s write_ahead option \<Rightarrow> 'f feed_func option \<Rightarrow> ('s, 'f) sequencer" where
  "new_sequencer sink feed = \<lparr>sq_sink = sink, sq_feed = feed, sq_failed = False\<rparr>"

text \<open>Sink and feed in their order, stopping at the first error.\<close>

definition sequence_record ::
    "'s write_ahead \<Rightarrow> 'f feed_func \<Rightarrow> pane_key \<Rightarrow> bytes \<Rightarrow> 's \<times> 'f \<Rightarrow> (journal_error + journal_record) \<times> 's \<times> 'f" where
  "sequence_record sink feed key payload w =
     (case w of (s, f) \<Rightarrow>
        (case wa_append sink key payload s of
           (Inl err, s1) \<Rightarrow> (Inl err, s1, f)
         | (Inr r, s1) \<Rightarrow>
             (case wa_sync sink key s1 of
                (Some err, s2) \<Rightarrow> (Inl err, s2, f)
              | (None, s2) \<Rightarrow>
                  (case wa_advance sink key r s2 of
                     (Some err, s3) \<Rightarrow> (Inl err, s3, f)
                   | (None, s3) \<Rightarrow>
                       (case feed key r payload f of
                          (Some err, f1) \<Rightarrow> (Inl err, s3, f1)
                        | (None, f1) \<Rightarrow> (Inr r, s3, f1))))))"

definition sequencer_write ::
    "pane_key \<Rightarrow> bytes \<Rightarrow> ('s, 'f) sequencer \<times> 's \<times> 'f
      \<Rightarrow> (journal_error + journal_record) \<times> ('s, 'f) sequencer \<times> 's \<times> 'f" where
  "sequencer_write key payload w =
     (case w of (q, s, f) \<Rightarrow>
        if sq_failed q then (Inl ErrInvalidated, w)
        else case (sq_sink q, sq_feed q) of
          (Some sink, Some feed) \<Rightarrow>
            (case sequence_record sink feed key payload (s, f) of
               (Inl err, w1) \<Rightarrow> (Inl ErrStorage, q\<lparr>sq_failed := True\<rparr>, w1)
             | (Inr r, w1) \<Rightarrow> (Inr r, q, w1))
        | _ \<Rightarrow> (Inl ErrStorage, q\<lparr>sq_failed := True\<rparr>, s, f))"

text \<open>The event a committed record stands for, and a feed that remembers what it was given.\<close>

definition record_event :: "journal_record \<Rightarrow> bytes \<Rightarrow> journal_event" where
  "record_event r payload =
     \<lparr>je_kind = jr_kind r, je_sequence = jr_sequence r, je_start = jr_start r, je_end = jr_end r,
      je_geometry = jr_geometry r, je_payload = payload\<rparr>"

definition remembering :: "(journal_event list \<Rightarrow> journal_error option) \<Rightarrow> journal_event list feed_func" where
  "remembering answer key r payload seen = (answer seen, seen @ [record_event r payload])"

text \<open>The contract of the sink for one key: what each call does to the committed projection.\<close>

locale write_ahead_contract =
  fixes W :: "'s write_ahead" and key :: pane_key
    and shown :: "'s \<Rightarrow> journal_event list"
    and sound :: "'s \<Rightarrow> bool"
    and appended :: "journal_record \<Rightarrow> bytes \<Rightarrow> 's \<Rightarrow> bool"
  assumes append_law:
      "sound s \<Longrightarrow> len payload < 2 ^ 32 \<Longrightarrow> wa_append W key payload s = (res, s') \<Longrightarrow>
         sound s' \<and> shown s' = shown s \<and> (\<forall>r. res = Inr r \<longrightarrow> appended r payload s')"
    and sync_law:
      "sound s \<Longrightarrow> wa_sync W key s = (err, s') \<Longrightarrow>
         sound s' \<and> shown s' = shown s \<and> (err = None \<longrightarrow> appended r payload s \<longrightarrow> appended r payload s')"
    and advance_law:
      "sound s \<Longrightarrow> appended r payload s \<Longrightarrow> wa_advance W key r s = (err, s') \<Longrightarrow>
         sound s' \<and> shown s' = (if err = None then shown s @ [record_event r payload] else shown s)"
begin

text \<open>One write shows and feeds the same events: none, or its own.\<close>

lemma write_shows_fed:
  assumes "sequencer_write key payload (q, s, seen) = (res, q', s', seen')" "sound s" "len payload < 2 ^ 32"
    and "sq_sink q = Some W" "sq_feed q = Some (remembering answer)"
  shows "sound s' \<and> sq_sink q' = sq_sink q \<and> sq_feed q' = sq_feed q
    \<and> (\<exists>es. shown s' = shown s @ es \<and> seen' = seen @ es
        \<and> (case res of
             Inr r \<Rightarrow> \<not> sq_failed q \<and> q' = q \<and> es = [record_event r payload]
           | Inl _ \<Rightarrow> sq_failed q' \<and> length es \<le> 1 \<and> (sq_failed q \<longrightarrow> es = [])))"
proof (cases "sq_failed q")
  case True
  then show ?thesis using assms by (auto simp: sequencer_write_def)
next
  case False
  obtain a s1 where a: "wa_append W key payload s = (a, s1)" by fastforce
  note al = append_law [OF assms(2,3) a]
  show ?thesis
  proof (cases a)
    case (Inl err)
    then show ?thesis using assms False a al by (auto simp: sequencer_write_def sequence_record_def)
  next
    case (Inr r)
    obtain b s2 where b: "wa_sync W key s1 = (b, s2)" by fastforce
    note sl = sync_law [OF conjunct1 [OF al] b, of r payload]
    show ?thesis
    proof (cases b)
      case (Some err)
      then show ?thesis using assms False a al Inr b sl by (auto simp: sequencer_write_def sequence_record_def)
    next
      case None
      then have p: "sound s2" "appended r payload s2" "shown s2 = shown s" using al sl Inr by simp_all
      obtain c s3 where c: "wa_advance W key r s2 = (c, s3)" by fastforce
      note dl = advance_law [OF p(1,2) c]
      show ?thesis
      proof (cases c)
        case (Some err)
        then show ?thesis using assms False a Inr b None c dl p by (auto simp: sequencer_write_def sequence_record_def)
      next
        case committed: None
        then show ?thesis using assms False a Inr b None c dl p
          by (cases "answer seen") (auto simp: sequencer_write_def sequence_record_def remembering_def)
      qed
    qed
  qed
qed

lemma writes_show_fed:
  assumes "foldl (\<lambda>w payload. snd (sequencer_write key payload w)) (q, s, seen) payloads = (q', s', seen')"
    and "sound s" "\<forall>payload \<in> set payloads. len payload < 2 ^ 32"
    and "sq_sink q = Some W" "sq_feed q = Some (remembering answer)"
  shows "sound s' \<and> (\<exists>es. shown s' = shown s @ es \<and> seen' = seen @ es)"
  using assms
proof (induction payloads arbitrary: q s seen)
  case (Cons payload payloads)
  obtain res q1 s1 seen1 where w: "sequencer_write key payload (q, s, seen) = (res, q1, s1, seen1)"
    by (cases "sequencer_write key payload (q, s, seen)") auto
  from write_shows_fed [OF w Cons.prems(2) _ Cons.prems(4,5)] Cons.prems(3) obtain es where
    one: "sound s1" "sq_sink q1 = sq_sink q" "sq_feed q1 = sq_feed q" "shown s1 = shown s @ es" "seen1 = seen @ es" by auto
  have "sound s' \<and> (\<exists>es'. shown s' = shown s1 @ es' \<and> seen' = seen1 @ es')"
    by (rule Cons.IH [of q1 s1 seen1]) (use Cons.prems w one in simp_all)
  with one show ?case by auto
qed auto

end

section \<open>The realm as the sink\<close>

text \<open>The operating system's answers to one call of the sink.\<close>

record sink_answers =
  sa_io :: file_io
  sa_writes :: "(nat \<times> write_error option) list"
  sa_sync :: "write_error option"
  sa_commit_writes :: "(nat \<times> write_error option) list"
  sa_commit_sync :: "write_error option"

text \<open>A readback delivers what the file holds.\<close>

definition sa_commit :: "sink_answers \<Rightarrow> commit_io" where
  "sa_commit a = \<lparr>ci_writes = sa_commit_writes a, ci_sync = sa_commit_sync a, ci_read = None\<rparr>"

text \<open>\<open>Writer.Sync\<close> and \<open>Writer.AdvanceCommitted\<close>; \<open>Writer.Append\<close> takes the realm's turn.\<close>

definition writer_sync :: "write_error option \<Rightarrow> journal_writer \<Rightarrow> pane_key \<Rightarrow> journal_realm \<Rightarrow> journal_error option \<times> journal_realm" where
  "writer_sync answer w key r =
     (if \<not> writer_valid w key r then (Some ErrInvalidated, r) else realm_sync answer key r)"

definition writer_advance ::
    "(bytes \<Rightarrow> journal_header option) \<Rightarrow> commit_io \<Rightarrow> journal_writer \<Rightarrow> pane_key \<Rightarrow> journal_record \<Rightarrow> journal_realm
      \<Rightarrow> journal_error option \<times> journal_realm" where
  "writer_advance unmarshal io w key record r =
     (if \<not> writer_valid w key r then (Some ErrInvalidated, r)
      else realm_advance_committed unmarshal io key key record r)"

definition result_in_turn :: "(journal_realm \<Rightarrow> 'a \<times> journal_realm) \<Rightarrow> journal_realm \<Rightarrow> 'a \<times> journal_realm" where
  "result_in_turn f r =
     (case f (with_ledger (\<lambda>l. snd (ledger_enter l)) r) of
        (x, r1) \<Rightarrow> (x, with_ledger (\<lambda>l. snd (ledger_leave l)) r1))"

text \<open>A writer as a sink; call number \<open>n\<close> gets the answers \<open>env n\<close>.\<close>

definition writer_sink ::
    "(bytes \<Rightarrow> journal_header option) \<Rightarrow> (nat \<Rightarrow> sink_answers) \<Rightarrow> journal_writer \<Rightarrow> (journal_realm \<times> nat) write_ahead" where
  "writer_sink unmarshal env w =
     \<lparr>wa_append = (\<lambda>key payload (r, n).
        case result_in_turn (writer_append (sa_io (env n)) (sa_writes (env n)) w key payload) r of (x, r1) \<Rightarrow> (x, r1, Suc n)),
      wa_sync = (\<lambda>key (r, n). case writer_sync (sa_sync (env n)) w key r of (x, r1) \<Rightarrow> (x, r1, Suc n)),
      wa_advance = (\<lambda>key record (r, n).
        case writer_advance unmarshal (sa_commit (env n)) w key record r of (x, r1) \<Rightarrow> (x, r1, Suc n))\<rparr>"

text \<open>What a subscriber may see of a generation, and what the contract rests on.\<close>

definition shown_at :: "pane_key \<Rightarrow> journal_realm \<times> nat \<Rightarrow> journal_event list" where
  "shown_at key s = (case pane_at key (fst s) of None \<Rightarrow> [] | Some p \<Rightarrow> projected p)"

definition sound_at :: "(bytes \<Rightarrow> journal_header option) \<Rightarrow> string \<Rightarrow> pane_key \<Rightarrow> journal_realm \<times> nat \<Rightarrow> bool" where
  "sound_at unmarshal incarnation key s \<longleftrightarrow>
     realm_logs unmarshal incarnation (fst s) \<and> jo_incarnation (rl_options (fst s)) = incarnation
     \<and> pane_at key (fst s) \<noteq> None \<and> map_of (rl_disk (fst s)) key \<noteq> None"

definition appended_at ::
    "(bytes \<Rightarrow> journal_header option) \<Rightarrow> string \<Rightarrow> pane_key \<Rightarrow> journal_record \<Rightarrow> bytes \<Rightarrow> journal_realm \<times> nat \<Rightarrow> bool" where
  "appended_at unmarshal incarnation key record payload s \<longleftrightarrow>
     (\<forall>p disk. pane_at key (fst s) = Some p \<longrightarrow> map_of (rl_disk (fst s)) key = Some disk \<longrightarrow>
        pj_state p = EligibilityContinuous \<longrightarrow>
        (\<exists>hb es. headed unmarshal incarnation hb p \<and> holds hb es [(record, payload)] p disk))"

text \<open>The record of the only append a log waits to commit, and what the commit shows.\<close>

lemma pages_of_payload: "page_event (add_page r (len payload) (paged 0 payload []) c) = record_event r payload"
  by (simp add: page_event_def add_page_def page_data_def paged_bytes record_event_def)

lemma commit_shows:
  assumes "holds hb es [(r, payload)] p disk" "holds hb (es @ appends [(r, payload)] @ [Committed]) [] p' disk'"
  shows "projected p' = projected p @ [record_event r payload]"
proof -
  let ?c = "foldl entry_apply (at_start (len hb)) es"
  have v: "vc_view (pj_verified p) = vc_view ?c" using assms(1) by (auto simp: holds_def Let_def at_start_def no_cursor_def)
  have "vc_tail ?c = vc_view ?c"
  proof (cases "es = []")
    case False
    then obtain fs where "es = fs @ [Committed]" using assms(1) by (metis append_butlast_last_id holds_def)
    then show ?thesis by (simp add: entry_apply_def)
  qed (simp add: at_start_def no_cursor_def)
  moreover have "pj_verified p' = foldl entry_apply (at_start (len hb)) (es @ appends [(r, payload)] @ [Committed])"
    using assms(2) by (simp add: holds_def Let_def)
  ultimately show ?thesis
    using v by (simp add: projected_def appends_def entry_apply_def append_record_def pages_of_payload)
qed

text \<open>An append of the realm, seen from its key.\<close>

lemma convert_options: "convert_hold oh l f p r = (q, r1) \<Longrightarrow> rl_options r1 = rl_options r"
  by (auto simp: convert_hold_def Let_def split: option.splits if_splits)

lemma write_output_result:
  assumes "write_output answers payload p disk = (res, p', disk')"
  shows "projected p' = projected p" "headed u i hb p' = headed u i hb p"
    "holds hb es [] p disk \<Longrightarrow> pj_state p = EligibilityContinuous \<Longrightarrow> len payload < 2 ^ 32 \<Longrightarrow> res = None \<Longrightarrow>
       holds hb es [(new_output_record p payload, payload)] p' disk'"
proof -
  obtain e q d where w: "write_record answers (new_output_record p payload) payload p disk = (e, q, d)"
    by (cases "write_record answers (new_output_record p payload) payload p disk") auto
  show "projected p' = projected p"
    using assms w by (auto simp: write_output_def write_record_def projected_def split: prod.splits option.splits)
  show "headed u i hb p' = headed u i hb p"
    using assms w write_record_headed [OF w, of u i hb] by (cases e) (auto simp: write_output_def headed_def)
  assume h: "holds hb es [] p disk" "pj_state p = EligibilityContinuous" "len payload < 2 ^ 32" "res = None"
  from write_record_kept [OF h(1,2) output_legal [OF h(1,3)] w] assms w h(4)
  show "holds hb es [(new_output_record p payload, payload)] p' disk'"
    by (cases e) (auto simp: write_output_def)
qed

lemma same_log_projected: "same_log p q \<Longrightarrow> projected q = projected p"
  by (simp add: same_log_def projected_def)

lemma charged_output_result:
  assumes "charged_output answers k payload q r = (res, r')" "map_of (rl_disk r) k = Some disk"
  shows "\<exists>p' disk'. pane_at k r' = Some p' \<and> map_of (rl_disk r') k = Some disk' \<and> projected p' = projected q
    \<and> headed u i hb p' = headed u i hb q \<and> rl_options r' = rl_options r
    \<and> (\<forall>record. res = Inr record \<longrightarrow> pj_state q = EligibilityContinuous \<longrightarrow> len payload < 2 ^ 32 \<longrightarrow> holds hb es [] q disk
        \<longrightarrow> holds hb es [(record, payload)] p' disk')"
proof -
  let ?q = "q\<lparr>pj_physical := pj_physical q + physical_append_cost payload\<rparr>"
  have sl: "same_log q ?q" by (simp add: same_log_def)
  have f: "file_at k r = disk" using assms(2) by (simp add: file_at_def)
  obtain e p2 d2 where w: "write_output answers payload ?q disk = (e, p2, d2)" by (cases "write_output answers payload ?q disk") auto
  note wr = write_output_result [OF w]
  have hd: "headed u i hb p2 = headed u i hb q" using wr(2) [of u i hb] by (simp add: headed_def)
  have pr: "projected p2 = projected q" using wr(1) by (simp add: projected_def)
  have rec: "new_output_record ?q payload = new_output_record q payload" by (simp add: new_output_record_def)
  show ?thesis
  proof (cases e)
    case (Some err)
    with assms w f pr hd show ?thesis
      by (auto simp: charged_output_def Let_def grow_file_def put_file_def put_pane_def pane_at_def)
  next
    case None
    let ?p = "p2\<lparr>pj_realm_charge := pj_realm_charge p2 + len payload\<rparr>"
    have "holds hb es [(new_output_record q payload, payload)] ?p d2"
      if "pj_state q = EligibilityContinuous" "len payload < 2 ^ 32" "holds hb es [] q disk"
      using wr(3) [of hb es] that None same_log_holds [OF sl] same_log_holds [of p2 ?p] by (simp add: rec same_log_def)
    moreover have "projected ?p = projected q" "headed u i hb ?p = headed u i hb q" using pr hd by (simp_all add: projected_def headed_def)
    ultimately show ?thesis using None assms w f
      by (auto simp: charged_output_def Let_def grow_file_def put_file_def put_pane_def pane_at_def)
  qed
qed

lemma append_admitted_result:
  assumes "append_admitted answers k payload p r = (res, r')" "pane_at k r = Some p" "map_of (rl_disk r) k = Some disk"
  shows "\<exists>p' disk'. pane_at k r' = Some p' \<and> map_of (rl_disk r') k = Some disk' \<and> projected p' = projected p
    \<and> headed u i hb p' = headed u i hb p \<and> rl_options r' = rl_options r
    \<and> (\<forall>record. res = Inr record \<longrightarrow> pj_state p = EligibilityContinuous \<longrightarrow> len payload < 2 ^ 32 \<longrightarrow> holds hb es [] p disk
        \<longrightarrow> holds hb es [(record, payload)] p' disk')"
proof -
  have inv: ?thesis if "r' = put_pane k (invalidate_pane reason p) r" "res = Inl err" for reason err
    using that assms(3) by (auto simp: put_pane_def pane_at_def projected_def)
  have charged: ?thesis if c: "convert_hold oh l f p r = (q, r1)" "charged_output answers k payload q r1 = (res, r')" for oh l f q r1
  proof -
    note s = convert_same [OF c(1)]
    have "map_of (rl_disk r1) k = Some disk" using s assms(3) by simp
    from charged_output_result [OF c(2) this, of u i hb es] s show ?thesis
      using same_log_holds [of p q] same_log_projected [of p q] same_log_headed [of p q] convert_options [OF c(1)]
      by (simp add: same_log_def)
  qed
  show ?thesis
    using assms(1) inv charged assms(2,3) by (auto simp: append_admitted_def Let_def split: if_splits prod.splits)
qed

lemma advance_result:
  assumes "holds hb es [(r, payload)] p disk" "headed u i hb p" "pj_state p = EligibilityContinuous" "ci_read io = None"
    and "advance_committed u i io r p disk = (res, p', disk')"
  shows "projected p' = (if res = None then projected p @ [record_event r payload] else projected p)"
proof (cases "res = None")
  case True
  have c: "pj_last p = r" "jr_sequence r = pj_sequence p" "pj_committed_sequence p < jr_sequence r" "jr_end r = pj_end p"
    "write_all (ci_writes io) (encode_commit r) disk = (None, disk')" "ci_sync io = None"
    using assms(3,5) True
    by (auto simp: advance_committed_def Let_def split: if_splits prod.splits option.splits)
  from advance_holds [OF assms(1,2,5,3) c assms(4)] have "holds hb (es @ appends [(r, payload)] @ [Committed]) [] p' disk'" by simp
  from commit_shows [OF assms(1) this] True show ?thesis by simp
next
  case False
  then show ?thesis using assms(5)
    by (auto simp: advance_committed_def Let_def projected_def split: if_splits prod.splits option.splits)
qed

section \<open>The contract\<close>

lemma sound_fields [simp]:
  "sound_at u i key (with_ledger f r, n) = sound_at u i key (r, n)" "shown_at key (with_ledger f r, n) = shown_at key (r, n)"
  "appended_at u i key record payload (with_ledger f r, n) = appended_at u i key record payload (r, n)"
  by (simp_all add: sound_at_def shown_at_def appended_at_def pane_at_def with_ledger_def)

lemma sound_count [simp]:
  "sound_at u i key (r, Suc n) = sound_at u i key (r, n)" "shown_at key (r, Suc n) = shown_at key (r, n)"
  "appended_at u i key record payload (r, Suc n) = appended_at u i key record payload (r, n)"
  by (simp_all add: sound_at_def shown_at_def appended_at_def)

lemma writer_append_law:
  assumes "sound_at u i key (r, n)" "len payload < 2 ^ 32" "writer_append io answers w key payload r = (res, r')"
  shows "sound_at u i key (r', n) \<and> shown_at key (r', n) = shown_at key (r, n)
    \<and> (\<forall>record. res = Inr record \<longrightarrow> appended_at u i key record payload (r', n))"
proof -
  obtain p disk where p: "pane_at key r = Some p" "map_of (rl_disk r) key = Some disk" and l: "realm_logs u i r"
      and o: "jo_incarnation (rl_options r) = i" using assms(1) by (auto simp: sound_at_def)
  show ?thesis
  proof (cases "writer_valid w key r \<and> pj_pending p = []")
    case False
    with assms(1,3) p show ?thesis by (auto simp: writer_append_def split: if_splits)
  next
    case True
    then have c: "pj_state p = EligibilityContinuous" and e: "append_admitted answers key payload p r = (res, r')"
      using assms(3) p by (auto simp: writer_append_def realm_append_def writer_valid_def)
    have "recoverable u i disk p" using l p by (simp add: logs_ok_def pane_at_def)
    with c obtain hb es pend where h: "headed u i hb p" "holds hb es pend p disk" by (auto simp: recoverable_def pane_kept_def)
    then have "pend = []" using True by (simp add: holds_def Let_def)
    with h have h: "headed u i hb p" "holds hb es [] p disk" by simp_all
    from append_admitted_result [OF e p, of u i hb es] obtain p' disk' where
      a: "pane_at key r' = Some p'" "map_of (rl_disk r') key = Some disk'" "projected p' = projected p" "headed u i hb p'"
        "rl_options r' = rl_options r" "\<And>record. res = Inr record \<Longrightarrow> holds hb es [(record, payload)] p' disk'"
      using c assms(2) h by blast
    have "realm_logs u i r'" using append_admitted_logs [OF p(1) c assms(2), of u i answers] e l by (simp add: keeps_logs_def)
    with a o p show ?thesis by (auto simp: sound_at_def shown_at_def appended_at_def)
  qed
qed

lemma writer_sync_law:
  assumes "sound_at u i key (r, n)" "writer_sync answer w key r = (err, r')"
  shows "sound_at u i key (r', n) \<and> shown_at key (r', n) = shown_at key (r, n)
    \<and> (err = None \<longrightarrow> appended_at u i key record payload (r, n) \<longrightarrow> appended_at u i key record payload (r', n))"
proof -
  obtain p disk where p: "pane_at key r = Some p" "map_of (rl_disk r) key = Some disk" and l: "realm_logs u i r"
      and o: "jo_incarnation (rl_options r) = i" using assms(1) by (auto simp: sound_at_def)
  have k: "keeps_logs u i r (snd (realm_sync answer key r))" by (rule sync_logs)
  have "\<exists>q. r' = put_pane key q r \<and> projected q = projected p \<and> (err = None \<longrightarrow> q = p)" if "writer_valid w key r"
    using assms(2) p that
    by (auto simp: writer_sync_def realm_sync_def sync_pane_def projected_def writer_valid_def split: if_splits option.splits)
  note step = this
  show ?thesis
  proof (cases "writer_valid w key r")
    case False
    then have "r' = r" "err \<noteq> None" using assms(2) by (auto simp: writer_sync_def)
    then show ?thesis using assms(1) by simp
  next
    case True
    from step [OF this] obtain q where q: "r' = put_pane key q r" "projected q = projected p" "err = None \<longrightarrow> q = p" by blast
    have "keeps_logs u i r r'" using k assms(2) True by (simp add: writer_sync_def)
    then have "sound_at u i key (r', n) \<and> shown_at key (r', n) = shown_at key (r, n)"
      using q p l o by (simp add: sound_at_def shown_at_def keeps_logs_def put_pane_def pane_at_def)
    moreover have "appended_at u i key record payload (r', n)" if "err = None" "appended_at u i key record payload (r, n)"
      using that q p by (simp add: appended_at_def put_pane_def pane_at_def)
    ultimately show ?thesis by blast
  qed
qed

lemma writer_advance_law:
  assumes "sound_at u i key (r, n)" "appended_at u i key record payload (r, n)" "writer_advance u (sa_commit a) w key record r = (err, r')"
  shows "sound_at u i key (r', n)
    \<and> shown_at key (r', n) = (if err = None then shown_at key (r, n) @ [record_event record payload] else shown_at key (r, n))"
proof -
  obtain p disk where p: "pane_at key r = Some p" "map_of (rl_disk r) key = Some disk" and l: "realm_logs u i r"
      and o: "jo_incarnation (rl_options r) = i" using assms(1) by (auto simp: sound_at_def)
  show ?thesis
  proof (cases "writer_valid w key r")
    case False
    with assms show ?thesis by (auto simp: writer_advance_def)
  next
    case True
    then have c: "pj_state p = EligibilityContinuous" "\<not> rl_closed r" using p by (auto simp: writer_valid_def)
    then obtain hb es where h: "headed u i hb p" "holds hb es [(record, payload)] p disk"
      using assms(2) p by (auto simp: appended_at_def)
    have f: "file_at key r = disk" using p by (simp add: file_at_def)
    obtain e p' disk' where a: "advance_committed u i (sa_commit a) record p disk = (e, p', disk')"
      by (cases "advance_committed u i (sa_commit a) record p disk") auto
    have r': "r' = put_pane key p' (grow_file key disk' r)" "err = e"
      using assms(3) True p c f a o by (simp_all add: writer_advance_def realm_advance_committed_def)
    have "keeps_logs u i r r'"
      using advance_logs [OF o, of "sa_commit a" u key key "record"] assms(3) True by (simp add: writer_advance_def sa_commit_def)
    moreover have "projected p' = (if e = None then projected p @ [record_event record payload] else projected p)"
      by (rule advance_result [OF h(2,1) c(1) _ a]) (simp add: sa_commit_def)
    ultimately show ?thesis using r' p l o
      by (simp add: sound_at_def shown_at_def keeps_logs_def put_pane_def grow_file_def put_file_def pane_at_def)
  qed
qed

interpretation writer: write_ahead_contract "writer_sink u env w" key "shown_at key" "sound_at u i key" "appended_at u i key"
  for u env w key i
proof
  fix s :: "journal_realm \<times> nat" and payload res s'
  assume a: "sound_at u i key s" "len payload < 2 ^ 32" "wa_append (writer_sink u env w) key payload s = (res, s')"
  obtain r n where s: "s = (r, n)" by (cases s)
  obtain x r1 where x: "writer_append (sa_io (env n)) (sa_writes (env n)) w key payload (with_ledger (\<lambda>l. snd (ledger_enter l)) r) = (x, r1)"
    by fastforce
  from writer_append_law [OF _ a(2) x, of u i n] a(1,3) s x
  show "sound_at u i key s' \<and> shown_at key s' = shown_at key s \<and> (\<forall>r. res = Inr r \<longrightarrow> appended_at u i key r payload s')"
    by (auto simp: writer_sink_def result_in_turn_def)
next
  fix s :: "journal_realm \<times> nat" and err s' r payload
  assume a: "sound_at u i key s" "wa_sync (writer_sink u env w) key s = (err, s')"
  obtain r0 n where s: "s = (r0, n)" by (cases s)
  obtain x r1 where x: "writer_sync (sa_sync (env n)) w key r0 = (x, r1)" by fastforce
  from writer_sync_law [OF _ x, of u i n r payload] a s x
  show "sound_at u i key s' \<and> shown_at key s' = shown_at key s
      \<and> (err = None \<longrightarrow> appended_at u i key r payload s \<longrightarrow> appended_at u i key r payload s')"
    by (auto simp: writer_sink_def)
next
  fix s :: "journal_realm \<times> nat" and err s' r payload
  assume a: "sound_at u i key s" "appended_at u i key r payload s" "wa_advance (writer_sink u env w) key r s = (err, s')"
  obtain r0 n where s: "s = (r0, n)" by (cases s)
  obtain x r1 where x: "writer_advance u (sa_commit (env n)) w key r r0 = (x, r1)" by fastforce
  from writer_advance_law [OF _ _ x, of i n payload] a s x
  show "sound_at u i key s' \<and> shown_at key s' = (if err = None then shown_at key s @ [record_event r payload] else shown_at key s)"
    by (auto simp: writer_sink_def)
qed

section \<open>A sample write\<close>

lemma write_all_ample: "length data \<le> n \<Longrightarrow> data \<noteq> [] \<Longrightarrow> write_all [(n, None)] data disk = (None, disk @ data)"
  by (cases n, simp, subst write_all.simps) (simp add: write_all.simps)

text \<open>Ample answers: every call writes and syncs all there is.\<close>

definition sample_answers :: "nat \<Rightarrow> sink_answers" where
  "sample_answers n =
     \<lparr>sa_io = \<lparr>fi_stream = ''s'', fi_create = CreateOpened, fi_writes = [], fi_unlink = \<lambda>_. False\<rparr>,
      sa_writes = [(200, None)], sa_sync = None, sa_commit_writes = [(200, None)], sa_commit_sync = None\<rparr>"

definition sample_writer :: journal_writer where
  "sample_writer = \<lparr>jw_key = journal_sample_key, jw_stream = ''s''\<rparr>"

definition sample_record :: journal_record where
  "sample_record = new_output_record sample_created ''one''"

definition sample_appended :: pane_journal where
  "sample_appended =
     sample_created\<lparr>pj_physical := pj_physical sample_created + physical_append_cost ''one'',
       pj_sequence := jr_sequence sample_record, pj_last := sample_record,
       pj_pending := [sample_record], pj_stored := pj_stored sample_created + int append_fixed + 3,
       pj_end := jr_end sample_record, pj_realm_charge := pj_realm_charge sample_created + 3\<rparr>"

definition sample_appended_file :: bytes where
  "sample_appended_file = sample_header_bytes @ encode_append sample_record ''one''"

lemma sample_created_fields:
  "pj_state sample_created = EligibilityContinuous" "pj_admitted sample_created" "pj_stream sample_created = ''s''"
  "pj_pending sample_created = []" "append_hold_of sample_created = None" "pj_sequence sample_created = 0"
  "pj_end sample_created = 0" "pj_committed_sequence sample_created = 0"
  by (simp_all add: sample_created_def created_pane_def no_pane_def append_hold_of_def)

lemma sample_record_hash: "length (jr_hash sample_record) = 32"
  by (simp add: sample_record_def new_output_record_def sha256_length)

lemma sample_output:
  "write_output [(200, None)] ''one'' (sample_created\<lparr>pj_physical := c\<rparr>) sample_header_bytes
    = (None, sample_appended\<lparr>pj_physical := c, pj_realm_charge := pj_realm_charge sample_created\<rparr>, sample_appended_file)"
proof -
  have r: "new_output_record (sample_created\<lparr>pj_physical := c\<rparr>) ''one'' = sample_record"
    by (simp add: sample_record_def new_output_record_def)
  have l: "length (encode_append sample_record ''one'') = append_fixed + 3"
    using sample_record_hash by simp
  then have "encode_append sample_record ''one'' \<noteq> []" by (auto simp: append_fixed_def)
  with l have "write_all [(200, None)] (encode_append sample_record ''one'') sample_header_bytes = (None, sample_appended_file)"
    unfolding sample_appended_file_def by (intro write_all_ample) (simp_all add: append_fixed_def)
  then show ?thesis
    using r by (simp add: write_output_def write_record_def sample_appended_def sample_created_fields)
qed

lemma sample_append:
  assumes "pane_at journal_sample_key r = Some sample_created" "map_of (rl_disk r) journal_sample_key = Some sample_header_bytes"
    and "\<not> rl_closed r" "logical_room r (Some sample_created) 3"
    and "physical_room r (Some sample_created) (physical_append_cost ''one'')"
  shows "\<exists>r'. writer_append io [(200, None)] sample_writer journal_sample_key ''one'' r = (Inr sample_record, r')
    \<and> pane_at journal_sample_key r' = Some sample_appended
    \<and> map_of (rl_disk r') journal_sample_key = Some sample_appended_file
    \<and> \<not> rl_closed r' \<and> rl_options r' = rl_options r"
  using assms sample_output [of "pj_physical sample_created + physical_append_cost ''one''"]
  by (simp add: writer_append_def writer_valid_def sample_writer_def sample_created_fields realm_append_def
      append_admitted_def logical_share_def physical_share_def convert_hold_def charged_output_def Let_def len_def
      pane_at_def file_at_def put_pane_def put_file_def grow_file_def sample_record_def sample_appended_def)

lemma sample_created_kept:
  "headed sample_unmarshal ''b'' sample_header_bytes sample_created" "holds sample_header_bytes [] [] sample_created sample_header_bytes"
proof -
  show "headed sample_unmarshal ''b'' sample_header_bytes sample_created"
    unfolding sample_created_def
    by (rule created_headed) (use sample_header_ok(1,2) in \<open>simp_all add: sample_header_def geometry_valid_def max_journal_dimension_def\<close>)
  show "holds sample_header_bytes [] [] sample_created sample_header_bytes"
    by (simp add: sample_created_def created_holds)
qed

lemma sample_appended_kept:
  "headed sample_unmarshal ''b'' sample_header_bytes sample_appended"
  "holds sample_header_bytes [] [(sample_record, ''one'')] sample_appended sample_appended_file"
proof -
  show "headed sample_unmarshal ''b'' sample_header_bytes sample_appended"
    using sample_created_kept(1) by (simp add: headed_def sample_appended_def)
  let ?p = "sample_created\<lparr>pj_physical := pj_physical sample_created\<rparr>"
  have "holds sample_header_bytes [] [(new_output_record ?p ''one'', ''one'')]
      (sample_appended\<lparr>pj_physical := pj_physical sample_created, pj_realm_charge := pj_realm_charge sample_created\<rparr>)
      sample_appended_file"
    by (rule write_output_result(3) [OF sample_output]) (use sample_created_kept(2) sample_created_fields(1) in simp_all)
  moreover have "new_output_record ?p ''one'' = sample_record" by (simp add: sample_record_def new_output_record_def)
  ultimately show "holds sample_header_bytes [] [(sample_record, ''one'')] sample_appended sample_appended_file"
    by (simp add: holds_def Let_def)
qed

lemma advance_admitted:
  "advance_committed unmarshal incarnation io r p disk = (res, p', disk') \<Longrightarrow> pj_admitted p' = pj_admitted p"
  by (auto simp: advance_committed_def Let_def invalidate_pane_def split: prod.splits option.splits if_splits)

lemma sample_commit:
  "\<exists>p disk. advance_committed sample_unmarshal ''b'' (sa_commit (sample_answers n)) sample_record sample_appended sample_appended_file
      = (None, p, disk) \<and> pj_state p = EligibilityContinuous \<and> pj_admitted p"
proof -
  let ?io = "sa_commit (sample_answers n)"
  obtain res p disk where a: "advance_committed sample_unmarshal ''b'' ?io sample_record sample_appended sample_appended_file = (res, p, disk)"
    by (cases "advance_committed sample_unmarshal ''b'' ?io sample_record sample_appended sample_appended_file") auto
  have st: "pj_state sample_appended = EligibilityContinuous" by (simp add: sample_appended_def sample_created_fields)
  have f: "pj_last sample_appended = sample_record" "jr_sequence sample_record = pj_sequence sample_appended"
    "pj_committed_sequence sample_appended < jr_sequence sample_record" "jr_end sample_record = pj_end sample_appended"
    by (simp_all add: sample_appended_def sample_created_fields) (simp add: sample_record_def new_output_record_def sample_created_fields wrap64_same)
  have l: "length (encode_commit sample_record) = commit_fixed" using sample_record_hash by simp
  then have "encode_commit sample_record \<noteq> []" by (auto simp: commit_fixed_def)
  with l have w: "write_all (ci_writes ?io) (encode_commit sample_record) sample_appended_file
      = (None, sample_appended_file @ encode_commit sample_record)"
    unfolding sa_commit_def sample_answers_def by (simp add: write_all_ample commit_fixed_def)
  have io: "ci_sync ?io = None" "ci_read ?io = None" by (simp_all add: sa_commit_def sample_answers_def)
  have d: "disk = sample_appended_file @ encode_commit sample_record"
    using a st f w io by (auto simp: advance_committed_def Let_def split: option.splits if_splits)
  have "res = None" "pj_state p = EligibilityContinuous"
    using advance_holds [OF sample_appended_kept(2,1) a st f] w d io by simp_all
  moreover have "pj_admitted p"
    using advance_admitted [OF a] by (simp add: sample_appended_def sample_created_fields)
  ultimately show ?thesis using a by blast
qed

text \<open>A writer over the sample realm writes its one output to the end.\<close>

lemma sample_write:
  assumes "pane_at journal_sample_key r = Some sample_created" "map_of (rl_disk r) journal_sample_key = Some sample_header_bytes"
    and "\<not> rl_closed r" "rl_options r = sample_restart_options" "logical_room r (Some sample_created) 3"
    and "physical_room r (Some sample_created) (physical_append_cost ''one'')"
  shows "\<exists>q r' p. sequencer_write journal_sample_key ''one''
        (new_sequencer (Some (writer_sink sample_unmarshal sample_answers sample_writer)) (Some (remembering (\<lambda>_. None))), (r, 0), [])
      = (Inr sample_record, q, (r', 3), [record_event sample_record ''one''])
    \<and> pane_at journal_sample_key r' = Some p \<and> pj_state p = EligibilityContinuous \<and> pj_admitted p"
proof -
  let ?sink = "writer_sink sample_unmarshal sample_answers sample_writer"
  let ?r = "with_ledger (\<lambda>l. snd (ledger_enter l)) r"
  obtain r1 where r1: "writer_append (sa_io (sample_answers 0)) [(200, None)] sample_writer journal_sample_key ''one'' ?r = (Inr sample_record, r1)"
      "pane_at journal_sample_key r1 = Some sample_appended" "map_of (rl_disk r1) journal_sample_key = Some sample_appended_file"
      "\<not> rl_closed r1" "rl_options r1 = sample_restart_options"
    using sample_append [of ?r "sa_io (sample_answers 0)"] assms
    by (auto simp: with_ledger_def pane_at_def logical_room_def physical_room_def)
  define r2 where "r2 = with_ledger (\<lambda>l. snd (ledger_leave l)) r1"
  have s2: "pane_at journal_sample_key r2 = Some sample_appended" "map_of (rl_disk r2) journal_sample_key = Some sample_appended_file"
      "\<not> rl_closed r2" "rl_options r2 = sample_restart_options" using r1 by (simp_all add: r2_def with_ledger_def pane_at_def)
  have ap: "wa_append ?sink journal_sample_key ''one'' (r, 0) = (Inr sample_record, (r2, 1))"
    using r1(1) by (simp add: writer_sink_def result_in_turn_def sample_answers_def r2_def)
  have v: "writer_valid sample_writer journal_sample_key x"
    if "pane_at journal_sample_key x = Some sample_appended" "\<not> rl_closed x" for x
    using that by (simp add: writer_valid_def sample_writer_def sample_appended_def sample_created_fields)
  define r3 where "r3 = put_pane journal_sample_key sample_appended r2"
  have s3: "pane_at journal_sample_key r3 = Some sample_appended" "file_at journal_sample_key r3 = sample_appended_file"
      "\<not> rl_closed r3" "rl_options r3 = sample_restart_options"
    using s2 by (simp_all add: r3_def put_pane_def pane_at_def file_at_def)
  have sy: "wa_sync ?sink journal_sample_key (r2, 1) = (None, (r3, 2))"
    using s2 v [OF s2(1,3)]
    by (simp add: writer_sink_def writer_sync_def realm_sync_def sync_pane_def r3_def sample_answers_def)
      (simp add: sample_appended_def sample_created_fields)
  obtain p disk where c: "advance_committed sample_unmarshal ''b'' (sa_commit (sample_answers 2)) sample_record sample_appended sample_appended_file
      = (None, p, disk)" "pj_state p = EligibilityContinuous" "pj_admitted p" using sample_commit by blast
  define r4 where "r4 = put_pane journal_sample_key p (grow_file journal_sample_key disk r3)"
  have ad: "wa_advance ?sink journal_sample_key sample_record (r3, 2) = (None, (r4, 3))"
    using s3 v [OF s3(1,3)] c
    by (simp add: writer_sink_def writer_advance_def realm_advance_committed_def r4_def sample_restart_options_def)
      (simp add: sample_appended_def sample_created_fields)
  have "pane_at journal_sample_key r4 = Some p" by (simp add: r4_def put_pane_def pane_at_def)
  with ap sy ad c show ?thesis
    by (simp add: sequencer_write_def new_sequencer_def sequence_record_def remembering_def)
qed

section \<open>From the recorder to the subscriber\<close>

text \<open>
  C16: Subscribers are fed exactly what is committed, and a restart serves it. In a realm that was opened on any
  directory and ran any operations, a sequencer writes the output of one generation through a writer, with any
  answers of the operating system to the writes and syncs and any answers of the feed. The events the feed was
  given are, in order, exactly those by which the generation's committed projection has grown: none is fed
  before its commit was verified, none is committed and not fed. Reading the file as a restart does then gives
  the projection with all of them while the generation is continuous, and starts with all of them whenever
  the restart trusts the file at all.
\<close>

theorem subscribers_see_exactly_committed:
  assumes "open_realm u options cap pane_cap slots policy wake files = Inr r0"
    and "\<forall>(k, content) \<in> set files. \<forall>bs. content = Inr bs \<longrightarrow> len bs < 2 ^ 63"
    and "0 \<le> jo_pane_cap options" "0 \<le> pane_cap"
    and "\<forall>op \<in> set ops. op_plain u (jo_incarnation options) op"
    and "r = foldl (realm_step u) r0 ops" "pane_at key r = Some p" "map_of (rl_disk r) key \<noteq> None"
    and "\<forall>payload \<in> set payloads. len payload < 2 ^ 32"
    and "foldl (\<lambda>w payload. snd (sequencer_write key payload w))
       (new_sequencer (Some (writer_sink u env w)) (Some (remembering answer)), (r, n), []) payloads = (q, (r', n'), seen)"
  shows "\<exists>p' disk. pane_at key r' = Some p' \<and> map_of (rl_disk r') key = Some disk
    \<and> projected p' = projected p @ seen
    \<and> (pj_state p' = EligibilityContinuous \<and> pj_admitted p' \<longrightarrow>
         pj_state (open_existing u disk) = EligibilityLegacy \<and> projected (open_existing u disk) = projected p @ seen)
    \<and> (pj_state (open_existing u disk) = EligibilityLegacy \<longrightarrow> prefix (projected p @ seen) (projected (open_existing u disk)))"
proof -
  let ?i = "jo_incarnation options"
  have "len bs < 2 ^ 63" if "(k, Inr bs) \<in> set files" for k bs using assms(2) that by blast
  from opened [OF assms(1) this assms(3,4)] have o: "realm_safe r0 r0" "jo_incarnation (rl_options r0) = ?i" by simp_all
  from run_logs [OF o(1) opened_logs [OF assms(1)] o(2) assms(5)] have r: "realm_safe r0 r" "realm_logs u ?i r"
    by (simp_all add: assms(6))
  have "sound_at u ?i key (r, n)"
    using r o(2) assms(7,8) by (simp add: sound_at_def realm_safe_def same_caps_def)
  from writer.writes_show_fed [OF assms(10) this assms(9)] have s: "sound_at u ?i key (r', n')" "shown_at key (r', n') = shown_at key (r, n) @ seen"
    by (simp_all add: new_sequencer_def)
  then obtain p' disk where p': "pane_at key r' = Some p'" "map_of (rl_disk r') key = Some disk" "realm_logs u ?i r'"
    by (auto simp: sound_at_def)
  then have e: "projected p' = projected p @ seen" using s(2) assms(7) by (simp add: shown_at_def)
  have "recoverable u ?i disk p'" using p' by (simp add: logs_ok_def pane_at_def)
  from reopened [OF this refl] e p' show ?thesis by auto
qed

theorem subscribers_see_exactly_committed_witness:
  "\<exists>r0 q r' n' seen p' disk.
     open_realm sample_unmarshal sample_restart_options 200000 100000 4 None False [] = Inr r0
     \<and> foldl (\<lambda>w payload. snd (sequencer_write journal_sample_key payload w))
         (new_sequencer (Some (writer_sink sample_unmarshal sample_answers sample_writer)) (Some (remembering (\<lambda>_. None))),
          (realm_step sample_unmarshal r0 sample_admission, 0), [])
         [''one''] = (q, (r', n'), seen)
     \<and> seen = [record_event sample_record ''one'']
     \<and> pane_at journal_sample_key r' = Some p' \<and> projected p' = seen
     \<and> map_of (rl_disk r') journal_sample_key = Some disk
     \<and> pj_state (open_existing sample_unmarshal disk) = EligibilityLegacy
     \<and> projected (open_existing sample_unmarshal disk) = seen"
proof -
  obtain r0 r where s: "open_realm sample_unmarshal sample_restart_options 200000 100000 4 None False [] = Inr r0"
    "r = realm_step sample_unmarshal r0 sample_admission"
    "pane_at journal_sample_key r = Some sample_created" "map_of (rl_disk r) journal_sample_key = Some sample_header_bytes"
    "projected sample_created = []" "\<not> rl_closed r" "rl_options r = sample_restart_options" "logical_room r (Some sample_created) 3"
    "physical_room r (Some sample_created) (physical_append_cost ''one'')"
    using sample_admitted by (elim exE conjE) (rule that, assumption+, simp_all)
  from sample_write [OF s(3,4,6-9)] obtain q r' p where w: "sequencer_write journal_sample_key ''one''
        (new_sequencer (Some (writer_sink sample_unmarshal sample_answers sample_writer)) (Some (remembering (\<lambda>_. None))), (r, 0), [])
      = (Inr sample_record, q, (r', 3), [record_event sample_record ''one''])"
    "pane_at journal_sample_key r' = Some p" "pj_state p = EligibilityContinuous" "pj_admitted p" by blast
  then have run: "foldl (\<lambda>w payload. snd (sequencer_write journal_sample_key payload w))
      (new_sequencer (Some (writer_sink sample_unmarshal sample_answers sample_writer)) (Some (remembering (\<lambda>_. None))), (r, 0), [])
      [''one''] = (q, (r', 3), [record_event sample_record ''one''])" by simp
  have pl: "\<forall>op \<in> set [sample_admission]. op_plain sample_unmarshal (jo_incarnation sample_restart_options) op"
    using sample_plain by simp
  have rr: "r = foldl (realm_step sample_unmarshal) r0 [sample_admission]" using s(2) by simp
  from subscribers_see_exactly_committed [OF s(1) _ _ _ pl rr s(3) _ _ run] s(4,5) w(2-4) obtain disk where
    "map_of (rl_disk r') journal_sample_key = Some disk" "projected p = [record_event sample_record ''one'']"
    "pj_state (open_existing sample_unmarshal disk) = EligibilityLegacy"
    "projected (open_existing sample_unmarshal disk) = [record_event sample_record ''one'']"
    by (auto simp: sample_restart_options_def)
  then show ?thesis using s(1,2) w(2) run by auto
qed

end
