(* ===== verification/Spec2Isabelle.thy ===== *)
theory Spec2Isabelle
  imports Control_Decoder Control_Router Transient_Budget Terminal_Frame Frame_Json Terminal_Automaton
    Ingress_Marker History_Cut Work_Gate Cut_Scheduler Pinned_Source Input_Pump Egress_Queue
    Start_Attempt Marker_Digest Epoch_Wire Epoch_Ending Epoch_Cleanup Epoch_Output Epoch_Input
    Journal_Record Journal_Parse Journal_Recovery Journal_Projection Journal_Pane Keyed Journal_Source_Quota Journal_Retention Journal_Realm Journal_Admission Journal_Ledger Journal_Effects Journal_Caps Journal_Bounds Journal_Runs Journal_Corners Journal_Survival Journal_Sequencer Epoch_Samples
begin

text \<open>
  A model of persea-terminal, the Go program that shows tmux panes in browsers. A broker process owns tmux, a
  front door owns the browsers. Three of its parts carry its own logic and are modelled here:

  \<^item> \<^verbatim>\<open>internal/controlmode\<close> and the recorder's budget in \<^verbatim>\<open>internal/broker\<close>:
    a tmux control-mode client whose stream is decoded, routed to the panes that were admitted, and paid for by a
    memory budget.
  \<^item> \<^verbatim>\<open>internal/terminal\<close>: the attachment of one browser to one pane. The epoch owns a protocol
    automaton, a scheduler of cuts, the parser that finds the cut's marker in the PTY output, the input pump and
    the sender, and is started and cleaned up by transactions with the pinned tmux source.
  \<^item> \<^verbatim>\<open>internal/unifiedjournal\<close>: the recording of the panes. A realm keeps one append-only file
    per pane generation, with two byte ledgers, complete-pane slots, a source quota, and the reservations of
    adoptions, rotations and geometry changes.

  How they interact: decoded output goes through the router to the journal, whose committed projection is what
  a subscriber is shown; an epoch is fed by the PTY of its own attachment.

  Parts and theories (paths are under \<^verbatim>\<open>src/internal/\<close>):

  \<^item> \<open>Prelude\<close>, \<open>Keyed\<close>, \<open>Utf8\<close>, \<open>Sha256\<close>: bytes, 64-bit
    counters, Go errors with \<^verbatim>\<open>errors.Is\<close>, the locales of machines with an invariant and with a final
    state, Go maps as association lists with distinct keys, and the parts of the standard library the sources use.
  \<^item> \<open>Control_Decoder\<close> (\<^verbatim>\<open>controlmode/decoder.go, memory.go\<close>), \<open>Control_Router\<close>
    (\<^verbatim>\<open>router.go\<close>), \<open>Transient_Budget\<close> (\<^verbatim>\<open>broker/recording_copies.go,
    recording_transients.go\<close>): the decoder takes its memory through the locale \<open>memory_contract\<close>,
    which the budget provides.
  \<^item> \<open>Terminal_Frame\<close>, \<open>Frame_Json\<close>, \<open>Terminal_Automaton\<close>
    (\<^verbatim>\<open>terminal/protocol.go\<close>), \<open>Ingress_Marker\<close> (\<^verbatim>\<open>marker.go\<close>),
    \<open>History_Cut\<close> (\<^verbatim>\<open>history.go\<close>), \<open>Work_Gate\<close> (\<^verbatim>\<open>work_gate.go\<close>),
    \<open>Cut_Scheduler\<close> (\<^verbatim>\<open>scheduler.go\<close>), \<open>Pinned_Source\<close> (\<^verbatim>\<open>source.go\<close>),
    \<open>Input_Pump\<close> (\<^verbatim>\<open>input.go\<close>), \<open>Egress_Queue\<close> (\<^verbatim>\<open>egress.go\<close>),
    \<open>Start_Attempt\<close> (\<^verbatim>\<open>attempt.go\<close>): one theory per component of the attachment, its
    state a record, one function per operation or locked section.
  \<^item> \<open>Marker_Digest\<close>, \<open>Epoch_State\<close>, \<open>Epoch_Cuts\<close>, \<open>Epoch_Frames\<close>,
    \<open>Epoch\<close> (\<^verbatim>\<open>terminal/epoch.go\<close>): the epoch over those components and its step relation;
    \<open>Epoch_Invariants\<close> (the locales \<open>epoch_sections\<close> and \<open>epoch_keeps\<close> through which an
    invariant of one component becomes one of the epoch), \<open>Epoch_Lifecycle\<close>, \<open>Epoch_Ending\<close>,
    \<open>Epoch_Cleanup\<close>, \<open>Epoch_Wire\<close>, \<open>Epoch_Output\<close>, \<open>Epoch_Input\<close>: what holds of
    every run; \<open>Epoch_Samples\<close> holds one concrete attachment, from BIND to typed keys behind
    a second cut, at which those properties are instantiated.
  \<^item> \<open>Journal_Record\<close>, \<open>Journal_Parse\<close>, \<open>Journal_Recovery\<close>, \<open>Journal_Projection\<close>,
    \<open>Journal_Pane\<close> (\<^verbatim>\<open>unifiedjournal/journal.go, verified.go, memory.go\<close>): the file of one
    generation, its parser, what a restart recovers, how it is read, and how it is written and committed.
  \<^item> \<open>Journal_Retention\<close> (\<^verbatim>\<open>retention.go\<close>), \<open>Journal_Source_Quota\<close>
    (\<^verbatim>\<open>source_quota.go\<close>), \<open>Journal_Realm\<close>, \<open>Journal_Admission\<close>
    (\<^verbatim>\<open>journal.go, writer.go\<close>): the realm. \<open>Journal_Ledger\<close>, \<open>Journal_Effects\<close>,
    \<open>Journal_Caps\<close>, \<open>Journal_Bounds\<close> account for what each operation does to the ledgers;
    \<open>Journal_Runs\<close> has the realm's life; \<open>Journal_Corners\<close> two corners of it;
    \<open>Journal_Survival\<close> composes the realm with the files of its panes: what a restart finds;
    \<open>Journal_Sequencer\<close> (\<^verbatim>\<open>eligibility.go, writer.go\<close>) puts the sequencer and its subscribers on top,
    through the locale \<open>write_ahead_contract\<close> that the realm's writer provides.

  What the lemmas show. Of every component an invariant that its operations keep, and from it the properties
  numbered by claim ids: that the decoder and the marker parser do not depend on how their input is cut up and lose
  nothing; that LIVE, INPUT and RESIZE are accepted only under an established cut and a granted mode; that every
  accepted input is settled exactly once and revoked input never written; that a live epoch shows exactly the
  bytes its PTY wrote and sends only frames the automaton accepts; that it ends once and cleans up only what BIND
  handed over, completely only when the source answered cleanly; that the observer's reader stays within the
  capacity of its memory account and gives everything back; that a journal cut at any byte recovers to the last complete record, that acknowledged commits
  survive any failure of the operating system, that the projection is delivered without loss, and that a realm
  stays within its caps whatever fails.

  Bounds and fuel. No definition runs on fuel: loops are structural or have a measure (the rest of the buffer,
  the queue, the distance to the page's end). Integers are mathematical where the code bounds them before use (sizes,
  caps, offsets of files below \<open>2 ^ 63\<close> bytes) and machine words or explicit wrap-around where they can
  overflow (sequence numbers, tickets, generations, lengths in frames).

  Parameters. Transactions with tmux and probes of processes (\<open>run_pinned\<close>, \<open>probe_witness\<close>),
  the decoding of a journal header's JSON (\<open>unmarshal\<close>, assumed to invert the encoding where a property needs
  it) and every answer of the operating system: each write, sync, create and unlink comes with how it ends.
  Files are named by the pane's key; the hashed file name is taken to be injective.

  Concurrency. A locked section is one step; goroutines are interleavings of such steps; channels and timers are
  events. The realm's operations run one at a time because of its ticket lock, which is modelled itself.

  Not modelled. The front door's and the broker's servers, stores and runtime goroutines (I/O and wiring around
  the parts above), the configuration, the control protocol's and
  the attachment wire's messages, diagnostics, raw system calls
  (\<^verbatim>\<open>terminal/input_linux.go\<close>, credentials), the descriptor checks and the floating-point
  share of the file system in \<^verbatim>\<open>openRealm\<close>, the counters of
  \<^verbatim>\<open>unifiedjournal/progress.go\<close>, and the browser client.
\<close>

end
